(* ===== verification/Nosis_Prelude.thy ===== *)
theory Nosis_Prelude
  imports Main "HOL-Library.AList" "HOL-Library.Sublist" "HOL-Library.Char_ord"
begin

text \<open>
  The vocabulary every component of the development shares.

  \<^item> Exceptions are values: \<open>exn\<close> names the Python exception classes the modelled code
    raises and \<open>'a res\<close> is the result of a fallible call (\<open>Inl\<close> the exception).
  \<^item> A Python \<open>dict\<close> is an association list with distinct keys in insertion order;
    \<open>AList.update\<close> overwrites in place or appends, exactly as item assignment does.
  \<^item> JSON values (\<open>JSONValue\<close> of \<open>agent_core/tools/base.py\<close>) are the datatype \<open>json\<close>.
    A finite float is its mantissa and binary exponent.
  \<^item> A Python \<open>str\<close> is a \<open>string\<close>: every \<open>char\<close> stands for one code point (0 to 255), so
    \<open>length\<close> is \<open>len\<close>. The white space and line boundary tables below are Python's tables
    restricted to those code points.
  \<^item> A log that is only appended to and a state that is rebuilt by replaying it occur three
    times in the program (the Session journal, the schedule file, the memory of a stream of
    fragments). The locale \<open>replay_log\<close> states that contract once.
\<close>

section \<open>Exceptions and results\<close>

datatype json =
    JNull
  | JBool bool
  | JInt int
  | JFloat int int
  | JStr string
  | JList "json list"
  | JObj "(string \<times> json) list"

datatype exn =
    ValueError string
  | TypeError string
  | KeyError string
  | IndexError string
  | AttributeError string
  | RuntimeError string
  | AssertionError
  | PermissionError string
  | OSError string
  | OverflowError string
  | JSONDecodeError
  | UnicodeDecodeError
  | AgentCancelled
  | KeyboardInterrupt
  | ProviderProtocolError string
  | ProviderFailure string string "(string \<times> json) list"
    \<comment> \<open>a \<open>ProviderError\<close> with its class, message and details\<close>
  | ToolCallLimitExceededError string int
  | ContextWindowExceededError int int int
  | JobCancelled
  | HookRejectedError string
  | HookExecutionError string
  | ToolExecutionError string string "(string \<times> json) list option"
  | Untyped string
    \<comment> \<open>the record holds a value of a type the code never writes and would carry on unchecked\<close>

type_synonym 'a res = "exn + 'a"

named_theorems res_simps \<open>evaluation of results\<close>
named_theorems str_simps \<open>evaluation of the string operations\<close>

fun res_bind :: "'a res \<Rightarrow> ('a \<Rightarrow> 'b res) \<Rightarrow> 'b res" where
  "res_bind (Inl e) f = Inl e"
| "res_bind (Inr x) f = f x"

fun res_map :: "('a \<Rightarrow> 'b) \<Rightarrow> 'a res \<Rightarrow> 'b res" where
  "res_map f (Inl e) = Inl e"
| "res_map f (Inr x) = Inr (f x)"

text \<open>A comprehension over a fallible function: the first exception wins.\<close>

fun res_list :: "('a \<Rightarrow> 'b res) \<Rightarrow> 'a list \<Rightarrow> 'b list res" where
  "res_list f [] = Inr []"
| "res_list f (x # xs) = res_bind (f x) (\<lambda>y. res_bind (res_list f xs) (\<lambda>ys. Inr (y # ys)))"

definition is_ok :: "'a res \<Rightarrow> bool" where
  "is_ok r = (case r of Inl _ \<Rightarrow> False | Inr _ \<Rightarrow> True)"

lemma is_ok_simps [simp]: "is_ok (Inr x)" "\<not> is_ok (Inl e)"
  by (simp_all add: is_ok_def)

lemma is_ok_iff: "is_ok r \<longleftrightarrow> (\<exists>x. r = Inr x)"
  by (cases r) auto

lemma res_bind_Inr_iff [simp]: "res_bind r f = Inr y \<longleftrightarrow> (\<exists>x. r = Inr x \<and> f x = Inr y)"
  by (cases r) auto

lemma res_bind_Inl_iff: "res_bind r f = Inl e \<longleftrightarrow> r = Inl e \<or> (\<exists>x. r = Inr x \<and> f x = Inl e)"
  by (cases r) auto

lemma res_map_Inr_iff [simp]: "res_map f r = Inr y \<longleftrightarrow> (\<exists>x. r = Inr x \<and> y = f x)"
  by (cases r) auto

lemma res_map_Inl_iff [simp]: "res_map f r = Inl e \<longleftrightarrow> r = Inl e"
  by (cases r) auto

lemma res_map_bind: "res_map f (res_bind r g) = res_bind r (\<lambda>x. res_map f (g x))"
  by (cases r) auto

lemma res_bind_map: "res_bind (res_map f r) g = res_bind r (\<lambda>x. g (f x))"
  by (cases r) auto

lemma res_bind_assoc: "res_bind (res_bind r f) g = res_bind r (\<lambda>x. res_bind (f x) g)"
  by (cases r) auto

lemma res_bind_cong [fundef_cong]:
  "r = r' \<Longrightarrow> (\<And>x. r' = Inr x \<Longrightarrow> f x = f' x) \<Longrightarrow> res_bind r f = res_bind r' f'"
  by (cases r') auto

lemma res_list_all_ok:
  "(\<And>x. x \<in> set xs \<Longrightarrow> f x = Inr (g x)) \<Longrightarrow> res_list f xs = Inr (map g xs)"
  by (induction xs) auto

lemma res_list_inverse:
  "(\<And>x. x \<in> set xs \<Longrightarrow> f (g x) = Inr x) \<Longrightarrow> res_list f (map g xs) = Inr xs"
  by (induction xs) auto

lemma res_list_length: "res_list f xs = Inr ys \<Longrightarrow> length ys = length xs"
  by (induction xs arbitrary: ys) auto

lemma res_list_set: "res_list f xs = Inr ys \<Longrightarrow> y \<in> set ys \<Longrightarrow> \<exists>x \<in> set xs. f x = Inr y"
  by (induction xs arbitrary: ys) auto

lemmas res_defs [res_simps] = res_bind.simps res_map.simps res_list.simps

section \<open>Dictionaries\<close>

type_synonym ('k, 'v) dict = "('k \<times> 'v) list"

definition dict_ok :: "('k, 'v) dict \<Rightarrow> bool" where
  "dict_ok d \<longleftrightarrow> distinct (map fst d)"

lemma dict_ok_Nil [simp]: "dict_ok []"
  by (simp add: dict_ok_def)

lemma dict_ok_update [simp]: "dict_ok d \<Longrightarrow> dict_ok (AList.update k v d)"
  by (simp add: dict_ok_def distinct_update)

lemma dict_ok_delete [simp]: "dict_ok d \<Longrightarrow> dict_ok (AList.delete k d)"
  by (simp add: dict_ok_def distinct_delete)

lemma dict_get_update [simp]:
  "map_of (AList.update k v d) k' = (if k' = k then Some v else map_of d k')"
  by (simp add: update_conv')

lemma dict_get_delete [simp]:
  "map_of (AList.delete k d) k' = (if k' = k then None else map_of d k')"
  by (simp add: delete_conv')

lemma dict_mem_get: "dict_ok d \<Longrightarrow> (k, v) \<in> set d \<longleftrightarrow> map_of d k = Some v"
  by (simp add: dict_ok_def)

lemma dict_update_mem:
  "(k', v') \<in> set (AList.update k v d) \<Longrightarrow> (k' = k \<and> v' = v) \<or> (k', v') \<in> set d"
  by (induction d) (auto split: if_splits)

lemma dict_update_new: "map_of d k = None \<Longrightarrow> AList.update k v d = d @ [(k, v)]"
  by (induction d) auto

lemma map_fst_update:
  "map fst (AList.update k v d) = (if k \<in> fst ` set d then map fst d else map fst d @ [k])"
  by (induction d) auto

text \<open>Updating the value stored under a key that is known to be present.\<close>

definition dict_modify :: "'k \<Rightarrow> ('v \<Rightarrow> 'v) \<Rightarrow> ('k, 'v) dict \<Rightarrow> ('k, 'v) dict" where
  "dict_modify k f d = (case map_of d k of None \<Rightarrow> d | Some v \<Rightarrow> AList.update k (f v) d)"

lemma dict_get_modify [simp]:
  "map_of (dict_modify k f d) k' = (if k' = k then map_option f (map_of d k) else map_of d k')"
  by (auto simp: dict_modify_def split: option.splits)

lemma dict_ok_modify [simp]: "dict_ok d \<Longrightarrow> dict_ok (dict_modify k f d)"
  by (simp add: dict_modify_def split: option.splits)

lemma dict_modify_keys [simp]: "map fst (dict_modify k f d) = map fst d"
  by (auto simp: dict_modify_def map_fst_update map_of_eq_None_iff split: option.splits)

text \<open>When every value knows its own key, the keys of the values with a property are an image.\<close>

lemma dict_keys_where:
  assumes "dict_ok d" and "\<forall>(k, v) \<in> set d. f v = k"
  shows "{k. \<exists>v. map_of d k = Some v \<and> P v} = f ` {v \<in> set (map snd d). P v}"
proof -
  have "map_of d k = Some v \<longleftrightarrow> (k, v) \<in> set d" for k v using assms(1) by (simp add: dict_mem_get)
  with assms(2) show ?thesis by (auto simp: image_iff Bex_def)
qed

section \<open>JSON values\<close>

type_synonym jobj = "(string, json) dict"

text \<open>\<open>d.get(k)\<close>: a missing key and a stored \<open>null\<close> are both \<open>None\<close>.\<close>

definition jget :: "jobj \<Rightarrow> string \<Rightarrow> json" where
  "jget d k = (case map_of d k of None \<Rightarrow> JNull | Some v \<Rightarrow> v)"

text \<open>\<open>d[k]\<close>: a missing key raises.\<close>

definition jindex :: "jobj \<Rightarrow> string \<Rightarrow> json res" where
  "jindex d k = (case map_of d k of None \<Rightarrow> Inl (KeyError k) | Some v \<Rightarrow> Inr v)"

text \<open>\<open>d.get(k) if isinstance(d.get(k), str) else None\<close>.\<close>

definition jget_str :: "jobj \<Rightarrow> string \<Rightarrow> string option" where
  "jget_str d k = (case jget d k of JStr s \<Rightarrow> Some s | _ \<Rightarrow> None)"

definition jopt_str :: "string option \<Rightarrow> json" where
  "jopt_str s = (case s of None \<Rightarrow> JNull | Some x \<Rightarrow> JStr x)"

definition jopt_int :: "int option \<Rightarrow> json" where
  "jopt_int i = (case i of None \<Rightarrow> JNull | Some x \<Rightarrow> JInt x)"

fun is_jobj :: "json \<Rightarrow> bool" where
  "is_jobj (JObj _) = True"
| "is_jobj _ = False"

lemma jget_Nil [simp]: "jget [] k = JNull"
  by (simp add: jget_def)

lemma jget_Cons [simp]: "jget ((k, v) # d) k' = (if k' = k then v else jget d k')"
  by (simp add: jget_def)

lemma jindex_Nil [simp]: "jindex [] k = Inl (KeyError k)"
  by (simp add: jindex_def)

lemma jindex_Cons [simp]: "jindex ((k, v) # d) k' = (if k' = k then Inr v else jindex d k')"
  by (simp add: jindex_def)

lemma jget_append: "jget (d @ d') k = (if map_of d k = None then jget d' k else jget d k)"
  by (simp add: jget_def map_add_def split: option.splits)

lemma jget_str_Some: "jget d k = JStr s \<Longrightarrow> jget_str d k = Some s"
  by (simp add: jget_str_def)

lemma jopt_str_simps [simp]: "jopt_str None = JNull" "jopt_str (Some s) = JStr s"
  by (simp_all add: jopt_str_def)

lemma jopt_int_simps [simp]: "jopt_int None = JNull" "jopt_int (Some i) = JInt i"
  by (simp_all add: jopt_int_def)

text \<open>The JSON library: \<open>json.dumps\<close> and \<open>json.loads\<close>, \<open>None\<close> when the text does not decode.\<close>

record json_lib =
  jl_dumps :: "json \<Rightarrow> string"
  jl_loads :: "string \<Rightarrow> json option"

section \<open>Strings\<close>

text \<open>\<open>str.isspace\<close> on one code point.\<close>

definition py_space :: "char \<Rightarrow> bool" where
  "py_space c = (of_char c \<in> set [9, 10, 11, 12, 13, 28, 29, 30, 31, 32, 133, 160 :: nat])"

text \<open>The code points at which \<open>str.splitlines\<close> ends a line (a carriage return followed by a
  line feed is one boundary).\<close>

definition py_linebreak :: "char \<Rightarrow> bool" where
  "py_linebreak c = (of_char c \<in> set [10, 11, 12, 13, 28, 29, 30, 133 :: nat])"

abbreviation LF :: char where "LF \<equiv> CHR 0x0A"
abbreviation CR :: char where "CR \<equiv> CHR 0x0D"

lemma py_linebreak_space: "py_linebreak c \<Longrightarrow> py_space c"
  by (auto simp: py_linebreak_def py_space_def)

definition py_lstrip :: "string \<Rightarrow> string" where
  "py_lstrip s = dropWhile py_space s"

definition py_rstrip_set :: "(char \<Rightarrow> bool) \<Rightarrow> string \<Rightarrow> string" where
  "py_rstrip_set p s = rev (dropWhile p (rev s))"

definition py_rstrip :: "string \<Rightarrow> string" where
  "py_rstrip s = py_rstrip_set py_space s"

definition py_strip :: "string \<Rightarrow> string" where
  "py_strip s = py_rstrip (py_lstrip s)"

fun py_join :: "string \<Rightarrow> string list \<Rightarrow> string" where
  "py_join sep [] = []"
| "py_join sep [x] = x"
| "py_join sep (x # y # ys) = x @ sep @ py_join sep (y # ys)"

text \<open>\<open>s.replace(old, new)\<close> for an \<open>old\<close> that is not empty.\<close>

function py_replace :: "string \<Rightarrow> string \<Rightarrow> string \<Rightarrow> string" where
  "py_replace old new s =
     (if old = [] \<or> s = [] then s
      else if prefix old s then new @ py_replace old new (drop (length old) s)
      else hd s # py_replace old new (tl s))"
  by pat_completeness auto
termination by (relation "measure (\<lambda>(_, _, s). length s)") auto

declare py_replace.simps [simp del]

text \<open>\<open>s.split()\<close>: the maximal runs of characters that are not white space.\<close>

fun py_words_aux :: "string \<Rightarrow> string \<Rightarrow> string list" where
  "py_words_aux cur [] = (if cur = [] then [] else [rev cur])"
| "py_words_aux cur (c # cs) =
     (if py_space c then (if cur = [] then py_words_aux [] cs else rev cur # py_words_aux [] cs)
      else py_words_aux (c # cur) cs)"

definition py_words :: "string \<Rightarrow> string list" where
  "py_words s = py_words_aux [] s"

text \<open>\<open>s.split(c)\<close> for a one-character separator.\<close>

fun py_split :: "char \<Rightarrow> string \<Rightarrow> string list" where
  "py_split c [] = [[]]"
| "py_split c (x # xs) =
     (if x = c then [] # py_split c xs
      else (case py_split c xs of [] \<Rightarrow> [[x]] | y # ys \<Rightarrow> (x # y) # ys))"

text \<open>\<open>s.splitlines()\<close>.\<close>

fun py_splitlines_aux :: "string \<Rightarrow> string \<Rightarrow> string list" where
  "py_splitlines_aux cur [] = (if cur = [] then [] else [rev cur])"
| "py_splitlines_aux cur (c # cs) =
     (if c = CR \<and> take 1 cs = [LF] then rev cur # py_splitlines_aux [] (drop 1 cs)
      else if py_linebreak c then rev cur # py_splitlines_aux [] cs
      else py_splitlines_aux (c # cur) cs)"

definition py_splitlines :: "string \<Rightarrow> string list" where
  "py_splitlines s = py_splitlines_aux [] s"

text \<open>Decimal digits of a natural number and of an integer, as \<open>str(n)\<close> prints them.\<close>

definition digit_char :: "nat \<Rightarrow> char" where
  "digit_char n = char_of (48 + n)"

fun nat_str :: "nat \<Rightarrow> string" where
  "nat_str n = (if n < 10 then [digit_char n] else nat_str (n div 10) @ [digit_char (n mod 10)])"

declare nat_str.simps [simp del]

definition int_str :: "int \<Rightarrow> string" where
  "int_str i = (if i < 0 then CHR ''-'' # nat_str (nat (- i)) else nat_str (nat i))"

text \<open>A text between single quotes, as the messages of the source quote names.\<close>

definition quoted :: "string \<Rightarrow> string" where
  "quoted s = CHR 0x27 # s @ [CHR 0x27]"

text \<open>The lines of a text stream whose only line end is LF, each with its end.\<close>

fun lines_keep_aux :: "string \<Rightarrow> string \<Rightarrow> string list" where
  "lines_keep_aux cur [] = (if cur = [] then [] else [rev cur])"
| "lines_keep_aux cur (c # cs) =
     (if c = LF then rev (c # cur) # lines_keep_aux [] cs else lines_keep_aux (c # cur) cs)"

definition lines_keep :: "string \<Rightarrow> string list" where
  "lines_keep s = lines_keep_aux [] s"

text \<open>Universal newline translation (\<open>newline=None\<close>).\<close>

fun universal_newlines :: "string \<Rightarrow> string" where
  "universal_newlines [] = []"
| "universal_newlines (c # cs) =
     (if c = CR then LF # universal_newlines (if take 1 cs = [LF] then drop 1 cs else cs)
      else c # universal_newlines cs)"

lemma lines_keep_aux_concat: "concat (lines_keep_aux cur s) = rev cur @ s"
  by (induction s arbitrary: cur) auto

lemma lines_keep_concat: "concat (lines_keep s) = s"
  by (simp add: lines_keep_def lines_keep_aux_concat)

lemma py_strip_Nil [simp]: "py_strip [] = []"
  by (simp add: py_strip_def py_rstrip_def py_rstrip_set_def py_lstrip_def)

lemma py_rstrip_set_idem [simp]: "py_rstrip_set p (py_rstrip_set p s) = py_rstrip_set p s"
  by (simp add: py_rstrip_set_def)

lemma py_rstrip_set_prefix: "prefix (py_rstrip_set p s) s"
proof -
  have "suffix (dropWhile p (rev s)) (rev s)" by (rule suffix_dropWhile)
  then show ?thesis by (simp add: py_rstrip_set_def suffix_to_prefix)
qed

lemma hd_py_rstrip_set: "py_rstrip_set p s \<noteq> [] \<Longrightarrow> hd (py_rstrip_set p s) = hd s"
  using py_rstrip_set_prefix [of p s] by (metis hd_append2 prefixE)

lemma last_py_rstrip_set: "py_rstrip_set p s \<noteq> [] \<Longrightarrow> \<not> p (last (py_rstrip_set p s))"
  using hd_dropWhile [of p "rev s"] by (simp add: py_rstrip_set_def last_rev)

text \<open>A stripped string is empty or begins and ends with characters that are not white space.\<close>

definition stripped :: "string \<Rightarrow> bool" where
  "stripped s \<longleftrightarrow> s = [] \<or> (\<not> py_space (hd s) \<and> \<not> py_space (last s))"

lemma stripped_py_strip: "stripped (py_strip s)"
proof (cases "py_strip s = []")
  case False
  let ?l = "py_lstrip s"
  from False have ne: "py_rstrip_set py_space ?l \<noteq> []"
    by (simp add: py_strip_def py_rstrip_def)
  then have "?l \<noteq> []" by (auto simp: py_rstrip_set_def)
  then have "\<not> py_space (hd ?l)" by (simp add: py_lstrip_def hd_dropWhile)
  with ne hd_py_rstrip_set [OF ne] last_py_rstrip_set [OF ne] show ?thesis
    by (simp add: stripped_def py_strip_def py_rstrip_def)
qed (simp add: stripped_def)

lemma py_strip_stripped: "stripped s \<Longrightarrow> py_strip s = s"
proof (cases s rule: rev_cases)
  case (snoc ys y)
  assume st: "stripped s"
  with snoc have h: "\<not> py_space (hd s)" and l: "\<not> py_space y" by (auto simp: stripped_def)
  from h have "py_lstrip s = s" by (simp add: py_lstrip_def dropWhile_eq_self_iff)
  with l snoc show ?thesis by (simp add: py_strip_def py_rstrip_def py_rstrip_set_def)
qed (simp add: py_strip_def py_rstrip_def py_rstrip_set_def py_lstrip_def)

lemma py_strip_idem [simp]: "py_strip (py_strip s) = py_strip s"
  by (simp add: py_strip_stripped stripped_py_strip)

lemma py_strip_length: "length (py_strip s) \<le> length s"
proof -
  have "length (py_strip s) \<le> length (py_lstrip s)"
    using py_rstrip_set_prefix [of py_space "py_lstrip s"]
    by (simp add: py_strip_def py_rstrip_def prefix_length_le)
  also have "\<dots> \<le> length s" by (simp add: py_lstrip_def length_dropWhile_le)
  finally show ?thesis .
qed

lemma py_strip_Nil_iff: "py_strip s = [] \<longleftrightarrow> (\<forall>c \<in> set s. py_space c)"
proof -
  have "py_strip s = [] \<longleftrightarrow> (\<forall>c \<in> set (dropWhile py_space s). py_space c)"
    by (simp add: py_strip_def py_rstrip_def py_rstrip_set_def py_lstrip_def dropWhile_eq_Nil_conv)
  also have "\<dots> \<longleftrightarrow> dropWhile py_space s = []"
    using hd_dropWhile [of py_space s] by (metis dropWhile_eq_Nil_conv hd_in_set list.set(1) empty_iff)
  finally show ?thesis by (simp add: dropWhile_eq_Nil_conv)
qed

lemma linebreak_LF_CR [simp]: "py_linebreak LF" "py_linebreak CR"
  by (simp_all add: py_linebreak_def)

lemma splitlines_aux_line:
  "list_all (\<lambda>c. \<not> py_linebreak c) l \<Longrightarrow> py_linebreak b \<Longrightarrow> b \<noteq> CR \<Longrightarrow>
   py_splitlines_aux cur (l @ b # rest) = (rev cur @ l) # py_splitlines_aux [] rest"
proof (induction l arbitrary: cur)
  case (Cons c l)
  then have "c \<noteq> CR" using linebreak_LF_CR(2) by auto
  with Cons show ?case by simp
qed simp

text \<open>A text with a character that is not white space has a line with it.\<close>

lemma py_splitlines_aux_keeps:
  "\<not> py_space c \<Longrightarrow> c \<in> set cur \<union> set s \<Longrightarrow> \<exists>l \<in> set (py_splitlines_aux cur s). c \<in> set l"
proof (induction cur s rule: py_splitlines_aux.induct)
  case (2 cur d cs)
  have d: "c \<noteq> d" if "py_linebreak d" using that 2(4) py_linebreak_space by auto
  have cr: "py_linebreak CR" "py_linebreak LF" by (simp_all add: py_linebreak_def)
  show ?case
  proof (cases "d = CR \<and> take 1 cs = [LF]")
    case True
    have "c \<in> set cur \<or> c \<in> set (drop 1 cs)"
      using 2(4,5) d cr True py_linebreak_space by (cases cs) auto
    with 2(1) [OF True 2(4)] True show ?thesis by auto
  next
    case False
    with 2 d show ?thesis by (cases "py_linebreak d") auto
  qed
qed auto

lemma py_splitlines_nonblank:
  "py_strip s \<noteq> [] \<Longrightarrow> \<exists>l \<in> set (py_splitlines s). py_strip l \<noteq> []"
  using py_splitlines_aux_keeps [of _ "[]" s] by (fastforce simp: py_splitlines_def py_strip_Nil_iff)

lemma nat_str_not_Nil [simp]: "nat_str n \<noteq> []"
  by (subst nat_str.simps) simp

section \<open>Replaying an append-only log\<close>

text \<open>
  \<open>step\<close> applies one record to a state and may raise. Replaying a log is the left fold that
  stops at the first exception. A live component appends each record it applies; the locale
  says what a reader who starts again from \<open>init\<close> and replays the file gets.
\<close>

fun replay :: "('s \<Rightarrow> 'e \<Rightarrow> 's res) \<Rightarrow> 's \<Rightarrow> 'e list \<Rightarrow> 's res" where
  "replay step s [] = Inr s"
| "replay step s (e # es) = res_bind (step s e) (\<lambda>s'. replay step s' es)"

lemma replay_append:
  "replay step s (es @ es') = res_bind (replay step s es) (\<lambda>s'. replay step s' es')"
  by (induction es arbitrary: s) (simp_all add: res_bind_assoc)

lemma replay_invariant:
  assumes "replay step s es = Inr s'" and "P s"
    and "\<And>s e s'. P s \<Longrightarrow> step s e = Inr s' \<Longrightarrow> P s'"
  shows "P s'"
  using assms(1,2) by (induction es arbitrary: s) (auto dest: assms(3))

locale replay_log =
  fixes step :: "'s \<Rightarrow> 'e \<Rightarrow> 's res"
    and init :: 's
    and live :: "'m \<Rightarrow> 's"
    and log :: "'m \<Rightarrow> 'e list"
    and emit :: "'m \<Rightarrow> 'e \<Rightarrow> 'm res"
  assumes emit_step: "emit m e = Inr m' \<Longrightarrow> step (live m) e = Inr (live m')"
    and emit_log: "emit m e = Inr m' \<Longrightarrow> log m' = log m @ [e]"
begin

text \<open>The live state is the replay of the log: the property that makes a restart lossless.\<close>

definition in_sync :: "'m \<Rightarrow> bool" where
  "in_sync m \<longleftrightarrow> replay step init (log m) = Inr (live m)"

lemma in_sync_start: "log m = [] \<Longrightarrow> live m = init \<Longrightarrow> in_sync m"
  by (simp add: in_sync_def)

lemma in_sync_emit: "in_sync m \<Longrightarrow> emit m e = Inr m' \<Longrightarrow> in_sync m'"
  using emit_step emit_log by (simp add: in_sync_def replay_append)

lemma in_sync_extend:
  "in_sync m \<Longrightarrow> log m' = log m @ es \<Longrightarrow> replay step (live m) es = Inr (live m') \<Longrightarrow> in_sync m'"
  by (simp add: in_sync_def replay_append)

fun emits :: "'m \<Rightarrow> 'e list \<Rightarrow> 'm res" where
  "emits m [] = Inr m"
| "emits m (e # es) = res_bind (emit m e) (\<lambda>m'. emits m' es)"

lemma in_sync_emits: "in_sync m \<Longrightarrow> emits m es = Inr m' \<Longrightarrow> in_sync m'"
  by (induction es arbitrary: m) (auto dest: in_sync_emit)

lemma emits_log: "emits m es = Inr m' \<Longrightarrow> log m' = log m @ es"
  by (induction es arbitrary: m) (auto dest: emit_log)

end

text \<open>
  A detailed component implements an abstract one when every step the abstract one can take from
  related states is taken by the detailed one and leads to related states; \<open>ok\<close> says when a step is
  promised. The contract carries over to sequences of steps.
\<close>

locale forward_simulation =
  fixes rel :: "'c \<Rightarrow> 'a \<Rightarrow> bool"
    and cstep :: "'c \<Rightarrow> 'e \<Rightarrow> 'c res"
    and astep :: "'a \<Rightarrow> 'e \<Rightarrow> 'a res"
    and ok :: "'a \<Rightarrow> 'e \<Rightarrow> bool"
  assumes step: "rel c a \<Longrightarrow> ok a e \<Longrightarrow> astep a e = Inr a' \<Longrightarrow> \<exists>c'. cstep c e = Inr c' \<and> rel c' a'"
begin

fun all_ok :: "'a \<Rightarrow> 'e list \<Rightarrow> bool" where
  "all_ok a [] = True"
| "all_ok a (e # es) = (ok a e \<and> (case astep a e of Inl _ \<Rightarrow> True | Inr a' \<Rightarrow> all_ok a' es))"

lemma replay_simulated:
  "rel c a \<Longrightarrow> all_ok a es \<Longrightarrow> replay astep a es = Inr a' \<Longrightarrow> \<exists>c'. replay cstep c es = Inr c' \<and> rel c' a'"
proof (induction es arbitrary: c a)
  case (Cons e es)
  then obtain a1 where a1: "astep a e = Inr a1" "replay astep a1 es = Inr a'" by auto
  with Cons.prems obtain c1 where "cstep c e = Inr c1" "rel c1 a1" using step by fastforce
  moreover have "all_ok a1 es" using Cons.prems(2) a1(1) by simp
  ultimately show ?case using Cons.IH [of c1 a1] a1(2) by simp
qed simp

end

section \<open>The text of an exception\<close>

text \<open>\<open>str(error)\<close>; the messages of the two limit errors are built by their constructors.\<close>

fun exn_str :: "exn \<Rightarrow> string" where
  "exn_str (ValueError s) = s"
| "exn_str (TypeError s) = s"
| "exn_str (KeyError s) = quoted s"
| "exn_str (IndexError s) = s"
| "exn_str (AttributeError s) = s"
| "exn_str (RuntimeError s) = s"
| "exn_str AssertionError = []"
| "exn_str (PermissionError s) = s"
| "exn_str (OSError s) = s"
| "exn_str (OverflowError s) = s"
| "exn_str JSONDecodeError = ''JSON decode error''"
| "exn_str UnicodeDecodeError = ''invalid byte sequence''"
| "exn_str AgentCancelled = []"
| "exn_str KeyboardInterrupt = []"
| "exn_str (ProviderProtocolError s) = s"
| "exn_str (ProviderFailure c m d) = m"
| "exn_str (ToolCallLimitExceededError name limit) =
     ''tool call '' @ quoted name @ '' exceeded the maximum of '' @ int_str limit
       @ '' identical consecutive executions''"
| "exn_str (ContextWindowExceededError input max_context reserve) =
     ''input context contains '' @ int_str input @ '' tokens, exceeding the maximum of ''
     @ int_str (max_context - reserve) @ '' tokens ('' @ int_str max_context @ '' context tokens minus ''
     @ int_str reserve @ '' reserved output tokens)''"
| "exn_str JobCancelled = []"
| "exn_str (HookRejectedError s) = s"
| "exn_str (HookExecutionError s) = s"
| "exn_str (ToolExecutionError t m d) = m"
| "exn_str (Untyped s) = s"

section \<open>Python conversions of JSON values\<close>

text \<open>\<open>str(v)\<close> for the values whose text is short and fixed; containers and floats never reach
  it in records the program wrote.\<close>

definition py_str :: "json \<Rightarrow> string res" where
  "py_str v = (case v of
      JStr s \<Rightarrow> Inr s
    | JNull \<Rightarrow> Inr ''None''
    | JBool b \<Rightarrow> Inr (if b then ''True'' else ''False'')
    | JInt i \<Rightarrow> Inr (int_str i)
    | _ \<Rightarrow> Inl (Untyped ''str''))"

text \<open>\<open>int(v)\<close>.\<close>

definition py_int :: "json \<Rightarrow> int res" where
  "py_int v = (case v of
      JInt i \<Rightarrow> Inr i
    | JBool b \<Rightarrow> Inr (if b then 1 else 0)
    | JNull \<Rightarrow> Inl (TypeError ''int() argument must be a string or a real number'')
    | JList _ \<Rightarrow> Inl (TypeError ''int() argument must be a string or a real number'')
    | JObj _ \<Rightarrow> Inl (TypeError ''int() argument must be a string or a real number'')
    | _ \<Rightarrow> Inl (Untyped ''int''))"

text \<open>\<open>bool(v)\<close>.\<close>

definition py_truthy :: "json \<Rightarrow> bool" where
  "py_truthy v = (case v of
      JNull \<Rightarrow> False | JBool b \<Rightarrow> b | JInt i \<Rightarrow> i \<noteq> 0 | JFloat m _ \<Rightarrow> m \<noteq> 0 | JStr s \<Rightarrow> s \<noteq> [] | JList l \<Rightarrow> l \<noteq> [] | JObj d \<Rightarrow> d \<noteq> [])"

lemma py_str_JStr [simp]: "py_str (JStr s) = Inr s"
  by (simp add: py_str_def)

lemma py_int_JInt [simp]: "py_int (JInt i) = Inr i"
  by (simp add: py_int_def)

end
