(* ===== verification/Content.thy ===== *)
theory Content
  imports Nosis_Prelude
begin

text \<open>
  Message parts (\<open>agent_core/content.py\<close>), token usage (\<open>agent_core/usage.py\<close>) and the
  structured runtime errors (\<open>agent_core/errors.py\<close>): the data that Sessions persist.
\<close>

section \<open>Message parts\<close>

datatype part =
    TextPart (part_text: string)
  | ImagePart (part_path: string) (part_mime_type: string) (part_filename: string) (part_size: int)
  | FilePart (part_path: string) (part_filename: string) (part_mime_type: string) (part_size: int)

text \<open>\<open>Content\<close> is \<open>str | tuple[ContentPart, ...] | None\<close>.\<close>

datatype content = CNone | CStr string | CParts "part list"

fun is_text :: "part \<Rightarrow> bool" where
  "is_text (TextPart _) = True"
| "is_text _ = False"

fun is_image :: "part \<Rightarrow> bool" where
  "is_image (ImagePart _ _ _ _) = True"
| "is_image _ = False"

fun is_file :: "part \<Rightarrow> bool" where
  "is_file (FilePart _ _ _ _) = True"
| "is_file _ = False"

fun content_parts :: "content \<Rightarrow> part list" where
  "content_parts CNone = []"
| "content_parts (CStr s) = [TextPart s]"
| "content_parts (CParts ps) = ps"

definition text_of_parts :: "part list \<Rightarrow> string" where
  "text_of_parts ps = concat (map part_text (filter is_text ps))"

definition text_content :: "content \<Rightarrow> string option" where
  "text_content c =
     (let ps = content_parts c in
      if ps = [] then None
      else let t = text_of_parts ps in if t = [] then None else Some t)"

definition historical_content :: "content \<Rightarrow> string option" where
  "historical_content c =
     (let ps = content_parts c;
          files = filter is_file ps;
          sections = (case text_content c of None \<Rightarrow> [] | Some t \<Rightarrow> [t])
            @ (if \<exists>p \<in> set ps. is_image p
               then [''[Image attachment omitted from historical context]''] else [])
            @ (if files \<noteq> []
               then [''Attached files:'' @ [LF] @ py_join [LF]
                 (map (\<lambda>p. ''- '' @ part_filename p @ '' ('' @ part_path p @ '', ''
                    @ part_mime_type p @ '', '' @ int_str (part_size p) @ '' bytes)'') files)]
               else []);
          r = py_join [LF] sections
      in if r = [] then None else Some r)"

text \<open>A historical view never carries media: it depends on the text and the attachment list only.\<close>

lemma text_of_parts_text [simp]: "text_of_parts [TextPart s] = s"
  by (simp add: text_of_parts_def)

lemma part_kinds: "is_text p \<or> is_image p \<or> is_file p"
  by (cases p) auto

section \<open>Token usage\<close>

record input_token_anchor =
  ita_fingerprint :: string
  ita_local_tokens :: int
  ita_input_tokens :: int

record token_usage =
  tu_input_tokens :: "int option"
  tu_output_tokens :: "int option"
  tu_total_tokens :: "int option"
  tu_cache_read_tokens :: "int option"
  tu_cache_write_tokens :: "int option"

record input_token_estimate =
  ite_fingerprint :: string
  ite_local_tokens :: int
  ite_tokens :: int

record cache_usage =
  cu_input_tokens :: int
  cu_cache_read_tokens :: int

definition estimate_anchor ::
  "input_token_estimate \<Rightarrow> token_usage option \<Rightarrow> input_token_anchor option" where
  "estimate_anchor est usage =
     (case usage of None \<Rightarrow> None
      | Some u \<Rightarrow> (case tu_input_tokens u of None \<Rightarrow> None
         | Some n \<Rightarrow> Some \<lparr>ita_fingerprint = ite_fingerprint est,
             ita_local_tokens = ite_local_tokens est, ita_input_tokens = n\<rparr>))"

definition usage_to_dict :: "token_usage option \<Rightarrow> json" where
  "usage_to_dict usage =
     (case usage of None \<Rightarrow> JNull
      | Some u \<Rightarrow> JObj
          [(''input_tokens'', jopt_int (tu_input_tokens u)),
           (''output_tokens'', jopt_int (tu_output_tokens u)),
           (''total_tokens'', jopt_int (tu_total_tokens u)),
           (''cache_read_tokens'', jopt_int (tu_cache_read_tokens u)),
           (''cache_write_tokens'', jopt_int (tu_cache_write_tokens u))])"

definition cache_usage_to_dict :: "cache_usage option \<Rightarrow> json" where
  "cache_usage_to_dict usage =
     (case usage of None \<Rightarrow> JNull
      | Some u \<Rightarrow> JObj
          [(''input_tokens'', JInt (cu_input_tokens u)),
           (''cache_read_tokens'', JInt (cu_cache_read_tokens u))])"

section \<open>Runtime errors\<close>

record runtime_error_info =
  rei_type :: string
  rei_message :: string
  rei_details :: jobj

definition runtime_error_to_json :: "runtime_error_info \<Rightarrow> json" where
  "runtime_error_to_json e =
     JObj [(''type'', JStr (rei_type e)), (''message'', JStr (rei_message e)),
           (''details'', JObj (rei_details e))]"

definition runtime_error_from_dict :: "json \<Rightarrow> runtime_error_info res" where
  "runtime_error_from_dict data =
     (case data of
        JObj d \<Rightarrow>
          (case jget d ''type'' of
             JStr t \<Rightarrow>
               if t = [] then Inl (ValueError ''runtime error type must be a non-empty string'')
               else (case jget d ''message'' of
                  JStr m \<Rightarrow>
                    (case jget d ''details'' of
                       JObj det \<Rightarrow> Inr \<lparr>rei_type = t, rei_message = m, rei_details = det\<rparr>
                     | _ \<Rightarrow> Inl (ValueError ''runtime error details must be an object''))
                | _ \<Rightarrow> Inl (ValueError ''runtime error message must be a string''))
           | _ \<Rightarrow> Inl (ValueError ''runtime error type must be a non-empty string''))
      | _ \<Rightarrow> Inl (ValueError ''runtime error must be an object''))"

lemma runtime_error_roundtrip [simp]:
  "rei_type e \<noteq> [] \<Longrightarrow> runtime_error_from_dict (runtime_error_to_json e) = Inr e"
  by (simp add: runtime_error_from_dict_def runtime_error_to_json_def)

end
