(* ===== verification/Tool_Base.thy ===== *)
theory Tool_Base
  imports Content
begin

text \<open>
  The tool interface types of \<open>agent_core/tools/base.py\<close>: structured tool errors, tool calls
  with their persisted form, and tool results.
\<close>

record tool_error =
  te_type :: string
  te_message :: string
  te_details :: "jobj option"

definition tool_error_to_dict :: "tool_error \<Rightarrow> jobj" where
  "tool_error_to_dict e =
     [(''type'', JStr (te_type e)), (''message'', JStr (te_message e))]
     @ (case te_details e of None \<Rightarrow> [] | Some d \<Rightarrow> [(''details'', JObj d)])"

text \<open>
  The arguments of a call are a JSON object, or the provider's exact text when that text was
  not one; in the latter case \<open>tc_argument_error\<close> says why.
\<close>

record tool_call =
  tc_id :: string
  tc_name :: string
  tc_arguments :: json
  tc_argument_error :: "tool_error option"

text \<open>\<open>json.loads\<close> is passed as \<open>loads\<close>; \<open>Inl\<close> is the text of the decode error.\<close>

definition from_raw_arguments ::
  "(string \<Rightarrow> string + json) \<Rightarrow> string \<Rightarrow> string \<Rightarrow> string \<Rightarrow> tool_call" where
  "from_raw_arguments loads i n raw =
     (let bad = (\<lambda>message. \<lparr>tc_id = i, tc_name = n, tc_arguments = JStr raw,
            tc_argument_error = Some \<lparr>te_type = ''invalid_tool_arguments'',
              te_message = ''Invalid arguments for tool '' @ [CHR 0x27] @ n @ [CHR 0x27] @ '': '' @ message
                @ ''. Send a valid JSON object and call the tool again.'',
              te_details = None\<rparr>\<rparr>)
      in case loads raw of
           Inl message \<Rightarrow> bad message
         | Inr (JObj d) \<Rightarrow> \<lparr>tc_id = i, tc_name = n, tc_arguments = JObj d, tc_argument_error = None\<rparr>
         | Inr _ \<Rightarrow> bad ''arguments must be a JSON object'')"

definition tool_call_to_dict :: "tool_call \<Rightarrow> jobj" where
  "tool_call_to_dict c =
     [(''id'', JStr (tc_id c)), (''name'', JStr (tc_name c)), (''arguments'', tc_arguments c)]
     @ (case tc_argument_error c of None \<Rightarrow> []
        | Some e \<Rightarrow> [(''argument_error'', JObj (tool_error_to_dict e))])"

text \<open>\<open>ToolError(**error)\<close>: unknown, repeated or missing keywords raise \<open>TypeError\<close>.\<close>

definition tool_error_kwargs :: "json \<Rightarrow> tool_error res" where
  "tool_error_kwargs j =
     (case j of
        JObj d \<Rightarrow>
          if \<not> set (map fst d) \<subseteq> {''type'', ''message'', ''details''}
          then Inl (TypeError ''unexpected keyword argument'')
          else if map_of d ''type'' = None \<or> map_of d ''message'' = None
          then Inl (TypeError ''missing required argument'')
          else (case (jget d ''type'', jget d ''message'', jget d ''details'') of
             (JStr t, JStr m, JNull) \<Rightarrow> Inr \<lparr>te_type = t, te_message = m, te_details = None\<rparr>
           | (JStr t, JStr m, JObj det) \<Rightarrow> Inr \<lparr>te_type = t, te_message = m, te_details = Some det\<rparr>
           | _ \<Rightarrow> Inl (Untyped ''ToolError''))
      | _ \<Rightarrow> Inl (TypeError ''argument after ** must be a mapping''))"

definition tool_call_from_dict :: "jobj \<Rightarrow> tool_call res" where
  "tool_call_from_dict d =
     res_bind (jindex d ''id'') (\<lambda>i.
     res_bind (jindex d ''name'') (\<lambda>n.
     res_bind (jindex d ''arguments'') (\<lambda>a.
     res_bind (case jget d ''argument_error'' of JNull \<Rightarrow> Inr None
               | e \<Rightarrow> res_map Some (tool_error_kwargs e)) (\<lambda>err.
       case (i, n) of
         (JStr i', JStr n') \<Rightarrow>
           Inr \<lparr>tc_id = i', tc_name = n', tc_arguments = a, tc_argument_error = err\<rparr>
       | _ \<Rightarrow> Inl (Untyped ''ToolCall'')))))"

lemma tool_error_roundtrip [simp]: "tool_error_kwargs (JObj (tool_error_to_dict e)) = Inr e"
  by (cases "te_details e") (auto simp: tool_error_kwargs_def tool_error_to_dict_def)

lemma tool_call_roundtrip [simp]: "tool_call_from_dict (tool_call_to_dict c) = Inr c"
proof (cases "tc_argument_error c")
  case None
  then show ?thesis by (simp add: tool_call_from_dict_def tool_call_to_dict_def)
next
  case (Some e)
  then show ?thesis by (simp add: tool_call_from_dict_def tool_call_to_dict_def)
qed

text \<open>
  A tool result. The artifact callbacks of the source (\<open>artifact_writer\<close>,
  \<open>artifact_cleanup\<close>, \<open>artifact_preview\<close>) are not part of the serialized result.
\<close>

record tool_result =
  tr_tool_call_id :: string
  tr_name :: string
  tr_output :: json
  tr_error :: "tool_error option"
  tr_attachments :: "part list"
  tr_present_to_user :: bool
  tr_executed :: bool
  tr_hook_feedback :: "string list"

definition tool_result_data :: "tool_result \<Rightarrow> json" where
  "tool_result_data r =
     (case tr_error r of
        Some e \<Rightarrow> JObj [(''ok'', JBool False), (''error'', JObj (tool_error_to_dict e))]
      | None \<Rightarrow> JObj [(''ok'', JBool True), (''output'', tr_output r)])"

end
