(* ===== verification/Turn_Control.thy ===== *)
theory Turn_Control
  imports Tool_Base
begin

text \<open>
  Control of one active turn: the steering mailbox and the cancellation flag
  (\<open>agent_core/turn_control.py\<close>), and the repetition guard and continuation policy of the agent
  loop (\<open>agent_core/loop_policy.py\<close>). Every operation of the mailbox and of the control runs
  under a lock, so an execution is a sequence of atomic operations, whatever the threads.
\<close>

section \<open>The mailbox and the turn control\<close>

record user_steer =
  steer_id :: string
  steer_text :: string

record mailbox =
  mb_items :: "user_steer list"
  mb_received :: "string list"
  mb_accepting :: bool

definition new_mailbox :: mailbox where
  "new_mailbox = \<lparr>mb_items = [], mb_received = [], mb_accepting = True\<rparr>"

definition mb_submit :: "mailbox \<Rightarrow> user_steer \<Rightarrow> mailbox \<times> bool" where
  "mb_submit m s =
     (if \<not> mb_accepting m then (m, False)
      else if steer_id s \<in> set (mb_received m) then (m, True)
      else (m\<lparr>mb_received := steer_id s # mb_received m, mb_items := mb_items m @ [s]\<rparr>, True))"

definition mb_drain :: "mailbox \<Rightarrow> mailbox \<times> user_steer list" where
  "mb_drain m = (m\<lparr>mb_items := []\<rparr>, mb_items m)"

definition mb_drain_or_close :: "mailbox \<Rightarrow> mailbox \<times> user_steer list" where
  "mb_drain_or_close m =
     (if mb_items m \<noteq> [] then (m\<lparr>mb_items := []\<rparr>, mb_items m)
      else (m\<lparr>mb_accepting := False\<rparr>, []))"

definition mb_close :: "mailbox \<Rightarrow> mailbox" where
  "mb_close m = m\<lparr>mb_accepting := False, mb_items := []\<rparr>"

record turn_control =
  tc_steering :: mailbox
  tc_cancelled :: bool
  tc_finished :: bool

definition new_turn_control :: turn_control where
  "new_turn_control = \<lparr>tc_steering = new_mailbox, tc_cancelled = False, tc_finished = False\<rparr>"

definition tc_steer :: "turn_control \<Rightarrow> string \<Rightarrow> string \<Rightarrow> turn_control \<times> bool" where
  "tc_steer c i t =
     (if tc_cancelled c \<or> tc_finished c then (c, False)
      else let (m, ok) = mb_submit (tc_steering c) \<lparr>steer_id = i, steer_text = t\<rparr>
           in (c\<lparr>tc_steering := m\<rparr>, ok))"

definition tc_drain_steering :: "turn_control \<Rightarrow> turn_control \<times> user_steer list" where
  "tc_drain_steering c =
     (if tc_cancelled c \<or> tc_finished c then (c, [])
      else let (m, ss) = mb_drain (tc_steering c) in (c\<lparr>tc_steering := m\<rparr>, ss))"

definition tc_finish :: "turn_control \<Rightarrow> turn_control \<times> user_steer list" where
  "tc_finish c =
     (if tc_cancelled c \<or> tc_finished c then (c, [])
      else let (m, ss) = mb_drain_or_close (tc_steering c)
           in (c\<lparr>tc_steering := m, tc_finished := (if ss = [] then True else tc_finished c)\<rparr>, ss))"

definition tc_cancel :: "turn_control \<Rightarrow> turn_control \<times> bool" where
  "tc_cancel c =
     (if tc_finished c \<or> tc_cancelled c then (c, False)
      else (c\<lparr>tc_cancelled := True, tc_steering := mb_close (tc_steering c)\<rparr>, True))"

text \<open>\<open>external\<close> is the answer of the optional external cancellation callback.\<close>

definition tc_is_cancelled :: "bool option \<Rightarrow> turn_control \<Rightarrow> bool" where
  "tc_is_cancelled external c \<longleftrightarrow> tc_cancelled c \<or> external = Some True"

definition tc_raise_if_cancelled :: "bool option \<Rightarrow> turn_control \<Rightarrow> unit res" where
  "tc_raise_if_cancelled external c = (if tc_is_cancelled external c then Inl AgentCancelled else Inr ())"

lemmas mailbox_defs = mb_submit_def mb_drain_def mb_drain_or_close_def mb_close_def
lemmas control_defs = tc_steer_def tc_drain_steering_def tc_finish_def tc_cancel_def

section \<open>Runs of a turn control\<close>

datatype tc_op = Steer string string | Drain | Finish | Cancel
datatype tc_out = Accepted bool | Delivered "user_steer list" | Cancelled bool

fun tc_step :: "turn_control \<Rightarrow> tc_op \<Rightarrow> turn_control \<times> tc_out" where
  "tc_step c (Steer i t) = (let (c', b) = tc_steer c i t in (c', Accepted b))"
| "tc_step c Drain = (let (c', ss) = tc_drain_steering c in (c', Delivered ss))"
| "tc_step c Finish = (let (c', ss) = tc_finish c in (c', Delivered ss))"
| "tc_step c Cancel = (let (c', b) = tc_cancel c in (c', Cancelled b))"

text \<open>A run keeps what every operation returned, oldest first.\<close>

type_synonym tc_history = "(tc_op \<times> tc_out) list"

inductive tc_run :: "turn_control \<Rightarrow> tc_history \<Rightarrow> bool" where
  start: "tc_run new_turn_control []"
| step: "tc_run c h \<Longrightarrow> tc_step c op = (c', out) \<Longrightarrow> tc_run c' (h @ [(op, out)])"

text \<open>What a history delivered to the agent, and what it promised to deliver: the first
  submission of every steer id that was answered with \<open>True\<close>.\<close>

fun delivered :: "tc_history \<Rightarrow> user_steer list" where
  "delivered [] = []"
| "delivered ((_, Delivered ss) # h) = ss @ delivered h"
| "delivered (_ # h) = delivered h"

fun promised_after :: "string set \<Rightarrow> tc_history \<Rightarrow> user_steer list" where
  "promised_after seen [] = []"
| "promised_after seen ((Steer i t, Accepted True) # h) =
     (if i \<in> seen then promised_after seen h
      else \<lparr>steer_id = i, steer_text = t\<rparr> # promised_after (insert i seen) h)"
| "promised_after seen (_ # h) = promised_after seen h"

definition promised :: "tc_history \<Rightarrow> user_steer list" where
  "promised h = promised_after {} h"

definition closed :: "turn_control \<Rightarrow> bool" where
  "closed c \<longleftrightarrow> \<not> mb_accepting (tc_steering c) \<and> mb_items (tc_steering c) = []"

lemma delivered_append [simp]: "delivered (h @ h') = delivered h @ delivered h'"
  by (induction h rule: delivered.induct) auto

lemma promised_after_append:
  "promised_after S (h @ h') = promised_after S h
     @ promised_after (S \<union> steer_id ` set (promised_after S h)) h'"
  by (induction S h rule: promised_after.induct) (auto simp: insert_commute Un_insert_left)

lemma promised_snoc:
  "promised (h @ [x]) = promised h @ promised_after (steer_id ` set (promised h)) [x]"
  by (simp add: promised_def promised_after_append)

lemma promised_after_ids:
  "distinct (map steer_id (promised_after S h)) \<and> S \<inter> steer_id ` set (promised_after S h) = {}"
  by (induction S h rule: promised_after.induct) auto

text \<open>The invariant of a run.\<close>

definition tc_inv :: "turn_control \<Rightarrow> tc_history \<Rightarrow> bool" where
  "tc_inv c h \<longleftrightarrow>
     set (mb_received (tc_steering c)) = steer_id ` set (promised h)
     \<and> (tc_cancelled c \<longrightarrow> prefix (delivered h) (promised h) \<and> closed c)
     \<and> (\<not> tc_cancelled c \<longrightarrow> delivered h @ mb_items (tc_steering c) = promised h)
     \<and> (tc_finished c \<longrightarrow> closed c)
     \<and> (\<not> tc_cancelled c \<and> \<not> tc_finished c \<longrightarrow> mb_accepting (tc_steering c))
     \<and> \<not> (tc_cancelled c \<and> tc_finished c)"

lemma tc_inv_start: "tc_inv new_turn_control []"
  by (simp add: tc_inv_def new_turn_control_def new_mailbox_def promised_def)

lemma tc_inv_steer:
  assumes "tc_inv c h" and "tc_step c (Steer i t) = (c', out)"
  shows "tc_inv c' (h @ [(Steer i t, out)])"
  using assms by (auto simp: tc_inv_def control_defs mailbox_defs promised_snoc closed_def Let_def
      split: if_splits)

lemma tc_inv_drain:
  assumes "tc_inv c h" and "tc_step c Drain = (c', out)"
  shows "tc_inv c' (h @ [(Drain, out)])"
  using assms by (auto simp: tc_inv_def control_defs mailbox_defs promised_snoc closed_def Let_def
      split: if_splits)

lemma tc_inv_finish:
  assumes "tc_inv c h" and "tc_step c Finish = (c', out)"
  shows "tc_inv c' (h @ [(Finish, out)])"
  using assms by (auto simp: tc_inv_def control_defs mailbox_defs promised_snoc closed_def Let_def
      split: if_splits)

lemma tc_inv_cancel:
  assumes "tc_inv c h" and "tc_step c Cancel = (c', out)"
  shows "tc_inv c' (h @ [(Cancel, out)])"
  using assms by (auto simp: tc_inv_def control_defs mailbox_defs promised_snoc closed_def Let_def
      split: if_splits intro: prefixI [of _ _ "mb_items (tc_steering c)"])

lemmas tc_inv_steps = tc_inv_steer tc_inv_drain tc_inv_finish tc_inv_cancel

lemma tc_run_inv: "tc_run c h \<Longrightarrow> tc_inv c h"
proof (induction rule: tc_run.induct)
  case start
  show ?case by (rule tc_inv_start)
next
  case (step c h op c' out)
  then show ?case by (cases op) (auto simp only: intro: tc_inv_steps)
qed


definition demo_history :: tc_history where
  "demo_history = [(Steer ''a'' ''go'', Accepted True), (Steer ''a'' ''go'', Accepted True),
     (Finish, Delivered [\<lparr>steer_id = ''a'', steer_text = ''go''\<rparr>]), (Finish, Delivered []),
     (Steer ''b'' ''late'', Accepted False)]"

definition demo_control :: turn_control where
  "demo_control = \<lparr>tc_steering = \<lparr>mb_items = [], mb_received = [''a''], mb_accepting = False\<rparr>,
     tc_cancelled = False, tc_finished = True\<rparr>"

text \<open>A run is computed by running the operations.\<close>

fun tc_exec :: "turn_control \<Rightarrow> tc_op list \<Rightarrow> turn_control \<times> tc_history" where
  "tc_exec c [] = (c, [])"
| "tc_exec c (op # ops) =
     (let (c', out) = tc_step c op; (c'', h) = tc_exec c' ops in (c'', (op, out) # h))"

lemma tc_run_exec: "tc_run c h \<Longrightarrow> tc_exec c ops = (c', h') \<Longrightarrow> tc_run c' (h @ h')"
proof (induction ops arbitrary: c h h')
  case (Cons op ops)
  obtain c1 out where s: "tc_step c op = (c1, out)" by (cases "tc_step c op")
  with Cons.prems(2) obtain h1 where e: "tc_exec c1 ops = (c', h1)" and h': "h' = (op, out) # h1"
    by (auto simp: Let_def split: prod.splits)
  from Cons.IH [OF tc_run.step [OF Cons.prems(1) s] e] show ?case by (simp add: h')
qed simp

lemma tc_exec_run: "tc_exec new_turn_control ops = (c, h) \<Longrightarrow> tc_run c h"
  using tc_run_exec [OF tc_run.start] by fastforce

lemma turn_end_is_final_step:
  "tc_finished c \<or> tc_cancelled c \<Longrightarrow>
   tc_step c op = (c, case op of Steer _ _ \<Rightarrow> Accepted False | Cancel \<Rightarrow> Cancelled False
      | _ \<Rightarrow> Delivered [])"
  by (cases op) (auto simp: control_defs)

lemma tc_exec_final: "tc_finished c \<or> tc_cancelled c \<Longrightarrow> fst (tc_exec c ops) = c"
  by (induction ops) (auto simp: turn_end_is_final_step split: prod.splits)

text \<open>
  A finished or cancelled turn is final: whatever operations follow, in any order, its state
  does not change and nothing more is delivered or promised.
\<close>

theorem turn_end_is_final:
  assumes "tc_finished c \<or> tc_cancelled c" and "tc_exec c ops = (c', h)"
  shows "c' = c \<and> delivered h = [] \<and> promised h = []"
  using assms(2)
proof (induction ops arbitrary: h)
  case (Cons op ops)
  obtain h1 where e: "tc_exec c ops = (c', h1)" and h: "h = (op, snd (tc_step c op)) # h1"
    using Cons.prems by (auto simp: turn_end_is_final_step [OF assms(1)] Let_def split: prod.splits)
  from Cons.IH [OF e] assms(1) show ?case
    by (cases op) (auto simp: h control_defs promised_def)
qed (simp add: promised_def)

lemma demo_run: "tc_run demo_control demo_history"
  by (rule tc_exec_run [where ops = "map fst demo_history"])
     (simp add: demo_control_def demo_history_def new_turn_control_def new_mailbox_def
        control_defs mailbox_defs)


theorem turn_end_is_final_witness:
  "tc_finished demo_control
   \<and> (\<exists>h. tc_exec demo_control [Steer ''c'' ''x'', Drain, Cancel] = (demo_control, h)
        \<and> delivered h = [] \<and> promised h = [])"
proof -
  let ?ops = "[Steer ''c'' ''x'', Drain, Cancel]"
  have f: "tc_finished demo_control" by (simp add: demo_control_def)
  obtain c' h where e: "tc_exec demo_control ?ops = (c', h)" by (cases "tc_exec demo_control ?ops")
  with turn_end_is_final [of demo_control ?ops c' h] f show ?thesis by auto
qed

section \<open>The repetition guard\<close>

text \<open>
  A call's key is its name and the canonical JSON text of its arguments; \<open>dumps\<close> is
  \<open>json.dumps\<close> with sorted keys and compact separators.
\<close>

type_synonym call_sig = "string \<times> string"

definition call_key :: "(json \<Rightarrow> string) \<Rightarrow> tool_call \<Rightarrow> call_sig" where
  "call_key dumps c = (tc_name c, dumps (tc_arguments c))"

record guard =
  g_limit :: int
  g_previous :: "call_sig option"
  g_count :: int

definition new_guard :: "int \<Rightarrow> guard" where
  "new_guard limit = \<lparr>g_limit = limit, g_previous = None, g_count = 0\<rparr>"

definition guard_reset :: "guard \<Rightarrow> guard" where
  "guard_reset g = g\<lparr>g_previous := None, g_count := 0\<rparr>"

fun guard_scan :: "(json \<Rightarrow> string) \<Rightarrow> int \<Rightarrow> call_sig option \<Rightarrow> int \<Rightarrow> tool_call list
    \<Rightarrow> (call_sig option \<times> int) res" where
  "guard_scan dumps limit prev n [] = Inr (prev, n)"
| "guard_scan dumps limit prev n (c # cs) =
     (let k = call_key dumps c;
          n' = (if Some k = prev then n + 1 else 1)
      in if n' > limit then Inl (ToolCallLimitExceededError (tc_name c) limit)
         else guard_scan dumps limit (Some k) n' cs)"

definition guard_check :: "(json \<Rightarrow> string) \<Rightarrow> guard \<Rightarrow> tool_call list \<Rightarrow> guard res" where
  "guard_check dumps g calls =
     res_bind (guard_scan dumps (g_limit g) (g_previous g) (g_count g) calls)
       (\<lambda>(p, n). Inr (g\<lparr>g_previous := p, g_count := n\<rparr>))"

fun guard_batches :: "(json \<Rightarrow> string) \<Rightarrow> guard \<Rightarrow> tool_call list list \<Rightarrow> guard res" where
  "guard_batches dumps g [] = Inr g"
| "guard_batches dumps g (b # bs) = res_bind (guard_check dumps g b) (\<lambda>g'. guard_batches dumps g' bs)"

text \<open>The reference: how long the run of equal keys at the end of a sequence is.\<close>

definition tail_run :: "'a list \<Rightarrow> nat" where
  "tail_run ks = length (takeWhile (\<lambda>k. k = last ks) (rev ks))"

definition has_run :: "nat \<Rightarrow> 'a list \<Rightarrow> bool" where
  "has_run n ks \<longleftrightarrow> (\<exists>us k vs. ks = us @ replicate n k @ vs)"

text \<open>The state of a guard that has accepted the keys \<open>ks\<close> since its last reset.\<close>

definition guard_at :: "'a list \<Rightarrow> 'a option \<times> int" where
  "guard_at ks = (if ks = [] then (None, 0) else (Some (last ks), int (tail_run ks)))"

lemma tail_run_snoc:
  "tail_run (ks @ [k]) = (if ks \<noteq> [] \<and> last ks = k then Suc (tail_run ks) else 1)"
  by (cases ks rule: rev_cases) (auto simp: tail_run_def)

lemma tail_run_suffix: "ks \<noteq> [] \<Longrightarrow> \<exists>us. ks = us @ replicate (tail_run ks) (last ks)"
proof (induction ks rule: rev_induct)
  case (snoc k ks)
  show ?case
  proof (cases "ks \<noteq> [] \<and> last ks = k")
    case True
    with snoc.IH obtain us where "ks = us @ replicate (tail_run ks) k" by auto
    with True show ?thesis
      by (auto simp: tail_run_snoc replicate_append_same simp flip: append_assoc)
         (metis append_assoc replicate_append_same)
  next
    case False
    then show ?thesis by (auto simp: tail_run_snoc)
  qed
qed simp

lemma tail_run_max: "ks = us @ replicate n k \<Longrightarrow> 0 < n \<Longrightarrow> n \<le> tail_run ks"
proof (induction n arbitrary: ks)
  case (Suc n)
  show ?case
  proof (cases "n = 0")
    case True
    with Suc.prems show ?thesis by (simp add: tail_run_snoc)
  next
    case False
    let ?p = "us @ replicate n k"
    from False have "n \<le> tail_run ?p" and "last ?p = k" and "?p \<noteq> []" using Suc.IH by auto
    moreover have "ks = ?p @ [k]" using Suc.prems by (simp add: replicate_append_same)
    ultimately show ?thesis using tail_run_snoc [of ?p k] by (metis Suc_le_mono)
  qed
qed simp

lemma has_run_snoc:
  assumes "0 < n"
  shows "has_run n (ks @ [k]) \<longleftrightarrow> has_run n ks \<or> n \<le> tail_run (ks @ [k])"
proof
  assume "has_run n (ks @ [k])"
  then obtain us x vs where eq: "ks @ [k] = us @ replicate n x @ vs" by (auto simp: has_run_def)
  show "has_run n ks \<or> n \<le> tail_run (ks @ [k])"
  proof (cases vs rule: rev_cases)
    case Nil
    with eq assms tail_run_max [of "ks @ [k]" us n x] show ?thesis by simp
  next
    case (snoc vs' v)
    with eq have "ks = us @ replicate n x @ vs'" by (metis append_assoc butlast_snoc)
    then show ?thesis by (auto simp: has_run_def)
  qed
next
  assume "has_run n ks \<or> n \<le> tail_run (ks @ [k])"
  then show "has_run n (ks @ [k])"
  proof
    assume "has_run n ks"
    then show ?thesis unfolding has_run_def by (metis append_assoc)
  next
    assume le: "n \<le> tail_run (ks @ [k])"
    obtain us where "ks @ [k] = us @ replicate (tail_run (ks @ [k])) (last (ks @ [k]))"
      using tail_run_suffix [of "ks @ [k]"] by blast
    moreover have "replicate (tail_run (ks @ [k])) k
        = replicate (tail_run (ks @ [k]) - n) k @ replicate n k"
      using le by (simp flip: replicate_add)
    ultimately show ?thesis unfolding has_run_def by (metis append_Nil2 append_assoc last_snoc)
  qed
qed

lemma guard_at_snoc:
  "guard_at (ks @ [k]) =
     (Some k, if fst (guard_at ks) = Some k then snd (guard_at ks) + 1 else 1)"
  by (auto simp: guard_at_def tail_run_snoc)

lemma guard_scan_iff:
  assumes "0 \<le> limit"
  shows "\<not> has_run (nat limit + 1) ks \<Longrightarrow>
    guard_scan dumps limit (fst (guard_at ks)) (snd (guard_at ks)) cs = Inr r \<longleftrightarrow>
    \<not> has_run (nat limit + 1) (ks @ map (call_key dumps) cs)
      \<and> r = guard_at (ks @ map (call_key dumps) cs)"
proof (induction cs arbitrary: ks)
  case Nil
  then show ?case by auto
next
  case (Cons c cs)
  let ?k = "call_key dumps c" and ?g = "guard_at (ks @ [call_key dumps c])"
  have n: "(if Some ?k = fst (guard_at ks) then snd (guard_at ks) + 1 else 1) = snd ?g"
    and k: "fst ?g = Some ?k" by (auto simp: guard_at_snoc)
  have run: "has_run (nat limit + 1) (ks @ [?k]) \<longleftrightarrow> limit < snd ?g"
    using has_run_snoc [of "nat limit + 1" ks ?k] Cons.prems assms by (auto simp: guard_at_def)
  show ?case
  proof (cases "limit < snd ?g")
    case True
    then have "has_run (nat limit + 1) (ks @ ?k # map (call_key dumps) cs)"
      using run by (auto simp: has_run_def) (metis append.assoc append_Cons append_Nil)
    with True n show ?thesis by (auto simp: Let_def)
  next
    case False
    with run Cons.IH [of "ks @ [?k]"] k n show ?thesis by (simp add: Let_def not_less)
  qed
qed

lemma guard_batches_scan:
  "guard_batches dumps g bs =
     res_bind (guard_scan dumps (g_limit g) (g_previous g) (g_count g) (concat bs))
       (\<lambda>(p, n). Inr (g\<lparr>g_previous := p, g_count := n\<rparr>))"
proof (induction bs arbitrary: g)
  case (Cons b bs)
  have split: "guard_scan dumps l p n (xs @ ys) =
      res_bind (guard_scan dumps l p n xs) (\<lambda>(p', n'). guard_scan dumps l p' n' ys)" for l p n xs ys
    by (induction xs arbitrary: p n) (auto simp: Let_def)
  show ?case
    by (cases "guard_scan dumps (g_limit g) (g_previous g) (g_count g) b")
       (auto simp: guard_check_def split Cons.IH)
qed simp

text \<open>
  C29. The repetition guard, which only keeps the previous key and a counter, accepts a sequence
  of tool-call batches exactly when no key occurs more than \<open>limit\<close> times in a row anywhere in
  their concatenation; batch boundaries do not matter.
\<close>

theorem guard_accepts_iff_no_long_run:
  assumes "0 \<le> limit"
  shows "is_ok (guard_batches dumps (new_guard limit) bs) \<longleftrightarrow>
    \<not> has_run (nat limit + 1) (map (call_key dumps) (concat bs))"
proof -
  have start: "\<not> has_run (nat limit + 1) ([] :: call_sig list)" by (simp add: has_run_def)
  have "guard_at ([] :: call_sig list) = (None, 0)" by (simp add: guard_at_def)
  with guard_scan_iff [OF assms start, of dumps "concat bs"] show ?thesis
    by (auto simp: guard_batches_scan new_guard_def is_ok_iff split: prod.splits)
qed

definition demo_batch :: "string \<Rightarrow> tool_call" where
  "demo_batch n = \<lparr>tc_id = ''1'', tc_name = n, tc_arguments = JObj [], tc_argument_error = None\<rparr>"

theorem guard_accepts_iff_no_long_run_witness:
  "(0 :: int) \<le> 2
   \<and> \<not> is_ok (guard_batches (\<lambda>_. ''{}'') (new_guard 2) [[demo_batch ''a'', demo_batch ''a''], [demo_batch ''a'']])
   \<and> has_run 3 (map (call_key (\<lambda>_. ''{}'')) [demo_batch ''a'', demo_batch ''a'', demo_batch ''a''])"
proof -
  let ?bs = "[[demo_batch ''a'', demo_batch ''a''], [demo_batch ''a'']]"
  have "\<not> is_ok (guard_batches (\<lambda>_. ''{}'') (new_guard 2) ?bs)"
    by (simp add: guard_check_def new_guard_def demo_batch_def call_key_def)
  moreover from this guard_accepts_iff_no_long_run [of 2 "\<lambda>_. ''{}''" ?bs]
  have "has_run 3 (map (call_key (\<lambda>_. ''{}'')) (concat ?bs))" by (simp add: numeral_3_eq_3)
  ultimately show ?thesis by simp
qed

section \<open>The continuation policy\<close>

text \<open>
  \<open>TurnContinuationPolicy\<close> runs on the agent thread while other threads submit steers, cancel
  the turn and finish jobs. Its state is the turn control (if any), the guard, and the rest of
  the Runtime, of any type. The callbacks are functions on that state, so whatever another
  thread does while a callback runs is part of the callback; \<open>others\<close> is what other threads do
  between two steps of the policy itself.
\<close>

record 's turn_state =
  ts_control :: "turn_control option"
  ts_guard :: guard
  ts_rest :: 's

record 's turn_callbacks =
  cb_external :: "'s turn_state \<Rightarrow> bool option"
  cb_apply_jobs :: "'s turn_state \<Rightarrow> (bool \<times> bool) res \<times> 's turn_state"
  cb_append_steers :: "user_steer list \<Rightarrow> 's turn_state \<Rightarrow> unit res \<times> 's turn_state"
  cb_wait_for_job :: "'s turn_state \<Rightarrow> unit res \<times> 's turn_state"
  cb_before_finish :: "('s turn_state \<Rightarrow> bool res \<times> 's turn_state) option"
  cb_others :: "'s turn_state \<Rightarrow> 's turn_state"

type_synonym ('s, 'a) turn_m = "'s turn_state \<Rightarrow> 'a res \<times> 's turn_state"

definition tm_return :: "'a \<Rightarrow> ('s, 'a) turn_m" where
  "tm_return x w = (Inr x, w)"

definition tm_bind :: "('s, 'a) turn_m \<Rightarrow> ('a \<Rightarrow> ('s, 'b) turn_m) \<Rightarrow> ('s, 'b) turn_m" where
  "tm_bind m f w = (case m w of (Inl e, w') \<Rightarrow> (Inl e, w') | (Inr x, w') \<Rightarrow> f x w')"

definition raise_if_cancelled :: "'s turn_callbacks \<Rightarrow> ('s, unit) turn_m" where
  "raise_if_cancelled cb w0 =
     (let w = cb_others cb w0 in
      case ts_control w of None \<Rightarrow> (Inr (), w)
      | Some c \<Rightarrow> (tc_raise_if_cancelled (cb_external cb w) c, w))"

definition reset_guard :: "('s, unit) turn_m" where
  "reset_guard w = (Inr (), w\<lparr>ts_guard := guard_reset (ts_guard w)\<rparr>)"

definition apply_jobs :: "'s turn_callbacks \<Rightarrow> ('s, bool \<times> bool) turn_m" where
  "apply_jobs cb =
     tm_bind (cb_apply_jobs cb) (\<lambda>(applied, pending).
       if applied then tm_bind reset_guard (\<lambda>_. tm_return (applied, pending))
       else tm_return (applied, pending))"

definition take_steers :: "'s turn_callbacks \<Rightarrow> bool \<Rightarrow> ('s, user_steer list) turn_m" where
  "take_steers cb finishing w0 =
     (let w = cb_others cb w0 in
      case ts_control w of None \<Rightarrow> (Inr [], w)
      | Some c \<Rightarrow> (let (c', ss) = (if finishing then tc_finish c else tc_drain_steering c)
                  in (Inr ss, w\<lparr>ts_control := Some c'\<rparr>)))"

definition apply_steering :: "'s turn_callbacks \<Rightarrow> bool \<Rightarrow> ('s, bool) turn_m" where
  "apply_steering cb finishing w =
     (if ts_control w = None then (Inr False, w)
      else tm_bind (take_steers cb finishing) (\<lambda>ss.
           tm_bind (raise_if_cancelled cb) (\<lambda>_.
             if ss = [] then tm_return False
             else tm_bind (cb_append_steers cb ss) (\<lambda>_.
                  tm_bind reset_guard (\<lambda>_. tm_return True)))) w)"

text \<open>The wait loop: it returns \<open>None\<close> if it never leaves the loop; \<open>True\<close> asks for another
  model call, \<open>False\<close> goes on to the end of the turn.\<close>

partial_function (option) wait_jobs ::
  "'s turn_callbacks \<Rightarrow> 's turn_state \<Rightarrow> (bool res \<times> 's turn_state) option" where
  "wait_jobs cb w =
     (case tm_bind (raise_if_cancelled cb) (\<lambda>_. tm_bind (apply_steering cb False) (\<lambda>steered.
        if steered then tm_return (True, False)
        else tm_bind (cb_wait_for_job cb) (\<lambda>_. tm_bind (raise_if_cancelled cb) (\<lambda>_. apply_jobs cb)))) w of
       (Inl e, w') \<Rightarrow> Some (Inl e, w')
     | (Inr (again, pending), w') \<Rightarrow>
         if again then Some (Inr True, w')
         else if pending then wait_jobs cb w'
         else Some (Inr False, w'))"

definition close_turn :: "'s turn_callbacks \<Rightarrow> ('s, bool) turn_m" where
  "close_turn cb =
     (case cb_before_finish cb of
        None \<Rightarrow> apply_steering cb True
      | Some before_finish \<Rightarrow>
          tm_bind (apply_steering cb False) (\<lambda>steered.
            if steered then tm_return True
            else tm_bind before_finish (\<lambda>more.
              if more then
                tm_bind (raise_if_cancelled cb) (\<lambda>_. tm_bind reset_guard (\<lambda>_.
                  tm_bind (apply_steering cb False) (\<lambda>_. tm_return True)))
              else tm_bind (raise_if_cancelled cb) (\<lambda>_. apply_steering cb True))))"

definition after_response :: "'s turn_callbacks \<Rightarrow> 's turn_state \<Rightarrow> (bool res \<times> 's turn_state) option" where
  "after_response cb w =
     (case tm_bind (raise_if_cancelled cb) (\<lambda>_. apply_jobs cb) w of
        (Inl e, w') \<Rightarrow> Some (Inl e, w')
      | (Inr (applied, pending), w') \<Rightarrow>
          if applied then Some (Inr True, w')
          else if pending then
            (case wait_jobs cb w' of
               None \<Rightarrow> None
             | Some (Inl e, w'') \<Rightarrow> Some (Inl e, w'')
             | Some (Inr again, w'') \<Rightarrow> if again then Some (Inr True, w'') else Some (close_turn cb w''))
          else Some (close_turn cb w'))"

text \<open>Other threads act on a control only through its operations.\<close>

definition others_ok :: "'s turn_callbacks \<Rightarrow> bool" where
  "others_ok cb \<longleftrightarrow> (\<forall>w. case ts_control w of
      None \<Rightarrow> ts_control (cb_others cb w) = None
    | Some c \<Rightarrow> \<exists>ops. ts_control (cb_others cb w) = Some (fst (tc_exec c ops)))"

lemma others_ok_None: "others_ok cb \<Longrightarrow> ts_control w = None \<Longrightarrow> ts_control (cb_others cb w) = None"
  by (drule others_ok_def [THEN iffD1, rule_format, of cb w]) simp

lemma others_ok_Some:
  "others_ok cb \<Longrightarrow> ts_control w = Some c \<Longrightarrow>
   \<exists>ops. ts_control (cb_others cb w) = Some (fst (tc_exec c ops))"
  by (drule others_ok_def [THEN iffD1, rule_format, of cb w]) simp

lemma others_ok_final:
  assumes "others_ok cb" and "ts_control w = Some c" and "tc_finished c \<or> tc_cancelled c"
  shows "ts_control (cb_others cb w) = Some c"
proof -
  from assms(1,2) obtain ops where "ts_control (cb_others cb w) = Some (fst (tc_exec c ops))"
    using others_ok_Some by blast
  with assms(3) show ?thesis by (simp add: tc_exec_final)
qed

lemma tm_bind_Inr_iff:
  "tm_bind m f w = (Inr y, w') \<longleftrightarrow> (\<exists>x w1. m w = (Inr x, w1) \<and> f x w1 = (Inr y, w'))"
  by (auto simp: tm_bind_def split: prod.splits sum.splits)

lemma tc_finish_empty: "tc_finish c = (c', []) \<Longrightarrow> tc_finished c' \<or> tc_cancelled c'"
  by (auto simp: tc_finish_def mailbox_defs Let_def split: if_splits)

definition quiet :: "'s turn_state \<Rightarrow> bool" where
  "quiet w = (case ts_control w of None \<Rightarrow> True | Some c \<Rightarrow> tc_finished c \<and> \<not> tc_cancelled c)"

lemma apply_steering_finishing:
  assumes "others_ok cb" and "apply_steering cb True w = (Inr False, w')"
  shows "quiet w'"
proof (cases "ts_control w")
  case None
  with assms(2) show ?thesis by (simp add: apply_steering_def quiet_def)
next
  case (Some c0)
  with assms(2) obtain ss w1 where ts: "take_steers cb True w = (Inr ss, w1)"
    and rest: "tm_bind (raise_if_cancelled cb) (\<lambda>_. if ss = [] then tm_return False
        else tm_bind (cb_append_steers cb ss) (\<lambda>_. tm_bind reset_guard (\<lambda>_. tm_return True))) w1
        = (Inr False, w')"
    by (auto simp: apply_steering_def tm_bind_Inr_iff)
  from rest obtain w2 where rc: "raise_if_cancelled cb w1 = (Inr (), w2)"
    and "ss = []" and w': "w' = w2"
    by (auto simp: tm_bind_Inr_iff tm_return_def split: if_splits)
  show ?thesis
  proof (cases "ts_control w1")
    case None
    then have "ts_control (cb_others cb w1) = None" by (rule others_ok_None [OF assms(1)])
    with rc w' show ?thesis by (simp add: raise_if_cancelled_def quiet_def)
  next
    case (Some c')
    from ts \<open>ss = []\<close> Some obtain c where "tc_finish c = (c', [])"
      by (auto simp: take_steers_def Let_def split: option.splits prod.splits)
    then have "tc_finished c' \<or> tc_cancelled c'" by (rule tc_finish_empty)
    with others_ok_final [OF assms(1) Some] rc w' show ?thesis
      by (auto simp: raise_if_cancelled_def quiet_def tc_raise_if_cancelled_def tc_is_cancelled_def
          Let_def split: option.splits if_splits)
  qed
qed

lemma close_turn_quiet:
  assumes "others_ok cb" and "close_turn cb w = (Inr False, w')"
  shows "quiet w'"
  using assms apply_steering_finishing [OF assms(1)]
  by (auto simp: close_turn_def tm_bind_Inr_iff tm_return_def split: option.splits if_splits)

text \<open>
  The policy ends a turn only when it is quiet: when \<open>after_response\<close> says that no further
  model call is needed, the turn control has been finished (its mailbox closed while empty) and
  was not cancelled, whatever the callbacks and the other threads did meanwhile.
\<close>

theorem turn_closes_quiet:
  assumes "others_ok cb" and "after_response cb w = Some (Inr False, w')"
  shows "quiet w'"
  using assms close_turn_quiet [OF assms(1)]
  by (auto simp: after_response_def split: prod.splits sum.splits if_splits option.splits)

definition demo_callbacks :: "unit turn_callbacks" where
  "demo_callbacks = \<lparr>cb_external = (\<lambda>_. None), cb_apply_jobs = (\<lambda>w. (Inr (False, False), w)),
     cb_append_steers = (\<lambda>_ w. (Inr (), w)), cb_wait_for_job = (\<lambda>w. (Inr (), w)),
     cb_before_finish = Some (\<lambda>w. (Inr False, w)), cb_others = id\<rparr>"

definition demo_state :: "unit turn_state" where
  "demo_state = \<lparr>ts_control = Some new_turn_control, ts_guard = new_guard 3, ts_rest = ()\<rparr>"

theorem turn_closes_quiet_witness:
  "\<exists>w'. after_response demo_callbacks demo_state = Some (Inr False, w') \<and> quiet w'"
proof -
  have ok: "others_ok demo_callbacks"
    unfolding others_ok_def by (auto simp: demo_callbacks_def split: option.splits intro: exI [of _ "[]"])
  let ?c = "\<lparr>tc_steering = \<lparr>mb_items = [], mb_received = [], mb_accepting = False\<rparr>,
    tc_cancelled = False, tc_finished = True\<rparr>"
  have "after_response demo_callbacks demo_state
      = Some (Inr False, demo_state\<lparr>ts_control := Some ?c\<rparr>)"
    by (simp add: after_response_def demo_callbacks_def demo_state_def tm_bind_def tm_return_def
        raise_if_cancelled_def tc_raise_if_cancelled_def tc_is_cancelled_def apply_jobs_def close_turn_def
        apply_steering_def take_steers_def new_turn_control_def new_mailbox_def control_defs
        mailbox_defs)
  with turn_closes_quiet [OF ok] show ?thesis by blast
qed

end
