(* ===== verification/Message.thy ===== *)
theory Message
  imports Tool_Base
begin

text \<open>
  Timestamps (\<open>agent_core/time_utils.py\<close>) and the messages of a Session with their persisted
  form (\<open>Message\<close>, \<open>message_to_dict\<close>, \<open>message_from_dict\<close> and \<open>_content_to_dict\<close> of
  \<open>agent_core/session.py\<close>). The lemmas at the end show that a message survives the trip to the
  journal and back up to the normal form of its content.
\<close>

section \<open>Timestamps\<close>

text \<open>An aware \<open>datetime\<close> in UTC, by its fields.\<close>

record utc =
  utc_year :: nat
  utc_month :: nat
  utc_day :: nat
  utc_hour :: nat
  utc_minute :: nat
  utc_second :: nat
  utc_micro :: nat

definition leap_year :: "nat \<Rightarrow> bool" where
  "leap_year y \<longleftrightarrow> 4 dvd y \<and> (\<not> 100 dvd y \<or> 400 dvd y)"

definition days_in_month :: "nat \<Rightarrow> nat \<Rightarrow> nat" where
  "days_in_month y m =
     (if m = 2 then (if leap_year y then 29 else 28)
      else if m \<in> set [4, 6, 9, 11] then 30 else 31)"

definition utc_ok :: "utc \<Rightarrow> bool" where
  "utc_ok t \<longleftrightarrow> 1 \<le> utc_year t \<and> utc_year t \<le> 9999 \<and> 1 \<le> utc_month t \<and> utc_month t \<le> 12
     \<and> 1 \<le> utc_day t \<and> utc_day t \<le> days_in_month (utc_year t) (utc_month t)
     \<and> utc_hour t < 24 \<and> utc_minute t < 60 \<and> utc_second t < 60 \<and> utc_micro t < 1000000"

text \<open>Zero-padded decimal fields and their value.\<close>

fun pad :: "nat \<Rightarrow> nat \<Rightarrow> string" where
  "pad 0 n = []"
| "pad (Suc w) n = pad w (n div 10) @ [digit_char (n mod 10)]"

definition is_digit :: "char \<Rightarrow> bool" where
  "is_digit c \<longleftrightarrow> 48 \<le> (of_char c :: nat) \<and> (of_char c :: nat) \<le> 57"

definition digit_val :: "char \<Rightarrow> nat" where
  "digit_val c = of_char c - 48"

definition digits_val :: "string \<Rightarrow> nat option" where
  "digits_val s = (if list_all is_digit s then Some (foldl (\<lambda>n c. 10 * n + digit_val c) 0 s) else None)"

text \<open>\<open>isoformat\<close> drops the fraction when it is zero; \<open>+00:00\<close> is written \<open>Z\<close>.\<close>

definition format_utc :: "utc \<Rightarrow> string" where
  "format_utc t =
     pad 4 (utc_year t) @ ''-'' @ pad 2 (utc_month t) @ ''-'' @ pad 2 (utc_day t) @ ''T''
     @ pad 2 (utc_hour t) @ '':'' @ pad 2 (utc_minute t) @ '':'' @ pad 2 (utc_second t)
     @ (if utc_micro t = 0 then [] else ''.'' @ pad 6 (utc_micro t)) @ ''Z''"

text \<open>
  \<open>datetime.fromisoformat\<close> on the layout \<open>format_utc\<close> writes, with either spelling of the
  offset; the other ISO 8601 layouts Python accepts never occur in a record of the program and
  are \<open>Untyped\<close> here.
\<close>

definition iso_layout :: "string \<Rightarrow> bool" where
  "iso_layout b \<longleftrightarrow> (length b = 19 \<or> length b = 26) \<and> b ! 4 = CHR ''-'' \<and> b ! 7 = CHR ''-''
     \<and> b ! 10 = CHR ''T'' \<and> b ! 13 = CHR '':'' \<and> b ! 16 = CHR '':'' \<and> (length b = 26 \<longrightarrow> b ! 19 = CHR ''.'')"

definition field :: "nat \<Rightarrow> nat \<Rightarrow> string \<Rightarrow> nat option" where
  "field i w b = digits_val (take w (drop i b))"

definition iso_fields :: "string \<Rightarrow> utc option" where
  "iso_fields b =
     (case (field 0 4 b, field 5 2 b, field 8 2 b, field 11 2 b, field 14 2 b, field 17 2 b, field 20 6 b) of
        (Some y, Some mo, Some d, Some h, Some mi, Some s, Some us) \<Rightarrow>
          Some \<lparr>utc_year = y, utc_month = mo, utc_day = d, utc_hour = h, utc_minute = mi,
            utc_second = s, utc_micro = us\<rparr>
      | _ \<Rightarrow> None)"

definition parse_utc :: "string \<Rightarrow> utc res" where
  "parse_utc s =
     (let b = (if s \<noteq> [] \<and> last s = CHR ''Z'' then butlast s
               else if drop (length s - 6) s = ''+00:00'' then take (length s - 6) s else [])
      in if \<not> iso_layout b then Inl (Untyped ''isoformat'')
         else (case iso_fields b of
             None \<Rightarrow> Inl (ValueError ''Invalid isoformat string'')
           | Some t \<Rightarrow> if utc_ok t then Inr t else Inl (ValueError ''Invalid isoformat string'')))"

lemma length_pad [simp]: "length (pad w n) = w"
  by (induction w arbitrary: n) auto

lemma digit_char_props [simp]:
  "n < 10 \<Longrightarrow> is_digit (digit_char n)" "n < 10 \<Longrightarrow> digit_val (digit_char n) = n"
  by (simp_all add: is_digit_def digit_val_def digit_char_def of_char_of)

lemma digits_val_pad [simp]: "n < 10 ^ w \<Longrightarrow> digits_val (pad w n) = Some n"
proof (induction w arbitrary: n)
  case (Suc w)
  then have "digits_val (pad w (n div 10)) = Some (n div 10)" by simp
  then have "list_all is_digit (pad w (n div 10))"
    and "foldl (\<lambda>n c. 10 * n + digit_val c) 0 (pad w (n div 10)) = n div 10"
    by (auto simp: digits_val_def split: if_splits)
  then show ?case by (simp add: digits_val_def)
qed (simp add: digits_val_def)

definition utc_date_part :: "utc \<Rightarrow> string" where
  "utc_date_part t = pad 4 (utc_year t) @ ''-'' @ pad 2 (utc_month t) @ ''-'' @ pad 2 (utc_day t)
     @ ''T'' @ pad 2 (utc_hour t) @ '':'' @ pad 2 (utc_minute t) @ '':'' @ pad 2 (utc_second t)"

definition utc_micro_part :: "utc \<Rightarrow> string" where
  "utc_micro_part t = (if utc_micro t = 0 then [] else ''.'' @ pad 6 (utc_micro t))"

lemma format_utc_parts: "format_utc t = (utc_date_part t @ utc_micro_part t) @ ''Z''"
  by (simp add: format_utc_def utc_date_part_def utc_micro_part_def)

lemma length_utc_date_part: "length (utc_date_part t) = 19"
  by (simp add: utc_date_part_def)

lemma iso_layout_format: "iso_layout (utc_date_part t @ utc_micro_part t)"
  by (simp add: iso_layout_def utc_date_part_def utc_micro_part_def nth_append)

lemma iso_fields_format:
  assumes "utc_ok t" shows "iso_fields (utc_date_part t @ utc_micro_part t) = Some t"
proof -
  let ?b = "utc_date_part t @ utc_micro_part t"
  have d: "days_in_month y m \<le> 31" for y m by (simp add: days_in_month_def)
  have "utc_year t < 10 ^ 4" "utc_month t < 10 ^ 2" "utc_day t < 10 ^ 2" "utc_hour t < 10 ^ 2"
    "utc_minute t < 10 ^ 2" "utc_second t < 10 ^ 2" "utc_micro t < 10 ^ 6"
    using assms d [of "utc_year t" "utc_month t"] by (auto simp: utc_ok_def)
  then have "field 0 4 ?b = Some (utc_year t)" "field 5 2 ?b = Some (utc_month t)"
    "field 8 2 ?b = Some (utc_day t)" "field 11 2 ?b = Some (utc_hour t)"
    "field 14 2 ?b = Some (utc_minute t)" "field 17 2 ?b = Some (utc_second t)"
    "field 20 6 ?b = Some (utc_micro t)"
    by (simp_all add: field_def utc_date_part_def utc_micro_part_def del: pad.simps)
      (simp add: digits_val_def)
  then show ?thesis by (simp add: iso_fields_def)
qed

lemma utc_roundtrip [simp]: "utc_ok t \<Longrightarrow> parse_utc (format_utc t) = Inr t"
  by (simp add: parse_utc_def format_utc_parts iso_layout_format iso_fields_format butlast_append)

section \<open>Messages\<close>

record message =
  msg_role :: string
  msg_content :: content
  msg_timestamp :: "utc option"
  msg_tool_calls :: "tool_call list"
  msg_tool_call_id :: "string option"
  msg_reasoning :: "string option"
  msg_origin :: string
  msg_provider_data :: jobj

definition is_tool_media :: "'a message_scheme \<Rightarrow> bool" where
  "is_tool_media m \<longleftrightarrow> msg_origin m = ''tool_media''"

definition is_user_authored :: "'a message_scheme \<Rightarrow> bool" where
  "is_user_authored m \<longleftrightarrow> msg_role m = ''user'' \<and> msg_origin m \<in> set [''conversation'', ''user_interaction'']"

definition SPECIAL_ORIGINS :: "string list" where
  "SPECIAL_ORIGINS = [''tool_media'', ''tool_delivery'', ''job_result'', ''user_interaction'', ''hook_feedback'']"

subsection \<open>To a dictionary\<close>

fun part_to_dict :: "part \<Rightarrow> json" where
  "part_to_dict (TextPart t) = JObj [(''type'', JStr ''text''), (''text'', JStr t)]"
| "part_to_dict (ImagePart p mt fn sz) =
     JObj [(''type'', JStr ''image''), (''path'', JStr p), (''filename'', JStr fn),
           (''mime_type'', JStr mt), (''size_bytes'', JInt sz)]"
| "part_to_dict (FilePart p fn mt sz) =
     JObj [(''type'', JStr ''file''), (''path'', JStr p), (''filename'', JStr fn),
           (''mime_type'', JStr mt), (''size_bytes'', JInt sz)]"

definition content_to_dict :: "content \<Rightarrow> json" where
  "content_to_dict c =
     (let ps = content_parts c in
      if ps = [] then JNull
      else if list_all is_text ps then JStr (concat (map part_text ps))
      else JList (map part_to_dict ps))"

definition message_to_dict :: "bool \<Rightarrow> message \<Rightarrow> jobj" where
  "message_to_dict include_provider_data m =
     [(''role'', JStr (msg_role m)), (''content'', content_to_dict (msg_content m))]
     @ (case msg_timestamp m of None \<Rightarrow> [] | Some t \<Rightarrow> [(''timestamp_utc'', JStr (format_utc t))])
     @ (if msg_tool_calls m = [] then []
        else [(''tool_calls'', JList (map (\<lambda>c. JObj (tool_call_to_dict c)) (msg_tool_calls m)))])
     @ (case msg_tool_call_id m of None \<Rightarrow> [] | Some i \<Rightarrow> [(''tool_call_id'', JStr i)])
     @ (case msg_reasoning m of None \<Rightarrow> [] | Some r \<Rightarrow> [(''reasoning'', JStr r)])
     @ (if include_provider_data \<and> msg_provider_data m \<noteq> []
        then [(''provider_data'', JObj (msg_provider_data m))] else [])
     @ (if msg_origin m \<noteq> ''conversation'' then [(''origin'', JStr (msg_origin m))] else [])"

subsection \<open>From a dictionary\<close>

text \<open>A \<open>str\<close> field of an attachment that must not be empty.\<close>

definition need_str :: "jobj \<Rightarrow> string \<Rightarrow> string res" where
  "need_str d k =
     (case jget d k of
        JStr s \<Rightarrow> if s = [] then Inl (ValueError (''attachment '' @ k @ '' must be a non-empty string'')) else Inr s
      | _ \<Rightarrow> Inl (ValueError (''attachment '' @ k @ '' must be a non-empty string'')))"

definition attachment_from_dict :: "bool \<Rightarrow> jobj \<Rightarrow> part res" where
  "attachment_from_dict as_image d =
     res_bind (need_str d ''path'') (\<lambda>path.
     res_bind (need_str d ''filename'') (\<lambda>filename.
     res_bind (need_str d ''mime_type'') (\<lambda>mime_type.
       case jget d ''size_bytes'' of
         JInt n \<Rightarrow>
           if n < 0 then Inl (ValueError ''attachment size_bytes must be a non-negative integer'')
           else if as_image then Inr (ImagePart path mime_type filename n)
           else Inr (FilePart path filename mime_type n)
       | _ \<Rightarrow> Inl (ValueError ''attachment size_bytes must be a non-negative integer''))))"

definition part_from_json :: "json \<Rightarrow> part res" where
  "part_from_json v =
     (case v of
        JObj d \<Rightarrow>
          (case jget d ''type'' of
             JStr ty \<Rightarrow>
               if ty = ''text'' then
                 res_map TextPart (case map_of d ''text'' of None \<Rightarrow> Inr [] | Some t \<Rightarrow> py_str t)
               else if ty = ''image'' \<or> ty = ''file'' then attachment_from_dict (ty = ''image'') d
               else Inl (ValueError ''unknown message content part type'')
           | JList _ \<Rightarrow> Inl (TypeError ''unhashable type'')
           | JObj _ \<Rightarrow> Inl (TypeError ''unhashable type'')
           | _ \<Rightarrow> Inl (ValueError ''unknown message content part type''))
      | _ \<Rightarrow> Inl (ValueError ''message content part must be an object''))"

definition content_from_json :: "json \<Rightarrow> content res" where
  "content_from_json v =
     (case v of
        JNull \<Rightarrow> Inr CNone
      | JStr s \<Rightarrow> Inr (CStr s)
      | JList ps \<Rightarrow> res_map CParts (res_list part_from_json ps)
      | _ \<Rightarrow> Inl (Untyped ''content''))"

definition tool_call_from_json :: "json \<Rightarrow> tool_call res" where
  "tool_call_from_json v = (case v of JObj d \<Rightarrow> tool_call_from_dict d | _ \<Rightarrow> Inl (Untyped ''ToolCall''))"

definition tool_calls_from_dict :: "jobj \<Rightarrow> tool_call list res" where
  "tool_calls_from_dict d =
     (case map_of d ''tool_calls'' of
        None \<Rightarrow> Inr []
      | Some (JList cs) \<Rightarrow> res_list tool_call_from_json cs
      | Some _ \<Rightarrow> Inl (TypeError ''tool_calls is not a list of objects''))"

definition origin_from_dict :: "jobj \<Rightarrow> string res" where
  "origin_from_dict d =
     (case jget d ''origin'' of
        JStr og \<Rightarrow> Inr (if og \<in> set SPECIAL_ORIGINS then og else ''conversation'')
      | JList _ \<Rightarrow> Inl (TypeError ''unhashable type'')
      | JObj _ \<Rightarrow> Inl (TypeError ''unhashable type'')
      | _ \<Rightarrow> Inr ''conversation'')"

definition provider_data_from_dict :: "jobj \<Rightarrow> jobj res" where
  "provider_data_from_dict d =
     (case map_of d ''provider_data'' of
        None \<Rightarrow> Inr []
      | Some (JObj p) \<Rightarrow> Inr p
      | Some _ \<Rightarrow> Inl (TypeError ''provider_data is not a mapping''))"

definition str_or_none :: "json \<Rightarrow> string option res" where
  "str_or_none v = (case v of JNull \<Rightarrow> Inr None | JStr s \<Rightarrow> Inr (Some s) | _ \<Rightarrow> Inl (Untyped ''str | None''))"

definition message_from_dict :: "jobj \<Rightarrow> message res" where
  "message_from_dict d =
     res_bind (content_from_json (jget d ''content'')) (\<lambda>content.
     res_bind (tool_calls_from_dict d) (\<lambda>calls.
     res_bind (res_bind (jindex d ''role'')
       (\<lambda>r. case r of JStr s \<Rightarrow> Inr s | _ \<Rightarrow> Inl (Untyped ''role''))) (\<lambda>role.
     res_bind (case jget_str d ''timestamp_utc'' of None \<Rightarrow> Inr None
               | Some s \<Rightarrow> res_map Some (parse_utc s)) (\<lambda>ts.
     res_bind (str_or_none (jget d ''tool_call_id'')) (\<lambda>tci.
     res_bind (origin_from_dict d) (\<lambda>og.
     res_bind (provider_data_from_dict d) (\<lambda>pd.
       Inr \<lparr>msg_role = role, msg_content = content, msg_timestamp = ts, msg_tool_calls = calls,
            msg_tool_call_id = tci, msg_reasoning = jget_str d ''reasoning'', msg_origin = og,
            msg_provider_data = pd\<rparr>)))))))"

subsection \<open>The round trip\<close>

text \<open>The parts a Session may persist: attachments carry a path, a name, a type and a size.\<close>

fun part_ok :: "part \<Rightarrow> bool" where
  "part_ok (TextPart _) = True"
| "part_ok (ImagePart p mt fn sz) = (p \<noteq> [] \<and> mt \<noteq> [] \<and> fn \<noteq> [] \<and> 0 \<le> sz)"
| "part_ok (FilePart p fn mt sz) = (p \<noteq> [] \<and> mt \<noteq> [] \<and> fn \<noteq> [] \<and> 0 \<le> sz)"

definition message_ok :: "message \<Rightarrow> bool" where
  "message_ok m \<longleftrightarrow> (\<forall>p \<in> set (content_parts (msg_content m)). part_ok p)
     \<and> (case msg_timestamp m of None \<Rightarrow> True | Some t \<Rightarrow> utc_ok t)
     \<and> (msg_origin m = ''conversation'' \<or> msg_origin m \<in> set SPECIAL_ORIGINS)"

text \<open>The journal stores text as one string and an empty tuple as \<open>null\<close>.\<close>

definition normal_content :: "content \<Rightarrow> content" where
  "normal_content c =
     (let ps = content_parts c in
      if ps = [] then CNone
      else if list_all is_text ps then CStr (concat (map part_text ps))
      else CParts ps)"

definition normal_message :: "message \<Rightarrow> message" where
  "normal_message m = m\<lparr>msg_content := normal_content (msg_content m)\<rparr>"

lemma normal_content_idem [simp]: "normal_content (normal_content c) = normal_content c"
  by (auto simp: normal_content_def Let_def)

lemma normal_content_text: "text_content (normal_content c) = text_content c"
proof -
  have "text_of_parts ps = concat (map part_text ps)" if "list_all is_text ps" for ps
    using that by (simp add: text_of_parts_def list_all_iff filter_id_conv)
  then show ?thesis by (auto simp: normal_content_def text_content_def Let_def)
qed

lemma part_roundtrip: "part_ok p \<Longrightarrow> part_from_json (part_to_dict p) = Inr p"
  by (cases p) (simp_all add: part_from_json_def attachment_from_dict_def need_str_def)

lemma content_roundtrip:
  assumes "\<forall>p \<in> set (content_parts c). part_ok p"
  shows "content_from_json (content_to_dict c) = Inr (normal_content c)"
proof -
  have "res_list part_from_json (map part_to_dict ps) = Inr ps" if "\<forall>p \<in> set ps. part_ok p" for ps
    by (rule res_list_inverse) (simp add: part_roundtrip that)
  with assms show ?thesis by (simp add: content_from_json_def content_to_dict_def normal_content_def Let_def)
qed

lemma tool_calls_roundtrip:
  "res_list tool_call_from_json (map (\<lambda>c. JObj (tool_call_to_dict c)) cs) = Inr cs"
  by (rule res_list_inverse) (simp add: tool_call_from_json_def)

lemma message_decode:
  assumes "message_ok m"
  shows "message_from_dict (message_to_dict True m) = Inr (normal_message m)"
proof -
  have 1: "content_from_json (content_to_dict (msg_content m)) = Inr (normal_content (msg_content m))"
    using assms by (simp add: content_roundtrip message_ok_def)
  have 2: "msg_timestamp m = Some t \<Longrightarrow> parse_utc (format_utc t) = Inr t" for t
    using assms by (simp add: message_ok_def)
  have 3: "msg_origin m \<noteq> ''conversation'' \<Longrightarrow> msg_origin m \<in> set SPECIAL_ORIGINS"
    using assms by (auto simp: message_ok_def)
  have keys: "tool_calls_from_dict (message_to_dict True m) = Inr (msg_tool_calls m)"
    "jget_str (message_to_dict True m) ''timestamp_utc'' = map_option format_utc (msg_timestamp m)"
    "str_or_none (jget (message_to_dict True m) ''tool_call_id'') = Inr (msg_tool_call_id m)"
    "jget_str (message_to_dict True m) ''reasoning'' = msg_reasoning m"
    "provider_data_from_dict (message_to_dict True m) = Inr (msg_provider_data m)"
    by (auto simp: message_to_dict_def tool_calls_from_dict_def jget_str_def jget_append
        str_or_none_def provider_data_from_dict_def tool_calls_roundtrip split: option.splits)
  have og: "origin_from_dict (message_to_dict True m) = Inr (msg_origin m)"
    using 3 by (auto simp: message_to_dict_def origin_from_dict_def jget_append split: option.splits)
  have hd: "jget (message_to_dict True m) ''content'' = content_to_dict (msg_content m)"
    "jindex (message_to_dict True m) ''role'' = Inr (JStr (msg_role m))"
    by (simp_all add: message_to_dict_def)
  show ?thesis
    by (cases "msg_timestamp m")
      (simp_all add: message_from_dict_def 1 2 keys og hd normal_message_def)
qed

text \<open>
  C31. A message whose attachments and timestamp are valid survives the journal: decoding what
  \<open>message_to_dict\<close> encoded gives the message with its content in the journal's normal form
  (all-text parts joined into one string, no parts as \<open>None\<close>), and nothing else changed.
\<close>

theorem message_roundtrip:
  assumes "message_ok m"
  shows "message_from_dict (message_to_dict True m) = Inr (normal_message m)"
  using assms by (rule message_decode)

definition demo_message :: message where
  "demo_message = \<lparr>msg_role = ''user'', msg_content = CParts [TextPart ''see'', FilePart ''a.txt'' ''a.txt'' ''text/plain'' 3],
     msg_timestamp = Some \<lparr>utc_year = 2024, utc_month = 2, utc_day = 29, utc_hour = 23, utc_minute = 59,
       utc_second = 59, utc_micro = 120\<rparr>,
     msg_tool_calls = [], msg_tool_call_id = None, msg_reasoning = Some ''r'', msg_origin = ''conversation'',
     msg_provider_data = [(''k'', JInt 1)]\<rparr>"

theorem message_roundtrip_witness:
  "message_from_dict (message_to_dict True demo_message) = Inr (normal_message demo_message)
   \<and> normal_message demo_message = demo_message"
  by (rule conjI, rule message_roundtrip)
    (simp_all add: message_ok_def demo_message_def utc_ok_def days_in_month_def leap_year_def
      normal_message_def normal_content_def)

end
