(* ===== verification/Plan.thy ===== *)
theory Plan
  imports Tool_Base
begin

text \<open>
  Plans (\<open>agent_core/plan.py\<close>): steps with their validation, revisions, the persisted form, and
  the argument checks of the \<open>update_plan\<close> tool (\<open>agent_core/tools/builtin/update_plan.py\<close>).
\<close>

section \<open>Steps and snapshots\<close>

definition MAX_PLAN_STEP_OUTCOME_CHARS :: nat where
  "MAX_PLAN_STEP_OUTCOME_CHARS = 500"

definition PLAN_STATUSES :: "string list" where
  "PLAN_STATUSES = [''pending'', ''in_progress'', ''completed'', ''blocked'']"

record plan_step =
  ps_id :: string
  ps_title :: string
  ps_status :: string
  ps_outcome :: "string option"

text \<open>\<open>PlanStep(...)\<close>: \<open>__post_init__\<close> validates and normalises.\<close>

definition normal_outcome :: "string option \<Rightarrow> string option" where
  "normal_outcome oc = (case oc of None \<Rightarrow> None
     | Some s \<Rightarrow> if py_strip s = [] then None else Some (py_strip s))"

definition mk_plan_step :: "string \<Rightarrow> string \<Rightarrow> string \<Rightarrow> string option \<Rightarrow> plan_step res" where
  "mk_plan_step i t st oc =
     (if py_strip i = [] then Inl (ValueError ''plan step id must be a non-empty string'')
      else if py_strip t = [] then Inl (ValueError ''plan step title must be a non-empty string'')
      else if st \<notin> set PLAN_STATUSES then Inl (ValueError (''invalid plan step status: '' @ st))
      else if (case normal_outcome oc of None \<Rightarrow> False | Some s \<Rightarrow> length s > MAX_PLAN_STEP_OUTCOME_CHARS)
        then Inl (ValueError ''plan step outcome exceeds maximum length of 500 characters'')
      else if normal_outcome oc \<noteq> None \<and> st \<noteq> ''completed'' \<and> st \<noteq> ''blocked''
        then Inl (ValueError ''plan step outcome is allowed only for completed or blocked steps'')
      else Inr \<lparr>ps_id = py_strip i, ps_title = py_strip t, ps_status = st,
                ps_outcome = normal_outcome oc\<rparr>)"

record plan_snapshot =
  pl_plan_id :: string
  pl_goal :: string
  pl_revision :: int
  pl_steps :: "plan_step list"

definition plan_is_active :: "plan_snapshot \<Rightarrow> bool" where
  "plan_is_active p \<longleftrightarrow> (\<exists>s \<in> set (pl_steps p). ps_status s \<noteq> ''completed'')"

text \<open>The snapshot \<open>PlanManager.update\<close> builds; \<open>uid\<close> is the identifier \<open>uuid4\<close> draws.\<close>

definition next_snapshot :: "string \<Rightarrow> plan_snapshot option \<Rightarrow> string \<Rightarrow> plan_step list \<Rightarrow> plan_snapshot" where
  "next_snapshot uid current goal steps =
     (case current of
        None \<Rightarrow> \<lparr>pl_plan_id = uid, pl_goal = goal, pl_revision = 1, pl_steps = steps\<rparr>
      | Some p \<Rightarrow>
          if pl_goal p \<noteq> goal
          then \<lparr>pl_plan_id = uid, pl_goal = goal, pl_revision = 1, pl_steps = steps\<rparr>
          else \<lparr>pl_plan_id = pl_plan_id p, pl_goal = goal, pl_revision = pl_revision p + 1,
                pl_steps = steps\<rparr>)"

section \<open>The persisted form\<close>

definition plan_step_to_dict :: "plan_step \<Rightarrow> jobj" where
  "plan_step_to_dict s =
     [(''id'', JStr (ps_id s)), (''title'', JStr (ps_title s)), (''status'', JStr (ps_status s))]
     @ (case ps_outcome s of None \<Rightarrow> [] | Some oc \<Rightarrow> [(''outcome'', JStr oc)])"

definition plan_snapshot_to_dict :: "plan_snapshot \<Rightarrow> jobj" where
  "plan_snapshot_to_dict p =
     [(''plan_id'', JStr (pl_plan_id p)), (''goal'', JStr (pl_goal p)),
      (''revision'', JInt (pl_revision p)),
      (''steps'', JList (map (\<lambda>s. JObj (plan_step_to_dict s)) (pl_steps p)))]"

definition plan_step_from_json :: "json \<Rightarrow> plan_step res" where
  "plan_step_from_json v =
     (case v of
        JObj d \<Rightarrow>
          (case jget d ''status'' of
             JStr st \<Rightarrow>
               res_bind (case jget d ''outcome'' of JNull \<Rightarrow> Inr None | JStr s \<Rightarrow> Inr (Some s)
                         | _ \<Rightarrow> Inl (ValueError ''plan step outcome must be a string'')) (\<lambda>oc.
               res_bind (res_bind (jindex d ''id'') py_str) (\<lambda>i.
               res_bind (res_bind (jindex d ''title'') py_str) (\<lambda>t.
                 mk_plan_step i t st oc)))
           | _ \<Rightarrow> Inl (ValueError ''plan step status must be a string''))
      | _ \<Rightarrow> Inl (ValueError ''plan step must be an object''))"

definition plan_snapshot_from_dict :: "jobj \<Rightarrow> plan_snapshot res" where
  "plan_snapshot_from_dict d =
     (case jget d ''steps'' of
        JList vs \<Rightarrow>
          res_bind (res_list plan_step_from_json vs) (\<lambda>steps.
          res_bind (res_bind (jindex d ''plan_id'') py_str) (\<lambda>i.
          res_bind (res_bind (jindex d ''goal'') py_str) (\<lambda>g.
          res_bind (res_bind (jindex d ''revision'') py_int) (\<lambda>r.
            Inr \<lparr>pl_plan_id = i, pl_goal = g, pl_revision = r, pl_steps = steps\<rparr>))))
      | _ \<Rightarrow> Inl (ValueError ''plan steps must be an array''))"

section \<open>The tool\<close>

text \<open>One step of the argument: the ids seen so far come in, the step goes out.\<close>

definition check_step_arg :: "string set \<Rightarrow> json \<Rightarrow> plan_step res" where
  "check_step_arg ids v =
     (case v of
        JObj d \<Rightarrow>
          if \<not> set (map fst d) \<subseteq> {''id'', ''title'', ''status'', ''outcome''}
          then Inl (ValueError ''unknown plan step field(s)'')
          else (case jget d ''id'' of
            JStr i \<Rightarrow>
              if py_strip i = [] then Inl (ValueError ''plan step id must be a non-empty string'')
              else if py_strip i \<in> ids then Inl (ValueError (''duplicate plan step id: '' @ py_strip i))
              else (case jget d ''title'' of
                JStr t \<Rightarrow>
                  (case jget d ''status'' of
                     JStr st \<Rightarrow>
                       (case jget d ''outcome'' of
                          JNull \<Rightarrow> mk_plan_step (py_strip i) t st None
                        | JStr oc \<Rightarrow> mk_plan_step (py_strip i) t st (Some oc)
                        | _ \<Rightarrow> Inl (ValueError ''plan step outcome must be a string''))
                   | _ \<Rightarrow> Inl (ValueError ''invalid plan step status''))
              | _ \<Rightarrow> Inl (ValueError ''plan step title must be a non-empty string''))
          | _ \<Rightarrow> Inl (ValueError ''plan step id must be a non-empty string''))
      | _ \<Rightarrow> Inl (ValueError ''each plan step must be an object''))"

fun check_step_args :: "string set \<Rightarrow> json list \<Rightarrow> plan_step list res" where
  "check_step_args ids [] = Inr []"
| "check_step_args ids (v # vs) =
     res_bind (check_step_arg ids v) (\<lambda>s.
     res_bind (check_step_args (insert (ps_id s) ids) vs) (\<lambda>ss. Inr (s # ss)))"

definition in_progress :: "plan_step list \<Rightarrow> nat" where
  "in_progress ss = length (filter (\<lambda>s. ps_status s = ''in_progress'') ss)"

definition parse_plan_args :: "jobj \<Rightarrow> (string \<times> plan_step list) res" where
  "parse_plan_args args =
     (if \<not> set (map fst args) \<subseteq> {''goal'', ''steps''} then Inl (ValueError ''unknown update_plan argument(s)'')
      else (case jget args ''goal'' of
          JStr goal \<Rightarrow>
            if py_strip goal = [] then Inl (ValueError ''goal must be a non-empty string'')
            else (case jget args ''steps'' of
              JList vs \<Rightarrow>
                if vs = [] then Inl (ValueError ''steps must be a non-empty array'')
                else res_bind (check_step_args {} vs) (\<lambda>ss.
                  if in_progress ss > 1 then Inl (ValueError ''plan may contain at most one in_progress step'')
                  else Inr (py_strip goal, ss))
            | _ \<Rightarrow> Inl (ValueError ''steps must be a non-empty array''))
        | _ \<Rightarrow> Inl (ValueError ''goal must be a non-empty string'')))"

text \<open>The tool against the current plan: the new snapshot, or the exception.\<close>

definition update_plan :: "string \<Rightarrow> plan_snapshot option \<Rightarrow> jobj \<Rightarrow> plan_snapshot res" where
  "update_plan uid current args =
     res_bind (parse_plan_args args) (\<lambda>(goal, steps). Inr (next_snapshot uid current goal steps))"

section \<open>Properties\<close>

text \<open>What every step of a plan satisfies.\<close>

definition plan_step_ok :: "plan_step \<Rightarrow> bool" where
  "plan_step_ok s \<longleftrightarrow> ps_id s \<noteq> [] \<and> stripped (ps_id s) \<and> ps_title s \<noteq> [] \<and> stripped (ps_title s)
     \<and> ps_status s \<in> set PLAN_STATUSES
     \<and> (case ps_outcome s of None \<Rightarrow> True
        | Some oc \<Rightarrow> oc \<noteq> [] \<and> stripped oc \<and> length oc \<le> MAX_PLAN_STEP_OUTCOME_CHARS
            \<and> (ps_status s = ''completed'' \<or> ps_status s = ''blocked''))"

definition plan_ok :: "plan_snapshot \<Rightarrow> bool" where
  "plan_ok p \<longleftrightarrow> (\<forall>s \<in> set (pl_steps p). plan_step_ok s) \<and> distinct (map ps_id (pl_steps p))
     \<and> in_progress (pl_steps p) \<le> 1 \<and> pl_steps p \<noteq> [] \<and> pl_goal p \<noteq> [] \<and> stripped (pl_goal p)
     \<and> 1 \<le> pl_revision p"

lemma mk_plan_step_ok: "mk_plan_step i t st oc = Inr s \<Longrightarrow> plan_step_ok s"
  by (auto simp: mk_plan_step_def plan_step_ok_def stripped_py_strip normal_outcome_def
      split: if_splits option.splits)

lemma mk_plan_step_id: "mk_plan_step i t st oc = Inr s \<Longrightarrow> ps_id s = py_strip i"
  by (auto simp: mk_plan_step_def split: if_splits)

lemma mk_plan_step_props: "mk_plan_step i t st oc = Inr s \<Longrightarrow> plan_step_ok s \<and> ps_id s = py_strip i"
  by (simp add: mk_plan_step_ok mk_plan_step_id)

lemma mk_plan_step_again:
  "plan_step_ok s \<Longrightarrow> mk_plan_step (ps_id s) (ps_title s) (ps_status s) (ps_outcome s) = Inr s"
  by (auto simp: plan_step_ok_def mk_plan_step_def normal_outcome_def py_strip_stripped
      split: option.splits)

lemma plan_step_roundtrip:
  "plan_step_ok s \<Longrightarrow> plan_step_from_json (JObj (plan_step_to_dict s)) = Inr s"
  using mk_plan_step_again [of s]
  by (auto simp: plan_step_from_json_def plan_step_to_dict_def split: option.splits)

lemma plan_snapshot_decode:
  assumes "\<And>s. s \<in> set (pl_steps p) \<Longrightarrow> plan_step_ok s"
  shows "plan_snapshot_from_dict (plan_snapshot_to_dict p) = Inr p"
proof -
  have "res_list plan_step_from_json (map (\<lambda>s. JObj (plan_step_to_dict s)) (pl_steps p)) = Inr (pl_steps p)"
    by (rule res_list_inverse) (simp add: plan_step_roundtrip assms)
  then show ?thesis by (simp add: plan_snapshot_from_dict_def plan_snapshot_to_dict_def)
qed

text \<open>
  A plan whose steps passed validation survives persistence: reading back the dictionary that
  \<open>plan_snapshot_to_dict\<close> wrote gives the same snapshot.
\<close>

theorem plan_snapshot_roundtrip:
  assumes "\<And>s. s \<in> set (pl_steps p) \<Longrightarrow> plan_step_ok s"
  shows "plan_snapshot_from_dict (plan_snapshot_to_dict p) = Inr p"
  using assms by (rule plan_snapshot_decode)

definition demo_step :: plan_step where
  "demo_step = \<lparr>ps_id = ''1'', ps_title = ''Write'', ps_status = ''completed'', ps_outcome = Some ''done''\<rparr>"

definition demo_plan :: plan_snapshot where
  "demo_plan = \<lparr>pl_plan_id = ''p'', pl_goal = ''Ship'', pl_revision = 2, pl_steps = [demo_step]\<rparr>"

lemma demo_step_ok: "plan_step_ok demo_step"
  by (simp add: plan_step_ok_def demo_step_def stripped_def py_space_def PLAN_STATUSES_def
      MAX_PLAN_STEP_OUTCOME_CHARS_def)

theorem plan_snapshot_roundtrip_witness:
  "plan_snapshot_from_dict (plan_snapshot_to_dict demo_plan) = Inr demo_plan"
  by (rule plan_snapshot_roundtrip) (simp add: demo_plan_def demo_step_ok)

lemma check_step_arg_ok: "check_step_arg ids v = Inr s \<Longrightarrow> plan_step_ok s \<and> ps_id s \<notin> ids"
  by (auto simp: check_step_arg_def split: json.splits if_splits
      dest!: mk_plan_step_props)

lemma check_step_args_ok:
  "check_step_args ids vs = Inr ss \<Longrightarrow>
   (\<forall>s \<in> set ss. plan_step_ok s) \<and> distinct (map ps_id ss) \<and> ids \<inter> ps_id ` set ss = {}
   \<and> length ss = length vs"
proof (induction vs arbitrary: ids ss)
  case (Cons v vs)
  then obtain s ss' where s: "check_step_arg ids v = Inr s"
    and ss': "check_step_args (insert (ps_id s) ids) vs = Inr ss'" and "ss = s # ss'" by auto
  with check_step_arg_ok [OF s] Cons.IH [OF ss'] show ?case by auto
qed simp

text \<open>
  C32. Whatever arguments a model sends, a plan that \<open>update_plan\<close> stores is well formed (every step
  validated, ids distinct, at most one step in progress, a stripped non-empty goal), and it is a
  new plan at revision 1 when the goal changed and otherwise the next revision of the same plan.
\<close>

theorem update_plan_wellformed:
  assumes "update_plan uid current args = Inr p"
    and "\<And>q. current = Some q \<Longrightarrow> 1 \<le> pl_revision q"
  shows "plan_ok p \<and>
    (case current of
       Some q \<Rightarrow> if pl_goal q = pl_goal p
         then pl_plan_id p = pl_plan_id q \<and> pl_revision p = pl_revision q + 1
         else pl_plan_id p = uid \<and> pl_revision p = 1
     | None \<Rightarrow> pl_plan_id p = uid \<and> pl_revision p = 1)"
proof -
  from assms(1) obtain goal steps vs where steps: "check_step_args {} vs = Inr steps" and "vs \<noteq> []"
    and "in_progress steps \<le> 1" and "goal \<noteq> []" and "stripped goal"
    and p: "p = next_snapshot uid current goal steps"
    by (fastforce simp: update_plan_def parse_plan_args_def stripped_py_strip
        split: json.splits if_splits)
  moreover from check_step_args_ok [OF steps] \<open>vs \<noteq> []\<close> have "steps \<noteq> []"
    and "\<forall>s \<in> set steps. plan_step_ok s" and "distinct (map ps_id steps)" by auto
  ultimately show ?thesis using assms(2)
    by (auto simp: plan_ok_def next_snapshot_def split: option.splits)
qed

definition demo_plan_args :: jobj where
  "demo_plan_args = [(''goal'', JStr ''Ship''),
     (''steps'', JList [JObj [(''id'', JStr '' 1 ''), (''title'', JStr ''Write''), (''status'', JStr ''in_progress'')]])]"

theorem update_plan_wellformed_witness:
  "\<exists>p. update_plan ''new'' (Some demo_plan) demo_plan_args = Inr p \<and> plan_ok p \<and> pl_revision p = 3"
proof -
  let ?p = "\<lparr>pl_plan_id = ''p'', pl_goal = ''Ship'', pl_revision = 3,
    pl_steps = [\<lparr>ps_id = ''1'', ps_title = ''Write'', ps_status = ''in_progress'', ps_outcome = None\<rparr>]\<rparr>"
  have u: "update_plan ''new'' (Some demo_plan) demo_plan_args = Inr ?p"
    by (simp add: update_plan_def parse_plan_args_def demo_plan_args_def demo_plan_def py_strip_def
        py_rstrip_def py_rstrip_set_def py_lstrip_def py_space_def check_step_arg_def mk_plan_step_def
        PLAN_STATUSES_def normal_outcome_def in_progress_def next_snapshot_def)
  from update_plan_wellformed [OF u] have "plan_ok ?p" by (simp add: demo_plan_def)
  with u show ?thesis by auto
qed

end
