(* ===== verification/Authority.thy ===== *)
theory Authority
  imports Tool_Base
begin

text \<open>
  Who may run what, and who has to be asked first.

  \<^item> \<open>agent_core/execution/authority.py\<close>: scopes, authorities and their intersection.
  \<^item> \<open>agent_core/execution/router.py\<close>: \<open>ExecutionRouter.resolve\<close>, which fixes the scope,
    the authority and the executor of one call.
  \<^item> \<open>agent_core/tools/policy.py\<close>: the approval policies and their composition.
  \<^item> \<open>agent_core/permissions.py\<close>: the permission presets and \<open>PermissionController\<close>.

  The user is the function that answers an approval request. An approval that was asked for is
  recorded in the Session; the model returns the records a call writes.
\<close>

section \<open>Scopes and authorities\<close>

datatype scope = WORKSPACE | HOST

definition scope_value :: "scope \<Rightarrow> string" where
  "scope_value s = (case s of WORKSPACE \<Rightarrow> ''workspace'' | HOST \<Rightarrow> ''host'')"

text \<open>\<open>ExecutionScope(value)\<close> of the \<open>StrEnum\<close>: an unknown text raises.\<close>

definition scope_of :: "string \<Rightarrow> scope res" where
  "scope_of v = (if v = ''workspace'' then Inr WORKSPACE else if v = ''host'' then Inr HOST
     else Inl (ValueError ''not a valid ExecutionScope''))"

fun scope_rank :: "scope \<Rightarrow> nat" where
  "scope_rank WORKSPACE = 0"
| "scope_rank HOST = 1"

text \<open>\<open>min(a, b, key=rank)\<close> keeps the first of two equal elements.\<close>

definition scope_min :: "scope \<Rightarrow> scope \<Rightarrow> scope" where
  "scope_min a b = (if scope_rank b < scope_rank a then b else a)"

record authority =
  default_scope :: scope
  maximum_scope :: scope
  unattended_scope :: "scope option"

definition allows :: "authority \<Rightarrow> scope \<Rightarrow> bool" where
  "allows a s \<longleftrightarrow> scope_rank s \<le> scope_rank (maximum_scope a)"

definition allows_unattended :: "authority \<Rightarrow> scope \<Rightarrow> bool" where
  "allows_unattended a s =
     (case unattended_scope a of None \<Rightarrow> False | Some u \<Rightarrow> scope_rank s \<le> scope_rank u)"

text \<open>The constructor with its \<open>__post_init__\<close> checks.\<close>

definition mk_authority :: "scope \<Rightarrow> scope \<Rightarrow> scope option \<Rightarrow> authority res" where
  "mk_authority d m u =
     (let a = \<lparr>default_scope = d, maximum_scope = m, unattended_scope = u\<rparr> in
      if \<not> allows a d then Inl (ValueError ''default execution scope exceeds authority'')
      else (case u of
          Some s \<Rightarrow> if allows a s then Inr a
             else Inl (ValueError ''unattended execution scope exceeds authority'')
        | None \<Rightarrow> Inr a))"

definition authority_ok :: "authority \<Rightarrow> bool" where
  "authority_ok a \<longleftrightarrow> allows a (default_scope a)
     \<and> (case unattended_scope a of None \<Rightarrow> True | Some u \<Rightarrow> allows a u)"

definition authority_scopes :: "authority \<Rightarrow> scope list" where
  "authority_scopes a = filter (allows a) [WORKSPACE, HOST]"

definition intersect :: "authority \<Rightarrow> authority \<Rightarrow> authority res" where
  "intersect a b =
     (let m = scope_min (maximum_scope a) (maximum_scope b);
          d = scope_min (scope_min (default_scope a) (default_scope b)) m;
          u = (case (unattended_scope a, unattended_scope b) of
                 (Some x, Some y) \<Rightarrow> Some (scope_min (scope_min x y) m)
               | _ \<Rightarrow> None)
      in mk_authority d m u)"

definition APPROVAL_REQUIRED_AUTHORITY :: authority where
  "APPROVAL_REQUIRED_AUTHORITY =
     \<lparr>default_scope = WORKSPACE, maximum_scope = HOST, unattended_scope = None\<rparr>"

definition WORKSPACE_ACCESS_AUTHORITY :: authority where
  "WORKSPACE_ACCESS_AUTHORITY =
     \<lparr>default_scope = WORKSPACE, maximum_scope = HOST, unattended_scope = Some WORKSPACE\<rparr>"

definition WORKSPACE_ONLY_AUTHORITY :: authority where
  "WORKSPACE_ONLY_AUTHORITY =
     \<lparr>default_scope = WORKSPACE, maximum_scope = WORKSPACE, unattended_scope = Some WORKSPACE\<rparr>"

definition FULL_ACCESS_AUTHORITY :: authority where
  "FULL_ACCESS_AUTHORITY =
     \<lparr>default_scope = HOST, maximum_scope = HOST, unattended_scope = Some HOST\<rparr>"

lemmas authority_defs = APPROVAL_REQUIRED_AUTHORITY_def WORKSPACE_ACCESS_AUTHORITY_def
  WORKSPACE_ONLY_AUTHORITY_def FULL_ACCESS_AUTHORITY_def

section \<open>Routing one call\<close>

datatype executor = Workspace_Executor | Host_Executor

record resolved_execution =
  re_scope :: "scope option"
  re_authority :: authority
  re_executor :: "executor option"

definition WORKSPACE_WRITE_TOOLS :: "string list" where
  "WORKSPACE_WRITE_TOOLS = [''apply_patch'', ''edit_file'', ''write_file'']"

definition SHELL_TOOLS :: "string list" where
  "SHELL_TOOLS = [''shell'', ''_hook_command'']"

definition COMPUTER_TOOLS :: "string list" where
  "COMPUTER_TOOLS = [''computer_action'', ''computer_screenshot'']"

definition scope_exceeds :: exn where
  "scope_exceeds = PermissionError ''execution scope exceeds authority''"

definition bad_scope :: exn where
  "bad_scope = ValueError (''execution scope must be '' @ quoted ''workspace'' @ '' or ''
     @ quoted ''host'')"

definition shell_scope :: "json \<Rightarrow> authority \<Rightarrow> scope res" where
  "shell_scope args auth =
     (case args of
        JObj d \<Rightarrow>
          (case (case map_of d ''scope'' of None \<Rightarrow> JStr (scope_value (default_scope auth))
                 | Some v \<Rightarrow> v) of
             JStr v \<Rightarrow>
               (case scope_of v of
                  Inl _ \<Rightarrow> Inl bad_scope
                | Inr s \<Rightarrow> if allows auth s then Inr s else Inl scope_exceeds)
           | _ \<Rightarrow> Inl bad_scope)
      | _ \<Rightarrow> Inl (AttributeError ''get''))"

text \<open>\<open>host_tool\<close> is the predicate the Runtime injects: which names are host tools (MCP).\<close>

definition resolve :: "(string \<Rightarrow> bool) \<Rightarrow> authority \<Rightarrow> tool_call \<Rightarrow> resolved_execution res" where
  "resolve host_tool auth call =
     (if tc_name call \<in> set SHELL_TOOLS then
        res_bind (shell_scope (tc_arguments call) auth) (\<lambda>s.
          Inr \<lparr>re_scope = Some s, re_authority = auth,
               re_executor = Some (if s = WORKSPACE then Workspace_Executor else Host_Executor)\<rparr>)
      else
        let s = (if tc_name call \<in> set WORKSPACE_WRITE_TOOLS then Some WORKSPACE
                 else if tc_name call \<in> set COMPUTER_TOOLS \<or> host_tool (tc_name call) then Some HOST
                 else None)
        in (case s of
              Some x \<Rightarrow> if allows auth x
                then Inr \<lparr>re_scope = s, re_authority = auth, re_executor = None\<rparr>
                else Inl scope_exceeds
            | None \<Rightarrow> Inr \<lparr>re_scope = None, re_authority = auth, re_executor = None\<rparr>))"

section \<open>Approval descriptions\<close>

text \<open>
  \<open>agent_core/approval.py\<close>. \<open>dumps\<close> is \<open>json.dumps(..., ensure_ascii=False)\<close> and \<open>pystr\<close> is
  Python's \<open>str\<close> of a JSON value; both only fill text into a prompt.
\<close>

definition MAX_DESCRIPTION_CHARS :: nat where "MAX_DESCRIPTION_CHARS = 2048"
definition PREVIEW_LINES :: nat where "PREVIEW_LINES = 3"
definition PREVIEW_WIDTH :: nat where "PREVIEW_WIDTH = 120"
definition MAX_FILE_PATHS :: nat where "MAX_FILE_PATHS = 8"

definition clip :: "string \<Rightarrow> nat \<Rightarrow> string" where
  "clip text limit = (if length text \<le> limit then text else take (limit - 3) text @ ''...'')"

definition utf8_length :: "string \<Rightarrow> nat" where
  "utf8_length s = sum_list (map (\<lambda>c. if of_char c < (128 :: nat) then 1 else 2) s)"

fun count_newlines :: "string \<Rightarrow> nat" where
  "count_newlines [] = 0"
| "count_newlines (c # cs) =
     (if c = CR then Suc (count_newlines (if take 1 cs = [LF] then drop 1 cs else cs))
      else if c = LF then Suc (count_newlines cs) else count_newlines cs)"

definition text_stats :: "string \<Rightarrow> string" where
  "text_stats text =
     (let n = count_newlines text + (if text \<noteq> [] \<and> last text \<noteq> CR \<and> last text \<noteq> LF then 1 else 0)
      in nat_str (utf8_length text) @ '' bytes, '' @ nat_str n @ '' lines'')"

definition strip_newline :: "string \<Rightarrow> string" where
  "strip_newline line = py_rstrip_set (\<lambda>c. c = CR \<or> c = LF) line"

definition is_patch_header :: "string \<Rightarrow> bool" where
  "is_patch_header line \<longleftrightarrow> prefix ''*** Add File: '' line \<or> prefix ''*** Update File: '' line
     \<or> prefix ''*** Delete File: '' line"

fun scan_patch :: "string list \<Rightarrow> string list \<Rightarrow> string list \<Rightarrow> nat \<Rightarrow> string list \<times> string list \<times> nat" where
  "scan_patch [] files preview n = (files, preview, n)"
| "scan_patch (line # rest) files preview n =
     (if is_patch_header line then
        scan_patch rest
          (if length files < MAX_FILE_PATHS
           then files @ [clip (strip_newline (drop 4 line)) 160] else files)
          preview (Suc n)
      else if take 1 line \<in> {''+'', ''-'', '' ''} \<and> length preview < PREVIEW_LINES then
        scan_patch rest files (preview @ [clip (strip_newline line) PREVIEW_WIDTH]) n
      else scan_patch rest files preview n)"

definition patch_parts :: "json \<Rightarrow> string list" where
  "patch_parts p =
     (case p of
        JStr patch \<Rightarrow>
          (case scan_patch (lines_keep patch) [] [] 0 of (files, preview, n) \<Rightarrow>
             (''Patch: '' @ text_stats patch @ '', '' @ nat_str n @ '' files'') # files
             @ (if n > length files then [''... '' @ nat_str (n - length files) @ '' more files''] else [])
             @ (if preview \<noteq> [] then ''Change preview (first 3 lines):'' # preview else []))
      | _ \<Rightarrow> [''Patch: invalid text''])"

definition field_parts :: "string \<Rightarrow> json \<Rightarrow> string list" where
  "field_parts label v =
     (case v of
        JStr text \<Rightarrow>
          (let preview = map (\<lambda>l. clip (strip_newline l) PREVIEW_WIDTH)
                 (take PREVIEW_LINES (lines_keep (universal_newlines text)))
           in (label @ '': '' @ text_stats text)
              # (if preview \<noteq> [] then ''Preview (first 3 lines):'' # preview else []))
      | _ \<Rightarrow> [label @ '': invalid text''])"

definition arguments_json :: "(json \<Rightarrow> string) \<Rightarrow> tool_call \<Rightarrow> string" where
  "arguments_json dumps call = (case tc_arguments call of JStr raw \<Rightarrow> raw | a \<Rightarrow> dumps a)"

definition write_parts :: "(json \<Rightarrow> string) \<Rightarrow> string \<Rightarrow> jobj \<Rightarrow> string list" where
  "write_parts pystr name d =
     (if name = ''apply_patch'' then patch_parts (jget d ''patch'')
      else (''Path: '' @ clip (pystr (case map_of d ''path'' of None \<Rightarrow> JStr [] | Some v \<Rightarrow> v)) 160)
        # (if name = ''write_file''
           then (''Overwrite: '' @ pystr (case map_of d ''overwrite'' of None \<Rightarrow> JBool False | Some v \<Rightarrow> v))
                # field_parts ''Content'' (jget d ''content'')
           else field_parts ''Old text'' (jget d ''old_text'')
                @ field_parts ''New text'' (jget d ''new_text'')))"

definition approval_description ::
  "(json \<Rightarrow> string) \<Rightarrow> (json \<Rightarrow> string) \<Rightarrow> tool_call \<Rightarrow> string res" where
  "approval_description dumps pystr call =
     (if tc_name call \<notin> set WORKSPACE_WRITE_TOOLS
      then Inr (tc_name call @ ''('' @ arguments_json dumps call @ '')'')
      else (case tc_arguments call of
          JObj d \<Rightarrow> Inr (clip (py_join [LF] (tc_name call # write_parts pystr (tc_name call) d))
                       MAX_DESCRIPTION_CHARS)
        | _ \<Rightarrow> Inl (AttributeError ''get'')))"

section \<open>Approval policies\<close>

text \<open>\<open>subprocess.list2cmdline\<close>: the quoting rules of the Microsoft C runtime.\<close>

fun quote_arg :: "nat \<Rightarrow> string \<Rightarrow> string \<times> nat" where
  "quote_arg bs [] = (replicate bs (CHR 0x5C), bs)"
| "quote_arg bs (c # cs) =
     (if c = CHR 0x5C then quote_arg (Suc bs) cs
      else if c = CHR 0x22 then
        (let (r, n) = quote_arg 0 cs in (replicate (2 * bs) (CHR 0x5C) @ [CHR 0x5C, CHR 0x22] @ r, n))
      else (let (r, n) = quote_arg 0 cs in (replicate bs (CHR 0x5C) @ [c] @ r, n)))"

definition cmdline_arg :: "string \<Rightarrow> string" where
  "cmdline_arg a =
     (let needquote = CHR 0x20 \<in> set a \<or> CHR 0x09 \<in> set a \<or> a = [];
          (body, bs) = quote_arg 0 a
      in if needquote then [CHR 0x22] @ body @ replicate bs (CHR 0x5C) @ [CHR 0x22] else body)"

definition list2cmdline :: "string list \<Rightarrow> string" where
  "list2cmdline as = py_join '' '' (map cmdline_arg as)"

text \<open>The answers of the user, one function per kind of request.\<close>

record approver =
  ask_shell :: "string \<Rightarrow> bool"
  ask_file :: "string \<Rightarrow> string \<Rightarrow> bool"
  ask_computer :: "string \<Rightarrow> bool"
  ask_mcp :: "tool_call \<Rightarrow> bool"
  mcp_requires_approval :: "string \<Rightarrow> bool"

definition json_str_list :: "json \<Rightarrow> string list res" where
  "json_str_list j = (case j of
     JList xs \<Rightarrow> res_list (\<lambda>x. case x of JStr s \<Rightarrow> Inr s | _ \<Rightarrow> Inl (TypeError ''expected str'')) xs
   | _ \<Rightarrow> Inl (TypeError ''Value after * must be an iterable''))"

text \<open>The text a shell request shows: \<open>None\<close> when the policy does not apply to the call.\<close>

definition shell_prompt :: "tool_call \<Rightarrow> string option res" where
  "shell_prompt call =
     (if tc_name call \<notin> set SHELL_TOOLS then Inr None
      else (case tc_arguments call of
          JObj d \<Rightarrow>
            (case jget d ''command'' of
               JStr c \<Rightarrow>
                 if c = [] then Inr None
                 else if tc_name call = ''_hook_command'' then
                   res_bind (jindex d ''args'') (\<lambda>a. res_bind (json_str_list a) (\<lambda>as.
                     Inr (Some (''[Hook] '' @ list2cmdline (c # as)))))
                 else Inr (Some c)
             | _ \<Rightarrow> Inr None)
        | _ \<Rightarrow> Inl (AttributeError ''get'')))"

definition ShellApprovalPolicy :: "approver \<Rightarrow> tool_call \<Rightarrow> bool res" where
  "ShellApprovalPolicy u call =
     res_bind (shell_prompt call) (\<lambda>p. case p of
        None \<Rightarrow> Inr False
      | Some command \<Rightarrow> if ask_shell u command then Inr True
          else Inl (PermissionError ''shell command was not approved''))"

definition FileWriteApprovalPolicy ::
  "(json \<Rightarrow> string) \<Rightarrow> (json \<Rightarrow> string) \<Rightarrow> approver \<Rightarrow> tool_call \<Rightarrow> bool res" where
  "FileWriteApprovalPolicy dumps pystr u call =
     (if tc_name call \<notin> set WORKSPACE_WRITE_TOOLS then Inr False
      else res_bind (approval_description dumps pystr call) (\<lambda>d.
        if ask_file u d (tc_name call) then Inr True
        else Inl (PermissionError ''file change was not approved'')))"

definition McpApprovalPolicy :: "approver \<Rightarrow> tool_call \<Rightarrow> bool res" where
  "McpApprovalPolicy u call =
     (if \<not> mcp_requires_approval u (tc_name call) then Inr False
      else if ask_mcp u call then Inr True
      else Inl (PermissionError ''MCP tool call was not approved''))"

definition ComputerApprovalPolicy :: "(json \<Rightarrow> string) \<Rightarrow> approver \<Rightarrow> tool_call \<Rightarrow> bool res" where
  "ComputerApprovalPolicy pystr u call =
     (if tc_name call \<notin> set COMPUTER_TOOLS then Inr False
      else if ask_computer u (tc_name call @ ''('' @ pystr (tc_arguments call) @ '')'') then Inr True
      else Inl (PermissionError ''computer action was not approved''))"

fun CompositeToolPolicy :: "(tool_call \<Rightarrow> bool res) list \<Rightarrow> tool_call \<Rightarrow> bool res" where
  "CompositeToolPolicy [] call = Inr False"
| "CompositeToolPolicy (p # ps) call =
     res_bind (p call) (\<lambda>b. res_bind (CompositeToolPolicy ps call) (\<lambda>b'. Inr (b \<or> b')))"

text \<open>The composition the Runtime installs (\<open>agent_runtime/host.py\<close>).\<close>

definition runtime_policy ::
  "(json \<Rightarrow> string) \<Rightarrow> (json \<Rightarrow> string) \<Rightarrow> approver \<Rightarrow> tool_call \<Rightarrow> bool res" where
  "runtime_policy dumps pystr u =
     CompositeToolPolicy [ShellApprovalPolicy u, FileWriteApprovalPolicy dumps pystr u,
       ComputerApprovalPolicy pystr u, McpApprovalPolicy u]"

section \<open>Permission presets and the controller\<close>

datatype preset = ASK_FOR_APPROVAL | WORKSPACE_ACCESS | FULL_ACCESS

fun preset_value :: "preset \<Rightarrow> string" where
  "preset_value ASK_FOR_APPROVAL = ''ask_for_approval''"
| "preset_value WORKSPACE_ACCESS = ''workspace_access''"
| "preset_value FULL_ACCESS = ''full_access''"

definition preset_of :: "string \<Rightarrow> preset res" where
  "preset_of v =
     (if v = ''ask_for_approval'' then Inr ASK_FOR_APPROVAL
      else if v = ''workspace_access'' then Inr WORKSPACE_ACCESS
      else if v = ''full_access'' then Inr FULL_ACCESS
      else Inl (ValueError ''not a valid PermissionPreset''))"

fun preset_authority :: "preset \<Rightarrow> authority" where
  "preset_authority ASK_FOR_APPROVAL = APPROVAL_REQUIRED_AUTHORITY"
| "preset_authority WORKSPACE_ACCESS = WORKSPACE_ACCESS_AUTHORITY"
| "preset_authority FULL_ACCESS = FULL_ACCESS_AUTHORITY"

definition preset_default_scope :: "preset \<Rightarrow> scope" where
  "preset_default_scope p = default_scope (preset_authority p)"

text \<open>One approval record, as \<open>_record_approval\<close> hands it to the Session.\<close>

definition approval_record ::
  "(json \<Rightarrow> string) \<Rightarrow> (json \<Rightarrow> string) \<Rightarrow> tool_call \<Rightarrow> bool \<Rightarrow> string res" where
  "approval_record dumps pystr call approved =
     res_bind (approval_description dumps pystr call) (\<lambda>d.
       Inr (''Tool approval: '' @ d @ [LF] @ ''User response: ''
            @ (if approved then ''approved'' else ''denied'')))"

text \<open>
  \<open>PermissionController.authorize\<close>: the result of the call and the approval records it wrote.
\<close>

definition controller_authorize ::
  "(json \<Rightarrow> string) \<Rightarrow> (json \<Rightarrow> string) \<Rightarrow> (tool_call \<Rightarrow> bool res) \<Rightarrow> tool_call
    \<Rightarrow> resolved_execution option \<Rightarrow> unit res \<times> string list" where
  "controller_authorize dumps pystr policy call route =
     (let recorded = (\<lambda>ok res. case approval_record dumps pystr call ok of
            Inl e \<Rightarrow> (Inl e, []) | Inr r \<Rightarrow> (res, [r]))
      in case route of
           None \<Rightarrow> (Inr (), [])
         | Some r \<Rightarrow> (case re_scope r of
              None \<Rightarrow> (Inr (), [])
            | Some s \<Rightarrow>
                if allows_unattended (re_authority r) s then (Inr (), [])
                else (case policy call of
                    Inl (PermissionError m) \<Rightarrow> recorded False (Inl (PermissionError m))
                  | Inl e \<Rightarrow> (Inl e, [])
                  | Inr consulted \<Rightarrow> if consulted then recorded True (Inr ()) else (Inr (), []))))"

section \<open>The laws of authorities\<close>

lemma scope_rank_le [simp]: "scope_rank s \<le> 1" "scope_rank WORKSPACE \<le> n"
  by (cases s) auto

lemma scope_rank_min [simp]: "scope_rank (scope_min a b) = min (scope_rank a) (scope_rank b)"
  by (simp add: scope_min_def min_def)

lemma mk_authority_ok: "mk_authority d m u = Inr a \<Longrightarrow> authority_ok a"
  by (auto simp: mk_authority_def authority_ok_def Let_def split: if_splits option.splits)

lemma constants_ok: "authority_ok APPROVAL_REQUIRED_AUTHORITY" "authority_ok WORKSPACE_ACCESS_AUTHORITY"
  "authority_ok WORKSPACE_ONLY_AUTHORITY" "authority_ok FULL_ACCESS_AUTHORITY"
  by (simp_all add: authority_ok_def allows_def authority_defs)

lemma preset_authority_ok: "authority_ok (preset_authority p)"
  by (cases p) (simp_all add: constants_ok)

lemma preset_roundtrip [simp]: "preset_of (preset_value p) = Inr p"
  by (cases p) (simp_all add: preset_of_def)

lemma scope_roundtrip [simp]: "scope_of (scope_value s) = Inr s"
  by (cases s) (simp_all add: scope_of_def scope_value_def)

text \<open>
  The intersection of two valid authorities never raises, is itself valid, and is their
  meet: it allows a scope, attended or unattended, exactly when both of them do.
\<close>

theorem intersect_is_meet:
  assumes "authority_ok a" and "authority_ok b"
  shows "\<exists>c. intersect a b = Inr c \<and> authority_ok c
     \<and> (\<forall>s. allows c s \<longleftrightarrow> allows a s \<and> allows b s)
     \<and> (\<forall>s. allows_unattended c s \<longleftrightarrow> allows_unattended a s \<and> allows_unattended b s)"
  using assms
  by (auto simp: intersect_def mk_authority_def authority_ok_def allows_def allows_unattended_def
      Let_def split: option.splits)

theorem intersect_is_meet_witness:
  "\<exists>c. intersect WORKSPACE_ONLY_AUTHORITY FULL_ACCESS_AUTHORITY = Inr c \<and> authority_ok c
     \<and> (\<forall>s. allows c s \<longleftrightarrow> allows WORKSPACE_ONLY_AUTHORITY s \<and> allows FULL_ACCESS_AUTHORITY s)
     \<and> (\<forall>s. allows_unattended c s \<longleftrightarrow>
          allows_unattended WORKSPACE_ONLY_AUTHORITY s \<and> allows_unattended FULL_ACCESS_AUTHORITY s)"
  by (rule intersect_is_meet [OF constants_ok(3) constants_ok(4)])

text \<open>A resolved scope is never beyond the authority it was resolved under.\<close>

lemma shell_scope_allowed: "shell_scope args auth = Inr s \<Longrightarrow> allows auth s"
  by (auto simp: shell_scope_def split: json.splits option.splits sum.splits if_splits)

lemma resolve_scope_allowed:
  assumes "resolve host_tool auth call = Inr r"
  shows "re_authority r = auth"
    and "re_scope r = Some s \<Longrightarrow> allows auth s"
  using assms by (auto simp: resolve_def Let_def dest: shell_scope_allowed
      split: if_splits option.splits)

lemma resolve_sandbox:
  "resolve host_tool auth call = Inr r \<Longrightarrow> re_executor r = Some Host_Executor \<Longrightarrow> allows auth HOST"
  by (auto simp: resolve_def Let_def split: if_splits option.splits scope.splits)
     (metis scope.exhaust shell_scope_allowed)

section \<open>The contract of an approval policy\<close>

text \<open>
  \<open>covers\<close> says for which calls the policy has to ask and \<open>consent\<close> what the user answers.
  A policy reports \<open>True\<close> only after a positive answer, reports \<open>False\<close> only for calls it does
  not cover, and turns a negative answer into a \<open>PermissionError\<close>.
\<close>

locale approval_policy =
  fixes authorize :: "tool_call \<Rightarrow> bool res"
    and covers :: "tool_call \<Rightarrow> bool"
    and consent :: "tool_call \<Rightarrow> bool"
  assumes consulted: "authorize c = Inr True \<Longrightarrow> covers c \<and> consent c"
    and skipped: "authorize c = Inr False \<Longrightarrow> \<not> covers c"
    and refused: "authorize c = Inl (PermissionError m) \<Longrightarrow> covers c \<and> \<not> consent c"
begin

lemma authorized_consent: "authorize c = Inr b \<Longrightarrow> covers c \<Longrightarrow> consent c"
  using consulted skipped by (cases b) auto

text \<open>The controller lets a covered call through only unattended or with consent on record.\<close>

lemma controller_guards:
  assumes "controller_authorize dumps pystr authorize c (Some r) = (Inr (), recs)"
    and "re_scope r = Some s" and "covers c"
  shows "allows_unattended (re_authority r) s \<and> recs = []
     \<or> consent c \<and> (\<exists>t. approval_record dumps pystr c True = Inr t \<and> recs = [t])"
proof (cases "allows_unattended (re_authority r) s")
  case True
  with assms show ?thesis by (simp add: controller_authorize_def)
next
  case False
  show ?thesis
  proof (cases "authorize c")
    case (Inl e)
    with False assms show ?thesis
      by (cases e) (auto simp: controller_authorize_def Let_def split: sum.splits)
  next
    case (Inr b)
    with False assms show ?thesis
      using skipped [of c] authorized_consent [OF Inr]
      by (auto simp: controller_authorize_def Let_def split: sum.splits if_splits)
  qed
qed

text \<open>Without consent a covered call is stopped, whatever the route.\<close>

lemma controller_stops:
  assumes "re_scope r = Some s" and "\<not> allows_unattended (re_authority r) s"
    and "covers c" and "\<not> consent c"
  shows "\<exists>e. fst (controller_authorize dumps pystr authorize c (Some r)) = Inl e"
proof (cases "authorize c")
  case (Inl e)
  with assms show ?thesis
    by (cases e) (auto simp: controller_authorize_def Let_def split: sum.splits)
next
  case (Inr b)
  with assms show ?thesis using authorized_consent by blast
qed

end

text \<open>Policies compose: the composite covers what any of them covers and needs every consent.\<close>

lemma composite_policy:
  assumes "\<And>p cov con. (p, cov, con) \<in> set ps \<Longrightarrow> approval_policy p cov con"
  shows "approval_policy (CompositeToolPolicy (map fst ps))
    (\<lambda>c. \<exists>(p, cov, con) \<in> set ps. cov c)
    (\<lambda>c. \<forall>(p, cov, con) \<in> set ps. cov c \<longrightarrow> con c)"
  using assms
proof (induction ps)
  case Nil
  show ?case by unfold_locales auto
next
  case (Cons q ps)
  obtain p cov con where q: "q = (p, cov, con)" by (cases q)
  then have p: "approval_policy p cov con" using Cons.prems by simp
  have rest: "approval_policy (CompositeToolPolicy (map fst ps))
    (\<lambda>c. \<exists>(p, cov, con) \<in> set ps. cov c) (\<lambda>c. \<forall>(p, cov, con) \<in> set ps. cov c \<longrightarrow> con c)"
    by (rule Cons.IH) (use Cons.prems in auto)
  note laws = approval_policy.consulted [OF p] approval_policy.skipped [OF p]
    approval_policy.refused [OF p] approval_policy.consulted [OF rest]
    approval_policy.skipped [OF rest] approval_policy.refused [OF rest]
  show ?case
  proof
    fix c assume a: "CompositeToolPolicy (map fst (q # ps)) c = Inr True"
    then obtain b b' where b: "p c = Inr b" and b': "CompositeToolPolicy (map fst ps) c = Inr b'"
      and "b \<or> b'" by (auto simp: q)
    then show "(\<exists>(p, cov, con) \<in> set (q # ps). cov c) \<and>
        (\<forall>(p, cov, con) \<in> set (q # ps). cov c \<longrightarrow> con c)"
      using laws(1,2) [of c] laws(4,5) [of c] by (cases b; cases b') (auto simp: q)
  next
    fix c assume "CompositeToolPolicy (map fst (q # ps)) c = Inr False"
    then show "\<not> (\<exists>(p, cov, con) \<in> set (q # ps). cov c)"
      using laws(2) [of c] laws(5) [of c] by (auto simp: q)
  next
    fix c m assume "CompositeToolPolicy (map fst (q # ps)) c = Inl (PermissionError m)"
    then show "(\<exists>(p, cov, con) \<in> set (q # ps). cov c) \<and>
        \<not> (\<forall>(p, cov, con) \<in> set (q # ps). cov c \<longrightarrow> con c)"
      using laws(3) [of c m] laws(6) [of c m] by (fastforce simp: q res_bind_Inl_iff)
  qed
qed

text \<open>Which calls each policy of the Runtime covers, and the user's answer to it.\<close>

definition shell_covers :: "tool_call \<Rightarrow> bool" where
  "shell_covers c = (case shell_prompt c of Inr (Some _) \<Rightarrow> True | _ \<Rightarrow> False)"

definition shell_consent :: "approver \<Rightarrow> tool_call \<Rightarrow> bool" where
  "shell_consent u c = (case shell_prompt c of Inr (Some t) \<Rightarrow> ask_shell u t | _ \<Rightarrow> True)"

definition file_covers :: "tool_call \<Rightarrow> bool" where
  "file_covers c \<longleftrightarrow> tc_name c \<in> set WORKSPACE_WRITE_TOOLS \<and> is_jobj (tc_arguments c)"

definition file_consent :: "(json \<Rightarrow> string) \<Rightarrow> (json \<Rightarrow> string) \<Rightarrow> approver \<Rightarrow> tool_call \<Rightarrow> bool" where
  "file_consent dumps pystr u c =
     (case approval_description dumps pystr c of Inr d \<Rightarrow> ask_file u d (tc_name c) | _ \<Rightarrow> True)"

definition computer_covers :: "tool_call \<Rightarrow> bool" where
  "computer_covers c \<longleftrightarrow> tc_name c \<in> set COMPUTER_TOOLS"

definition computer_consent :: "(json \<Rightarrow> string) \<Rightarrow> approver \<Rightarrow> tool_call \<Rightarrow> bool" where
  "computer_consent pystr u c = ask_computer u (tc_name c @ ''('' @ pystr (tc_arguments c) @ '')'')"

definition mcp_covers :: "approver \<Rightarrow> tool_call \<Rightarrow> bool" where
  "mcp_covers u c \<longleftrightarrow> mcp_requires_approval u (tc_name c)"

definition runtime_covers :: "approver \<Rightarrow> tool_call \<Rightarrow> bool" where
  "runtime_covers u c \<longleftrightarrow> shell_covers c \<or> file_covers c \<or> computer_covers c \<or> mcp_covers u c"

definition runtime_consent :: "(json \<Rightarrow> string) \<Rightarrow> (json \<Rightarrow> string) \<Rightarrow> approver \<Rightarrow> tool_call \<Rightarrow> bool" where
  "runtime_consent dumps pystr u c \<longleftrightarrow>
     (shell_covers c \<longrightarrow> shell_consent u c) \<and> (file_covers c \<longrightarrow> file_consent dumps pystr u c)
     \<and> (computer_covers c \<longrightarrow> computer_consent pystr u c) \<and> (mcp_covers u c \<longrightarrow> ask_mcp u c)"

lemma approval_description_jobj:
  "tc_name c \<in> set WORKSPACE_WRITE_TOOLS \<Longrightarrow> approval_description dumps pystr c = Inr d \<Longrightarrow>
   is_jobj (tc_arguments c)"
  by (cases "tc_arguments c") (auto simp: approval_description_def)

lemma approval_description_no_denial:
  "approval_description dumps pystr c \<noteq> Inl (PermissionError m)"
  by (auto simp: approval_description_def split: json.splits)

lemma res_list_Inl: "res_list f xs = Inl e \<Longrightarrow> \<exists>x \<in> set xs. f x = Inl e"
  by (induction xs) (auto simp: res_bind_Inl_iff)

lemma json_str_list_no_denial: "json_str_list j \<noteq> Inl (PermissionError m)"
  by (auto simp: json_str_list_def split: json.splits dest!: res_list_Inl)

lemma jindex_no_denial: "jindex d k \<noteq> Inl (PermissionError m)"
  by (auto simp: jindex_def split: option.splits)

lemma shell_prompt_no_denial: "shell_prompt c \<noteq> Inl (PermissionError m)"
  by (auto simp: shell_prompt_def res_bind_Inl_iff jindex_no_denial json_str_list_no_denial
      split: if_splits json.splits)

interpretation shell: approval_policy "ShellApprovalPolicy u" shell_covers "shell_consent u" for u
  by unfold_locales
     (auto simp: ShellApprovalPolicy_def shell_covers_def shell_consent_def res_bind_Inl_iff
        shell_prompt_no_denial split: sum.splits option.splits if_splits)

interpretation file_write: approval_policy "FileWriteApprovalPolicy dumps pystr u" file_covers
  "file_consent dumps pystr u" for dumps pystr u
  by unfold_locales
     (auto simp: FileWriteApprovalPolicy_def file_covers_def file_consent_def res_bind_Inl_iff
        approval_description_no_denial dest: approval_description_jobj
        split: sum.splits if_splits)

interpretation computer: approval_policy "ComputerApprovalPolicy pystr u" computer_covers
  "computer_consent pystr u" for pystr u
  by unfold_locales
     (auto simp: ComputerApprovalPolicy_def computer_covers_def computer_consent_def split: if_splits)

interpretation mcp: approval_policy "McpApprovalPolicy u" "mcp_covers u" "ask_mcp u" for u
  by unfold_locales (auto simp: McpApprovalPolicy_def mcp_covers_def split: if_splits)

interpretation runtime: approval_policy "runtime_policy dumps pystr u" "runtime_covers u"
  "runtime_consent dumps pystr u" for dumps pystr u
proof -
  let ?ps = "[(ShellApprovalPolicy u, shell_covers, shell_consent u),
    (FileWriteApprovalPolicy dumps pystr u, file_covers, file_consent dumps pystr u),
    (ComputerApprovalPolicy pystr u, computer_covers, computer_consent pystr u),
    (McpApprovalPolicy u, mcp_covers u, ask_mcp u)]"
  have "approval_policy (CompositeToolPolicy (map fst ?ps))
      (\<lambda>c. \<exists>(p, cov, con) \<in> set ?ps. cov c) (\<lambda>c. \<forall>(p, cov, con) \<in> set ?ps. cov c \<longrightarrow> con c)"
    by (rule composite_policy)
       (auto intro: shell.approval_policy_axioms file_write.approval_policy_axioms
          computer.approval_policy_axioms mcp.approval_policy_axioms)
  then show "approval_policy (runtime_policy dumps pystr u) (runtime_covers u)
      (runtime_consent dumps pystr u)"
    by (simp add: runtime_policy_def runtime_covers_def [abs_def] runtime_consent_def [abs_def]
        conj_ac)
qed


definition demo_user :: approver where
  "demo_user = \<lparr>ask_shell = (\<lambda>c. c = ''ls''), ask_file = (\<lambda>_ _. False), ask_computer = (\<lambda>_. False),
     ask_mcp = (\<lambda>_. False), mcp_requires_approval = (\<lambda>_. False)\<rparr>"

definition demo_call :: tool_call where
  "demo_call = \<lparr>tc_id = ''1'', tc_name = ''shell'',
     tc_arguments = JObj [(''command'', JStr ''ls'')], tc_argument_error = None\<rparr>"

lemmas demo_eval = demo_user_def demo_call_def resolve_def SHELL_TOOLS_def shell_scope_def scope_of_def
  scope_value_def WORKSPACE_WRITE_TOOLS_def COMPUTER_TOOLS_def authority_defs allows_def
  allows_unattended_def runtime_covers_def shell_covers_def shell_prompt_def runtime_policy_def
  ShellApprovalPolicy_def FileWriteApprovalPolicy_def ComputerApprovalPolicy_def McpApprovalPolicy_def
  controller_authorize_def approval_record_def approval_description_def arguments_json_def


text \<open>
  Without the user's consent no preset below full access lets a covered call through: under
  \<open>ask_for_approval\<close> every covered call with a scope is stopped with an exception, under
  \<open>workspace_access\<close> every covered host call.
\<close>

theorem refusal_stops_call:
  assumes "resolve (mcp_requires_approval u) (preset_authority p) call = Inr r"
    and "re_scope r = Some s" and "runtime_covers u call" and "\<not> runtime_consent dumps pystr u call"
    and "p = ASK_FOR_APPROVAL \<or> p = WORKSPACE_ACCESS \<and> s = HOST"
  shows "\<exists>e. fst (controller_authorize dumps pystr (runtime_policy dumps pystr u) call (Some r)) = Inl e"
proof -
  have "\<not> allows_unattended (re_authority r) s"
    using assms(5) resolve_scope_allowed(1) [OF assms(1)]
    by (auto simp: authority_defs allows_unattended_def)
  then show ?thesis using runtime.controller_stops [OF assms(2) _ assms(3,4)] by blast
qed

definition demo_host_call :: tool_call where
  "demo_host_call = \<lparr>tc_id = ''2'', tc_name = ''computer_action'',
     tc_arguments = JObj [], tc_argument_error = None\<rparr>"

theorem refusal_stops_call_witness:
  "\<exists>r e. resolve (mcp_requires_approval demo_user) (preset_authority WORKSPACE_ACCESS) demo_host_call = Inr r
     \<and> re_scope r = Some HOST
     \<and> fst (controller_authorize (\<lambda>_. []) (\<lambda>_. []) (runtime_policy (\<lambda>_. []) (\<lambda>_. []) demo_user)
          demo_host_call (Some r)) = Inl e"
proof -
  let ?r = "\<lparr>re_scope = Some HOST, re_authority = preset_authority WORKSPACE_ACCESS, re_executor = None\<rparr>"
  have r: "resolve (mcp_requires_approval demo_user) (preset_authority WORKSPACE_ACCESS) demo_host_call = Inr ?r"
    by (simp add: demo_eval demo_host_call_def)
  have cov: "runtime_covers demo_user demo_host_call"
    by (simp add: runtime_covers_def computer_covers_def demo_host_call_def COMPUTER_TOOLS_def)
  have "\<not> runtime_consent (\<lambda>_. []) (\<lambda>_. []) demo_user demo_host_call"
    by (simp add: runtime_consent_def computer_covers_def computer_consent_def demo_host_call_def
        COMPUTER_TOOLS_def demo_user_def)
  with refusal_stops_call [OF r _ cov, of HOST] show ?thesis using r by force
qed

end
