(* ===== verification/Session.thy ===== *)
theory Session
  imports Message Plan Authority
begin

text \<open>
  The Session of \<open>agent_core/session.py\<close>: runtime state derived from an append-only journal.

  \<^item> \<open>session_core\<close> is the replayed state (items, turns, tool executions, jobs, anchors, archive,
    plan, permission preset, usage); \<open>apply_event\<close> is \<open>Session.apply_event\<close>, one helper per
    branch. An exception may leave the branch half done, so the result is the state reached and
    the exception raised, if any.
  \<^item> \<open>session\<close> adds the journal, the sink and the current turn; \<open>session_event\<close> is
    \<open>Session._event\<close> and the remaining definitions are the methods of the class. The event
    identifier and the clock reading of an event are passed as a \<open>stamp\<close>.
  \<^item> A sink is the exception it raises on a batch, if any; \<open>ses_sunk\<close> is what it has accepted.
\<close>

section \<open>State\<close>

record journal_event =
  ev_seq :: int
  ev_id :: string
  ev_type :: string
  ev_turn_id :: "string option"
  ev_timestamp :: utc
  ev_tool_call_id :: "string option"
  ev_payload :: jobj

record turn =
  tn_id :: string
  tn_status :: string
  tn_started_at :: "utc option"
  tn_finished_at :: "utc option"
  tn_error :: "runtime_error_info option"

record tool_execution =
  tx_id :: string
  tx_turn_id :: "string option"
  tx_name :: string
  tx_arguments :: json
  tx_status :: string
  tx_started_at :: "utc option"
  tx_completed_at :: "utc option"
  tx_error :: "string option"

record job_execution =
  jx_id :: string
  jx_turn_id :: string
  jx_kind :: string
  jx_status :: string
  jx_submitted_at :: "utc option"
  jx_started_at :: "utc option"
  jx_completed_at :: "utc option"
  jx_error :: "string option"
  jx_details :: jobj
  jx_elapsed :: json
  jx_progress :: json
  jx_result_summary :: json

record user_anchor =
  ua_turn_id :: string
  ua_content :: content
  ua_timestamp :: utc
  ua_source :: string
  ua_item_index :: nat

record session_core =
  sc_items :: "message list"
  sc_archived_summary :: "string option"
  sc_archived_item_cursor :: int
  sc_compression_count :: nat
  sc_permission_preset :: preset
  sc_plan :: "plan_snapshot option"
  sc_cache_usage :: "cache_usage option"
  sc_input_token_anchor :: "input_token_anchor option"
  sc_turns :: "(string, turn) dict"
  sc_tool_executions :: "(string, tool_execution) dict"
  sc_jobs :: "(string, job_execution) dict"
  sc_user_anchors :: "user_anchor list"

definition empty_core :: session_core where
  "empty_core = \<lparr>sc_items = [], sc_archived_summary = None, sc_archived_item_cursor = 0,
     sc_compression_count = 0, sc_permission_preset = ASK_FOR_APPROVAL, sc_plan = None,
     sc_cache_usage = None, sc_input_token_anchor = None, sc_turns = [], sc_tool_executions = [],
     sc_jobs = [], sc_user_anchors = []\<rparr>"

definition USER_SOURCES :: "string list" where
  "USER_SOURCES = [''user_input'', ''steering'', ''question_response'', ''approval_response'']"

definition JOB_STATUSES :: "string list" where
  "JOB_STATUSES = [''submitted'', ''running'', ''completed'', ''failed'', ''cancelled'', ''interrupted'']"

definition job_active :: "string \<Rightarrow> bool" where
  "job_active st \<longleftrightarrow> st = ''submitted'' \<or> st = ''running''"

section \<open>Replaying one event\<close>

text \<open>A state and the exception that ended the computation there, if one did.\<close>

type_synonym 's outcome = "'s \<times> exn option"

definition try_in :: "'s \<Rightarrow> 'a res \<Rightarrow> ('a \<Rightarrow> 's outcome) \<Rightarrow> 's outcome" where
  "try_in s r k = (case r of Inl e \<Rightarrow> (s, Some e) | Inr x \<Rightarrow> k x)"

lemma try_in_simps [simp]: "try_in s (Inl e) k = (s, Some e)" "try_in s (Inr x) k = k x"
  by (simp_all add: try_in_def)

lemma try_in_ok: "try_in s r k = (s', None) \<longleftrightarrow> (\<exists>x. r = Inr x \<and> k x = (s', None))"
  by (cases r) auto

lemma try_in_keeps: "P s \<Longrightarrow> (\<And>x. r = Inr x \<Longrightarrow> P (fst (k x))) \<Longrightarrow> P (fst (try_in s r k))"
  by (cases r) auto

text \<open>\<open>str(payload.get(k, ""))\<close>.\<close>

definition str_field :: "jobj \<Rightarrow> string \<Rightarrow> string res" where
  "str_field d k = (case map_of d k of None \<Rightarrow> Inr [] | Some v \<Rightarrow> py_str v)"

text \<open>\<open>payload.get("status", "unknown")\<close>.\<close>

definition status_field :: "jobj \<Rightarrow> string res" where
  "status_field d = (case map_of d ''status'' of None \<Rightarrow> Inr ''unknown'' | Some (JStr s) \<Rightarrow> Inr s
     | Some _ \<Rightarrow> Inl (Untyped ''status''))"

definition user_source :: "jobj \<Rightarrow> string res" where
  "user_source d =
     (case map_of d ''user_source'' of
        None \<Rightarrow> Inr ''user_input''
      | Some (JList _) \<Rightarrow> Inl (TypeError ''unhashable type'')
      | Some (JObj _) \<Rightarrow> Inl (TypeError ''unhashable type'')
      | Some (JStr s) \<Rightarrow> if s \<in> set USER_SOURCES then Inr s
          else Inl (ValueError (''invalid user anchor source: '' @ s))
      | Some v \<Rightarrow> res_bind (py_str v) (\<lambda>s. Inl (ValueError (''invalid user anchor source: '' @ s))))"

definition apply_message :: "journal_event \<Rightarrow> jobj \<Rightarrow> session_core \<Rightarrow> session_core outcome" where
  "apply_message e d s =
     try_in s (message_from_dict d) (\<lambda>m.
       let s1 = s\<lparr>sc_items := sc_items s @ [m]\<rparr> in
       case ev_turn_id e of
         None \<Rightarrow> (s1, None)
       | Some tid \<Rightarrow>
           if \<not> is_user_authored m then (s1, None)
           else try_in s1 (user_source (ev_payload e)) (\<lambda>src.
             (s1\<lparr>sc_user_anchors := sc_user_anchors s @
                [\<lparr>ua_turn_id = tid, ua_content = msg_content m,
                  ua_timestamp = (case msg_timestamp m of None \<Rightarrow> ev_timestamp e | Some t \<Rightarrow> t),
                  ua_source = src, ua_item_index = length (sc_items s)\<rparr>]\<rparr>, None)))"

text \<open>\<open>InputTokenAnchor(**anchor)\<close>.\<close>

definition input_token_anchor_kwargs :: "json \<Rightarrow> input_token_anchor res" where
  "input_token_anchor_kwargs j =
     (case j of
        JObj d \<Rightarrow>
          if set (map fst d) \<noteq> {''fingerprint'', ''local_tokens'', ''input_tokens''}
          then Inl (TypeError ''InputTokenAnchor keyword arguments'')
          else (case (jget d ''fingerprint'', jget d ''local_tokens'', jget d ''input_tokens'') of
             (JStr f, JInt l, JInt i) \<Rightarrow>
               Inr \<lparr>ita_fingerprint = f, ita_local_tokens = l, ita_input_tokens = i\<rparr>
           | _ \<Rightarrow> Inl (Untyped ''InputTokenAnchor''))
      | _ \<Rightarrow> Inl (TypeError ''argument after ** must be a mapping''))"

definition token_field :: "jobj \<Rightarrow> string \<Rightarrow> int option res" where
  "token_field d k = res_bind (jindex d k)
     (\<lambda>v. case v of JNull \<Rightarrow> Inr None | JInt i \<Rightarrow> Inr (Some i) | _ \<Rightarrow> Inl (Untyped ''token count''))"

text \<open>The input and cache-read tokens of a usage record that reports both.\<close>

definition usage_pair :: "json \<Rightarrow> (int \<times> int) option res" where
  "usage_pair v =
     (case v of
        JNull \<Rightarrow> Inr None
      | JObj d \<Rightarrow>
          res_bind (token_field d ''input_tokens'') (\<lambda>i.
          res_bind (token_field d ''cache_read_tokens'') (\<lambda>c.
            Inr (case (i, c) of (Some i', Some c') \<Rightarrow> Some (i', c') | _ \<Rightarrow> None)))
      | _ \<Rightarrow> Inl (Untyped ''usage''))"

definition add_usage :: "cache_usage option \<Rightarrow> (int \<times> int) option \<Rightarrow> cache_usage option" where
  "add_usage prev p =
     (case p of None \<Rightarrow> prev
      | Some (i, c) \<Rightarrow>
          let q = (case prev of None \<Rightarrow> \<lparr>cu_input_tokens = 0, cu_cache_read_tokens = 0\<rparr> | Some q \<Rightarrow> q)
          in Some \<lparr>cu_input_tokens = cu_input_tokens q + i, cu_cache_read_tokens = cu_cache_read_tokens q + c\<rparr>)"

definition apply_usage :: "journal_event \<Rightarrow> session_core \<Rightarrow> session_core outcome" where
  "apply_usage e s =
     try_in s
       (if ev_type e = ''model_completed''
        then (case jget (ev_payload e) ''input_token_anchor'' of
                JNull \<Rightarrow> Inr None
              | a \<Rightarrow> res_map Some (input_token_anchor_kwargs a))
        else Inr (sc_input_token_anchor s)) (\<lambda>anchor.
     let s1 = s\<lparr>sc_input_token_anchor := anchor\<rparr> in
     try_in s1 (res_bind (jindex (ev_payload e) ''usage'') usage_pair) (\<lambda>p.
       (s1\<lparr>sc_cache_usage := add_usage (sc_cache_usage s) p\<rparr>, None)))"

definition apply_turn_started :: "journal_event \<Rightarrow> string \<Rightarrow> session_core \<Rightarrow> session_core outcome" where
  "apply_turn_started e tid s =
     (s\<lparr>sc_turns := AList.update tid
        \<lparr>tn_id = tid, tn_status = ''running'', tn_started_at = Some (ev_timestamp e),
         tn_finished_at = None, tn_error = None\<rparr> (sc_turns s)\<rparr>, None)"

definition set_turn :: "string \<Rightarrow> turn \<Rightarrow> session_core \<Rightarrow> session_core" where
  "set_turn tid t s = s\<lparr>sc_turns := AList.update tid t (sc_turns s)\<rparr>"

definition apply_turn_changed :: "journal_event \<Rightarrow> string \<Rightarrow> session_core \<Rightarrow> session_core outcome" where
  "apply_turn_changed e tid s =
     (let t0 = (case map_of (sc_turns s) tid of
            Some t \<Rightarrow> t
          | None \<Rightarrow> \<lparr>tn_id = tid, tn_status = ''unknown'', tn_started_at = None, tn_finished_at = None,
              tn_error = None\<rparr>)
      in try_in (set_turn tid t0 s) (status_field (ev_payload e)) (\<lambda>st.
         let t1 = t0\<lparr>tn_status := st, tn_finished_at := Some (ev_timestamp e)\<rparr>
         in try_in (set_turn tid t1 s)
              (case map_of (ev_payload e) ''error'' of None \<Rightarrow> Inr None
               | Some v \<Rightarrow> res_map Some (runtime_error_from_dict v)) (\<lambda>err.
            (set_turn tid (t1\<lparr>tn_error := err\<rparr>) s, None))))"

definition set_tool :: "string \<Rightarrow> tool_execution \<Rightarrow> session_core \<Rightarrow> session_core" where
  "set_tool cid x s = s\<lparr>sc_tool_executions := AList.update cid x (sc_tool_executions s)\<rparr>"

definition apply_tool_started :: "journal_event \<Rightarrow> string \<Rightarrow> session_core \<Rightarrow> session_core outcome" where
  "apply_tool_started e cid s =
     try_in s (jindex (ev_payload e) ''arguments'') (\<lambda>args.
     try_in s (str_field (ev_payload e) ''name'') (\<lambda>nm.
       (set_tool cid \<lparr>tx_id = cid, tx_turn_id = ev_turn_id e, tx_name = nm, tx_arguments = args,
          tx_status = ''started'', tx_started_at = Some (ev_timestamp e), tx_completed_at = None,
          tx_error = None\<rparr> s, None)))"

definition apply_tool_finished :: "journal_event \<Rightarrow> string \<Rightarrow> session_core \<Rightarrow> session_core outcome" where
  "apply_tool_finished e cid s =
     try_in s (case map_of (sc_tool_executions s) cid of
         Some x \<Rightarrow> Inr x
       | None \<Rightarrow> res_map (\<lambda>nm. \<lparr>tx_id = cid, tx_turn_id = ev_turn_id e, tx_name = nm,
           tx_arguments = JObj [], tx_status = ''unknown'', tx_started_at = None,
           tx_completed_at = None, tx_error = None\<rparr>) (str_field (ev_payload e) ''name'')) (\<lambda>x.
     try_in (set_tool cid x s) (status_field (ev_payload e)) (\<lambda>st.
       (set_tool cid (x\<lparr>tx_status := st, tx_completed_at := Some (ev_timestamp e),
          tx_error := jget_str (ev_payload e) ''error''\<rparr>) s, None)))"

definition apply_tool_recovered :: "journal_event \<Rightarrow> string \<Rightarrow> session_core \<Rightarrow> session_core outcome" where
  "apply_tool_recovered e cid s =
     (case map_of (sc_tool_executions s) cid of
        None \<Rightarrow> (s, None)
      | Some x \<Rightarrow> (set_tool cid (x\<lparr>tx_status := ''unknown'', tx_completed_at := Some (ev_timestamp e)\<rparr>) s, None))"

definition set_job :: "string \<Rightarrow> job_execution \<Rightarrow> session_core \<Rightarrow> session_core" where
  "set_job jid j s = s\<lparr>sc_jobs := AList.update jid j (sc_jobs s)\<rparr>"

text \<open>A \<open>JobExecution\<close> built from its first four arguments.\<close>

definition new_job :: "string \<Rightarrow> string \<Rightarrow> string \<Rightarrow> string \<Rightarrow> job_execution" where
  "new_job jid tid kind st = \<lparr>jx_id = jid, jx_turn_id = tid, jx_kind = kind, jx_status = st,
     jx_submitted_at = None, jx_started_at = None, jx_completed_at = None, jx_error = None,
     jx_details = [], jx_elapsed = JFloat 0 0, jx_progress = JNull, jx_result_summary = JNull\<rparr>"

definition apply_job_submitted :: "journal_event \<Rightarrow> string \<Rightarrow> string \<Rightarrow> session_core \<Rightarrow> session_core outcome" where
  "apply_job_submitted e jid tid s =
     try_in s (str_field (ev_payload e) ''kind'') (\<lambda>kind.
     try_in s (res_bind (jindex (ev_payload e) ''details'')
         (\<lambda>v. case v of JObj d \<Rightarrow> Inr d | _ \<Rightarrow> Inl (TypeError ''details is not a mapping''))) (\<lambda>det.
       (set_job jid ((new_job jid tid kind ''submitted'')\<lparr>jx_submitted_at := Some (ev_timestamp e),
          jx_details := det\<rparr>) s, None)))"

definition known_job :: "journal_event \<Rightarrow> string \<Rightarrow> string \<Rightarrow> string \<Rightarrow> session_core \<Rightarrow> job_execution res" where
  "known_job e jid tid st s =
     (case map_of (sc_jobs s) jid of
        Some j \<Rightarrow> Inr j
      | None \<Rightarrow> res_map (\<lambda>kind. new_job jid tid kind st) (str_field (ev_payload e) ''kind''))"

definition apply_job_started :: "journal_event \<Rightarrow> string \<Rightarrow> string \<Rightarrow> session_core \<Rightarrow> session_core outcome" where
  "apply_job_started e jid tid s =
     try_in s (known_job e jid tid ''running'' s) (\<lambda>j.
       (set_job jid (j\<lparr>jx_status := ''running'', jx_started_at := Some (ev_timestamp e)\<rparr>) s, None))"

definition job_status_field :: "jobj \<Rightarrow> string res" where
  "job_status_field d =
     (case jget d ''status'' of
        JStr st \<Rightarrow> Inr (if st \<in> set JOB_STATUSES then st else ''interrupted'')
      | JList _ \<Rightarrow> Inl (TypeError ''unhashable type'')
      | JObj _ \<Rightarrow> Inl (TypeError ''unhashable type'')
      | _ \<Rightarrow> Inr ''interrupted'')"

definition apply_job_finished :: "journal_event \<Rightarrow> string \<Rightarrow> string \<Rightarrow> session_core \<Rightarrow> session_core outcome" where
  "apply_job_finished e jid tid s =
     try_in s (known_job e jid tid ''interrupted'' s) (\<lambda>j0.
     try_in (set_job jid j0 s) (job_status_field (ev_payload e)) (\<lambda>st.
     let j1 = j0\<lparr>jx_status := st, jx_completed_at := Some (ev_timestamp e)\<rparr> in
     try_in (set_job jid j1 s) (jindex (ev_payload e) ''elapsed_seconds'') (\<lambda>el.
     let j2 = j1\<lparr>jx_elapsed := el\<rparr> in
     try_in (set_job jid j2 s) (jindex (ev_payload e) ''result_summary'') (\<lambda>rs.
     let j3 = j2\<lparr>jx_result_summary := rs\<rparr> in
     try_in (set_job jid j3 s) (jindex (ev_payload e) ''progress'') (\<lambda>pg.
       (set_job jid (j3\<lparr>jx_progress := pg, jx_error := jget_str (ev_payload e) ''error''\<rparr>) s, None))))))"

text \<open>The three job branches act only on a string \<open>job_id\<close> and an event with a turn.\<close>

definition with_job :: "journal_event \<Rightarrow> (string \<Rightarrow> string \<Rightarrow> session_core \<Rightarrow> session_core outcome)
    \<Rightarrow> session_core \<Rightarrow> session_core outcome" where
  "with_job e f s =
     (case (jget_str (ev_payload e) ''job_id'', ev_turn_id e) of
        (Some jid, Some tid) \<Rightarrow> f jid tid s
      | _ \<Rightarrow> (s, None))"

definition apply_archived :: "journal_event \<Rightarrow> session_core \<Rightarrow> session_core outcome" where
  "apply_archived e s =
     (let s1 = s\<lparr>sc_input_token_anchor := None, sc_archived_summary := jget_str (ev_payload e) ''summary''\<rparr>
      in try_in s1 (res_bind (jindex (ev_payload e) ''item_cursor'') py_int) (\<lambda>c.
         (s1\<lparr>sc_archived_item_cursor := c, sc_compression_count := sc_compression_count s + 1\<rparr>, None)))"

definition apply_preset :: "journal_event \<Rightarrow> session_core \<Rightarrow> session_core outcome" where
  "apply_preset e s =
     try_in s (res_bind (res_bind (jindex (ev_payload e) ''preset'') py_str) preset_of)
       (\<lambda>p. (s\<lparr>sc_permission_preset := p\<rparr>, None))"

definition truthy_str :: "string option \<Rightarrow> bool" where
  "truthy_str x \<longleftrightarrow> x \<noteq> None \<and> x \<noteq> Some []"

definition JOB_END_EVENTS :: "string list" where
  "JOB_END_EVENTS = [''job_completed'', ''job_failed'', ''job_cancelled'', ''job_interrupted'']"

definition TOOL_END_EVENTS :: "string list" where
  "TOOL_END_EVENTS = [''tool_completed'', ''tool_failed'', ''tool_cancelled'', ''tool_unknown'']"

definition apply_event :: "journal_event \<Rightarrow> session_core \<Rightarrow> session_core outcome" where
  "apply_event e s =
     (let ty = ev_type e; p = ev_payload e in
      if ty = ''message_appended'' \<and> is_jobj (jget p ''message'')
        then (case jget p ''message'' of JObj d \<Rightarrow> apply_message e d s | _ \<Rightarrow> (s, None))
      else if ty = ''model_completed'' \<or> ty = ''compression_completed'' then apply_usage e s
      else if ty = ''turn_started'' \<and> truthy_str (ev_turn_id e)
        then apply_turn_started e (the (ev_turn_id e)) s
      else if prefix ''turn_'' ty \<and> truthy_str (ev_turn_id e)
        then apply_turn_changed e (the (ev_turn_id e)) s
      else if ty = ''tool_started'' \<and> truthy_str (ev_tool_call_id e)
        then apply_tool_started e (the (ev_tool_call_id e)) s
      else if ty \<in> set TOOL_END_EVENTS \<and> truthy_str (ev_tool_call_id e)
        then apply_tool_finished e (the (ev_tool_call_id e)) s
      else if ty = ''tool_recovered'' \<and> truthy_str (ev_tool_call_id e)
        then apply_tool_recovered e (the (ev_tool_call_id e)) s
      else if ty = ''job_submitted'' then with_job e (apply_job_submitted e) s
      else if ty = ''job_started'' then with_job e (apply_job_started e) s
      else if ty \<in> set JOB_END_EVENTS then with_job e (apply_job_finished e) s
      else if ty = ''context_archived'' then apply_archived e s
      else if ty = ''permission_preset_changed'' then apply_preset e s
      else if ty = ''plan_updated'' \<and> is_jobj (jget p ''plan'')
        then (case jget p ''plan'' of
           JObj d \<Rightarrow> try_in s (plan_snapshot_from_dict d) (\<lambda>pl. (s\<lparr>sc_plan := Some pl\<rparr>, None))
         | _ \<Rightarrow> (s, None))
      else (s, None))"

text \<open>Replay as a fallible step, for reading a journal back.\<close>

definition apply_step :: "session_core \<Rightarrow> journal_event \<Rightarrow> session_core res" where
  "apply_step s e = (case apply_event e s of (s', None) \<Rightarrow> Inr s' | (_, Some x) \<Rightarrow> Inl x)"

lemma apply_step_Inr: "apply_step s e = Inr s' \<longleftrightarrow> apply_event e s = (s', None)"
  by (auto simp: apply_step_def split: prod.splits option.splits)

section \<open>The Session\<close>

type_synonym sink = "journal_event list \<Rightarrow> exn option"

type_synonym stamp = "string \<times> utc"

record session =
  ses_id :: string
  ses_workspace :: "string option"
  ses_core :: session_core
  ses_journal :: "journal_event list"
  ses_sink :: "sink option"
  ses_sunk :: "journal_event list"
  ses_current_turn_id :: "string option"

definition new_session :: "string \<Rightarrow> string option \<Rightarrow> session" where
  "new_session sid ws = \<lparr>ses_id = sid, ses_workspace = ws, ses_core = empty_core, ses_journal = [],
     ses_sink = None, ses_sunk = [], ses_current_turn_id = None\<rparr>"

definition attach_journal_sink :: "sink option \<Rightarrow> session \<Rightarrow> session" where
  "attach_journal_sink k s = s\<lparr>ses_sink := k\<rparr>"

definition next_seq :: "journal_event list \<Rightarrow> int" where
  "next_seq j = (if j = [] then 1 else ev_seq (last j) + 1)"

text \<open>Hand a batch to the sink, then append it and apply it: a batch the sink refuses leaves no
  trace in memory.\<close>

fun apply_all :: "journal_event list \<Rightarrow> session_core \<Rightarrow> session_core outcome" where
  "apply_all [] c = (c, None)"
| "apply_all (e # es) c = (case apply_event e c of (c', None) \<Rightarrow> apply_all es c' | r \<Rightarrow> r)"

definition sink_write :: "journal_event list \<Rightarrow> session \<Rightarrow> session outcome" where
  "sink_write es s =
     (case ses_sink s of
        None \<Rightarrow> (s, None)
      | Some k \<Rightarrow> (case k es of Some x \<Rightarrow> (s, Some x) | None \<Rightarrow> (s\<lparr>ses_sunk := ses_sunk s @ es\<rparr>, None)))"

definition journal_write :: "journal_event list \<Rightarrow> session \<Rightarrow> session outcome" where
  "journal_write es s =
     (case (if es = [] then (s, None) else sink_write es s) of
        (s1, Some x) \<Rightarrow> (s1, Some x)
      | (s1, None) \<Rightarrow>
          (case apply_all es (ses_core s1) of
             (c, r) \<Rightarrow> (s1\<lparr>ses_journal := ses_journal s1 @ es, ses_core := c\<rparr>, r)))"

definition session_event ::
  "stamp \<Rightarrow> string \<Rightarrow> string option \<Rightarrow> jobj \<Rightarrow> string option \<Rightarrow> session \<Rightarrow> session outcome" where
  "session_event st ty tid p cid s =
     journal_write [\<lparr>ev_seq = next_seq (ses_journal s), ev_id = fst st, ev_type = ty, ev_turn_id = tid,
       ev_timestamp = snd st, ev_tool_call_id = cid, ev_payload = p\<rparr>] s"

subsection \<open>Recovery\<close>

text \<open>The events a restart adds, before they are numbered: turn, call, type and payload.\<close>

definition recovery_turns :: "session_core \<Rightarrow> (string \<times> string option \<times> string option \<times> jobj) list" where
  "recovery_turns c = map (\<lambda>t. (''turn_recovered'', Some (tn_id t), None, [(''status'', JStr ''unknown'')]))
     (filter (\<lambda>t. tn_status t = ''running'') (map snd (sc_turns c)))"

definition recovery_tools :: "session_core \<Rightarrow> (string \<times> string option \<times> string option \<times> jobj) list" where
  "recovery_tools c = map (\<lambda>x. (''tool_recovered'', tx_turn_id x, Some (tx_id x), [(''status'', JStr ''unknown'')]))
     (filter (\<lambda>x. tx_status x = ''started'') (map snd (sc_tool_executions c)))"

definition recovery_jobs :: "session_core \<Rightarrow> (string \<times> string option \<times> string option \<times> jobj) list" where
  "recovery_jobs c = map (\<lambda>j. (''job_interrupted'', Some (jx_turn_id j), None,
       [(''job_id'', JStr (jx_id j)), (''kind'', JStr (jx_kind j)), (''status'', JStr ''interrupted''),
        (''elapsed_seconds'', if jx_started_at j \<noteq> None then JNull else JFloat 0 0),
        (''result_summary'', JNull), (''progress'', JNull)]))
     (filter (\<lambda>j. job_active (jx_status j)) (map snd (sc_jobs c)))"

text \<open>Number the drafts from \<open>n\<close> on; \<open>stamps k\<close> is the identifier and time of the k-th one.\<close>

fun number_events :: "(nat \<Rightarrow> stamp) \<Rightarrow> nat \<Rightarrow> int \<Rightarrow>
    (string \<times> string option \<times> string option \<times> jobj) list \<Rightarrow> journal_event list" where
  "number_events stamps k n [] = []"
| "number_events stamps k n ((ty, tid, cid, p) # ds) =
     \<lparr>ev_seq = n, ev_id = fst (stamps k), ev_type = ty, ev_turn_id = tid, ev_timestamp = snd (stamps k),
      ev_tool_call_id = cid, ev_payload = p\<rparr> # number_events stamps (Suc k) (n + 1) ds"

definition recovery_events :: "(nat \<Rightarrow> stamp) \<Rightarrow> session \<Rightarrow> journal_event list" where
  "recovery_events stamps s =
     number_events stamps 0 (next_seq (ses_journal s))
       (recovery_turns (ses_core s) @ recovery_tools (ses_core s) @ recovery_jobs (ses_core s))"

definition recover :: "(nat \<Rightarrow> stamp) \<Rightarrow> session \<Rightarrow> session outcome" where
  "recover stamps s = journal_write (recovery_events stamps s) s"

subsection \<open>Turns\<close>

definition begin_turn_id :: "string \<Rightarrow> string option \<Rightarrow> session \<Rightarrow> string" where
  "begin_turn_id uid turn_id s =
     (case turn_id of None \<Rightarrow> uid
      | Some t \<Rightarrow> if map_of (sc_turns (ses_core s)) t \<noteq> None then uid else t)"

text \<open>\<open>uid\<close> is the identifier \<open>uuid4\<close> draws when the client's hint cannot be used.\<close>

definition begin_turn :: "stamp \<Rightarrow> string \<Rightarrow> string option \<Rightarrow> session \<Rightarrow> session outcome" where
  "begin_turn st uid turn_id s =
     (let tid = begin_turn_id uid turn_id s in
      case session_event st ''turn_started'' (Some tid) [(''status'', JStr ''running'')] None s of
        (s1, Some x) \<Rightarrow> (s1, Some x)
      | (s1, None) \<Rightarrow> (s1\<lparr>ses_current_turn_id := Some tid\<rparr>, None))"

text \<open>\<open>turn_id or self._current_turn_id\<close>.\<close>

definition or_current :: "string option \<Rightarrow> session \<Rightarrow> string option" where
  "or_current tid s = (if truthy_str tid then tid else ses_current_turn_id s)"

definition finish_turn ::
  "stamp \<Rightarrow> string \<Rightarrow> string option \<Rightarrow> runtime_error_info option \<Rightarrow> session \<Rightarrow> session outcome" where
  "finish_turn st status turn_id err s =
     (case or_current turn_id s of
        None \<Rightarrow> (s, None)
      | Some tid \<Rightarrow>
          (case session_event st (''turn_'' @ status) (Some tid)
              ([(''status'', JStr status)] @
               (case err of None \<Rightarrow> [] | Some e \<Rightarrow> [(''error'', runtime_error_to_json e)])) None s of
             (s1, Some x) \<Rightarrow> (s1, Some x)
           | (s1, None) \<Rightarrow>
               (if Some tid = ses_current_turn_id s1 then s1\<lparr>ses_current_turn_id := None\<rparr> else s1, None)))"

subsection \<open>Tools, models and jobs\<close>

definition tool_started :: "stamp \<Rightarrow> tool_call \<Rightarrow> string option \<Rightarrow> session \<Rightarrow> session outcome" where
  "tool_started st call turn_id s =
     session_event st ''tool_started'' (or_current turn_id s)
       [(''name'', JStr (tc_name call)), (''arguments'', tc_arguments call)] (Some (tc_id call)) s"

definition input_token_anchor_to_dict :: "input_token_anchor option \<Rightarrow> json" where
  "input_token_anchor_to_dict a =
     (case a of None \<Rightarrow> JNull
      | Some x \<Rightarrow> JObj [(''fingerprint'', JStr (ita_fingerprint x)), (''local_tokens'', JInt (ita_local_tokens x)),
          (''input_tokens'', JInt (ita_input_tokens x))])"

definition model_completed ::
  "stamp \<Rightarrow> int \<Rightarrow> token_usage option \<Rightarrow> bool \<Rightarrow> input_token_anchor option \<Rightarrow> session \<Rightarrow> session outcome" where
  "model_completed st model_call_index usage has_tool_calls anchor s =
     session_event st ''model_completed'' (ses_current_turn_id s)
       [(''model_call_index'', JInt model_call_index), (''has_tool_calls'', JBool has_tool_calls),
        (''usage'', usage_to_dict usage), (''input_token_anchor'', input_token_anchor_to_dict anchor)] None s"

text \<open>\<open>AuxiliaryModelCall\<close> of \<open>agent_core/llm.py\<close>.\<close>

record auxiliary_model_call =
  aux_task :: string
  aux_scope :: "string option"
  aux_attempt :: int
  aux_status :: string
  aux_started_at :: utc
  aux_duration_ms :: int
  aux_usage :: "token_usage option"
  aux_error :: "string option"

definition auxiliary_model_completed ::
  "stamp \<Rightarrow> auxiliary_model_call \<Rightarrow> string option \<Rightarrow> string option \<Rightarrow> session \<Rightarrow> session outcome" where
  "auxiliary_model_completed st call model turn_id s =
     session_event st (aux_task call @ ''_completed'')
       (case turn_id of Some t \<Rightarrow> Some t | None \<Rightarrow> ses_current_turn_id s)
       [(''model'', jopt_str model), (''scope'', jopt_str (aux_scope call)), (''attempt'', JInt (aux_attempt call)),
        (''status'', JStr (aux_status call)), (''started_at_utc'', JStr (format_utc (aux_started_at call))),
        (''duration_ms'', JInt (aux_duration_ms call)), (''usage'', usage_to_dict (aux_usage call)),
        (''error'', jopt_str (aux_error call))] None s"

definition tool_finished ::
  "stamp \<Rightarrow> tool_call \<Rightarrow> string \<Rightarrow> string option \<Rightarrow> string option \<Rightarrow> session \<Rightarrow> session outcome" where
  "tool_finished st call status err turn_id s =
     session_event st (''tool_'' @ status) (or_current turn_id s)
       ([(''status'', JStr status), (''name'', JStr (tc_name call))]
        @ (case err of None \<Rightarrow> [] | Some m \<Rightarrow> [(''error'', JStr m)])) (Some (tc_id call)) s"

definition job_submitted :: "stamp \<Rightarrow> string \<Rightarrow> string \<Rightarrow> string \<Rightarrow> jobj \<Rightarrow> session \<Rightarrow> session outcome" where
  "job_submitted st job_id kind turn_id details s =
     session_event st ''job_submitted'' (Some turn_id)
       [(''job_id'', JStr job_id), (''kind'', JStr kind), (''status'', JStr ''submitted''),
        (''details'', JObj details)] None s"

definition job_started :: "stamp \<Rightarrow> string \<Rightarrow> string \<Rightarrow> string \<Rightarrow> session \<Rightarrow> session outcome" where
  "job_started st job_id kind turn_id s =
     session_event st ''job_started'' (Some turn_id)
       [(''job_id'', JStr job_id), (''kind'', JStr kind), (''status'', JStr ''running'')] None s"

definition job_finished ::
  "stamp \<Rightarrow> string \<Rightarrow> string \<Rightarrow> string \<Rightarrow> string \<Rightarrow> json \<Rightarrow> json \<Rightarrow> json \<Rightarrow> string option \<Rightarrow> session \<Rightarrow> session outcome" where
  "job_finished st job_id kind status turn_id elapsed_seconds result_summary progress err s =
     session_event st (''job_'' @ status) (Some turn_id)
       ([(''job_id'', JStr job_id), (''kind'', JStr kind), (''status'', JStr status),
         (''elapsed_seconds'', elapsed_seconds), (''result_summary'', result_summary), (''progress'', progress)]
        @ (case err of None \<Rightarrow> [] | Some m \<Rightarrow> [(''error'', JStr m)])) None s"

subsection \<open>Archive, preset, plan, messages, hooks\<close>

definition set_archived_summary :: "stamp \<Rightarrow> string \<Rightarrow> int \<Rightarrow> session \<Rightarrow> session outcome" where
  "set_archived_summary st summary item_cursor s =
     (let c = max 0 (min item_cursor (int (length (sc_items (ses_core s))))) in
      session_event st ''context_archived'' (ses_current_turn_id s)
        [(''summary'', JStr summary), (''item_cursor'', JInt c)] None s)"

definition set_permission_preset :: "stamp \<Rightarrow> preset \<Rightarrow> session \<Rightarrow> session outcome" where
  "set_permission_preset st p s =
     (if p = sc_permission_preset (ses_core s) then (s, None)
      else session_event st ''permission_preset_changed'' (ses_current_turn_id s)
             [(''preset'', JStr (preset_value p))] None s)"

definition set_plan :: "stamp \<Rightarrow> plan_snapshot \<Rightarrow> session \<Rightarrow> session outcome" where
  "set_plan st snapshot s =
     session_event st ''plan_updated'' None [(''plan'', JObj (plan_snapshot_to_dict snapshot))] None s"

text \<open>\<open>PermissionController.set_preset\<close>: the Session first, then the callback that persists the
  preference of the user, which may raise.\<close>

definition controller_set_preset ::
  "stamp \<Rightarrow> (preset \<Rightarrow> exn option) option \<Rightarrow> preset \<Rightarrow> session \<Rightarrow> session outcome" where
  "controller_set_preset st persist_preset p s =
     (if p = sc_permission_preset (ses_core s) then (s, None)
      else (case set_permission_preset st p s of
          (s1, Some x) \<Rightarrow> (s1, Some x)
        | (s1, None) \<Rightarrow> (s1, case persist_preset of None \<Rightarrow> None | Some f \<Rightarrow> f p)))"

text \<open>\<open>PlanManager.update\<close>; the listener \<open>on_update\<close> is called after the Session changed.\<close>

definition plan_manager_update ::
  "stamp \<Rightarrow> string \<Rightarrow> string \<Rightarrow> plan_step list \<Rightarrow> session \<Rightarrow> session outcome" where
  "plan_manager_update st uid goal steps s =
     set_plan st (next_snapshot uid (sc_plan (ses_core s)) goal steps) s"

definition add_attachments :: "content \<Rightarrow> part list \<Rightarrow> content" where
  "add_attachments c atts = (if atts = [] then c else CParts (content_parts c @ atts))"

definition append_message :: "stamp \<Rightarrow> message \<Rightarrow> string \<Rightarrow> session \<Rightarrow> session outcome" where
  "append_message st m source s =
     session_event st ''message_appended'' (ses_current_turn_id s)
       ([(''message'', JObj (message_to_dict True m))]
        @ (if source \<noteq> ''user_input'' then [(''user_source'', JStr source)] else []))
       (msg_tool_call_id m) s"

text \<open>\<open>add_item\<close>: the message carries every argument but the attachments and the source.\<close>

definition add_item :: "stamp \<Rightarrow> message \<Rightarrow> part list \<Rightarrow> string \<Rightarrow> session \<Rightarrow> session outcome" where
  "add_item st m attachments source s =
     append_message st (m\<lparr>msg_content := add_attachments (msg_content m) attachments\<rparr>) source s"

definition record_user_interaction :: "stamp \<Rightarrow> string \<Rightarrow> string \<Rightarrow> session \<Rightarrow> session outcome" where
  "record_user_interaction st text source s =
     (if ses_current_turn_id s = None then (s, None)
      else add_item st \<lparr>msg_role = ''user'', msg_content = CStr text, msg_timestamp = None,
             msg_tool_calls = [], msg_tool_call_id = None, msg_reasoning = None,
             msg_origin = ''user_interaction'', msg_provider_data = []\<rparr> [] source s)"

definition record_hook :: "stamp \<Rightarrow> string \<Rightarrow> jobj \<Rightarrow> string option \<Rightarrow> session \<Rightarrow> session outcome" where
  "record_hook st status p cid s =
     session_event st (''hook_'' @ status) (ses_current_turn_id s) p cid s"

section \<open>Events the methods write\<close>

text \<open>
  \<open>event_total e\<close>: replaying \<open>e\<close> raises in no state. Every method of the class builds such events
  from arguments of the declared types; \<open>op_ok\<close> below spells the types out.
\<close>

definition event_total :: "journal_event \<Rightarrow> bool" where
  "event_total e \<longleftrightarrow> (\<forall>c. snd (apply_event e c) = None)"

lemma event_total_step: "event_total e \<Longrightarrow> \<exists>c'. apply_event e c = (c', None)"
  by (metis event_total_def prod.collapse)

lemma jget_strs:
  "jget_str ((k, v) # d) k' = (if k' = k then (case v of JStr s \<Rightarrow> Some s | _ \<Rightarrow> None) else jget_str d k')"
  "jget_str [] k' = None"
  by (simp_all add: jget_str_def)

lemma known_job_ok: "str_field (ev_payload e) ''kind'' = Inr k \<Longrightarrow> \<exists>j. known_job e jid tid st c = Inr j"
  by (auto simp: known_job_def split: option.splits)

lemma usage_pair_total: "is_ok (usage_pair (usage_to_dict u))"
  by (cases u) (auto simp: usage_pair_def usage_to_dict_def token_field_def is_ok_def jopt_int_def
      split: option.splits)

lemma anchor_decode: "(case input_token_anchor_to_dict a of JNull \<Rightarrow> Inr None
    | v \<Rightarrow> res_map Some (input_token_anchor_kwargs v)) = Inr a"
  by (cases a) (auto simp: input_token_anchor_to_dict_def input_token_anchor_kwargs_def)

lemmas apply_defs = apply_event_def Let_def truthy_str_def with_job_def TOOL_END_EVENTS_def JOB_END_EVENTS_def

text \<open>Which branch replays an event, by its type.\<close>

lemma dispatch_job_end:
  assumes "ev_type e \<in> set JOB_END_EVENTS"
  shows "apply_event e c = with_job e (apply_job_finished e) c"
proof -
  from assms consider "ev_type e = ''job_completed''" | "ev_type e = ''job_failed''"
    | "ev_type e = ''job_cancelled''" | "ev_type e = ''job_interrupted''"
    by (auto simp: JOB_END_EVENTS_def)
  then show ?thesis by cases (simp_all add: apply_event_def TOOL_END_EVENTS_def JOB_END_EVENTS_def)
qed

lemma dispatch_job_started:
  "ev_type e = ''job_started'' \<Longrightarrow> apply_event e c = with_job e (apply_job_started e) c"
  by (simp add: apply_event_def TOOL_END_EVENTS_def)

lemma dispatch_usage:
  "ev_type e = ''model_completed'' \<or> ev_type e = ''compression_completed'' \<Longrightarrow> apply_event e c = apply_usage e c"
  by (elim disjE) (simp_all add: apply_event_def)

lemma total_turn_started:
  "ev_type e = ''turn_started'' \<Longrightarrow> map_of (ev_payload e) ''status'' = Some (JStr st) \<Longrightarrow> event_total e"
  by (simp add: event_total_def apply_defs apply_turn_started_def)

lemma total_turn_changed:
  assumes "ev_type e = ''turn_'' @ status" and "map_of (ev_payload e) ''status'' = Some (JStr st)"
    and "map_of (ev_payload e) ''error'' = None \<or>
      (\<exists>x. map_of (ev_payload e) ''error'' = Some (runtime_error_to_json x) \<and> rei_type x \<noteq> [])"
  shows "event_total e"
  using assms by (auto simp: event_total_def apply_defs apply_turn_started_def apply_turn_changed_def
      status_field_def split: option.splits)

lemma total_tool_started:
  assumes "ev_type e = ''tool_started''" and "map_of (ev_payload e) ''arguments'' = Some a"
    and "map_of (ev_payload e) ''name'' = Some (JStr n)"
  shows "event_total e"
  using assms by (simp add: event_total_def apply_defs apply_tool_started_def jindex_def str_field_def)

lemma total_tool_finished:
  assumes "ev_type e = ''tool_'' @ status" and "status \<noteq> ''started''"
    and "map_of (ev_payload e) ''status'' = Some (JStr st)"
    and "map_of (ev_payload e) ''name'' = Some (JStr n)"
  shows "event_total e"
  using assms by (auto simp: event_total_def apply_defs apply_tool_finished_def apply_tool_recovered_def
      status_field_def str_field_def split: option.splits)

lemma total_tool_recovered: "ev_type e = ''tool_recovered'' \<Longrightarrow> event_total e"
  by (simp add: event_total_def apply_defs apply_tool_recovered_def split: option.splits)

lemma total_job_submitted:
  assumes "ev_type e = ''job_submitted''" and "map_of (ev_payload e) ''details'' = Some (JObj d)"
    and "map_of (ev_payload e) ''kind'' = Some (JStr k)"
  shows "event_total e"
  using assms by (auto simp: event_total_def apply_defs apply_job_submitted_def jindex_def str_field_def
      split: option.splits)

lemma total_job_started:
  assumes "ev_type e = ''job_started''" and "map_of (ev_payload e) ''kind'' = Some (JStr k)"
  shows "event_total e"
proof -
  have "snd (apply_job_started e jid tid c) = None" for jid tid c
  proof -
    have "str_field (ev_payload e) ''kind'' = Inr k" using assms(2) by (simp add: str_field_def)
    from known_job_ok [OF this] obtain j where "known_job e jid tid ''running'' c = Inr j" by blast
    then show ?thesis by (simp add: apply_job_started_def)
  qed
  then show ?thesis
    by (simp add: event_total_def dispatch_job_started assms(1) with_job_def split: option.splits)
qed

lemma total_job_finished:
  assumes "ev_type e \<in> set JOB_END_EVENTS" and "map_of (ev_payload e) ''kind'' = Some (JStr k)"
    and "map_of (ev_payload e) ''status'' = Some (JStr st)"
    and "map_of (ev_payload e) ''elapsed_seconds'' = Some el"
    and "map_of (ev_payload e) ''result_summary'' = Some rs"
    and "map_of (ev_payload e) ''progress'' = Some pg"
  shows "event_total e"
proof -
  have "snd (apply_job_finished e jid tid c) = None" for jid tid c
  proof -
    have "str_field (ev_payload e) ''kind'' = Inr k" using assms(2) by (simp add: str_field_def)
    from known_job_ok [OF this] obtain j where "known_job e jid tid ''interrupted'' c = Inr j" by blast
    with assms(3-6) show ?thesis
      by (simp add: apply_job_finished_def job_status_field_def jget_def jindex_def Let_def)
  qed
  then show ?thesis
    by (simp add: event_total_def dispatch_job_end assms(1) with_job_def split: option.splits)
qed

lemma total_usage:
  assumes "ev_type e = ''model_completed'' \<and> jget (ev_payload e) ''input_token_anchor'' = input_token_anchor_to_dict a
      \<or> ev_type e = ''compression_completed''"
    and "map_of (ev_payload e) ''usage'' = Some (usage_to_dict u)"
  shows "event_total e"
proof -
  obtain p where "usage_pair (usage_to_dict u) = Inr p" using usage_pair_total [of u] unfolding is_ok_iff by (elim exE)
  moreover from assms have "apply_event e c = apply_usage e c" for c by (blast intro: dispatch_usage)
  ultimately show ?thesis using assms anchor_decode [of a]
    by (auto simp: event_total_def apply_usage_def jindex_def Let_def)
qed

lemma total_archived:
  "ev_type e = ''context_archived'' \<Longrightarrow> map_of (ev_payload e) ''item_cursor'' = Some (JInt c) \<Longrightarrow> event_total e"
  by (simp add: event_total_def apply_defs apply_archived_def jindex_def)

lemma total_preset:
  "ev_type e = ''permission_preset_changed'' \<Longrightarrow> map_of (ev_payload e) ''preset'' = Some (JStr (preset_value p))
   \<Longrightarrow> event_total e"
  by (simp add: event_total_def apply_defs apply_preset_def jindex_def)

lemma total_plan:
  assumes "ev_type e = ''plan_updated''" and "jget (ev_payload e) ''plan'' = JObj (plan_snapshot_to_dict p)"
    and "\<And>st. st \<in> set (pl_steps p) \<Longrightarrow> plan_step_ok st"
  shows "event_total e"
  using assms plan_snapshot_decode [of p] by (simp add: event_total_def apply_defs)

lemma total_message:
  assumes "ev_type e = ''message_appended''" and "jget (ev_payload e) ''message'' = JObj (message_to_dict True m)"
    and "message_ok m" and "is_ok (user_source (ev_payload e))"
  shows "event_total e"
proof -
  from assms(4) obtain src where src: "user_source (ev_payload e) = Inr src" by (auto simp: is_ok_iff)
  have "apply_event e c = apply_message e (message_to_dict True m) c" for c
    using assms(1,2) by (simp add: apply_event_def)
  then show ?thesis
    by (simp add: event_total_def apply_message_def message_decode assms(3) src Let_def split: option.splits)
qed

text \<open>Events of the other families change no replayed state.\<close>

lemma event_ignored:
  "ev_type e = ''hook_'' @ x \<Longrightarrow> apply_event e c = (c, None)"
  "ev_type e = ''memory_completed'' \<Longrightarrow> apply_event e c = (c, None)"
  "ev_type e = ''session_title_completed'' \<Longrightarrow> apply_event e c = (c, None)"
  by (simp_all add: apply_event_def TOOL_END_EVENTS_def JOB_END_EVENTS_def)

section \<open>Runs of a Session\<close>

datatype session_op =
    Op_recover "nat \<Rightarrow> stamp"
  | Op_begin_turn stamp string "string option"
  | Op_user_interaction stamp string string
  | Op_finish_turn stamp string "string option" "runtime_error_info option"
  | Op_tool_started stamp tool_call "string option"
  | Op_model_completed stamp int "token_usage option" bool "input_token_anchor option"
  | Op_auxiliary stamp auxiliary_model_call "string option" "string option"
  | Op_tool_finished stamp tool_call string "string option" "string option"
  | Op_job_submitted stamp string string string jobj
  | Op_job_started stamp string string string
  | Op_job_finished stamp string string string string json json json "string option"
  | Op_archive stamp string int
  | Op_preset stamp preset
  | Op_plan stamp plan_snapshot
  | Op_add_item stamp message "part list" string
  | Op_hook stamp string jobj "string option"

fun run_op :: "session_op \<Rightarrow> session \<Rightarrow> session outcome" where
  "run_op (Op_recover stamps) s = recover stamps s"
| "run_op (Op_begin_turn st uid tid) s = begin_turn st uid tid s"
| "run_op (Op_user_interaction st t src) s = record_user_interaction st t src s"
| "run_op (Op_finish_turn st status tid err) s = finish_turn st status tid err s"
| "run_op (Op_tool_started st call tid) s = tool_started st call tid s"
| "run_op (Op_model_completed st i u b a) s = model_completed st i u b a s"
| "run_op (Op_auxiliary st call model tid) s = auxiliary_model_completed st call model tid s"
| "run_op (Op_tool_finished st call status err tid) s = tool_finished st call status err tid s"
| "run_op (Op_job_submitted st jid kind tid det) s = job_submitted st jid kind tid det s"
| "run_op (Op_job_started st jid kind tid) s = job_started st jid kind tid s"
| "run_op (Op_job_finished st jid kind status tid el rs pg err) s = job_finished st jid kind status tid el rs pg err s"
| "run_op (Op_archive st summary c) s = set_archived_summary st summary c s"
| "run_op (Op_preset st p) s = set_permission_preset st p s"
| "run_op (Op_plan st p) s = set_plan st p s"
| "run_op (Op_add_item st m atts src) s = add_item st m atts src s"
| "run_op (Op_hook st status p cid) s = record_hook st status p cid s"

text \<open>The argument types the source declares: the literals a status, a source or a task may be,
  errors with a type, validated plan steps, attachments with a path, a name, a type and a size.\<close>

fun op_ok :: "session_op \<Rightarrow> bool" where
  "op_ok (Op_user_interaction st t src) = (src \<in> set USER_SOURCES)"
| "op_ok (Op_finish_turn st status tid err) = (\<forall>e. err = Some e \<longrightarrow> rei_type e \<noteq> [])"
| "op_ok (Op_auxiliary st call model tid) = (aux_task call \<in> set [''compression'', ''memory'', ''session_title''])"
| "op_ok (Op_tool_finished st call status err tid) = (status \<in> set [''completed'', ''failed'', ''cancelled'', ''unknown''])"
| "op_ok (Op_job_finished st jid kind status tid el rs pg err) = (status \<in> set [''completed'', ''failed'', ''cancelled''])"
| "op_ok (Op_plan st p) = (\<forall>x \<in> set (pl_steps p). plan_step_ok x)"
| "op_ok (Op_add_item st m atts src) =
     (message_ok (m\<lparr>msg_content := add_attachments (msg_content m) atts\<rparr>) \<and> src \<in> set USER_SOURCES)"
| "op_ok _ = True"

text \<open>
  \<open>extends es s s'\<close>: the events \<open>es\<close> were added, numbered on from the journal, applied in order
  without an exception, and handed to the sink if there is one.
\<close>

definition seqs_from :: "int \<Rightarrow> nat \<Rightarrow> int list" where
  "seqs_from n k = map (\<lambda>i. n + int i) [0..<k]"

definition extends :: "journal_event list \<Rightarrow> session \<Rightarrow> session \<Rightarrow> bool" where
  "extends es s s' \<longleftrightarrow>
     ses_journal s' = ses_journal s @ es
     \<and> replay apply_step (ses_core s) es = Inr (ses_core s')
     \<and> map ev_seq es = seqs_from (next_seq (ses_journal s)) (length es)
     \<and> ses_sink s' = ses_sink s
     \<and> ses_sunk s' = ses_sunk s @ (if ses_sink s = None then [] else es)"

lemma extends_Nil: "extends [] s s' \<longleftrightarrow> ses_journal s' = ses_journal s \<and> ses_core s' = ses_core s
    \<and> ses_sink s' = ses_sink s \<and> ses_sunk s' = ses_sunk s"
  by (auto simp: extends_def seqs_from_def)

lemma seqs_from_Suc: "seqs_from n (Suc k) = n # seqs_from (n + 1) k"
  by (simp add: seqs_from_def map_upt_Suc del: upt_Suc)

lemma seqs_from_append: "seqs_from n (k + l) = seqs_from n k @ seqs_from (n + int k) l"
  by (induction k arbitrary: n) (auto simp: seqs_from_Suc seqs_from_def [of _ 0] ac_simps)

lemma last_seqs_from: "0 < k \<Longrightarrow> last (seqs_from n k) = n + int k - 1"
  by (cases k) (simp_all add: seqs_from_def)

lemma apply_all_total:
  "\<forall>e \<in> set es. event_total e \<Longrightarrow> \<exists>c'. apply_all es c = (c', None) \<and> replay apply_step c es = Inr c'"
proof (induction es arbitrary: c)
  case (Cons e es)
  then obtain c1 where c1: "apply_event e c = (c1, None)" using event_total_step by fastforce
  moreover from Cons obtain c' where "apply_all es c1 = (c', None)" "replay apply_step c1 es = Inr c'" by force
  ultimately show ?case using apply_step_Inr [of c e c1] by simp
qed simp

text \<open>A batch of total events is written whole, or refused by the sink without a trace.\<close>

lemma journal_write_total:
  assumes "\<forall>e \<in> set es. event_total e"
    and "map ev_seq es = seqs_from (next_seq (ses_journal s)) (length es)"
    and "journal_write es s = (s', r)"
  shows "ses_current_turn_id s' = ses_current_turn_id s \<and>
    (r = None \<and> extends es s s' \<or>
     (\<exists>k x. ses_sink s = Some k \<and> k es = Some x \<and> r = Some x \<and> es \<noteq> [] \<and> s' = s))"
proof -
  obtain c' where "apply_all es (ses_core s) = (c', None)" "replay apply_step (ses_core s) es = Inr c'"
    using apply_all_total [OF assms(1)] by blast
  note ran = this
  show ?thesis
  proof (cases "es \<noteq> [] \<and> (\<exists>k x. ses_sink s = Some k \<and> k es = Some x)")
    case True
    with assms(3) show ?thesis by (auto simp: journal_write_def sink_write_def)
  next
    case False
    with ran assms(2,3) show ?thesis
      by (auto simp: journal_write_def sink_write_def extends_def split: if_splits option.splits)
  qed
qed

lemma session_event_total:
  assumes "\<And>n. event_total \<lparr>ev_seq = n, ev_id = fst st, ev_type = ty, ev_turn_id = tid, ev_timestamp = snd st,
      ev_tool_call_id = cid, ev_payload = p\<rparr>"
    and "session_event st ty tid p cid s = (s', r)"
  shows "ses_current_turn_id s' = ses_current_turn_id s \<and>
    (r = None \<and> extends [\<lparr>ev_seq = next_seq (ses_journal s), ev_id = fst st, ev_type = ty, ev_turn_id = tid,
        ev_timestamp = snd st, ev_tool_call_id = cid, ev_payload = p\<rparr>] s s' \<or> r \<noteq> None \<and> s' = s \<and> ses_sink s \<noteq> None)"
  using journal_write_total [OF _ _ assms(2) [unfolded session_event_def]] assms(1)
  by (auto simp: seqs_from_def)

lemma number_events_seqs: "map ev_seq (number_events stamps k n ds) = seqs_from n (length ds)"
  by (induction stamps k n ds rule: number_events.induct) (auto simp: seqs_from_Suc, simp add: seqs_from_def)

lemma number_events_length [simp]: "length (number_events stamps k n ds) = length ds"
  by (induction stamps k n ds rule: number_events.induct) auto

lemma number_events_set:
  "e \<in> set (number_events stamps k n ds) \<Longrightarrow>
   \<exists>ty tid cid p. (ty, tid, cid, p) \<in> set ds \<and> ev_type e = ty \<and> ev_turn_id e = tid \<and> ev_tool_call_id e = cid
     \<and> ev_payload e = p"
  by (induction stamps k n ds rule: number_events.induct) fastforce+

lemma recovery_event_total:
  assumes "e \<in> set (recovery_events stamps s)" shows "event_total e"
proof -
  obtain ty tid cid p where d: "(ty, tid, cid, p) \<in> set (recovery_turns (ses_core s) @
      recovery_tools (ses_core s) @ recovery_jobs (ses_core s))"
    and e: "ev_type e = ty" "ev_turn_id e = tid" "ev_tool_call_id e = cid" "ev_payload e = p"
    using number_events_set [OF assms [unfolded recovery_events_def]] by blast
  from d consider (turns) "(ty, tid, cid, p) \<in> set (recovery_turns (ses_core s))"
    | (tools) "(ty, tid, cid, p) \<in> set (recovery_tools (ses_core s))"
    | (jobs) "(ty, tid, cid, p) \<in> set (recovery_jobs (ses_core s))" by auto
  then show ?thesis
  proof cases
    case turns
    then show ?thesis using total_turn_changed [of e "''recovered''"] e by (auto simp: recovery_turns_def)
  next
    case tools
    then show ?thesis using total_tool_recovered e by (auto simp: recovery_tools_def)
  next
    case jobs
    then show ?thesis using total_job_finished [of e] e by (auto simp: recovery_jobs_def JOB_END_EVENTS_def)
  qed
qed

text \<open>An archive event points into the items.\<close>

definition archive_ok :: "session_core \<Rightarrow> journal_event \<Rightarrow> bool" where
  "archive_ok c e \<longleftrightarrow> (ev_type e = ''context_archived'' \<longrightarrow>
     (\<exists>n. jindex (ev_payload e) ''item_cursor'' = Inr (JInt n) \<and> 0 \<le> n \<and> n \<le> int (length (sc_items c))))"

definition op_result :: "session \<Rightarrow> session \<Rightarrow> exn option \<Rightarrow> bool" where
  "op_result s s' r \<longleftrightarrow>
     (r = None \<and> (\<exists>es. extends es s s' \<and> (\<forall>e \<in> set es. archive_ok (ses_core s) e)))
     \<or> (r \<noteq> None \<and> s' = s \<and> ses_sink s \<noteq> None)"

lemma op_result_nothing [simp]: "op_result s s None"
  unfolding op_result_def by (intro disjI1 conjI exI [of _ "[]"]) (auto simp: extends_Nil)

lemma op_result_turn: "op_result s s' None \<Longrightarrow> op_result s (s'\<lparr>ses_current_turn_id := t\<rparr>) None"
  by (simp add: op_result_def extends_def)

lemma op_result_event:
  assumes "session_event st ty tid p cid s = (s', r)"
    and "\<And>n. event_total \<lparr>ev_seq = n, ev_id = fst st, ev_type = ty, ev_turn_id = tid, ev_timestamp = snd st,
      ev_tool_call_id = cid, ev_payload = p\<rparr>"
    and "ty = ''context_archived'' \<Longrightarrow>
      \<exists>n. jindex p ''item_cursor'' = Inr (JInt n) \<and> 0 \<le> n \<and> n \<le> int (length (sc_items (ses_core s)))"
  shows "op_result s s' r"
  using session_event_total [OF assms(2,1)] assms(3)
  by (auto simp: op_result_def archive_ok_def intro!: exI [of _ "[_]"])

lemma op_recover_result: "recover stamps s = (s', r) \<Longrightarrow> op_result s s' r"
proof -
  assume run: "recover stamps s = (s', r)"
  have "archive_ok (ses_core s) e" if "e \<in> set (recovery_events stamps s)" for e
    using number_events_set [OF that [unfolded recovery_events_def]]
    by (auto simp: archive_ok_def recovery_turns_def recovery_tools_def recovery_jobs_def)
  moreover have "map ev_seq (recovery_events stamps s) =
      seqs_from (next_seq (ses_journal s)) (length (recovery_events stamps s))"
    by (simp add: recovery_events_def number_events_seqs)
  ultimately show ?thesis
    using journal_write_total [OF _ _ run [unfolded recover_def]] recovery_event_total
    by (auto simp: op_result_def)
qed

lemma op_begin_turn_result: "begin_turn st uid tid s = (s', r) \<Longrightarrow> op_result s s' r"
proof -
  assume run: "begin_turn st uid tid s = (s', r)"
  let ?t = "begin_turn_id uid tid s"
  obtain s1 r1 where ev: "session_event st ''turn_started'' (Some ?t) [(''status'', JStr ''running'')] None s = (s1, r1)"
    by (cases "session_event st ''turn_started'' (Some ?t) [(''status'', JStr ''running'')] None s")
  have "op_result s s1 r1" by (rule op_result_event [OF ev]) (simp_all add: total_turn_started)
  with run ev show ?thesis by (cases r1) (auto simp: begin_turn_def op_result_turn)
qed

lemma op_finish_turn_result:
  assumes run: "finish_turn st status tid err s = (s', r)" and err: "\<forall>e. err = Some e \<longrightarrow> rei_type e \<noteq> []"
  shows "op_result s s' r"
proof (cases "or_current tid s")
  case (Some t)
  let ?p = "[(''status'', JStr status)] @ (case err of None \<Rightarrow> [] | Some e \<Rightarrow> [(''error'', runtime_error_to_json e)])"
  obtain s1 r1 where ev: "session_event st (''turn_'' @ status) (Some t) ?p None s = (s1, r1)"
    by (cases "session_event st (''turn_'' @ status) (Some t) ?p None s")
  have "event_total \<lparr>ev_seq = n, ev_id = fst st, ev_type = ''turn_'' @ status, ev_turn_id = Some t,
      ev_timestamp = snd st, ev_tool_call_id = None, ev_payload = ?p\<rparr>" for n
    by (rule total_turn_changed [of _ status]) (use err in \<open>auto split: option.splits\<close>)
  then have "op_result s s1 r1" by (intro op_result_event [OF ev]) simp_all
  with run ev Some show ?thesis by (cases r1) (auto simp: finish_turn_def op_result_turn split: if_splits)
qed (use run in \<open>simp add: finish_turn_def\<close>)

lemma op_append_message_result:
  assumes run: "append_message st m src s = (s', r)" and "message_ok m" and "src \<in> set USER_SOURCES"
  shows "op_result s s' r"
  by (rule op_result_event [OF run [unfolded append_message_def]])
    (rule total_message [of _ m], use assms(2,3) in \<open>auto simp: user_source_def\<close>)

lemma op_auxiliary_result:
  assumes run: "auxiliary_model_completed st call model tid s = (s', r)"
    and "aux_task call \<in> set [''compression'', ''memory'', ''session_title'']"
  shows "op_result s s' r"
proof (rule op_result_event [OF run [unfolded auxiliary_model_completed_def]], goal_cases)
  case (1 n)
  from assms(2) consider "aux_task call = ''compression''" | "aux_task call = ''memory''"
    | "aux_task call = ''session_title''" by auto
  then show ?case
    by cases (simp add: total_usage [where u = "aux_usage call"], simp_all add: event_total_def event_ignored)
qed (use assms(2) in auto)

lemma run_op_result:
  assumes "run_op op s = (s', r)" and "op_ok op" shows "op_result s s' r"
proof (cases op)
  case (Op_user_interaction st t src)
  have "message_ok \<lparr>msg_role = ''user'', msg_content = CStr t, msg_timestamp = None, msg_tool_calls = [],
      msg_tool_call_id = None, msg_reasoning = None, msg_origin = ''user_interaction'', msg_provider_data = []\<rparr>"
    by (simp add: message_ok_def SPECIAL_ORIGINS_def)
  then show ?thesis using assms Op_user_interaction
    by (auto simp: record_user_interaction_def add_item_def add_attachments_def
        intro: op_append_message_result split: if_splits)
next
  case (Op_tool_started st call tid)
  then show ?thesis using assms
    by (auto simp: tool_started_def intro!: total_tool_started elim!: op_result_event)
next
  case (Op_model_completed st i u b a)
  then show ?thesis using assms
    by (auto simp: model_completed_def intro!: total_usage elim!: op_result_event)
next
  case (Op_tool_finished st call status err tid)
  then show ?thesis using assms
    by (auto simp: tool_finished_def intro!: total_tool_finished elim!: op_result_event)
next
  case (Op_job_submitted st jid kind tid det)
  then show ?thesis using assms
    by (auto simp: job_submitted_def intro!: total_job_submitted elim!: op_result_event)
next
  case (Op_job_started st jid kind tid)
  then show ?thesis using assms
    by (auto simp: job_started_def intro!: total_job_started elim!: op_result_event)
next
  case (Op_job_finished st jid kind status tid el rs pg err)
  then show ?thesis using assms
    by (auto simp: job_finished_def JOB_END_EVENTS_def intro!: total_job_finished elim!: op_result_event)
next
  case (Op_archive st summary c)
  then show ?thesis using assms
    by (auto simp: set_archived_summary_def Let_def intro!: total_archived elim!: op_result_event)
next
  case (Op_preset st p)
  then show ?thesis using assms
    by (auto simp: set_permission_preset_def intro!: total_preset elim!: op_result_event split: if_splits)
next
  case (Op_plan st p)
  then show ?thesis using assms
    by (auto simp: set_plan_def intro!: total_plan elim!: op_result_event)
next
  case (Op_hook st status p cid)
  then show ?thesis using assms
    by (auto simp: record_hook_def event_total_def event_ignored elim!: op_result_event)
qed (use assms in \<open>auto simp: add_item_def intro: op_recover_result op_begin_turn_result op_finish_turn_result
    op_append_message_result op_auxiliary_result\<close>)

section \<open>The journal as a log\<close>

definition journal_emit :: "session \<Rightarrow> journal_event \<Rightarrow> session res" where
  "journal_emit s e = (case journal_write [e] s of (s', None) \<Rightarrow> Inr s' | (_, Some x) \<Rightarrow> Inl x)"

lemma journal_write_one:
  assumes "journal_write [e] s = (s', None)"
  shows "apply_step (ses_core s) e = Inr (ses_core s') \<and> ses_journal s' = ses_journal s @ [e]"
proof -
  have "\<exists>s1. sink_write [e] s = (s1, None) \<and> ses_core s1 = ses_core s \<and> ses_journal s1 = ses_journal s"
    using assms by (auto simp: journal_write_def sink_write_def split: option.splits)
  then show ?thesis using assms
    by (auto simp: journal_write_def apply_step_Inr split: prod.splits option.splits)
qed

interpretation jl: replay_log apply_step empty_core ses_core ses_journal journal_emit
  by unfold_locales (auto simp: journal_emit_def dest: journal_write_one split: prod.splits option.splits)

text \<open>A property of the replayed state is kept by an event if every branch keeps it.\<close>

lemma apply_event_branches:
  assumes "P (c, None)"
    and "\<And>d. ev_type e = ''message_appended'' \<Longrightarrow> P (apply_message e d c)"
    and "ev_type e = ''model_completed'' \<or> ev_type e = ''compression_completed'' \<Longrightarrow> P (apply_usage e c)"
    and "\<And>t. ev_turn_id e = Some t \<Longrightarrow> t \<noteq> [] \<Longrightarrow> P (apply_turn_started e t c)"
    and "\<And>t. ev_turn_id e = Some t \<Longrightarrow> t \<noteq> [] \<Longrightarrow> P (apply_turn_changed e t c)"
    and "\<And>t. ev_tool_call_id e = Some t \<Longrightarrow> t \<noteq> [] \<Longrightarrow> P (apply_tool_started e t c)"
    and "\<And>t. ev_tool_call_id e = Some t \<Longrightarrow> t \<noteq> [] \<Longrightarrow> P (apply_tool_finished e t c)"
    and "\<And>t. ev_tool_call_id e = Some t \<Longrightarrow> t \<noteq> [] \<Longrightarrow> P (apply_tool_recovered e t c)"
    and "\<And>j t. P (apply_job_submitted e j t c)"
    and "\<And>j t. P (apply_job_started e j t c)"
    and "\<And>j t. P (apply_job_finished e j t c)"
    and "ev_type e = ''context_archived'' \<Longrightarrow> P (apply_archived e c)"
    and "P (apply_preset e c)"
    and "\<And>d. P (try_in c (plan_snapshot_from_dict d) (\<lambda>pl. (c\<lparr>sc_plan := Some pl\<rparr>, None)))"
  shows "P (apply_event e c)"
proof -
  have choice: "P (if b then x else y)" if "b \<Longrightarrow> P x" and "P y" for b x y using that by simp
  have id: "\<exists>t. x = Some t \<and> t \<noteq> []" if "truthy_str x" for x using that by (auto simp: truthy_str_def)
  have turns: "P (apply_turn_started e (the (ev_turn_id e)) c)" "P (apply_turn_changed e (the (ev_turn_id e)) c)"
    if "truthy_str (ev_turn_id e)" using id [OF that] assms(4,5) by auto
  have tools: "P (apply_tool_started e (the (ev_tool_call_id e)) c)"
    "P (apply_tool_finished e (the (ev_tool_call_id e)) c)" "P (apply_tool_recovered e (the (ev_tool_call_id e)) c)"
    if "truthy_str (ev_tool_call_id e)" using id [OF that] assms(6-8) by auto
  have jobs: "P (with_job e f c)" if "\<And>j t. P (f j t c)" for f
    using that assms(1) by (auto simp: with_job_def split: option.split)
  show ?thesis unfolding apply_event_def Let_def
    by ((rule choice)+; (simp add: turns tools jobs assms split: json.split)?)
qed

text \<open>The branches other than messages leave the items and the anchors alone, and only the archive
  branch moves the cursor.\<close>

lemmas branch_defs = apply_message_def apply_usage_def apply_turn_started_def apply_turn_changed_def
  apply_tool_started_def apply_tool_finished_def apply_tool_recovered_def apply_job_submitted_def
  apply_job_started_def apply_job_finished_def apply_archived_def apply_preset_def set_turn_def
  set_tool_def set_job_def Let_def

lemma items_grow: "prefix (sc_items c) (sc_items (fst (apply_event e c)))"
  by (rule apply_event_branches [where P = "\<lambda>r. prefix (sc_items c) (sc_items (fst r))"])
    (simp_all add: branch_defs try_in_def split: sum.splits option.splits)

lemma cursor_frame:
  "ev_type e \<noteq> ''context_archived'' \<Longrightarrow>
   sc_archived_item_cursor (fst (apply_event e c)) = sc_archived_item_cursor c"
  by (rule apply_event_branches [where P = "\<lambda>r. sc_archived_item_cursor (fst r) = sc_archived_item_cursor c"])
    (simp_all add: branch_defs try_in_def split: sum.splits option.splits)

definition cursor_ok :: "session_core \<Rightarrow> bool" where
  "cursor_ok c \<longleftrightarrow> 0 \<le> sc_archived_item_cursor c \<and> sc_archived_item_cursor c \<le> int (length (sc_items c))"

lemma dispatch_archived: "ev_type e = ''context_archived'' \<Longrightarrow> apply_event e c = apply_archived e c"
  by (simp add: apply_event_def TOOL_END_EVENTS_def JOB_END_EVENTS_def)

lemma cursor_ok_step:
  assumes "apply_step c e = Inr c'" and "cursor_ok c" and "archive_ok c0 e"
    and "length (sc_items c0) \<le> length (sc_items c)"
  shows "cursor_ok c' \<and> length (sc_items c) \<le> length (sc_items c')"
proof -
  have c': "apply_event e c = (c', None)" using assms(1) by (simp add: apply_step_Inr)
  then have len: "length (sc_items c) \<le> length (sc_items c')"
    using items_grow [of c e] by (simp add: prefix_length_le)
  show ?thesis
  proof (cases "ev_type e = ''context_archived''")
    case True
    with c' assms(3,4) len show ?thesis
      by (auto simp: cursor_ok_def archive_ok_def dispatch_archived apply_archived_def Let_def)
  next
    case False
    with cursor_frame [OF False, of c] c' assms(2) len show ?thesis by (simp add: cursor_ok_def)
  qed
qed

lemma cursor_ok_replay:
  assumes "replay apply_step c es = Inr c'" and "cursor_ok c" and "\<forall>e \<in> set es. archive_ok c0 e"
    and "length (sc_items c0) \<le> length (sc_items c)"
  shows "cursor_ok c'"
  using assms
proof (induction es arbitrary: c)
  case (Cons e es)
  then obtain c1 where c1: "apply_step c e = Inr c1" and "replay apply_step c1 es = Inr c'" by auto
  moreover from cursor_ok_step [OF c1, of c0] Cons.prems have "cursor_ok c1"
    and "length (sc_items c0) \<le> length (sc_items c1)" by auto
  ultimately show ?case using Cons.IH [of c1] Cons.prems by simp
qed simp

inductive session_reachable :: "session \<Rightarrow> bool" where
  start: "session_reachable (attach_journal_sink k (new_session sid ws))"
| step: "session_reachable s \<Longrightarrow> op_ok op \<Longrightarrow> run_op op s = (s', r) \<Longrightarrow> session_reachable s'"

definition session_inv :: "session \<Rightarrow> bool" where
  "session_inv s \<longleftrightarrow> jl.in_sync s
     \<and> map ev_seq (ses_journal s) = seqs_from 1 (length (ses_journal s))
     \<and> (ses_sink s \<noteq> None \<longrightarrow> ses_sunk s = ses_journal s)
     \<and> cursor_ok (ses_core s)"

lemma session_inv_start: "session_inv (attach_journal_sink k (new_session sid ws))"
  unfolding session_inv_def
  by (intro conjI jl.in_sync_start)
    (simp_all add: attach_journal_sink_def new_session_def seqs_from_def cursor_ok_def empty_core_def)

lemma next_seq_length:
  assumes "map ev_seq j = seqs_from 1 (length j)" shows "next_seq j = 1 + int (length j)"
proof (cases "j = []")
  case False
  then have "ev_seq (last j) = last (map ev_seq j)" by (simp add: last_map)
  also have "\<dots> = 1 + int (length j) - 1" using False assms last_seqs_from [of "length j" 1] by simp
  finally show ?thesis using False by (simp add: next_seq_def)
qed (simp add: next_seq_def)

lemma session_inv_step:
  assumes "session_inv s" and "op_result s s' r" shows "session_inv s'"
proof (cases r)
  case None
  with assms(2) obtain es where ext: "extends es s s'" and arch: "\<forall>e \<in> set es. archive_ok (ses_core s) e"
    by (auto simp: op_result_def)
  from ext have j: "ses_journal s' = ses_journal s @ es"
    and rep: "replay apply_step (ses_core s) es = Inr (ses_core s')" by (simp_all add: extends_def)
  have "jl.in_sync s'" using assms(1) j rep by (auto simp: session_inv_def intro: jl.in_sync_extend)
  moreover have "cursor_ok (ses_core s')"
    using cursor_ok_replay [OF rep _ arch] assms(1) by (simp add: session_inv_def)
  moreover have "map ev_seq (ses_journal s') = seqs_from 1 (length (ses_journal s'))"
    using ext assms(1) by (simp add: extends_def session_inv_def next_seq_length seqs_from_append)
  ultimately show ?thesis using ext assms(1) by (auto simp: session_inv_def extends_def)
next
  case (Some x)
  with assms show ?thesis by (simp add: op_result_def)
qed

lemma session_reachable_inv: "session_reachable s \<Longrightarrow> session_inv s"
  by (induction rule: session_reachable.induct) (auto intro: session_inv_start session_inv_step run_op_result)

text \<open>
  C1. A restart loses nothing. In every state a Session can reach by its methods, replaying the
  journal into an empty Session gives exactly the live state, the events are numbered 1, 2, 3 and
  so on without a gap, an attached sink holds exactly the journal, and the archive cursor points into the items. Writes
  the sink refused are included: the run goes on after them.
\<close>

theorem session_is_its_journal:
  assumes "session_reachable s"
  shows "replay apply_step empty_core (ses_journal s) = Inr (ses_core s)
    \<and> map ev_seq (ses_journal s) = map (\<lambda>i. 1 + int i) [0..<length (ses_journal s)]
    \<and> (ses_sink s \<noteq> None \<longrightarrow> ses_sunk s = ses_journal s)
    \<and> 0 \<le> sc_archived_item_cursor (ses_core s)
    \<and> sc_archived_item_cursor (ses_core s) \<le> int (length (sc_items (ses_core s)))"
  using session_reachable_inv [OF assms]
  by (simp add: session_inv_def jl.in_sync_def seqs_from_def cursor_ok_def)

definition demo_stamp :: stamp where
  "demo_stamp = (''e1'', \<lparr>utc_year = 2024, utc_month = 1, utc_day = 1, utc_hour = 0, utc_minute = 0,
     utc_second = 0, utc_micro = 0\<rparr>)"

definition demo_session :: session where
  "demo_session = fst (begin_turn demo_stamp ''u'' (Some ''t'') (attach_journal_sink (Some (\<lambda>_. None)) (new_session ''s'' None)))"

lemma demo_session_reachable: "session_reachable demo_session"
proof -
  have "run_op (Op_begin_turn demo_stamp ''u'' (Some ''t'')) (attach_journal_sink (Some (\<lambda>_. None)) (new_session ''s'' None))
    = (demo_session, snd (begin_turn demo_stamp ''u'' (Some ''t'') (attach_journal_sink (Some (\<lambda>_. None)) (new_session ''s'' None))))"
    by (simp add: demo_session_def)
  from session_reachable.step [OF session_reachable.start _ this] show ?thesis by simp
qed

lemmas demo_eval = demo_session_def demo_stamp_def begin_turn_def begin_turn_id_def session_event_def
  journal_write_def sink_write_def attach_journal_sink_def new_session_def next_seq_def apply_event_def
  apply_turn_started_def truthy_str_def empty_core_def Let_def

theorem session_is_its_journal_witness:
  "replay apply_step empty_core (ses_journal demo_session) = Inr (ses_core demo_session)
   \<and> length (ses_journal demo_session) = 1 \<and> ses_sunk demo_session = ses_journal demo_session"
proof -
  have "length (ses_journal demo_session) = 1" "ses_sink demo_session \<noteq> None" by (simp_all add: demo_eval)
  with session_is_its_journal [OF demo_session_reachable] show ?thesis by simp
qed


definition broken_session :: session where
  "broken_session = attach_journal_sink (Some (\<lambda>_. Some (OSError ''disk full''))) (new_session ''s'' None)"


section \<open>Well-formed state\<close>

text \<open>Records are filed under their own identifiers and every user anchor points at the item it quotes.\<close>

definition anchor_ok :: "message list \<Rightarrow> user_anchor \<Rightarrow> bool" where
  "anchor_ok items a \<longleftrightarrow> ua_item_index a < length items \<and> is_user_authored (items ! ua_item_index a)
     \<and> msg_content (items ! ua_item_index a) = ua_content a \<and> ua_source a \<in> set USER_SOURCES"

definition core_ok :: "session_core \<Rightarrow> bool" where
  "core_ok c \<longleftrightarrow>
     (\<forall>(k, t) \<in> set (sc_turns c). tn_id t = k \<and> k \<noteq> []) \<and> dict_ok (sc_turns c)
     \<and> (\<forall>(k, x) \<in> set (sc_tool_executions c). tx_id x = k \<and> k \<noteq> []) \<and> dict_ok (sc_tool_executions c)
     \<and> (\<forall>(k, j) \<in> set (sc_jobs c). jx_id j = k) \<and> dict_ok (sc_jobs c)
     \<and> (\<forall>a \<in> set (sc_user_anchors c). anchor_ok (sc_items c) a)
     \<and> sorted_wrt (<) (map ua_item_index (sc_user_anchors c))"

lemma core_ok_empty: "core_ok empty_core"
  by (simp add: core_ok_def empty_core_def)

lemma anchor_ok_append: "anchor_ok items a \<Longrightarrow> anchor_ok (items @ ms) a"
  by (auto simp: anchor_ok_def nth_append)

lemma core_ok_frame:
  "core_ok (c\<lparr>sc_input_token_anchor := a\<rparr>) = core_ok c"
  "core_ok (c\<lparr>sc_cache_usage := u\<rparr>) = core_ok c"
  by (simp_all add: core_ok_def)

lemma core_ok_turn: "core_ok c \<Longrightarrow> tn_id t = k \<Longrightarrow> k \<noteq> [] \<Longrightarrow> core_ok (set_turn k t c)"
  by (auto simp: core_ok_def set_turn_def dest!: dict_update_mem)

lemma core_ok_tool: "core_ok c \<Longrightarrow> tx_id t = k \<Longrightarrow> k \<noteq> [] \<Longrightarrow> core_ok (set_tool k t c)"
  by (auto simp: core_ok_def set_tool_def dest!: dict_update_mem)

lemma core_ok_job: "core_ok c \<Longrightarrow> jx_id t = k \<Longrightarrow> core_ok (set_job k t c)"
  by (auto simp: core_ok_def set_job_def dest!: dict_update_mem)

lemma core_ok_ids:
  assumes "core_ok c"
  shows "map_of (sc_turns c) k = Some t \<Longrightarrow> tn_id t = k \<and> k \<noteq> []"
    and "map_of (sc_tool_executions c) k = Some x \<Longrightarrow> tx_id x = k \<and> k \<noteq> []"
    and "map_of (sc_jobs c) k = Some j \<Longrightarrow> jx_id j = k"
  using assms by (auto simp: core_ok_def dest!: map_of_SomeD)

lemma user_source_ok: "user_source d = Inr s \<Longrightarrow> s \<in> set USER_SOURCES"
  by (auto simp: user_source_def USER_SOURCES_def split: option.splits json.splits if_splits)

lemma core_ok_message: "core_ok c \<Longrightarrow> core_ok (fst (apply_message e d c))"
proof (cases "message_from_dict d")
  case (Inr m)
  assume ok: "core_ok c"
  let ?c1 = "c\<lparr>sc_items := sc_items c @ [m]\<rparr>"
  have c1: "core_ok ?c1" using ok by (auto simp: core_ok_def anchor_ok_append)
  show ?thesis
  proof (cases "ev_turn_id e \<noteq> None \<and> is_user_authored m \<and> is_ok (user_source (ev_payload e))")
    case False
    with c1 Inr show ?thesis
      by (auto simp: apply_message_def Let_def is_ok_iff try_in_def split: option.split sum.split)
  next
    case True
    then obtain t src where t: "ev_turn_id e = Some t" and src: "user_source (ev_payload e) = Inr src"
      and m: "is_user_authored m" by (auto simp: is_ok_iff)
    have "ua_item_index a < length (sc_items c)" if "a \<in> set (sc_user_anchors c)" for a
      using ok that by (auto simp: core_ok_def anchor_ok_def)
    with c1 Inr t src m user_source_ok [OF src] show ?thesis
      by (auto simp: apply_message_def core_ok_def anchor_ok_def sorted_wrt_append)
  qed
qed (simp add: apply_message_def)

lemma known_job_id: "core_ok c \<Longrightarrow> known_job e jid tid st c = Inr j \<Longrightarrow> jx_id j = jid"
  by (auto simp: known_job_def new_job_def dest: core_ok_ids(3) split: option.splits)

lemma core_ok_apply: "core_ok c \<Longrightarrow> core_ok (fst (apply_event e c))"
proof (rule apply_event_branches [where P = "\<lambda>r. core_ok (fst r)"], goal_cases)
  case (2 d) then show ?case by (simp add: core_ok_message)
next
  case 3
  then show ?case unfolding apply_usage_def Let_def by (intro try_in_keeps [where P = core_ok]) (simp_all add: core_ok_frame)
next
  case (4 t) then show ?case by (simp add: apply_turn_started_def core_ok_turn [unfolded set_turn_def])
next
  case (5 t)
  then show ?case using core_ok_ids(1) [OF 5(1), of t]
    by (auto simp: apply_turn_changed_def Let_def try_in_def intro!: core_ok_turn split: option.splits sum.splits)
next
  case (6 t) then show ?case by (auto simp: apply_tool_started_def try_in_def intro!: core_ok_tool split: sum.splits)
next
  case (7 t)
  then show ?case using core_ok_ids(2) [OF 7(1), of t]
    by (auto simp: apply_tool_finished_def try_in_def intro!: core_ok_tool split: option.splits sum.splits)
next
  case (8 t)
  then show ?case using core_ok_ids(2) [OF 8(1), of t]
    by (auto simp: apply_tool_recovered_def intro!: core_ok_tool split: option.splits)
next
  case (9 j t)
  then show ?case by (auto simp: apply_job_submitted_def try_in_def new_job_def intro!: core_ok_job split: sum.splits)
next
  case (10 j t)
  then show ?case by (auto simp: apply_job_started_def try_in_def dest: known_job_id intro!: core_ok_job split: sum.splits)
next
  case (11 j t)
  then show ?case
    by (auto simp: apply_job_finished_def try_in_def Let_def dest: known_job_id intro!: core_ok_job split: sum.splits)
qed (auto simp: apply_archived_def apply_preset_def try_in_def Let_def core_ok_def split: sum.splits)

lemma core_ok_replay: "replay apply_step c es = Inr c' \<Longrightarrow> core_ok c \<Longrightarrow> core_ok c'"
  by (erule replay_invariant, assumption) (metis apply_step_Inr core_ok_apply fst_conv)

lemma session_reachable_core_ok: "session_reachable s \<Longrightarrow> core_ok (ses_core s)"
  using core_ok_replay [OF _ core_ok_empty, of "ses_journal s" "ses_core s"] session_reachable_inv [of s]
  by (simp add: session_inv_def jl.in_sync_def)

text \<open>
  C30. Whatever journal is read back, the state it replays to is well formed: turns, tool executions and
  jobs are filed once and under their own identifiers, and the user anchors, in the order of the
  items, each point at a message the user authored and carry its content and a valid source.
\<close>

theorem replayed_state_wellformed:
  assumes "replay apply_step empty_core es = Inr c"
  shows "distinct (map fst (sc_turns c)) \<and> distinct (map fst (sc_tool_executions c)) \<and> distinct (map fst (sc_jobs c))
    \<and> (\<forall>k t. map_of (sc_turns c) k = Some t \<longrightarrow> tn_id t = k)
    \<and> (\<forall>k x. map_of (sc_tool_executions c) k = Some x \<longrightarrow> tx_id x = k)
    \<and> (\<forall>k j. map_of (sc_jobs c) k = Some j \<longrightarrow> jx_id j = k)
    \<and> (\<forall>a \<in> set (sc_user_anchors c). ua_item_index a < length (sc_items c)
         \<and> is_user_authored (sc_items c ! ua_item_index a)
         \<and> msg_content (sc_items c ! ua_item_index a) = ua_content a
         \<and> ua_source a \<in> set USER_SOURCES)
    \<and> sorted_wrt (<) (map ua_item_index (sc_user_anchors c))"
proof -
  have ok: "core_ok c" by (rule core_ok_replay [OF assms core_ok_empty])
  with core_ok_ids [OF ok] show ?thesis by (simp add: core_ok_def dict_ok_def anchor_ok_def)
qed

definition demo_journal :: "journal_event list" where
  "demo_journal = [\<lparr>ev_seq = 1, ev_id = ''e1'', ev_type = ''message_appended'', ev_turn_id = Some ''t'',
     ev_timestamp = snd demo_stamp, ev_tool_call_id = None,
     ev_payload = [(''message'', JObj (message_to_dict True demo_message)), (''user_source'', JStr ''steering'')]\<rparr>]"

definition demo_core :: session_core where
  "demo_core = fst (apply_all demo_journal empty_core)"

lemma demo_message_ok: "message_ok demo_message"
  by (simp add: message_ok_def demo_message_def utc_ok_def days_in_month_def leap_year_def)

lemma demo_message_normal: "normal_message demo_message = demo_message"
  by (simp add: demo_message_def normal_message_def normal_content_def)

lemma demo_journal_runs:
  "replay apply_step empty_core demo_journal = Inr demo_core \<and> length (sc_user_anchors demo_core) = 1"
proof -
  have "message_from_dict (message_to_dict True demo_message) = Inr demo_message"
    using message_decode [OF demo_message_ok] by (simp only: demo_message_normal)
  moreover have "is_user_authored demo_message" by (simp add: is_user_authored_def demo_message_def)
  ultimately show ?thesis
    by (simp add: demo_journal_def demo_core_def apply_step_def apply_event_def apply_message_def
        empty_core_def user_source_def USER_SOURCES_def Let_def)
qed

theorem replayed_state_wellformed_witness:
  "replay apply_step empty_core demo_journal = Inr demo_core \<and> length (sc_user_anchors demo_core) = 1
   \<and> is_user_authored (sc_items demo_core ! ua_item_index (hd (sc_user_anchors demo_core)))"
proof -
  have "hd (sc_user_anchors demo_core) \<in> set (sc_user_anchors demo_core)"
    using demo_journal_runs by (cases "sc_user_anchors demo_core") auto
  with replayed_state_wellformed [of demo_journal demo_core] demo_journal_runs show ?thesis by blast
qed

section \<open>Recovery\<close>

text \<open>The work a crash may leave open, tagged by its kind.\<close>

definition open_turns :: "session_core \<Rightarrow> string set" where
  "open_turns c = {k. \<exists>t. map_of (sc_turns c) k = Some t \<and> tn_status t = ''running''}"

definition open_tools :: "session_core \<Rightarrow> string set" where
  "open_tools c = {k. \<exists>x. map_of (sc_tool_executions c) k = Some x \<and> tx_status x = ''started''}"

definition open_jobs :: "session_core \<Rightarrow> string set" where
  "open_jobs c = {k. \<exists>j. map_of (sc_jobs c) k = Some j \<and> job_active (jx_status j)}"

text \<open>What applying the recovery of one piece of work does: it closes that piece and touches nothing else.\<close>

definition same_but_work :: "session_core \<Rightarrow> session_core \<Rightarrow> bool" where
  "same_but_work c c' \<longleftrightarrow>
     c'\<lparr>sc_turns := [], sc_tool_executions := [], sc_jobs := []\<rparr> =
     c\<lparr>sc_turns := [], sc_tool_executions := [], sc_jobs := []\<rparr>"

definition closes :: "string set \<Rightarrow> string set \<Rightarrow> string set \<Rightarrow> session_core \<Rightarrow> session_core \<Rightarrow> bool" where
  "closes ts xs js c c' \<longleftrightarrow> same_but_work c c'
     \<and> open_turns c' = open_turns c - ts \<and> (\<forall>k. k \<notin> ts \<longrightarrow> map_of (sc_turns c') k = map_of (sc_turns c) k)
     \<and> open_tools c' = open_tools c - xs \<and> (\<forall>k. k \<notin> xs \<longrightarrow> map_of (sc_tool_executions c') k = map_of (sc_tool_executions c) k)
     \<and> open_jobs c' = open_jobs c - js \<and> (\<forall>k. k \<notin> js \<longrightarrow> map_of (sc_jobs c') k = map_of (sc_jobs c) k)"

lemma closes_refl: "closes {} {} {} c c"
  by (simp add: closes_def same_but_work_def)

lemma closes_trans:
  "closes ts xs js c c1 \<Longrightarrow> closes ts' xs' js' c1 c2 \<Longrightarrow> closes (ts \<union> ts') (xs \<union> xs') (js \<union> js') c c2"
  by (auto simp: closes_def same_but_work_def)

lemma closes_turn:
  assumes "ev_type e = ''turn_recovered''" "ev_turn_id e = Some k" "k \<noteq> []"
    "ev_payload e = [(''status'', JStr ''unknown'')]"
  shows "\<exists>c'. apply_event e c = (c', None) \<and> closes {k} {} {} c c'"
proof -
  let ?t = "(case map_of (sc_turns c) k of Some t \<Rightarrow> t
     | None \<Rightarrow> \<lparr>tn_id = k, tn_status = ''unknown'', tn_started_at = None, tn_finished_at = None, tn_error = None\<rparr>)
     \<lparr>tn_status := ''unknown'', tn_finished_at := Some (ev_timestamp e), tn_error := None\<rparr>"
  have "apply_event e c = (set_turn k ?t c, None)"
    using assms by (simp add: apply_event_def truthy_str_def apply_turn_changed_def status_field_def Let_def)
  moreover have "closes {k} {} {} c (set_turn k ?t c)"
    by (auto simp: closes_def same_but_work_def set_turn_def open_turns_def open_tools_def open_jobs_def)
  ultimately show ?thesis by blast
qed

lemma closes_tool:
  assumes "ev_type e = ''tool_recovered''" "ev_tool_call_id e = Some k" "k \<noteq> []"
  shows "\<exists>c'. apply_event e c = (c', None) \<and> closes {} {k} {} c c'"
proof -
  have e: "apply_event e c = apply_tool_recovered e k c"
    using assms by (simp add: apply_event_def truthy_str_def TOOL_END_EVENTS_def Let_def)
  show ?thesis
  proof (cases "map_of (sc_tool_executions c) k")
    case None
    then have "closes {} {k} {} c c"
      by (auto simp: closes_def same_but_work_def open_turns_def open_tools_def open_jobs_def)
    with e None show ?thesis by (simp add: apply_tool_recovered_def)
  next
    case (Some x)
    let ?x = "x\<lparr>tx_status := ''unknown'', tx_completed_at := Some (ev_timestamp e)\<rparr>"
    have "closes {} {k} {} c (set_tool k ?x c)"
      by (auto simp: closes_def same_but_work_def set_tool_def open_turns_def open_tools_def open_jobs_def)
    with e Some show ?thesis by (simp add: apply_tool_recovered_def)
  qed
qed

lemma closes_job:
  assumes "ev_type e = ''job_interrupted''" "ev_turn_id e = Some t"
    "ev_payload e = [(''job_id'', JStr k), (''kind'', JStr kd), (''status'', JStr ''interrupted''),
       (''elapsed_seconds'', el), (''result_summary'', JNull), (''progress'', JNull)]"
  shows "\<exists>c'. apply_event e c = (c', None) \<and> closes {} {} {k} c c'"
proof -
  have "str_field (ev_payload e) ''kind'' = Inr kd" using assms(3) by (simp add: str_field_def)
  from known_job_ok [OF this] obtain j where j: "known_job e k t ''interrupted'' c = Inr j" by blast
  let ?j = "j\<lparr>jx_status := ''interrupted'', jx_completed_at := Some (ev_timestamp e), jx_elapsed := el,
    jx_result_summary := JNull, jx_progress := JNull, jx_error := None\<rparr>"
  have "apply_event e c = (set_job k ?j c, None)"
    using assms j dispatch_job_end [of e c]
    by (simp add: with_job_def jget_str_def apply_job_finished_def job_status_field_def JOB_STATUSES_def
        JOB_END_EVENTS_def Let_def)
  moreover have "closes {} {} {k} c (set_job k ?j c)"
    by (auto simp: closes_def same_but_work_def set_job_def open_turns_def open_tools_def open_jobs_def job_active_def)
  ultimately show ?thesis by blast
qed

definition draft :: "journal_event \<Rightarrow> string \<times> string option \<times> string option \<times> jobj" where
  "draft e = (ev_type e, ev_turn_id e, ev_tool_call_id e, ev_payload e)"

definition turn_ids :: "(string \<times> string option \<times> string option \<times> jobj) list \<Rightarrow> string set" where
  "turn_ids ds = {k. \<exists>x p. (''turn_recovered'', Some k, x, p) \<in> set ds}"

definition tool_ids :: "(string \<times> string option \<times> string option \<times> jobj) list \<Rightarrow> string set" where
  "tool_ids ds = {k. \<exists>t p. (''tool_recovered'', t, Some k, p) \<in> set ds}"

definition job_ids :: "(string \<times> string option \<times> string option \<times> jobj) list \<Rightarrow> string set" where
  "job_ids ds = {k. \<exists>t x p. (''job_interrupted'', t, x, p) \<in> set ds \<and> jget_str p ''job_id'' = Some k}"

lemma ids_append:
  "turn_ids (ds @ ds') = turn_ids ds \<union> turn_ids ds'" "tool_ids (ds @ ds') = tool_ids ds \<union> tool_ids ds'"
  "job_ids (ds @ ds') = job_ids ds \<union> job_ids ds'"
  by (auto simp: turn_ids_def tool_ids_def job_ids_def)

lemma ids_Nil: "turn_ids [] = {}" "tool_ids [] = {}" "job_ids [] = {}"
  by (simp_all add: turn_ids_def tool_ids_def job_ids_def)

definition recovery_event :: "journal_event \<Rightarrow> bool" where
  "recovery_event e \<longleftrightarrow>
     (ev_type e = ''turn_recovered'' \<and> (\<exists>k. ev_turn_id e = Some k \<and> k \<noteq> []) \<and> ev_payload e = [(''status'', JStr ''unknown'')])
     \<or> (ev_type e = ''tool_recovered'' \<and> (\<exists>k. ev_tool_call_id e = Some k \<and> k \<noteq> []))
     \<or> (ev_type e = ''job_interrupted'' \<and> (\<exists>t k kd el. ev_turn_id e = Some t \<and> ev_payload e =
         [(''job_id'', JStr k), (''kind'', JStr kd), (''status'', JStr ''interrupted''),
          (''elapsed_seconds'', el), (''result_summary'', JNull), (''progress'', JNull)]))"

lemma closes_one:
  assumes "recovery_event e"
  shows "\<exists>c'. apply_event e c = (c', None)
    \<and> closes (turn_ids [draft e]) (tool_ids [draft e]) (job_ids [draft e]) c c'"
  using assms unfolding recovery_event_def
proof (elim disjE conjE exE, goal_cases)
  case (1 k) with closes_turn [of e k c] show ?case by (simp add: draft_def turn_ids_def tool_ids_def job_ids_def)
next
  case (2 k) with closes_tool [of e k c] show ?case by (simp add: draft_def turn_ids_def tool_ids_def job_ids_def)
next
  case (3 t k kd el) with closes_job [of e t k kd el c] show ?case
    by (simp add: draft_def turn_ids_def tool_ids_def job_ids_def jget_str_def)
qed

lemma closes_all:
  "\<forall>e \<in> set es. recovery_event e \<Longrightarrow> \<exists>c'. replay apply_step c es = Inr c'
    \<and> closes (turn_ids (map draft es)) (tool_ids (map draft es)) (job_ids (map draft es)) c c'"
proof (induction es arbitrary: c)
  case Nil show ?case using closes_refl by (simp add: ids_Nil)
next
  case (Cons e es)
  obtain c1 where c1: "apply_event e c = (c1, None)"
    and cl: "closes (turn_ids [draft e]) (tool_ids [draft e]) (job_ids [draft e]) c c1"
    using closes_one Cons.prems by force
  obtain c' where c': "replay apply_step c1 es = Inr c'"
    and cl': "closes (turn_ids (map draft es)) (tool_ids (map draft es)) (job_ids (map draft es)) c1 c'"
    using Cons by force
  have "apply_step c e = Inr c1" using c1 by (simp add: apply_step_Inr)
  with c' closes_trans [OF cl cl'] ids_append [of "[draft e]" "map draft es"] show ?case by simp
qed

lemma number_events_drafts: "map draft (number_events stamps k n ds) = ds"
  by (induction stamps k n ds rule: number_events.induct) (auto simp: draft_def)

lemma recovery_drafts:
  "map draft (recovery_events stamps s) =
     recovery_turns (ses_core s) @ recovery_tools (ses_core s) @ recovery_jobs (ses_core s)"
  by (simp add: recovery_events_def number_events_drafts)

lemma other_kinds:
  "tool_ids (recovery_turns c) = {}" "job_ids (recovery_turns c) = {}" "turn_ids (recovery_tools c) = {}"
  "job_ids (recovery_tools c) = {}" "turn_ids (recovery_jobs c) = {}" "tool_ids (recovery_jobs c) = {}"
  by (auto simp: turn_ids_def tool_ids_def job_ids_def recovery_turns_def recovery_tools_def recovery_jobs_def)

lemma open_work_images:
  assumes "core_ok c"
  shows "open_turns c = tn_id ` {v \<in> set (map snd (sc_turns c)). tn_status v = ''running''}"
    and "open_tools c = tx_id ` {v \<in> set (map snd (sc_tool_executions c)). tx_status v = ''started''}"
    and "open_jobs c = jx_id ` {v \<in> set (map snd (sc_jobs c)). job_active (jx_status v)}"
  unfolding open_turns_def open_tools_def open_jobs_def
  using assms by (auto intro!: dict_keys_where simp: core_ok_def simp del: set_map)

lemma nothing_open:
  "core_ok c \<Longrightarrow> open_turns c = {} \<Longrightarrow> recovery_turns c = []"
  "core_ok c \<Longrightarrow> open_tools c = {} \<Longrightarrow> recovery_tools c = []"
  "core_ok c \<Longrightarrow> open_jobs c = {} \<Longrightarrow> recovery_jobs c = []"
  by (simp_all add: open_work_images recovery_turns_def recovery_tools_def recovery_jobs_def filter_empty_conv
      del: set_map)

lemma recovery_turn_ids: "core_ok c \<Longrightarrow> turn_ids (recovery_turns c) = open_turns c"
  by (auto simp: turn_ids_def recovery_turns_def open_work_images)

lemma recovery_tool_ids: "core_ok c \<Longrightarrow> tool_ids (recovery_tools c) = open_tools c"
  by (auto simp: tool_ids_def recovery_tools_def open_work_images)

lemma job_ids_map: "job_ids (map f js) = (\<Union>j \<in> set js. job_ids [f j])"
  by (auto simp: job_ids_def image_iff)

lemma job_ids_single: "job_ids [(''job_interrupted'', t, x, p)] = set_option (jget_str p ''job_id'')"
  by (auto simp: job_ids_def)

lemma recovery_job_ids: "core_ok c \<Longrightarrow> job_ids (recovery_jobs c) = open_jobs c"
  by (simp add: recovery_jobs_def job_ids_map job_ids_single jget_str_def open_work_images UNION_singleton_eq_range
      del: set_map)

lemma recovery_events_valid:
  assumes ok: "core_ok (ses_core s)" and "e \<in> set (recovery_events stamps s)"
  shows "recovery_event e"
proof -
  let ?c = "ses_core s"
  have "draft e \<in> set (map draft (recovery_events stamps s))" using assms(2) by simp
  then consider "draft e \<in> set (recovery_turns ?c)" | "draft e \<in> set (recovery_tools ?c)"
    | "draft e \<in> set (recovery_jobs ?c)" unfolding recovery_drafts by fastforce
  then show ?thesis
  proof cases
    case 1 with ok show ?thesis
      by (auto simp: draft_def recovery_turns_def recovery_event_def core_ok_def)
  next
    case 2 with ok show ?thesis
      by (auto simp: draft_def recovery_tools_def recovery_event_def core_ok_def)
  next
    case 3 then show ?thesis by (auto simp: draft_def recovery_jobs_def recovery_event_def)
  qed
qed

lemma recovery_closes:
  assumes "core_ok c" and "c = ses_core s"
  shows "\<exists>c'. replay apply_step c (recovery_events stamps s) = Inr c'
    \<and> closes (open_turns c) (open_tools c) (open_jobs c) c c'"
  using closes_all [of "recovery_events stamps s" c] recovery_events_valid assms
  by (simp add: recovery_drafts ids_append other_kinds recovery_turn_ids recovery_tool_ids recovery_job_ids)

text \<open>
  C15. After \<open>recover\<close> returns, no turn is running, no tool execution started and no job submitted or
  running; the turns, executions and jobs that had ended, and everything else in the Session, are
  as they were; and recovering once more writes nothing. It raises only if the sink does.
\<close>

theorem recover_settles:
  assumes "session_reachable s" and "recover stamps s = (s', None)"
  shows "open_turns (ses_core s') = {} \<and> open_tools (ses_core s') = {} \<and> open_jobs (ses_core s') = {}
    \<and> same_but_work (ses_core s) (ses_core s')
    \<and> (\<forall>k. k \<notin> open_turns (ses_core s) \<longrightarrow> map_of (sc_turns (ses_core s')) k = map_of (sc_turns (ses_core s)) k)
    \<and> (\<forall>k. k \<notin> open_tools (ses_core s) \<longrightarrow> map_of (sc_tool_executions (ses_core s')) k = map_of (sc_tool_executions (ses_core s)) k)
    \<and> (\<forall>k. k \<notin> open_jobs (ses_core s) \<longrightarrow> map_of (sc_jobs (ses_core s')) k = map_of (sc_jobs (ses_core s)) k)
    \<and> recover stamps' s' = (s', None)"
proof -
  have ok: "core_ok (ses_core s)" by (rule session_reachable_core_ok [OF assms(1)])
  have "map ev_seq (recovery_events stamps s) =
      seqs_from (next_seq (ses_journal s)) (length (recovery_events stamps s))"
    by (simp add: recovery_events_def number_events_seqs)
  with journal_write_total [OF _ _ assms(2) [unfolded recover_def]] recovery_event_total
  have "replay apply_step (ses_core s) (recovery_events stamps s) = Inr (ses_core s')" by (auto simp: extends_def)
  with recovery_closes [OF ok refl, of stamps]
  have cl: "closes (open_turns (ses_core s)) (open_tools (ses_core s)) (open_jobs (ses_core s)) (ses_core s) (ses_core s')"
    and ok': "core_ok (ses_core s')" using core_ok_replay ok by auto
  then have none: "open_turns (ses_core s') = {}" "open_tools (ses_core s') = {}" "open_jobs (ses_core s') = {}"
    by (auto simp: closes_def)
  then have "recovery_turns (ses_core s') = []" "recovery_tools (ses_core s') = []" "recovery_jobs (ses_core s') = []"
    using nothing_open [OF ok'] by simp_all
  then have "recover stamps' s' = (s', None)"
    by (simp add: recover_def recovery_events_def journal_write_def)
  with cl none show ?thesis by (simp add: closes_def)
qed

theorem recover_settles_witness:
  "open_turns (ses_core demo_session) = {''t''}
   \<and> (\<exists>s'. recover (\<lambda>_. demo_stamp) demo_session = (s', None) \<and> open_turns (ses_core s') = {})"
proof -
  have o: "open_turns (ses_core demo_session) = {''t''}" by (auto simp: open_turns_def demo_eval)
  have "snd (recover (\<lambda>_. demo_stamp) demo_session) = None"
    by (simp add: recover_def recovery_events_def recovery_turns_def recovery_tools_def recovery_jobs_def
        apply_turn_changed_def status_field_def set_turn_def demo_eval)
  then obtain s' where "recover (\<lambda>_. demo_stamp) demo_session = (s', None)" by (metis prod.collapse)
  with recover_settles [OF demo_session_reachable this] o show ?thesis by blast
qed

section \<open>Turn identifiers and accounting\<close>

text \<open>
  \<open>begin_turn\<close> never takes over an existing turn: the turn it starts is new, it is the client's hint
  whenever that is free, the recorded turns are kept as they are with the new one behind them, and
  nothing else of the replayed state changes.
\<close>

theorem begin_turn_is_new:
  assumes "begin_turn st uid hint s = (s', None)"
    and "map_of (sc_turns (ses_core s)) uid = None" and "uid \<noteq> []" and "hint \<noteq> Some []"
  shows "\<exists>tid. ses_current_turn_id s' = Some tid
    \<and> map_of (sc_turns (ses_core s)) tid = None
    \<and> (\<forall>h. hint = Some h \<longrightarrow> map_of (sc_turns (ses_core s)) h = None \<longrightarrow> tid = h)
    \<and> ses_core s' = (ses_core s)\<lparr>sc_turns := sc_turns (ses_core s) @
         [(tid, \<lparr>tn_id = tid, tn_status = ''running'', tn_started_at = Some (snd st), tn_finished_at = None,
           tn_error = None\<rparr>)]\<rparr>"
proof -
  let ?tid = "begin_turn_id uid hint s"
  have new: "map_of (sc_turns (ses_core s)) ?tid = None" "?tid \<noteq> []"
    using assms(2-4) by (auto simp: begin_turn_id_def split: option.splits)
  have "ses_current_turn_id s' = Some ?tid \<and> ses_core s' = (ses_core s)\<lparr>sc_turns := AList.update ?tid
         \<lparr>tn_id = ?tid, tn_status = ''running'', tn_started_at = Some (snd st), tn_finished_at = None,
           tn_error = None\<rparr> (sc_turns (ses_core s))\<rparr>"
    using assms(1) new(2)
    by (auto simp: begin_turn_def Let_def session_event_def journal_write_def sink_write_def apply_event_def
        apply_turn_started_def truthy_str_def split: option.splits)
  with new(1) dict_update_new [OF new(1)] show ?thesis
    by (intro exI [of _ ?tid]) (auto simp: begin_turn_id_def split: option.splits)
qed

theorem begin_turn_is_new_witness:
  "\<exists>s'. begin_turn demo_stamp ''u2'' (Some ''t'') demo_session = (s', None)
     \<and> map fst (sc_turns (ses_core s')) = [''t'', ''u2'']"
proof -
  have r: "snd (begin_turn demo_stamp ''u2'' (Some ''t'') demo_session) = None"
    and t: "map fst (sc_turns (ses_core demo_session)) = [''t'']" by (simp_all add: demo_eval)
  then obtain s' where s': "begin_turn demo_stamp ''u2'' (Some ''t'') demo_session = (s', None)" by (metis prod.collapse)
  have "ses_current_turn_id s' = Some ''u2''"
    using s' by (auto simp: demo_eval split: if_splits)
  moreover have "map_of (sc_turns (ses_core demo_session)) ''u2'' = None" using t by (auto simp: map_of_eq_None_iff)
  ultimately show ?thesis using begin_turn_is_new [OF s'] s' t by auto
qed

text \<open>What the model and compression events of a journal report about cached input.\<close>

definition reported :: "journal_event \<Rightarrow> (int \<times> int) list" where
  "reported e =
     (if ev_type e = ''model_completed'' \<or> ev_type e = ''compression_completed''
      then (case res_bind (jindex (ev_payload e) ''usage'') usage_pair of Inr (Some p) \<Rightarrow> [p] | _ \<Rightarrow> [])
      else [])"

definition message_event :: "journal_event \<Rightarrow> bool" where
  "message_event e \<longleftrightarrow> ev_type e = ''message_appended'' \<and> is_jobj (jget (ev_payload e) ''message'')"

definition total_usage_of :: "(int \<times> int) list \<Rightarrow> cache_usage option" where
  "total_usage_of ps = (if ps = [] then None
     else Some \<lparr>cu_input_tokens = sum_list (map fst ps), cu_cache_read_tokens = sum_list (map snd ps)\<rparr>)"

lemma cache_frame:
  "ev_type e \<noteq> ''model_completed'' \<and> ev_type e \<noteq> ''compression_completed'' \<Longrightarrow>
   sc_cache_usage (fst (apply_event e c)) = sc_cache_usage c"
  by (rule apply_event_branches [where P = "\<lambda>r. sc_cache_usage (fst r) = sc_cache_usage c"])
    (simp_all add: branch_defs try_in_def split: sum.splits option.splits)

lemma count_frame:
  "ev_type e \<noteq> ''context_archived'' \<Longrightarrow> sc_compression_count (fst (apply_event e c)) = sc_compression_count c"
  by (rule apply_event_branches [where P = "\<lambda>r. sc_compression_count (fst r) = sc_compression_count c"])
    (simp_all add: branch_defs try_in_def split: sum.splits option.splits)

lemma items_frame: "ev_type e \<noteq> ''message_appended'' \<Longrightarrow> sc_items (fst (apply_event e c)) = sc_items c"
  by (rule apply_event_branches [where P = "\<lambda>r. sc_items (fst r) = sc_items c"])
    (simp_all add: branch_defs try_in_def split: sum.splits option.splits)

lemma usage_step:
  "apply_event e c = (c', None) \<Longrightarrow> sc_cache_usage c' = fold (\<lambda>p u. add_usage u (Some p)) (reported e) (sc_cache_usage c)"
proof (cases "ev_type e = ''model_completed'' \<or> ev_type e = ''compression_completed''")
  case True
  assume "apply_event e c = (c', None)"
  with True obtain a p where "res_bind (jindex (ev_payload e) ''usage'') usage_pair = Inr p"
    and "c' = c\<lparr>sc_input_token_anchor := a, sc_cache_usage := add_usage (sc_cache_usage c) p\<rparr>"
    by (auto simp: dispatch_usage apply_usage_def Let_def try_in_ok)
  with True show ?thesis by (cases p) (auto simp: reported_def add_usage_def)
next
  case False
  assume "apply_event e c = (c', None)"
  with cache_frame [of e c] False show ?thesis by (simp add: reported_def)
qed

lemma archive_step:
  "apply_event e c = (c', None) \<Longrightarrow>
   sc_compression_count c' = sc_compression_count c + (if ev_type e = ''context_archived'' then 1 else 0)"
  using count_frame [of e c] by (auto simp: dispatch_archived apply_archived_def Let_def try_in_ok)

lemma items_step:
  "apply_event e c = (c', None) \<Longrightarrow> length (sc_items c') = length (sc_items c) + (if message_event e then 1 else 0)"
proof (cases "ev_type e = ''message_appended''")
  case True
  assume run: "apply_event e c = (c', None)"
  show ?thesis
  proof (cases "jget (ev_payload e) ''message''")
    case (JObj d)
    with True have "apply_event e c = apply_message e d c" by (simp add: apply_event_def)
    with run show ?thesis using True JObj
      by (auto simp: message_event_def apply_message_def Let_def try_in_ok split: option.splits if_splits)
  qed (use run True in \<open>simp_all add: message_event_def apply_event_def TOOL_END_EVENTS_def JOB_END_EVENTS_def\<close>)
next
  case False
  assume "apply_event e c = (c', None)"
  with items_frame [OF False, of c] False show ?thesis by (simp add: message_event_def)
qed

lemma fold_usage:
  "fold (\<lambda>p u. add_usage u (Some p)) ps (total_usage_of qs) = total_usage_of (qs @ ps)"
proof (induction ps arbitrary: qs)
  case (Cons p ps)
  have "add_usage (total_usage_of qs) (Some p) = total_usage_of (qs @ [p])"
    by (cases p) (auto simp: add_usage_def total_usage_of_def)
  with Cons [of "qs @ [p]"] show ?case by simp
qed simp

lemma accounting_replay:
  assumes "replay apply_step c es = Inr c'" and "sc_cache_usage c = total_usage_of qs"
  shows "sc_cache_usage c' = total_usage_of (qs @ concat (map reported es))
    \<and> sc_compression_count c' = sc_compression_count c + length (filter (\<lambda>e. ev_type e = ''context_archived'') es)
    \<and> length (sc_items c') = length (sc_items c) + length (filter message_event es)"
  using assms
proof (induction es arbitrary: c qs)
  case (Cons e es)
  then obtain c1 where c1: "apply_event e c = (c1, None)" and rest: "replay apply_step c1 es = Inr c'"
    by (auto simp: apply_step_Inr)
  have "sc_cache_usage c1 = total_usage_of (qs @ reported e)"
    using usage_step [OF c1] Cons.prems(2) by (simp add: fold_usage)
  from Cons.IH [OF rest this] archive_step [OF c1] items_step [OF c1] show ?case by simp
qed simp

text \<open>
  The Session's counters are sums over its journal: the cache usage adds up the input and cache-read
  tokens of exactly the model and compression calls that reported both (and is absent when none
  did), the compression count is the number of archive events, and there is one item per message
  event.
\<close>

theorem session_accounting:
  assumes "replay apply_step empty_core es = Inr c"
  shows "sc_cache_usage c = total_usage_of (concat (map reported es))
    \<and> sc_compression_count c = length (filter (\<lambda>e. ev_type e = ''context_archived'') es)
    \<and> length (sc_items c) = length (filter message_event es)"
  using accounting_replay [OF assms, of "[]"] by (simp add: empty_core_def total_usage_of_def)

definition usage_event :: "int \<Rightarrow> string \<Rightarrow> json \<Rightarrow> json \<Rightarrow> journal_event" where
  "usage_event n ty i c = \<lparr>ev_seq = n, ev_id = ''e'', ev_type = ty, ev_turn_id = None, ev_timestamp = snd demo_stamp,
     ev_tool_call_id = None, ev_payload = [(''usage'', JObj [(''input_tokens'', i), (''cache_read_tokens'', c)])]\<rparr>"

theorem session_accounting_witness:
  "\<exists>c. replay apply_step empty_core
      [usage_event 1 ''model_completed'' (JInt 100) (JInt 40), usage_event 2 ''model_completed'' (JInt 7) JNull,
       usage_event 3 ''compression_completed'' (JInt 50) (JInt 0)] = Inr c
    \<and> sc_cache_usage c = Some \<lparr>cu_input_tokens = 150, cu_cache_read_tokens = 40\<rparr>"
proof -
  let ?es = "[usage_event 1 ''model_completed'' (JInt 100) (JInt 40), usage_event 2 ''model_completed'' (JInt 7) JNull,
       usage_event 3 ''compression_completed'' (JInt 50) (JInt 0)]"
  have "\<exists>c. replay apply_step empty_core ?es = Inr c"
    by (simp add: apply_step_def usage_event_def dispatch_usage apply_usage_def usage_pair_def token_field_def Let_def)
  then obtain c where c: "replay apply_step empty_core ?es = Inr c" by blast
  from session_accounting [OF c] have "sc_cache_usage c = Some \<lparr>cu_input_tokens = 150, cu_cache_read_tokens = 40\<rparr>"
    by (simp add: usage_event_def reported_def usage_pair_def token_field_def total_usage_of_def)
  with c show ?thesis by blast
qed

end
