(* ===== verification/Projection.thy ===== *)
theory Projection
  imports Session
begin

text \<open>
  The provider view of a Session's items (\<open>agent_core/projection.py\<close>): items are grouped into
  units that are sent or archived whole. A tool-calling assistant message forms one unit with the
  results, media, hook feedback and interactions that follow it; a batch with a missing result
  exposes nothing.
\<close>

section \<open>Units\<close>

record 'm context_unit =
  cx_start :: nat
  cx_end :: nat
  cx_messages :: "'m list"

text \<open>The items the inner loop takes into the batch of the assistant message before them.\<close>

definition follows_batch :: "'a message_scheme \<Rightarrow> bool" where
  "follows_batch m \<longleftrightarrow> msg_role m = ''tool'' \<or> is_tool_media m
     \<or> msg_origin m \<in> set [''user_interaction'', ''hook_feedback'', ''tool_delivery'']"

text \<open>\<open>following.tool_call_id in calls\<close>; \<open>calls\<close> holds strings only.\<close>

definition answers :: "string list \<Rightarrow> 'a message_scheme \<Rightarrow> bool" where
  "answers calls m = (case msg_tool_call_id m of None \<Rightarrow> False | Some i \<Rightarrow> i \<in> set calls)"

fun batch_found :: "string list \<Rightarrow> 'a message_scheme list \<Rightarrow> (string, 'a message_scheme) dict \<Rightarrow> (string, 'a message_scheme) dict" where
  "batch_found calls [] found = found"
| "batch_found calls (m # ms) found =
     batch_found calls ms
       (if answers calls m then AList.update (the (msg_tool_call_id m)) m found else found)"

definition batch_trailing :: "string list \<Rightarrow> 'a message_scheme list \<Rightarrow> 'a message_scheme list" where
  "batch_trailing calls ms =
     filter (\<lambda>m. \<not> answers calls m \<and> (is_tool_media m \<or> msg_origin m \<in> set [''user_interaction'', ''hook_feedback''])) ms"

definition batch_messages :: "'a message_scheme \<Rightarrow> 'a message_scheme list \<Rightarrow> 'a message_scheme list" where
  "batch_messages item following =
     (let calls = map tc_id (msg_tool_calls item); found = batch_found calls following [] in
      if list_all (\<lambda>c. map_of found c \<noteq> None) calls
      then item # map (\<lambda>c. the (map_of found c)) calls @ batch_trailing calls following
      else [])"

definition calls_tools :: "'a message_scheme \<Rightarrow> bool" where
  "calls_tools m \<longleftrightarrow> msg_role m = ''assistant'' \<and> msg_tool_calls m \<noteq> []"

definition single_messages :: "'a message_scheme \<Rightarrow> 'a message_scheme list" where
  "single_messages m = (if msg_role m = ''tool'' \<or> msg_origin m = ''tool_delivery'' then [] else [m])"

function project_context_units :: "nat \<Rightarrow> 'a message_scheme list \<Rightarrow> 'a message_scheme context_unit list" where
  "project_context_units i [] = []"
| "project_context_units i (m # ms) =
     (if calls_tools m then
        let following = takeWhile follows_batch ms; e = i + 1 + length following in
        \<lparr>cx_start = i, cx_end = e, cx_messages = batch_messages m following\<rparr>
          # project_context_units e (dropWhile follows_batch ms)
      else \<lparr>cx_start = i, cx_end = i + 1, cx_messages = single_messages m\<rparr>
          # project_context_units (i + 1) ms)"
  by pat_completeness auto
termination
  by (relation "measure (\<lambda>(i, ms). length ms)") (auto simp: less_Suc_eq_le length_dropWhile_le)

definition provider_messages :: "'m context_unit list \<Rightarrow> 'm list" where
  "provider_messages us = concat (map cx_messages us)"

section \<open>The units tile the items\<close>

fun tiles :: "nat \<Rightarrow> nat \<Rightarrow> 'm context_unit list \<Rightarrow> bool" where
  "tiles i n [] = (i = n)"
| "tiles i n (u # us) = (cx_start u = i \<and> i < cx_end u \<and> cx_end u \<le> n \<and> tiles (cx_end u) n us)"

lemma tiles_le: "tiles i n us \<Longrightarrow> i \<le> n"
  by (induction i n us rule: tiles.induct) auto

lemma length_split_while: "length (takeWhile P xs) + length (dropWhile P xs) = length xs"
  by (metis length_append takeWhile_dropWhile_id)

lemma project_tiles: "tiles i (i + length ms) (project_context_units i ms)"
proof (induction i ms rule: project_context_units.induct)
  case (2 i m ms)
  show ?case
  proof (cases "calls_tools m")
    case True
    let ?f = "takeWhile follows_batch ms"
    have len: "i + length (m # ms) = i + 1 + length ?f + length (dropWhile follows_batch ms)"
      using length_split_while [of follows_batch ms] by simp
    show ?thesis unfolding len using 2(1) [OF True refl refl] True by (simp add: Let_def)
  next
    case False
    with 2(2) show ?thesis by simp
  qed
qed simp

text \<open>The messages of a unit come from its own span.\<close>

lemma batch_found_set:
  "set (map snd (batch_found calls ms found)) \<subseteq> set ms \<union> set (map snd found)"
proof (induction ms arbitrary: found)
  case (Cons m ms)
  have up: "set (map snd (AList.update k m found)) \<subseteq> insert m (set (map snd found))" for k
    by (force dest: dict_update_mem)
  let ?found = "if answers calls m then AList.update (the (msg_tool_call_id m)) m found else found"
  have "set (map snd ?found) \<subseteq> insert m (set (map snd found))" using up by (simp only: split: if_split) blast
  with Cons [of ?found] show ?case by (simp only: batch_found.simps list.set) blast
qed simp

lemma batch_messages_set: "set (batch_messages m ms) \<subseteq> insert m (set ms)"
proof -
  let ?calls = "map tc_id (msg_tool_calls m)"
  have "the (map_of (batch_found ?calls ms []) c) \<in> set ms" if "map_of (batch_found ?calls ms []) c \<noteq> None" for c
    using that batch_found_set [of ?calls ms "[]"] by (fastforce dest: map_of_SomeD)
  then show ?thesis by (auto simp: batch_messages_def Let_def list_all_iff batch_trailing_def)
qed

text \<open>Every batch item answers the call it is filed under.\<close>

lemma batch_found_keys:
  assumes "\<forall>(k, m) \<in> set found. msg_tool_call_id m = Some k"
  shows "\<forall>(k, m) \<in> set (batch_found calls ms found). msg_tool_call_id m = Some k"
  using assms
proof (induction ms arbitrary: found)
  case (Cons m ms)
  have "\<forall>(k, m') \<in> set (AList.update (the (msg_tool_call_id m)) m found). msg_tool_call_id m' = Some k"
    if "answers calls m"
    using that Cons.prems by (auto simp: answers_def split: option.splits dest!: dict_update_mem)
  with Cons.prems have "\<forall>(k, m') \<in> set (if answers calls m
      then AList.update (the (msg_tool_call_id m)) m found else found). msg_tool_call_id m' = Some k" by simp
  from Cons.IH [OF this] show ?case by simp
qed simp

lemma batch_found_complete:
  "map_of (batch_found calls ms found) c \<noteq> None \<longleftrightarrow>
   map_of found c \<noteq> None \<or> (c \<in> set calls \<and> (\<exists>m \<in> set ms. msg_tool_call_id m = Some c))"
  by (induction ms arbitrary: found) (auto simp: answers_def split: option.splits)

text \<open>What the runtime appends: special origins are user messages without a call id, tool messages
  carry one, and only an assistant message calls tools.\<close>

definition item_ok :: "'a message_scheme \<Rightarrow> bool" where
  "item_ok m \<longleftrightarrow> (msg_origin m \<in> set SPECIAL_ORIGINS \<longrightarrow> msg_role m = ''user'')
     \<and> (msg_role m = ''tool'' \<longleftrightarrow> msg_tool_call_id m \<noteq> None)
     \<and> (msg_tool_calls m \<noteq> [] \<longrightarrow> msg_role m = ''assistant'')"

text \<open>
  What providers accept: after an assistant message that calls tools come the answers to its calls,
  one each in call order, and a tool message occurs nowhere else.
\<close>

function provider_ok :: "'a message_scheme list \<Rightarrow> bool" where
  "provider_ok [] = True"
| "provider_ok (m # ms) =
     (if calls_tools m
      then map msg_tool_call_id (take (length (msg_tool_calls m)) ms) = map (Some \<circ> tc_id) (msg_tool_calls m)
        \<and> list_all (\<lambda>x. msg_role x = ''tool'') (take (length (msg_tool_calls m)) ms)
        \<and> provider_ok (drop (length (msg_tool_calls m)) ms)
      else msg_role m \<noteq> ''tool'' \<and> provider_ok ms)"
  by pat_completeness auto
termination by (relation "measure length") auto

lemma provider_ok_plain:
  "\<forall>m \<in> set ms. msg_role m \<noteq> ''tool'' \<and> \<not> calls_tools m \<Longrightarrow> provider_ok (ms @ rest) = provider_ok rest"
  by (induction ms) auto

lemma batch_messages_form:
  assumes "item_ok m" and "calls_tools m" and "\<forall>x \<in> set ms. item_ok x" and "batch_messages m ms \<noteq> []"
  shows "\<exists>rs ts. batch_messages m ms = m # rs @ ts
    \<and> map msg_tool_call_id rs = map (Some \<circ> tc_id) (msg_tool_calls m) \<and> list_all (\<lambda>x. msg_role x = ''tool'') rs
    \<and> (\<forall>x \<in> set ts. msg_role x \<noteq> ''tool'' \<and> \<not> calls_tools x)"
proof -
  let ?calls = "map tc_id (msg_tool_calls m)"
  let ?found = "batch_found ?calls ms []"
  let ?rs = "map (\<lambda>c. the (map_of ?found c)) ?calls"
  have all: "\<forall>c \<in> set ?calls. map_of ?found c \<noteq> None" and
    form: "batch_messages m ms = m # ?rs @ batch_trailing ?calls ms"
    using assms(4) by (auto simp: batch_messages_def Let_def list_all_iff split: if_splits)
  have key: "msg_tool_call_id (the (map_of ?found c)) = Some c" if "c \<in> set ?calls" for c
    using that all batch_found_keys [of "[]" ?calls ms] by (fastforce dest: map_of_SomeD)
  have "item_ok (the (map_of ?found c))" if "c \<in> set ?calls" for c
    using that all batch_found_set [of ?calls ms "[]"] assms(3) by (fastforce dest: map_of_SomeD)
  with key have "list_all (\<lambda>x. msg_role x = ''tool'') ?rs" by (auto simp: list_all_iff item_ok_def)
  moreover have "\<forall>x \<in> set (batch_trailing ?calls ms). msg_role x \<noteq> ''tool'' \<and> \<not> calls_tools x"
    using assms(3) by (auto simp: batch_trailing_def item_ok_def SPECIAL_ORIGINS_def is_tool_media_def calls_tools_def)
  moreover have "map msg_tool_call_id ?rs = map (Some \<circ> tc_id) (msg_tool_calls m)" using key by simp
  ultimately show ?thesis using form by blast
qed

lemma provider_ok_batch:
  assumes "item_ok m" and "calls_tools m" and "\<forall>x \<in> set ms. item_ok x" and "provider_ok rest"
  shows "provider_ok (batch_messages m ms @ rest)"
proof (cases "batch_messages m ms = []")
  case False
  from batch_messages_form [OF assms(1-3) False] obtain rs ts where b: "batch_messages m ms = m # rs @ ts"
    and ids: "map msg_tool_call_id rs = map (Some \<circ> tc_id) (msg_tool_calls m)"
    and roles: "list_all (\<lambda>x. msg_role x = ''tool'') rs"
    and ts: "\<forall>x \<in> set ts. msg_role x \<noteq> ''tool'' \<and> \<not> calls_tools x" by blast
  from ids have "length rs = length (msg_tool_calls m)" by (metis length_map)
  with b ids roles provider_ok_plain [OF ts] assms(2,4) show ?thesis by simp
qed (use assms(4) in simp)

lemma provider_ok_units:
  "\<forall>m \<in> set ms. item_ok m \<Longrightarrow> provider_ok (provider_messages (project_context_units i ms))"
proof (induction i ms rule: project_context_units.induct)
  case (2 i m ms)
  show ?case
  proof (cases "calls_tools m")
    case True
    have "\<forall>x \<in> set (takeWhile follows_batch ms). item_ok x" "\<forall>x \<in> set (dropWhile follows_batch ms). item_ok x"
      using 2(3) by (auto dest: set_takeWhileD set_dropWhileD)
    with provider_ok_batch [of m "takeWhile follows_batch ms"] 2(1) [OF True refl refl] 2(3) True
    show ?thesis by (simp add: Let_def provider_messages_def)
  next
    case False
    with 2(2,3) show ?thesis by (auto simp: single_messages_def provider_messages_def)
  qed
qed (simp add: provider_messages_def)

text \<open>
  C5. The request history is always acceptable to a provider: whatever the runtime has appended, and
  wherever it was interrupted, each tool-calling assistant message that is sent is directly followed
  by the results of its calls, one per call and in call order, and no tool result is sent without
  its call.
\<close>

theorem projection_is_provider_ok:
  assumes "\<And>m. m \<in> set items \<Longrightarrow> item_ok m"
  shows "provider_ok (provider_messages (project_context_units start items))"
  using provider_ok_units assms by blast

definition demo_tool_call :: "string \<Rightarrow> tool_call" where
  "demo_tool_call i = \<lparr>tc_id = i, tc_name = ''read'', tc_arguments = JObj [], tc_argument_error = None\<rparr>"

definition demo_item :: "string \<Rightarrow> tool_call list \<Rightarrow> string option \<Rightarrow> message" where
  "demo_item role calls cid = \<lparr>msg_role = role, msg_content = CStr ''x'', msg_timestamp = None, msg_tool_calls = calls,
     msg_tool_call_id = cid, msg_reasoning = None, msg_origin = ''conversation'', msg_provider_data = []\<rparr>"

definition demo_items :: "message list" where
  "demo_items = [demo_item ''user'' [] None,
     demo_item ''assistant'' [demo_tool_call ''a'', demo_tool_call ''b''] None,
     demo_item ''tool'' [] (Some ''b''), demo_item ''tool'' [] (Some ''a''),
     demo_item ''assistant'' [demo_tool_call ''c''] None]"

theorem projection_is_provider_ok_witness:
  "provider_ok (provider_messages (project_context_units 0 demo_items))
   \<and> map msg_tool_call_id (provider_messages (project_context_units 0 demo_items)) = [None, None, Some ''a'', Some ''b'']"
proof
  show "provider_ok (provider_messages (project_context_units 0 demo_items))"
    by (rule projection_is_provider_ok) (auto simp: demo_items_def demo_item_def item_ok_def SPECIAL_ORIGINS_def)
  show "map msg_tool_call_id (provider_messages (project_context_units 0 demo_items)) = [None, None, Some ''a'', Some ''b'']"
    by (simp add: demo_items_def demo_item_def demo_tool_call_def calls_tools_def single_messages_def provider_messages_def
        batch_messages_def batch_trailing_def follows_batch_def answers_def is_tool_media_def Let_def)
qed

section \<open>Archiving whole units\<close>

lemma tiles_mem_bounds: "tiles i n us \<Longrightarrow> u \<in> set us \<Longrightarrow> i < cx_end u \<and> cx_end u \<le> n"
  by (induction i n us rule: tiles.induct) (auto dest: tiles_le)

lemma project_suffix:
  "project_context_units i ms = us @ u # vs \<Longrightarrow> project_context_units (cx_end u) (drop (cx_end u - i) ms) = vs"
proof (induction i ms arbitrary: us rule: project_context_units.induct)
  case (2 i m ms)
  let ?f = "takeWhile follows_batch ms" and ?r = "dropWhile follows_batch ms"
  define e where "e = (if calls_tools m then i + 1 + length ?f else i + 1)"
  define r where "r = (if calls_tools m then ?r else ms)"
  have r: "r = drop (e - i - 1) ms" by (auto simp: r_def e_def dropWhile_eq_drop)
  obtain u0 where us0: "project_context_units i (m # ms) = u0 # project_context_units e r" and u0: "cx_end u0 = e"
    by (cases "calls_tools m") (auto simp: e_def r_def Let_def)
  have ei: "e > i" by (simp add: e_def)
  show ?case
  proof (cases us)
    case Nil
    with 2(3) us0 have "u = u0" "vs = project_context_units e r" by auto
    with u0 r ei show ?thesis by (cases "e - i") auto
  next
    case (Cons u' us')
    with 2(3) us0 have tail: "project_context_units e r = us' @ u # vs" by auto
    then have "u \<in> set (project_context_units e r)" by simp
    with tiles_mem_bounds [OF project_tiles] have ue: "e < cx_end u" by blast
    have "project_context_units (cx_end u) (drop (cx_end u - e) r) = vs"
      using 2(1) [OF _ refl refl] 2(2) tail by (cases "calls_tools m") (auto simp: e_def r_def)
    moreover have "drop (cx_end u - e) r = drop (cx_end u - i) (m # ms)"
      using ue ei r by (simp add: drop_Cons' drop_drop)
    ultimately show ?thesis by simp
  qed
qed simp

text \<open>
  The units tile the items: they are consecutive, non-empty spans that cover the items exactly.
  Archiving is therefore safe at any unit boundary: projecting the items that remain behind a unit
  gives exactly the units that stood behind it.
\<close>

theorem units_tile_and_archive:
  "tiles start (start + length items) (project_context_units start items)
   \<and> (\<forall>us u vs. project_context_units start items = us @ u # vs \<longrightarrow>
        project_context_units (cx_end u) (drop (cx_end u - start) items) = vs)"
  using project_tiles project_suffix by blast

theorem units_tile_and_archive_witness:
  "map cx_end (project_context_units 0 demo_items) = [1, 4, 5]
   \<and> project_context_units 4 (drop 4 demo_items) = drop 2 (project_context_units 0 demo_items)"
proof -
  have e: "map cx_end (project_context_units 0 demo_items) = [1, 4, 5]"
    by (simp add: demo_items_def demo_item_def demo_tool_call_def calls_tools_def follows_batch_def is_tool_media_def Let_def)
  then obtain a b c where p: "project_context_units 0 demo_items = [a] @ b # [c]" and "cx_end b = 4"
    by (auto simp: map_eq_Cons_conv)
  from units_tile_and_archive [of 0 demo_items]
  have "\<forall>us u vs. project_context_units 0 demo_items = us @ u # vs \<longrightarrow>
      project_context_units (cx_end u) (drop (cx_end u - 0) demo_items) = vs" by (rule conjunct2)
  from this [rule_format, OF p] \<open>cx_end b = 4\<close> have "project_context_units 4 (drop 4 demo_items) = [c]" by simp
  with e p show ?thesis by simp
qed

end
