(* ===== verification/Context_Manager.thy ===== *)
theory Context_Manager
  imports Projection
begin

text \<open>
  Building model requests and compressing the Session's history
  (\<open>agent_core/context_manager.py\<close>, with \<open>LLMRequest\<close>, \<open>LLMResponse\<close> and
  \<open>with_generation_limit\<close> of \<open>agent_core/llm.py\<close> and \<open>AuxiliaryCallTracker\<close> of
  \<open>agent_core/auxiliary.py\<close>).

  The source compares messages by object identity when it looks for the archive boundary. A
  message of a request therefore carries the index of the Session item it is, or \<open>None\<close> when it
  was built for the request. The provider, the local time zone and the hash of the token
  fingerprint are parameters.
\<close>

section \<open>Requests and responses\<close>

record item = message +
  it_index :: "nat option"

definition as_item :: "nat option \<Rightarrow> message \<Rightarrow> item" where
  "as_item i m = message.extend m (item.fields i)"

definition plain_message :: "string \<Rightarrow> content \<Rightarrow> item" where
  "plain_message role c = as_item None \<lparr>msg_role = role, msg_content = c, msg_timestamp = None, msg_tool_calls = [],
     msg_tool_call_id = None, msg_reasoning = None, msg_origin = ''conversation'', msg_provider_data = []\<rparr>"

fun tag_items :: "nat \<Rightarrow> message list \<Rightarrow> item list" where
  "tag_items i [] = []"
| "tag_items i (m # ms) = as_item (Some i) m # tag_items (Suc i) ms"

record tool_definition =
  td_name :: string
  td_description :: string
  td_parameters :: json

record llm_request =
  rq_system_prompt :: string
  rq_messages :: "item list"
  rq_tools :: "tool_definition list"
  rq_max_generation_tokens :: "int option"
  rq_media_root :: "string option"

record llm_response =
  rs_content :: "string option"
  rs_reasoning :: "string option"
  rs_tool_calls :: "tool_call list"
  rs_usage :: "token_usage option"
  rs_provider_data :: jobj

record llm_provider =
  pv_identity :: json
  pv_model_name :: "string option"
  pv_max_context_tokens :: int
  pv_max_output_tokens :: "int option"
  pv_count_input_tokens :: "llm_request \<Rightarrow> int"

definition with_generation_limit :: "llm_request \<Rightarrow> llm_provider \<Rightarrow> int option \<Rightarrow> llm_request" where
  "with_generation_limit request provider policy_limit =
     (case policy_limit of
        None \<Rightarrow> request
      | Some l \<Rightarrow> request\<lparr>rq_max_generation_tokens :=
          Some (case pv_max_output_tokens provider of None \<Rightarrow> l | Some p \<Rightarrow> min l p)\<rparr>)"

section \<open>Limits\<close>

text \<open>
  A non-negative binary64 number is a mantissa and a binary exponent. Products are rounded to 53
  bits, ties to even; the numbers here are far from the ends of the exponent range.
\<close>

type_synonym float64 = "nat \<times> int"

fun bits :: "nat \<Rightarrow> nat" where
  "bits n = (if n = 0 then 0 else Suc (bits (n div 2)))"

declare bits.simps [simp del]

lemma bits_0 [simp]: "bits 0 = 0"
  by (simp add: bits.simps)

definition round53 :: "float64 \<Rightarrow> float64" where
  "round53 f = (case f of (m, e) \<Rightarrow>
     let k = bits m - 53 in
     if k = 0 then (m, e)
     else let q = m div 2 ^ k; r = m mod 2 ^ k; half = 2 ^ (k - 1) in
       (if half < r \<or> (r = half \<and> odd q) then q + 1 else q, e + int k))"

definition fmul :: "float64 \<Rightarrow> float64 \<Rightarrow> float64" where
  "fmul f g = round53 (fst f * fst g, snd f + snd g)"

text \<open>\<open>int(f)\<close> truncates.\<close>

definition ftrunc :: "float64 \<Rightarrow> nat" where
  "ftrunc f = (if 0 \<le> snd f then fst f * 2 ^ nat (snd f) else fst f div 2 ^ nat (- snd f))"

text \<open>\<open>int(n * ratio)\<close> for an \<open>int\<close> and a \<open>float\<close>.\<close>

definition scale :: "int \<Rightarrow> float64 \<Rightarrow> int" where
  "scale n ratio = int (ftrunc (fmul (round53 (nat n, 0)) ratio))"

definition float_0_75 :: float64 where "float_0_75 = (3, - 2)"
definition float_0_80 :: float64 where "float_0_80 = (3602879701896397, - 52)"

definition compression_threshold :: "int \<Rightarrow> int \<Rightarrow> float64 option \<Rightarrow> int" where
  "compression_threshold max_context_tokens hard_limit trigger_ratio =
     (case trigger_ratio of
        Some r \<Rightarrow> max 1 (scale hard_limit r)
      | None \<Rightarrow>
          if max_context_tokens \<le> 32 * 1024 then max 1 (scale hard_limit float_0_75)
          else max 1 (min (scale hard_limit float_0_80) (256 * 1024)))"

record context_limits =
  cl_hard_limit :: int
  cl_compression_enabled :: bool
  cl_compression_threshold :: int
  cl_keep_recent_units :: nat
  cl_user_anchor_token_budget :: int

record context_window =
  cw_input_tokens :: int
  cw_system_prompt_tokens :: int
  cw_max_input_tokens :: int
  cw_max_context_tokens :: int
  cw_output_reserve_tokens :: int
  cw_compression_threshold :: int
  cw_compression_count :: nat
  cw_compression_summary :: "string option"

text \<open>\<open>ContextCompressionConfig\<close>.\<close>

record compression_config =
  cc_enabled :: bool
  cc_trigger_ratio :: "float64 option"
  cc_keep_recent_units :: nat
  cc_user_anchor_token_budget :: int

text \<open>The manager. Its Session, memory context and job manager are read when a request is built and
  are arguments of the definitions below.\<close>

record context_manager =
  cm_provider :: llm_provider
  cm_system_prompt :: string
  cm_consolidator_prompt :: string
  cm_output_reserve_tokens :: int
  cm_max_generation_tokens :: "int option"
  cm_media_root :: "string option"
  cm_limits :: context_limits
  cm_system_prompt_tokens :: int

definition empty_request :: "string \<Rightarrow> llm_request" where
  "empty_request prompt = \<lparr>rq_system_prompt = prompt, rq_messages = [], rq_tools = [],
     rq_max_generation_tokens = None, rq_media_root = None\<rparr>"

definition mk_context_manager ::
  "llm_provider \<Rightarrow> string \<Rightarrow> string \<Rightarrow> int \<Rightarrow> int option \<Rightarrow> compression_config \<Rightarrow> string option
    \<Rightarrow> context_manager res" where
  "mk_context_manager provider system_prompt consolidator_prompt reserve max_generation config media_root =
     (let hard_limit = pv_max_context_tokens provider - reserve in
      if reserve \<ge> pv_max_context_tokens provider
      then Inl (ValueError ''output_reserve_tokens must be less than the provider's max_context_tokens'')
      else if hard_limit \<le> 1
      then Inl (ValueError ''max_context_tokens minus output_reserve_tokens must be greater than 1'')
      else Inr \<lparr>cm_provider = provider, cm_system_prompt = system_prompt,
        cm_consolidator_prompt = consolidator_prompt, cm_output_reserve_tokens = reserve,
        cm_max_generation_tokens = max_generation, cm_media_root = media_root,
        cm_limits = \<lparr>cl_hard_limit = hard_limit, cl_compression_enabled = cc_enabled config,
          cl_compression_threshold =
            compression_threshold (pv_max_context_tokens provider) hard_limit (cc_trigger_ratio config),
          cl_keep_recent_units = cc_keep_recent_units config,
          cl_user_anchor_token_budget = cc_user_anchor_token_budget config\<rparr>,
        cm_system_prompt_tokens = pv_count_input_tokens provider (empty_request system_prompt)
          - pv_count_input_tokens provider (empty_request [])\<rparr>)"

definition window :: "context_manager \<Rightarrow> session_core \<Rightarrow> int \<Rightarrow> context_window" where
  "window cm c input_tokens = \<lparr>cw_input_tokens = input_tokens,
     cw_system_prompt_tokens = cm_system_prompt_tokens cm,
     cw_max_input_tokens = cl_hard_limit (cm_limits cm),
     cw_max_context_tokens = pv_max_context_tokens (cm_provider cm),
     cw_output_reserve_tokens = cm_output_reserve_tokens cm,
     cw_compression_threshold = cl_compression_threshold (cm_limits cm),
     cw_compression_count = sc_compression_count c, cw_compression_summary = sc_archived_summary c\<rparr>"

section \<open>Token estimates\<close>

text \<open>\<open>hash\<close> is the SHA-256 digest of the JSON text of the envelope.\<close>

definition token_fingerprint :: "(json \<Rightarrow> string) \<Rightarrow> context_manager \<Rightarrow> llm_request \<Rightarrow> string" where
  "token_fingerprint hash cm request =
     hash (JList [pv_identity (cm_provider cm), JStr (rq_system_prompt request),
       JList (map (\<lambda>t. JList [JStr (td_name t), JStr (td_description t), td_parameters t]) (rq_tools request)),
       JStr (case rq_media_root request of None \<Rightarrow> ''None'' | Some p \<Rightarrow> p)])"

definition measure_input_tokens ::
  "(json \<Rightarrow> string) \<Rightarrow> context_manager \<Rightarrow> session_core \<Rightarrow> llm_request \<Rightarrow> input_token_estimate" where
  "measure_input_tokens hash cm c request =
     (let l = pv_count_input_tokens (cm_provider cm) request; f = token_fingerprint hash cm request in
      \<lparr>ite_fingerprint = f, ite_local_tokens = l,
       ite_tokens = (case sc_input_token_anchor c of
           None \<Rightarrow> l
         | Some a \<Rightarrow> if ita_fingerprint a = f then max 0 (ita_input_tokens a + l - ita_local_tokens a) else l)\<rparr>)"

section \<open>User anchors\<close>

definition ANCHOR_HEADER :: string where
  "ANCHOR_HEADER = ''These preserve exact user-authored input and interaction decisions from recent turns. Treat ''
     @ ''them as authoritative user instructions.''"

text \<open>\<open>local_time\<close> prints a time in the local zone to the second.\<close>

definition render_anchor :: "(utc \<Rightarrow> string) \<Rightarrow> string option \<Rightarrow> user_anchor \<Rightarrow> string list" where
  "render_anchor local_time active a =
     (case historical_content (ua_content a) of
        None \<Rightarrow> []
      | Some t \<Rightarrow> [''USER INPUT '' @ local_time (ua_timestamp a) @ '' (''
          @ (if Some (ua_turn_id a) = active then ''current turn'' else ''historical turn'') @ '', '' @ ua_source a
          @ '', turn_id='' @ ua_turn_id a @ '')'' @ [LF] @ t])"

definition render_user_anchors :: "(utc \<Rightarrow> string) \<Rightarrow> string option \<Rightarrow> user_anchor list \<Rightarrow> string option" where
  "render_user_anchors local_time active anchors =
     (if anchors = [] then None
      else Some (py_join [LF, LF] ([''[Lossless User Anchors]'', ANCHOR_HEADER]
        @ concat (map (render_anchor local_time active) anchors))))"

definition content_of_option :: "string option \<Rightarrow> content" where
  "content_of_option t = (case t of None \<Rightarrow> CNone | Some s \<Rightarrow> CStr s)"

text \<open>\<open>turn_ids[:turn_ids.index(active) + 1]\<close>; \<open>list.index\<close> raises when the turn is not recorded.\<close>

definition turns_to_active :: "session_core \<Rightarrow> string option \<Rightarrow> string list res" where
  "turns_to_active c active =
     (let ids = map fst (sc_turns c) in
      case active of
        None \<Rightarrow> Inr ids
      | Some t \<Rightarrow> if t \<in> set ids then Inr (takeWhile (\<lambda>x. x \<noteq> t) ids @ [t])
          else Inl (ValueError (quoted t @ '' is not in list'')))"

definition anchors_of_turn :: "session_core \<Rightarrow> string \<Rightarrow> user_anchor list" where
  "anchors_of_turn c t = filter (\<lambda>a. ua_turn_id a = t) (sc_user_anchors c)"

definition anchors_fit :: "(utc \<Rightarrow> string) \<Rightarrow> context_manager \<Rightarrow> string option \<Rightarrow> user_anchor list \<Rightarrow> bool" where
  "anchors_fit local_time cm active anchors \<longleftrightarrow>
     pv_count_input_tokens (cm_provider cm)
       \<lparr>rq_system_prompt = [],
        rq_messages = [plain_message ''user'' (content_of_option (render_user_anchors local_time active anchors))],
        rq_tools = [], rq_max_generation_tokens = None, rq_media_root = cm_media_root cm\<rparr>
     \<le> cl_user_anchor_token_budget (cm_limits cm)"

text \<open>The loop over the older turns, most recent first; the first turn that does not fit ends it.\<close>

fun extend_anchors ::
  "(user_anchor list \<Rightarrow> bool) \<Rightarrow> (string \<Rightarrow> user_anchor list) \<Rightarrow> string list \<Rightarrow> user_anchor list \<Rightarrow> user_anchor list" where
  "extend_anchors fits by_turn [] selected = selected"
| "extend_anchors fits by_turn (t # ts) selected =
     (let candidate = by_turn t @ selected in
      if fits candidate then extend_anchors fits by_turn ts candidate else selected)"

definition selected_user_anchors ::
  "(utc \<Rightarrow> string) \<Rightarrow> context_manager \<Rightarrow> session_core \<Rightarrow> string option \<Rightarrow> user_anchor list res" where
  "selected_user_anchors local_time cm c active =
     res_bind (turns_to_active c active) (\<lambda>ids.
       let old = take (length ids - 2) ids; recent = drop (length ids - 2) ids in
       Inr (extend_anchors (anchors_fit local_time cm active) (anchors_of_turn c) (rev old)
              (concat (map (anchors_of_turn c) recent))))"

definition archived_user_anchors ::
  "(utc \<Rightarrow> string) \<Rightarrow> context_manager \<Rightarrow> session_core \<Rightarrow> string option \<Rightarrow> user_anchor list res" where
  "archived_user_anchors local_time cm c active =
     res_map (filter (\<lambda>a. int (ua_item_index a) < sc_archived_item_cursor c))
       (selected_user_anchors local_time cm c active)"

section \<open>Building a request\<close>

definition turn_context_message :: "(utc \<Rightarrow> string) \<Rightarrow> 'a message_scheme \<Rightarrow> item list" where
  "turn_context_message local_time m =
     (case msg_timestamp m of
        None \<Rightarrow> []
      | Some t \<Rightarrow> [plain_message ''system''
          (CStr (''[Turn Context]'' @ [LF] @ ''User message received at '' @ local_time t @ ''.''))])"

definition stable_context :: "string option \<Rightarrow> session_core \<Rightarrow> item list" where
  "stable_context memory c =
     (let sections = (case memory of None \<Rightarrow> [] | Some m \<Rightarrow> [m])
        @ (case sc_archived_summary c of None \<Rightarrow> [] | Some s \<Rightarrow> [''[Archived Context Summary]'' @ [LF] @ s])
      in if sections = [] then []
         else [plain_message ''system'' (CStr (py_join [LF, LF] (''[Runtime Context]'' # sections)))])"

text \<open>A listed job: identifier, kind, the role detail if present, status.\<close>

type_synonym listed_job = "string \<times> string \<times> string option \<times> string"

definition job_line :: "listed_job \<Rightarrow> string" where
  "job_line j = (case j of (jid, kind, role, status) \<Rightarrow>
     jid @ '': '' @ py_join '' / '' ([kind]
       @ (if kind = ''subagent'' then (case role of None \<Rightarrow> [] | Some r \<Rightarrow> [r]) else []) @ [status]))"

definition dynamic_context :: "(json \<Rightarrow> string) \<Rightarrow> listed_job list option \<Rightarrow> session_core \<Rightarrow> item list" where
  "dynamic_context dumps jobs c =
     (let sections = (case sc_plan c of None \<Rightarrow> []
          | Some p \<Rightarrow> if plan_is_active p
              then [''[Current Plan]'' @ [LF] @ dumps (JObj (plan_snapshot_to_dict p))] else [])
        @ (case jobs of None \<Rightarrow> []
          | Some js \<Rightarrow> if js = [] then []
              else [''[Active Jobs]'' @ [LF] @ py_join [LF] (map job_line js)])
      in if sections = [] then [] else [plain_message ''system'' (CStr (py_join [LF, LF] sections))])"

definition historical_user_anchor ::
  "(utc \<Rightarrow> string) \<Rightarrow> string option \<Rightarrow> user_anchor list \<Rightarrow> item list" where
  "historical_user_anchor local_time active anchors =
     (case render_user_anchors local_time active (filter (\<lambda>a. Some (ua_turn_id a) \<noteq> active) anchors) of
        None \<Rightarrow> [] | Some t \<Rightarrow> [plain_message ''user'' (CStr t)])"

definition pinned_message :: "(utc \<Rightarrow> string) \<Rightarrow> session_core \<Rightarrow> user_anchor \<Rightarrow> item list res" where
  "pinned_message local_time c a =
     (if ua_item_index a < length (sc_items c)
      then let m = sc_items c ! ua_item_index a in
        Inr (turn_context_message local_time m @ [as_item (Some (ua_item_index a)) m])
      else Inl (RuntimeError ''list index out of range''))"

definition pinned_current_turn ::
  "(utc \<Rightarrow> string) \<Rightarrow> session_core \<Rightarrow> string option \<Rightarrow> user_anchor list \<Rightarrow> item list res" where
  "pinned_current_turn local_time c active anchors =
     res_map concat (res_list (pinned_message local_time c) (filter (\<lambda>a. Some (ua_turn_id a) = active) anchors))"

definition unarchived :: "session_core \<Rightarrow> item list" where
  "unarchived c = (let k = nat (sc_archived_item_cursor c) in tag_items k (drop k (sc_items c)))"

definition current_units :: "session_core \<Rightarrow> item context_unit list" where
  "current_units c = project_context_units (nat (sc_archived_item_cursor c)) (unarchived c)"

definition with_turn_context :: "(utc \<Rightarrow> string) \<Rightarrow> item \<Rightarrow> item list" where
  "with_turn_context local_time m = (if is_user_authored m then turn_context_message local_time m else []) @ [m]"

definition context_messages :: "(utc \<Rightarrow> string) \<Rightarrow> session_core \<Rightarrow> item list" where
  "context_messages local_time c = concat (map (with_turn_context local_time) (provider_messages (current_units c)))"

text \<open>The state a request is built from: memory section, listed jobs, Session state, current turn.\<close>

record request_state =
  rst_memory :: "string option"
  rst_jobs :: "listed_job list option"
  rst_core :: session_core
  rst_active :: "string option"

definition build_request ::
  "(utc \<Rightarrow> string) \<Rightarrow> (json \<Rightarrow> string) \<Rightarrow> context_manager \<Rightarrow> request_state \<Rightarrow> tool_definition list
    \<Rightarrow> llm_request res" where
  "build_request local_time dumps cm rst tools =
     (let c = rst_core rst; active = rst_active rst in
      res_bind (archived_user_anchors local_time cm c active) (\<lambda>anchors.
      res_bind (pinned_current_turn local_time c active anchors) (\<lambda>pinned.
        Inr \<lparr>rq_system_prompt = cm_system_prompt cm,
          rq_messages = stable_context (rst_memory rst) c @ historical_user_anchor local_time active anchors
            @ pinned @ context_messages local_time c @ dynamic_context dumps (rst_jobs rst) c,
          rq_tools = tools, rq_max_generation_tokens = None, rq_media_root = cm_media_root cm\<rparr>)))"

section \<open>Archiving\<close>

definition visible_units :: "'m context_unit list \<Rightarrow> 'm context_unit list" where
  "visible_units us = filter (\<lambda>u. cx_messages u \<noteq> []) us"

text \<open>\<open>visible[-keep]\<close>; \<open>-0\<close> is 0.\<close>

definition archivable_of :: "nat \<Rightarrow> 'm context_unit list \<Rightarrow> 'm context_unit list" where
  "archivable_of keep us =
     (let vs = visible_units us in
      if length vs \<le> keep then []
      else let start = cx_start (vs ! (if keep = 0 then 0 else length vs - keep)) in
        filter (\<lambda>u. cx_end u \<le> start) us)"

definition archivable_units :: "context_manager \<Rightarrow> session_core \<Rightarrow> item context_unit list" where
  "archivable_units cm c = archivable_of (cl_keep_recent_units (cm_limits cm)) (current_units c)"

definition should_archive :: "context_manager \<Rightarrow> session_core \<Rightarrow> int \<Rightarrow> bool" where
  "should_archive cm c input_tokens =
     (if \<not> cl_compression_enabled (cm_limits cm) \<or> input_tokens < cl_compression_threshold (cm_limits cm)
      then False else archivable_units cm c \<noteq> [])"

text \<open>\<open>a is b\<close> for an item \<open>b\<close> of the Session.\<close>

definition same_object :: "item \<Rightarrow> item \<Rightarrow> bool" where
  "same_object a b \<longleftrightarrow> it_index a \<noteq> None \<and> it_index a = it_index b"

fun through_object :: "item \<Rightarrow> item list \<Rightarrow> item list option" where
  "through_object x [] = None"
| "through_object x (m # ms) = (if same_object m x then Some [m] else map_option ((#) m) (through_object x ms))"

definition archive_request :: "context_manager \<Rightarrow> item context_unit list \<Rightarrow> llm_request \<Rightarrow> llm_request res" where
  "archive_request cm units request =
     (if provider_messages units = [] then Inl (RuntimeError ''list index out of range'')
      else case through_object (last (provider_messages units)) (rq_messages request) of
        None \<Rightarrow> Inl (ValueError (''cannot compress context: the current archive boundary is missing from the ''
          @ ''supplied request; pass a fresh build_request() result from this ContextManager''))
      | Some pre \<Rightarrow> Inr (with_generation_limit
          (request\<lparr>rq_messages := pre @ [plain_message ''user'' (CStr (cm_consolidator_prompt cm))]\<rparr>)
          (cm_provider cm) (cm_max_generation_tokens cm)))"

subsection \<open>Validating a checkpoint\<close>

definition ARCHIVE_MARKS :: "string list" where
  "ARCHIVE_MARKS = [''permanent'', ''durable'', ''ephemeral'', ''correction'']"

text \<open>\<open>\S(?:.*\S)?\<close>: no white space at either end and no line feed inside.\<close>

definition fact_text :: "string \<Rightarrow> bool" where
  "fact_text s \<longleftrightarrow> s \<noteq> [] \<and> \<not> py_space (hd s) \<and> \<not> py_space (last s) \<and> LF \<notin> set s"

definition archive_line :: "string \<Rightarrow> bool" where
  "archive_line l \<longleftrightarrow> list_ex (\<lambda>mark. let h = ''- ['' @ mark @ ''] '' in prefix h l \<and> fact_text (drop (length h) l)) ARCHIVE_MARKS"

definition open_fence :: "string \<Rightarrow> bool" where
  "open_fence l \<longleftrightarrow> l = ''```'' \<or> l = ''```text'' \<or> l = ''```markdown''"

definition checkpoint_lines :: "string \<Rightarrow> string list" where
  "checkpoint_lines summary = filter (\<lambda>l. l \<noteq> []) (map py_strip (py_splitlines summary))"

definition unfence :: "string list \<Rightarrow> string list res" where
  "unfence ls =
     (if open_fence (hd ls)
      then if last ls \<noteq> ''```'' \<or> length ls < 3
        then Inl (ValueError ''checkpoint code fence must wrap the complete checkpoint'')
        else Inr (butlast (tl ls))
      else Inr ls)"

definition validated_archive_summary :: "llm_response \<Rightarrow> string res" where
  "validated_archive_summary response =
     (if rs_tool_calls response \<noteq> [] then Inl (ValueError ''checkpoint must not contain tool calls'')
      else let summary = (case rs_content response of None \<Rightarrow> [] | Some t \<Rightarrow> py_strip t) in
        if summary = [] then Inl (ValueError ''checkpoint must not be empty'')
        else res_bind (unfence (checkpoint_lines summary)) (\<lambda>ls.
          if ls = [''(nothing)''] then Inr ''(nothing)''
          else if list_ex (\<lambda>l. \<not> archive_line l) ls
          then Inl (ValueError (''checkpoint lines must use '' @ quoted ''- [mark] fact'' @ '' with a supported mark''))
          else Inr (py_join [LF] ls)))"

subsection \<open>The consolidation loop\<close>

definition ARCHIVE_RETRY_COUNT :: nat where "ARCHIVE_RETRY_COUNT = 5"

definition archive_repair_request :: "llm_request \<Rightarrow> string \<Rightarrow> llm_request" where
  "archive_repair_request request err =
     request\<lparr>rq_messages := rq_messages request @ [plain_message ''system'' (CStr
       (''The previous checkpoint was rejected: '' @ err @ ''. Return only the checkpoint, with one ''
        @ quoted ''- [mark] fact'' @ '' per line or exactly '' @ quoted ''(nothing)''
        @ ''; do not include explanations, headings, or prompt text.''))]\<rparr>"

text \<open>\<open>AuxiliaryCallTracker.__exit__\<close>: the record of a call that returned \<open>response\<close> (if it did) and
  ended with \<open>error\<close> (if it did); \<open>timing\<close> is its start and its duration in milliseconds.\<close>

definition tracker_record ::
  "string \<Rightarrow> string option \<Rightarrow> int \<Rightarrow> utc \<times> int \<Rightarrow> llm_response option \<Rightarrow> exn option \<Rightarrow> auxiliary_model_call" where
  "tracker_record task scp attempt timing response error =
     \<lparr>aux_task = task, aux_scope = scp, aux_attempt = attempt,
      aux_status = (case error of None \<Rightarrow> ''completed''
        | Some x \<Rightarrow> if x = AgentCancelled \<or> x = KeyboardInterrupt then ''cancelled''
            else if response \<noteq> None then ''invalid_response'' else ''failed''),
      aux_started_at = fst timing, aux_duration_ms = snd timing,
      aux_usage = (case response of None \<Rightarrow> None | Some r \<Rightarrow> rs_usage r),
      aux_error = (case error of None \<Rightarrow> None | Some x \<Rightarrow> if exn_str x = [] then None else Some (exn_str x))\<rparr>"

fun is_value_error :: "exn \<Rightarrow> bool" where
  "is_value_error (ValueError _) = True"
| "is_value_error _ = False"

text \<open>What the runs of the loop read from outside: the k-th answer of the provider (or the exception
  of the call, cancellation included), the timing of the k-th call and the stamps of its event.\<close>

record archive_env =
  ae_stream :: "nat \<Rightarrow> llm_request \<Rightarrow> llm_response res"
  ae_timing :: "nat \<Rightarrow> utc \<times> int"
  ae_stamp :: "nat \<Rightarrow> stamp"
  ae_hash :: "json \<Rightarrow> string"

definition archive_call ::
  "archive_env \<Rightarrow> context_manager \<Rightarrow> nat \<Rightarrow> llm_request \<Rightarrow> session \<Rightarrow> session \<times> llm_response option \<times> string res" where
  "archive_call env cm k request s =
     (let r = ae_stream env k request;
          response = (case r of Inl _ \<Rightarrow> None | Inr x \<Rightarrow> Some x);
          v = res_bind r validated_archive_summary;
          call = tracker_record ''compression'' None (int k + 1) (ae_timing env k) response
            (case v of Inl x \<Rightarrow> Some x | Inr _ \<Rightarrow> None)
      in case auxiliary_model_completed (ae_stamp env k) call (pv_model_name (cm_provider cm)) None s of
           (s', Some x) \<Rightarrow> (s', response, Inl x)
         | (s', None) \<Rightarrow> (s', response, v))"

fun archive_attempts ::
  "archive_env \<Rightarrow> context_manager \<Rightarrow> llm_request \<Rightarrow> nat list \<Rightarrow> string option \<Rightarrow> session \<Rightarrow> session \<times> string res" where
  "archive_attempts env cm request [] err s =
     (s, Inl (ValueError (''context consolidator returned an invalid checkpoint after ''
        @ nat_str (ARCHIVE_RETRY_COUNT + 1) @ '' attempts: '' @ (case err of None \<Rightarrow> ''None'' | Some e \<Rightarrow> e))))"
| "archive_attempts env cm request (k # ks) err s =
     (let attempt_request = (case err of Some e \<Rightarrow> if 0 < k then archive_repair_request request e else request
          | None \<Rightarrow> request);
          tokens = ite_tokens (measure_input_tokens (ae_hash env) cm (ses_core s) attempt_request)
      in if tokens > cl_hard_limit (cm_limits cm)
         then (s, Inl (ContextWindowExceededError tokens (pv_max_context_tokens (cm_provider cm)) (cm_output_reserve_tokens cm)))
         else (case archive_call env cm k attempt_request s of
             (s', _, Inr summary) \<Rightarrow> (s', Inr summary)
           | (s', response, Inl x) \<Rightarrow>
               if is_value_error x \<and> response \<noteq> None
               then archive_attempts env cm request ks (Some (exn_str x)) s'
               else (s', Inl x)))"

definition archive :: "archive_env \<Rightarrow> context_manager \<Rightarrow> llm_request \<Rightarrow> session \<Rightarrow> session \<times> int res" where
  "archive env cm request s =
     (let units = archivable_units cm (ses_core s) in
      if units = [] then (s, Inr (sc_archived_item_cursor (ses_core s)))
      else (case archive_request cm units request of
          Inl x \<Rightarrow> (s, Inl x)
        | Inr rq \<Rightarrow>
            (case archive_attempts env cm rq [0..<ARCHIVE_RETRY_COUNT + 1] None s of
               (s', Inl x) \<Rightarrow> (s', Inl x)
             | (s', Inr summary) \<Rightarrow>
                 (case set_archived_summary (ae_stamp env (ARCHIVE_RETRY_COUNT + 1)) summary
                     (int (cx_end (last units))) s' of
                    (s2, Some x) \<Rightarrow> (s2, Inl x)
                  | (s2, None) \<Rightarrow> (s2, Inr (sc_archived_item_cursor (ses_core s2)))))))"

section \<open>Bounds of the threshold\<close>

lemma less_two_power_bits: "m < 2 ^ bits m"
proof (induction m rule: bits.induct)
  case (1 m)
  show ?case
  proof (cases "m = 0")
    case False
    with 1 have "m div 2 < 2 ^ bits (m div 2)" by simp
    then have "m < 2 * 2 ^ bits (m div 2)" by linarith
    with False show ?thesis by (simp add: bits.simps [of m])
  qed simp
qed

lemma two_power_bits_le: "0 < m \<Longrightarrow> 2 ^ (bits m - 1) \<le> m"
proof (induction m rule: bits.induct)
  case (1 m)
  show ?case
  proof (cases "m div 2 = 0")
    case True
    with 1(2) show ?thesis by (simp add: bits.simps [of m])
  next
    case False
    with 1 have "2 ^ (bits (m div 2) - 1) \<le> m div 2" by simp
    moreover have "0 < bits (m div 2)" using False by (simp add: bits.simps [of "m div 2"])
    ultimately have "2 ^ bits (m div 2) \<le> 2 * (m div 2)" by (cases "bits (m div 2)") auto
    with 1(2) show ?thesis by (simp add: bits.simps [of m])
  qed
qed

lemma bits_le: "m < 2 ^ k \<Longrightarrow> bits m \<le> k"
proof (rule ccontr)
  assume "m < 2 ^ k" and "\<not> bits m \<le> k"
  then have "m \<noteq> 0" by (cases "m = 0") simp_all
  moreover from \<open>\<not> bits m \<le> k\<close> have "(2::nat) ^ k \<le> 2 ^ (bits m - 1)" by (intro power_increasing) auto
  ultimately show False using two_power_bits_le [of m] \<open>m < 2 ^ k\<close> by linarith
qed

lemma div_two_power_le: "M \<le> n * 2 ^ d \<Longrightarrow> M div 2 ^ d \<le> (n::nat)"
  using div_le_mono [of M "n * 2 ^ d" "2 ^ d"] by simp

lemma ftrunc_neg: "ftrunc (q, - int j) = q div 2 ^ j"
  by (cases "j = 0") (simp_all add: ftrunc_def)

text \<open>Rounding never carries a product past an integer that is itself representable.\<close>

lemma ftrunc_round53_le:
  assumes "M \<le> n * 2 ^ d" and "n < 2 ^ 53"
  shows "ftrunc (round53 (M, - int d)) \<le> n"
proof -
  define k where "k = bits M - 53"
  show ?thesis
  proof (cases "k = 0")
    case True
    have "M div 2 ^ d \<le> n" by (rule div_two_power_le [OF assms(1)])
    with True show ?thesis by (simp add: round53_def k_def [symmetric] ftrunc_neg)
  next
    case False
    then have "0 < M" by (cases "M = 0") (simp_all add: k_def)
    then have "2 ^ (52 + k) \<le> M" using two_power_bits_le [of M] False by (simp add: k_def)
    also have "M \<le> n * 2 ^ d" by (rule assms(1))
    also have "\<dots> < 2 ^ 53 * 2 ^ d" using assms(2) by simp
    also have "\<dots> = 2 ^ (53 + d)" by (simp add: power_add)
    finally have kd: "k \<le> d" by (simp add: power_strict_increasing_iff)
    define b where "b = n * 2 ^ (d - k)"
    have Mb: "M \<le> b * 2 ^ k" using assms(1) kd by (simp add: b_def mult.assoc power_add [symmetric])
    let ?q = "M div 2 ^ k" and ?r = "M mod 2 ^ k"
    have q: "?q \<le> b" by (rule div_two_power_le [OF Mb])
    have q1: "?q + 1 \<le> b" if "0 < ?r"
    proof -
      have "?q * 2 ^ k < M" using that div_mult_mod_eq [of M "2 ^ k"] by linarith
      with Mb have "?q * 2 ^ k < b * 2 ^ k" by linarith
      then show ?thesis by simp
    qed
    define q' where "q' = (if 2 ^ (k - 1) < ?r \<or> (?r = 2 ^ (k - 1) \<and> odd ?q) then ?q + 1 else ?q)"
    have "q' \<le> b" using q q1 by (auto simp: q'_def simp del: One_nat_def)
    then have "q' div 2 ^ (d - k) \<le> n" unfolding b_def by (rule div_two_power_le)
    moreover have "round53 (M, - int d) = (q', - int (d - k))"
      using False kd unfolding round53_def by (simp only: prod.case Let_def k_def [symmetric]) (simp add: q'_def of_nat_diff)
    ultimately show ?thesis by (simp only: ftrunc_neg)
  qed
qed

lemma round53_small: "n < 2 ^ 53 \<Longrightarrow> round53 (n, e) = (n, e)"
  using bits_le [of n 53] by (simp add: round53_def)

lemma scale_le:
  assumes "0 \<le> n" and "n < 2 ^ 53" and "r = (m, - int d)" and "m \<le> 2 ^ d"
  shows "0 \<le> scale n r \<and> scale n r \<le> n"
proof -
  have n: "nat n < 2 ^ 53" using assms(1,2) by (simp add: nat_less_iff)
  have "nat n * m \<le> nat n * 2 ^ d" using assms(4) by simp
  from ftrunc_round53_le [OF this n] have "ftrunc (fmul (nat n, 0) r) \<le> nat n"
    by (simp add: fmul_def assms(3))
  then show ?thesis using assms(1) n by (simp add: scale_def round53_small)
qed

text \<open>
  The compression threshold is always usable: for every context size below 2^53 tokens and every
  trigger ratio below one, \<open>int(hard_limit * ratio)\<close> computed in binary floating point (rounding
  included) gives a threshold between 1 and the hard limit, and at most 262144 tokens for large windows.
\<close>

theorem compression_threshold_bounds:
  assumes "1 < hard_limit" and "hard_limit < 2 ^ 53"
    and "\<And>r. ratio = Some r \<Longrightarrow> snd r \<le> 0 \<and> int (fst r) \<le> 2 ^ nat (- snd r)"
  shows "1 \<le> compression_threshold max_context hard_limit ratio
    \<and> compression_threshold max_context hard_limit ratio \<le> hard_limit
    \<and> (ratio = None \<and> 32768 < max_context \<longrightarrow> compression_threshold max_context hard_limit ratio \<le> 262144)"
proof -
  have sc: "0 \<le> scale hard_limit r \<and> scale hard_limit r \<le> hard_limit"
    if "snd r \<le> 0" "int (fst r) \<le> 2 ^ nat (- snd r)" for r
  proof (rule scale_le)
    show "r = (fst r, - int (nat (- snd r)))" using that(1) by (simp add: prod_eq_iff)
    show "fst r \<le> 2 ^ nat (- snd r)" using that(2) by (metis of_nat_le_iff of_nat_numeral of_nat_power)
  qed (use assms in auto)
  have a: "scale hard_limit float_0_75 \<le> hard_limit" using sc [of float_0_75] by (simp add: float_0_75_def)
  have b: "scale hard_limit float_0_80 \<le> hard_limit" using sc [of float_0_80] by (simp add: float_0_80_def)
  show ?thesis
  proof (cases ratio)
    case None
    with a b assms(1) show ?thesis by (auto simp: compression_threshold_def min_le_iff_disj)
  next
    case (Some r)
    with sc assms(3) assms(1) have "scale hard_limit r \<le> hard_limit" by blast
    with Some assms(1) show ?thesis by (simp add: compression_threshold_def)
  qed
qed

theorem compression_threshold_bounds_witness:
  "1 \<le> compression_threshold 200000 192000 None \<and> compression_threshold 200000 192000 None \<le> 192000"
  using compression_threshold_bounds [of 192000 None 200000] by simp

section \<open>Which units are archived\<close>

lemma filter_nth_split:
  "i < length (filter P xs) \<Longrightarrow> \<exists>ys x zs. xs = ys @ x # zs \<and> P x \<and> length (filter P ys) = i \<and> filter P xs ! i = x"
proof (induction xs arbitrary: i)
  case (Cons a xs)
  show ?case
  proof (cases "P a \<and> i = 0")
    case True
    then show ?thesis by (intro exI [of _ "[]"] exI [of _ a] exI [of _ xs]) simp
  next
    case False
    define j where "j = (if P a then i - 1 else i)"
    have "j < length (filter P xs)" using Cons.prems False by (auto simp: j_def)
    from Cons.IH [OF this] obtain ys x zs where "xs = ys @ x # zs" "P x" "length (filter P ys) = j" "filter P xs ! j = x"
      by blast
    then show ?thesis using False by (intro exI [of _ "a # ys"] exI [of _ x] exI [of _ zs]) (auto simp: j_def nth_Cons')
  qed
qed simp

lemma tiles_append: "tiles i n (us @ vs) \<longleftrightarrow> (\<exists>k. tiles i k us \<and> tiles k n vs)"
proof (induction us arbitrary: i)
  case (Cons u us)
  then show ?case by (auto dest: tiles_le)
qed auto

lemma tiles_split:
  assumes "tiles i n (us @ u # vs)"
  shows "\<forall>x \<in> set us. cx_end x \<le> cx_start u" and "\<forall>y \<in> set (u # vs). cx_start u < cx_end y"
    and "us \<noteq> [] \<Longrightarrow> cx_end (last us) = cx_start u"
proof -
  from assms obtain k where us: "tiles i k us" and "tiles k n (u # vs)" by (auto simp: tiles_append)
  then have k: "cx_start u = k" and vs: "k < cx_end u" "tiles (cx_end u) n vs" by auto
  from us k show "\<forall>x \<in> set us. cx_end x \<le> cx_start u" by (auto dest: tiles_mem_bounds)
  from k vs show "\<forall>y \<in> set (u # vs). cx_start u < cx_end y" by (auto dest: tiles_mem_bounds)
  show "cx_end (last us) = cx_start u" if "us \<noteq> []"
    using us that k by (cases us rule: rev_cases) (auto simp: tiles_append)
qed

lemma archivable_split:
  assumes "tiles i n us" and "1 \<le> keep" and "archivable_of keep us \<noteq> []"
  shows "\<exists>u vs. us = archivable_of keep us @ u # vs \<and> visible_units (u # vs) = drop (length (visible_units us) - keep) (visible_units us)
    \<and> provider_messages (archivable_of keep us) \<noteq> [] \<and> cx_end (last (archivable_of keep us)) = cx_start u"
proof -
  let ?vs = "visible_units us"
  have len: "keep < length ?vs" using assms(3) by (auto simp: archivable_of_def Let_def split: if_splits)
  then have "length ?vs - keep < length ?vs" using assms(2) by simp
  from filter_nth_split [OF this [unfolded visible_units_def]] obtain ys u zs
    where us: "us = ys @ u # zs" and vis: "cx_messages u \<noteq> []"
      and n: "length (visible_units ys) = length ?vs - keep" and nth: "?vs ! (length ?vs - keep) = u"
    unfolding visible_units_def by blast
  have arch: "archivable_of keep us = filter (\<lambda>x. cx_end x \<le> cx_start u) us"
    using len assms(2) nth by (simp add: archivable_of_def Let_def)
  have "filter (\<lambda>x. cx_end x \<le> cx_start u) us = ys"
    using tiles_split [OF assms(1) [unfolded us]] unfolding us by (auto simp: filter_id_conv filter_empty_conv not_le)
  with arch have ys: "archivable_of keep us = ys" by simp
  have "visible_units (u # zs) = drop (length ?vs - keep) ?vs"
    using n unfolding us by (simp add: visible_units_def)
  moreover have "visible_units ys \<noteq> []" using n len by auto
  then have "provider_messages ys \<noteq> []" by (auto simp: visible_units_def provider_messages_def filter_empty_conv)
  moreover have "ys \<noteq> []" using ys assms(3) by simp
  ultimately show ?thesis using us ys tiles_split(3) [OF assms(1) [unfolded us]] by auto
qed

lemma length_tag_items [simp]: "length (tag_items k ms) = length ms"
  by (induction ms arbitrary: k) auto

lemma drop_tag_items: "drop j (tag_items k ms) = tag_items (k + j) (drop j ms)"
  by (induction ms arbitrary: k j) (auto simp: drop_Cons split: nat.split)

lemma current_units_tile:
  "cursor_ok c \<Longrightarrow> tiles (nat (sc_archived_item_cursor c)) (length (sc_items c)) (current_units c)"
  using project_tiles [of "nat (sc_archived_item_cursor c)" "unarchived c"]
  by (simp add: current_units_def unarchived_def Let_def cursor_ok_def nat_le_iff)

text \<open>Moving the cursor to the end of a unit drops that unit and the ones before it, nothing else.\<close>

lemma current_units_moved:
  assumes "cursor_ok c" and "current_units c = us @ v # vs" and "us \<noteq> []"
  shows "current_units (c\<lparr>sc_archived_item_cursor := int (cx_end (last us))\<rparr>) = v # vs"
proof -
  let ?k = "nat (sc_archived_item_cursor c)"
  obtain us' u where us: "us = us' @ [u]" using assms(3) by (cases us rule: rev_cases) auto
  have u: "?k < cx_end u" using tiles_mem_bounds [OF current_units_tile [OF assms(1)], of u] assms(2) us by auto
  have "project_context_units ?k (unarchived c) = us' @ u # v # vs"
    using assms(2) us by (simp add: current_units_def)
  from project_suffix [OF this] have "project_context_units (cx_end u) (drop (cx_end u - ?k) (unarchived c)) = v # vs" .
  with u us show ?thesis by (simp add: current_units_def unarchived_def Let_def drop_tag_items)
qed

section \<open>The consolidation loop changes only the usage\<close>

lemma aux_compression:
  assumes "auxiliary_model_completed st call model tid s = (s', r)" and "aux_task call = ''compression''"
  shows "(\<exists>u. ses_core s' = (ses_core s)\<lparr>sc_cache_usage := u\<rparr>) \<and> ses_current_turn_id s' = ses_current_turn_id s
    \<and> (\<exists>es. ses_journal s' = ses_journal s @ es \<and> length es \<le> 1)"
proof -
  let ?e = "\<lparr>ev_seq = next_seq (ses_journal s), ev_id = fst st, ev_type = ''compression_completed'',
    ev_turn_id = (case tid of Some t \<Rightarrow> Some t | None \<Rightarrow> ses_current_turn_id s), ev_timestamp = snd st, ev_tool_call_id = None,
    ev_payload = [(''model'', jopt_str model), (''scope'', jopt_str (aux_scope call)), (''attempt'', JInt (aux_attempt call)),
        (''status'', JStr (aux_status call)), (''started_at_utc'', JStr (format_utc (aux_started_at call))),
        (''duration_ms'', JInt (aux_duration_ms call)), (''usage'', usage_to_dict (aux_usage call)),
        (''error'', jopt_str (aux_error call))]\<rparr>"
  have jw: "journal_write [?e] s = (s', r)"
    using assms by (simp add: auxiliary_model_completed_def session_event_def)
  obtain p where "usage_pair (usage_to_dict (aux_usage call)) = Inr p"
    using usage_pair_total [of "aux_usage call"] unfolding is_ok_iff by (elim exE)
  then have "apply_event ?e c = (c\<lparr>sc_cache_usage := add_usage (sc_cache_usage c) p\<rparr>, None)" for c
    by (simp add: dispatch_usage apply_usage_def)
  with jw show ?thesis
    by (auto simp: journal_write_def sink_write_def split: option.splits prod.splits intro: exI [of _ "sc_cache_usage (ses_core s)"])
qed

lemma archive_call_frame:
  assumes "archive_call env cm k request s = (s', resp, r)"
  shows "(\<exists>u. ses_core s' = (ses_core s)\<lparr>sc_cache_usage := u\<rparr>) \<and> ses_current_turn_id s' = ses_current_turn_id s
    \<and> (\<exists>es. ses_journal s' = ses_journal s @ es \<and> length es \<le> 1)"
proof -
  obtain call r' where "auxiliary_model_completed (ae_stamp env k) call (pv_model_name (cm_provider cm)) None s = (s', r')"
    and "aux_task call = ''compression''"
    using assms by (auto simp: archive_call_def Let_def tracker_record_def split: prod.splits option.splits)
  then show ?thesis by (rule aux_compression)
qed

lemma archive_attempts_frame:
  "archive_attempts env cm request ks err s = (s', r) \<Longrightarrow>
   (\<exists>u. ses_core s' = (ses_core s)\<lparr>sc_cache_usage := u\<rparr>)
   \<and> (\<exists>es. ses_journal s' = ses_journal s @ es \<and> length es \<le> length ks)"
proof (induction env cm request ks err s arbitrary: s' r rule: archive_attempts.induct)
  case (1 env cm request err s)
  then show ?case by (auto intro: exI [of _ "sc_cache_usage (ses_core s)"])
next
  case (2 env cm request k ks err s)
  let ?rq = "case err of Some e \<Rightarrow> if 0 < k then archive_repair_request request e else request | None \<Rightarrow> request"
  let ?t = "ite_tokens (measure_input_tokens (ae_hash env) cm (ses_core s) ?rq)"
  show ?case
  proof (cases "?t > cl_hard_limit (cm_limits cm)")
    case True
    with 2(2) show ?thesis by (auto simp: Let_def intro: exI [of _ "sc_cache_usage (ses_core s)"])
  next
    case False
    obtain s1 resp v where call: "archive_call env cm k ?rq s = (s1, resp, v)" by (metis prod_cases3)
    from archive_call_frame [OF call] obtain u es where s1: "ses_core s1 = (ses_core s)\<lparr>sc_cache_usage := u\<rparr>"
      and j1: "ses_journal s1 = ses_journal s @ es" "length es \<le> 1" by blast
    show ?thesis
    proof (cases "\<exists>x. v = Inl x \<and> is_value_error x \<and> resp \<noteq> None")
      case True
      then obtain x where x: "v = Inl x" "is_value_error x" "resp \<noteq> None" by blast
      with 2(2) False call have "archive_attempts env cm request ks (Some (exn_str x)) s1 = (s', r)"
        by (simp add: Let_def)
      from 2(1) [OF refl refl False call [symmetric] refl x(1) conjI [OF x(2,3)] this] s1 j1 show ?thesis by fastforce
    next
      case no: False
      with 2(2) False call have "s' = s1" by (cases v) (auto simp: Let_def split: if_splits)
      with s1 j1 show ?thesis by fastforce
    qed
  qed
qed

lemma set_archived_summary_core:
  assumes "set_archived_summary st summary n s = (s', None)"
  shows "ses_core s' = (ses_core s)\<lparr>sc_input_token_anchor := None, sc_archived_summary := Some summary,
    sc_archived_item_cursor := max 0 (min n (int (length (sc_items (ses_core s))))),
    sc_compression_count := sc_compression_count (ses_core s) + 1\<rparr>"
proof -
  have "ses_core s1 = ses_core s" if "sink_write es s = (s1, r)" for es s1 r
    using that by (auto simp: sink_write_def split: option.splits)
  with assms show ?thesis
    by (auto simp: set_archived_summary_def Let_def session_event_def journal_write_def dispatch_archived
        apply_archived_def jget_strs split: prod.splits option.splits)
qed

lemma set_archived_summary_fails:
  assumes "set_archived_summary st summary n s = (s', Some x)" shows "s' = s"
  using run_op_result [of "Op_archive st summary n" s s' "Some x"] assms by (simp add: op_result_def)

text \<open>
  C35. Compression archives whole units and keeps the recent ones. When \<open>archive\<close> succeeds with something
  to archive, the units that remain are exactly the ones behind the archived ones, so that no unit is
  split, the visible ones among them are the last \<open>keep_recent_units\<close> visible units, the items are
  untouched, and the compression count goes up by one. When it raises, summary, cursor, items and
  count are unchanged.
\<close>

theorem archive_keeps_recent_units:
  assumes "session_reachable s" and "1 \<le> cl_keep_recent_units (cm_limits cm)"
    and "archivable_units cm (ses_core s) \<noteq> []" and "archive env cm request s = (s', r)"
  shows "(case r of
      Inr n \<Rightarrow> current_units (ses_core s) = archivable_units cm (ses_core s) @ current_units (ses_core s')
        \<and> visible_units (current_units (ses_core s')) =
            drop (length (visible_units (current_units (ses_core s))) - cl_keep_recent_units (cm_limits cm))
              (visible_units (current_units (ses_core s)))
        \<and> n = int (cx_end (last (archivable_units cm (ses_core s))))
        \<and> sc_compression_count (ses_core s') = sc_compression_count (ses_core s) + 1
    | Inl x \<Rightarrow> sc_archived_summary (ses_core s') = sc_archived_summary (ses_core s)
        \<and> sc_archived_item_cursor (ses_core s') = sc_archived_item_cursor (ses_core s)
        \<and> sc_compression_count (ses_core s') = sc_compression_count (ses_core s))
    \<and> sc_items (ses_core s') = sc_items (ses_core s)"
proof -
  let ?c = "ses_core s" and ?arch = "archivable_units cm (ses_core s)"
  have ok: "cursor_ok ?c" using session_reachable_inv [OF assms(1)] by (simp add: session_inv_def)
  note tile = current_units_tile [OF ok]
  obtain u vs where split: "current_units ?c = ?arch @ u # vs"
    and vis: "visible_units (u # vs) = drop (length (visible_units (current_units ?c)) - cl_keep_recent_units (cm_limits cm))
      (visible_units (current_units ?c))"
    using archivable_split [OF tile assms(2)] assms(3) unfolding archivable_units_def by blast
  show ?thesis
  proof (cases "archive_request cm ?arch request")
    case (Inl x)
    with assms(3,4) show ?thesis by (auto simp: archive_def Let_def)
  next
    case (Inr rq)
    obtain s1 v where run: "archive_attempts env cm rq [0..<ARCHIVE_RETRY_COUNT + 1] None s = (s1, v)" by fastforce
    from archive_attempts_frame [OF run] obtain cu where s1: "ses_core s1 = ?c\<lparr>sc_cache_usage := cu\<rparr>" by blast
    show ?thesis
    proof (cases v)
      case (Inl x)
      with assms(3,4) Inr run s1 show ?thesis by (auto simp: archive_def Let_def)
    next
      case summary: (Inr summary)
      let ?n = "int (cx_end (last ?arch))"
      obtain s2 w where fin: "set_archived_summary (ae_stamp env (ARCHIVE_RETRY_COUNT + 1)) summary ?n s1 = (s2, w)" by fastforce
      show ?thesis
      proof (cases w)
        case (Some x)
        with fin set_archived_summary_fails have "s2 = s1" by blast
        with Some assms(3,4) Inr run summary fin s1 show ?thesis by (auto simp: archive_def Let_def)
      next
        case None
        have "cx_end (last ?arch) \<le> length (sc_items ?c)"
          using tiles_mem_bounds [OF tile, of "last ?arch"] split assms(3) by auto
        then have n: "max 0 (min ?n (int (length (sc_items ?c)))) = ?n" by simp
        have s2: "ses_core s2 = ?c\<lparr>sc_cache_usage := cu, sc_input_token_anchor := None, sc_archived_summary := Some summary,
            sc_archived_item_cursor := ?n, sc_compression_count := sc_compression_count ?c + 1\<rparr>"
          using set_archived_summary_core [OF fin [unfolded None]] s1 n by simp
        have "current_units (ses_core s2) = current_units (?c\<lparr>sc_archived_item_cursor := ?n\<rparr>)"
          unfolding s2 by (simp add: current_units_def unarchived_def)
        also have "\<dots> = u # vs" by (rule current_units_moved [OF ok split assms(3)])
        finally have cur: "current_units (ses_core s2) = u # vs" .
        have res: "s' = s2" "r = Inr ?n"
          using assms(3,4) Inr run summary fin None s2 by (simp_all add: archive_def Let_def)
        have "sc_items (ses_core s2) = sc_items ?c" "sc_compression_count (ses_core s2) = sc_compression_count ?c + 1"
          by (simp_all add: s2)
        with cur res split vis show ?thesis by simp
      qed
    qed
  qed
qed

lemma as_item_fields [simp]:
  "msg_role (as_item i m) = msg_role m" "msg_content (as_item i m) = msg_content m"
  "msg_timestamp (as_item i m) = msg_timestamp m" "msg_tool_calls (as_item i m) = msg_tool_calls m"
  "msg_tool_call_id (as_item i m) = msg_tool_call_id m" "msg_origin (as_item i m) = msg_origin m"
  "it_index (as_item i m) = i"
  by (simp_all add: as_item_def message.defs item.defs)

lemma plain_message_index [simp]: "it_index (plain_message r c) = None"
  by (simp add: plain_message_def)

lemma append_message_core:
  assumes "ses_sink s = None" and "ses_current_turn_id s = None" and "message_ok m"
  shows "append_message st m ''user_input'' s =
    (s\<lparr>ses_core := (ses_core s)\<lparr>sc_items := sc_items (ses_core s) @ [normal_message m]\<rparr>,
       ses_journal := ses_journal s @ [\<lparr>ev_seq = next_seq (ses_journal s), ev_id = fst st, ev_type = ''message_appended'',
         ev_turn_id = None, ev_timestamp = snd st, ev_tool_call_id = msg_tool_call_id m,
         ev_payload = [(''message'', JObj (message_to_dict True m))]\<rparr>]\<rparr>, None)"
  using assms message_decode [OF assms(3)]
  by (simp add: append_message_def session_event_def journal_write_def sink_write_def apply_event_def apply_message_def Let_def)

definition demo_chat :: session where
  "demo_chat = fst (append_message demo_stamp (demo_item ''user'' [] None) ''user_input''
     (fst (append_message demo_stamp (demo_item ''user'' [] None) ''user_input'' (attach_journal_sink None (new_session ''s'' None)))))"

lemma demo_item_ok: "message_ok (demo_item ''user'' [] None)"
  by (simp add: message_ok_def demo_item_def)

lemma demo_item_normal: "normal_message (demo_item ''user'' [] None) = demo_item ''user'' [] None"
  by (simp add: normal_message_def normal_content_def demo_item_def)

lemma demo_chat_core:
  "ses_core demo_chat = empty_core\<lparr>sc_items := [demo_item ''user'' [] None, demo_item ''user'' [] None]\<rparr>"
  "ses_sink demo_chat = None" "ses_current_turn_id demo_chat = None"
  unfolding demo_chat_def
  by (simp_all add: append_message_core demo_item_ok demo_item_normal new_session_def attach_journal_sink_def empty_core_def)

lemma demo_chat_reachable: "session_reachable demo_chat"
proof -
  have op: "op_ok (Op_add_item demo_stamp (demo_item ''user'' [] None) [] ''user_input'')"
    by (simp add: add_attachments_def demo_item_ok USER_SOURCES_def)
  have run: "run_op (Op_add_item demo_stamp (demo_item ''user'' [] None) [] ''user_input'') x
      = append_message demo_stamp (demo_item ''user'' [] None) ''user_input'' x" for x
    by (simp add: add_item_def add_attachments_def)
  have reach: "session_reachable (fst (append_message demo_stamp (demo_item ''user'' [] None) ''user_input'' x))"
    if "session_reachable x" for x
    using session_reachable.step [OF that op] by (metis prod.collapse run)
  show ?thesis unfolding demo_chat_def by (intro reach session_reachable.start)
qed

definition demo_provider :: llm_provider where
  "demo_provider = \<lparr>pv_identity = JNull, pv_model_name = None, pv_max_context_tokens = 1000,
     pv_max_output_tokens = None, pv_count_input_tokens = (\<lambda>_. 0)\<rparr>"

definition demo_manager :: context_manager where
  "demo_manager = \<lparr>cm_provider = demo_provider, cm_system_prompt = ''p'', cm_consolidator_prompt = ''c'',
     cm_output_reserve_tokens = 100, cm_max_generation_tokens = None, cm_media_root = None,
     cm_limits = \<lparr>cl_hard_limit = 900, cl_compression_enabled = True, cl_compression_threshold = 10,
       cl_keep_recent_units = 1, cl_user_anchor_token_budget = 10\<rparr>, cm_system_prompt_tokens = 0\<rparr>"

definition demo_env :: archive_env where
  "demo_env = \<lparr>ae_stream = (\<lambda>_ _. Inr \<lparr>rs_content = Some ''(nothing)'', rs_reasoning = None, rs_tool_calls = [],
       rs_usage = None, rs_provider_data = []\<rparr>),
     ae_timing = (\<lambda>_. (snd demo_stamp, 0)), ae_stamp = (\<lambda>_. demo_stamp), ae_hash = (\<lambda>_. [])\<rparr>"

definition demo_request :: llm_request where
  "demo_request = (empty_request ''p'')\<lparr>rq_messages := tag_items 0 (sc_items (ses_core demo_chat))\<rparr>"

lemma demo_units:
  "current_units (ses_core demo_chat) =
    [\<lparr>cx_start = 0, cx_end = 1, cx_messages = [as_item (Some 0) (demo_item ''user'' [] None)]\<rparr>,
     \<lparr>cx_start = 1, cx_end = 2, cx_messages = [as_item (Some 1) (demo_item ''user'' [] None)]\<rparr>]"
  "archivable_units demo_manager (ses_core demo_chat) =
    [\<lparr>cx_start = 0, cx_end = 1, cx_messages = [as_item (Some 0) (demo_item ''user'' [] None)]\<rparr>]"
proof -
  show u: "current_units (ses_core demo_chat) =
    [\<lparr>cx_start = 0, cx_end = 1, cx_messages = [as_item (Some 0) (demo_item ''user'' [] None)]\<rparr>,
     \<lparr>cx_start = 1, cx_end = 2, cx_messages = [as_item (Some 1) (demo_item ''user'' [] None)]\<rparr>]"
    by (simp add: current_units_def unarchived_def demo_chat_core empty_core_def demo_item_def calls_tools_def
        single_messages_def numeral_2_eq_2)
  show "archivable_units demo_manager (ses_core demo_chat) =
    [\<lparr>cx_start = 0, cx_end = 1, cx_messages = [as_item (Some 0) (demo_item ''user'' [] None)]\<rparr>]"
    by (simp add: archivable_units_def u archivable_of_def visible_units_def demo_manager_def)
qed

lemma demo_summary:
  "validated_archive_summary \<lparr>rs_content = Some ''(nothing)'', rs_reasoning = None, rs_tool_calls = [],
       rs_usage = None, rs_provider_data = []\<rparr> = Inr ''(nothing)''"
  by (simp add: validated_archive_summary_def py_strip_def py_rstrip_def py_rstrip_set_def py_lstrip_def py_space_def
      checkpoint_lines_def py_splitlines_def py_linebreak_def unfence_def open_fence_def)

lemma demo_archive_succeeds: "\<exists>s' n. archive demo_env demo_manager demo_request demo_chat = (s', Inr n)"
proof -
  have rq: "\<exists>rq. archive_request demo_manager (archivable_units demo_manager (ses_core demo_chat)) demo_request = Inr rq"
    unfolding archive_request_def demo_units demo_request_def empty_request_def
    by (simp add: provider_messages_def demo_chat_core same_object_def)
  then obtain rq where rq: "archive_request demo_manager (archivable_units demo_manager (ses_core demo_chat)) demo_request = Inr rq"
    by blast
  have ks: "[0..<ARCHIVE_RETRY_COUNT + 1] = 0 # [1..<6]" by (simp add: ARCHIVE_RETRY_COUNT_def upt_rec)
  let ?call = "tracker_record ''compression'' None 1 (snd demo_stamp, 0)
      (Some \<lparr>rs_content = Some ''(nothing)'', rs_reasoning = None, rs_tool_calls = [], rs_usage = None, rs_provider_data = []\<rparr>) None"
  obtain s1 r1 where aux: "auxiliary_model_completed demo_stamp ?call None None demo_chat = (s1, r1)" by fastforce
  have "op_result demo_chat s1 r1"
    by (rule run_op_result [of "Op_auxiliary demo_stamp ?call None None"]) (simp add: aux, simp add: tracker_record_def)
  then have r1: "r1 = None" "ses_sink s1 = None" by (auto simp: op_result_def demo_chat_core extends_def)
  have att: "archive_attempts demo_env demo_manager rq [0..<ARCHIVE_RETRY_COUNT + 1] None demo_chat = (s1, Inr ''(nothing)'')"
    unfolding ks using aux r1
    by (simp add: Let_def measure_input_tokens_def demo_chat_core empty_core_def demo_manager_def demo_provider_def
        archive_call_def demo_env_def demo_summary)
  obtain s2 r2 where fin: "set_archived_summary demo_stamp ''(nothing)'' (int (cx_end (last (archivable_units demo_manager (ses_core demo_chat))))) s1 = (s2, r2)"
    by fastforce
  have "r2 = None"
    using run_op_result [of "Op_archive demo_stamp ''(nothing)'' (int (cx_end (last (archivable_units demo_manager (ses_core demo_chat)))))" s1 s2 r2]
      fin r1 by (auto simp: op_result_def)
  with fin att rq show ?thesis by (simp add: archive_def demo_units Let_def demo_env_def)
qed

theorem archive_keeps_recent_units_witness:
  "\<exists>s' n. archive demo_env demo_manager demo_request demo_chat = (s', Inr n)
    \<and> map cx_start (current_units (ses_core s')) = [1] \<and> n = 1"
proof -
  obtain s' n where run: "archive demo_env demo_manager demo_request demo_chat = (s', Inr n)"
    using demo_archive_succeeds by blast
  have "1 \<le> cl_keep_recent_units (cm_limits demo_manager)" by (simp add: demo_manager_def)
  from archive_keeps_recent_units [OF demo_chat_reachable this _ run]
  have "current_units (ses_core demo_chat) = archivable_units demo_manager (ses_core demo_chat) @ current_units (ses_core s')"
    and "n = 1" by (simp_all add: demo_units)
  then have "map cx_start (current_units (ses_core demo_chat)) =
      map cx_start (archivable_units demo_manager (ses_core demo_chat)) @ map cx_start (current_units (ses_core s'))"
    by (metis map_append)
  with run \<open>n = 1\<close> show ?thesis by (simp add: demo_units)
qed

section \<open>The archive boundary in a request\<close>

lemma through_object_hit:
  assumes "\<forall>y \<in> set pre. \<not> same_object y x" and "same_object z x"
  shows "through_object x (pre @ z # post) = Some (pre @ [z])"
  using assms by (induction pre) auto

lemma tag_items_mem: "x \<in> set (tag_items k ms) \<Longrightarrow> \<exists>i. it_index x = Some i \<and> k \<le> i"
  by (induction ms arbitrary: k) (auto, force)

lemma tag_items_distinct: "distinct (map it_index (tag_items k ms))"
  by (induction ms arbitrary: k) (auto dest: tag_items_mem)

definition calls_distinct :: "'a message_scheme \<Rightarrow> bool" where
  "calls_distinct m \<longleftrightarrow> distinct (map tc_id (msg_tool_calls m))"

lemma batch_messages_distinct:
  assumes "distinct (m # ms)" and "calls_distinct m"
  shows "distinct (batch_messages m ms)"
proof -
  let ?calls = "map tc_id (msg_tool_calls m)"
  let ?found = "batch_found ?calls ms []"
  let ?f = "\<lambda>c. the (map_of ?found c)"
  have key: "msg_tool_call_id (?f c) = Some c" and mem: "?f c \<in> set ms" if "map_of ?found c \<noteq> None" for c
    using that batch_found_keys [of "[]" ?calls ms] batch_found_set [of ?calls ms "[]"]
    by (fastforce dest: map_of_SomeD)+
  show ?thesis
  proof (cases "\<forall>c \<in> set ?calls. map_of ?found c \<noteq> None")
    case all: True
    have "inj_on ?f (set ?calls)" using all key by (intro inj_onI) (metis option.inject)
    then have "distinct (map ?f ?calls)" using assms(2) by (simp add: calls_distinct_def distinct_map del: map_map)
    moreover have "set (map ?f ?calls) \<inter> set (batch_trailing ?calls ms) = {}"
      using key all by (fastforce simp: batch_trailing_def answers_def)
    moreover have "set (map ?f ?calls) \<subseteq> set ms" using mem all by fastforce
    then have "m \<notin> set (map ?f ?calls)" using assms(1) by (meson distinct.simps(2) subsetD)
    moreover have "m \<notin> set (batch_trailing ?calls ms)" "distinct (batch_trailing ?calls ms)"
      using assms(1) by (auto simp: batch_trailing_def)
    moreover have "batch_messages m ms = m # map ?f ?calls @ batch_trailing ?calls ms"
      using all by (simp add: batch_messages_def Let_def list_all_iff)
    ultimately show ?thesis by simp
  next
    case False
    then have "batch_messages m ms = []" by (auto simp: batch_messages_def Let_def list_all_iff)
    then show ?thesis by simp
  qed
qed

lemma project_set: "set (provider_messages (project_context_units i ms)) \<subseteq> set ms"
proof (induction i ms rule: project_context_units.induct)
  case (2 i m ms)
  show ?case
  proof (cases "calls_tools m")
    case True
    have "set (batch_messages m (takeWhile follows_batch ms)) \<subseteq> set (m # ms)"
      using batch_messages_set [of m "takeWhile follows_batch ms"] by (auto dest: set_takeWhileD)
    moreover have "set (provider_messages (project_context_units (i + 1 + length (takeWhile follows_batch ms)) (dropWhile follows_batch ms)))
        \<subseteq> set ms"
      using 2(1) [OF True refl refl] by (auto dest: set_dropWhileD)
    ultimately show ?thesis using True by (auto simp: Let_def provider_messages_def)
  next
    case False
    with 2(2) show ?thesis by (auto simp: single_messages_def provider_messages_def)
  qed
qed (simp add: provider_messages_def)

lemma project_distinct:
  "distinct ms \<Longrightarrow> \<forall>m \<in> set ms. calls_distinct m \<Longrightarrow> distinct (provider_messages (project_context_units i ms))"
proof (induction i ms rule: project_context_units.induct)
  case (2 i m ms)
  show ?case
  proof (cases "calls_tools m")
    case True
    let ?f = "takeWhile follows_batch ms" and ?r = "dropWhile follows_batch ms"
    have dj: "distinct ?f" "distinct ?r" "set ?f \<inter> set ?r = {}"
      using 2(3) distinct_append [of ?f ?r] by (simp_all add: distinct_takeWhile distinct_dropWhile)
    then have "distinct (batch_messages m ?f)"
      using 2(3,4) by (intro batch_messages_distinct) (auto dest: set_takeWhileD)
    moreover have "distinct (provider_messages (project_context_units (i + 1 + length ?f) ?r))"
      using 2(1) [OF True refl refl] 2(4) dj by (auto dest: set_dropWhileD)
    moreover have "set (batch_messages m ?f) \<inter> set (provider_messages (project_context_units (i + 1 + length ?f) ?r)) = {}"
      using batch_messages_set [of m ?f] project_set [of "i + 1 + length ?f" ?r] dj(3) 2(3)
      by (auto dest: set_dropWhileD)
    ultimately show ?thesis using True by (simp add: Let_def provider_messages_def)
  next
    case False
    with 2 project_set [of "i + 1" ms] show ?thesis by (auto simp: single_messages_def provider_messages_def)
  qed
qed (simp add: provider_messages_def)

lemma with_turn_context_objects:
  "y \<in> set (concat (map (with_turn_context lt) ms)) \<Longrightarrow> it_index y \<noteq> None \<Longrightarrow> y \<in> set ms"
  by (auto simp: with_turn_context_def turn_context_message_def split: if_splits option.splits)

text \<open>Where the last message of a list of tagged, distinct messages sits in its expanded form.\<close>

lemma boundary_in_context:
  assumes "distinct (map it_index (ms @ ms'))" and "ms \<noteq> []" and "\<forall>m \<in> set ms. it_index m \<noteq> None"
    and "\<forall>y \<in> set pre. it_index y = None \<or> it_index y \<notin> it_index ` set ms"
  shows "through_object (last ms) (pre @ concat (map (with_turn_context lt) (ms @ ms')) @ post)
    = Some (pre @ concat (map (with_turn_context lt) ms))"
proof -
  obtain ns x where ms: "ms = ns @ [x]" using assms(2) by (cases ms rule: rev_cases) auto
  let ?tc = "if is_user_authored x then turn_context_message lt x else []"
  let ?pre = "pre @ concat (map (with_turn_context lt) ns) @ ?tc"
  have "\<not> same_object y x" if y: "y \<in> set ?pre" for y
  proof
    assume same: "same_object y x"
    then have i: "it_index y \<noteq> None" "it_index y = it_index x" unfolding same_object_def by blast+
    then have "y \<notin> set ?tc" by (auto simp: turn_context_message_def split: option.splits)
    moreover have "y \<notin> set pre" using assms(4) i ms by auto
    ultimately have "y \<in> set (concat (map (with_turn_context lt) ns))" using y by (simp only: set_append Un_iff) blast
    then have "y \<in> set ns" using i(1) by (rule with_turn_context_objects)
    then have "it_index x \<in> it_index ` set ns" using i(2) by (metis image_eqI)
    then show False using assms(1) ms by simp
  qed
  moreover have "same_object x x" using assms(3) ms by (simp add: same_object_def)
  ultimately have "through_object x (?pre @ x # concat (map (with_turn_context lt) ms') @ post) = Some (?pre @ [x])"
    by (intro through_object_hit) auto
  then show ?thesis by (simp add: ms with_turn_context_def)
qed

lemma pinned_indices:
  assumes "pinned_current_turn lt c active anchors = Inr ms" and "\<forall>a \<in> set anchors. int (ua_item_index a) < n"
    and "y \<in> set ms"
  shows "it_index y = None \<or> (\<exists>i. it_index y = Some i \<and> int i < n)"
proof -
  from assms(1) obtain yss where yss: "res_list (pinned_message lt c) (filter (\<lambda>a. Some (ua_turn_id a) = active) anchors) = Inr yss"
    and ms: "ms = concat yss" by (auto simp: pinned_current_turn_def)
  from assms(3) ms obtain ys where ys: "ys \<in> set yss" "y \<in> set ys" by auto
  from res_list_set [OF yss ys(1)] obtain a where "a \<in> set anchors" "pinned_message lt c a = Inr ys" by auto
  with ys(2) assms(2) show ?thesis
    by (auto simp: pinned_message_def turn_context_message_def Let_def split: if_splits option.splits)
qed

lemma plain_indices:
  "y \<in> set (stable_context memory c) \<Longrightarrow> it_index y = None"
  "y \<in> set (historical_user_anchor lt active anchors) \<Longrightarrow> it_index y = None"
  by (auto simp: stable_context_def historical_user_anchor_def Let_def split: if_splits option.splits)

lemma tag_items_content: "x \<in> set (tag_items k ms) \<Longrightarrow> \<exists>m \<in> set ms. msg_tool_calls x = msg_tool_calls m"
  by (induction ms arbitrary: k) auto

lemma current_messages_tagged:
  assumes "cursor_ok c" and "\<And>m. m \<in> set (sc_items c) \<Longrightarrow> calls_distinct m"
  shows "distinct (map it_index (provider_messages (current_units c)))"
    and "\<forall>x \<in> set (provider_messages (current_units c)). \<exists>i. it_index x = Some i \<and> sc_archived_item_cursor c \<le> int i"
proof -
  let ?k = "nat (sc_archived_item_cursor c)"
  have sub: "set (provider_messages (current_units c)) \<subseteq> set (unarchived c)"
    by (simp add: current_units_def project_set)
  have tags: "distinct (map it_index (unarchived c))" by (simp add: unarchived_def Let_def tag_items_distinct)
  have "calls_distinct x" if "x \<in> set (unarchived c)" for x
    using tag_items_content [of x ?k "drop ?k (sc_items c)"] that assms(2)
    by (auto simp: unarchived_def Let_def calls_distinct_def dest: in_set_dropD)
  then have "distinct (provider_messages (current_units c))"
    using tags by (simp add: current_units_def project_distinct distinct_map)
  with sub tags show "distinct (map it_index (provider_messages (current_units c)))"
    by (simp add: distinct_map) (meson inj_on_subset)
  show "\<forall>x \<in> set (provider_messages (current_units c)). \<exists>i. it_index x = Some i \<and> sc_archived_item_cursor c \<le> int i"
    using sub tag_items_mem [of _ ?k "drop ?k (sc_items c)"] assms(1)
    by (fastforce simp: unarchived_def Let_def cursor_ok_def)
qed

text \<open>
  A fresh request always contains the archive boundary. Compressing the request that
  \<open>build_request\<close> made for the current state never fails to find it, and what is sent to the
  consolidator is that request cut right behind the last archived message, with the consolidator
  prompt appended: every archived message is included, unchanged, and no retained one.
\<close>

theorem archive_boundary_found:
  assumes "session_reachable s" and "1 \<le> cl_keep_recent_units (cm_limits cm)"
    and "archivable_units cm (ses_core s) \<noteq> []"
    and "\<And>m. m \<in> set (sc_items (ses_core s)) \<Longrightarrow> calls_distinct m"
    and "rst_core rst = ses_core s" and "build_request lt dumps cm rst tools = Inr rq"
  shows "\<exists>pre. archive_request cm (archivable_units cm (ses_core s)) rq =
      Inr (with_generation_limit (rq\<lparr>rq_messages := pre
        @ concat (map (with_turn_context lt) (provider_messages (archivable_units cm (ses_core s))))
        @ [plain_message ''user'' (CStr (cm_consolidator_prompt cm))]\<rparr>) (cm_provider cm) (cm_max_generation_tokens cm))
    \<and> prefix (pre @ concat (map (with_turn_context lt) (provider_messages (archivable_units cm (ses_core s))))) (rq_messages rq)
    \<and> (\<forall>m \<in> set pre. \<forall>i. it_index m = Some i \<longrightarrow> int i < sc_archived_item_cursor (ses_core s))"
proof -
  let ?c = "ses_core s" and ?arch = "archivable_units cm (ses_core s)"
  have ok: "cursor_ok ?c" using session_reachable_inv [OF assms(1)] by (simp add: session_inv_def)
  obtain u vs where split: "current_units ?c = ?arch @ u # vs" and ne: "provider_messages ?arch \<noteq> []"
    using archivable_split [OF current_units_tile [OF ok] assms(2)] assms(3) unfolding archivable_units_def by blast
  let ?ms = "provider_messages ?arch" and ?ms' = "provider_messages (u # vs)"
  have all: "provider_messages (current_units ?c) = ?ms @ ?ms'" by (simp add: split provider_messages_def)
  from assms(5,6) obtain anchors pinned where anchors: "archived_user_anchors lt cm ?c (rst_active rst) = Inr anchors"
    and pinned: "pinned_current_turn lt ?c (rst_active rst) anchors = Inr pinned"
    and rq: "rq_messages rq = (stable_context (rst_memory rst) ?c @ historical_user_anchor lt (rst_active rst) anchors @ pinned)
      @ concat (map (with_turn_context lt) (?ms @ ?ms')) @ dynamic_context dumps (rst_jobs rst) ?c"
    by (auto simp: build_request_def Let_def context_messages_def all)
  let ?pre = "stable_context (rst_memory rst) ?c @ historical_user_anchor lt (rst_active rst) anchors @ pinned"
  have old: "\<forall>a \<in> set anchors. int (ua_item_index a) < sc_archived_item_cursor ?c"
    using anchors by (auto simp: archived_user_anchors_def)
  have pre: "it_index y = None \<or> (\<exists>i. it_index y = Some i \<and> int i < sc_archived_item_cursor ?c)" if "y \<in> set ?pre" for y
    using that pinned_indices [OF pinned old, of y] plain_indices by auto
  note tagged = current_messages_tagged [OF ok assms(4), unfolded all]
  have "through_object (last ?ms) (?pre @ concat (map (with_turn_context lt) (?ms @ ?ms')) @ dynamic_context dumps (rst_jobs rst) ?c)
    = Some (?pre @ concat (map (with_turn_context lt) ?ms))"
    by (rule boundary_in_context) (use tagged ne pre in \<open>force+\<close>)
  then have "archive_request cm ?arch rq = Inr (with_generation_limit (rq\<lparr>rq_messages := ?pre
        @ concat (map (with_turn_context lt) ?ms) @ [plain_message ''user'' (CStr (cm_consolidator_prompt cm))]\<rparr>)
        (cm_provider cm) (cm_max_generation_tokens cm))"
    using ne by (simp add: archive_request_def rq)
  moreover have "prefix (?pre @ concat (map (with_turn_context lt) ?ms)) (rq_messages rq)" unfolding rq by simp
  moreover have "\<forall>m \<in> set ?pre. \<forall>i. it_index m = Some i \<longrightarrow> int i < sc_archived_item_cursor ?c" using pre by fastforce
  ultimately show ?thesis by blast
qed

definition demo_rst :: request_state where
  "demo_rst = \<lparr>rst_memory = None, rst_jobs = None, rst_core = ses_core demo_chat, rst_active = None\<rparr>"

theorem archive_boundary_found_witness:
  "\<exists>rq rq'. build_request (\<lambda>_. []) (\<lambda>_. []) demo_manager demo_rst [] = Inr rq
    \<and> archive_request demo_manager (archivable_units demo_manager (ses_core demo_chat)) rq = Inr rq'"
proof -
  have "\<exists>rq. build_request (\<lambda>_. []) (\<lambda>_. []) demo_manager demo_rst [] = Inr rq"
    by (simp add: build_request_def demo_rst_def archived_user_anchors_def selected_user_anchors_def turns_to_active_def
        demo_chat_core empty_core_def pinned_current_turn_def Let_def)
  then obtain rq where rq: "build_request (\<lambda>_. []) (\<lambda>_. []) demo_manager demo_rst [] = Inr rq" by blast
  have "1 \<le> cl_keep_recent_units (cm_limits demo_manager)" by (simp add: demo_manager_def)
  moreover have "archivable_units demo_manager (ses_core demo_chat) \<noteq> []" by (simp add: demo_units)
  moreover have "calls_distinct m" if "m \<in> set (sc_items (ses_core demo_chat))" for m
    using that by (auto simp: demo_chat_core calls_distinct_def demo_item_def)
  moreover have "rst_core demo_rst = ses_core demo_chat" by (simp add: demo_rst_def)
  ultimately show ?thesis using archive_boundary_found [OF demo_chat_reachable _ _ _ _ rq] rq by blast
qed

section \<open>Which user input is kept verbatim\<close>

lemma extend_anchors_form:
  "\<exists>k \<le> length ts. extend_anchors fits by_turn ts sel = concat (map by_turn (rev (take k ts))) @ sel
    \<and> (0 < k \<longrightarrow> fits (extend_anchors fits by_turn ts sel))
    \<and> (k < length ts \<longrightarrow> \<not> fits (by_turn (ts ! k) @ extend_anchors fits by_turn ts sel))"
proof (induction ts arbitrary: sel)
  case (Cons t ts)
  show ?case
  proof (cases "fits (by_turn t @ sel)")
    case False
    then show ?thesis by (intro exI [of _ 0]) simp
  next
    case True
    from Cons [of "by_turn t @ sel"] obtain k where k: "k \<le> length ts"
      "extend_anchors fits by_turn ts (by_turn t @ sel) = concat (map by_turn (rev (take k ts))) @ by_turn t @ sel"
      "0 < k \<longrightarrow> fits (extend_anchors fits by_turn ts (by_turn t @ sel))"
      "k < length ts \<longrightarrow> \<not> fits (by_turn (ts ! k) @ extend_anchors fits by_turn ts (by_turn t @ sel))" by blast
    have "fits (extend_anchors fits by_turn ts (by_turn t @ sel))" using k(2,3) True by (cases "k = 0") auto
    with k True show ?thesis by (intro exI [of _ "Suc k"]) simp
  qed
qed simp

text \<open>
  The user input that survives compression verbatim is a window of whole turns: the anchors of the
  turns from some point on up to the current one, never fewer than the last two turns. Beyond two
  turns the window fits the token budget, and it could not be extended by one more turn.
\<close>

theorem selected_anchors_window:
  assumes "selected_user_anchors lt cm c active = Inr anchors" and "turns_to_active c active = Inr ids"
  shows "\<exists>j. j \<le> length ids - 2
    \<and> anchors = concat (map (anchors_of_turn c) (drop j ids))
    \<and> (j < length ids - 2 \<longrightarrow> anchors_fit lt cm active anchors)
    \<and> (0 < j \<longrightarrow> \<not> anchors_fit lt cm active (anchors_of_turn c (ids ! (j - 1)) @ anchors))"
proof -
  define old where "old = take (length ids - 2) ids"
  define rec where "rec = drop (length ids - 2) ids"
  have ids: "ids = old @ rec" and len: "length old = length ids - 2" by (simp_all add: old_def rec_def)
  let ?sel = "concat (map (anchors_of_turn c) rec)"
  have a: "anchors = extend_anchors (anchors_fit lt cm active) (anchors_of_turn c) (rev old) ?sel"
    using assms by (simp add: selected_user_anchors_def Let_def old_def rec_def)
  obtain k where k: "k \<le> length old" "anchors = concat (map (anchors_of_turn c) (rev (take k (rev old)))) @ ?sel"
    "0 < k \<longrightarrow> anchors_fit lt cm active anchors"
    "k < length old \<longrightarrow> \<not> anchors_fit lt cm active (anchors_of_turn c (rev old ! k) @ anchors)"
    using extend_anchors_form [of "rev old" "anchors_fit lt cm active" "anchors_of_turn c" ?sel, folded a] by auto
  define j where "j = length old - k"
  have "rev (take k (rev old)) = drop j old" by (simp add: rev_take j_def)
  then have "rev (take k (rev old)) @ rec = drop j ids" using k(1) by (simp add: ids j_def)
  with k(2) have "anchors = concat (map (anchors_of_turn c) (drop j ids))" by (metis concat_append map_append)
  moreover have "rev old ! k = ids ! (j - 1)" if "0 < j" using that k(1) by (auto simp: rev_nth j_def ids nth_append)
  ultimately show ?thesis using k len by (intro exI [of _ j]) (auto simp: j_def)
qed

definition demo_turns :: session_core where
  "demo_turns = empty_core\<lparr>sc_turns := map (\<lambda>t. (t, \<lparr>tn_id = t, tn_status = ''completed'', tn_started_at = None,
     tn_finished_at = None, tn_error = None\<rparr>)) [''a'', ''b'', ''c''],
     sc_user_anchors := map (\<lambda>t. \<lparr>ua_turn_id = t, ua_content = CStr t, ua_timestamp = snd demo_stamp,
       ua_source = ''user_input'', ua_item_index = 0\<rparr>) [''a'', ''b'', ''c'']\<rparr>"

definition demo_costly :: context_manager where
  "demo_costly = demo_manager\<lparr>cm_provider := demo_provider\<lparr>pv_count_input_tokens := \<lambda>_. 11\<rparr>\<rparr>"

theorem selected_anchors_window_witness:
  "\<exists>anchors. selected_user_anchors (\<lambda>_. []) demo_costly demo_turns None = Inr anchors \<and> map ua_turn_id anchors = [''b'', ''c'']"
proof -
  let ?ids = "[''a'', ''b'', ''c'']"
  have ids: "turns_to_active demo_turns None = Inr ?ids" by (simp add: turns_to_active_def demo_turns_def)
  have "\<exists>anchors. selected_user_anchors (\<lambda>_. []) demo_costly demo_turns None = Inr anchors"
    unfolding selected_user_anchors_def ids res_bind.simps Let_def by (rule exI) (rule refl)
  then obtain anchors where a: "selected_user_anchors (\<lambda>_. []) demo_costly demo_turns None = Inr anchors" by blast
  from selected_anchors_window [OF a ids] obtain j where j: "j \<le> length ?ids - 2"
    "anchors = concat (map (anchors_of_turn demo_turns) (drop j ?ids))"
    "j < length ?ids - 2 \<longrightarrow> anchors_fit (\<lambda>_. []) demo_costly None anchors" by (elim exE conjE) (rule that)
  have "\<not> anchors_fit (\<lambda>_. []) demo_costly None xs" for xs
    by (simp add: anchors_fit_def demo_costly_def demo_manager_def)
  with j have "j = 1" by auto
  with a j show ?thesis by (simp add: anchors_of_turn_def demo_turns_def)
qed

section \<open>Checkpoints\<close>

text \<open>
  A stored checkpoint is always in the agreed format: it is exactly \<open>(nothing)\<close>, or it consists of one
  or more lines that each read \<open>- [mark] fact\<close> with one of the four marks and a fact without white
  space at its ends. A response that calls tools or is blank is never accepted.
\<close>

theorem checkpoint_format:
  assumes "validated_archive_summary response = Inr summary"
  shows "rs_tool_calls response = []
    \<and> (summary = ''(nothing)'' \<or>
       (\<exists>ls. ls \<noteq> [] \<and> summary = py_join [LF] ls \<and>
         (\<forall>l \<in> set ls. \<exists>mark \<in> set ARCHIVE_MARKS. \<exists>fact. fact_text fact \<and> l = ''- ['' @ mark @ ''] '' @ fact)))"
proof -
  obtain t where tools: "rs_tool_calls response = []" and t: "rs_content response = Some t" "py_strip t \<noteq> []"
    using assms by (auto simp: validated_archive_summary_def Let_def split: if_splits option.splits)
  then obtain ls where ls: "unfence (checkpoint_lines (py_strip t)) = Inr ls"
    and r: "ls = [''(nothing)''] \<and> summary = ''(nothing)'' \<or> (\<forall>l \<in> set ls. archive_line l) \<and> summary = py_join [LF] ls"
    using assms by (auto simp: validated_archive_summary_def Let_def list_ex_iff split: if_splits)
  have ne: "checkpoint_lines (py_strip t) \<noteq> []"
    using py_splitlines_nonblank [of "py_strip t"] t(2) by (auto simp: checkpoint_lines_def filter_empty_conv)
  have "length (butlast (tl xs)) \<noteq> 0" if "\<not> length xs < 3" for xs :: "string list" using that by simp
  then have "ls \<noteq> []" using ls ne by (fastforce simp: unfence_def split: if_splits)
  moreover have "\<exists>mark \<in> set ARCHIVE_MARKS. \<exists>fact. fact_text fact \<and> l = ''- ['' @ mark @ ''] '' @ fact" if "archive_line l" for l
    using that by (auto simp: archive_line_def Let_def list_ex_iff prefix_def) blast
  ultimately show ?thesis using tools r by blast
qed

theorem checkpoint_format_witness:
  "\<exists>summary. validated_archive_summary \<lparr>rs_content = Some (''```text'' @ [LF] @ ''- [durable] x'' @ [LF] @ ''```''), rs_reasoning = None,
      rs_tool_calls = [], rs_usage = None, rs_provider_data = []\<rparr> = Inr summary \<and> summary \<noteq> ''(nothing)'' \<and> summary \<noteq> []"
proof -
  let ?r = "\<lparr>rs_content = Some (''```text'' @ [LF] @ ''- [durable] x'' @ [LF] @ ''```''), rs_reasoning = None,
      rs_tool_calls = [], rs_usage = None, rs_provider_data = []\<rparr>"
  have v: "validated_archive_summary ?r = Inr ''- [durable] x''"
    by (simp add: validated_archive_summary_def py_strip_def py_rstrip_def py_rstrip_set_def py_lstrip_def py_space_def
        checkpoint_lines_def py_splitlines_def py_linebreak_def unfence_def open_fence_def archive_line_def ARCHIVE_MARKS_def
        fact_text_def)
  with checkpoint_format [OF v] show ?thesis by simp
qed

end
