(* ===== verification/Jobs.thy ===== *)
theory Jobs
  imports Session "HOL-Library.Multiset"
begin

text \<open>
  Turn-scoped background jobs (\<open>agent_core/jobs.py\<close>). The manager's methods and the two ends of a
  worker are atomic, as each holds the manager's lock; a run is any interleaving of them.

  A job's \<open>Future\<close> is pending until a worker of the pool takes it, and only a pending one can be
  cancelled (\<open>Future.cancel\<close>). The work itself, the clock, the subtraction of clock readings and
  the result normalizer are parameters. \<open>jm_published\<close> is what the update callback has been
  called with.
\<close>

section \<open>State\<close>

datatype fut = F_pending | F_running | F_cancelled | F_finished

record job =
  jb_id :: string
  jb_turn_id :: string
  jb_kind :: string
  jb_cancelled :: bool
  jb_details :: jobj
  jb_status :: string
  jb_future :: "fut option"
  jb_started_at :: "json option"
  jb_progress :: "jobj option"

record job_update =
  ju_job_id :: string
  ju_turn_id :: string
  ju_kind :: string
  ju_status :: string
  ju_details :: jobj
  ju_output :: json
  ju_error :: "tool_error option"

definition terminal_status :: "string \<Rightarrow> bool" where
  "terminal_status st \<longleftrightarrow> st \<in> set [''completed'', ''failed'', ''cancelled'']"

definition terminal :: "job_update \<Rightarrow> bool" where
  "terminal u = terminal_status (ju_status u)"

record job_snapshot =
  js_job_id :: string
  js_kind :: string
  js_status :: string
  js_details :: jobj
  js_elapsed :: json
  js_progress :: json
  js_error :: "string option"
  js_result_summary :: json
  js_cancel_requested :: bool

definition snapshot_to_dict :: "job_snapshot \<Rightarrow> jobj" where
  "snapshot_to_dict s =
     [(''job_id'', JStr (js_job_id s)), (''kind'', JStr (js_kind s)), (''status'', JStr (js_status s)),
      (''details'', JObj (js_details s)), (''elapsed_seconds'', js_elapsed s), (''progress'', js_progress s),
      (''error'', jopt_str (js_error s)), (''result_summary'', js_result_summary s),
      (''cancel_requested'', JBool (js_cancel_requested s))]"

record job_manager =
  jm_session :: session
  jm_jobs :: "(string, job) dict"
  jm_updates :: "job_update list"
  jm_closed :: bool
  jm_published :: "job_update list"

definition new_job_manager :: "session \<Rightarrow> job_manager" where
  "new_job_manager s = \<lparr>jm_session = s, jm_jobs = [], jm_updates = [], jm_closed = False, jm_published = []\<rparr>"

definition jopt_obj :: "jobj option \<Rightarrow> json" where
  "jopt_obj p = (case p of None \<Rightarrow> JNull | Some d \<Rightarrow> JObj d)"

section \<open>Operations\<close>

definition publish :: "job_update \<Rightarrow> job_manager \<Rightarrow> job_manager" where
  "publish u m = m\<lparr>jm_updates := jm_updates m @ [u], jm_published := jm_published m @ [u]\<rparr>"

definition put_job :: "job \<Rightarrow> job_manager \<Rightarrow> job_manager" where
  "put_job j m = m\<lparr>jm_jobs := AList.update (jb_id j) j (jm_jobs m)\<rparr>"

definition job_update_of :: "job \<Rightarrow> string \<Rightarrow> json \<Rightarrow> tool_error option \<Rightarrow> job_update" where
  "job_update_of j st out err = \<lparr>ju_job_id = jb_id j, ju_turn_id = jb_turn_id j, ju_kind = jb_kind j, ju_status = st,
     ju_details = jb_details j, ju_output = out, ju_error = err\<rparr>"

text \<open>\<open>executor_ok\<close>: the pool accepts the work. When it does not, the job is taken back; when the
  Session's journal refuses the event, nothing is taken back.\<close>

definition submit :: "stamp \<Rightarrow> string \<Rightarrow> exn option \<Rightarrow> string \<Rightarrow> string \<Rightarrow> jobj \<Rightarrow> job_manager \<Rightarrow> job_manager outcome" where
  "submit st jid executor_error kind turn_id details m =
     (if jm_closed m then (m, Some (RuntimeError ''job manager is closed''))
      else let j = \<lparr>jb_id = jid, jb_turn_id = turn_id, jb_kind = kind, jb_cancelled = False, jb_details = details,
             jb_status = ''submitted'', jb_future = None, jb_started_at = None, jb_progress = None\<rparr>;
           m1 = publish (job_update_of j ''submitted'' JNull None) (put_job j m) in
        case job_submitted st jid kind turn_id details (jm_session m1) of
          (s, Some x) \<Rightarrow> (m1\<lparr>jm_session := s\<rparr>, Some x)
        | (s, None) \<Rightarrow>
            (case executor_error of
               Some x \<Rightarrow> (m1\<lparr>jm_session := s, jm_jobs := AList.delete jid (jm_jobs m1),
                 jm_updates := filter (\<lambda>u. ju_job_id u \<noteq> jid) (jm_updates m1)\<rparr>, Some x)
             | None \<Rightarrow> (put_job (j\<lparr>jb_future := Some F_pending\<rparr>) (m1\<lparr>jm_session := s\<rparr>), None)))"

text \<open>What is passed to the end of a job: stamp of its event and reading of the clock.\<close>

type_synonym moment = "stamp \<times> json"

definition elapsed :: "(json \<Rightarrow> json \<Rightarrow> json) \<Rightarrow> json \<Rightarrow> json option \<Rightarrow> json" where
  "elapsed since now started = (case started of None \<Rightarrow> JFloat 0 0 | Some t \<Rightarrow> since now t)"

definition finish_locked ::
  "(json \<Rightarrow> json \<Rightarrow> json) \<Rightarrow> moment \<Rightarrow> job \<Rightarrow> string \<Rightarrow> json \<Rightarrow> tool_error option \<Rightarrow> json \<Rightarrow> job_manager
    \<Rightarrow> job_manager outcome" where
  "finish_locked since mo j status out err summary m =
     (let j1 = j\<lparr>jb_status := status\<rparr>; m1 = put_job j1 m in
      case job_finished (fst mo) (jb_id j) (jb_kind j) status (jb_turn_id j) (elapsed since (snd mo) (jb_started_at j))
          summary (jopt_obj (jb_progress j)) (map_option te_message err) (jm_session m1) of
        (s, Some x) \<Rightarrow> (m1\<lparr>jm_session := s\<rparr>, Some x)
      | (s, None) \<Rightarrow> (publish (job_update_of j1 status out err) (m1\<lparr>jm_session := s\<rparr>), None))"

text \<open>A worker of the pool takes a pending job.\<close>

definition worker_take :: "job \<Rightarrow> job_manager \<Rightarrow> job_manager" where
  "worker_take j m = put_job (j\<lparr>jb_future := Some F_running\<rparr>) m"

text \<open>The first block of \<open>_run\<close>.\<close>

definition worker_begin :: "(json \<Rightarrow> json \<Rightarrow> json) \<Rightarrow> moment \<Rightarrow> job \<Rightarrow> job_manager \<Rightarrow> job_manager outcome" where
  "worker_begin since mo j m =
     (if jb_cancelled j then finish_locked since mo (j\<lparr>jb_future := Some F_finished\<rparr>) ''cancelled'' JNull None JNull m
      else let j1 = j\<lparr>jb_status := ''running'', jb_started_at := Some (snd mo)\<rparr>; m1 = put_job j1 m in
        case job_started (fst mo) (jb_id j) (jb_kind j) (jb_turn_id j) (jm_session m1) of
          (s, Some x) \<Rightarrow> (m1\<lparr>jm_session := s\<rparr>, Some x)
        | (s, None) \<Rightarrow> (publish (job_update_of j1 ''running'' JNull None) (m1\<lparr>jm_session := s\<rparr>), None))"

definition report_progress :: "jobj \<Rightarrow> job \<Rightarrow> job_manager \<Rightarrow> job_manager" where
  "report_progress p j m = (if jb_status j = ''running'' then put_job (j\<lparr>jb_progress := Some p\<rparr>) m else m)"

text \<open>A \<open>JobOutput\<close>: plain JSON, or a \<open>ToolOutput\<close> with its attachments.\<close>

datatype job_output = Plain json | Tool_Output json "part list"

fun output_json :: "job_output \<Rightarrow> json" where
  "output_json (Plain v) = v"
| "output_json (Tool_Output v _) = v"

fun output_attachments :: "job_output \<Rightarrow> part list" where
  "output_attachments (Plain _) = []"
| "output_attachments (Tool_Output _ ps) = ps"

definition normalize_output :: "(tool_result \<Rightarrow> string res) option \<Rightarrow> job \<Rightarrow> job_output \<Rightarrow> json res" where
  "normalize_output normalizer j out =
     (case normalizer of
        None \<Rightarrow> Inr (output_json out)
      | Some f \<Rightarrow>
          if output_attachments out \<noteq> [] then Inl (ValueError ''background jobs cannot return image attachments'')
          else res_map JStr (f \<lparr>tr_tool_call_id = jb_id j, tr_name = jb_kind j, tr_output = output_json out, tr_error = None,
            tr_attachments = output_attachments out, tr_present_to_user = False, tr_executed = True, tr_hook_feedback = []\<rparr>))"

text \<open>How the work of a job ends: cooperatively cancelled, with an exception (its class name), or with
  an output and an optional summary.\<close>

datatype run_result = Run_cancelled | Run_raised string exn | Run_returned job_output json

definition worker_end ::
  "(json \<Rightarrow> json \<Rightarrow> json) \<Rightarrow> (tool_result \<Rightarrow> string res) option \<Rightarrow> (exn \<Rightarrow> string) \<Rightarrow> moment \<Rightarrow> run_result \<Rightarrow> job
    \<Rightarrow> job_manager \<Rightarrow> job_manager outcome" where
  "worker_end since normalizer class_name mo result j0 m =
     (let j = j0\<lparr>jb_future := Some F_finished\<rparr> in
      case result of
        Run_cancelled \<Rightarrow> finish_locked since mo j ''cancelled'' JNull None JNull m
      | Run_raised cls e \<Rightarrow>
          if jb_cancelled j then finish_locked since mo j ''cancelled'' JNull None JNull m
          else finish_locked since mo j ''failed'' JNull
            (Some \<lparr>te_type = cls, te_message = exn_str e, te_details = None\<rparr>) JNull m
      | Run_returned out summary \<Rightarrow>
          (case normalize_output normalizer j out of
             Inl e \<Rightarrow> finish_locked since mo j ''failed'' JNull
               (Some \<lparr>te_type = class_name e, te_message = exn_str e, te_details = None\<rparr>) summary m
           | Inr v \<Rightarrow> finish_locked since mo j ''completed'' v None summary m))"

definition drain_updates :: "string \<Rightarrow> job_manager \<Rightarrow> job_manager \<times> job_update list" where
  "drain_updates tid m =
     (let selected = filter (\<lambda>u. ju_turn_id u = tid) (jm_updates m);
          ended = map ju_job_id (filter terminal selected) in
      (m\<lparr>jm_updates := filter (\<lambda>u. ju_turn_id u \<noteq> tid) (jm_updates m),
         jm_jobs := filter (\<lambda>(k, _). k \<notin> set ended) (jm_jobs m)\<rparr>, selected))"

definition active_in :: "string \<Rightarrow> job_manager \<Rightarrow> bool" where
  "active_in tid m = list_ex (\<lambda>(k, j). jb_turn_id j = tid \<and> job_active (jb_status j)) (jm_jobs m)"

definition drain_terminal_state :: "string \<Rightarrow> job_manager \<Rightarrow> job_manager \<times> job_update list \<times> bool" where
  "drain_terminal_state tid m =
     (let selected = filter (\<lambda>u. ju_turn_id u = tid \<and> terminal u) (jm_updates m);
          ids = map ju_job_id selected;
          m1 = m\<lparr>jm_updates := filter (\<lambda>u. ju_job_id u \<notin> set ids) (jm_updates m),
                 jm_jobs := filter (\<lambda>(k, _). k \<notin> set ids) (jm_jobs m)\<rparr> in
      (m1, selected, active_in tid m1))"

definition snapshot_locked :: "(json \<Rightarrow> json \<Rightarrow> json) \<Rightarrow> json \<Rightarrow> string \<Rightarrow> job_manager \<Rightarrow> job_snapshot res" where
  "snapshot_locked since now jid m =
     (case map_of (sc_jobs (ses_core (jm_session m))) jid of
        None \<Rightarrow> Inl (ValueError (''unknown job_id: '' @ jid))
      | Some r \<Rightarrow>
          let j = map_of (jm_jobs m) jid in
          Inr \<lparr>js_job_id = jx_id r, js_kind = jx_kind r, js_status = jx_status r, js_details = jx_details r,
            js_elapsed = (case j of
                Some x \<Rightarrow> (case jb_started_at x of
                    Some t \<Rightarrow> if jb_status x = ''running'' then since now t else jx_elapsed r
                  | None \<Rightarrow> jx_elapsed r)
              | None \<Rightarrow> jx_elapsed r),
            js_progress = (case j of Some x \<Rightarrow> jopt_obj (jb_progress x) | None \<Rightarrow> jx_progress r),
            js_error = jx_error r, js_result_summary = jx_result_summary r,
            js_cancel_requested = (case j of Some x \<Rightarrow> job_active (jb_status x) \<and> jb_cancelled x | None \<Rightarrow> False)\<rparr>)"

definition list_jobs :: "(json \<Rightarrow> json \<Rightarrow> json) \<Rightarrow> json \<Rightarrow> job_manager \<Rightarrow> job_snapshot list res" where
  "list_jobs since now m =
     res_list (\<lambda>(k, j). snapshot_locked since now (jb_id j) m) (filter (\<lambda>(k, j). job_active (jb_status j)) (jm_jobs m))"

text \<open>\<open>future.cancel()\<close> succeeds exactly on a pending (or already cancelled) future.\<close>

definition cancel_locked :: "(json \<Rightarrow> json \<Rightarrow> json) \<Rightarrow> moment \<Rightarrow> job \<Rightarrow> job_manager \<Rightarrow> job_manager outcome" where
  "cancel_locked since mo j m =
     (if job_active (jb_status j) then
        if jb_future j = Some F_pending \<or> jb_future j = Some F_cancelled
        then finish_locked since mo (j\<lparr>jb_cancelled := True, jb_future := Some F_cancelled\<rparr>) ''cancelled'' JNull None JNull m
        else (put_job (j\<lparr>jb_cancelled := True\<rparr>) m, None)
      else (m, None))"

definition cancel_job :: "(json \<Rightarrow> json \<Rightarrow> json) \<Rightarrow> moment \<Rightarrow> string \<Rightarrow> job_manager \<Rightarrow> job_manager \<times> job_snapshot res" where
  "cancel_job since mo jid m =
     (case snapshot_locked since (snd mo) jid m of
        Inl x \<Rightarrow> (m, Inl x)
      | Inr snap \<Rightarrow>
          if job_active (js_status snap)
          then (case map_of (jm_jobs m) jid of
              None \<Rightarrow> (m, Inl (KeyError jid))
            | Some j \<Rightarrow> (case cancel_locked since mo j m of
                (m', Some x) \<Rightarrow> (m', Inl x)
              | (m', None) \<Rightarrow> (m', snapshot_locked since (snd mo) jid m')))
          else (m, Inr snap))"

text \<open>\<open>cancel_turn\<close> goes through the jobs of the turn as they were when it took the lock.\<close>

fun cancel_all :: "(json \<Rightarrow> json \<Rightarrow> json) \<Rightarrow> (nat \<Rightarrow> moment) \<Rightarrow> nat \<Rightarrow> job list \<Rightarrow> job_manager \<Rightarrow> job_manager outcome" where
  "cancel_all since mos k [] m = (m, None)"
| "cancel_all since mos k (j # js) m =
     (case cancel_locked since (mos k) j m of
        (m', None) \<Rightarrow> cancel_all since mos (Suc k) js m'
      | r \<Rightarrow> r)"

definition cancel_turn :: "(json \<Rightarrow> json \<Rightarrow> json) \<Rightarrow> (nat \<Rightarrow> moment) \<Rightarrow> string \<Rightarrow> job_manager \<Rightarrow> job_manager outcome" where
  "cancel_turn since mos tid m =
     cancel_all since mos 0 (filter (\<lambda>j. jb_turn_id j = tid) (map snd (jm_jobs m))) m"

definition wait_for_update :: "string \<Rightarrow> job_manager \<Rightarrow> bool" where
  "wait_for_update tid m = list_ex (\<lambda>u. ju_turn_id u = tid \<and> terminal u) (jm_updates m)"

text \<open>The part of \<open>close\<close> under the lock: no job is accepted any more; the turns to cancel and wait for.\<close>

definition close_manager :: "job_manager \<Rightarrow> job_manager \<times> string list" where
  "close_manager m =
     (if jm_closed m then (m, [])
      else (m\<lparr>jm_closed := True\<rparr>,
            remdups (map (jb_turn_id \<circ> snd) (filter (\<lambda>(k, j). job_active (jb_status j)) (jm_jobs m)))))"

section \<open>The Session's side of a job\<close>

text \<open>A journal that accepts every event: no sink, or one that never raises.\<close>

definition accepting :: "session \<Rightarrow> bool" where
  "accepting s \<longleftrightarrow> (\<forall>k es. ses_sink s = Some k \<longrightarrow> k es = None)"

lemma session_event_accepted:
  assumes "accepting s"
    and "\<And>n. apply_event \<lparr>ev_seq = n, ev_id = fst st, ev_type = ty, ev_turn_id = tid, ev_timestamp = snd st,
      ev_tool_call_id = cid, ev_payload = p\<rparr> (ses_core s) = (c, None)"
  shows "\<exists>s'. session_event st ty tid p cid s = (s', None) \<and> accepting s' \<and> ses_core s' = c"
  using assms by (cases "ses_sink s") (auto simp: session_event_def journal_write_def sink_write_def accepting_def)

lemma job_submitted_accepted:
  assumes "accepting s"
  shows "\<exists>s' r. job_submitted st jid kind tid det s = (s', None) \<and> accepting s'
    \<and> sc_jobs (ses_core s') = AList.update jid r (sc_jobs (ses_core s))
    \<and> jx_status r = ''submitted'' \<and> jx_turn_id r = tid \<and> jx_kind r = kind"
proof -
  let ?r = "(new_job jid tid kind ''submitted'')\<lparr>jx_submitted_at := Some (snd st), jx_details := det\<rparr>"
  have "apply_event \<lparr>ev_seq = n, ev_id = fst st, ev_type = ''job_submitted'', ev_turn_id = Some tid, ev_timestamp = snd st,
      ev_tool_call_id = None, ev_payload = [(''job_id'', JStr jid), (''kind'', JStr kind), (''status'', JStr ''submitted''),
        (''details'', JObj det)]\<rparr> (ses_core s) = (set_job jid ?r (ses_core s), None)" for n
    by (simp add: apply_event_def TOOL_END_EVENTS_def with_job_def jget_str_def apply_job_submitted_def str_field_def)
  from session_event_accepted [OF assms this] show ?thesis
    by (fastforce simp: job_submitted_def set_job_def new_job_def)
qed

lemma job_started_accepted:
  assumes "accepting s" and "map_of (sc_jobs (ses_core s)) jid = Some r"
  shows "\<exists>s' r'. job_started st jid kind tid s = (s', None) \<and> accepting s'
    \<and> sc_jobs (ses_core s') = AList.update jid r' (sc_jobs (ses_core s))
    \<and> jx_status r' = ''running'' \<and> jx_turn_id r' = jx_turn_id r \<and> jx_kind r' = jx_kind r"
proof -
  let ?r = "r\<lparr>jx_status := ''running'', jx_started_at := Some (snd st)\<rparr>"
  have "apply_event \<lparr>ev_seq = n, ev_id = fst st, ev_type = ''job_started'', ev_turn_id = Some tid, ev_timestamp = snd st,
      ev_tool_call_id = None, ev_payload = [(''job_id'', JStr jid), (''kind'', JStr kind), (''status'', JStr ''running'')]\<rparr>
      (ses_core s) = (set_job jid ?r (ses_core s), None)" for n
    by (simp add: dispatch_job_started with_job_def jget_str_def apply_job_started_def known_job_def assms(2))
  from session_event_accepted [OF assms(1) this] show ?thesis
    by (fastforce simp: job_started_def set_job_def)
qed

lemma job_finished_accepted:
  assumes "accepting s" and "map_of (sc_jobs (ses_core s)) jid = Some r" and "terminal_status status"
  shows "\<exists>s' r'. job_finished st jid kind status tid el rs pg err s = (s', None) \<and> accepting s'
    \<and> sc_jobs (ses_core s') = AList.update jid r' (sc_jobs (ses_core s))
    \<and> jx_status r' = status \<and> jx_turn_id r' = jx_turn_id r \<and> jx_kind r' = jx_kind r"
proof -
  let ?p = "[(''job_id'', JStr jid), (''kind'', JStr kind), (''status'', JStr status), (''elapsed_seconds'', el),
    (''result_summary'', rs), (''progress'', pg)] @ (case err of None \<Rightarrow> [] | Some m \<Rightarrow> [(''error'', JStr m)])"
  let ?r = "r\<lparr>jx_status := status, jx_completed_at := Some (snd st), jx_elapsed := el, jx_result_summary := rs,
    jx_progress := pg, jx_error := jget_str ?p ''error''\<rparr>"
  have ty: "''job_'' @ status \<in> set JOB_END_EVENTS" and st: "status \<in> set JOB_STATUSES"
    using assms(3) by (auto simp: terminal_status_def JOB_END_EVENTS_def JOB_STATUSES_def)
  have "apply_event \<lparr>ev_seq = n, ev_id = fst st, ev_type = ''job_'' @ status, ev_turn_id = Some tid, ev_timestamp = snd st,
      ev_tool_call_id = None, ev_payload = ?p\<rparr> (ses_core s) = (set_job jid ?r (ses_core s), None)" for n
    using dispatch_job_end [of "\<lparr>ev_seq = n, ev_id = fst st, ev_type = ''job_'' @ status, ev_turn_id = Some tid,
      ev_timestamp = snd st, ev_tool_call_id = None, ev_payload = ?p\<rparr>" "ses_core s"] ty st
    by (simp add: with_job_def jget_strs apply_job_finished_def known_job_def assms(2) job_status_field_def Let_def)
  from session_event_accepted [OF assms(1) this] show ?thesis
    by (fastforce simp: job_finished_def set_job_def)
qed

section \<open>The invariant\<close>

definition ended :: "string \<Rightarrow> job_update list \<Rightarrow> nat" where
  "ended jid us = length (filter (\<lambda>u. ju_job_id u = jid \<and> terminal u) us)"

definition phase_ok :: "job \<Rightarrow> bool" where
  "phase_ok j \<longleftrightarrow>
     (case jb_future j of
        Some F_pending \<Rightarrow> jb_status j = ''submitted''
      | Some F_running \<Rightarrow> jb_status j = ''submitted'' \<or> jb_status j = ''running''
      | Some _ \<Rightarrow> terminal_status (jb_status j)
      | None \<Rightarrow> False)"

definition session_jobs :: "job_manager \<Rightarrow> (string, job_execution) dict" where
  "session_jobs m = sc_jobs (ses_core (jm_session m))"

definition job_inv :: "job_manager \<Rightarrow> string \<Rightarrow> job \<Rightarrow> bool" where
  "job_inv m jid j \<longleftrightarrow> jb_id j = jid \<and> phase_ok j
     \<and> (\<exists>r. map_of (session_jobs m) jid = Some r \<and> jx_status r = jb_status j \<and> jx_turn_id r = jb_turn_id j
          \<and> jx_kind r = jb_kind j)
     \<and> ended jid (jm_published m) = (if terminal_status (jb_status j) then 1 else 0)"

definition jm_inv :: "job_manager \<Rightarrow> job_update list \<Rightarrow> bool" where
  "jm_inv m d \<longleftrightarrow> accepting (jm_session m) \<and> dict_ok (jm_jobs m)
     \<and> (\<forall>jid j. map_of (jm_jobs m) jid = Some j \<longrightarrow> job_inv m jid j)
     \<and> (\<forall>u \<in> set (jm_published m). \<exists>r. map_of (session_jobs m) (ju_job_id u) = Some r \<and> jx_turn_id r = ju_turn_id u)
     \<and> (\<forall>jid. ended jid (jm_published m) \<le> 1)
     \<and> (\<forall>u \<in> set (jm_published m). map_of (jm_jobs m) (ju_job_id u) = None \<longrightarrow> ended (ju_job_id u) (jm_published m) = 1)
     \<and> mset (filter terminal (jm_published m)) = mset (filter terminal (jm_updates m)) + mset (filter terminal d)
     \<and> set (jm_updates m) \<subseteq> set (jm_published m)"

lemma dict_update_twice: "AList.update k v (AList.update k w d) = AList.update k v d"
  by (induction d) auto

lemma put_job_session: "(put_job j m)\<lparr>jm_session := s\<rparr> = put_job j (m\<lparr>jm_session := s\<rparr>)"
  "jm_session (put_job j m) = jm_session m"
  by (simp_all add: put_job_def)

lemma phase_frame: "phase_ok (j\<lparr>jb_progress := p\<rparr>) = phase_ok j" "phase_ok (j\<lparr>jb_cancelled := b\<rparr>) = phase_ok j"
  by (simp_all add: phase_ok_def split: option.split fut.split)

lemma active_not_terminal: "job_active st \<Longrightarrow> \<not> terminal_status st"
  by (auto simp: job_active_def terminal_status_def)

text \<open>A job moves on, or is new: one update is published and manager and Session change alike.\<close>

lemma jm_inv_advance:
  assumes inv: "jm_inv m d" and acc: "accepting s'"
    and s': "sc_jobs (ses_core s') = AList.update jid r' (session_jobs m)"
    and j': "jb_id j' = jid" "phase_ok j'" "jx_status r' = jb_status j'" "jx_turn_id r' = jb_turn_id j'" "jx_kind r' = jb_kind j'"
    and u: "ju_job_id u = jid" "ju_turn_id u = jb_turn_id j'" "ju_status u = jb_status j'"
    and old: "ended jid (jm_published m) = 0"
    and turn: "\<And>r. map_of (session_jobs m) jid = Some r \<Longrightarrow> jx_turn_id r = jb_turn_id j'"
  shows "jm_inv (publish u (put_job j' (m\<lparr>jm_session := s'\<rparr>))) d"
proof -
  let ?m = "publish u (put_job j' (m\<lparr>jm_session := s'\<rparr>))"
  have [simp]: "session_jobs ?m = AList.update jid r' (session_jobs m)" "jm_jobs ?m = AList.update jid j' (jm_jobs m)"
    "jm_published ?m = jm_published m @ [u]" "jm_updates ?m = jm_updates m @ [u]" "jm_session ?m = s'"
    using s' j'(1) by (simp_all add: publish_def put_job_def session_jobs_def)
  have e: "ended k (jm_published m @ [u]) = ended k (jm_published m) + (if k = jid \<and> terminal u then 1 else 0)" for k
    using u(1) by (auto simp: ended_def)
  have "job_inv ?m k j" if "map_of (jm_jobs ?m) k = Some j" for k j
  proof (cases "k = jid")
    case True
    with that have "j = j'" by simp
    show ?thesis unfolding True \<open>j = j'\<close> using j' u old by (simp add: job_inv_def e terminal_def)
  next
    case False
    with that inv have "job_inv m k j" by (simp add: jm_inv_def)
    with False show ?thesis by (simp add: job_inv_def e)
  qed
  moreover have "\<forall>v \<in> set (jm_published ?m). \<exists>r. map_of (session_jobs ?m) (ju_job_id v) = Some r \<and> jx_turn_id r = ju_turn_id v"
    using inv j'(4) u turn by (fastforce simp: jm_inv_def)
  moreover have "\<forall>k. ended k (jm_published ?m) \<le> 1" using inv old by (auto simp: jm_inv_def e)
  moreover have "\<forall>v \<in> set (jm_published ?m). map_of (jm_jobs ?m) (ju_job_id v) = None \<longrightarrow>
      ended (ju_job_id v) (jm_published ?m) = 1"
    using inv u(1) by (auto simp: jm_inv_def e)
  ultimately show ?thesis using inv acc by (auto simp: jm_inv_def)
qed

text \<open>A change of a job that is not visible in its status.\<close>

lemma jm_inv_put:
  assumes inv: "jm_inv m d" and j: "map_of (jm_jobs m) jid = Some j"
    and j': "jb_id j' = jid" "phase_ok j'" "jb_status j' = jb_status j" "jb_turn_id j' = jb_turn_id j" "jb_kind j' = jb_kind j"
  shows "jm_inv (put_job j' m) d"
proof -
  have [simp]: "session_jobs (put_job j' m) = session_jobs m" "jm_jobs (put_job j' m) = AList.update jid j' (jm_jobs m)"
    "jm_published (put_job j' m) = jm_published m" "jm_updates (put_job j' m) = jm_updates m"
    "jm_session (put_job j' m) = jm_session m"
    using j'(1) by (simp_all add: put_job_def session_jobs_def)
  have "job_inv (put_job j' m) k x" if "map_of (jm_jobs (put_job j' m)) k = Some x" for k x
    using that inv j j' by (auto simp: jm_inv_def job_inv_def split: if_splits)
  with inv show ?thesis by (auto simp: jm_inv_def)
qed

lemma jm_inv_job: "jm_inv m d \<Longrightarrow> map_of (jm_jobs m) jid = Some j \<Longrightarrow> job_inv m jid j"
  by (simp add: jm_inv_def)

text \<open>Ending an active job, whatever else of it changed.\<close>

lemma jm_inv_finish:
  assumes inv: "jm_inv m d" and j: "map_of (jm_jobs m) jid = Some j" and act: "job_active (jb_status j)"
    and same: "jb_id j1 = jb_id j" "jb_turn_id j1 = jb_turn_id j" "jb_kind j1 = jb_kind j"
    and fut: "jb_future j1 = Some F_cancelled \<or> jb_future j1 = Some F_finished" and st: "terminal_status status"
  shows "\<exists>m'. finish_locked since mo j1 status out err summary m = (m', None) \<and> jm_inv m' d
    \<and> map_of (jm_jobs m') jid = Some (j1\<lparr>jb_status := status\<rparr>)
    \<and> (\<forall>k. k \<noteq> jid \<longrightarrow> map_of (jm_jobs m') k = map_of (jm_jobs m) k)"
proof -
  let ?j = "j1\<lparr>jb_status := status\<rparr>"
  have ji: "job_inv m jid j" by (rule jm_inv_job [OF inv j])
  then obtain r where r: "map_of (session_jobs m) jid = Some r" "jx_turn_id r = jb_turn_id j" "jx_kind r = jb_kind j"
    by (auto simp: job_inv_def)
  have id: "jb_id j1 = jid" using ji same(1) by (simp add: job_inv_def)
  have "accepting (jm_session m)" using inv by (simp add: jm_inv_def)
  from job_finished_accepted [OF this r(1) [unfolded session_jobs_def] st] obtain s' r' where
    run: "job_finished (fst mo) jid (jb_kind j1) status (jb_turn_id j1) (elapsed since (snd mo) (jb_started_at j1)) summary
      (jopt_obj (jb_progress j1)) (map_option te_message err) (jm_session m) = (s', None)"
    and s': "accepting s'" "sc_jobs (ses_core s') = AList.update jid r' (session_jobs m)"
    and r': "jx_status r' = status" "jx_turn_id r' = jx_turn_id r" "jx_kind r' = jx_kind r"
    unfolding session_jobs_def by blast
  let ?m = "publish (job_update_of ?j status out err) (put_job ?j (m\<lparr>jm_session := s'\<rparr>))"
  have "finish_locked since mo j1 status out err summary m = (?m, None)"
    using run id by (simp add: finish_locked_def Let_def put_job_session)
  moreover have "jm_inv ?m d"
  proof (rule jm_inv_advance [OF inv s'])
    show "phase_ok ?j" using fut st by (auto simp: phase_ok_def)
    show "ended jid (jm_published m) = 0" using ji active_not_terminal [OF act] by (simp add: job_inv_def)
  qed (use id r r' same in \<open>auto simp: job_update_of_def\<close>)
  ultimately show ?thesis using id by (auto simp: publish_def put_job_def)
qed

section \<open>Runs\<close>

text \<open>
  A run interleaves the calls of the agent thread, the workers and other users of the Session;
  \<open>d\<close> collects what the drains returned. A submitted job gets a fresh identifier; a worker begins
  a job it has taken and ends a job it has begun.
\<close>

inductive jm_run :: "job_manager \<Rightarrow> job_update list \<Rightarrow> bool" where
  start: "accepting s \<Longrightarrow> jm_run (new_job_manager s) []"
| submit: "jm_run m d \<Longrightarrow> map_of (session_jobs m) jid = None \<Longrightarrow> submit st jid None kind tid det m = (m', None)
    \<Longrightarrow> jm_run m' d"
| take: "jm_run m d \<Longrightarrow> map_of (jm_jobs m) jid = Some j \<Longrightarrow> jb_future j = Some F_pending \<Longrightarrow> jm_run (worker_take j m) d"
| begin_job: "jm_run m d \<Longrightarrow> map_of (jm_jobs m) jid = Some j \<Longrightarrow> jb_future j = Some F_running
    \<Longrightarrow> jb_status j = ''submitted'' \<Longrightarrow> worker_begin since mo j m = (m', r) \<Longrightarrow> jm_run m' d"
| progress: "jm_run m d \<Longrightarrow> map_of (jm_jobs m) jid = Some j \<Longrightarrow> jm_run (report_progress p j m) d"
| end_job: "jm_run m d \<Longrightarrow> map_of (jm_jobs m) jid = Some j \<Longrightarrow> jb_status j = ''running''
    \<Longrightarrow> worker_end since normalizer class_name mo result j m = (m', r) \<Longrightarrow> jm_run m' d"
| cancel: "jm_run m d \<Longrightarrow> cancel_job since mo jid m = (m', r) \<Longrightarrow> jm_run m' d"
| cancel_turn: "jm_run m d \<Longrightarrow> cancel_turn since mos tid m = (m', r) \<Longrightarrow> jm_run m' d"
| drain: "jm_run m d \<Longrightarrow> drain_updates tid m = (m', us) \<Longrightarrow> jm_run m' (d @ us)"
| drain_terminal: "jm_run m d \<Longrightarrow> drain_terminal_state tid m = (m', us, pending) \<Longrightarrow> jm_run m' (d @ us)"
| close: "jm_run m d \<Longrightarrow> close_manager m = (m', tids) \<Longrightarrow> jm_run m' d"
| other: "jm_run m d \<Longrightarrow> accepting s \<Longrightarrow> sc_jobs (ses_core s) = session_jobs m \<Longrightarrow> jm_run (m\<lparr>jm_session := s\<rparr>) d"

lemma inv_submit:
  assumes inv: "jm_inv m d" and new: "map_of (session_jobs m) jid = None"
    and run: "submit st jid None kind tid det m = (m', None)"
  shows "jm_inv m' d"
proof -
  let ?j = "\<lparr>jb_id = jid, jb_turn_id = tid, jb_kind = kind, jb_cancelled = False, jb_details = det,
    jb_status = ''submitted'', jb_future = None, jb_started_at = None, jb_progress = None\<rparr>"
  let ?j' = "?j\<lparr>jb_future := Some F_pending\<rparr>" and ?u = "job_update_of ?j ''submitted'' JNull None"
  obtain s' r where s': "job_submitted st jid kind tid det (jm_session m) = (s', None)" "accepting s'"
    "sc_jobs (ses_core s') = AList.update jid r (session_jobs m)"
    and r: "jx_status r = ''submitted''" "jx_turn_id r = tid" "jx_kind r = kind"
    using job_submitted_accepted [of "jm_session m" st jid kind tid det] inv by (auto simp: jm_inv_def session_jobs_def)
  have m': "m' = publish ?u (put_job ?j' (m\<lparr>jm_session := s'\<rparr>))"
    using run s'(1) by (auto simp: submit_def Let_def publish_def put_job_def dict_update_twice split: if_splits)
  have "\<forall>u \<in> set (jm_published m). ju_job_id u \<noteq> jid" using inv new by (fastforce simp: jm_inv_def)
  then have "ended jid (jm_published m) = 0" by (simp add: ended_def filter_empty_conv)
  then show ?thesis unfolding m'
    by (intro jm_inv_advance [OF inv s'(2,3)]) (use r new in \<open>auto simp: phase_ok_def job_update_of_def\<close>)
qed

lemma inv_begin:
  assumes inv: "jm_inv m d" and j: "map_of (jm_jobs m) jid = Some j" "jb_future j = Some F_running" "jb_status j = ''submitted''"
    and run: "worker_begin since mo j m = (m', r)"
  shows "jm_inv m' d"
proof (cases "jb_cancelled j")
  case True
  let ?j1 = "j\<lparr>jb_future := Some F_finished\<rparr>"
  have "job_active (jb_status j)" using j by (simp add: job_active_def)
  from jm_inv_finish [OF inv j(1) this, of ?j1 "''cancelled''" since mo JNull None JNull] obtain m1 where
    "finish_locked since mo ?j1 ''cancelled'' JNull None JNull m = (m1, None)" "jm_inv m1 d"
    by (auto simp: terminal_status_def)
  with run True show ?thesis by (simp add: worker_begin_def)
next
  case False
  let ?j = "j\<lparr>jb_status := ''running'', jb_started_at := Some (snd mo)\<rparr>"
  have ji: "job_inv m jid j" by (rule jm_inv_job [OF inv j(1)])
  then obtain x where x: "map_of (session_jobs m) jid = Some x" "jx_turn_id x = jb_turn_id j" "jx_kind x = jb_kind j" and id: "jb_id j = jid"
    by (auto simp: job_inv_def)
  have "accepting (jm_session m)" using inv by (simp add: jm_inv_def)
  from job_started_accepted [OF this x(1) [unfolded session_jobs_def]]
  obtain s' r' where s': "job_started (fst mo) jid (jb_kind j) (jb_turn_id j) (jm_session m) = (s', None)" "accepting s'"
    "sc_jobs (ses_core s') = AList.update jid r' (session_jobs m)"
    and r': "jx_status r' = ''running''" "jx_turn_id r' = jx_turn_id x" "jx_kind r' = jx_kind x"
    unfolding session_jobs_def by blast
  have m': "m' = publish (job_update_of ?j ''running'' JNull None) (put_job ?j (m\<lparr>jm_session := s'\<rparr>))"
    using run False s'(1) id by (auto simp: worker_begin_def Let_def put_job_session)
  show ?thesis unfolding m'
  proof (rule jm_inv_advance [OF inv s'(2,3)])
    show "ended jid (jm_published m) = 0" using ji j(3) by (simp add: job_inv_def terminal_status_def)
  qed (use id x r' j in \<open>auto simp: phase_ok_def job_update_of_def\<close>)
qed

lemma inv_end:
  assumes inv: "jm_inv m d" and j: "map_of (jm_jobs m) jid = Some j" "jb_status j = ''running''"
    and run: "worker_end since normalizer class_name mo result j m = (m', r)"
  shows "jm_inv m' d"
proof -
  have "job_active (jb_status j)" using j by (simp add: job_active_def)
  moreover have "\<exists>st out err summary. finish_locked since mo (j\<lparr>jb_future := Some F_finished\<rparr>) st out err summary m = (m', r)
      \<and> terminal_status st"
    using run unfolding worker_end_def Let_def
    by (cases result) (auto simp: terminal_status_def split: sum.splits if_splits)
  then obtain st out err summary where f: "finish_locked since mo (j\<lparr>jb_future := Some F_finished\<rparr>) st out err summary m = (m', r)"
    and st: "terminal_status st" by blast
  ultimately show ?thesis
    using jm_inv_finish [OF inv j(1), of "j\<lparr>jb_future := Some F_finished\<rparr>" st since mo out err summary] by auto
qed

lemma inv_cancel_locked:
  assumes inv: "jm_inv m d" and j: "map_of (jm_jobs m) jid = Some j" and run: "cancel_locked since mo j m = (m', r)"
  shows "r = None \<and> jm_inv m' d \<and> (\<forall>k. k \<noteq> jid \<longrightarrow> map_of (jm_jobs m') k = map_of (jm_jobs m) k)
    \<and> (\<exists>j'. map_of (jm_jobs m') jid = Some j' \<and> jb_turn_id j' = jb_turn_id j
        \<and> (job_active (jb_status j') \<longrightarrow> jb_cancelled j' \<and> jb_future j' = Some F_running))"
proof (cases "job_active (jb_status j)")
  case act: True
  have id: "jb_id j = jid" and ph: "phase_ok j" using jm_inv_job [OF inv j] by (auto simp: job_inv_def)
  show ?thesis
  proof (cases "jb_future j = Some F_pending \<or> jb_future j = Some F_cancelled")
    case True
    let ?j1 = "j\<lparr>jb_cancelled := True, jb_future := Some F_cancelled\<rparr>"
    from jm_inv_finish [OF inv j act, of ?j1 "''cancelled''" since mo JNull None JNull] obtain m1 where
      "finish_locked since mo ?j1 ''cancelled'' JNull None JNull m = (m1, None)" "jm_inv m1 d"
      "map_of (jm_jobs m1) jid = Some (?j1\<lparr>jb_status := ''cancelled''\<rparr>)"
      "\<forall>k. k \<noteq> jid \<longrightarrow> map_of (jm_jobs m1) k = map_of (jm_jobs m) k"
      by (auto simp: terminal_status_def)
    with run act True show ?thesis by (auto simp: cancel_locked_def job_active_def)
  next
    case False
    let ?j1 = "j\<lparr>jb_cancelled := True\<rparr>"
    have "jb_future j = Some F_running"
      using ph False active_not_terminal [OF act] by (auto simp: phase_ok_def split: option.splits fut.splits)
    moreover have "jm_inv (put_job ?j1 m) d" 
      by (rule jm_inv_put [OF inv j]) (use id ph in \<open>auto simp: phase_frame\<close>)
    ultimately show ?thesis using run act False id by (auto simp: cancel_locked_def put_job_def)
  qed
next
  case False
  with run inv j show ?thesis by (auto simp: cancel_locked_def)
qed

lemma inv_cancel_job: "jm_inv m d \<Longrightarrow> cancel_job since mo jid m = (m', r) \<Longrightarrow> jm_inv m' d"
  by (auto simp: cancel_job_def split: sum.splits if_splits option.splits prod.splits dest: inv_cancel_locked)

text \<open>After the loop of \<open>cancel_turn\<close> no cancelled job is left that a worker has not taken.\<close>

lemma inv_cancel_all:
  assumes "jm_inv m d" and "cancel_all since mos k js m = (m', r)" and "distinct (map jb_id js)"
    and "\<forall>j \<in> set js. map_of (jm_jobs m) (jb_id j) = Some j"
  shows "r = None \<and> jm_inv m' d \<and> (\<forall>i. i \<notin> jb_id ` set js \<longrightarrow> map_of (jm_jobs m') i = map_of (jm_jobs m) i)
    \<and> (\<forall>j \<in> set js. \<exists>j'. map_of (jm_jobs m') (jb_id j) = Some j' \<and> jb_turn_id j' = jb_turn_id j
        \<and> (job_active (jb_status j') \<longrightarrow> jb_cancelled j' \<and> jb_future j' = Some F_running))"
  using assms
proof (induction js arbitrary: k m)
  case (Cons j js)
  obtain m1 r1 where one: "cancel_locked since (mos k) j m = (m1, r1)" by fastforce
  have j: "map_of (jm_jobs m) (jb_id j) = Some j" using Cons.prems(4) by simp
  note c = inv_cancel_locked [OF Cons.prems(1) j one]
  have rest: "cancel_all since mos (Suc k) js m1 = (m', r)" using Cons.prems(2) one c by simp
  have "\<forall>x \<in> set js. map_of (jm_jobs m1) (jb_id x) = Some x"
    using Cons.prems(3,4) c by (metis distinct.simps(2) image_eqI list.set_intros(2) list.simps(9) set_map)
  note ih = Cons.IH [OF _ rest _ this]
  have "jb_id j \<notin> jb_id ` set js" using Cons.prems(3) by simp
  with ih c Cons.prems(3) show ?case by auto
qed simp

lemma map_of_filter_keys: "map_of (filter (\<lambda>(k, _). P k) d) k = (if P k then map_of d k else None)"
  by (induction d) auto

lemma dict_ok_filter: "dict_ok d \<Longrightarrow> dict_ok (filter Q d)"
  unfolding dict_ok_def by (rule distinct_map_filter)

text \<open>Removing delivered updates and the jobs they end.\<close>

lemma inv_remove:
  assumes inv: "jm_inv m d" and sel: "selected = filter Q (jm_updates m)"
    and ends: "\<forall>u \<in> set ids. ended u (jm_published m) = 1"
    and keep: "mset (filter terminal (jm_updates m)) = mset (filter terminal selected) + mset (filter terminal (filter R (jm_updates m)))"
  shows "jm_inv (m\<lparr>jm_updates := filter R (jm_updates m), jm_jobs := filter (\<lambda>(k, _). k \<notin> set ids) (jm_jobs m)\<rparr>) (d @ selected)"
proof -
  let ?m = "m\<lparr>jm_updates := filter R (jm_updates m), jm_jobs := filter (\<lambda>(k, _). k \<notin> set ids) (jm_jobs m)\<rparr>"
  have [simp]: "session_jobs ?m = session_jobs m" by (simp add: session_jobs_def)
  have "job_inv ?m k j" if "map_of (jm_jobs ?m) k = Some j" for k j
    using that inv by (auto simp: map_of_filter_keys jm_inv_def job_inv_def split: if_splits)
  moreover have "map_of (jm_jobs ?m) (ju_job_id u) = None \<longrightarrow> ended (ju_job_id u) (jm_published ?m) = 1"
    if "u \<in> set (jm_published ?m)" for u
    using that inv ends by (auto simp: map_of_filter_keys jm_inv_def split: if_splits)
  moreover have "mset (filter terminal (jm_published ?m)) =
      mset (filter terminal (jm_updates ?m)) + mset (filter terminal (d @ selected))"
    using inv keep by (simp add: jm_inv_def ac_simps)
  moreover have "dict_ok (jm_jobs ?m)" using inv by (simp add: jm_inv_def dict_ok_filter)
  ultimately show ?thesis using inv by (auto simp: jm_inv_def)
qed

lemma ended_pos: "u \<in> set us \<Longrightarrow> terminal u \<Longrightarrow> 0 < ended (ju_job_id u) us"
  by (auto simp: ended_def filter_empty_conv)

lemma ended_one: "jm_inv m d \<Longrightarrow> u \<in> set (jm_updates m) \<Longrightarrow> terminal u \<Longrightarrow> ended (ju_job_id u) (jm_published m) = 1"
  using ended_pos [of u "jm_published m"] by (force simp: jm_inv_def le_Suc_eq)

lemma mset_filter_split: "mset (filter P xs) = mset (filter P (filter Q xs)) + mset (filter P (filter (\<lambda>x. \<not> Q x) xs))"
  by (induction xs) (simp_all del: mset_filter)

lemma inv_drain: "jm_inv m d \<Longrightarrow> drain_updates tid m = (m', us) \<Longrightarrow> jm_inv m' (d @ us)"
proof -
  assume inv: "jm_inv m d" and run: "drain_updates tid m = (m', us)"
  let ?sel = "filter (\<lambda>u. ju_turn_id u = tid) (jm_updates m)"
  have m': "m' = m\<lparr>jm_updates := filter (\<lambda>u. ju_turn_id u \<noteq> tid) (jm_updates m),
      jm_jobs := filter (\<lambda>(k, _). k \<notin> set (map ju_job_id (filter terminal ?sel))) (jm_jobs m)\<rparr>" and us: "us = ?sel"
    using run by (auto simp: drain_updates_def Let_def)
  show ?thesis unfolding m' us
  proof (rule inv_remove [OF inv refl])
    show "\<forall>i \<in> set (map ju_job_id (filter terminal ?sel)). ended i (jm_published m) = 1" using ended_one [OF inv] by auto
  qed (rule mset_filter_split)
qed

text \<open>The updates of one job belong to one turn, so a terminal drain removes no terminal update of
  another turn.\<close>

lemma inv_drain_terminal:
  assumes inv: "jm_inv m d" and run: "drain_terminal_state tid m = (m', us, pending)"
  shows "jm_inv m' (d @ us) \<and> pending = active_in tid m'
    \<and> us = filter (\<lambda>u. ju_turn_id u = tid \<and> terminal u) (jm_updates m)
    \<and> (\<forall>u \<in> set (jm_updates m'). ju_turn_id u = tid \<longrightarrow> \<not> terminal u)"
proof -
  let ?sel = "filter (\<lambda>u. ju_turn_id u = tid \<and> terminal u) (jm_updates m)"
  let ?ids = "map ju_job_id ?sel"
  have m': "m' = m\<lparr>jm_updates := filter (\<lambda>u. ju_job_id u \<notin> set ?ids) (jm_updates m),
      jm_jobs := filter (\<lambda>(k, _). k \<notin> set ?ids) (jm_jobs m)\<rparr>" and us: "us = ?sel" and p: "pending = active_in tid m'"
    using run by (auto simp: drain_terminal_state_def Let_def)
  have turn: "ju_turn_id u = ju_turn_id v" if "u \<in> set (jm_updates m)" "v \<in> set (jm_updates m)" "ju_job_id u = ju_job_id v" for u v
  proof -
    have "u \<in> set (jm_published m)" "v \<in> set (jm_published m)" using that inv by (auto simp: jm_inv_def)
    with inv obtain r r' where "map_of (session_jobs m) (ju_job_id u) = Some r" "jx_turn_id r = ju_turn_id u"
      "map_of (session_jobs m) (ju_job_id v) = Some r'" "jx_turn_id r' = ju_turn_id v" unfolding jm_inv_def by blast
    with that(3) show ?thesis by simp
  qed
  have mine: "(ju_job_id u \<in> set ?ids) = (ju_turn_id u = tid)" if "u \<in> set (jm_updates m)" "terminal u" for u
  proof
    assume "ju_job_id u \<in> set ?ids"
    then obtain v where "v \<in> set (jm_updates m)" "ju_turn_id v = tid" "ju_job_id u = ju_job_id v" by auto
    with turn [OF that(1) this(1,3)] show "ju_turn_id u = tid" by simp
  next
    assume "ju_turn_id u = tid"
    with that have "u \<in> set ?sel" by simp
    then show "ju_job_id u \<in> set ?ids" unfolding set_map by (rule imageI)
  qed
  have "filter terminal (filter (\<lambda>u. ju_job_id u \<notin> set ?ids) (jm_updates m)) =
      filter terminal (filter (\<lambda>u. \<not> (ju_turn_id u = tid \<and> terminal u)) (jm_updates m))"
    unfolding filter_filter by (rule filter_cong [OF refl]) (use mine in blast)
  then have keep: "mset (filter terminal (jm_updates m)) = mset (filter terminal ?sel)
      + mset (filter terminal (filter (\<lambda>u. ju_job_id u \<notin> set ?ids) (jm_updates m)))"
    using mset_filter_split [of terminal "jm_updates m" "\<lambda>u. ju_turn_id u = tid \<and> terminal u"] by simp
  have "\<forall>i \<in> set ?ids. ended i (jm_published m) = 1" using ended_one [OF inv] by auto
  from inv_remove [OF inv refl this keep] have "jm_inv m' (d @ us)" unfolding us m' .
  moreover have "\<forall>u \<in> set (jm_updates m'). ju_turn_id u = tid \<longrightarrow> \<not> terminal u" 
  proof (intro ballI impI notI)
    fix u assume u: "u \<in> set (jm_updates m')" "ju_turn_id u = tid" "terminal u"
    then have "u \<in> set (jm_updates m)" "ju_job_id u \<notin> set ?ids" unfolding m' by simp_all
    with mine u(2,3) show False by blast
  qed
  ultimately show ?thesis using us p by blast
qed

lemma turn_jobs_distinct: "jm_inv m d \<Longrightarrow> distinct (map jb_id (filter (\<lambda>j. jb_turn_id j = tid) (map snd (jm_jobs m))))"
  and turn_jobs_found: "jm_inv m d \<Longrightarrow>
    \<forall>j \<in> set (filter (\<lambda>j. jb_turn_id j = tid) (map snd (jm_jobs m))). map_of (jm_jobs m) (jb_id j) = Some j"
proof -
  assume inv: "jm_inv m d"
  have ids: "(k, j) \<in> set (jm_jobs m) \<Longrightarrow> jb_id j = k" for k j
    using inv by (auto simp: jm_inv_def dict_mem_get job_inv_def)
  then have "map jb_id (map snd (jm_jobs m)) = map fst (jm_jobs m)" by (auto simp: comp_def)
  then show "distinct (map jb_id (filter (\<lambda>j. jb_turn_id j = tid) (map snd (jm_jobs m))))"
    using inv by (metis dict_ok_def distinct_map_filter jm_inv_def)
  show "\<forall>j \<in> set (filter (\<lambda>j. jb_turn_id j = tid) (map snd (jm_jobs m))). map_of (jm_jobs m) (jb_id j) = Some j"
    using ids inv by (auto simp: jm_inv_def dict_mem_get)
qed

lemma inv_close_frame: "jm_inv (m\<lparr>jm_closed := b\<rparr>) d = jm_inv m d"
  by (simp add: jm_inv_def job_inv_def session_jobs_def)

lemma jm_run_inv: "jm_run m d \<Longrightarrow> jm_inv m d"
proof (induction rule: jm_run.induct)
  case (start s)
  then show ?case by (simp add: jm_inv_def new_job_manager_def ended_def)
next
  case (take m d jid j)
  then have "jb_id j = jid" "phase_ok j" using jm_inv_job by (auto simp: job_inv_def)
  with take show ?case unfolding worker_take_def
    by (intro jm_inv_put [of m d jid j]) (auto simp: phase_ok_def)
next
  case (progress m d jid j p)
  then have "jb_id j = jid" "phase_ok j" using jm_inv_job by (auto simp: job_inv_def)
  with progress show ?case
    by (auto simp: report_progress_def phase_frame intro!: jm_inv_put [of m d jid j])
next
  case (cancel_turn m d since mos tid m' r)
  from inv_cancel_all [OF cancel_turn.IH cancel_turn.hyps(2) [unfolded cancel_turn_def]
      turn_jobs_distinct [OF cancel_turn.IH] turn_jobs_found [OF cancel_turn.IH]] show ?case by blast
next
  case (close m d m' tids)
  then have "m' = m \<or> m' = m\<lparr>jm_closed := True\<rparr>" by (auto simp: close_manager_def split: if_splits)
  with close.IH show ?case by (auto simp: inv_close_frame)
next
  case (other m d s)
  then show ?case by (auto simp: jm_inv_def job_inv_def session_jobs_def)
next
  case submit then show ?case by (blast intro: inv_submit)
next
  case begin_job then show ?case by (blast intro: inv_begin)
next
  case end_job then show ?case by (blast intro: inv_end)
next
  case cancel then show ?case by (blast intro: inv_cancel_job)
next
  case drain then show ?case by (blast intro: inv_drain)
next
  case drain_terminal then show ?case by (blast dest: inv_drain_terminal)
qed

section \<open>What a run guarantees\<close>

text \<open>C33. However the calls of the agent thread and the workers interleave: no job is ever reported as
  ended twice; a job the manager still knows has been reported as ended exactly when its status is
  terminal; and its status, turn and kind are those the Session recorded.\<close>

theorem job_ends_once:
  assumes "jm_run m d"
  shows "ended jid (jm_published m) \<le> 1 \<and>
    (\<forall>j. map_of (jm_jobs m) jid = Some j \<longrightarrow>
       (ended jid (jm_published m) = 1 \<longleftrightarrow> terminal_status (jb_status j))
       \<and> (\<exists>r. map_of (session_jobs m) jid = Some r \<and> jx_status r = jb_status j \<and> jx_turn_id r = jb_turn_id j
            \<and> jx_kind r = jb_kind j))"
proof -
  have inv: "jm_inv m d" by (rule jm_run_inv [OF assms])
  then have "ended jid (jm_published m) \<le> 1" by (simp add: jm_inv_def)
  moreover have "job_inv m jid j" if "map_of (jm_jobs m) jid = Some j" for j by (rule jm_inv_job [OF inv that])
  ultimately show ?thesis by (simp add: job_inv_def)
qed

definition demo_since :: "json \<Rightarrow> json \<Rightarrow> json" where
  "demo_since a b = JFloat 0 0"

definition demo_moment :: moment where
  "demo_moment = (demo_stamp, JFloat 0 0)"

definition demo_submit :: job_manager where
  "demo_submit = fst (submit demo_stamp ''j'' None ''shell'' ''t'' [] (new_job_manager demo_session))"

definition demo_job :: "job_manager \<Rightarrow> job" where
  "demo_job m = the (map_of (jm_jobs m) ''j'')"

definition demo_begun :: job_manager where
  "demo_begun = (let m = worker_take (demo_job demo_submit) demo_submit in fst (worker_begin demo_since demo_moment (demo_job m) m))"

definition demo_done :: job_manager where
  "demo_done = fst (worker_end demo_since None (\<lambda>_. ''E'') demo_moment (Run_returned (Plain (JStr ''ok'')) JNull) (demo_job demo_begun) demo_begun)"

lemma demo_accepting: "accepting demo_session"
  by (simp add: accepting_def demo_eval)

text \<open>The run of the witnesses, evaluated step by step.\<close>

lemmas demo_job_eval = publish_def put_job_def new_job_manager_def Let_def session_jobs_def demo_job_def job_update_of_def
  demo_moment_def elapsed_def

lemma demo_session_jobs: "sc_jobs (ses_core demo_session) = []"
  by (simp add: demo_eval)

definition demo_pending :: job where
  "demo_pending = \<lparr>jb_id = ''j'', jb_turn_id = ''t'', jb_kind = ''shell'', jb_cancelled = False, jb_details = [],
     jb_status = ''submitted'', jb_future = Some F_pending, jb_started_at = None, jb_progress = None\<rparr>"

lemma demo_submit_eval:
  "submit demo_stamp ''j'' None ''shell'' ''t'' [] (new_job_manager demo_session) = (demo_submit, None)"
  "jm_jobs demo_submit = [(''j'', demo_pending)]" "accepting (jm_session demo_submit)"
  "\<exists>r. map_of (sc_jobs (ses_core (jm_session demo_submit))) ''j'' = Some r"
  using job_submitted_accepted [OF demo_accepting, of demo_stamp "''j''" "''shell''" "''t''" "[]"]
  by (auto simp: demo_submit_def submit_def demo_pending_def demo_job_eval)

abbreviation demo_taken :: job_manager where
  "demo_taken \<equiv> worker_take demo_pending demo_submit"

lemma demo_begun_eval:
  "jm_jobs demo_begun = [(''j'', demo_pending\<lparr>jb_future := Some F_running, jb_status := ''running'', jb_started_at := Some (JFloat 0 0)\<rparr>)]"
  "accepting (jm_session demo_begun)" "\<exists>r. map_of (sc_jobs (ses_core (jm_session demo_begun))) ''j'' = Some r"
proof -
  obtain r where "map_of (sc_jobs (ses_core (jm_session demo_submit))) ''j'' = Some r" using demo_submit_eval(4) by blast
  from job_started_accepted [OF demo_submit_eval(3) this, of demo_stamp "''shell''" "''t''"]
  show "jm_jobs demo_begun = [(''j'', demo_pending\<lparr>jb_future := Some F_running, jb_status := ''running'', jb_started_at := Some (JFloat 0 0)\<rparr>)]"
    "accepting (jm_session demo_begun)" "\<exists>r. map_of (sc_jobs (ses_core (jm_session demo_begun))) ''j'' = Some r"
    by (auto simp: demo_begun_def worker_take_def worker_begin_def demo_submit_eval demo_pending_def demo_job_eval)
qed

lemma demo_done_eval:
  "\<exists>j. jm_jobs demo_done = [(''j'', j)] \<and> jb_status j = ''completed''" 
proof -
  obtain r where "map_of (sc_jobs (ses_core (jm_session demo_begun))) ''j'' = Some r" using demo_begun_eval(3) by blast
  from job_finished_accepted [OF demo_begun_eval(2) this, of "''completed''" demo_stamp "''shell''" "''t''" "JFloat 0 0" JNull JNull None]
  show ?thesis
    by (auto simp: demo_done_def worker_end_def finish_locked_def normalize_output_def demo_begun_eval demo_pending_def demo_job_eval
      demo_since_def jopt_obj_def terminal_status_def)
qed

lemma demo_submit_run: "jm_run demo_submit []"
  by (rule jm_run.submit [OF jm_run.start [OF demo_accepting] _ demo_submit_eval(1)])
     (simp add: session_jobs_def new_job_manager_def demo_session_jobs)

lemma demo_begun_run: "jm_run demo_begun []"
proof -
  have run: "jm_run demo_taken []"
    by (rule jm_run.take [OF demo_submit_run, of "''j''"]) (simp_all add: demo_submit_eval(2) demo_pending_def)
  have j: "jm_jobs demo_taken = [(''j'', demo_pending\<lparr>jb_future := Some F_running\<rparr>)]"
    by (simp add: worker_take_def put_job_def demo_submit_eval demo_pending_def)
  have "worker_begin demo_since demo_moment (demo_pending\<lparr>jb_future := Some F_running\<rparr>) demo_taken
      = (demo_begun, snd (worker_begin demo_since demo_moment (demo_pending\<lparr>jb_future := Some F_running\<rparr>) demo_taken))"
    by (simp add: demo_begun_def Let_def demo_job_def demo_submit_eval(2) j)
  then show ?thesis
    by (rule jm_run.begin_job [OF run, of "''j''", rotated 3]) (simp_all add: j, simp_all add: demo_pending_def)
qed

lemma demo_done_run: "jm_run demo_done []"
proof (rule jm_run.end_job [OF demo_begun_run])
  let ?e = "worker_end demo_since None (\<lambda>_. ''E'') demo_moment (Run_returned (Plain (JStr ''ok'')) JNull) (demo_job demo_begun) demo_begun"
  show "map_of (jm_jobs demo_begun) ''j'' = Some (demo_job demo_begun)" "jb_status (demo_job demo_begun) = ''running''"
    by (simp_all add: demo_begun_eval(1) demo_job_def)
  show "?e = (demo_done, snd ?e)" by (simp add: demo_done_def)
qed

theorem job_ends_once_witness:
  "jm_run demo_done [] \<and> jb_status (demo_job demo_done) = ''completed'' \<and> ended ''j'' (jm_published demo_done) = 1"
  using job_ends_once [OF demo_done_run, of "''j''"] demo_done_run demo_done_eval
  by (auto simp: terminal_status_def demo_job_def)

text \<open>C34. Every terminal update that was published is still queued or was returned by exactly one
  drain, none is lost and none delivered twice; and when a terminal drain of a turn reports that
  nothing is pending, the turn has no active job left and no terminal update of it is queued.\<close>

theorem terminal_updates_delivered_once:
  assumes "jm_run m d"
  shows "mset (filter terminal (jm_published m)) = mset (filter terminal (jm_updates m)) + mset (filter terminal d)
    \<and> (\<forall>tid m' us. drain_terminal_state tid m = (m', us, False) \<longrightarrow>
         (\<forall>j \<in> set (map snd (jm_jobs m')). jb_turn_id j = tid \<longrightarrow> terminal_status (jb_status j))
         \<and> (\<forall>u \<in> set (jm_updates m'). ju_turn_id u = tid \<longrightarrow> \<not> terminal u))"
proof -
  have inv: "jm_inv m d" by (rule jm_run_inv [OF assms])
  have "terminal_status (jb_status j)"
    if run: "drain_terminal_state tid m = (m', us, False)" and j: "j \<in> set (map snd (jm_jobs m'))" "jb_turn_id j = tid" for tid m' us j
  proof -
    from inv_drain_terminal [OF inv run] have inv': "jm_inv m' (d @ us)" and none: "\<not> active_in tid m'" by blast+
    from j(1) obtain k where k: "(k, j) \<in> set (jm_jobs m')" by auto
    then have "map_of (jm_jobs m') k = Some j" using inv' by (simp add: jm_inv_def dict_mem_get)
    then have "phase_ok j" using jm_inv_job [OF inv'] by (simp add: job_inv_def)
    moreover have "\<not> job_active (jb_status j)" using none k j(2) by (fastforce simp: active_in_def list_ex_iff)
    ultimately show ?thesis by (auto simp: phase_ok_def job_active_def split: option.splits fut.splits)
  qed
  moreover have "\<not> terminal u" if "drain_terminal_state tid m = (m', us, False)" "u \<in> set (jm_updates m')" "ju_turn_id u = tid" for tid m' us u
    using inv_drain_terminal [OF inv that(1)] that(2,3) by blast
  ultimately show ?thesis using inv unfolding jm_inv_def by blast
qed

theorem terminal_updates_delivered_once_witness:
  "jm_run demo_done [] \<and> snd (snd (drain_terminal_state ''t'' demo_done)) = False
   \<and> filter (\<lambda>u. ju_turn_id u = ''t'' \<and> terminal u) (jm_updates (fst (drain_terminal_state ''t'' demo_done))) = []"
proof -
  have p: "snd (snd (drain_terminal_state ''t'' demo_done)) = False"
    using demo_done_eval by (auto simp: drain_terminal_state_def active_in_def Let_def job_active_def list_ex_iff)
  then have "drain_terminal_state ''t'' demo_done =
      (fst (drain_terminal_state ''t'' demo_done), fst (snd (drain_terminal_state ''t'' demo_done)), False)"
    by (metis prod.collapse)
  with terminal_updates_delivered_once [OF demo_done_run] p demo_done_run show ?thesis
    unfolding filter_empty_conv by blast
qed

text \<open>Cancelling a turn never fails while the journal accepts events, and leaves of the turn's jobs
  only those a worker has already taken, each with its cancellation requested; jobs of other turns are
  untouched.\<close>

theorem cancel_turn_complete:
  assumes "jm_run m d" and "cancel_turn since mos tid m = (m', r)"
  shows "r = None
    \<and> (\<forall>j \<in> set (map snd (jm_jobs m')). jb_turn_id j = tid \<longrightarrow> job_active (jb_status j) \<longrightarrow>
         jb_cancelled j \<and> jb_future j = Some F_running)
    \<and> (\<forall>k j. map_of (jm_jobs m) k = Some j \<longrightarrow> jb_turn_id j \<noteq> tid \<longrightarrow> map_of (jm_jobs m') k = Some j)"
proof -
  have inv: "jm_inv m d" by (rule jm_run_inv [OF assms(1)])
  let ?js = "filter (\<lambda>j. jb_turn_id j = tid) (map snd (jm_jobs m))"
  have c: "r = None" "jm_inv m' d" "\<And>i. i \<notin> jb_id ` set ?js \<Longrightarrow> map_of (jm_jobs m') i = map_of (jm_jobs m) i"
    "\<And>j. j \<in> set ?js \<Longrightarrow> \<exists>j'. map_of (jm_jobs m') (jb_id j) = Some j' \<and> jb_turn_id j' = jb_turn_id j
        \<and> (job_active (jb_status j') \<longrightarrow> jb_cancelled j' \<and> jb_future j' = Some F_running)"
    using inv_cancel_all [OF inv assms(2) [unfolded cancel_turn_def] turn_jobs_distinct [OF inv] turn_jobs_found [OF inv]] by blast+
  have own: "jb_id j = k" if "map_of (jm_jobs m) k = Some j" for k j using jm_inv_job [OF inv that] by (simp add: job_inv_def)
  have "jb_cancelled j \<and> jb_future j = Some F_running"
    if k: "map_of (jm_jobs m') k = Some j" and t: "jb_turn_id j = tid" and a: "job_active (jb_status j)" for k j
  proof (cases "k \<in> jb_id ` set ?js")
    case True
    then obtain x where x: "x \<in> set ?js" "jb_id x = k" by blast
    from c(4) [OF x(1)] x(2) k a show ?thesis by auto
  next
    case False
    then have old: "map_of (jm_jobs m) k = Some j" using c(3) k by simp
    then have "j \<in> set ?js" using t by (force dest: map_of_SomeD)
    with own [OF old] False show ?thesis by blast
  qed
  moreover have "map_of (jm_jobs m') k = Some j" if k: "map_of (jm_jobs m) k = Some j" and t: "jb_turn_id j \<noteq> tid" for k j
  proof -
    have "k \<notin> jb_id ` set ?js"
    proof
      assume "k \<in> jb_id ` set ?js"
      then obtain x where "x \<in> set ?js" "jb_id x = k" by blast
      then have "jb_turn_id x = tid" "map_of (jm_jobs m) k = Some x" using turn_jobs_found [OF inv, of tid] by auto
      with k t show False by simp
    qed
    with c(3) k show ?thesis by simp
  qed
  moreover have "dict_ok (jm_jobs m')" using c(2) by (simp add: jm_inv_def)
  then have "\<exists>k. map_of (jm_jobs m') k = Some j" if "j \<in> set (map snd (jm_jobs m'))" for j
    using that by (auto simp: dict_mem_get)
  ultimately show ?thesis using c(1) by blast
qed

theorem cancel_turn_complete_witness:
  "jm_run demo_submit [] \<and>
   (\<exists>m'. cancel_turn demo_since (\<lambda>_. demo_moment) ''t'' demo_submit = (m', None)
      \<and> map (\<lambda>(k, j). (k, jb_status j)) (jm_jobs m') = [(''j'', ''cancelled'')])"
proof -
  let ?c = "cancel_turn demo_since (\<lambda>_. demo_moment) ''t'' demo_submit"
  have "snd ?c = None" using cancel_turn_complete [OF demo_submit_run, of demo_since "\<lambda>_. demo_moment" "''t''" "fst ?c" "snd ?c"] by simp
  moreover have "map (\<lambda>(k, j). (k, jb_status j)) (jm_jobs (fst ?c)) = [(''j'', ''cancelled'')]"
  proof -
    obtain r where "map_of (sc_jobs (ses_core (jm_session demo_submit))) ''j'' = Some r" using demo_submit_eval(4) by blast
    from job_finished_accepted [OF demo_submit_eval(3) this, of "''cancelled''" demo_stamp "''shell''" "''t''" "JFloat 0 0" JNull JNull None]
    show ?thesis
      by (auto simp: cancel_turn_def demo_submit_eval(2) cancel_locked_def finish_locked_def demo_pending_def demo_job_eval
        job_active_def jopt_obj_def terminal_status_def)
  qed
  ultimately show ?thesis using demo_submit_run by (metis prod.collapse)
qed

text \<open>When the Session's journal cannot take the event of a new job, \<open>submit\<close> raises and yet leaves
  the job behind: it counts as active, no worker will ever run it and no terminal update is queued, so
  a terminal drain of its turn keeps reporting a pending job, and cancelling the job only marks it.\<close>

theorem failed_submit_leaves_job:
  assumes "\<not> jm_closed m" and "job_submitted st jid kind tid det (jm_session m) = (s, Some x)"
  shows "\<exists>j m'. submit st jid ex kind tid det m = (m', Some x)
    \<and> map_of (jm_jobs m') jid = Some j \<and> jb_turn_id j = tid \<and> job_active (jb_status j) \<and> jb_future j = None
    \<and> active_in tid m'
    \<and> cancel_locked since mo j m' = (put_job (j\<lparr>jb_cancelled := True\<rparr>) m', None)
    \<and> active_in tid (put_job (j\<lparr>jb_cancelled := True\<rparr>) m')"
proof -
  let ?j = "\<lparr>jb_id = jid, jb_turn_id = tid, jb_kind = kind, jb_cancelled = False, jb_details = det,
     jb_status = ''submitted'', jb_future = None, jb_started_at = None, jb_progress = None\<rparr>"
  let ?m = "(publish (job_update_of ?j ''submitted'' JNull None) (put_job ?j m))\<lparr>jm_session := s\<rparr>"
  have act: "active_in tid m" if "map_of (jm_jobs m) k = Some j" "jb_turn_id j = tid" "job_active (jb_status j)" for m k j
    unfolding active_in_def list_ex_iff using map_of_SomeD [OF that(1)] that(2,3) by blast
  have run: "submit st jid ex kind tid det m = (?m, Some x)"
    using assms by (simp add: submit_def Let_def publish_def put_job_def)
  have look: "map_of (jm_jobs ?m) jid = Some ?j" by (simp add: publish_def put_job_def)
  have a: "job_active (jb_status ?j)" by (simp add: job_active_def)
  have "cancel_locked since mo ?j ?m = (put_job (?j\<lparr>jb_cancelled := True\<rparr>) ?m, None)" using a by (simp add: cancel_locked_def)
  moreover have "active_in tid (put_job (?j\<lparr>jb_cancelled := True\<rparr>) ?m)"
    by (rule act [of _ jid "?j\<lparr>jb_cancelled := True\<rparr>"]) (use a in \<open>simp_all add: put_job_def\<close>)
  moreover have "jb_turn_id ?j = tid" "jb_future ?j = None" by simp_all
  ultimately show ?thesis using run look a act [OF look _ a] by blast
qed

theorem failed_submit_leaves_job_witness:
  "\<exists>m'. submit demo_stamp ''j'' None ''shell'' ''t'' [] (new_job_manager broken_session) = (m', Some (OSError ''disk full''))
     \<and> active_in ''t'' m'"
proof -
  have "snd (job_submitted demo_stamp ''j'' ''shell'' ''t'' [] (jm_session (new_job_manager broken_session))) = Some (OSError ''disk full'')"
    by (simp add: new_job_manager_def broken_session_def job_submitted_def demo_eval with_job_def jget_str_def apply_job_submitted_def
      str_field_def TOOL_END_EVENTS_def)
  then have "job_submitted demo_stamp ''j'' ''shell'' ''t'' [] (jm_session (new_job_manager broken_session))
    = (fst (job_submitted demo_stamp ''j'' ''shell'' ''t'' [] (jm_session (new_job_manager broken_session))), Some (OSError ''disk full''))"
    by (simp add: prod_eq_iff)
  from failed_submit_leaves_job [OF _ this, of None] show ?thesis by (fastforce simp: new_job_manager_def)
qed

end
