(* ===== verification/Tool_Stream.thy ===== *)
theory Tool_Stream
  imports Tool_Base "HOL-Library.Multiset"
begin

text \<open>
  Assembly of streamed tool calls (\<open>agent_core/providers/tool_call_stream.py\<close>).

  The source keeps one mutable object per call and finds it again by its index, by its id or, when
  it is the only one, without either. Here the objects are positions of \<open>sa_states\<close>, which only
  grows, and the two dictionaries hold positions. A raised error ends the stream. Of the error only
  the message is modelled, not the dictionary of details.
\<close>

section \<open>The assembler\<close>

record call_state =
  cs_index :: "int option"
  cs_id :: "string option"
  cs_name :: "string option"
  cs_fragments :: "string list"

record assembler =
  sa_states :: "call_state list"
  sa_by_index :: "(int, nat) dict"
  sa_by_id :: "(string, nat) dict"

definition new_assembler :: assembler where
  "new_assembler = \<lparr>sa_states = [], sa_by_index = [], sa_by_id = []\<rparr>"

text \<open>\<open>get_field\<close> on a decoded value: only a mapping has the fields the code reads.\<close>

definition get_field :: "json \<Rightarrow> string \<Rightarrow> json" where
  "get_field v name = (case v of JObj d \<Rightarrow> jget d name | _ \<Rightarrow> JNull)"

definition tool_call_index :: "jobj \<Rightarrow> int option res" where
  "tool_call_index call =
     (case get_field (JObj call) ''index'' of
        JNull \<Rightarrow> Inr None
      | JInt i \<Rightarrow> if i < 0 then Inl (ProviderProtocolError ''tool call index must be a non-negative integer'') else Inr (Some i)
      | _ \<Rightarrow> Inl (ProviderProtocolError ''tool call index must be a non-negative integer''))"

definition tool_call_id :: "jobj \<Rightarrow> string option res" where
  "tool_call_id call =
     (case get_field (JObj call) ''id'' of
        JNull \<Rightarrow> Inr None
      | JStr s \<Rightarrow> if s = [] then Inl (ProviderProtocolError ''tool call id must be a non-empty string'') else Inr (Some s)
      | _ \<Rightarrow> Inl (ProviderProtocolError ''tool call id must be a non-empty string''))"

definition non_empty_string :: "json \<Rightarrow> string option" where
  "non_empty_string v = (case v of JStr s \<Rightarrow> if s = [] then None else Some s | _ \<Rightarrow> None)"

definition resolve_state :: "int option \<Rightarrow> string option \<Rightarrow> assembler \<Rightarrow> (nat \<times> assembler) res" where
  "resolve_state index tcid a =
     (let by_index = (case index of None \<Rightarrow> None | Some i \<Rightarrow> map_of (sa_by_index a) i);
          by_id = (case tcid of None \<Rightarrow> None | Some i \<Rightarrow> map_of (sa_by_id a) i);
          states = sa_states a in
      if by_index \<noteq> None \<and> by_id \<noteq> None \<and> by_index \<noteq> by_id
      then Inl (ProviderProtocolError ''tool call index and id refer to different calls'')
      else case by_index of
        Some k \<Rightarrow> Inr (k, a)
      | None \<Rightarrow> (case by_id of
          Some k \<Rightarrow> Inr (k, a)
        | None \<Rightarrow>
            if index = None \<and> tcid = None
            then if length states = 1 then Inr (0, a)
              else Inl (ProviderProtocolError ''tool call fragment has no index or id'')
            else if length states = 1 \<and> ((index = None \<and> cs_id (states ! 0) = None) \<or> (tcid = None \<and> cs_index (states ! 0) = None))
            then Inl (ProviderProtocolError ''tool call fragment cannot be linked to the active call'')
            else Inr (length states, a\<lparr>sa_states := states @ [\<lparr>cs_index = None, cs_id = None, cs_name = None, cs_fragments = []\<rparr>]\<rparr>)))"

definition bind_index :: "nat \<Rightarrow> int option \<Rightarrow> assembler \<Rightarrow> assembler res" where
  "bind_index k index a =
     (case index of
        None \<Rightarrow> Inr a
      | Some i \<Rightarrow>
          let s = sa_states a ! k in
          if cs_index s \<noteq> None \<and> cs_index s \<noteq> Some i
          then Inl (ProviderProtocolError ''tool call id was associated with multiple indexes'')
          else Inr (a\<lparr>sa_states := (sa_states a)[k := s\<lparr>cs_index := Some i\<rparr>], sa_by_index := AList.update i k (sa_by_index a)\<rparr>))"

definition bind_id :: "nat \<Rightarrow> string option \<Rightarrow> assembler \<Rightarrow> assembler res" where
  "bind_id k tcid a =
     (case tcid of
        None \<Rightarrow> Inr a
      | Some i \<Rightarrow>
          let s = sa_states a ! k in
          if cs_id s \<noteq> None \<and> cs_id s \<noteq> Some i
          then Inl (ProviderProtocolError ''tool call index was associated with multiple ids'')
          else Inr (a\<lparr>sa_states := (sa_states a)[k := s\<lparr>cs_id := Some i\<rparr>], sa_by_id := AList.update i k (sa_by_id a)\<rparr>))"

definition bind_identity :: "nat \<Rightarrow> int option \<Rightarrow> string option \<Rightarrow> assembler \<Rightarrow> assembler res" where
  "bind_identity k index tcid a = res_bind (bind_index k index a) (bind_id k tcid)"

text \<open>The name and the argument text a delta carries.\<close>

definition add_name :: "json \<Rightarrow> call_state \<Rightarrow> call_state res" where
  "add_name v s =
     (case non_empty_string v of
        None \<Rightarrow> Inr s
      | Some n \<Rightarrow> if cs_name s \<noteq> None \<and> cs_name s \<noteq> Some n
          then Inl (ProviderProtocolError ''tool call name changed during the stream'')
          else Inr (s\<lparr>cs_name := Some n\<rparr>))"

definition add_arguments :: "json \<Rightarrow> call_state \<Rightarrow> call_state res" where
  "add_arguments v s =
     (case v of
        JStr t \<Rightarrow> Inr (if t = [] then s else s\<lparr>cs_fragments := cs_fragments s @ [t]\<rparr>)
      | JNull \<Rightarrow> Inr s
      | _ \<Rightarrow> Inl (ProviderProtocolError ''tool call arguments must be streamed as text''))"

definition add_function :: "json \<Rightarrow> call_state \<Rightarrow> call_state res" where
  "add_function f s =
     (if f = JNull then Inr s
      else res_bind (add_name (get_field f ''name'') s) (add_arguments (get_field f ''arguments'')))"

definition add_call :: "jobj \<times> int option \<times> string option \<Rightarrow> assembler \<Rightarrow> assembler res" where
  "add_call c a = (case c of (call, index, tcid) \<Rightarrow>
     res_bind (resolve_state index tcid a) (\<lambda>(k, a1).
     res_bind (bind_identity k index tcid a1) (\<lambda>a2.
     res_map (\<lambda>s. a2\<lparr>sa_states := (sa_states a2)[k := s]\<rparr>)
       (add_function (get_field (JObj call) ''function'') (sa_states a2 ! k)))))"

definition delta :: "jobj \<Rightarrow> (jobj \<times> int option \<times> string option) res" where
  "delta call = res_bind (tool_call_index call) (\<lambda>i. res_bind (tool_call_id call) (\<lambda>t. Inr (call, i, t)))"

fun add_calls :: "(jobj \<times> int option \<times> string option) list \<Rightarrow> assembler \<Rightarrow> assembler res" where
  "add_calls [] a = Inr a"
| "add_calls (c # cs) a = res_bind (add_call c a) (add_calls cs)"

definition add_batch :: "jobj list \<Rightarrow> assembler \<Rightarrow> assembler res" where
  "add_batch tool_calls a =
     res_bind (res_list delta tool_calls) (\<lambda>calls.
       if 1 < length calls \<and> list_ex (\<lambda>(_, i, t). i = None \<and> t = None) calls
       then Inl (ProviderProtocolError ''a tool call in a multi-call chunk has no index or id'')
       else add_calls calls a)"

definition argument_fragment_count :: "assembler \<Rightarrow> nat" where
  "argument_fragment_count a = sum_list (map (\<lambda>s. length (cs_fragments s)) (sa_states a))"

definition finish_state :: "(string \<Rightarrow> string + json) \<Rightarrow> call_state \<Rightarrow> tool_call res" where
  "finish_state loads s =
     (case cs_id s of
        None \<Rightarrow> Inl (ProviderProtocolError ''tool call id is missing'')
      | Some i \<Rightarrow> (case cs_name s of
          None \<Rightarrow> Inl (ProviderProtocolError ''tool call name is missing'')
        | Some n \<Rightarrow> Inr (from_raw_arguments loads i n (concat (cs_fragments s)))))"

definition finish_stream :: "(string \<Rightarrow> string + json) \<Rightarrow> assembler \<Rightarrow> tool_call list res" where
  "finish_stream loads a =
     (let states = sa_states a; indexed = list_ex (\<lambda>s. cs_index s \<noteq> None) states;
          all_indexed = list_all (\<lambda>s. cs_index s \<noteq> None) states in
      if indexed \<and> \<not> all_indexed
      then Inl (ProviderProtocolError ''tool calls mix indexed and unindexed identities'')
      else res_list (finish_state loads) (if all_indexed then sort_key (\<lambda>s. the (cs_index s)) states else states))"

text \<open>The stream: one batch per provider chunk.\<close>

fun feed :: "jobj list list \<Rightarrow> assembler \<Rightarrow> assembler res" where
  "feed [] a = Inr a"
| "feed (b # bs) a = res_bind (add_batch b a) (feed bs)"

section \<open>Identities stay apart\<close>

text \<open>A dictionary of positions files every state under the identity the state has.\<close>

definition located :: "('i, nat) dict \<Rightarrow> ('s \<Rightarrow> 'i option) \<Rightarrow> 's list \<Rightarrow> bool" where
  "located d f ss \<longleftrightarrow> (\<forall>i k. map_of d i = Some k \<longleftrightarrow> k < length ss \<and> f (ss ! k) = Some i)"

lemma located_Nil [simp]: "located [] f []"
  by (simp add: located_def)

lemma located_get: "located d f ss \<Longrightarrow> map_of d i = Some k \<longleftrightarrow> k < length ss \<and> f (ss ! k) = Some i"
  by (simp add: located_def)

lemma located_snoc: "located d f ss \<Longrightarrow> f s = None \<Longrightarrow> located d f (ss @ [s])"
  unfolding located_def by (metis less_Suc_eq nth_append nth_append_length length_append_singleton option.distinct(1))

lemma located_same: "located d f ss \<Longrightarrow> k < length ss \<Longrightarrow> f s = f (ss ! k) \<Longrightarrow> located d f (ss[k := s])"
  unfolding located_def by (metis length_list_update nth_list_update)

lemma located_bind:
  assumes "located d f ss" and "k < length ss" and "\<And>j. map_of d i = Some j \<Longrightarrow> j = k"
    and "f (ss ! k) = None \<or> f (ss ! k) = Some i" and "f s = Some i"
  shows "located (AList.update i k d) f (ss[k := s])"
  unfolding located_def
proof (intro allI)
  fix x j
  show "(map_of (AList.update i k d) x = Some j) = (j < length (ss[k := s]) \<and> f (ss[k := s] ! j) = Some x)"
    using located_get [OF assms(1), of x j] assms(2-) by (cases "j = k"; cases "x = i") auto
qed

lemma located_distinct:
  assumes "located d f ss" and "j < length ss" and "k < length ss" and "f (ss ! j) = Some i" and "f (ss ! k) = Some i"
  shows "j = k"
  using located_get [OF assms(1), of i j] located_get [OF assms(1), of i k] assms(2-) by simp

definition asm_ok :: "assembler \<Rightarrow> bool" where
  "asm_ok a \<longleftrightarrow> located (sa_by_index a) cs_index (sa_states a) \<and> located (sa_by_id a) cs_id (sa_states a)"

lemma asm_ok_new [simp]: "asm_ok new_assembler"
  by (simp add: asm_ok_def new_assembler_def)

text \<open>What resolving guarantees: a position that is bound to the given identities or free of them.\<close>

definition free_for :: "nat \<Rightarrow> int option \<Rightarrow> string option \<Rightarrow> assembler \<Rightarrow> bool" where
  "free_for k index tcid a \<longleftrightarrow> k < length (sa_states a)
     \<and> (\<forall>i j. index = Some i \<longrightarrow> map_of (sa_by_index a) i = Some j \<longrightarrow> j = k)
     \<and> (\<forall>i j. tcid = Some i \<longrightarrow> map_of (sa_by_id a) i = Some j \<longrightarrow> j = k)"

lemma resolve_state_ok:
  assumes "resolve_state index tcid a = Inr (k, a')" and "asm_ok a"
  shows "asm_ok a' \<and> free_for k index tcid a'
    \<and> (a' = a \<or> a' = a\<lparr>sa_states := sa_states a @ [\<lparr>cs_index = None, cs_id = None, cs_name = None, cs_fragments = []\<rparr>]\<rparr> \<and> k = length (sa_states a))"
proof -
  let ?s = "\<lparr>cs_index = None, cs_id = None, cs_name = None, cs_fragments = []\<rparr>"
  let ?b = "a\<lparr>sa_states := sa_states a @ [?s]\<rparr>"
  define x where "x = (case index of None \<Rightarrow> None | Some i \<Rightarrow> map_of (sa_by_index a) i)"
  define y where "y = (case tcid of None \<Rightarrow> None | Some i \<Rightarrow> map_of (sa_by_id a) i)"
  have b: "asm_ok ?b" using assms(2) by (auto simp: asm_ok_def intro: located_snoc)
  note r = assms(1) [unfolded resolve_state_def Let_def, folded x_def y_def]
  show ?thesis
  proof (cases x)
    case (Some j)
    with r have e: "j = k" "a' = a" "y = None \<or> y = Some k" by (auto split: if_splits)
    then have "k < length (sa_states a)" using assms(2) Some by (cases index) (auto simp: x_def asm_ok_def located_get)
    with e Some assms(2) show ?thesis by (cases index; cases tcid) (auto simp: x_def y_def free_for_def)
  next
    case x: None
    show ?thesis
    proof (cases y)
      case (Some j)
      with r x have e: "j = k" "a' = a" by simp_all
      then have "k < length (sa_states a)" using assms(2) Some by (cases tcid) (auto simp: y_def asm_ok_def located_get)
      with e x Some assms(2) show ?thesis by (cases index; cases tcid) (simp_all add: x_def y_def free_for_def)
    next
      case None
      show ?thesis
      proof (cases "index = None \<and> tcid = None")
        case True
        with r x None have "k = 0" "a' = a" "length (sa_states a) = 1" by (simp_all split: if_splits)
        with True assms(2) show ?thesis by (simp add: free_for_def)
      next
        case False
        with r x None have "k = length (sa_states a)" "a' = ?b" by (simp_all split: if_splits)
        with x None b show ?thesis by (cases index; cases tcid) (simp_all add: x_def y_def free_for_def)
      qed
    qed
  qed
qed

lemma bind_index_ok:
  assumes "bind_index k index a = Inr a'" and "asm_ok a" and "free_for k index tcid a"
  shows "asm_ok a' \<and> free_for k index tcid a'"
proof (cases index)
  case (Some i)
  with assms(1) have a': "a' = a\<lparr>sa_states := (sa_states a)[k := (sa_states a ! k)\<lparr>cs_index := Some i\<rparr>], sa_by_index := AList.update i k (sa_by_index a)\<rparr>"
    and c: "cs_index (sa_states a ! k) = None \<or> cs_index (sa_states a ! k) = Some i"
    by (auto simp: bind_index_def Let_def split: if_splits)
  have k: "k < length (sa_states a)" and f: "\<And>j. map_of (sa_by_index a) i = Some j \<Longrightarrow> j = k"
    using assms(3) Some by (auto simp: free_for_def)
  have "located (sa_by_index a') cs_index (sa_states a')"
    unfolding a' using assms(2) k c f by (simp add: asm_ok_def located_bind)
  moreover have "located (sa_by_id a') cs_id (sa_states a')" unfolding a' using assms(2) k by (simp add: asm_ok_def located_same)
  ultimately show ?thesis using assms(3) Some by (auto simp: asm_ok_def free_for_def a')
qed (use assms in \<open>simp add: bind_index_def\<close>)

lemma bind_id_ok:
  assumes "bind_id k tcid a = Inr a'" and "asm_ok a" and "free_for k index tcid a"
  shows "asm_ok a' \<and> k < length (sa_states a')"
proof (cases tcid)
  case (Some i)
  with assms(1) have a': "a' = a\<lparr>sa_states := (sa_states a)[k := (sa_states a ! k)\<lparr>cs_id := Some i\<rparr>], sa_by_id := AList.update i k (sa_by_id a)\<rparr>"
    and c: "cs_id (sa_states a ! k) = None \<or> cs_id (sa_states a ! k) = Some i"
    by (auto simp: bind_id_def Let_def split: if_splits)
  have k: "k < length (sa_states a)" and f: "\<And>j. map_of (sa_by_id a) i = Some j \<Longrightarrow> j = k"
    using assms(3) Some by (auto simp: free_for_def)
  have "located (sa_by_id a') cs_id (sa_states a')"
    unfolding a' using assms(2) k c f by (simp add: asm_ok_def located_bind)
  moreover have "located (sa_by_index a') cs_index (sa_states a')" unfolding a' using assms(2) k by (simp add: asm_ok_def located_same)
  ultimately show ?thesis using k by (simp add: asm_ok_def a')
qed (use assms in \<open>auto simp: bind_id_def free_for_def\<close>)

text \<open>What one delta carries besides its identity.\<close>

fun delta_index :: "jobj \<times> int option \<times> string option \<Rightarrow> int option" where
  "delta_index (_, i, _) = i"

fun delta_id :: "jobj \<times> int option \<times> string option \<Rightarrow> string option" where
  "delta_id (_, _, t) = t"

fun delta_name :: "jobj \<times> int option \<times> string option \<Rightarrow> string option" where
  "delta_name (call, _, _) = non_empty_string (get_field (get_field (JObj call) ''function'') ''name'')"

fun delta_text :: "jobj \<times> int option \<times> string option \<Rightarrow> string list" where
  "delta_text (call, _, _) =
     (case non_empty_string (get_field (get_field (JObj call) ''function'') ''arguments'') of None \<Rightarrow> [] | Some t \<Rightarrow> [t])"

text \<open>A value that was set stays: setting it again to something else raises.\<close>

definition set_once :: "'a option \<Rightarrow> 'a option \<Rightarrow> 'a option" where
  "set_once new old = (case new of None \<Rightarrow> old | Some _ \<Rightarrow> new)"

definition may_set :: "'a option \<Rightarrow> 'a option \<Rightarrow> bool" where
  "may_set new old \<longleftrightarrow> new = None \<or> old = None \<or> old = new"

lemma add_function_eq:
  assumes "add_function (get_field (JObj call) ''function'') s = Inr s'"
  shows "s' = s\<lparr>cs_name := set_once (delta_name (call, i, t)) (cs_name s),
      cs_fragments := cs_fragments s @ delta_text (call, i, t)\<rparr> \<and> may_set (delta_name (call, i, t)) (cs_name s)"
proof (cases "get_field (JObj call) ''function'' = JNull")
  case True
  then show ?thesis using assms
    by (simp add: add_function_def set_once_def may_set_def non_empty_string_def get_field_def)
next
  case False
  then obtain s1 where "add_name (get_field (get_field (JObj call) ''function'') ''name'') s = Inr s1"
    and "add_arguments (get_field (get_field (JObj call) ''function'') ''arguments'') s1 = Inr s'"
    using assms by (auto simp: add_function_def)
  then show ?thesis
    by (auto simp: add_name_def add_arguments_def set_once_def may_set_def non_empty_string_def
        split: option.splits if_splits json.splits)
qed

text \<open>One accepted delta: it goes to one call, old or new, and changes nothing else.\<close>

definition blank_state :: call_state where
  "blank_state = \<lparr>cs_index = None, cs_id = None, cs_name = None, cs_fragments = []\<rparr>"

definition absorb :: "jobj \<times> int option \<times> string option \<Rightarrow> call_state \<Rightarrow> call_state" where
  "absorb d s = s\<lparr>cs_index := set_once (delta_index d) (cs_index s), cs_id := set_once (delta_id d) (cs_id s),
     cs_name := set_once (delta_name d) (cs_name s), cs_fragments := cs_fragments s @ delta_text d\<rparr>"

definition may_absorb :: "jobj \<times> int option \<times> string option \<Rightarrow> call_state \<Rightarrow> bool" where
  "may_absorb d s \<longleftrightarrow> may_set (delta_index d) (cs_index s) \<and> may_set (delta_id d) (cs_id s) \<and> may_set (delta_name d) (cs_name s)"

lemma add_call_ok:
  assumes "add_call d a = Inr a'" and "asm_ok a"
  shows "asm_ok a' \<and> (\<exists>k ss. (ss = sa_states a \<or> ss = sa_states a @ [blank_state] \<and> k = length (sa_states a)) \<and> k < length ss
    \<and> may_absorb d (ss ! k) \<and> sa_states a' = ss[k := absorb d (ss ! k)])"
proof -
  obtain call index tcid where d: "d = (call, index, tcid)" by (cases d) auto
  from assms(1) obtain k a1 a2 a3 s where r: "resolve_state index tcid a = Inr (k, a1)" and bi: "bind_index k index a1 = Inr a2"
    and bt: "bind_id k tcid a2 = Inr a3" and f: "add_function (get_field (JObj call) ''function'') (sa_states a3 ! k) = Inr s"
    and a': "a' = a3\<lparr>sa_states := (sa_states a3)[k := s]\<rparr>"
    by (auto simp: add_call_def d bind_identity_def)
  have ok1: "asm_ok a1" "free_for k index tcid a1"
    and st: "a1 = a \<or> a1 = a\<lparr>sa_states := sa_states a @ [blank_state]\<rparr> \<and> k = length (sa_states a)"
    using resolve_state_ok [OF r assms(2)] by (auto simp: blank_state_def)
  have ok2: "asm_ok a2" "free_for k index tcid a2" using bind_index_ok [OF bi ok1] by auto
  have ok3: "asm_ok a3" "k < length (sa_states a3)" using bind_id_ok [OF bt ok2] by auto
  let ?s = "sa_states a1 ! k"
  have k: "k < length (sa_states a1)" using ok1(2) by (simp add: free_for_def)
  have s2: "sa_states a2 = (sa_states a1)[k := ?s\<lparr>cs_index := set_once index (cs_index ?s)\<rparr>]" "may_set index (cs_index ?s)"
    using bi by (auto simp: bind_index_def Let_def set_once_def may_set_def split: option.splits if_splits)
  have s3: "sa_states a3 = (sa_states a1)[k := ?s\<lparr>cs_index := set_once index (cs_index ?s), cs_id := set_once tcid (cs_id ?s)\<rparr>]"
    "may_set tcid (cs_id ?s)"
    using bt s2 k by (auto simp: bind_id_def Let_def set_once_def may_set_def split: option.splits if_splits)
  note fe = add_function_eq [OF f, of index tcid]
  have new: "sa_states a' = (sa_states a1)[k := absorb d ?s]" and m: "may_absorb d ?s"
    using fe s2(2) s3 k by (simp_all add: a' d absorb_def may_absorb_def)
  have "cs_index s = cs_index (sa_states a3 ! k)" "cs_id s = cs_id (sa_states a3 ! k)" using fe by simp_all
  then have "asm_ok a'" using ok3 unfolding asm_ok_def a' by (simp add: located_same)
  moreover have "sa_states a1 = sa_states a \<or> sa_states a1 = sa_states a @ [blank_state] \<and> k = length (sa_states a)" using st by auto
  ultimately show ?thesis using new m k by blast
qed

lemma add_calls_append: "add_calls (cs @ ds) a = res_bind (add_calls cs a) (add_calls ds)"
  by (induction cs arbitrary: a) (simp_all add: res_bind_assoc cong: res_bind_cong)

lemma res_list_append: "res_list f (xs @ ys) = res_bind (res_list f xs) (\<lambda>as. res_map ((@) as) (res_list f ys))"
proof (induction xs)
  case Nil
  then show ?case by (cases "res_list f ys") auto
next
  case (Cons x xs)
  then show ?case by (cases "f x"; cases "res_list f xs"; cases "res_list f ys") auto
qed

text \<open>A stream that was accepted is the sequence of its deltas, whatever the chunks.\<close>

lemma feed_calls:
  assumes "feed bs a = Inr a'"
  shows "\<exists>ds. res_list delta (concat bs) = Inr ds \<and> add_calls ds a = Inr a'"
  using assms
proof (induction bs arbitrary: a)
  case (Cons b bs)
  then obtain a1 where b: "add_batch b a = Inr a1" and rest: "feed bs a1 = Inr a'" by auto
  from b obtain cs where "res_list delta b = Inr cs" "add_calls cs a = Inr a1"
    by (auto simp: add_batch_def split: if_splits)
  moreover obtain ds where "res_list delta (concat bs) = Inr ds" "add_calls ds a1 = Inr a'" using Cons.IH [OF rest] by blast
  ultimately show ?case by (auto simp: res_list_append add_calls_append)
qed simp

section \<open>Nothing is lost or mixed up\<close>

lemma add_calls_ok: "add_calls ds a = Inr a' \<Longrightarrow> asm_ok a \<Longrightarrow> asm_ok a'"
  by (induction ds arbitrary: a) (auto dest: add_call_ok)

lemma add_call_fragments:
  assumes "add_call d a = Inr a'" and "asm_ok a"
  shows "mset (concat (map cs_fragments (sa_states a'))) = mset (concat (map cs_fragments (sa_states a))) + mset (delta_text d)"
proof -
  from add_call_ok [OF assms] obtain k ss where
    ss: "ss = sa_states a \<or> ss = sa_states a @ [blank_state] \<and> k = length (sa_states a)" and k: "k < length ss"
    and a': "sa_states a' = ss[k := absorb d (ss ! k)]" by blast
  have "mset (concat (map cs_fragments (ss[k := absorb d (ss ! k)]))) = mset (concat (map cs_fragments ss)) + mset (delta_text d)"
    using k by (subst (2) id_take_nth_drop [OF k]) (simp add: upd_conv_take_nth_drop absorb_def)
  moreover have "concat (map cs_fragments ss) = concat (map cs_fragments (sa_states a))" using ss by (auto simp: blank_state_def)
  ultimately show ?thesis by (simp add: a')
qed

lemma mset_concat_map: "mset (concat (map f xs)) = (\<Sum>x\<in>#mset xs. mset (f x))"
  by (induction xs) auto

lemma add_calls_fragments:
  "add_calls ds a = Inr a' \<Longrightarrow> asm_ok a \<Longrightarrow>
   mset (concat (map cs_fragments (sa_states a'))) = mset (concat (map cs_fragments (sa_states a))) + mset (concat (map delta_text ds))"
proof (induction ds arbitrary: a)
  case (Cons d ds)
  then obtain a1 where d: "add_call d a = Inr a1" and r: "add_calls ds a1 = Inr a'" by auto
  have "asm_ok a1" using add_call_ok [OF d Cons.prems(2)] by blast
  with Cons.IH [OF r] add_call_fragments [OF d Cons.prems(2)] show ?case by simp
qed simp

lemma finish_stream_perm:
  assumes "finish_stream loads a = Inr cs"
  shows "\<exists>ss. mset ss = mset (sa_states a) \<and> res_list (finish_state loads) ss = Inr cs
    \<and> ((\<forall>s \<in> set ss. cs_index s \<noteq> None) \<longrightarrow> sorted (map (\<lambda>s. the (cs_index s)) ss))"
proof -
  let ?ss = "if list_all (\<lambda>s. cs_index s \<noteq> None) (sa_states a) then sort_key (\<lambda>s. the (cs_index s)) (sa_states a) else sa_states a"
  have "mset ?ss = mset (sa_states a)" by simp
  moreover have "res_list (finish_state loads) ?ss = Inr cs" using assms unfolding finish_stream_def Let_def by (simp split: if_splits)
  moreover have "(\<forall>s \<in> set ?ss. cs_index s \<noteq> None) \<longrightarrow> sorted (map (\<lambda>s. the (cs_index s)) ?ss)"
    by (auto simp: list_all_iff)
  ultimately show ?thesis by blast
qed

lemma from_raw_arguments_id [simp]: "tc_id (from_raw_arguments loads i n raw) = i" "tc_name (from_raw_arguments loads i n raw) = n"
  by (simp_all add: from_raw_arguments_def Let_def split: sum.splits json.splits)

lemma finished_ids: "res_list (finish_state loads) ss = Inr cs \<Longrightarrow> map (Some \<circ> tc_id) cs = map cs_id ss"
  by (induction ss arbitrary: cs) (auto simp: finish_state_def split: option.splits)

lemma located_values_distinct:
  assumes "located d f ss" and "\<forall>s \<in> set ss. f s \<noteq> None"
  shows "distinct (map f ss)"
  unfolding distinct_conv_nth
proof (intro allI impI)
  fix i j
  assume ij: "i < length (map f ss)" "j < length (map f ss)" "i \<noteq> j"
  obtain x where "f (ss ! i) = Some x" using assms(2) ij(1) by (metis length_map nth_mem option.exhaust)
  then show "map f ss ! i \<noteq> map f ss ! j" using located_distinct [OF assms(1), of i j x] ij by auto
qed

text \<open>Whatever an accepted stream looks like, the assembled calls have distinct ids, and every
  non-empty argument fragment of the stream is in exactly one call, none dropped and none doubled.\<close>

theorem assembled_calls_separate:
  assumes "feed bs new_assembler = Inr a" and "finish_stream loads a = Inr cs"
  shows "distinct (map tc_id cs)
    \<and> (\<exists>ds ss. res_list delta (concat bs) = Inr ds \<and> res_list (finish_state loads) ss = Inr cs
        \<and> mset (concat (map cs_fragments ss)) = mset (concat (map delta_text ds))
        \<and> argument_fragment_count a = length (concat (map delta_text ds)))"
proof -
  obtain ds where ds: "res_list delta (concat bs) = Inr ds" "add_calls ds new_assembler = Inr a" using feed_calls [OF assms(1)] by blast
  have ok: "asm_ok a" using add_calls_ok [OF ds(2)] by simp
  obtain ss where ss: "mset ss = mset (sa_states a)" "res_list (finish_state loads) ss = Inr cs"
    using finish_stream_perm [OF assms(2)] by blast
  have ids: "map (Some \<circ> tc_id) cs = map cs_id ss" by (rule finished_ids [OF ss(2)])
  then have "set (map cs_id ss) = set (map (Some \<circ> tc_id) cs)" by simp
  then have "\<forall>s \<in> set (sa_states a). cs_id s \<noteq> None" using mset_eq_setD [OF ss(1)] by (auto simp: image_iff)
  then have "distinct (map cs_id (sa_states a))" using ok located_values_distinct unfolding asm_ok_def by blast
  then have "distinct (map cs_id ss)" by (metis mset_eq_imp_distinct_iff mset_map ss(1))
  then have "distinct (map tc_id cs)" unfolding ids [symmetric] by (simp add: distinct_map comp_inj_on_iff [symmetric] inj_on_def comp_def)
  moreover have all: "mset (concat (map cs_fragments (sa_states a))) = mset (concat (map delta_text ds))"
    using add_calls_fragments [OF ds(2) asm_ok_new] by (simp add: new_assembler_def)
  moreover have "mset (concat (map cs_fragments ss)) = mset (concat (map cs_fragments (sa_states a)))"
    using ss(1) by (simp add: mset_concat_map)
  moreover have "argument_fragment_count a = length (concat (map cs_fragments (sa_states a)))"
    by (simp add: argument_fragment_count_def length_concat comp_def)
  ultimately show ?thesis using ds(1) ss(2) by (metis size_mset)
qed

text \<open>Two interleaved calls in three chunks.\<close>

definition demo_stream :: "jobj list list" where
  "demo_stream =
     [[[(''index'', JInt 1), (''id'', JStr ''b''), (''function'', JObj [(''name'', JStr ''g''), (''arguments'', JStr ''['')])],
       [(''index'', JInt 0), (''id'', JStr ''a''), (''function'', JObj [(''name'', JStr ''f'')])]],
      [[(''index'', JInt 0), (''function'', JObj [(''arguments'', JStr ''{'')])]],
      [[(''index'', JInt 1), (''function'', JObj [(''arguments'', JStr '']'')])],
       [(''index'', JInt 0), (''function'', JObj [(''arguments'', JStr ''}'')])]]]"

definition demo_loads :: "string \<Rightarrow> string + json" where
  "demo_loads raw = (if raw = ''{}'' then Inr (JObj []) else Inl ''bad'')"

definition demo_assembled :: assembler where
  "demo_assembled = \<lparr>sa_states = [\<lparr>cs_index = Some 1, cs_id = Some ''b'', cs_name = Some ''g'', cs_fragments = [''['', '']'']\<rparr>,
     \<lparr>cs_index = Some 0, cs_id = Some ''a'', cs_name = Some ''f'', cs_fragments = [''{'', ''}'']\<rparr>],
     sa_by_index = [(1, 0), (0, 1)], sa_by_id = [(''b'', 0), (''a'', 1)]\<rparr>"

lemmas stream_eval = add_batch_def delta_def tool_call_index_def tool_call_id_def get_field_def add_call_def resolve_state_def
  bind_identity_def bind_index_def bind_id_def add_function_def add_name_def add_arguments_def non_empty_string_def Let_def

text \<open>Evaluation does not look at what follows before a result is known.\<close>

lemma res_bind_weak_cong: "r = r' \<Longrightarrow> res_bind r f = res_bind r' f"
  by simp

lemma demo_feed: "feed demo_stream new_assembler = Inr demo_assembled"
  by (simp add: demo_stream_def new_assembler_def demo_assembled_def stream_eval cong: res_bind_weak_cong)

theorem assembled_calls_separate_witness:
  "\<exists>cs. feed demo_stream new_assembler = Inr demo_assembled \<and> finish_stream demo_loads demo_assembled = Inr cs
     \<and> distinct (map tc_id cs) \<and> map tc_id cs = [''a'', ''b'']"
proof -
  have "res_map (map tc_id) (finish_stream demo_loads demo_assembled) = Inr [''a'', ''b'']" by code_simp
  then obtain cs where cs: "finish_stream demo_loads demo_assembled = Inr cs" "map tc_id cs = [''a'', ''b'']" by auto
  have "distinct (map tc_id cs)" using assembled_calls_separate [OF demo_feed cs(1)] by (rule conjunct1)
  with demo_feed cs show ?thesis by (intro exI [of _ cs] conjI)
qed

section \<open>Indexed streams\<close>

text \<open>
  The reference: what a stream of indexed deltas means, read off the whole stream at once. A call is an
  index; its id and name are the ones given for that index, its arguments the text given for it.
\<close>

fun latest :: "('a \<Rightarrow> 'b option) \<Rightarrow> 'a list \<Rightarrow> 'b option" where
  "latest f [] = None"
| "latest f (x # xs) = (case latest f xs of None \<Rightarrow> f x | Some y \<Rightarrow> Some y)"

definition of_index :: "int \<Rightarrow> (jobj \<times> int option \<times> string option) list \<Rightarrow> (jobj \<times> int option \<times> string option) list" where
  "of_index i ds = filter (\<lambda>d. delta_index d = Some i) ds"

definition reference_state :: "(jobj \<times> int option \<times> string option) list \<Rightarrow> int \<Rightarrow> call_state" where
  "reference_state ds i = \<lparr>cs_index = Some i, cs_id = latest delta_id (of_index i ds), cs_name = latest delta_name (of_index i ds),
     cs_fragments = concat (map delta_text (of_index i ds))\<rparr>"

definition stream_indexes :: "(jobj \<times> int option \<times> string option) list \<Rightarrow> int list" where
  "stream_indexes ds = remdups (map (the \<circ> delta_index) ds)"

definition reference_calls ::
  "(string \<Rightarrow> string + json) \<Rightarrow> (jobj \<times> int option \<times> string option) list \<Rightarrow> tool_call list res" where
  "reference_calls loads ds = res_list (finish_state loads) (map (reference_state ds) (sort (stream_indexes ds)))"

lemma latest_snoc: "latest f (xs @ [x]) = set_once (f x) (latest f xs)"
  by (induction xs) (auto simp: set_once_def split: option.splits)

lemma of_index_snoc: "of_index i (ds @ [d]) = of_index i ds @ (if delta_index d = Some i then [d] else [])"
  by (simp add: of_index_def)

lemma reference_state_absorb:
  "delta_index d = Some i \<Longrightarrow> reference_state (ds @ [d]) i = absorb d (reference_state ds i)"
  by (simp add: reference_state_def absorb_def of_index_snoc latest_snoc set_once_def)

lemma reference_state_other: "delta_index d \<noteq> Some i \<Longrightarrow> reference_state (ds @ [d]) i = reference_state ds i"
  by (simp add: reference_state_def of_index_snoc)

lemma reference_state_new:
  "of_index i ds = [] \<Longrightarrow> delta_index d = Some i \<Longrightarrow> reference_state (ds @ [d]) i = absorb d blank_state"
  by (simp add: reference_state_def absorb_def of_index_snoc latest_snoc set_once_def blank_state_def split: option.splits)

text \<open>Every identity and name that was sent for an index is the one of its call.\<close>

definition agrees :: "jobj \<times> int option \<times> string option \<Rightarrow> call_state \<Rightarrow> bool" where
  "agrees d s \<longleftrightarrow> (delta_id d = None \<or> delta_id d = cs_id s) \<and> (delta_name d = None \<or> delta_name d = cs_name s)"

definition consistent :: "(jobj \<times> int option \<times> string option) list \<Rightarrow> bool" where
  "consistent ds \<longleftrightarrow> (\<forall>d \<in> set ds. \<forall>i. delta_index d = Some i \<longrightarrow> agrees d (reference_state ds i))"

lemma agrees_absorb_self: "agrees d (absorb d s)"
  by (auto simp: agrees_def absorb_def set_once_def split: option.splits)

lemma agrees_absorb: "agrees x s \<Longrightarrow> may_absorb d s \<Longrightarrow> agrees x (absorb d s)"
  by (auto simp: agrees_def absorb_def may_absorb_def may_set_def set_once_def split: option.splits)

lemma consistent_snoc:
  assumes "consistent ds" and "delta_index d = Some i" and "may_absorb d (reference_state ds i) \<or> of_index i ds = []"
  shows "consistent (ds @ [d])"
  unfolding consistent_def
proof (intro ballI allI impI)
  fix x j assume x: "x \<in> set (ds @ [d])" "delta_index x = Some j"
  show "agrees x (reference_state (ds @ [d]) j)"
  proof (cases "x \<in> set ds")
    case True
    then have old: "agrees x (reference_state ds j)" using assms(1) x(2) by (simp add: consistent_def)
    show ?thesis
    proof (cases "j = i")
      case True
      with x(2) \<open>x \<in> set ds\<close> have "of_index i ds \<noteq> []" by (auto simp: of_index_def filter_empty_conv)
      with True old assms(2,3) show ?thesis by (simp add: reference_state_absorb agrees_absorb)
    qed (use old assms(2) in \<open>simp add: reference_state_other\<close>)
  next
    case False
    with x assms(2) show ?thesis by (simp add: reference_state_absorb agrees_absorb_self)
  qed
qed

text \<open>The states of the assembler after an indexed stream are the reference states of its indexes.\<close>

definition simulates :: "assembler \<Rightarrow> (jobj \<times> int option \<times> string option) list \<Rightarrow> bool" where
  "simulates a ds \<longleftrightarrow> asm_ok a \<and> consistent ds
     \<and> (\<exists>is. distinct is \<and> set is = set (stream_indexes ds) \<and> sa_states a = map (reference_state ds) is)"

lemma stream_indexes_snoc:
  "delta_index d = Some i \<Longrightarrow> set (stream_indexes (ds @ [d])) = insert i (set (stream_indexes ds))"
  by (auto simp: stream_indexes_def)

lemma of_index_none: "\<forall>d \<in> set ds. delta_index d \<noteq> None \<Longrightarrow> i \<notin> set (stream_indexes ds) \<Longrightarrow> of_index i ds = []"
  by (force simp: of_index_def stream_indexes_def filter_empty_conv)

lemma reference_index [simp]: "cs_index (reference_state ds i) = Some i"
  by (simp add: reference_state_def)

lemma simulates_step:
  assumes sim: "simulates a ds" and ix: "\<forall>x \<in> set ds. delta_index x \<noteq> None" and i: "delta_index d = Some i"
    and run: "add_call d a = Inr a'"
  shows "simulates a' (ds @ [d])"
proof -
  from sim obtain js where js: "distinct js" "set js = set (stream_indexes ds)" "sa_states a = map (reference_state ds) js"
    and ok: "asm_ok a" and cons: "consistent ds"
    by (auto simp: simulates_def)
  from add_call_ok [OF run ok] obtain k ss where ok': "asm_ok a'"
    and ss: "ss = sa_states a \<or> ss = sa_states a @ [blank_state] \<and> k = length (sa_states a)" and k: "k < length ss"
    and may: "may_absorb d (ss ! k)" and a': "sa_states a' = ss[k := absorb d (ss ! k)]" by blast
  have ik: "cs_index (sa_states a' ! k) = Some i" using k i by (simp add: a' absorb_def set_once_def)
  show ?thesis
  proof (cases "i \<in> set js")
    case True
    then obtain p where p: "p < length js" "js ! p = i" by (meson in_set_conv_nth)
    have "p = k"
    proof (rule ccontr)
      assume "p \<noteq> k"
      then have "cs_index (sa_states a' ! p) = Some i" using p ss by (auto simp: a' js(3) nth_append)
      moreover have "p < length (sa_states a')" "k < length (sa_states a')" using p ss k by (auto simp: a' js(3))
      ultimately show False
        using \<open>p \<noteq> k\<close> ik located_distinct [of "sa_by_index a'" cs_index "sa_states a'" p k i] ok' by (simp add: asm_ok_def)
    qed
    then have st: "ss = sa_states a" using ss p by (auto simp: js(3))
    have "sa_states a' = map (reference_state (ds @ [d])) js"
    proof (rule nth_equalityI)
      fix q assume q: "q < length (sa_states a')"
      then have "q < length js" by (simp add: a' st js(3))
      show "sa_states a' ! q = map (reference_state (ds @ [d])) js ! q"
      proof (cases "q = k")
        case True
        then show ?thesis using p \<open>p = k\<close> i by (simp add: a' st js(3) reference_state_absorb)
      next
        case False
        then have "js ! q \<noteq> i" using \<open>p = k\<close> p js(1) \<open>q < length js\<close> by (metis nth_eq_iff_index_eq)
        with False \<open>q < length js\<close> i show ?thesis by (simp add: a' st js(3) reference_state_other)
      qed
    qed (simp add: a' st js(3))
    moreover have "set js = set (stream_indexes (ds @ [d]))" using True js(2) stream_indexes_snoc [OF i] by auto
    moreover have "consistent (ds @ [d])"
      by (rule consistent_snoc [OF cons i]) (use may p \<open>p = k\<close> in \<open>simp add: st js(3)\<close>)
    ultimately show ?thesis using ok' js(1) unfolding simulates_def by blast
  next
    case False
    have st: "ss = sa_states a @ [blank_state] \<and> k = length (sa_states a)"
    proof (rule ccontr)
      assume "\<not> (ss = sa_states a @ [blank_state] \<and> k = length (sa_states a))"
      then have "ss = sa_states a" using ss by blast
      then have "cs_index (ss ! k) = Some (js ! k)" "k < length js" using k by (auto simp: js(3))
      then show False using may i False by (auto simp: may_absorb_def may_set_def)
    qed
    have none: "of_index i ds = []" using of_index_none [OF ix] False js(2) by simp
    have "(sa_states a @ [blank_state])[length (sa_states a) := x] = sa_states a @ [x]" for x by simp
    then have "sa_states a' = sa_states a @ [absorb d blank_state]" using st by (simp add: a')
    moreover have "map (reference_state ds) js = map (reference_state (ds @ [d])) js"
      using False i by (auto intro!: reference_state_other [symmetric])
    ultimately have "sa_states a' = map (reference_state (ds @ [d])) (js @ [i])"
      using none i by (simp add: js(3) reference_state_new)
    moreover have "set (js @ [i]) = set (stream_indexes (ds @ [d]))" using js(2) stream_indexes_snoc [OF i] by auto
    moreover have "distinct (js @ [i])" using False js(1) by simp
    moreover have "consistent (ds @ [d])" using consistent_snoc [OF cons i] none by blast
    ultimately show ?thesis using ok' unfolding simulates_def by blast
  qed
qed

lemma simulates_stream:
  "add_calls ds new_assembler = Inr a \<Longrightarrow> \<forall>d \<in> set ds. delta_index d \<noteq> None \<Longrightarrow> simulates a ds"
proof (induction ds arbitrary: a rule: rev_induct)
  case Nil
  then show ?case by (auto simp: simulates_def stream_indexes_def new_assembler_def asm_ok_def consistent_def)
next
  case (snoc d ds)
  then obtain a1 where "add_calls ds new_assembler = Inr a1" "add_call d a1 = Inr a" by (auto simp: add_calls_append)
  moreover obtain i where "delta_index d = Some i" using snoc.prems(2) by auto
  ultimately show ?case using snoc simulates_step by auto
qed

lemma filter_eq_distinct: "distinct xs \<Longrightarrow> filter (\<lambda>x. x = j) xs = (if j \<in> set xs then [j] else [])"
  by (induction xs) (auto simp: filter_empty_conv)

lemma sort_reference:
  assumes "distinct is"
  shows "sort_key (\<lambda>s. the (cs_index s)) (map (reference_state ds) is) = map (reference_state ds) (sort is)"
proof (rule properties_for_sort_key)
  show "mset (map (reference_state ds) (sort is)) = mset (map (reference_state ds) is)" by simp
  show "sorted (map (\<lambda>s. the (cs_index s)) (map (reference_state ds) (sort is)))" by (simp add: comp_def)
  fix s assume "s \<in> set (map (reference_state ds) (sort is))"
  have f: "filter (\<lambda>x. the (cs_index x) = j) (map (reference_state ds) xs) = map (reference_state ds) (filter (\<lambda>x. x = j) xs)" for j xs
    by (simp add: filter_map comp_def)
  have "filter (\<lambda>x. x = j) (sort is) = filter (\<lambda>x. x = j) is" for j
    using assms by (simp add: filter_eq_distinct)
  then show "filter (\<lambda>x. the (cs_index s) = the (cs_index x)) (map (reference_state ds) (sort is)) =
      filter (\<lambda>x. the (cs_index s) = the (cs_index x)) (map (reference_state ds) is)"
    using f by (metis (mono_tags, lifting) filter_cong)
qed

text \<open>C36. On a stream whose deltas all carry an index, the incremental assembler computes the reference:
  however the provider cuts the stream into chunks and interleaves the calls, \<open>finish\<close> returns or
  raises exactly what reading the whole stream call by call gives, in the order of the indexes; and
  for each index every id and name that was ever sent is the one of the call.\<close>

theorem indexed_stream_reference:
  assumes "feed bs new_assembler = Inr a" and "res_list delta (concat bs) = Inr ds"
    and "\<forall>d \<in> set ds. delta_index d \<noteq> None"
  shows "finish_stream loads a = reference_calls loads ds
    \<and> (\<forall>d \<in> set ds. \<forall>i. delta_index d = Some i \<longrightarrow> agrees d (reference_state ds i))"
proof -
  have "add_calls ds new_assembler = Inr a" using feed_calls [OF assms(1)] assms(2) by auto
  from simulates_stream [OF this assms(3)] obtain js where
    js: "distinct js" "set js = set (stream_indexes ds)" "sa_states a = map (reference_state ds) js"
    and cons: "consistent ds" by (auto simp: simulates_def)
  have "sort js = sort (stream_indexes ds)"
    using js(1,2) by (metis distinct_remdups sorted_list_of_set_sort_remdups remdups_id_iff_distinct stream_indexes_def)
  moreover have "list_all (\<lambda>s. cs_index s \<noteq> None) (sa_states a)" by (auto simp: js(3) list_all_iff)
  ultimately have "finish_stream loads a = reference_calls loads ds"
    by (simp add: finish_stream_def reference_calls_def js(3) sort_reference [OF js(1)])
  with cons show ?thesis by (simp add: consistent_def)
qed

theorem indexed_stream_reference_witness:
  "\<exists>ds. res_list delta (concat demo_stream) = Inr ds \<and> finish_stream demo_loads demo_assembled = reference_calls demo_loads ds
     \<and> res_map (map (\<lambda>c. (tc_id c, tc_arguments c))) (reference_calls demo_loads ds) = Inr [(''a'', JObj []), (''b'', JStr ''[]'')]"
proof -
  have "is_ok (res_list delta (concat demo_stream))" by code_simp
  then obtain ds where ds: "res_list delta (concat demo_stream) = Inr ds" by (auto simp: is_ok_iff)
  have ix: "res_map (list_all (\<lambda>d. delta_index d \<noteq> None)) (res_list delta (concat demo_stream)) = Inr True" by code_simp
  have "finish_stream demo_loads demo_assembled = reference_calls demo_loads ds"
    using indexed_stream_reference [OF demo_feed ds] ix ds by (auto simp: list_all_iff)
  moreover have "res_map (map (\<lambda>c. (tc_id c, tc_arguments c))) (finish_stream demo_loads demo_assembled)
      = Inr [(''a'', JObj []), (''b'', JStr ''[]'')]" by code_simp
  ultimately show ?thesis using ds by auto
qed

end
