(* ===== verification/Calendar.thy ===== *)
theory Calendar
  imports Message
begin

text \<open>
  Aware \<open>datetime\<close> values of the standard library as the scheduler uses them: the fields of the wall
  clock with a fixed offset from UTC, their instant, arithmetic with \<open>timedelta\<close>, and the text of
  \<open>isoformat\<close>. Times are counted in microseconds from 1 January of year 1, the first day
  \<open>datetime\<close> can hold; that day was a Monday.
\<close>

section \<open>Days\<close>

definition days_before_year :: "nat \<Rightarrow> nat" where
  "days_before_year y = (let k = y - 1 in 365 * k + k div 4 - k div 100 + k div 400)"

definition days_in_year :: "nat \<Rightarrow> nat" where
  "days_in_year y = (if leap_year y then 366 else 365)"

definition days_before_month :: "nat \<Rightarrow> nat \<Rightarrow> nat" where
  "days_before_month y m = sum_list (map (days_in_month y) [1..<m])"

text \<open>The day of a date, 1 January of year 1 being day 0.\<close>

definition day_number :: "nat \<Rightarrow> nat \<Rightarrow> nat \<Rightarrow> nat" where
  "day_number y m d = days_before_year y + days_before_month y m + (d - 1)"

lemma year_step:
  assumes "q \<Longrightarrow> p" and "r \<Longrightarrow> q" and "b \<le> 365 * k"
  shows "365 * Suc k + (a + (if p then 1 else 0)) - (b + (if q then 1 else 0)) + (c + (if r then 1 else 0))
    = 365 * k + a - b + c + (if p \<and> (\<not> q \<or> r) then 366 else 365 :: nat)"
proof -
  have "m + 365 + (a + (if p then 1 else 0)) - (b + (if q then 1 else 0)) + (c + (if r then 1 else 0))
    = m + a - b + c + (if p \<and> (\<not> q \<or> r) then 366 else 365)" if "b \<le> m" for m :: nat
    using that assms(1,2) by (cases p; cases q; cases r) simp_all
  from this [OF assms(3)] show ?thesis unfolding mult_Suc_right by (simp only: add.commute [of 365 "365 * k"])
qed

lemma days_before_year_Suc:
  assumes "1 \<le> y" shows "days_before_year (Suc y) = days_before_year y + days_in_year y"
proof -
  obtain k where y: "y = Suc k" using assms by (cases y) auto
  have a: "Suc k div 4 = k div 4 + (if 4 dvd Suc k then 1 else 0)" "Suc k div 100 = k div 100 + (if 100 dvd Suc k then 1 else 0)"
    "Suc k div 400 = k div 400 + (if 400 dvd Suc k then 1 else 0)"
    by (simp_all add: div_Suc dvd_eq_mod_eq_0)
  have b: "100 dvd Suc k \<Longrightarrow> 4 dvd Suc k" "400 dvd Suc k \<Longrightarrow> 100 dvd Suc k"
    using dvd_trans [of "4 :: nat" 100 "Suc k"] dvd_trans [of "100 :: nat" 400 "Suc k"] by simp_all
  have c: "k div 100 \<le> 365 * k" using div_le_dividend [of k 100] by linarith
  have l: "days_before_year (Suc y) = 365 * Suc k + Suc k div 4 - Suc k div 100 + Suc k div 400"
    "days_before_year y = 365 * k + k div 4 - k div 100 + k div 400"
    "days_in_year y = (if 4 dvd Suc k \<and> (\<not> 100 dvd Suc k \<or> 400 dvd Suc k) then 366 else 365)"
    unfolding days_before_year_def days_in_year_def leap_year_def y Let_def by (rule refl | simp only: diff_Suc_1)+
  show ?thesis unfolding l a using b c by (intro year_step)
qed

lemma days_before_year_mono:
  assumes "1 \<le> x" and "x \<le> y"
  shows "days_before_year x \<le> days_before_year y"
proof -
  have "days_before_year x \<le> days_before_year (x + k)" for k
    by (induction k) (use assms(1) in \<open>simp_all add: days_before_year_Suc\<close>)
  from this [of "y - x"] assms(2) show ?thesis by simp
qed

lemma days_before_year_lower: "365 * (y - 1) \<le> days_before_year y"
proof -
  have "k div 100 \<le> k div 4" for k :: nat by (simp add: div_le_mono2)
  then show ?thesis by (simp add: days_before_year_def Let_def)
qed

lemma days_before_year_upper: "days_before_year y \<le> 366 * (y - 1)"
proof -
  have "k div 4 - k div 100 + k div 400 \<le> k" for k :: nat by linarith
  moreover have "k div 100 \<le> k div 4" for k :: nat by (simp add: div_le_mono2)
  ultimately show ?thesis by (simp add: days_before_year_def Let_def)
qed

text \<open>The year of a day: from the lower estimate upwards.\<close>

function year_up :: "nat \<Rightarrow> nat \<Rightarrow> nat" where
  "year_up n y = (if days_before_year (Suc y) \<le> n then year_up n (Suc y) else y)"
  by auto
termination
proof (relation "measure (\<lambda>(n, y). Suc n - y)")
  fix n y assume "days_before_year (Suc y) \<le> n"
  with days_before_year_lower [of "Suc y"] have "y \<le> n" by simp
  then show "((n, Suc y), n, y) \<in> measure (\<lambda>(n, y). Suc n - y)" by simp
qed simp

declare year_up.simps [simp del]

definition year_of :: "nat \<Rightarrow> nat" where
  "year_of n = year_up n (n div 366 + 1)"

fun split_month :: "nat \<Rightarrow> nat \<Rightarrow> nat list \<Rightarrow> nat \<times> nat" where
  "split_month m d [] = (m, d)"
| "split_month m d (l # ls) = (if d < l then (m, d) else split_month (Suc m) (d - l) ls)"

definition date_of :: "nat \<Rightarrow> nat \<times> nat \<times> nat" where
  "date_of n =
     (let y = year_of n; (m, d) = split_month 1 (n - days_before_year y) (map (days_in_month y) [1..<12]) in (y, m, d + 1))"

lemma year_up_spec:
  "1 \<le> y \<Longrightarrow> days_before_year y \<le> n \<Longrightarrow>
   y \<le> year_up n y \<and> days_before_year (year_up n y) \<le> n \<and> n < days_before_year (Suc (year_up n y))"
proof (induction n y rule: year_up.induct)
  case (1 n y)
  then show ?case by (subst (1 2 3) year_up.simps) auto
qed

lemma year_of_spec: "1 \<le> year_of n \<and> days_before_year (year_of n) \<le> n \<and> n < days_before_year (year_of n) + days_in_year (year_of n)"
proof -
  have "days_before_year (n div 366 + 1) \<le> n" using days_before_year_upper [of "n div 366 + 1"] by (simp add: le_trans)
  from year_up_spec [OF _ this] have "1 \<le> year_of n" "days_before_year (year_of n) \<le> n" "n < days_before_year (Suc (year_of n))"
    by (auto simp: year_of_def)
  with days_before_year_Suc show ?thesis by simp
qed

lemma split_month_spec:
  "split_month m d ls = (m', d') \<Longrightarrow> m \<le> m' \<and> m' \<le> m + length ls \<and> d = sum_list (take (m' - m) ls) + d'
     \<and> (m' < m + length ls \<longrightarrow> d' < ls ! (m' - m))"
proof (induction m d ls rule: split_month.induct)
  case (2 m d l ls)
  show ?case
  proof (cases "d < l")
    case False
    with 2 have "Suc m \<le> m'" "m' \<le> Suc m + length ls" "d - l = sum_list (take (m' - Suc m) ls) + d'"
      "m' < Suc m + length ls \<longrightarrow> d' < ls ! (m' - Suc m)" by auto
    moreover have "m' - m = Suc (m' - Suc m)" using \<open>Suc m \<le> m'\<close> by simp
    ultimately show ?thesis using False by auto
  qed (use 2 in auto)
qed auto

lemma days_in_year_months: "days_in_year y = sum_list (map (days_in_month y) [1..<13])"
proof -
  have "[1..<13] = [1, 2, 3, 4, 5, 6, 7, 8, 9, 10, 11, 12 :: nat]" by (simp add: upt_conv_Cons)
  then show ?thesis by (simp add: days_in_year_def days_in_month_def)
qed

lemma date_of_spec:
  assumes "date_of n = (y, m, d)"
  shows "day_number y m d = n \<and> y = year_of n \<and> 1 \<le> m \<and> m \<le> 12 \<and> 1 \<le> d \<and> d \<le> days_in_month y m"
proof -
  let ?ls = "map (days_in_month y) [1..<12]"
  obtain d' where s: "split_month 1 (n - days_before_year y) ?ls = (m, d')" and d: "d = d' + 1" and y: "y = year_of n"
    using assms by (auto simp: date_of_def Let_def split: prod.splits)
  note yr = year_of_spec [of n, folded y]
  have m: "1 \<le> m" "m \<le> 12" and e: "n - days_before_year y = sum_list (take (m - 1) ?ls) + d'"
    and l: "m < 12 \<longrightarrow> d' < ?ls ! (m - 1)" using split_month_spec [OF s] by auto
  have t: "take (m - 1) ?ls = map (days_in_month y) [1..<m]" using m by (simp add: take_map min_def)
  have "d' < days_in_month y m"
  proof (cases "m < 12")
    case True
    then have "?ls ! (m - 1) = days_in_month y m" using m(1) by (simp add: nth_map)
    with l True show ?thesis by simp
  next
    case False
    then have "m = 12" using m by simp
    have "[1..<13] = [1..<12] @ [12 :: nat]" by (simp add: upt_conv_Cons)
    then have "days_in_year y = sum_list (map (days_in_month y) [1..<m]) + days_in_month y m"
      unfolding days_in_year_months \<open>m = 12\<close> by simp
    moreover have "n - days_before_year y < days_in_year y" using yr by linarith
    ultimately show ?thesis using e t by simp
  qed
  moreover have "day_number y m d = n" using e [unfolded t] d yr unfolding day_number_def days_before_month_def by linarith
  ultimately show ?thesis using d y m by simp
qed

section \<open>Instants\<close>

text \<open>An aware \<open>datetime\<close>: the wall clock and its offset from UTC in minutes.\<close>

record aware = utc +
  aw_offset :: int

definition SECOND :: int where "SECOND = 1000000"
definition MINUTE :: int where "MINUTE = 60 * SECOND"
definition DAY :: int where "DAY = 1440 * MINUTE"

lemma unit_values [simp]: "SECOND = 1000000" "MINUTE = 60000000" "DAY = 86400000000"
  by (simp_all add: SECOND_def MINUTE_def DAY_def)

lemma day_index: "k \<le> w div DAY \<longleftrightarrow> k * DAY \<le> w" for k w :: int
  by simp linarith

text \<open>The end of year 9999.\<close>

definition MAX_WALL :: int where "MAX_WALL = int (days_before_year 10000) * DAY"

definition wall_us :: "'a utc_scheme \<Rightarrow> int" where
  "wall_us t = int (day_number (utc_year t) (utc_month t) (utc_day t)) * DAY
     + ((int (utc_hour t) * 60 + int (utc_minute t)) * 60 + int (utc_second t)) * SECOND + int (utc_micro t)"

definition of_wall :: "int \<Rightarrow> utc" where
  "of_wall w =
     (let (y, m, d) = date_of (nat (w div DAY)); r = w mod DAY in
      \<lparr>utc_year = y, utc_month = m, utc_day = d, utc_hour = nat (r div (60 * MINUTE)), utc_minute = nat (r div MINUTE mod 60),
       utc_second = nat (r div SECOND mod 60), utc_micro = nat (r mod SECOND)\<rparr>)"

definition instant :: "aware \<Rightarrow> int" where
  "instant a = wall_us a - aw_offset a * MINUTE"

definition at_offset :: "int \<Rightarrow> int \<Rightarrow> aware" where
  "at_offset off us = utc.extend (of_wall (us + off * MINUTE)) (aware.fields off)"

text \<open>Results outside the years 1 to 9999 raise.\<close>

definition mk_aware :: "int \<Rightarrow> int \<Rightarrow> aware res" where
  "mk_aware off us = (if 0 \<le> us + off * MINUTE \<and> us + off * MINUTE < MAX_WALL then Inr (at_offset off us)
     else Inl (OverflowError ''date value out of range''))"

text \<open>\<open>a + timedelta\<close> keeps the offset; \<open>a.astimezone(utc)\<close>.\<close>

definition aware_add :: "aware \<Rightarrow> int \<Rightarrow> aware res" where
  "aware_add a d = mk_aware (aw_offset a) (instant a + d)"

definition to_utc :: "aware \<Rightarrow> aware res" where
  "to_utc a = mk_aware 0 (instant a)"

text \<open>\<open>weekday()\<close>: Monday is 0.\<close>

definition weekday :: "int \<Rightarrow> nat" where
  "weekday w = nat (w div DAY) mod 7"

lemma time_of_day:
  assumes "0 \<le> r" and "r < DAY"
  shows "((int (nat (r div (60 * MINUTE))) * 60 + int (nat (r div MINUTE mod 60))) * 60 + int (nat (r div SECOND mod 60))) * SECOND
      + int (nat (r mod SECOND)) = r"
    and "nat (r div (60 * MINUTE)) < 24" "nat (r div MINUTE mod 60) < 60" "nat (r div SECOND mod 60) < 60" "nat (r mod SECOND) < 1000000"
proof -
  have nn: "0 \<le> r div (60 * MINUTE)" "0 \<le> r div MINUTE mod 60" "0 \<le> r div SECOND mod 60" "0 \<le> r mod SECOND" using assms by auto
  have q: "r div MINUTE = r div SECOND div 60" "r div (60 * MINUTE) = r div SECOND div 60 div 60"
    using assms by (simp_all add: zdiv_zmult2_eq [symmetric])
  show "((int (nat (r div (60 * MINUTE))) * 60 + int (nat (r div MINUTE mod 60))) * 60 + int (nat (r div SECOND mod 60))) * SECOND
      + int (nat (r mod SECOND)) = r"
    using nn unfolding q by (simp only: nat_0_le int_nat_eq if_True) (simp add: div_mult_mod_eq)
  show "nat (r div (60 * MINUTE)) < 24" using assms by (simp add: nat_less_iff)
  show "nat (r div MINUTE mod 60) < 60" "nat (r div SECOND mod 60) < 60" "nat (r mod SECOND) < 1000000"
    by (simp_all add: nat_less_iff)
qed

lemma wall_of_wall:
  assumes "0 \<le> w"
  shows "wall_us (of_wall w) = w"
proof -
  obtain y m d where d: "date_of (nat (w div DAY)) = (y, m, d)" by (metis prod_cases3)
  have "day_number y m d = nat (w div DAY)" using date_of_spec [OF d] by blast
  then have n: "int (day_number y m d) = w div DAY" using assms by simp
  have r: "0 \<le> w mod DAY" "w mod DAY < DAY" by simp_all
  have "wall_us (of_wall w) = w div DAY * DAY + w mod DAY"
    unfolding wall_us_def of_wall_def d Let_def prod.case utc.select_convs n
    using time_of_day(1) [OF r] by linarith
  then show ?thesis by (simp only: div_mult_mod_eq)
qed

lemma year_of_le: "n < days_before_year 10000 \<Longrightarrow> year_of n \<le> 9999"
proof (rule ccontr)
  assume n: "n < days_before_year 10000" and "\<not> year_of n \<le> 9999"
  then have "10000 \<le> year_of n" by simp
  then have "days_before_year 10000 \<le> days_before_year (year_of n)" by (intro days_before_year_mono) simp_all
  with n year_of_spec [of n] show False by simp
qed

lemma of_wall_ok:
  assumes "0 \<le> w" and "w < MAX_WALL"
  shows "utc_ok (of_wall w)"
proof -
  obtain y m d where d: "date_of (nat (w div DAY)) = (y, m, d)" by (metis prod_cases3)
  note s = date_of_spec [OF d]
  have "w div DAY < int (days_before_year 10000)" using assms(2) by (simp add: MAX_WALL_def)
  then have "nat (w div DAY) < days_before_year 10000" using assms(1) by (simp add: nat_less_iff)
  then have "y \<le> 9999" "1 \<le> y" using s year_of_le year_of_spec by auto
  moreover have r: "0 \<le> w mod DAY" "w mod DAY < DAY" by simp_all
  ultimately show ?thesis unfolding utc_ok_def of_wall_def d Let_def prod.case utc.select_convs
    using s time_of_day(2-) [OF r] by blast
qed

lemma instant_at_offset: "0 \<le> us + off * MINUTE \<Longrightarrow> instant (at_offset off us) = us"
proof -
  assume a: "0 \<le> us + off * MINUTE"
  have "wall_us (at_offset off us) = wall_us (of_wall (us + off * MINUTE))"
    by (simp add: wall_us_def at_offset_def utc.defs aware.defs)
  with wall_of_wall [OF a] show ?thesis by (simp add: instant_def) (simp add: at_offset_def utc.defs aware.defs)
qed

lemma mk_aware_instant: "mk_aware off us = Inr a \<Longrightarrow> instant a = us \<and> aw_offset a = off"
  by (auto simp: mk_aware_def instant_at_offset split: if_splits) (simp add: at_offset_def utc.defs aware.defs)

section \<open>ISO text\<close>

definition aware_ok :: "aware \<Rightarrow> bool" where
  "aware_ok a \<longleftrightarrow> utc_ok (utc.truncate a) \<and> - 1440 < aw_offset a \<and> aw_offset a < 1440"

definition offset_str :: "int \<Rightarrow> string" where
  "offset_str off = (let n = nat \<bar>off\<bar> in (if off < 0 then ''-'' else ''+'') @ pad 2 (n div 60) @ '':'' @ pad 2 (n mod 60))"

text \<open>\<open>isoformat()\<close>.\<close>

definition isoformat :: "aware \<Rightarrow> string" where
  "isoformat a = utc_date_part (utc.truncate a) @ utc_micro_part (utc.truncate a) @ offset_str (aw_offset a)"

definition parse_offset :: "string \<Rightarrow> int option" where
  "parse_offset s =
     (if length s = 6 \<and> (s ! 0 = CHR ''+'' \<or> s ! 0 = CHR ''-'') \<and> s ! 3 = CHR '':'' then
        (case (digits_val (take 2 (drop 1 s)), digits_val (drop 4 s)) of
           (Some h, Some m) \<Rightarrow> if h < 24 \<and> m < 60
             then Some ((if s ! 0 = CHR ''-'' then - 1 else 1) * (int h * 60 + int m)) else None
         | _ \<Rightarrow> None)
      else None)"

text \<open>\<open>datetime.fromisoformat\<close> on the layouts \<open>isoformat\<close> writes; a text in such a layout without an
  offset is naive (\<open>None\<close>), every other layout is \<open>Untyped\<close> here.\<close>

definition fromisoformat :: "string \<Rightarrow> (utc \<times> int option) res" where
  "fromisoformat s =
     (let b = take (length s - 6) s; off = parse_offset (drop (length s - 6) s);
          fields = (\<lambda>b. case iso_fields b of
             None \<Rightarrow> Inl (ValueError ''Invalid isoformat string'')
           | Some t \<Rightarrow> if utc_ok t then Inr t else Inl (ValueError ''Invalid isoformat string'')) in
      if iso_layout s then res_map (\<lambda>t. (t, None)) (fields s)
      else if iso_layout b \<and> off \<noteq> None then res_map (\<lambda>t. (t, off)) (fields b)
      else Inl (Untyped ''isoformat''))"

text \<open>\<open>_require_aware\<close> after \<open>fromisoformat\<close>.\<close>

definition require_aware :: "string \<Rightarrow> utc \<times> int option \<Rightarrow> aware res" where
  "require_aware name v =
     (case v of
        (t, Some off) \<Rightarrow> Inr (utc.extend t (aware.fields off))
      | (t, None) \<Rightarrow> Inl (ValueError (name @ '' must include a timezone offset'')))"

lemma parse_offset_str: "- 1440 < off \<Longrightarrow> off < 1440 \<Longrightarrow> parse_offset (offset_str off) = Some off"
proof -
  assume o: "- 1440 < off" "off < 1440"
  let ?n = "nat \<bar>off\<bar>"
  have n: "?n div 60 < 24" "?n mod 60 < 60" using o by (auto simp: less_mult_imp_div_less nat_less_iff)
  have h: "?n div 60 < 10 ^ 2" "?n mod 60 < 10 ^ 2" using n by simp_all
  have e: "int (?n div 60) * 60 + int (?n mod 60) = \<bar>off\<bar>" by (metis abs_ge_zero div_mult_mod_eq int_nat_eq of_nat_add of_nat_mult of_nat_numeral)
  have l: "length (offset_str off) = 6" "offset_str off ! 3 = CHR '':''" "take 2 (drop 1 (offset_str off)) = pad 2 (?n div 60)"
    "drop 4 (offset_str off) = pad 2 (?n mod 60)" "offset_str off ! 0 = (if off < 0 then CHR ''-'' else CHR ''+'')"
    by (simp_all add: offset_str_def Let_def nth_append del: pad.simps)
  show ?thesis unfolding parse_offset_def l digits_val_pad [OF h(1)] digits_val_pad [OF h(2)] using n e by auto
qed

lemma layout_length: "iso_layout b \<Longrightarrow> length b = 19 \<or> length b = 26"
  by (simp add: iso_layout_def)

lemma fromisoformat_isoformat:
  assumes "aware_ok a"
  shows "fromisoformat (isoformat a) = Inr (utc.truncate a, Some (aw_offset a))"
proof -
  let ?b = "utc_date_part (utc.truncate a) @ utc_micro_part (utc.truncate a)"
  let ?o = "offset_str (aw_offset a)"
  have t: "utc_ok (utc.truncate a)" and o: "parse_offset ?o = Some (aw_offset a)" using assms by (auto simp: aware_ok_def parse_offset_str)
  have l: "length ?o = 6" by (simp add: offset_str_def Let_def)
  have s: "isoformat a = ?b @ ?o" by (simp add: isoformat_def)
  have "length ?b = 19 \<or> length ?b = 26" by (rule layout_length [OF iso_layout_format])
  then have "\<not> iso_layout (?b @ ?o)" using l layout_length [of "?b @ ?o"] by auto
  moreover have "take (length (?b @ ?o) - 6) (?b @ ?o) = ?b" "drop (length (?b @ ?o) - 6) (?b @ ?o) = ?o" using l by simp_all
  ultimately show ?thesis
    unfolding fromisoformat_def s Let_def using o iso_layout_format [of "utc.truncate a"] iso_fields_format [OF t] t by simp
qed

lemma aware_extend: "utc.extend (utc.truncate a) (aware.fields (aw_offset a)) = (a :: aware)"
  by (cases a) (simp add: utc.defs aware.defs)

lemma isoformat_roundtrip:
  "aware_ok a \<Longrightarrow> res_bind (fromisoformat (isoformat a)) (require_aware name) = Inr a"
  by (simp add: fromisoformat_isoformat require_aware_def aware_extend)

lemma isoformat_not_Nil [simp]: "isoformat a \<noteq> []"
  by (simp add: isoformat_def utc_date_part_def)

lemma mk_aware_ok: "mk_aware off us = Inr a \<Longrightarrow> - 1440 < off \<Longrightarrow> off < 1440 \<Longrightarrow> aware_ok a"
  using of_wall_ok [of "us + off * MINUTE"]
  by (auto simp: mk_aware_def aware_ok_def at_offset_def utc_ok_def utc.defs aware.defs split: if_splits)

end
