(* ===== verification/Scheduler.thy ===== *)
theory Scheduler
  imports Calendar "HOL-Library.List_Lexorder" "HOL-Library.Multiset"
begin

text \<open>
  Durable schedules (\<open>agent_core/scheduler.py\<close>): triggers and their occurrences, the persisted
  records, and the operations of \<open>SchedulerService\<close> on the schedule file.

  Parameters: the JSON library (\<open>dumps\<close>, \<open>loads\<close>), the time zone database (\<open>zones\<close>), the clock and
  fresh identifiers. A zone maps an instant to its wall clock and a wall clock time (the earlier one
  when it is ambiguous) to its instant; both count microseconds. Writes to the file succeed.
\<close>

section \<open>Triggers\<close>

datatype trigger =
    OneShotTrigger aware
  | CronTrigger string string
  | IntervalTrigger int "aware option"

record tz =
  tz_wall :: "int \<Rightarrow> int"
  tz_utc :: "int \<Rightarrow> int"

type_synonym zones = "string \<Rightarrow> tz option"

definition UTC :: tz where
  "UTC = \<lparr>tz_wall = (\<lambda>u. u), tz_utc = (\<lambda>w. w)\<rparr>"

definition timezone_of :: "zones \<Rightarrow> string \<Rightarrow> tz res" where
  "timezone_of zones name =
     (if name = ''UTC'' then Inr UTC
      else if name = [] then Inl (ValueError (''unknown IANA timezone: '' @ name))
      else case zones name of
        None \<Rightarrow> Inl (ValueError (''unknown IANA timezone: '' @ name))
      | Some z \<Rightarrow> Inr z)"

text \<open>The constructors validate their fields.\<close>

definition mk_cron :: "zones \<Rightarrow> string \<Rightarrow> string \<Rightarrow> trigger res" where
  "mk_cron zones expression tz = res_bind (timezone_of zones tz) (\<lambda>_. Inr (CronTrigger expression tz))"

definition mk_interval :: "json \<Rightarrow> aware option \<Rightarrow> trigger res" where
  "mk_interval seconds start_at =
     (case seconds of
        JInt n \<Rightarrow> if n < 1 then Inl (ValueError ''interval seconds must be a positive integer'')
          else Inr (IntervalTrigger n start_at)
      | _ \<Rightarrow> Inl (ValueError ''interval seconds must be a positive integer''))"

section \<open>Input\<close>

definition parse_schedule_prompt_input :: "json \<Rightarrow> string res" where
  "parse_schedule_prompt_input v =
     (case v of
        JStr s \<Rightarrow> if py_strip s = [] then Inl (ValueError ''prompt must be a non-empty string'') else Inr (py_strip s)
      | _ \<Rightarrow> Inl (ValueError ''prompt must be a non-empty string''))"

definition parse_schedule_id_input :: "json \<Rightarrow> string res" where
  "parse_schedule_id_input v =
     (case v of
        JStr s \<Rightarrow> if s = [] then Inl (ValueError ''schedule_id must be a non-empty string'') else Inr s
      | _ \<Rightarrow> Inl (ValueError ''schedule_id must be a non-empty string''))"

definition parse_schedule_enabled_input :: "json \<Rightarrow> bool res" where
  "parse_schedule_enabled_input v =
     (case v of JBool b \<Rightarrow> Inr b | _ \<Rightarrow> Inl (ValueError ''enabled must be a boolean''))"

definition unknown_fields :: "string list \<Rightarrow> jobj \<Rightarrow> string list" where
  "unknown_fields known d = sort (remdups (filter (\<lambda>k. k \<notin> set known) (map fst d)))"

definition read_datetime :: "string \<Rightarrow> string \<Rightarrow> aware res" where
  "read_datetime name s = res_bind (fromisoformat s) (require_aware name)"

definition parse_end_at_input :: "json \<Rightarrow> aware option res" where
  "parse_end_at_input v =
     (case v of
        JNull \<Rightarrow> Inr None
      | JStr s \<Rightarrow> if s = [] then Inl (ValueError ''end_at must be an ISO-8601 string or null'')
          else res_map Some (read_datetime ''schedule end_at'' s)
      | _ \<Rightarrow> Inl (ValueError ''end_at must be an ISO-8601 string or null''))"

definition unsupported :: "string \<Rightarrow> string list \<Rightarrow> exn" where
  "unsupported kind names = ValueError (kind @ '' trigger has unsupported field(s): '' @ py_join '', '' names)"

definition dquoted :: "string \<Rightarrow> string" where
  "dquoted s = CHR 0x22 # s @ [CHR 0x22]"

definition retry_error :: "string \<Rightarrow> string \<Rightarrow> string \<Rightarrow> exn" where
  "retry_error kind what example = ValueError (''Error: '' @ kind @ '' trigger requires '' @ what @ ''. Retry with '' @ example @ ''.'')"

definition parse_trigger_input :: "zones \<Rightarrow> json \<Rightarrow> trigger res" where
  "parse_trigger_input zones v =
     (case v of
        JObj d \<Rightarrow>
          if jget d ''type'' = JStr ''once'' then
            if unknown_fields [''type'', ''at''] d \<noteq> [] then Inl (unsupported ''once'' (unknown_fields [''type'', ''at''] d))
            else (case jget d ''at'' of
                JStr s \<Rightarrow> if s = [] then Inl (retry_error ''once'' (quoted ''at'') (''at='' @ dquoted ''<ISO-8601 with UTC offset>''))
                  else res_map OneShotTrigger (read_datetime ''once trigger at'' s)
              | _ \<Rightarrow> Inl (retry_error ''once'' (quoted ''at'') (''at='' @ dquoted ''<ISO-8601 with UTC offset>'')))
          else if jget d ''type'' = JStr ''cron'' then
            if unknown_fields [''type'', ''expression'', ''timezone''] d \<noteq> []
            then Inl (unsupported ''cron'' (unknown_fields [''type'', ''expression'', ''timezone''] d))
            else (case jget d ''expression'' of
                JStr e \<Rightarrow> if e = [] then Inl (retry_error ''cron'' (quoted ''expression'') (''expression='' @ dquoted ''<five-field cron>''))
                  else (case (case map_of d ''timezone'' of None \<Rightarrow> JStr ''UTC'' | Some z \<Rightarrow> z) of
                      JStr z \<Rightarrow> if z = [] then Inl (ValueError ''cron trigger timezone must be an IANA timezone name'')
                        else mk_cron zones e z
                    | _ \<Rightarrow> Inl (ValueError ''cron trigger timezone must be an IANA timezone name''))
              | _ \<Rightarrow> Inl (retry_error ''cron'' (quoted ''expression'') (''expression='' @ dquoted ''<five-field cron>'')))
          else if jget d ''type'' = JStr ''interval'' then
            if unknown_fields [''type'', ''seconds'', ''start_at''] d \<noteq> []
            then Inl (unsupported ''interval'' (unknown_fields [''type'', ''seconds'', ''start_at''] d))
            else (case jget d ''seconds'' of
                JInt n \<Rightarrow>
                  if n < 1 then Inl (retry_error ''interval'' (''positive integer '' @ quoted ''seconds'') ''seconds=<positive integer>'')
                  else (case jget d ''start_at'' of
                      JNull \<Rightarrow> Inr (IntervalTrigger n None)
                    | JStr s \<Rightarrow> if s = [] then Inl (ValueError ''interval trigger start_at must be an ISO-8601 string or null'')
                        else res_map (IntervalTrigger n \<circ> Some) (read_datetime ''interval trigger start_at'' s)
                    | _ \<Rightarrow> Inl (ValueError ''interval trigger start_at must be an ISO-8601 string or null''))
              | _ \<Rightarrow> Inl (retry_error ''interval'' (''positive integer '' @ quoted ''seconds'') ''seconds=<positive integer>''))
          else Inl (ValueError ''trigger.type must be once, cron, or interval'')
      | _ \<Rightarrow> Inl (ValueError ''trigger must be an object''))"

text \<open>\<open>None\<close> is a field that is left out.\<close>

record schedule_update =
  su_prompt :: "string option"
  su_trigger :: "trigger option"
  su_enabled :: "bool option"
  su_end_at :: "aware option option"

definition optional_field :: "(json \<Rightarrow> 'a res) \<Rightarrow> json option \<Rightarrow> 'a option res" where
  "optional_field f v = (case v of None \<Rightarrow> Inr None | Some x \<Rightarrow> res_map Some (f x))"

definition parse_schedule_update_input :: "zones \<Rightarrow> json \<Rightarrow> schedule_update res" where
  "parse_schedule_update_input zones v =
     (case v of
        JObj d \<Rightarrow>
          let unknown = unknown_fields [''prompt'', ''trigger'', ''enabled'', ''end_at''] d in
          if unknown \<noteq> [] then Inl (ValueError (''unsupported schedule update field(s): '' @ py_join '', '' unknown))
          else
            res_bind (optional_field parse_schedule_prompt_input (map_of d ''prompt'')) (\<lambda>p.
            res_bind (optional_field (parse_trigger_input zones) (map_of d ''trigger'')) (\<lambda>t.
            res_bind (optional_field parse_schedule_enabled_input (map_of d ''enabled'')) (\<lambda>e.
            res_bind (optional_field parse_end_at_input (map_of d ''end_at'')) (\<lambda>x.
              Inr \<lparr>su_prompt = p, su_trigger = t, su_enabled = e, su_end_at = x\<rparr>))))
      | _ \<Rightarrow> Inl (ValueError ''schedule update must be an object''))"

section \<open>Cron expressions\<close>

text \<open>\<open>int(text)\<close> without surrounding white space: a sign, then digits, single underscores between them.\<close>

definition strip_sign :: "string \<Rightarrow> bool \<times> string" where
  "strip_sign s = (if s \<noteq> [] \<and> hd s = CHR ''-'' then (True, tl s) else if s \<noteq> [] \<and> hd s = CHR ''+'' then (False, tl s) else (False, s))"

definition int_of_text :: "string \<Rightarrow> int res" where
  "int_of_text s =
     (let (neg, body) = strip_sign s; groups = py_split (CHR ''_'') body in
      if list_ex (\<lambda>g. g = []) groups then Inl (ValueError ''invalid literal for int() with base 10'')
      else case digits_val (concat groups) of
        None \<Rightarrow> Inl (ValueError ''invalid literal for int() with base 10'')
      | Some n \<Rightarrow> Inr (if neg then - int n else int n))"

text \<open>What one token of a field adds to the allowed numbers, as a predicate; \<open>range(low, high + 1, step)\<close>
  is empty for a negative step and an error for zero.\<close>

definition cron_token :: "int \<Rightarrow> int \<Rightarrow> string \<Rightarrow> (int \<Rightarrow> bool) res" where
  "cron_token low high token =
     (if token = ''*'' then Inr (\<lambda>n. low \<le> n \<and> n \<le> high)
      else if prefix ''*/'' token then
        res_bind (int_of_text (drop 2 token)) (\<lambda>step.
          if step = 0 then Inl (ValueError ''range() arg 3 must not be zero'')
          else Inr (\<lambda>n. 0 < step \<and> low \<le> n \<and> n \<le> high \<and> (n - low) mod step = 0))
      else if CHR ''-'' \<in> set token then
        res_bind (int_of_text (takeWhile (\<lambda>c. c \<noteq> CHR ''-'') token)) (\<lambda>a.
        res_bind (int_of_text (tl (dropWhile (\<lambda>c. c \<noteq> CHR ''-'') token))) (\<lambda>b.
          Inr (\<lambda>n. a \<le> n \<and> n \<le> b)))
      else res_map (\<lambda>k n. n = k) (int_of_text token))"

definition cron_field :: "string \<Rightarrow> int \<Rightarrow> int \<times> int \<Rightarrow> bool res" where
  "cron_field f number limits =
     res_map (list_ex (\<lambda>p. p number)) (res_list (cron_token (fst limits) (snd limits)) (py_split (CHR '','') f))"

text \<open>The fields are checked from the left and the first that does not allow its number decides.\<close>

fun cron_fields :: "(string \<times> int \<times> int \<times> int) list \<Rightarrow> bool res" where
  "cron_fields [] = Inr True"
| "cron_fields ((f, number, limits) # rest) =
     res_bind (cron_field f number limits) (\<lambda>ok. if ok then cron_fields rest else Inr False)"

definition CRON_LIMITS :: "(int \<times> int) list" where
  "CRON_LIMITS = [(0, 59), (0, 23), (1, 31), (1, 12), (0, 6)]"

definition cron_numbers :: "int \<Rightarrow> int list" where
  "cron_numbers w = (let t = of_wall w in
     [int (utc_minute t), int (utc_hour t), int (utc_day t), int (utc_month t), int ((weekday w + 1) mod 7)])"

definition cron_matches :: "string \<Rightarrow> int \<Rightarrow> bool res" where
  "cron_matches expression w =
     (let fields = py_words expression in
      if length fields \<noteq> 5 then Inl (ValueError ''cron expression must have five fields'')
      else cron_fields (zip fields (zip (cron_numbers w) CRON_LIMITS)))"

section \<open>Occurrences\<close>

definition CRON_HORIZON :: nat where "CRON_HORIZON = 60 * 24 * 370"

fun cron_search :: "(int \<Rightarrow> bool res) \<Rightarrow> nat \<Rightarrow> int \<Rightarrow> int option res" where
  "cron_search match 0 cursor = Inr None"
| "cron_search match (Suc n) cursor =
     res_bind (match cursor) (\<lambda>found.
       if found then Inr (Some cursor)
       else if MAX_WALL \<le> cursor + MINUTE then Inl (OverflowError ''date value out of range'')
       else cron_search match n (cursor + MINUTE))"

text \<open>The largest \<open>timedelta\<close> has 999999999 days.\<close>

definition timedelta_seconds :: "int \<Rightarrow> int res" where
  "timedelta_seconds n = (if n \<le> 86399999999999 then Inr (n * SECOND) else Inl (OverflowError ''days out of range''))"

definition next_minute :: "tz \<Rightarrow> aware \<Rightarrow> int" where
  "next_minute zone after = (let w = tz_wall zone (instant after) in w - w mod MINUTE + MINUTE)"

definition next_candidate :: "zones \<Rightarrow> trigger \<Rightarrow> aware \<Rightarrow> aware option res" where
  "next_candidate zones trigger after =
     (case trigger of
        OneShotTrigger at \<Rightarrow> Inr (if instant at > instant after then Some at else None)
      | IntervalTrigger seconds start_at \<Rightarrow>
          res_bind (timedelta_seconds seconds) (\<lambda>delta.
          res_bind (case start_at of Some s \<Rightarrow> Inr s | None \<Rightarrow> aware_add after delta) (\<lambda>candidate.
            if instant candidate \<le> instant after
            then res_map Some (aware_add candidate (((instant after - instant candidate) div delta + 1) * delta))
            else Inr (Some candidate)))
      | CronTrigger expression tzname \<Rightarrow>
          res_bind (timezone_of zones tzname) (\<lambda>zone.
          if MAX_WALL \<le> next_minute zone after then Inl (OverflowError ''date value out of range'')
          else res_bind (cron_search (cron_matches expression) CRON_HORIZON (next_minute zone after)) (\<lambda>found.
            case found of None \<Rightarrow> Inr None | Some w \<Rightarrow> res_map Some (mk_aware 0 (tz_utc zone w)))))"

definition next_occurrence :: "zones \<Rightarrow> trigger \<Rightarrow> aware option \<Rightarrow> aware \<Rightarrow> aware option res" where
  "next_occurrence zones trigger end_at after =
     res_map (\<lambda>candidate. case candidate of
         None \<Rightarrow> None
       | Some c \<Rightarrow> (case end_at of Some e \<Rightarrow> if instant c > instant e then None else Some c | None \<Rightarrow> Some c))
       (next_candidate zones trigger after)"

definition missed :: "trigger \<Rightarrow> aware \<Rightarrow> aware \<Rightarrow> string option res" where
  "missed trigger scheduled_for now =
     (case trigger of
        CronTrigger _ _ \<Rightarrow> Inr (if instant scheduled_for < instant now - MINUTE then Some ''missed cron occurrence'' else None)
      | IntervalTrigger seconds _ \<Rightarrow>
          res_map (\<lambda>delta. if instant now - instant scheduled_for > delta + 100000 then Some ''missed interval occurrence'' else None)
            (timedelta_seconds seconds)
      | OneShotTrigger _ \<Rightarrow> Inr None)"

definition next_after_missed_interval :: "int \<Rightarrow> aware \<Rightarrow> aware \<Rightarrow> aware res" where
  "next_after_missed_interval seconds scheduled_for now =
     res_bind (timedelta_seconds seconds) (\<lambda>delta.
       aware_add scheduled_for (((instant now - instant scheduled_for) div delta + 1) * delta))"

section \<open>Persisted form\<close>

record schedule =
  sd_id :: string
  sd_trigger :: trigger
  sd_prompt :: string
  sd_workspace :: string
  sd_origin_session_id :: string
  sd_session_id :: string
  sd_enabled :: bool
  sd_end_at :: "aware option"
  sd_created_at :: aware
  sd_next_run_at :: "aware option"

record scheduled_run =
  sr_id :: string
  sr_schedule_id :: string
  sr_session_id :: string
  sr_turn_id :: string
  sr_scheduled_for :: aware
  sr_started_at :: "aware option"
  sr_finished_at :: "aware option"
  sr_status :: string
  sr_error :: "string option"

definition dt :: "aware option \<Rightarrow> json" where
  "dt v = (case v of None \<Rightarrow> JNull | Some a \<Rightarrow> JStr (isoformat a))"

definition parse_dt :: "json \<Rightarrow> aware option res" where
  "parse_dt v =
     (case v of
        JStr s \<Rightarrow> if s = [] then Inr None else res_map Some (read_datetime ''datetime value'' s)
      | _ \<Rightarrow> Inr None)"

fun trigger_to_dict :: "trigger \<Rightarrow> jobj" where
  "trigger_to_dict (OneShotTrigger at) = [(''type'', JStr ''once''), (''at'', dt (Some at))]"
| "trigger_to_dict (CronTrigger e z) = [(''type'', JStr ''cron''), (''expression'', JStr e), (''timezone'', JStr z)]"
| "trigger_to_dict (IntervalTrigger n s) = [(''type'', JStr ''interval''), (''seconds'', JInt n), (''start_at'', dt s)]"

definition trigger_from_dict :: "zones \<Rightarrow> jobj \<Rightarrow> trigger res" where
  "trigger_from_dict zones d =
     (if jget d ''type'' = JStr ''once'' then
        res_bind (parse_dt (jget d ''at'')) (\<lambda>at.
          case at of None \<Rightarrow> Inl (ValueError ''once trigger requires at'') | Some a \<Rightarrow> Inr (OneShotTrigger a))
      else if jget d ''type'' = JStr ''cron'' then
        res_bind (jindex d ''expression'') (\<lambda>e.
        res_bind (py_str e) (\<lambda>e'.
        res_bind (py_str (case map_of d ''timezone'' of None \<Rightarrow> JStr ''UTC'' | Some z \<Rightarrow> z)) (mk_cron zones e')))
      else if jget d ''type'' = JStr ''interval'' then
        res_bind (parse_dt (jget d ''start_at'')) (mk_interval (jget d ''seconds''))
      else Inl (ValueError ''unknown trigger type''))"

definition schedule_to_dict :: "schedule \<Rightarrow> jobj" where
  "schedule_to_dict s =
     [(''schedule_id'', JStr (sd_id s)), (''trigger'', JObj (trigger_to_dict (sd_trigger s))),
      (''action'', JObj [(''prompt'', JStr (sd_prompt s)), (''type'', JStr ''agent_turn'')]),
      (''workspace'', JStr (sd_workspace s)), (''origin_session_id'', JStr (sd_origin_session_id s)),
      (''schedule_session_id'', JStr (sd_session_id s)), (''enabled'', JBool (sd_enabled s)), (''end_at'', dt (sd_end_at s)),
      (''created_at'', dt (Some (sd_created_at s))), (''next_run_at'', dt (sd_next_run_at s))]"

text \<open>\<open>dict(value)\<close> of an object; other values that \<open>dict\<close> accepts never occur in a record.\<close>

definition as_dict :: "json \<Rightarrow> jobj res" where
  "as_dict v = (case v of JObj d \<Rightarrow> Inr d | JList _ \<Rightarrow> Inl (Untyped ''dict'') | _ \<Rightarrow> Inl (TypeError ''object is not iterable''))"

definition str_at :: "jobj \<Rightarrow> string \<Rightarrow> string res" where
  "str_at d k = res_bind (jindex d k) py_str"

definition schedule_from_dict :: "zones \<Rightarrow> aware \<Rightarrow> jobj \<Rightarrow> schedule res" where
  "schedule_from_dict zones now d =
     res_bind (str_at d ''schedule_id'') (\<lambda>sid.
     res_bind (jindex d ''trigger'') (\<lambda>t. res_bind (as_dict t) (\<lambda>td. res_bind (trigger_from_dict zones td) (\<lambda>trigger.
     res_bind (jindex d ''action'') (\<lambda>a. res_bind (as_dict a) (\<lambda>ad. res_bind (str_at ad ''prompt'') (\<lambda>prompt.
     res_bind (str_at d ''workspace'') (\<lambda>workspace.
     res_bind (str_at d ''origin_session_id'') (\<lambda>origin.
     res_bind (str_at d ''schedule_session_id'') (\<lambda>session.
     res_bind (parse_dt (jget d ''end_at'')) (\<lambda>end_at.
     res_bind (parse_dt (jget d ''created_at'')) (\<lambda>created.
     res_bind (parse_dt (jget d ''next_run_at'')) (\<lambda>next.
       Inr \<lparr>sd_id = sid, sd_trigger = trigger, sd_prompt = prompt, sd_workspace = workspace, sd_origin_session_id = origin,
         sd_session_id = session, sd_enabled = py_truthy (case map_of d ''enabled'' of None \<Rightarrow> JBool True | Some v \<Rightarrow> v),
         sd_end_at = end_at, sd_created_at = (case created of Some c \<Rightarrow> c | None \<Rightarrow> now), sd_next_run_at = next\<rparr>)))))))))))))"

definition run_to_dict :: "scheduled_run \<Rightarrow> jobj" where
  "run_to_dict r =
     [(''run_id'', JStr (sr_id r)), (''schedule_id'', JStr (sr_schedule_id r)), (''session_id'', JStr (sr_session_id r)),
      (''turn_id'', JStr (sr_turn_id r)), (''scheduled_for'', dt (Some (sr_scheduled_for r))), (''started_at'', dt (sr_started_at r)),
      (''finished_at'', dt (sr_finished_at r)), (''status'', JStr (sr_status r)), (''error'', jopt_str (sr_error r))]"

definition run_from_dict :: "aware \<Rightarrow> jobj \<Rightarrow> scheduled_run res" where
  "run_from_dict now d =
     res_bind (str_at d ''run_id'') (\<lambda>rid.
     res_bind (str_at d ''schedule_id'') (\<lambda>sid.
     res_bind (str_at d ''session_id'') (\<lambda>ses.
     res_bind (str_at d ''turn_id'') (\<lambda>tid.
     res_bind (parse_dt (jget d ''scheduled_for'')) (\<lambda>sf.
     res_bind (parse_dt (jget d ''started_at'')) (\<lambda>st.
     res_bind (parse_dt (jget d ''finished_at'')) (\<lambda>fi.
     res_bind (py_str (case map_of d ''status'' of None \<Rightarrow> JStr ''scheduled'' | Some v \<Rightarrow> v)) (\<lambda>status.
       Inr \<lparr>sr_id = rid, sr_schedule_id = sid, sr_session_id = ses, sr_turn_id = tid,
         sr_scheduled_for = (case sf of Some x \<Rightarrow> x | None \<Rightarrow> now), sr_started_at = st, sr_finished_at = fi, sr_status = status,
         sr_error = jget_str d ''error''\<rparr>))))))))"

section \<open>The service\<close>

text \<open>What a record of the file does to the two dictionaries.\<close>

type_synonym tables = "(string, schedule) dict \<times> (string, scheduled_run) dict"

definition apply_record :: "zones \<Rightarrow> aware \<Rightarrow> tables \<Rightarrow> json \<Rightarrow> tables res" where
  "apply_record zones now st record =
     (case record of
        JObj d \<Rightarrow>
          if jget d ''op'' = JStr ''create'' \<or> jget d ''op'' = JStr ''update'' then
            res_bind (jindex d ''schedule'') (\<lambda>v. res_bind (as_dict v) (\<lambda>sd. res_bind (schedule_from_dict zones now sd) (\<lambda>s.
              Inr (AList.update (sd_id s) s (fst st), snd st))))
          else if jget d ''op'' = JStr ''delete'' then
            res_map (\<lambda>sid. (AList.delete sid (fst st), snd st)) (str_at d ''schedule_id'')
          else if jget d ''op'' = JStr ''run'' then
            res_bind (jindex d ''run'') (\<lambda>v. res_bind (as_dict v) (\<lambda>rd. res_bind (run_from_dict now rd) (\<lambda>r.
              Inr (fst st, AList.update (sr_id r) r (snd st)))))
          else Inr st
      | _ \<Rightarrow> Inl (AttributeError ''get''))"

text \<open>The loop of \<open>_reload\<close>: a last line without its line feed is a torn write.\<close>

fun reload_lines :: "json_lib \<Rightarrow> zones \<Rightarrow> aware \<Rightarrow> bool \<Rightarrow> string list \<Rightarrow> tables \<Rightarrow> tables res" where
  "reload_lines lib zones now complete [] st = Inr st"
| "reload_lines lib zones now complete (l # ls) st =
     (if py_strip l = [] then reload_lines lib zones now complete ls st
      else case jl_loads lib l of
        None \<Rightarrow> if ls = [] \<and> \<not> complete then Inr st else Inl JSONDecodeError
      | Some record \<Rightarrow> res_bind (apply_record zones now st record) (reload_lines lib zones now complete ls))"

definition ends_lf :: "string \<Rightarrow> bool" where
  "ends_lf text \<longleftrightarrow> text \<noteq> [] \<and> last text = LF"

definition reload_text :: "json_lib \<Rightarrow> zones \<Rightarrow> aware \<Rightarrow> string option \<Rightarrow> tables res" where
  "reload_text lib zones now file =
     (case file of
        None \<Rightarrow> Inr ([], [])
      | Some text \<Rightarrow> reload_lines lib zones now (ends_lf text) (py_splitlines text) ([], []))"

record scheduler =
  sv_file :: "string option"
  sv_schedules :: "(string, schedule) dict"
  sv_runs :: "(string, scheduled_run) dict"
  sv_running :: "string list"
  sv_has_runner :: bool

definition sv_append :: "json_lib \<Rightarrow> jobj \<Rightarrow> scheduler \<Rightarrow> scheduler" where
  "sv_append lib record sv =
     sv\<lparr>sv_file := Some ((case sv_file sv of None \<Rightarrow> [] | Some t \<Rightarrow> t) @ jl_dumps lib (JObj record) @ [LF])\<rparr>"

definition sv_reload :: "json_lib \<Rightarrow> zones \<Rightarrow> aware \<Rightarrow> scheduler \<Rightarrow> scheduler res" where
  "sv_reload lib zones now sv =
     res_map (\<lambda>(ss, rs). sv\<lparr>sv_schedules := ss, sv_runs := rs\<rparr>) (reload_text lib zones now (sv_file sv))"

definition put_schedule :: "json_lib \<Rightarrow> string \<Rightarrow> schedule \<Rightarrow> scheduler \<Rightarrow> scheduler" where
  "put_schedule lib op s sv =
     sv_append lib [(''op'', JStr op), (''schedule'', JObj (schedule_to_dict s))]
       (sv\<lparr>sv_schedules := AList.update (sd_id s) s (sv_schedules sv)\<rparr>)"

definition put_run :: "json_lib \<Rightarrow> scheduled_run \<Rightarrow> scheduler \<Rightarrow> scheduler" where
  "put_run lib r sv =
     sv_append lib [(''op'', JStr ''run''), (''run'', JObj (run_to_dict r))]
       (sv\<lparr>sv_runs := AList.update (sr_id r) r (sv_runs sv)\<rparr>)"

text \<open>An interval starts at the creation, other triggers may fire within the current second.\<close>

definition first_occurrence :: "zones \<Rightarrow> trigger \<Rightarrow> aware option \<Rightarrow> aware \<Rightarrow> aware option res" where
  "first_occurrence zones trigger end_at now =
     (case trigger of
        IntervalTrigger _ _ \<Rightarrow> next_occurrence zones trigger end_at now
      | _ \<Rightarrow> res_bind (aware_add now (- SECOND)) (next_occurrence zones trigger end_at))"

definition create_schedule ::
  "json_lib \<Rightarrow> zones \<Rightarrow> aware \<Rightarrow> string \<Rightarrow> (string \<Rightarrow> string) \<Rightarrow> trigger \<Rightarrow> json \<Rightarrow> string \<Rightarrow> string \<Rightarrow> string \<Rightarrow> aware option
    \<Rightarrow> scheduler \<Rightarrow> (scheduler \<times> schedule) res" where
  "create_schedule lib zones now sid resolve_path trigger prompt workspace origin session end_at sv =
     res_bind (parse_schedule_prompt_input prompt) (\<lambda>p.
     res_bind (first_occurrence zones trigger end_at now) (\<lambda>next.
     res_bind (sv_reload lib zones now sv) (\<lambda>sv1.
       let s = \<lparr>sd_id = sid, sd_trigger = trigger, sd_prompt = p, sd_workspace = resolve_path workspace,
         sd_origin_session_id = origin, sd_session_id = session, sd_enabled = True, sd_end_at = end_at, sd_created_at = now,
         sd_next_run_at = next\<rparr> in
       Inr (put_schedule lib ''create'' s sv1, s))))"

definition known_schedule :: "string \<Rightarrow> scheduler \<Rightarrow> schedule res" where
  "known_schedule sid sv =
     (case map_of (sv_schedules sv) sid of None \<Rightarrow> Inl (ValueError ''scheduled task not found'') | Some s \<Rightarrow> Inr s)"

definition update_schedule ::
  "json_lib \<Rightarrow> zones \<Rightarrow> aware \<Rightarrow> json \<Rightarrow> schedule_update \<Rightarrow> scheduler \<Rightarrow> (scheduler \<times> schedule) res" where
  "update_schedule lib zones now schedule_id changes sv =
     res_bind (parse_schedule_id_input schedule_id) (\<lambda>sid.
     res_bind (sv_reload lib zones now sv) (\<lambda>sv1.
     res_bind (known_schedule sid sv1) (\<lambda>s.
     res_bind (case su_prompt changes of None \<Rightarrow> Inr (sd_prompt s) | Some p \<Rightarrow> parse_schedule_prompt_input (JStr p)) (\<lambda>prompt.
       let trigger = (case su_trigger changes of None \<Rightarrow> sd_trigger s | Some t \<Rightarrow> t);
           enabled = (case su_enabled changes of None \<Rightarrow> sd_enabled s | Some b \<Rightarrow> b);
           end_at = (case su_end_at changes of None \<Rightarrow> sd_end_at s | Some e \<Rightarrow> e) in
       res_bind (first_occurrence zones trigger end_at now) (\<lambda>next.
         let s' = s\<lparr>sd_prompt := prompt, sd_trigger := trigger, sd_enabled := enabled, sd_end_at := end_at, sd_next_run_at := next\<rparr> in
         Inr (put_schedule lib ''update'' s' sv1, s'))))))"

definition delete_schedule :: "json_lib \<Rightarrow> zones \<Rightarrow> aware \<Rightarrow> json \<Rightarrow> scheduler \<Rightarrow> scheduler res" where
  "delete_schedule lib zones now schedule_id sv =
     res_bind (parse_schedule_id_input schedule_id) (\<lambda>sid.
     res_bind (sv_reload lib zones now sv) (\<lambda>sv1.
     res_bind (known_schedule sid sv1) (\<lambda>_.
       Inr (sv_append lib [(''op'', JStr ''delete''), (''schedule_id'', JStr sid)]
         (sv1\<lparr>sv_schedules := AList.delete sid (sv_schedules sv1)\<rparr>)))))"

subsection \<open>Polling\<close>

type_synonym due_run = "schedule \<times> aware \<times> string option"

definition is_due :: "aware \<Rightarrow> schedule \<Rightarrow> bool" where
  "is_due now s \<longleftrightarrow> sd_enabled s \<and> (case sd_next_run_at s of None \<Rightarrow> False | Some t \<Rightarrow> instant t \<le> instant now)"

definition due_of :: "aware \<Rightarrow> schedule \<Rightarrow> due_run res" where
  "due_of now s = (let t = the (sd_next_run_at s) in res_map (\<lambda>m. (s, t, m)) (missed (sd_trigger s) t now))"

text \<open>The next run of a due schedule, and a one-shot schedule switched off.\<close>

definition next_run :: "zones \<Rightarrow> aware \<Rightarrow> due_run \<Rightarrow> aware option res" where
  "next_run zones now d = (case d of (s, scheduled_for, miss) \<Rightarrow>
     if miss = None then next_occurrence zones (sd_trigger s) (sd_end_at s) scheduled_for
     else case sd_trigger s of
       IntervalTrigger seconds _ \<Rightarrow>
         res_map (\<lambda>c. case sd_end_at s of None \<Rightarrow> Some c | Some e \<Rightarrow> if instant c \<le> instant e then Some c else None)
           (next_after_missed_interval seconds scheduled_for now)
     | _ \<Rightarrow> next_occurrence zones (sd_trigger s) (sd_end_at s) now)"

definition is_one_shot :: "trigger \<Rightarrow> bool" where
  "is_one_shot t = (case t of OneShotTrigger _ \<Rightarrow> True | _ \<Rightarrow> False)"

definition advance :: "zones \<Rightarrow> aware \<Rightarrow> due_run \<Rightarrow> schedule res" where
  "advance zones now d =
     res_map (\<lambda>next. (fst d)\<lparr>sd_next_run_at := next, sd_enabled := sd_enabled (fst d) \<and> \<not> is_one_shot (sd_trigger (fst d))\<rparr>)
       (next_run zones now d)"

fun advance_all :: "json_lib \<Rightarrow> zones \<Rightarrow> aware \<Rightarrow> due_run list \<Rightarrow> scheduler \<Rightarrow> scheduler \<times> exn option" where
  "advance_all lib zones now [] sv = (sv, None)"
| "advance_all lib zones now (d # ds) sv =
     (case advance zones now d of
        Inl e \<Rightarrow> (sv, Some e)
      | Inr s \<Rightarrow> advance_all lib zones now ds (put_schedule lib ''update'' s sv))"

text \<open>The first locked block of \<open>poll_once\<close>.\<close>

definition poll_select :: "json_lib \<Rightarrow> zones \<Rightarrow> aware \<Rightarrow> scheduler \<Rightarrow> scheduler \<times> due_run list res" where
  "poll_select lib zones now sv =
     (case sv_reload lib zones now sv of
        Inl e \<Rightarrow> (sv, Inl e)
      | Inr sv1 \<Rightarrow>
          (case res_list (due_of now) (filter (is_due now) (map snd (sv_schedules sv1))) of
             Inl e \<Rightarrow> (sv1, Inl e)
           | Inr due \<Rightarrow>
               (case advance_all lib zones now due sv1 of
                  (sv2, Some e) \<Rightarrow> (sv2, Inl e)
                | (sv2, None) \<Rightarrow> (sv2, Inr due))))"

text \<open>The second locked block, once per due schedule; \<open>ids\<close> are the new run and turn.\<close>

definition start_run :: "json_lib \<Rightarrow> aware \<Rightarrow> string \<times> string \<Rightarrow> due_run \<Rightarrow> scheduler \<Rightarrow> scheduler \<times> scheduled_run" where
  "start_run lib now ids d sv = (case d of (s, scheduled_for, miss) \<Rightarrow>
     let r = \<lparr>sr_id = fst ids, sr_schedule_id = sd_id s, sr_session_id = sd_session_id s, sr_turn_id = snd ids,
           sr_scheduled_for = scheduled_for, sr_started_at = None, sr_finished_at = None, sr_status = ''scheduled'', sr_error = None\<rparr>;
         run_sv = (if miss \<noteq> None then (r\<lparr>sr_status := ''skipped'', sr_error := miss\<rparr>, sv)
           else if sd_id s \<in> set (sv_running sv)
           then (r\<lparr>sr_status := ''skipped'', sr_error := Some ''previous scheduled run still running''\<rparr>, sv)
           else if \<not> sv_has_runner sv
           then (r\<lparr>sr_status := ''failed'', sr_error := Some ''scheduled task runner is unavailable'', sr_started_at := Some now,
             sr_finished_at := Some now\<rparr>, sv)
           else (r\<lparr>sr_status := ''running'', sr_started_at := Some now\<rparr>, sv\<lparr>sv_running := List.insert (sd_id s) (sv_running sv)\<rparr>)) in
     (put_run lib (fst run_sv) (snd run_sv), fst run_sv))"

fun start_runs :: "json_lib \<Rightarrow> aware \<Rightarrow> (nat \<Rightarrow> string \<times> string) \<Rightarrow> nat \<Rightarrow> due_run list \<Rightarrow> scheduler \<Rightarrow> scheduler \<times> scheduled_run list" where
  "start_runs lib now ids k [] sv = (sv, [])"
| "start_runs lib now ids k (d # ds) sv =
     (let (sv1, r) = start_run lib now (ids k) d sv; (sv2, rs) = start_runs lib now ids (Suc k) ds sv1 in (sv2, r # rs))"

definition poll_once ::
  "json_lib \<Rightarrow> zones \<Rightarrow> aware \<Rightarrow> (nat \<Rightarrow> string \<times> string) \<Rightarrow> scheduler \<Rightarrow> scheduler \<times> scheduled_run list res" where
  "poll_once lib zones now ids sv =
     (case poll_select lib zones now sv of
        (sv1, Inl e) \<Rightarrow> (sv1, Inl e)
      | (sv1, Inr due) \<Rightarrow> (let (sv2, rs) = start_runs lib now ids 0 due sv1 in (sv2, Inr rs)))"

text \<open>The end of \<open>_execute\<close>: the runner returned, or raised \<open>error\<close>.\<close>

definition finish_run :: "json_lib \<Rightarrow> aware \<Rightarrow> string option \<Rightarrow> scheduled_run \<Rightarrow> scheduler \<Rightarrow> scheduler" where
  "finish_run lib finished error r sv =
     (let r1 = (case error of None \<Rightarrow> r\<lparr>sr_status := ''completed''\<rparr> | Some e \<Rightarrow> r\<lparr>sr_status := ''failed'', sr_error := Some e\<rparr>);
          r2 = r1\<lparr>sr_finished_at := Some finished\<rparr> in
      put_run lib r2 (sv\<lparr>sv_running := removeAll (sr_schedule_id r) (sv_running sv)\<rparr>))"

section \<open>Records survive the file\<close>

definition trigger_ok :: "zones \<Rightarrow> trigger \<Rightarrow> bool" where
  "trigger_ok zones t \<longleftrightarrow>
     (case t of
        OneShotTrigger a \<Rightarrow> aware_ok a
      | CronTrigger _ z \<Rightarrow> is_ok (timezone_of zones z)
      | IntervalTrigger n s \<Rightarrow> 1 \<le> n \<and> (case s of None \<Rightarrow> True | Some a \<Rightarrow> aware_ok a))"

definition opt_ok :: "aware option \<Rightarrow> bool" where
  "opt_ok v \<longleftrightarrow> (case v of None \<Rightarrow> True | Some a \<Rightarrow> aware_ok a)"

definition schedule_ok :: "zones \<Rightarrow> schedule \<Rightarrow> bool" where
  "schedule_ok zones s \<longleftrightarrow> trigger_ok zones (sd_trigger s) \<and> opt_ok (sd_end_at s) \<and> aware_ok (sd_created_at s) \<and> opt_ok (sd_next_run_at s)"

definition run_ok :: "scheduled_run \<Rightarrow> bool" where
  "run_ok r \<longleftrightarrow> aware_ok (sr_scheduled_for r) \<and> opt_ok (sr_started_at r) \<and> opt_ok (sr_finished_at r)"

lemma parse_dt_dt [simp]: "opt_ok v \<Longrightarrow> parse_dt (dt v) = Inr v"
  by (cases v) (simp_all add: dt_def parse_dt_def opt_ok_def read_datetime_def isoformat_roundtrip)

lemma opt_ok_simps [simp]: "opt_ok None" "opt_ok (Some a) = aware_ok a"
  by (simp_all add: opt_ok_def)

lemma trigger_roundtrip: "trigger_ok zones t \<Longrightarrow> trigger_from_dict zones (trigger_to_dict t) = Inr t"
proof (cases t)
  case (CronTrigger e z)
  assume "trigger_ok zones t"
  with CronTrigger obtain x where "timezone_of zones z = Inr x" by (auto simp: trigger_ok_def is_ok_iff)
  with CronTrigger show ?thesis by (simp add: trigger_from_dict_def mk_cron_def)
next
  case (IntervalTrigger n s)
  assume "trigger_ok zones t"
  with IntervalTrigger have "1 \<le> n" "opt_ok s" by (auto simp: trigger_ok_def opt_ok_def)
  with IntervalTrigger show ?thesis by (simp add: trigger_from_dict_def mk_interval_def)
qed (simp add: trigger_from_dict_def trigger_ok_def)

lemma schedule_roundtrip: "schedule_ok zones s \<Longrightarrow> schedule_from_dict zones now (schedule_to_dict s) = Inr s"
  unfolding schedule_from_dict_def schedule_to_dict_def
  by (simp add: schedule_ok_def str_at_def as_dict_def trigger_roundtrip py_truthy_def)

lemma run_roundtrip: "run_ok r \<Longrightarrow> run_from_dict now (run_to_dict r) = Inr r"
  unfolding run_from_dict_def run_to_dict_def
  by (cases "sr_error r") (simp_all add: run_ok_def str_at_def jget_str_def)

definition schedule_record :: "string \<Rightarrow> schedule \<Rightarrow> json" where
  "schedule_record op s = JObj [(''op'', JStr op), (''schedule'', JObj (schedule_to_dict s))]"

definition delete_record :: "string \<Rightarrow> json" where
  "delete_record sid = JObj [(''op'', JStr ''delete''), (''schedule_id'', JStr sid)]"

definition run_record :: "scheduled_run \<Rightarrow> json" where
  "run_record r = JObj [(''op'', JStr ''run''), (''run'', JObj (run_to_dict r))]"

lemma apply_schedule_record:
  "schedule_ok zones s \<Longrightarrow> op = ''create'' \<or> op = ''update'' \<Longrightarrow>
   apply_record zones now st (schedule_record op s) = Inr (AList.update (sd_id s) s (fst st), snd st)"
  by (auto simp: apply_record_def schedule_record_def as_dict_def schedule_roundtrip)

lemma apply_delete_record: "apply_record zones now st (delete_record sid) = Inr (AList.delete sid (fst st), snd st)"
  by (simp add: apply_record_def delete_record_def str_at_def)

lemma apply_run_record: "run_ok r \<Longrightarrow> apply_record zones now st (run_record r) = Inr (fst st, AList.update (sr_id r) r (snd st))"
  by (simp add: apply_record_def run_record_def as_dict_def run_roundtrip)

section \<open>The file and its records\<close>

text \<open>A record whose text is one line that decodes to it.\<close>

definition line_safe :: "json_lib \<Rightarrow> json \<Rightarrow> bool" where
  "line_safe lib r \<longleftrightarrow> jl_loads lib (jl_dumps lib r) = Some r \<and> list_all (\<lambda>c. \<not> py_linebreak c) (jl_dumps lib r)
     \<and> py_strip (jl_dumps lib r) \<noteq> []"

definition text_of :: "json_lib \<Rightarrow> json list \<Rightarrow> string" where
  "text_of lib rs = concat (map (\<lambda>r. jl_dumps lib r @ [LF]) rs)"

lemma splitlines_text: "list_all (line_safe lib) rs \<Longrightarrow> py_splitlines_aux [] (text_of lib rs @ rest) = map (jl_dumps lib) rs @ py_splitlines_aux [] rest"
  by (induction rs) (simp_all add: text_of_def line_safe_def splitlines_aux_line)

lemma reload_lines_records:
  "list_all (line_safe lib) rs \<Longrightarrow>
   reload_lines lib zones now complete (map (jl_dumps lib) rs @ ls) st =
     res_bind (replay (apply_record zones now) st rs) (reload_lines lib zones now complete ls)"
  by (induction rs arbitrary: st) (simp_all add: line_safe_def res_bind_assoc cong: res_bind_cong)

lemma reload_text_of:
  assumes "list_all (line_safe lib) rs"
  shows "reload_text lib zones now (Some (text_of lib rs)) = replay (apply_record zones now) ([], []) rs"
proof -
  have "py_splitlines (text_of lib rs) = map (jl_dumps lib) rs" using splitlines_text [OF assms, of "[]"] by (simp add: py_splitlines_def)
  with reload_lines_records [OF assms, of zones now _ "[]" "([], [])"] show ?thesis
    by (cases "replay (apply_record zones now) ([], []) rs") (simp_all add: reload_text_def)
qed

section \<open>Memory and file agree\<close>

definition tables_of :: "scheduler \<Rightarrow> tables" where
  "tables_of sv = (sv_schedules sv, sv_runs sv)"

text \<open>Taking a record up: into the file and into the tables.\<close>

definition sv_take :: "json_lib \<Rightarrow> zones \<Rightarrow> aware \<Rightarrow> scheduler \<times> json list \<Rightarrow> json \<Rightarrow> (scheduler \<times> json list) res" where
  "sv_take lib zones now m e =
     res_map (\<lambda>(ss, rn). ((fst m)\<lparr>sv_schedules := ss, sv_runs := rn,
         sv_file := Some ((case sv_file (fst m) of None \<Rightarrow> [] | Some t \<Rightarrow> t) @ jl_dumps lib e @ [LF])\<rparr>, snd m @ [e]))
       (apply_record zones now (tables_of (fst m)) e)"

interpretation sl: replay_log "apply_record zones now" "([], [])" "\<lambda>m. tables_of (fst m)" snd "sv_take lib zones now"
  for lib zones now
  by unfold_locales (auto simp: sv_take_def tables_of_def)

lemma put_schedule_takes:
  "schedule_ok zones s \<Longrightarrow> op = ''create'' \<or> op = ''update'' \<Longrightarrow>
   sv_take lib zones now (sv, rs) (schedule_record op s) = Inr (put_schedule lib op s sv, rs @ [schedule_record op s])"
  by (simp add: sv_take_def apply_schedule_record tables_of_def) (simp add: put_schedule_def sv_append_def schedule_record_def)

lemma put_run_takes:
  "run_ok r \<Longrightarrow> sv_take lib zones now (sv, rs) (run_record r) = Inr (put_run lib r sv, rs @ [run_record r])"
  by (simp add: sv_take_def apply_run_record tables_of_def) (simp add: put_run_def sv_append_def run_record_def)

lemma delete_takes:
  "sv_take lib zones now (sv, rs) (delete_record sid) =
     Inr (sv_append lib [(''op'', JStr ''delete''), (''schedule_id'', JStr sid)] (sv\<lparr>sv_schedules := AList.delete sid (sv_schedules sv)\<rparr>),
       rs @ [delete_record sid])"
  by (simp add: sv_take_def apply_delete_record tables_of_def) (simp add: sv_append_def delete_record_def)

text \<open>The service together with the records of its file.\<close>

definition sv_sync :: "json_lib \<Rightarrow> zones \<Rightarrow> scheduler \<Rightarrow> json list \<Rightarrow> bool" where
  "sv_sync lib zones sv rs \<longleftrightarrow> (\<forall>now. sl.in_sync zones now (sv, rs))
     \<and> (sv_file sv = Some (text_of lib rs) \<or> sv_file sv = None \<and> rs = [])
     \<and> (\<forall>s \<in> set (map snd (sv_schedules sv)). schedule_ok zones s) \<and> dict_ok (sv_schedules sv)
     \<and> (\<forall>(k, s) \<in> set (sv_schedules sv). sd_id s = k)"

lemma sv_sync_reload:
  assumes "sv_sync lib zones sv rs" and "list_all (line_safe lib) rs"
  shows "sv_reload lib zones now sv = Inr sv"
proof -
  have r: "replay (apply_record zones now) ([], []) rs = Inr (tables_of sv)"
    using assms(1) by (simp add: sv_sync_def sl.in_sync_def)
  have "reload_text lib zones now (sv_file sv) = Inr (tables_of sv)"
  proof (cases "sv_file sv")
    case None
    then have "rs = []" using assms(1) by (simp add: sv_sync_def)
    with r None show ?thesis by (simp add: reload_text_def)
  next
    case (Some t)
    then have "t = text_of lib rs" using assms(1) by (simp add: sv_sync_def)
    with Some r reload_text_of [OF assms(2), of zones now] show ?thesis by simp
  qed
  then show ?thesis by (simp add: sv_reload_def tables_of_def)
qed

lemma sv_sync_take:
  assumes "sv_sync lib zones sv rs" and "\<And>now. sv_take lib zones now (sv, rs) e = Inr (sv', rs @ [e])"
    and "\<forall>s \<in> set (map snd (sv_schedules sv')). schedule_ok zones s" and "dict_ok (sv_schedules sv')"
    and "\<forall>(k, s) \<in> set (sv_schedules sv'). sd_id s = k"
  shows "sv_sync lib zones sv' (rs @ [e])"
proof -
  have "sl.in_sync zones now (sv', rs @ [e])" for now
    using sl.in_sync_emit [OF _ assms(2)] assms(1) by (auto simp: sv_sync_def)
  moreover have "sv_file sv' = Some ((case sv_file sv of None \<Rightarrow> [] | Some t \<Rightarrow> t) @ jl_dumps lib e @ [LF])"
    using assms(2) [of undefined] by (auto simp: sv_take_def)
  then have "sv_file sv' = Some (text_of lib (rs @ [e]))" using assms(1) by (auto simp: sv_sync_def text_of_def)
  ultimately show ?thesis using assms(3-) by (simp add: sv_sync_def)
qed

lemma sync_put_schedule:
  assumes "sv_sync lib zones sv rs" and "schedule_ok zones s" and "op = ''create'' \<or> op = ''update''"
  shows "sv_sync lib zones (put_schedule lib op s sv) (rs @ [schedule_record op s])"
proof (rule sv_sync_take [OF assms(1) put_schedule_takes [OF assms(2,3)]])
  have t: "sv_schedules (put_schedule lib op s sv) = AList.update (sd_id s) s (sv_schedules sv)"
    by (simp add: put_schedule_def sv_append_def)
  show "dict_ok (sv_schedules (put_schedule lib op s sv))" using assms(1) by (simp add: t sv_sync_def)
  have mem: "x = s \<and> k = sd_id s \<or> (k, x) \<in> set (sv_schedules sv)" if "(k, x) \<in> set (sv_schedules (put_schedule lib op s sv))" for k x
    using dict_update_mem [OF that [unfolded t]] by blast
  show "\<forall>x \<in> set (map snd (sv_schedules (put_schedule lib op s sv))). schedule_ok zones x"
    using mem assms(1,2) by (fastforce simp: sv_sync_def)
  show "\<forall>(k, x) \<in> set (sv_schedules (put_schedule lib op s sv)). sd_id x = k"
    using mem assms(1) by (fastforce simp: sv_sync_def)
qed

lemma sync_put_run:
  assumes "sv_sync lib zones sv rs" and "run_ok r"
  shows "sv_sync lib zones (put_run lib r sv) (rs @ [run_record r])"
  by (rule sv_sync_take [OF assms(1) put_run_takes [OF assms(2)]])
     (use assms(1) in \<open>simp_all add: sv_sync_def put_run_def sv_append_def\<close>)

lemma sync_running: "sv_sync lib zones (sv\<lparr>sv_running := x\<rparr>) rs = sv_sync lib zones sv rs"
proof -
  have "tables_of (sv\<lparr>sv_running := x\<rparr>) = tables_of sv" by (simp add: tables_of_def)
  then show ?thesis by (simp add: sv_sync_def sl.in_sync_def)
qed

section \<open>Occurrences are valid times\<close>

lemma mk_aware_utc_ok: "mk_aware 0 us = Inr a \<Longrightarrow> aware_ok a"
  by (drule mk_aware_ok) simp_all

lemma aware_add_ok: "aware_ok a \<Longrightarrow> aware_add a d = Inr b \<Longrightarrow> aware_ok b"
  using mk_aware_ok [of "aw_offset a" "instant a + d" b] by (simp add: aware_add_def) (simp add: aware_ok_def)

lemma aware_add_instant: "aware_add a d = Inr b \<Longrightarrow> instant b = instant a + d"
  unfolding aware_add_def by (drule mk_aware_instant) simp

lemma next_occurrence_ok:
  assumes "next_occurrence zones t e after = Inr v" and "trigger_ok zones t" and "aware_ok after"
  shows "opt_ok v"
proof -
  obtain c where c: "next_candidate zones t after = Inr c"
    and vc: "v = (case c of None \<Rightarrow> None
       | Some c \<Rightarrow> (case e of Some e \<Rightarrow> if instant c > instant e then None else Some c | None \<Rightarrow> Some c))"
    using assms(1) by (auto simp: next_occurrence_def)
  have v: "v = None \<or> v = c" unfolding vc by (cases c; cases e) auto
  have "opt_ok c"
  proof (cases t)
    case (OneShotTrigger a)
    with c assms(2) show ?thesis by (auto simp: next_candidate_def trigger_ok_def split: if_splits)
  next
    case (CronTrigger x z)
    with c obtain zone :: tz and f where f: "(case f of None \<Rightarrow> Inr None | Some w \<Rightarrow> res_map Some (mk_aware 0 (tz_utc zone w))) = Inr c"
      by (auto simp: next_candidate_def split: if_splits)
    show ?thesis
    proof (cases f)
      case (Some w)
      with f obtain a where "mk_aware 0 (tz_utc zone w) = Inr a" "c = Some a" by auto
      then show ?thesis using mk_aware_utc_ok by simp
    qed (use f in simp)
  next
    case (IntervalTrigger n s)
    with c obtain delta b where b: "(case s of Some s \<Rightarrow> Inr s | None \<Rightarrow> aware_add after delta) = Inr b"
      and d: "c = Some b \<or> (\<exists>k c'. c = Some c' \<and> aware_add b k = Inr c')"
      by (auto simp: next_candidate_def split: if_splits)
    have "aware_ok b" using b assms(2,3) IntervalTrigger by (cases s) (auto simp: trigger_ok_def intro: aware_add_ok)
    with d show ?thesis by (auto intro: aware_add_ok)
  qed
  with v show ?thesis by auto
qed

lemma first_occurrence_ok:
  "first_occurrence zones t e now = Inr v \<Longrightarrow> trigger_ok zones t \<Longrightarrow> aware_ok now \<Longrightarrow> opt_ok v"
  by (cases t) (auto simp: first_occurrence_def intro: next_occurrence_ok aware_add_ok)

lemma next_run_ok:
  assumes "next_run zones now (s, sf, m) = Inr v" and "schedule_ok zones s" and "aware_ok now" and "aware_ok sf"
  shows "opt_ok v"
proof (cases "m = None")
  case True
  with assms show ?thesis by (auto simp: next_run_def schedule_ok_def intro: next_occurrence_ok)
next
  case False
  show ?thesis
  proof (cases "sd_trigger s")
    case (IntervalTrigger n st)
    with assms(1) False obtain c where "next_after_missed_interval n sf now = Inr c" "v = None \<or> v = Some c"
      by (auto simp: next_run_def split: option.splits if_splits)
    with assms(4) show ?thesis by (auto simp: next_after_missed_interval_def intro: aware_add_ok)
  qed (use assms False in \<open>auto simp: next_run_def schedule_ok_def intro: next_occurrence_ok\<close>)
qed

section \<open>Runs of the service\<close>

text \<open>What a poll is about to handle, and the schedules it rewrites before one fails.\<close>

definition poll_due :: "aware \<Rightarrow> scheduler \<Rightarrow> due_run list" where
  "poll_due now sv = (case res_list (due_of now) (filter (is_due now) (map snd (sv_schedules sv))) of Inl _ \<Rightarrow> [] | Inr ds \<Rightarrow> ds)"

fun advanced :: "zones \<Rightarrow> aware \<Rightarrow> due_run list \<Rightarrow> schedule list" where
  "advanced zones now [] = []"
| "advanced zones now (d # ds) = (case advance zones now d of Inl _ \<Rightarrow> [] | Inr s \<Rightarrow> s # advanced zones now ds)"

text \<open>
  Any interleaving of the operations: \<open>rs\<close> collects the records written, \<open>act\<close> the runs that are
  executing. A run is started for a schedule that some poll found due, and ends once.
\<close>

inductive sv_run :: "json_lib \<Rightarrow> zones \<Rightarrow> scheduler \<Rightarrow> json list \<Rightarrow> scheduled_run list \<Rightarrow> bool" for lib zones where
  new: "sv_run lib zones \<lparr>sv_file = None, sv_schedules = [], sv_runs = [], sv_running = [], sv_has_runner = b\<rparr> [] []"
| create: "sv_run lib zones sv rs act \<Longrightarrow> aware_ok now \<Longrightarrow> trigger_ok zones t \<Longrightarrow> opt_ok e \<Longrightarrow>
    create_schedule lib zones now sid rp t p w oi si e sv = Inr (sv', s) \<Longrightarrow> sv_run lib zones sv' (rs @ [schedule_record ''create'' s]) act"
| update: "sv_run lib zones sv rs act \<Longrightarrow> aware_ok now \<Longrightarrow> (\<And>t. su_trigger ch = Some t \<Longrightarrow> trigger_ok zones t) \<Longrightarrow>
    (\<And>e. su_end_at ch = Some e \<Longrightarrow> opt_ok e) \<Longrightarrow> update_schedule lib zones now sid ch sv = Inr (sv', s) \<Longrightarrow>
    sv_run lib zones sv' (rs @ [schedule_record ''update'' s]) act"
| delete: "sv_run lib zones sv rs act \<Longrightarrow> delete_schedule lib zones now (JStr sid) sv = Inr sv' \<Longrightarrow>
    sv_run lib zones sv' (rs @ [delete_record sid]) act"
| poll: "sv_run lib zones sv rs act \<Longrightarrow> aware_ok now \<Longrightarrow> poll_select lib zones now sv = (sv', r) \<Longrightarrow>
    sv_run lib zones sv' (rs @ map (schedule_record ''update'') (advanced zones now (poll_due now sv))) act"
| begin_run: "sv_run lib zones sv rs act \<Longrightarrow> aware_ok now \<Longrightarrow> aware_ok (fst (snd d)) \<Longrightarrow> start_run lib now ids d sv = (sv', r) \<Longrightarrow>
    sv_run lib zones sv' (rs @ [run_record r]) (if sr_status r = ''running'' then act @ [r] else act)"
| end_run: "sv_run lib zones sv rs act \<Longrightarrow> aware_ok now \<Longrightarrow> r \<in> set act \<Longrightarrow> finish_run lib now err r sv = sv' \<Longrightarrow>
    sv_run lib zones sv' (rs @ [run_record ((case err of None \<Rightarrow> r\<lparr>sr_status := ''completed''\<rparr>
      | Some m \<Rightarrow> r\<lparr>sr_status := ''failed'', sr_error := Some m\<rparr>)\<lparr>sr_finished_at := Some now\<rparr>)]) (remove1 r act)"

lemma advance_all_sync:
  assumes "sv_sync lib zones sv rs" and "advance_all lib zones now ds sv = (sv', r)"
    and "\<forall>(s, sf, m) \<in> set ds. schedule_ok zones s \<and> aware_ok sf" and "aware_ok now"
  shows "sv_sync lib zones sv' (rs @ map (schedule_record ''update'') (advanced zones now ds))"
  using assms
proof (induction ds arbitrary: sv rs)
  case (Cons d ds)
  obtain s sf m where d: "d = (s, sf, m)" by (cases d)
  show ?case
  proof (cases "advance zones now d")
    case (Inl e)
    with Cons.prems show ?thesis by simp
  next
    case (Inr s')
    then obtain v where "next_run zones now d = Inr v" and
      s': "s' = s\<lparr>sd_next_run_at := v, sd_enabled := sd_enabled s \<and> \<not> is_one_shot (sd_trigger s)\<rparr>"
      by (auto simp: advance_def d)
    then have "schedule_ok zones s'" using next_run_ok [of zones now s sf m v] Cons.prems(3,4) by (auto simp: schedule_ok_def d)
    from sync_put_schedule [OF Cons.prems(1) this, of "''update''"]
    have "sv_sync lib zones (put_schedule lib ''update'' s' sv) (rs @ [schedule_record ''update'' s'])" by simp
    from Cons.IH [OF this] Cons.prems(2-) Inr show ?thesis by simp
  qed
qed simp

lemma due_ok:
  assumes "sv_sync lib zones sv rs" and "res_list (due_of now) (filter (is_due now) (map snd (sv_schedules sv))) = Inr ds"
    and "(s, sf, m) \<in> set ds"
  shows "schedule_ok zones s \<and> aware_ok sf \<and> sd_next_run_at s = Some sf \<and> s \<in> set (map snd (sv_schedules sv))
    \<and> missed (sd_trigger s) sf now = Inr m \<and> is_due now s"
proof -
  obtain x where x: "x \<in> set (filter (is_due now) (map snd (sv_schedules sv)))" "due_of now x = Inr (s, sf, m)"
    using res_list_set [OF assms(2,3)] by blast
  then have "x = s" "sf = the (sd_next_run_at s)" "missed (sd_trigger s) sf now = Inr m" by (auto simp: due_of_def Let_def)
  moreover have "schedule_ok zones x" using assms(1) x(1) unfolding sv_sync_def by auto
  moreover have "sd_next_run_at x = Some (the (sd_next_run_at x))" using x(1) by (auto simp: is_due_def split: option.splits)
  moreover have "aware_ok (the (sd_next_run_at x))" using calculation(4,5) by (metis opt_ok_simps(2) schedule_ok_def)
  ultimately show ?thesis using x(1) by auto
qed

lemma poll_select_sync:
  assumes "sv_sync lib zones sv rs" and "list_all (line_safe lib) rs" and "poll_select lib zones now sv = (sv', r)" and "aware_ok now"
  shows "sv_sync lib zones sv' (rs @ map (schedule_record ''update'') (advanced zones now (poll_due now sv)))"
proof (cases "res_list (due_of now) (filter (is_due now) (map snd (sv_schedules sv)))")
  case (Inl e)
  then have "poll_due now sv = []" by (simp add: poll_due_def)
  moreover have "sv' = sv" using assms(3) Inl by (simp add: poll_select_def sv_sync_reload [OF assms(1,2)])
  ultimately
  show ?thesis using assms(1) by simp
next
  case (Inr ds)
  obtain sv2 x where a: "advance_all lib zones now ds sv = (sv2, x)" by fastforce
  have "sv' = sv2" using assms(3) a Inr by (simp add: poll_select_def sv_sync_reload [OF assms(1,2)] split: option.splits)
  moreover have "\<forall>(s, sf, m) \<in> set ds. schedule_ok zones s \<and> aware_ok sf" using due_ok [OF assms(1) Inr] by blast
  ultimately show ?thesis using advance_all_sync [OF assms(1) a _ assms(4)] Inr by (simp add: poll_due_def)
qed

lemma start_run_ok: "start_run lib now ids d sv = (sv', r) \<Longrightarrow> aware_ok now \<Longrightarrow> aware_ok (fst (snd d)) \<Longrightarrow> run_ok r"
  by (cases d) (auto simp: start_run_def run_ok_def Let_def split: if_splits)

lemma start_run_put:
  assumes "start_run lib now ids d sv = (sv', r)"
  shows "\<exists>x. sv' = put_run lib r (sv\<lparr>sv_running := x\<rparr>)
    \<and> x = (if sr_status r = ''running'' then List.insert (sr_schedule_id r) (sv_running sv) else sv_running sv)
    \<and> (sr_status r = ''running'' \<longrightarrow> sr_schedule_id r \<notin> set (sv_running sv))"
  using assms by (cases d) (auto simp: start_run_def Let_def split: if_splits)

lemma known_schedule_iff: "known_schedule sid sv = Inr s \<longleftrightarrow> map_of (sv_schedules sv) sid = Some s"
  by (simp add: known_schedule_def split: option.splits)

lemma sv_run_invariant:
  "sv_run lib zones sv rs act \<Longrightarrow> list_all (line_safe lib) rs \<Longrightarrow>
   sv_sync lib zones sv rs \<and> (\<forall>r \<in> set act. run_ok r) \<and> distinct (map sr_schedule_id act)
   \<and> set (map sr_schedule_id act) = set (sv_running sv)"
proof (induction rule: sv_run.induct)
  case (new b)
  then show ?case by (simp add: sv_sync_def sl.in_sync_def) (simp add: tables_of_def)
next
  case (create sv rs act now t e sid rp p w oi si sv' s)
  then have sync: "sv_sync lib zones sv rs" and safe: "list_all (line_safe lib) rs" by simp_all
  note rel = sv_sync_reload [OF sync safe, of now]
  from create.hyps(5) obtain nx where n: "first_occurrence zones t e now = Inr nx" and sv': "sv' = put_schedule lib ''create'' s sv"
    and s: "sd_trigger s = t" "sd_end_at s = e" "sd_created_at s = now" "sd_next_run_at s = nx"
    by (auto simp: create_schedule_def rel Let_def)
  have "schedule_ok zones s" using s create.hyps first_occurrence_ok [OF n] by (simp add: schedule_ok_def)
  from sync_put_schedule [OF sync this] create show ?case by (simp add: sv') (simp add: put_schedule_def sv_append_def)
next
  case (update sv rs act now ch sid sv' s)
  then have sync: "sv_sync lib zones sv rs" and safe: "list_all (line_safe lib) rs" by simp_all
  note rel = sv_sync_reload [OF sync safe, of now]
  from update.hyps(5) obtain k s0 nx t e where k: "map_of (sv_schedules sv) k = Some s0"
    and t: "t = (case su_trigger ch of None \<Rightarrow> sd_trigger s0 | Some t \<Rightarrow> t)" and e: "e = (case su_end_at ch of None \<Rightarrow> sd_end_at s0 | Some e \<Rightarrow> e)"
    and n: "first_occurrence zones t e now = Inr nx" and sv': "sv' = put_schedule lib ''update'' s sv"
    and s: "sd_trigger s = t" "sd_end_at s = e" "sd_created_at s = sd_created_at s0" "sd_next_run_at s = nx"
    by (auto simp: update_schedule_def rel Let_def known_schedule_iff)
  have "schedule_ok zones s0" using sync map_of_SomeD [OF k] unfolding sv_sync_def by (metis image_eqI set_map snd_conv)
  then have "trigger_ok zones t" "opt_ok e" "aware_ok (sd_created_at s0)"
    using update.hyps(3,4) by (auto simp: t e schedule_ok_def split: option.splits)
  then have "schedule_ok zones s" using s first_occurrence_ok [OF n] update.hyps(2) by (simp add: schedule_ok_def)
  from sync_put_schedule [OF sync this] update show ?case by (simp add: sv') (simp add: put_schedule_def sv_append_def)
next
  case (delete sv rs act now sid sv')
  then have sync: "sv_sync lib zones sv rs" and safe: "list_all (line_safe lib) rs" by simp_all
  note rel = sv_sync_reload [OF sync safe, of now]
  have sv': "sv' = sv_append lib [(''op'', JStr ''delete''), (''schedule_id'', JStr sid)] (sv\<lparr>sv_schedules := AList.delete sid (sv_schedules sv)\<rparr>)"
    using delete.hyps(2) by (auto simp: delete_schedule_def rel parse_schedule_id_input_def split: if_splits)
  have sub: "set (AList.delete sid (sv_schedules sv)) \<subseteq> set (sv_schedules sv)" by (auto simp: AList.delete_eq)
  have tk: "sv_take lib zones n (sv, rs) (delete_record sid) = Inr (sv', rs @ [delete_record sid])" for n
    unfolding sv' by (rule delete_takes)
  have "sv_sync lib zones sv' (rs @ [delete_record sid])"
    by (rule sv_sync_take [OF sync tk])
       (use sync sub in \<open>auto simp: sv' sv_append_def sv_sync_def\<close>)
  with delete show ?case by (simp add: sv' sv_append_def)
next
  case (poll sv rs act now sv' r)
  then have sync: "sv_sync lib zones sv rs" and safe: "list_all (line_safe lib) rs" by simp_all
  have "sv_running (fst (advance_all lib zones now ds x)) = sv_running x" for ds x
    by (induction ds arbitrary: x) (auto simp: put_schedule_def sv_append_def split: sum.splits)
  then have "sv_running sv' = sv_running sv" using poll.hyps(3)
    by (auto simp: poll_select_def sv_sync_reload [OF sync safe] split: sum.splits prod.splits option.splits) (metis fst_conv)+
  with poll poll_select_sync [OF sync safe poll.hyps(3,2)] show ?case by simp
next
  case (begin_run sv rs act now d ids sv' r)
  then have sync: "sv_sync lib zones sv rs" by simp
  obtain x where sv': "sv' = put_run lib r (sv\<lparr>sv_running := x\<rparr>)"
    and x: "x = (if sr_status r = ''running'' then List.insert (sr_schedule_id r) (sv_running sv) else sv_running sv)"
    and new: "sr_status r = ''running'' \<longrightarrow> sr_schedule_id r \<notin> set (sv_running sv)" using start_run_put [OF begin_run.hyps(4)] by blast
  have ok: "run_ok r" by (rule start_run_ok [OF begin_run.hyps(4,2,3)])
  have run: "sv_running sv' = x" by (simp add: sv' put_run_def sv_append_def)
  have "sv_sync lib zones sv' (rs @ [run_record r])" unfolding sv' by (rule sync_put_run [OF _ ok]) (simp add: sync_running sync)
  with begin_run x new ok show ?case unfolding run by auto
next
  case (end_run sv rs act now r err sv')
  then have sync: "sv_sync lib zones sv rs" and inv: "\<forall>r \<in> set act. run_ok r" "distinct (map sr_schedule_id act)"
    "set (map sr_schedule_id act) = set (sv_running sv)" by simp_all
  let ?r = "(case err of None \<Rightarrow> r\<lparr>sr_status := ''completed''\<rparr> | Some m \<Rightarrow> r\<lparr>sr_status := ''failed'', sr_error := Some m\<rparr>)\<lparr>sr_finished_at := Some now\<rparr>"
  have sv': "sv' = put_run lib ?r (sv\<lparr>sv_running := removeAll (sr_schedule_id r) (sv_running sv)\<rparr>)"
    using end_run.hyps(4) by (simp add: finish_run_def)
  have "run_ok r" using end_run.hyps(3) inv(1) by blast
  then have "run_ok ?r" using end_run.hyps(2) by (cases err) (simp_all add: run_ok_def)
  then have "sv_sync lib zones sv' (rs @ [run_record ?r])" unfolding sv' by (rule sync_put_run [rotated]) (simp add: sync_running sync)
  moreover have "set (map sr_schedule_id (remove1 r act)) = set (map sr_schedule_id act) - {sr_schedule_id r}"
    using end_run.hyps(3) inv(2) by (auto simp: distinct_map inj_on_def)
  moreover have "sv_running sv' = removeAll (sr_schedule_id r) (sv_running sv)" by (simp add: sv' put_run_def sv_append_def)
  moreover have "distinct (map sr_schedule_id (remove1 r act))" using inv(2) by (simp add: distinct_map inj_on_def)
  moreover have "\<forall>x \<in> set (remove1 r act). run_ok x" using inv(1) notin_set_remove1 by metis
  ultimately show ?case using inv(3) by simp
qed

section \<open>What the service guarantees\<close>


text \<open>A service on which one schedule was created; its JSON library is a concrete one that writes a
  fixed line.\<close>

definition demo_instant :: aware where
  "demo_instant = at_offset 0 63839318400000000"

definition demo_lib :: "json \<Rightarrow> json_lib" where
  "demo_lib r = \<lparr>jl_dumps = (\<lambda>_. ''{}''), jl_loads = (\<lambda>_. Some r)\<rparr>"

definition demo_schedule :: schedule where
  "demo_schedule = \<lparr>sd_id = ''s1'', sd_trigger = OneShotTrigger demo_instant, sd_prompt = ''hello'', sd_workspace = ''/w'',
     sd_origin_session_id = ''o'', sd_session_id = ''n'', sd_enabled = True, sd_end_at = None, sd_created_at = demo_instant,
     sd_next_run_at = Some demo_instant\<rparr>"

definition demo_empty :: scheduler where
  "demo_empty = \<lparr>sv_file = None, sv_schedules = [], sv_runs = [], sv_running = [], sv_has_runner = True\<rparr>"

definition demo_record :: json where
  "demo_record = schedule_record ''create'' demo_schedule"

abbreviation demo_json :: json_lib where
  "demo_json \<equiv> demo_lib demo_record"

definition demo_service :: scheduler where
  "demo_service = put_schedule demo_json ''create'' demo_schedule demo_empty"

lemma MAX_WALL_value: "MAX_WALL = 315537897600000000"
  by (simp add: MAX_WALL_def days_before_year_def)

lemma demo_instant_facts: "aware_ok demo_instant" "instant demo_instant = 63839318400000000" "aw_offset demo_instant = 0"
proof -
  have "mk_aware 0 63839318400000000 = Inr demo_instant" by (simp add: mk_aware_def demo_instant_def MAX_WALL_value)
  then show "aware_ok demo_instant" "instant demo_instant = 63839318400000000" "aw_offset demo_instant = 0"
    using mk_aware_ok [where off = 0] mk_aware_instant by (auto simp del: unit_values)
qed

lemma demo_create:
  "create_schedule demo_json zones demo_instant ''s1'' (\<lambda>w. w) (OneShotTrigger demo_instant) (JStr ''hello'') ''/w'' ''o'' ''n'' None demo_empty
     = Inr (demo_service, demo_schedule)"
proof -
  have "mk_aware 0 (63839318400000000 - SECOND) = Inr (at_offset 0 (63839318400000000 - SECOND))"
    by (simp add: mk_aware_def MAX_WALL_value)
  moreover have "instant (at_offset 0 (63839318400000000 - SECOND)) = 63839318400000000 - SECOND" by (rule instant_at_offset) simp
  ultimately have "first_occurrence zones (OneShotTrigger demo_instant) None demo_instant = Inr (Some demo_instant)"
    by (simp add: first_occurrence_def aware_add_def demo_instant_facts next_occurrence_def next_candidate_def del: unit_values) simp
  moreover have "parse_schedule_prompt_input (JStr ''hello'') = Inr ''hello''" by code_simp
  ultimately show ?thesis
    by (simp add: create_schedule_def sv_reload_def demo_empty_def reload_text_def demo_service_def demo_schedule_def Let_def)
qed

lemma demo_service_run: "sv_run demo_json zones demo_service [demo_record] []"
proof -
  have "sv_run demo_json zones demo_empty [] []" unfolding demo_empty_def by (rule sv_run.new)
  from sv_run.create [OF this demo_instant_facts(1) _ _ demo_create] show ?thesis
    by (simp add: trigger_ok_def demo_instant_facts demo_record_def)
qed

lemma demo_safe: "list_all (line_safe demo_json) [demo_record]"
proof -
  have "list_all (\<lambda>c. \<not> py_linebreak c) ''{}''" "py_strip ''{}'' \<noteq> []" by code_simp+
  then show ?thesis by (simp add: line_safe_def demo_lib_def)
qed


text \<open>The runs of one schedule never overlap: at any moment at most one run of a schedule is
  executing, and the set of running schedules is exactly that of the executing runs.\<close>

theorem scheduled_runs_do_not_overlap:
  assumes "sv_run lib zones sv rs act" and "list_all (line_safe lib) rs"
  shows "distinct (map sr_schedule_id act) \<and> set (map sr_schedule_id act) = set (sv_running sv)"
  using sv_run_invariant [OF assms] by blast

definition demo_started :: "scheduler \<times> scheduled_run" where
  "demo_started = start_run demo_json demo_instant (''r1'', ''t1'') (demo_schedule, demo_instant, None) demo_empty"

definition demo_run :: scheduled_run where
  "demo_run = \<lparr>sr_id = ''r1'', sr_schedule_id = ''s1'', sr_session_id = ''n'', sr_turn_id = ''t1'', sr_scheduled_for = demo_instant,
     sr_started_at = Some demo_instant, sr_finished_at = None, sr_status = ''running'', sr_error = None\<rparr>"

definition demo_busy :: scheduler where
  "demo_busy = fst (start_run (demo_lib (run_record demo_run)) demo_instant (''r1'', ''t1'') (demo_schedule, demo_instant, None) demo_empty)"

theorem scheduled_runs_do_not_overlap_witness:
  "sv_run (demo_lib (run_record demo_run)) (\<lambda>_. None) demo_busy [run_record demo_run] [demo_run] \<and> sv_running demo_busy = [''s1'']
   \<and> distinct (map sr_schedule_id [demo_run])"
proof -
  let ?lib = "demo_lib (run_record demo_run)"
  have "snd (start_run ?lib demo_instant (''r1'', ''t1'') (demo_schedule, demo_instant, None) demo_empty) = demo_run"
    by (simp add: start_run_def Let_def demo_schedule_def demo_empty_def demo_run_def)
  then have st: "start_run ?lib demo_instant (''r1'', ''t1'') (demo_schedule, demo_instant, None) demo_empty = (demo_busy, demo_run)"
    by (simp add: demo_busy_def prod_eq_iff)
  have "sv_run ?lib (\<lambda>_. None) demo_empty [] []" unfolding demo_empty_def by (rule sv_run.new)
  from sv_run.begin_run [OF this demo_instant_facts(1) _ st] have run: "sv_run ?lib (\<lambda>_. None) demo_busy [run_record demo_run] [demo_run]"
    by (simp add: demo_instant_facts) (simp add: demo_run_def)
  have "list_all (\<lambda>c. \<not> py_linebreak c) ''{}''" "py_strip ''{}'' \<noteq> []" by code_simp+
  then have "list_all (line_safe ?lib) [run_record demo_run]" by (simp add: line_safe_def demo_lib_def)
  from scheduled_runs_do_not_overlap [OF run this] run show ?thesis
    by (simp add: demo_busy_def start_run_def Let_def demo_schedule_def demo_empty_def put_run_def sv_append_def)
qed

subsection \<open>Occurrences\<close>

text \<open>A zone whose clock is never set back.\<close>

definition clock_forward :: "tz \<Rightarrow> bool" where
  "clock_forward zone \<longleftrightarrow> (\<forall>u w. tz_wall zone u < w \<longrightarrow> u < tz_utc zone w)"

lemma cron_search_first:
  "cron_search match n cursor = Inr (Some w) \<Longrightarrow>
   \<exists>j < n. w = cursor + int j * MINUTE \<and> match w = Inr True \<and> (\<forall>i < j. match (cursor + int i * MINUTE) = Inr False)"
proof (induction n arbitrary: cursor)
  case (Suc n)
  then obtain f where f: "match cursor = Inr f" by auto
  show ?case
  proof (cases f)
    case True
    with f Suc.prems show ?thesis by (intro exI [of _ 0]) simp
  next
    case False
    with f Suc.prems have "cron_search match n (cursor + MINUTE) = Inr (Some w)" by (simp split: if_splits)
    from Suc.IH [OF this] obtain j where j: "j < n" "w = cursor + MINUTE + int j * MINUTE" "match w = Inr True"
      "\<forall>i < j. match (cursor + MINUTE + int i * MINUTE) = Inr False" by blast
    have "match (cursor + int i * MINUTE) = Inr False" if "i < Suc j" for i
      using that f False j(4) by (cases i) (auto simp: algebra_simps)
    with j show ?thesis by (intro exI [of _ "Suc j"]) (auto simp: algebra_simps)
  qed
qed simp

lemma next_minute_after: "tz_wall zone (instant after) < next_minute zone after"
  by (simp add: next_minute_def Let_def)

text \<open>The first member of the sequence \<open>b, b + d, b + 2 d, ...\<close> after \<open>a\<close>.\<close>

definition first_after :: "int \<Rightarrow> int \<Rightarrow> int \<Rightarrow> int \<Rightarrow> bool" where
  "first_after b d a c \<longleftrightarrow> a < c \<and> (\<exists>k \<ge> 0. c = b + k * d) \<and> (\<forall>k \<ge> 0. a < b + k * d \<longrightarrow> c \<le> b + k * d)"

lemma first_after_step:
  assumes "0 < d" and "b \<le> a"
  shows "first_after b d a (b + ((a - b) div d + 1) * d)"
proof -
  let ?q = "(a - b) div d"
  have q: "0 \<le> ?q" using assms by (simp add: pos_imp_zdiv_nonneg_iff)
  have e: "a - b = ?q * d + (a - b) mod d" by simp
  have m: "0 \<le> (a - b) mod d" "(a - b) mod d < d" using assms(1) by simp_all
  have "(?q + 1) * d = ?q * d + d" by (simp add: distrib_right)
  then have "a < b + (?q + 1) * d" using e m by linarith
  moreover have "b + (?q + 1) * d \<le> b + k * d" if "a < b + k * d" for k
  proof -
    have "a - b < k * d" using that by simp
    have "?q < k"
    proof (rule ccontr)
      assume "\<not> ?q < k"
      then have "k * d \<le> ?q * d" using assms(1) by (intro mult_right_mono) simp_all
      with \<open>a - b < k * d\<close> e m show False by linarith
    qed
    then show ?thesis using assms(1) by (simp add: mult_right_mono)
  qed
  ultimately show ?thesis using q unfolding first_after_def by (intro conjI exI [of _ "?q + 1"]) auto
qed

lemma first_after_start: "0 < d \<Longrightarrow> a < b \<Longrightarrow> first_after b d a b"
  unfolding first_after_def by (intro conjI exI [of _ 0]) auto

definition occurrence_of :: "zones \<Rightarrow> trigger \<Rightarrow> aware \<Rightarrow> aware \<Rightarrow> bool" where
  "occurrence_of zones t after c \<longleftrightarrow>
     (case t of
        OneShotTrigger a \<Rightarrow> c = a
      | IntervalTrigger n s \<Rightarrow>
          first_after (case s of None \<Rightarrow> instant after + n * SECOND | Some a \<Rightarrow> instant a) (n * SECOND) (instant after) (instant c)
      | CronTrigger x z \<Rightarrow> \<exists>zone w j. timezone_of zones z = Inr zone \<and> instant c = tz_utc zone w \<and> j < CRON_HORIZON
          \<and> w = next_minute zone after + int j * MINUTE \<and> cron_matches x w = Inr True
          \<and> (\<forall>i < j. cron_matches x (next_minute zone after + int i * MINUTE) = Inr False))"

definition zones_forward :: "zones \<Rightarrow> trigger \<Rightarrow> bool" where
  "zones_forward zones t \<longleftrightarrow> (\<forall>x z zone. t = CronTrigger x z \<longrightarrow> timezone_of zones z = Inr zone \<longrightarrow> clock_forward zone)"

lemma next_candidate_spec:
  assumes "next_candidate zones t after = Inr (Some c)" and "trigger_ok zones t" and "zones_forward zones t"
  shows "instant after < instant c \<and> occurrence_of zones t after c"
proof (cases t)
  case (OneShotTrigger a)
  with assms(1) show ?thesis by (auto simp: next_candidate_def occurrence_of_def split: if_splits)
next
  case (CronTrigger x z)
  with assms(1) obtain zone w where z: "timezone_of zones z = Inr zone"
    and w: "cron_search (cron_matches x) CRON_HORIZON (next_minute zone after) = Inr (Some w)" and c: "mk_aware 0 (tz_utc zone w) = Inr c"
    by (auto simp: next_candidate_def split: if_splits option.splits)
  have i: "instant c = tz_utc zone w" using mk_aware_instant [OF c] by simp
  from cron_search_first [OF w] obtain j where j: "j < CRON_HORIZON" "w = next_minute zone after + int j * MINUTE" "cron_matches x w = Inr True"
    "\<forall>i < j. cron_matches x (next_minute zone after + int i * MINUTE) = Inr False" by blast
  have "tz_wall zone (instant after) < w" using next_minute_after [of zone after] j(2) by simp
  then have "instant after < instant c" using assms(3) CronTrigger z i by (auto simp: zones_forward_def clock_forward_def)
  then show ?thesis using CronTrigger z i j unfolding occurrence_of_def by auto
next
  case (IntervalTrigger n s)
  let ?d = "n * SECOND"
  have d: "0 < ?d" using assms(2) IntervalTrigger by (simp add: trigger_ok_def)
  from assms(1) IntervalTrigger obtain b where b: "(case s of Some s \<Rightarrow> Inr s | None \<Rightarrow> aware_add after ?d) = Inr b"
    and c: "if instant b \<le> instant after then aware_add b (((instant after - instant b) div ?d + 1) * ?d) = Inr c else c = b"
    by (auto simp: next_candidate_def timedelta_seconds_def simp del: unit_values split: if_splits)
  have ib: "instant b = (case s of None \<Rightarrow> instant after + ?d | Some a \<Rightarrow> instant a)"
    using b by (cases s) (auto dest: aware_add_instant)
  have "first_after (instant b) ?d (instant after) (instant c)"
  proof (cases "instant b \<le> instant after")
    case True
    with c have "instant c = instant b + ((instant after - instant b) div ?d + 1) * ?d" by (auto dest: aware_add_instant)
    with first_after_step [OF d True] show ?thesis by simp
  qed (use c d in \<open>auto intro: first_after_start\<close>)
  then show ?thesis using IntervalTrigger ib by (simp add: occurrence_of_def first_after_def)
qed

lemma next_occurrence_Some:
  assumes "next_occurrence zones t e after = Inr (Some c)"
  shows "next_candidate zones t after = Inr (Some c) \<and> (\<forall>x. e = Some x \<longrightarrow> instant c \<le> instant x)"
proof -
  obtain d where d: "next_candidate zones t after = Inr d"
    and v: "Some c = (case d of None \<Rightarrow> None
       | Some c \<Rightarrow> (case e of Some e \<Rightarrow> if instant c > instant e then None else Some c | None \<Rightarrow> Some c))"
    using assms by (auto simp: next_occurrence_def)
  show ?thesis using d v by (cases d; cases e) (auto split: if_splits)
qed

lemma next_occurrence_spec:
  assumes "next_occurrence zones t e after = Inr (Some c)" and "trigger_ok zones t" and "zones_forward zones t"
  shows "instant after < instant c \<and> (\<forall>x. e = Some x \<longrightarrow> instant c \<le> instant x) \<and> occurrence_of zones t after c"
  using next_occurrence_Some [OF assms(1)] next_candidate_spec [OF _ assms(2,3)] by blast

text \<open>An occurrence is the next one: it lies after the given time and not after the end, an interval
  schedule keeps to the grid of its start and skips no point of it, a cron schedule gets the first
  minute of its zone's clock that matches. (A zone whose clock is set back is excluded, see
  \<open>cron_stuck_when_clock_set_back\<close>.)\<close>

theorem next_occurrence_is_next:
  assumes "next_occurrence zones t e after = Inr (Some c)" and "trigger_ok zones t" and "zones_forward zones t"
  shows "instant after < instant c \<and> (\<forall>x. e = Some x \<longrightarrow> instant c \<le> instant x) \<and> occurrence_of zones t after c"
  by (rule next_occurrence_spec [OF assms])

theorem next_occurrence_is_next_witness:
  "\<exists>c. next_occurrence (\<lambda>_. None) (IntervalTrigger 3600 (Some demo_instant)) None demo_instant = Inr (Some c)
     \<and> instant c = instant demo_instant + 3600 * SECOND"
proof -
  let ?t = "IntervalTrigger 3600 (Some demo_instant)"
  have "is_ok (next_candidate (\<lambda>_. None) ?t demo_instant)"
    by (simp add: next_candidate_def timedelta_seconds_def aware_add_def demo_instant_facts mk_aware_def MAX_WALL_value)
  then obtain d where d: "next_candidate (\<lambda>_. None) ?t demo_instant = Inr d" by (auto simp: is_ok_iff)
  then have "d \<noteq> None" by (auto simp: next_candidate_def split: if_splits)
  then obtain c where c: "next_occurrence (\<lambda>_. None) ?t None demo_instant = Inr (Some c)" using d by (auto simp: next_occurrence_def)
  have "trigger_ok (\<lambda>_. None) ?t" by (simp add: trigger_ok_def demo_instant_facts)
  from next_occurrence_is_next [OF c this] have "first_after (instant demo_instant) (3600 * SECOND) (instant demo_instant) (instant c)"
    by (simp add: zones_forward_def occurrence_of_def)
  then have "instant demo_instant < instant c" "instant c \<le> instant demo_instant + 1 * (3600 * SECOND)"
    "\<exists>k \<ge> 0. instant c = instant demo_instant + k * (3600 * SECOND)" by (auto simp: first_after_def simp del: mult_1)
  then have "instant c = instant demo_instant + 3600 * SECOND" by auto
  with c show ?thesis by blast
qed

lemma advance_next:
  assumes "advance zones now (s, sf, m) = Inr s'" and "schedule_ok zones s" and "zones_forward zones (sd_trigger s)"
    and "instant sf \<le> instant now"
  shows "sd_id s' = sd_id s \<and> (\<forall>t. sd_next_run_at s' = Some t \<longrightarrow> instant sf < instant t \<and> (m \<noteq> None \<longrightarrow> instant now < instant t))
    \<and> (is_one_shot (sd_trigger s) \<longrightarrow> \<not> sd_enabled s')"
proof -
  obtain v where v: "next_run zones now (s, sf, m) = Inr v"
    and s': "s' = s\<lparr>sd_next_run_at := v, sd_enabled := sd_enabled s \<and> \<not> is_one_shot (sd_trigger s)\<rparr>"
    using assms(1) by (auto simp: advance_def)
  have ok: "trigger_ok zones (sd_trigger s)" using assms(2) by (simp add: schedule_ok_def)
  have "instant sf < instant t \<and> (m \<noteq> None \<longrightarrow> instant now < instant t)" if t: "v = Some t" for t
  proof (cases "m = None")
    case True
    with v t have "next_occurrence zones (sd_trigger s) (sd_end_at s) sf = Inr (Some t)" by (simp add: next_run_def)
    from next_occurrence_spec [OF this ok assms(3)] True show ?thesis by simp
  next
    case False
    show ?thesis
    proof (cases "sd_trigger s")
      case (IntervalTrigger n st)
      with v t False have "next_after_missed_interval n sf now = Inr t"
        by (auto simp: next_run_def split: option.splits if_splits)
      then have i: "instant t = instant sf + ((instant now - instant sf) div (n * SECOND) + 1) * (n * SECOND)"
        by (auto simp: next_after_missed_interval_def timedelta_seconds_def simp del: unit_values split: if_splits dest: aware_add_instant)
      have "0 < n * SECOND" using ok IntervalTrigger by (simp add: trigger_ok_def)
      from first_after_step [OF this assms(4)] have "instant now < instant t" unfolding i [symmetric] by (simp add: first_after_def)
      with assms(4) show ?thesis by simp
    qed (use v t False next_occurrence_spec [OF _ ok assms(3), of "sd_end_at s" now t] assms(4) in \<open>auto simp: next_run_def\<close>)
  qed
  then show ?thesis by (simp add: s')
qed

lemma advance_all_tables:
  assumes "advance_all lib zones now ds sv = (sv', None)" and "distinct (map (sd_id \<circ> fst) ds)"
    and "\<And>d s. d \<in> set ds \<Longrightarrow> advance zones now d = Inr s \<Longrightarrow> sd_id s = sd_id (fst d)"
  shows "(\<forall>d \<in> set ds. \<exists>s. advance zones now d = Inr s \<and> map_of (sv_schedules sv') (sd_id (fst d)) = Some s)
    \<and> (\<forall>k. k \<notin> set (map (sd_id \<circ> fst) ds) \<longrightarrow> map_of (sv_schedules sv') k = map_of (sv_schedules sv) k)"
  using assms
proof (induction ds arbitrary: sv)
  case (Cons d ds)
  then obtain s where s: "advance zones now d = Inr s" and r: "advance_all lib zones now ds (put_schedule lib ''update'' s sv) = (sv', None)"
    by (auto split: sum.splits)
  have id: "sd_id s = sd_id (fst d)" using Cons.prems(3) s by simp
  note ih = Cons.IH [OF r]
  have t: "sv_schedules (put_schedule lib ''update'' s sv) = AList.update (sd_id s) s (sv_schedules sv)"
    by (simp add: put_schedule_def sv_append_def)
  have "sd_id (fst d) \<notin> set (map (sd_id \<circ> fst) ds)" using Cons.prems(2) by auto
  then have "map_of (sv_schedules sv') (sd_id (fst d)) = Some s" using ih Cons.prems t id by auto
  with ih Cons.prems s t id show ?case by auto
qed simp

lemma start_runs_schedules: "start_runs lib now ids k ds sv = (sv', rs) \<Longrightarrow> sv_schedules sv' = sv_schedules sv
    \<and> map (\<lambda>r. (sr_schedule_id r, sr_scheduled_for r)) rs = map (\<lambda>(s, sf, m). (sd_id s, sf)) ds"
proof (induction ds arbitrary: k sv sv' rs)
  case (Cons d ds)
  obtain sv1 r where r: "start_run lib now (ids k) d sv = (sv1, r)" by fastforce
  obtain sv2 rs2 where n: "start_runs lib now ids (Suc k) ds sv1 = (sv2, rs2)" by fastforce
  have "sv_schedules sv1 = sv_schedules sv" using start_run_put [OF r] by (auto simp: put_run_def sv_append_def)
  moreover have "(sr_schedule_id r, sr_scheduled_for r) = (case d of (s, sf, m) \<Rightarrow> (sd_id s, sf))"
    using r by (cases d) (auto simp: start_run_def Let_def split: if_splits)
  ultimately show ?case using Cons.IH [OF n] Cons.prems r n by auto
qed simp


lemma demo_due: "filter (is_due demo_instant) (map snd (sv_schedules demo_service)) = [demo_schedule]"
  by (simp add: demo_service_def put_schedule_def sv_append_def demo_empty_def is_due_def demo_schedule_def)


subsection \<open>Where the service falls short\<close>

lemma reload_appended:
  assumes "list_all (line_safe lib) rs" and "replay (apply_record zones now) ([], []) rs = Inr t"
  shows "reload_text lib zones now (Some (text_of lib rs @ rest)) = reload_lines lib zones now (ends_lf (text_of lib rs @ rest)) (py_splitlines_aux [] rest) t"
  using splitlines_text [OF assms(1), of rest] reload_lines_records [OF assms(1), of zones now _ "py_splitlines_aux [] rest" "([], [])"] assms(2)
  by (simp add: reload_text_def py_splitlines_def)

lemma splitlines_aux_tail: "list_all (\<lambda>c. \<not> py_linebreak c) l \<Longrightarrow> py_splitlines_aux cur l = (if rev cur @ l = [] then [] else [rev cur @ l])"
proof (induction l arbitrary: cur)
  case (Cons c l)
  then have "c \<noteq> CR" using linebreak_LF_CR(2) by auto
  with Cons show ?case by simp
qed simp

text \<open>A torn last line, which the reader tolerates, makes the next append fatal: the new record is
  written behind it on the same line, and every later reload raises.\<close>

theorem append_after_torn_line:
  assumes "list_all (line_safe lib) rs" and "replay (apply_record zones now) ([], []) rs = Inr t"
    and "list_all (\<lambda>c. \<not> py_linebreak c) (torn @ jl_dumps lib (JObj d))" and "py_strip torn \<noteq> []"
    and "jl_loads lib torn = None" and "jl_loads lib (torn @ jl_dumps lib (JObj d)) = None"
    and "sv_file sv = Some (text_of lib rs @ torn)"
  shows "reload_text lib zones now (sv_file sv) = Inr t
    \<and> reload_text lib zones now (sv_file (sv_append lib d sv)) = Inl JSONDecodeError"
proof -
  have ne: "torn \<noteq> []" using assms(4) by auto
  have tl: "list_all (\<lambda>c. \<not> py_linebreak c) torn" using assms(3) by simp
  then have "last torn \<noteq> LF" using ne linebreak_LF_CR(1) by (metis last_in_set list_all_iff)
  then have "\<not> ends_lf (text_of lib rs @ torn)" using ne by (simp add: ends_lf_def)
  then have "reload_text lib zones now (sv_file sv) = Inr t"
    using reload_appended [OF assms(1,2), of torn] assms(4,5,7) ne by (simp add: splitlines_aux_tail [OF tl])
  moreover have "sv_file (sv_append lib d sv) = Some (text_of lib rs @ (torn @ jl_dumps lib (JObj d)) @ LF # [])"
    using assms(7) by (simp add: sv_append_def)
  moreover have "py_strip (torn @ jl_dumps lib (JObj d)) \<noteq> []" using assms(4) by (auto simp: py_strip_Nil_iff)
  ultimately show ?thesis
    using reload_appended [OF assms(1,2), of "(torn @ jl_dumps lib (JObj d)) @ LF # []"] assms(6)
    by (simp add: splitlines_aux_line [OF assms(3)] ends_lf_def del: append_assoc)
qed

definition demo_torn_lib :: json_lib where
  "demo_torn_lib = \<lparr>jl_dumps = (\<lambda>_. ''{}''), jl_loads = (\<lambda>s. if s = ''{}'' then Some (JObj []) else None)\<rparr>"

theorem append_after_torn_line_witness:
  "reload_text demo_torn_lib (\<lambda>_. None) demo_instant (Some ''{'') = Inr ([], [])
   \<and> reload_text demo_torn_lib (\<lambda>_. None) demo_instant (sv_file (sv_append demo_torn_lib [] (demo_empty\<lparr>sv_file := Some ''{''\<rparr>))) = Inl JSONDecodeError"
proof -
  have "list_all (\<lambda>c. \<not> py_linebreak c) (''{'' @ ''{}'')" "py_strip ''{'' \<noteq> []" by code_simp+
  from append_after_torn_line [of demo_torn_lib "[]" "\<lambda>_. None" demo_instant "([], [])" "''{''" "[]" "demo_empty\<lparr>sv_file := Some ''{''\<rparr>"] this
  show ?thesis by (simp add: demo_torn_lib_def text_of_def)
qed

text \<open>A record whose text contains a line boundary other than a line feed (\<open>json.dumps\<close> with
  \<open>ensure_ascii=False\<close> leaves U+0085 in a prompt as it is, \<open>str.splitlines\<close> splits there) cannot be read
  back: every later reload raises.\<close>

theorem boundary_in_record_is_fatal:
  assumes "list_all (line_safe lib) rs" and "replay (apply_record zones now) ([], []) rs = Inr t"
    and "jl_dumps lib (JObj d) = pre @ c # post" and "list_all (\<lambda>c. \<not> py_linebreak c) pre" and "py_linebreak c" and "c \<noteq> CR"
    and "py_strip pre \<noteq> []" and "jl_loads lib pre = None" and "sv_file sv = Some (text_of lib rs)"
  shows "reload_text lib zones now (sv_file (sv_append lib d sv)) = Inl JSONDecodeError"
proof -
  have "sv_file (sv_append lib d sv) = Some (text_of lib rs @ (pre @ c # (post @ [LF])))" using assms(3,9) by (simp add: sv_append_def)
  moreover have "ends_lf (text_of lib rs @ (pre @ c # (post @ [LF])))" by (simp add: ends_lf_def)
  ultimately show ?thesis
    using reload_appended [OF assms(1,2), of "pre @ c # (post @ [LF])"] assms(7,8) by (simp add: splitlines_aux_line [OF assms(4-6)])
qed

definition demo_nel_lib :: json_lib where
  "demo_nel_lib = \<lparr>jl_dumps = (\<lambda>_. ''{'' @ [CHR 0x85] @ ''}''), jl_loads = (\<lambda>_. None)\<rparr>"

theorem boundary_in_record_is_fatal_witness:
  "py_linebreak (CHR 0x85) \<and>
   reload_text demo_nel_lib (\<lambda>_. None) demo_instant (sv_file (sv_append demo_nel_lib [] (demo_empty\<lparr>sv_file := Some []\<rparr>))) = Inl JSONDecodeError"
proof -
  have "list_all (\<lambda>c. \<not> py_linebreak c) ''{''" "py_strip ''{'' \<noteq> []" "py_linebreak (CHR 0x85)" by code_simp+
  then show ?thesis
    using boundary_in_record_is_fatal [of demo_nel_lib "[]" "\<lambda>_. None" demo_instant "([], [])" "[]" "''{''" "CHR 0x85" "''}''" "demo_empty\<lparr>sv_file := Some []\<rparr>"]
    by (simp add: demo_nel_lib_def text_of_def)
qed

text \<open>A zone that sets its clock back by an hour at the instant \<open>u0\<close>: two hours ahead of UTC before it,
  one hour after it. Of a wall clock time that occurs twice it takes the first.\<close>

definition set_back :: "int \<Rightarrow> tz" where
  "set_back u0 = \<lparr>tz_wall = (\<lambda>u. if u < u0 then u + 120 * MINUTE else u + 60 * MINUTE),
     tz_utc = (\<lambda>w. if w < u0 + 120 * MINUTE then w - 120 * MINUTE else w - 60 * MINUTE)\<rparr>"

lemma every_minute_matches:
  assumes "0 \<le> w" and "w < MAX_WALL"
  shows "cron_matches ''* * * * *'' w = Inr True"
proof -
  have ok: "utc_ok (of_wall w)" by (rule of_wall_ok [OF assms])
  have d: "days_in_month y m \<le> 31" for y m by (simp add: days_in_month_def)
  have n: "utc_minute (of_wall w) < 60" "utc_hour (of_wall w) < 24" "1 \<le> utc_day (of_wall w)" "utc_day (of_wall w) \<le> 31"
    "1 \<le> utc_month (of_wall w)" "utc_month (of_wall w) \<le> 12"
    using ok d [of "utc_year (of_wall w)" "utc_month (of_wall w)"] by (auto simp: utc_ok_def)
  have star: "cron_field ''*'' k (l, h) = Inr (l \<le> k \<and> k \<le> h)" for k l h by (simp add: cron_field_def cron_token_def)
  have "py_words ''* * * * *'' = [''*'', ''*'', ''*'', ''*'', ''*'']" by code_simp
  moreover have "(weekday w + 1) mod 7 \<le> 6" using mod_less_divisor [of 7 "weekday w + 1"] by linarith
  ultimately show ?thesis using n by (simp add: cron_matches_def cron_numbers_def CRON_LIMITS_def star Let_def)
qed

text \<open>In the hour that a zone's clock repeats when it is set back, the next occurrence of a cron
  schedule lies in the past: the search adds minutes to the wall clock and reads the result as the first
  pass of that hour. The schedule is due again at every poll until the hour is over.\<close>

theorem cron_stuck_when_clock_set_back:
  assumes "DAY \<le> u0" and "u0 < MAX_WALL - DAY" and "u0 \<le> instant after" and "instant after < u0 + 59 * MINUTE"
  shows "\<exists>c. next_occurrence (\<lambda>_. Some (set_back u0)) (CronTrigger ''* * * * *'' ''Z'') None after = Inr (Some c)
    \<and> instant c < instant after"
proof -
  let ?z = "set_back u0" and ?x = "''* * * * *''"
  let ?w = "next_minute ?z after"
  have wall: "tz_wall ?z (instant after) = instant after + 60 * MINUTE" using assms(3) by (simp add: set_back_def)
  have w: "?w = (instant after + 60 * MINUTE) - (instant after + 60 * MINUTE) mod MINUTE + MINUTE"
    by (simp add: next_minute_def wall Let_def del: unit_values)
  have m: "0 \<le> (instant after + 60 * MINUTE) mod MINUTE" "(instant after + 60 * MINUTE) mod MINUTE < MINUTE" by simp_all
  have lo: "u0 \<le> ?w" "?w < MAX_WALL" and first: "?w < u0 + 120 * MINUTE"
    using w m assms by simp_all
  have k: "0 < CRON_HORIZON" by (simp add: CRON_HORIZON_def)
  then obtain n where n: "CRON_HORIZON = Suc n" by (cases CRON_HORIZON) auto
  have "cron_matches ?x ?w = Inr True" using every_minute_matches lo assms(1) by simp
  then have search: "cron_search (cron_matches ?x) CRON_HORIZON ?w = Inr (Some ?w)" by (simp add: n)
  have utc: "tz_utc ?z ?w = ?w - 120 * MINUTE" using first by (simp add: set_back_def)
  have nonneg: "0 \<le> ?w - 120 * MINUTE" using assms(1) lo(1) by simp
  then have "mk_aware 0 (tz_utc ?z ?w) = Inr (at_offset 0 (?w - 120 * MINUTE))" using lo(2) by (simp add: mk_aware_def utc)
  moreover have "instant (at_offset 0 (?w - 120 * MINUTE)) = ?w - 120 * MINUTE" using nonneg by (intro instant_at_offset) simp
  ultimately show ?thesis
    using search lo(2) w m by (simp add: next_occurrence_def next_candidate_def timezone_of_def)
qed

theorem cron_stuck_when_clock_set_back_witness:
  "\<exists>c. next_occurrence (\<lambda>_. Some (set_back (instant demo_instant))) (CronTrigger ''* * * * *'' ''Z'') None demo_instant = Inr (Some c)
     \<and> instant c < instant demo_instant"
  using cron_stuck_when_clock_set_back [of "instant demo_instant" demo_instant] by (simp add: demo_instant_facts MAX_WALL_value)

lemma year_of_between:
  assumes "days_before_year a \<le> n" and "n < days_before_year (a + 2)" and "1 \<le> a"
  shows "year_of n = a \<or> year_of n = a + 1"
proof -
  note y = year_of_spec [of n]
  have "days_before_year (Suc (year_of n)) = days_before_year (year_of n) + days_in_year (year_of n)" using y by (simp add: days_before_year_Suc)
  then have up: "n < days_before_year (Suc (year_of n))" using y by simp
  have "\<not> Suc (year_of n) \<le> a"
  proof
    assume "Suc (year_of n) \<le> a"
    then have "days_before_year (Suc (year_of n)) \<le> days_before_year a" by (intro days_before_year_mono) simp_all
    with assms(1) up show False by simp
  qed
  moreover have "\<not> a + 2 \<le> year_of n"
  proof
    assume "a + 2 \<le> year_of n"
    then have "days_before_year (a + 2) \<le> days_before_year (year_of n)" by (intro days_before_year_mono) simp_all
    with assms(2) y show False by simp
  qed
  ultimately show ?thesis by linarith
qed

lemma no_leap_day:
  assumes "0 \<le> w" and "days_before_year a \<le> nat (w div DAY)" and "nat (w div DAY) < days_before_year (a + 2)" and "1 \<le> a"
    and "\<not> leap_year a" and "\<not> leap_year (a + 1)"
  shows "\<not> (utc_month (of_wall w) = 2 \<and> utc_day (of_wall w) = 29)"
proof -
  obtain y m d where d: "date_of (nat (w div DAY)) = (y, m, d)" by (metis prod_cases3)
  note s = date_of_spec [OF d]
  have "\<not> leap_year y" using year_of_between [OF assms(2-4)] s assms(5,6) by auto
  then have "m = 2 \<Longrightarrow> d \<le> 28" using s by (auto simp: days_in_month_def)
  moreover have "utc_month (of_wall w) = m" "utc_day (of_wall w) = d" unfolding of_wall_def d Let_def by simp_all
  ultimately show ?thesis by auto
qed

lemma int_of_digits: "int_of_text ''29'' = Inr 29" "int_of_text ''2'' = Inr 2" "int_of_text ''0'' = Inr 0"
  by code_simp+

lemma leap_day_cron:
  assumes "\<not> (utc_month (of_wall w) = 2 \<and> utc_day (of_wall w) = 29)"
  shows "cron_matches ''0 0 29 2 *'' w = Inr False"
proof -
  have f: "cron_field ''0'' k l = Inr (k = 0)" "cron_field ''29'' k l = Inr (k = 29)" "cron_field ''2'' k l = Inr (k = 2)" for k l
    by (simp_all add: cron_field_def cron_token_def int_of_digits)
  have "py_words ''0 0 29 2 *'' = [''0'', ''0'', ''29'', ''2'', ''*'']" by code_simp
  then show ?thesis using assms by (auto simp: cron_matches_def cron_numbers_def CRON_LIMITS_def f Let_def)
qed

lemma cron_search_none:
  "(\<And>i. i < n \<Longrightarrow> match (cursor + int i * MINUTE) = Inr False) \<Longrightarrow> cursor + int n * MINUTE < MAX_WALL \<Longrightarrow> cron_search match n cursor = Inr None"
proof (induction n arbitrary: cursor)
  case (Suc n)
  have "match cursor = Inr False" using Suc.prems(1) [of 0] by simp
  moreover have "cron_search match n (cursor + MINUTE) = Inr None"
  proof (rule Suc.IH)
    fix i assume "i < n"
    then show "match (cursor + MINUTE + int i * MINUTE) = Inr False" using Suc.prems(1) [of "Suc i"] by (simp add: algebra_simps)
  qed (use Suc.prems(2) in \<open>simp add: algebra_simps\<close>)
  moreover have "cursor + MINUTE < MAX_WALL" using Suc.prems(2) by (simp add: algebra_simps)
  ultimately show ?case by simp
qed simp

text \<open>The search for the next cron occurrence gives up after 370 days: when the next two years have no
  29 February, a schedule for that day gets no next run, is never due and so never runs.\<close>

theorem leap_day_schedule_never_runs:
  assumes "int (days_before_year a) * DAY \<le> instant after" and "instant after + 371 * DAY < int (days_before_year (a + 2)) * DAY"
    and "1 \<le> a" and "a < 9990" and "\<not> leap_year a" and "\<not> leap_year (a + 1)"
  shows "next_occurrence zones (CronTrigger ''0 0 29 2 *'' ''UTC'') None after = Inr None"
proof -
  let ?w = "next_minute UTC after"
  have tz: "timezone_of zones ''UTC'' = Inr UTC" by (simp add: timezone_of_def)
  have w: "?w = instant after - instant after mod MINUTE + MINUTE" by (simp add: next_minute_def UTC_def Let_def del: unit_values)
  have b: "instant after < ?w" "?w \<le> instant after + MINUTE" unfolding w using pos_mod_bound [of MINUTE "instant after"] pos_mod_sign [of MINUTE "instant after"] by simp_all
  have h: "int CRON_HORIZON * MINUTE = 370 * DAY" by (simp add: CRON_HORIZON_def)
  have "days_before_year (a + 2) \<le> days_before_year 10000" using assms(3,4) by (intro days_before_year_mono) simp_all
  then have "int (days_before_year (a + 2)) * DAY \<le> MAX_WALL" unfolding MAX_WALL_def by (intro mult_right_mono) simp_all
  then have lim: "x < MAX_WALL" if "x < int (days_before_year (a + 2)) * DAY" for x using that by linarith
  have no: "cron_matches ''0 0 29 2 *'' (?w + int i * MINUTE) = Inr False" if "i < CRON_HORIZON" for i
  proof (rule leap_day_cron, rule no_leap_day [OF _ _ _ assms(3,5,6)])
    have i: "int i * MINUTE \<le> 370 * DAY" unfolding h [symmetric] using that by (intro mult_right_mono) simp_all
    have lo: "int (days_before_year a) * DAY \<le> ?w + int i * MINUTE" using assms(1) b(1) by simp
    have hi: "?w + int i * MINUTE < int (days_before_year (a + 2)) * DAY" using assms(2) b(2) i by simp
    have "0 \<le> int (days_before_year a) * DAY" by simp
    with lo show "0 \<le> ?w + int i * MINUTE" by linarith
    have "int (days_before_year a) \<le> (?w + int i * MINUTE) div DAY" using lo by (simp only: day_index)
    then show "days_before_year a \<le> nat ((?w + int i * MINUTE) div DAY)" by simp
    have "(?w + int i * MINUTE) div DAY < int (days_before_year (a + 2))" using hi by (simp only: day_index not_le [symmetric] not_False_eq_True)
    then show "nat ((?w + int i * MINUTE) div DAY) < days_before_year (a + 2)"
      using days_before_year_lower [of "a + 2"] by simp
  qed
  have "?w + int CRON_HORIZON * MINUTE < MAX_WALL" unfolding h by (rule lim) (use assms(2) b in simp)
  then have "cron_search (cron_matches ''0 0 29 2 *'') CRON_HORIZON ?w = Inr None" by (intro cron_search_none no)
  moreover have "?w < MAX_WALL" by (rule lim) (use assms(2) b in simp)
  ultimately show ?thesis by (simp add: next_occurrence_def next_candidate_def tz)
qed

definition demo_march :: aware where
  "demo_march = at_offset 0 (int (days_before_year 2025 + 59) * DAY)"

theorem leap_day_schedule_never_runs_witness:
  "instant demo_march = int (day_number 2025 3 1) * DAY
   \<and> next_occurrence (\<lambda>_. None) (CronTrigger ''0 0 29 2 *'' ''UTC'') None demo_march = Inr None"
proof -
  have y: "days_before_year 2025 = 739251" "days_before_year 2027 = 739981" by (simp_all add: days_before_year_def)
  have i: "instant demo_march = int (days_before_year 2025 + 59) * DAY" unfolding demo_march_def by (rule instant_at_offset) simp
  have n: "\<not> leap_year 2025" "\<not> leap_year 2026" by (simp_all add: leap_year_def)
  have "[1..<3] = [1, 2 :: nat]" by (simp add: upt_conv_Cons)
  then have "day_number 2025 3 1 = days_before_year 2025 + 59"
    using n by (simp add: day_number_def days_before_month_def days_in_month_def)
  then show ?thesis using leap_day_schedule_never_runs [of 2025 demo_march "\<lambda>_. None"] n by (simp add: i y)
qed

end
