(* ===== verification/Journal_File.thy ===== *)
theory Journal_File
  imports Session
begin

text \<open>
  The journal file of a Session, the byte level of \<open>agent_core/session_store.py\<close>: records are
  appended as UTF-8 encoded JSON lines, a process may die at any byte of a write, and the file is
  read back and repaired when it is opened again.

  \<^item> A file is its bytes, a \<open>string\<close> whose characters are the bytes. \<open>utf8_encode\<close> and
    \<open>utf8_decode\<close> are the codec restricted to the code points of the development (0 to 255, one or
    two bytes); a lead byte of a longer sequence is \<open>Untyped\<close>.
  \<^item> \<open>write_journal_events\<close>, \<open>prepare_journal_append\<close> and \<open>read_journal\<close> are the functions of
    the same names. Reading decodes the whole text first, the source decodes it in blocks: the two
    differ only in which exception is raised when a file has several faults.
  \<^item> What the proofs use of \<open>json\<close> is \<open>record_safe\<close>: the text of a record decodes to it, with or
    without the line end, no proper prefix of it decodes, and it has no line end or NUL inside.
\<close>

section \<open>Bytes and text\<close>

definition utf8_char :: "char \<Rightarrow> string" where
  "utf8_char c = (if of_char c < (128 :: nat) then [c]
     else [char_of (192 + of_char c div 64 :: nat), char_of (128 + of_char c mod 64 :: nat)])"

definition utf8_encode :: "string \<Rightarrow> string" where
  "utf8_encode s = concat (map utf8_char s)"

fun utf8_decode :: "string \<Rightarrow> string res" where
  "utf8_decode [] = Inr []"
| "utf8_decode (b # bs) =
     (let n = of_char b :: nat in
      if n < 128 then res_map ((#) b) (utf8_decode bs)
      else if n < 194 \<or> 244 < n then Inl UnicodeDecodeError
      else if 196 \<le> n then Inl (Untyped ''utf-8'')
      else (case bs of
          [] \<Rightarrow> Inl UnicodeDecodeError
        | d # ds \<Rightarrow>
            (let m = of_char d :: nat in
             if 128 \<le> m \<and> m < 192 then res_map ((#) (char_of ((n - 192) * 64 + (m - 128)))) (utf8_decode ds)
             else Inl UnicodeDecodeError)))"

lemma of_char_bound: "(of_char c :: nat) < 256"
  by (metis of_char_mod_256 mod_less_divisor zero_less_numeral)

lemma utf8_two_bytes:
  assumes "\<not> of_char c < (128 :: nat)"
  defines "n \<equiv> of_char c :: nat"
  shows "utf8_char c = [char_of (192 + n div 64), char_of (128 + n mod 64)]"
    and "of_char (char_of (192 + n div 64)) = 192 + n div 64"
    and "of_char (char_of (128 + n mod 64)) = 128 + n mod 64"
    and "192 + n div 64 \<in> {194, 195}"
    and "n div 64 * 64 + n mod 64 = n"
proof -
  have n: "128 \<le> n" "n < 256" using assms of_char_bound [of c] by simp_all
  then have d: "2 \<le> n div 64" "n div 64 < 4" by simp_all
  show "utf8_char c = [char_of (192 + n div 64), char_of (128 + n mod 64)]"
    using assms by (simp add: utf8_char_def)
  show "of_char (char_of (192 + n div 64)) = 192 + n div 64" using d by (simp add: of_char_of)
  show "of_char (char_of (128 + n mod 64)) = 128 + n mod 64" by (simp add: of_char_of)
  show "192 + n div 64 \<in> {194, 195}" using d by auto
  show "n div 64 * 64 + n mod 64 = n" by simp
qed

lemma utf8_decode_char: "utf8_decode (utf8_char c @ t) = res_map ((#) c) (utf8_decode t)"
proof (cases "of_char c < (128 :: nat)")
  case True
  then show ?thesis by (simp add: utf8_char_def)
next
  case False
  note two = utf8_two_bytes [OF False]
  let ?n = "of_char c :: nat"
  have "char_of (?n div 64 * 64 + ?n mod 64) = c" by (simp only: two(5)) simp
  then show ?thesis using two(2-4) by (auto simp: two(1) Let_def)
qed

lemma res_map_comp: "res_map f (res_map g r) = res_map (\<lambda>x. f (g x)) r"
  by (cases r) auto

lemma utf8_decode_encode_append:
  "utf8_decode (utf8_encode s @ t) = res_map (append s) (utf8_decode t)"
proof (induction s)
  case Nil
  show ?case by (cases "utf8_decode t") (auto simp: utf8_encode_def)
next
  case (Cons c s)
  have "utf8_decode (utf8_encode (c # s) @ t) = utf8_decode (utf8_char c @ (utf8_encode s @ t))"
    by (simp add: utf8_encode_def)
  then show ?case by (simp add: utf8_decode_char Cons.IH res_map_comp)
qed

lemma utf8_roundtrip [simp]: "utf8_decode (utf8_encode s) = Inr s"
  using utf8_decode_encode_append [of s "[]"] by simp

lemma utf8_encode_append [simp]: "utf8_encode (s @ t) = utf8_encode s @ utf8_encode t"
  by (simp add: utf8_encode_def)

lemma utf8_encode_Nil [simp]: "utf8_encode [] = []"
  by (simp add: utf8_encode_def)

lemma utf8_encode_inj: "utf8_encode s = utf8_encode t \<Longrightarrow> s = t"
  by (metis utf8_roundtrip Inr_inject)

text \<open>A prefix of an encoded text ends between two characters or after the first byte of one.\<close>

lemma utf8_prefix:
  assumes "prefix p (utf8_encode s)"
  shows "(\<exists>q. prefix q s \<and> p = utf8_encode q) \<or> utf8_decode p = Inl UnicodeDecodeError"
  using assms
proof (induction s arbitrary: p)
  case Nil
  then show ?case by (auto simp: utf8_encode_def)
next
  case (Cons c s)
  have p: "prefix p (utf8_char c @ utf8_encode s)" using Cons.prems by (simp add: utf8_encode_def)
  show ?case
  proof (cases "prefix (utf8_char c) p")
    case True
    then obtain p' where p': "p = utf8_char c @ p'" by (auto elim: prefixE)
    with p have "prefix p' (utf8_encode s)" by simp
    from Cons.IH [OF this] show ?thesis
    proof
      assume "\<exists>q. prefix q s \<and> p' = utf8_encode q"
      then obtain q where "prefix q s" "p' = utf8_encode q" by blast
      then have "prefix (c # q) (c # s) \<and> p = utf8_encode (c # q)" by (simp add: p' utf8_encode_def)
      then show ?thesis by blast
    next
      assume "utf8_decode p' = Inl UnicodeDecodeError"
      then show ?thesis by (simp add: p' utf8_decode_char)
    qed
  next
    case False
    then have sp: "strict_prefix p (utf8_char c)"
      using p by (auto simp: prefix_append strict_prefix_def)
    show ?thesis
    proof (cases "of_char c < (128 :: nat)")
      case True
      then show ?thesis using sp by (auto simp: utf8_char_def strict_prefix_def prefix_Cons)
    next
      case False
      note two = utf8_two_bytes [OF False]
      from sp have "p = [] \<or> p = [char_of (192 + of_char c div 64 :: nat)]"
        by (auto simp: two(1) strict_prefix_def prefix_Cons)
      then show ?thesis
      proof
        assume "p = []"
        then have "prefix [] (c # s) \<and> p = utf8_encode []" by simp
        then show ?thesis by blast
      qed (use two(2,4) in auto)
    qed
  qed
qed

section \<open>Journal records\<close>

definition event_to_dict :: "journal_event \<Rightarrow> json" where
  "event_to_dict e = JObj
     [(''seq'', JInt (ev_seq e)), (''event_id'', JStr (ev_id e)), (''event_type'', JStr (ev_type e)),
      (''turn_id'', jopt_str (ev_turn_id e)), (''timestamp_utc'', JStr (format_utc (ev_timestamp e))),
      (''tool_call_id'', jopt_str (ev_tool_call_id e)), (''payload'', JObj (ev_payload e))]"

text \<open>\<open>dict(data.get("payload") or {})\<close>; a pair list never occurs in a record of the program.\<close>

definition payload_dict :: "json \<Rightarrow> jobj res" where
  "payload_dict v =
     (if \<not> py_truthy v then Inr []
      else (case v of
          JObj d \<Rightarrow> Inr d
        | JStr s \<Rightarrow> Inl (ValueError ''dictionary update sequence'')
        | JList xs \<Rightarrow> Inl (Untyped ''dict'')
        | _ \<Rightarrow> Inl (TypeError ''object is not iterable'')))"

definition event_from_dict :: "json \<Rightarrow> journal_event res" where
  "event_from_dict data = (case data of
      JObj d \<Rightarrow>
        res_bind (res_bind (jindex d ''seq'') py_int) (\<lambda>seq.
        res_bind (res_bind (jindex d ''event_id'') py_str) (\<lambda>i.
        res_bind (res_bind (jindex d ''event_type'') py_str) (\<lambda>ty.
        res_bind (res_bind (res_bind (jindex d ''timestamp_utc'') py_str) parse_utc) (\<lambda>t.
        res_bind (payload_dict (jget d ''payload'')) (\<lambda>p.
          Inr \<lparr>ev_seq = seq, ev_id = i, ev_type = ty, ev_turn_id = jget_str d ''turn_id'', ev_timestamp = t,
            ev_tool_call_id = jget_str d ''tool_call_id'', ev_payload = p\<rparr>)))))
    | _ \<Rightarrow> Inl (TypeError ''indices must be integers''))"

lemma jget_str_jopt [simp]: "jget_str ((k, jopt_str v) # d) k = v"
  by (cases v) (simp_all add: jget_str_def)

lemma jget_str_Cons [simp]: "k' \<noteq> k \<Longrightarrow> jget_str ((k, v) # d) k' = jget_str d k'"
  by (simp add: jget_str_def)

lemma event_roundtrip: "utc_ok (ev_timestamp e) \<Longrightarrow> event_from_dict (event_to_dict e) = Inr e"
  by (simp add: event_from_dict_def event_to_dict_def payload_dict_def py_truthy_def)

section \<open>The file\<close>

definition journal_line :: "json_lib \<Rightarrow> json \<Rightarrow> string" where
  "journal_line lib r = utf8_encode (jl_dumps lib r) @ [LF]"

fun write_journal_events :: "json_lib \<Rightarrow> journal_event list \<Rightarrow> string \<Rightarrow> string" where
  "write_journal_events lib [] file = file"
| "write_journal_events lib (e # es) file =
     write_journal_events lib es (file @ journal_line lib (event_to_dict e))"

text \<open>\<open>chunk.rfind(b"\n")\<close>.\<close>

fun rfind :: "'a \<Rightarrow> 'a list \<Rightarrow> nat option" where
  "rfind c [] = None"
| "rfind c (x # xs) = (case rfind c xs of
      Some i \<Rightarrow> Some (Suc i)
    | None \<Rightarrow> if x = c then Some 0 else None)"

text \<open>The backward search for the start of the last line, a block of 4096 bytes at a time.\<close>

function scan_back :: "string \<Rightarrow> nat \<Rightarrow> nat" where
  "scan_back file cursor =
     (if cursor = 0 then 0
      else let chunk_start = cursor - 4096;
               chunk = take (cursor - chunk_start) (drop chunk_start file)
           in case rfind LF chunk of
                Some newline \<Rightarrow> chunk_start + newline + 1
              | None \<Rightarrow> scan_back file chunk_start)"
  by pat_completeness auto
termination by (relation "measure snd") auto

declare scan_back.simps [simp del]

text \<open>\<open>json.loads\<close> on bytes. Its encoding detection looks at byte order marks and NUL bytes; for
  every other input it takes UTF-8.\<close>

definition loads_bytes :: "json_lib \<Rightarrow> string \<Rightarrow> json res" where
  "loads_bytes lib b =
     (if CHR 0x00 \<in> set b \<or> take 2 b \<in> {[CHR 0xFF, CHR 0xFE], [CHR 0xFE, CHR 0xFF]} then Inl (Untyped ''json encoding'')
      else res_bind (utf8_decode b) (\<lambda>s.
        case jl_loads lib s of None \<Rightarrow> Inl JSONDecodeError | Some r \<Rightarrow> Inr r))"

definition prepare_journal_append :: "json_lib \<Rightarrow> string \<Rightarrow> string outcome" where
  "prepare_journal_append lib file =
     (if file = [] then (file, None)
      else if last file = LF then (file, None)
      else let start = scan_back file (length file); tail = drop start file in
        (case loads_bytes lib tail of
           Inr _ \<Rightarrow> (file @ [LF], None)
         | Inl x \<Rightarrow> if x = JSONDecodeError then (take start file, None) else (file, Some x)))"

text \<open>The generator of records: what it yields and the exception that ends it, if one does.\<close>

fun read_journal_records :: "json_lib \<Rightarrow> string list \<Rightarrow> json list \<times> exn option" where
  "read_journal_records lib [] = ([], None)"
| "read_journal_records lib (line # lines) =
     (if py_strip line = [] then read_journal_records lib lines
      else (case jl_loads lib line of
          None \<Rightarrow> if last line \<noteq> LF then ([], None) else ([], Some JSONDecodeError)
        | Some r \<Rightarrow> (case read_journal_records lib lines of (rs, x) \<Rightarrow> (r # rs, x))))"

text \<open>\<open>path.open(encoding="utf-8")\<close> with universal newlines, read to the end.\<close>

definition read_journal :: "json_lib \<Rightarrow> string \<Rightarrow> json list \<times> exn option" where
  "read_journal lib file = (case utf8_decode file of
      Inl x \<Rightarrow> ([], Some x)
    | Inr s \<Rightarrow> read_journal_records lib (lines_keep (universal_newlines s)))"

section \<open>The search for the last line\<close>

text \<open>Reference: the length of the file up to and including its last line end.\<close>

definition last_line_start :: "string \<Rightarrow> nat" where
  "last_line_start file = length (dropWhile (\<lambda>c. c \<noteq> LF) (rev file))"

lemma last_line_start_Nil [simp]: "last_line_start [] = 0"
  by (simp add: last_line_start_def)

lemma last_line_start_append:
  "last_line_start (xs @ ys) = (if LF \<in> set ys then length xs + last_line_start ys else last_line_start xs)"
proof (cases "LF \<in> set ys")
  case True
  then show ?thesis by (simp add: last_line_start_def dropWhile_append1)
next
  case False
  then have "dropWhile (\<lambda>c. c \<noteq> LF) (rev ys @ rev xs) = dropWhile (\<lambda>c. c \<noteq> LF) (rev xs)"
    by (intro dropWhile_append2) auto
  with False show ?thesis by (simp add: last_line_start_def)
qed

lemma rfind_None: "rfind c xs = None \<longleftrightarrow> c \<notin> set xs"
  by (induction xs) (auto split: option.splits)

lemma rfind_Some: "rfind LF xs = Some i \<Longrightarrow> last_line_start xs = Suc i"
proof (induction xs arbitrary: i)
  case (Cons x xs)
  have split: "last_line_start (x # xs) = (if LF \<in> set xs then Suc (last_line_start xs) else last_line_start [x])"
    using last_line_start_append [of "[x]" xs] by simp
  show ?case
  proof (cases "rfind LF xs")
    case None
    with Cons.prems split show ?thesis
      by (auto simp: rfind_None last_line_start_def split: if_splits)
  next
    case (Some j)
    then have "LF \<in> set xs" using rfind_None [of LF xs] by auto
    with Some Cons split show ?thesis by simp
  qed
qed simp

lemma scan_back_last_line:
  "cursor \<le> length b \<Longrightarrow> scan_back b cursor = last_line_start (take cursor b)"
proof (induction b cursor rule: scan_back.induct)
  case (1 b cursor)
  let ?s = "cursor - 4096"
  let ?chunk = "take (cursor - ?s) (drop ?s b)"
  show ?case
  proof (cases "cursor = 0")
    case False
    have cut: "take cursor b = take ?s b @ ?chunk"
      using take_add [of ?s "cursor - ?s" b] by simp
    have len: "length (take ?s b) = ?s" using 1(2) by simp
    show ?thesis
    proof (cases "rfind LF ?chunk")
      case None
      then have "scan_back b ?s = last_line_start (take ?s b)"
        using 1 False by (intro 1(1) [OF False refl refl]) simp_all
      moreover have "LF \<notin> set ?chunk" using None rfind_None [of LF ?chunk] by simp
      ultimately show ?thesis using None False
        by (subst scan_back.simps, subst cut) (simp add: last_line_start_append Let_def)
    next
      case (Some i)
      then have "LF \<in> set ?chunk" using rfind_None [of LF ?chunk] by auto
      with Some False len show ?thesis
        by (subst scan_back.simps, subst cut) (simp add: last_line_start_append rfind_Some [OF Some] Let_def)
    qed
  qed (simp add: scan_back.simps)
qed

section \<open>A journal cut off at any byte\<close>

definition record_safe :: "json_lib \<Rightarrow> json \<Rightarrow> bool" where
  "record_safe lib r \<longleftrightarrow> jl_loads lib (jl_dumps lib r) = Some r \<and> jl_loads lib (jl_dumps lib r @ [LF]) = Some r
     \<and> list_all (\<lambda>n. jl_loads lib (take n (jl_dumps lib r)) = None) [0..<length (jl_dumps lib r)]
     \<and> list_all (\<lambda>c. c \<noteq> LF \<and> c \<noteq> CR \<and> c \<noteq> CHR 0x00) (jl_dumps lib r)
     \<and> \<not> list_all py_space (jl_dumps lib r)"

definition journal_bytes :: "json_lib \<Rightarrow> json list \<Rightarrow> string" where
  "journal_bytes lib rs = concat (map (journal_line lib) rs)"

definition journal_text :: "json_lib \<Rightarrow> json list \<Rightarrow> string" where
  "journal_text lib rs = concat (map (\<lambda>r. jl_dumps lib r @ [LF]) rs)"

lemma journal_bytes_simps [simp]:
  "journal_bytes lib [] = []"
  "journal_bytes lib (r # rs) = journal_line lib r @ journal_bytes lib rs"
  "journal_bytes lib (rs @ rs') = journal_bytes lib rs @ journal_bytes lib rs'"
  by (simp_all add: journal_bytes_def)

lemma utf8_encode_LF [simp]: "utf8_encode (LF # s) = LF # utf8_encode s"
  by (simp add: utf8_encode_def utf8_char_def)

lemma journal_bytes_text: "journal_bytes lib rs = utf8_encode (journal_text lib rs)"
  by (induction rs) (simp_all add: journal_line_def journal_text_def)

lemma write_journal_events_eq:
  "write_journal_events lib es b = b @ journal_bytes lib (map event_to_dict es)"
  by (induction es arbitrary: b) simp_all

text \<open>The bytes of a text keep its line ends and add none.\<close>

lemma utf8_char_low:
  assumes "of_char d < (128 :: nat)" shows "d \<in> set (utf8_char c) \<longleftrightarrow> d = c"
proof (cases "of_char c < (128 :: nat)")
  case False
  note two = utf8_two_bytes [OF False]
  have "d \<noteq> char_of (192 + of_char c div 64 :: nat)" "d \<noteq> char_of (128 + of_char c mod 64 :: nat)" "d \<noteq> c"
    using two(2-4) assms False by auto
  then show ?thesis by (simp add: two(1))
qed (simp add: utf8_char_def)

lemma utf8_encode_low: "of_char d < (128 :: nat) \<Longrightarrow> d \<in> set (utf8_encode s) \<longleftrightarrow> d \<in> set s"
  by (auto simp: utf8_encode_def utf8_char_low)

lemma record_safe_bytes:
  assumes "record_safe lib r"
  shows "LF \<notin> set (utf8_encode (jl_dumps lib r))" "CHR 0x00 \<notin> set (utf8_encode (jl_dumps lib r))"
  using assms by (auto simp: record_safe_def utf8_encode_low list_all_iff)

lemma journal_bytes_last: "rs \<noteq> [] \<Longrightarrow> journal_bytes lib rs \<noteq> [] \<and> last (journal_bytes lib rs) = LF"
  by (cases rs rule: rev_cases) (simp_all add: journal_line_def)

lemma journal_bytes_last_line: "LF \<notin> set p \<Longrightarrow> last_line_start (journal_bytes lib rs @ p) = length (journal_bytes lib rs)"
proof (cases rs rule: rev_cases)
  case (snoc ys r)
  assume "LF \<notin> set p"
  moreover have "last_line_start [LF] = 1" by (simp add: last_line_start_def)
  ultimately show ?thesis
    using last_line_start_append [of "journal_bytes lib ys @ utf8_encode (jl_dumps lib r)" "[LF]"]
    using last_line_start_append [of "[LF]" p]
    by (simp add: snoc journal_line_def last_line_start_append)
qed (use last_line_start_append [of "[]" p] in simp)

text \<open>Where a cut can fall: behind some complete lines, inside the next one.\<close>

lemma journal_cut:
  assumes "k \<le> length (journal_bytes lib rs)"
  obtains m p where "m \<le> length rs" "take k (journal_bytes lib rs) = journal_bytes lib (take m rs) @ p"
    "p = [] \<or> m < length rs \<and> prefix p (utf8_encode (jl_dumps lib (rs ! m)))"
proof -
  have "\<exists>m p. m \<le> length rs \<and> take k (journal_bytes lib rs) = journal_bytes lib (take m rs) @ p
    \<and> (p = [] \<or> m < length rs \<and> prefix p (utf8_encode (jl_dumps lib (rs ! m))))"
    using assms
  proof (induction rs arbitrary: k)
    case (Cons r rs)
    let ?l = "journal_line lib r"
    show ?case
    proof (cases "length ?l \<le> k")
      case True
      then have "k - length ?l \<le> length (journal_bytes lib rs)" using Cons.prems by simp
      from Cons.IH [OF this] obtain m p where "m \<le> length rs"
        "take (k - length ?l) (journal_bytes lib rs) = journal_bytes lib (take m rs) @ p"
        "p = [] \<or> m < length rs \<and> prefix p (utf8_encode (jl_dumps lib (rs ! m)))" by blast
      with True show ?thesis by (intro exI [of _ "Suc m"] exI [of _ p]) simp
    next
      case False
      then have "take k (journal_bytes lib (r # rs)) = take k (utf8_encode (jl_dumps lib r))"
        by (simp add: journal_line_def)
      then show ?thesis
        by (intro exI [of _ 0] exI [of _ "take k (utf8_encode (jl_dumps lib r))"]) (simp add: take_is_prefix)
    qed
  qed simp
  then show thesis using that by blast
qed

lemma lines_keep_aux_line: "LF \<notin> set l \<Longrightarrow> lines_keep_aux cur (l @ LF # t) = (rev cur @ l @ [LF]) # lines_keep_aux [] t"
  by (induction l arbitrary: cur) auto

lemma lines_keep_aux_rest: "LF \<notin> set q \<Longrightarrow> lines_keep_aux cur q = (if cur = [] \<and> q = [] then [] else [rev cur @ q])"
  by (induction q arbitrary: cur) auto

lemma universal_newlines_id: "CR \<notin> set s \<Longrightarrow> universal_newlines s = s"
  by (induction s) auto

lemma record_safe_line:
  assumes "record_safe lib r"
  shows "read_journal_records lib ((jl_dumps lib r @ [LF]) # ls) = (case read_journal_records lib ls of (rs, x) \<Rightarrow> (r # rs, x))"
    and "read_journal_records lib [jl_dumps lib r] = ([r], None)"
proof -
  obtain c where "c \<in> set (jl_dumps lib r)" "\<not> py_space c"
    using assms by (auto simp: record_safe_def list_all_iff)
  then have "py_strip (jl_dumps lib r @ t) \<noteq> []" for t by (auto simp: py_strip_Nil_iff)
  from this [of "[LF]"] this [of "[]"] assms
  show "read_journal_records lib ((jl_dumps lib r @ [LF]) # ls) = (case read_journal_records lib ls of (rs, x) \<Rightarrow> (r # rs, x))"
    "read_journal_records lib [jl_dumps lib r] = ([r], None)"
    by (simp_all add: record_safe_def)
qed

declare read_journal_records.simps(2) [simp del]

lemma read_records_lines:
  "list_all (record_safe lib) rs \<Longrightarrow> read_journal_records lib (map (\<lambda>r. jl_dumps lib r @ [LF]) rs @ ls)
     = (case read_journal_records lib ls of (rs', x) \<Rightarrow> (rs @ rs', x))"
  by (induction rs) (simp_all add: record_safe_line split: prod.splits)

lemma record_safe_no_LF: "record_safe lib r \<Longrightarrow> LF \<notin> set (jl_dumps lib r)"
  by (auto simp: record_safe_def list_all_iff)

lemma record_safe_no_CR: "record_safe lib r \<Longrightarrow> CR \<notin> set (jl_dumps lib r)"
  by (auto simp: record_safe_def list_all_iff)

lemma record_safe_no_NUL: "record_safe lib r \<Longrightarrow> CHR 0x00 \<notin> set (jl_dumps lib r)"
  by (auto simp: record_safe_def list_all_iff)

lemmas record_safe_chars = record_safe_no_LF record_safe_no_CR record_safe_no_NUL

lemma journal_text_no_CR: "list_all (record_safe lib) rs \<Longrightarrow> CR \<notin> set (journal_text lib rs)"
  by (induction rs) (simp_all add: journal_text_def record_safe_no_CR)

lemma journal_text_lines:
  "list_all (record_safe lib) rs \<Longrightarrow> LF \<notin> set q \<Longrightarrow>
     lines_keep (journal_text lib rs @ q) = map (\<lambda>r. jl_dumps lib r @ [LF]) rs @ (if q = [] then [] else [q])"
  by (induction rs)
    (simp_all add: journal_text_def lines_keep_def lines_keep_aux_line lines_keep_aux_rest record_safe_no_LF)

lemma read_journal_prefix:
  assumes "list_all (record_safe lib) rs" and "LF \<notin> set q" "CR \<notin> set q"
  shows "read_journal lib (journal_bytes lib rs @ utf8_encode q)
    = (case read_journal_records lib (if q = [] then [] else [q]) of (rs', x) \<Rightarrow> (rs @ rs', x))"
proof -
  have "CR \<notin> set (journal_text lib rs @ q)"
    using assms journal_text_no_CR [of lib rs] by simp
  moreover have "utf8_decode (journal_bytes lib rs @ utf8_encode q) = Inr (journal_text lib rs @ q)"
    by (simp add: journal_bytes_text utf8_decode_encode_append)
  ultimately show ?thesis using assms(1,2)
    by (simp add: read_journal_def universal_newlines_id journal_text_lines read_records_lines)
qed

text \<open>A journal without a torn line reads back whole.\<close>

lemma read_journal_whole: "list_all (record_safe lib) rs \<Longrightarrow> read_journal lib (journal_bytes lib rs) = (rs, None)"
  using read_journal_prefix [of lib rs "[]"] by simp

lemma strict_prefix_unsafe:
  assumes "record_safe lib r" and "strict_prefix q (jl_dumps lib r)"
  shows "jl_loads lib q = None"
proof -
  have "q = take (length q) (jl_dumps lib r)" "length q < length (jl_dumps lib r)"
    using assms(2) by (auto simp: strict_prefix_def prefix_def)
  moreover have "\<forall>n < length (jl_dumps lib r). jl_loads lib (take n (jl_dumps lib r)) = None"
    using assms(1) by (simp add: record_safe_def list_all_iff)
  ultimately show ?thesis by metis
qed

text \<open>Reading and repairing agree on what is left of the record under the cut.\<close>

lemma torn_read:
  assumes "list_all (record_safe lib) rs" and "record_safe lib r" and "prefix q (jl_dumps lib r)"
  shows "read_journal lib (journal_bytes lib rs @ utf8_encode q) = (if q = jl_dumps lib r then rs @ [r] else rs, None)"
proof -
  have "set q \<subseteq> set (jl_dumps lib r)" using assms(3) by (rule set_mono_prefix)
  then have q: "LF \<notin> set q" "CR \<notin> set q" using record_safe_chars [OF assms(2)] by auto
  note eq = read_journal_prefix [OF assms(1) q]
  show ?thesis
  proof (cases "q = jl_dumps lib r")
    case True
    then have "q \<noteq> []" using assms(2) by (auto simp: record_safe_def)
    with True eq show ?thesis by (simp add: record_safe_line(2) [OF assms(2)])
  next
    case False
    then have "jl_loads lib q = None" using strict_prefix_unsafe [OF assms(2)] assms(3) by (simp add: strict_prefix_def)
    moreover have "q \<noteq> [] \<Longrightarrow> last q \<noteq> LF" using q(1) last_in_set by metis
    ultimately show ?thesis using False eq by (simp add: read_journal_records.simps)
  qed
qed

lemma utf8_encode_Nil_iff [simp]: "utf8_encode q = [] \<longleftrightarrow> q = []"
  by (cases q) (simp_all add: utf8_encode_def utf8_char_def)

lemma utf8_no_mark: "take 2 (utf8_encode q) \<notin> {[CHR 0xFF, CHR 0xFE], [CHR 0xFE, CHR 0xFF]}"
proof
  assume a: "take 2 (utf8_encode q) \<in> {[CHR 0xFF, CHR 0xFE], [CHR 0xFE, CHR 0xFF]}"
  have cut: "utf8_encode q = take 2 (utf8_encode q) @ drop 2 (utf8_encode q)" by simp
  have "utf8_decode (take 2 (utf8_encode q) @ t) = Inl UnicodeDecodeError" for t using a by auto
  then have "utf8_decode (utf8_encode q) = Inl UnicodeDecodeError" by (subst cut)
  then show False by simp
qed

lemma loads_bytes_encode:
  "CHR 0x00 \<notin> set q \<Longrightarrow> loads_bytes lib (utf8_encode q) = (case jl_loads lib q of None \<Rightarrow> Inl JSONDecodeError | Some r \<Rightarrow> Inr r)"
  using utf8_no_mark [of q] by (simp add: loads_bytes_def utf8_encode_low)

lemma torn_prepare:
  assumes "record_safe lib r" and "prefix q (jl_dumps lib r)"
  shows "prepare_journal_append lib (journal_bytes lib rs @ utf8_encode q)
    = (journal_bytes lib (if q = jl_dumps lib r then rs @ [r] else rs), None)"
proof (cases "q = []")
  case True
  then have "q \<noteq> jl_dumps lib r" using assms(1) by (auto simp: record_safe_def)
  with True show ?thesis using journal_bytes_last [of rs lib] by (cases "rs = []") (auto simp: prepare_journal_append_def)
next
  case False
  have "set q \<subseteq> set (jl_dumps lib r)" using assms(2) by (rule set_mono_prefix)
  then have q: "LF \<notin> set q" "CHR 0x00 \<notin> set q" using record_safe_chars [OF assms(1)] by auto
  let ?b = "journal_bytes lib rs @ utf8_encode q"
  have p: "LF \<notin> set (utf8_encode q)" using q by (simp add: utf8_encode_low)
  moreover have "utf8_encode q \<noteq> []" using False by simp
  ultimately have "last ?b \<noteq> LF" using last_in_set [of "utf8_encode q"] by (metis last_append)
  moreover have "scan_back ?b (length ?b) = length (journal_bytes lib rs)"
    using p by (simp add: scan_back_last_line journal_bytes_last_line)
  ultimately have eq: "prepare_journal_append lib ?b = (case jl_loads lib q of
      None \<Rightarrow> (journal_bytes lib rs, None) | Some _ \<Rightarrow> (?b @ [LF], None))"
    using False by (simp add: prepare_journal_append_def loads_bytes_encode [OF q(2)] split: option.splits)
  show ?thesis
  proof (cases "q = jl_dumps lib r")
    case True
    then have "jl_loads lib q = Some r" using assms(1) by (simp add: record_safe_def)
    with True eq show ?thesis by (simp add: journal_line_def)
  next
    case notq: False
    then have "jl_loads lib q = None" using strict_prefix_unsafe [OF assms(1)] assms(2) by (simp add: strict_prefix_def)
    with notq show ?thesis by (simp add: eq)
  qed
qed

text \<open>How many records fit into \<open>b\<close> bytes. A journal cut off after \<open>k\<close> bytes holds the records that
  fit into \<open>k + 1\<close>: the line end of the last one may be missing.\<close>

fun whole_records :: "json_lib \<Rightarrow> nat \<Rightarrow> json list \<Rightarrow> nat" where
  "whole_records lib b [] = 0"
| "whole_records lib b (r # rs) =
     (if length (journal_line lib r) \<le> b then Suc (whole_records lib (b - length (journal_line lib r)) rs) else 0)"

lemma whole_records_le: "whole_records lib b rs \<le> length rs"
  by (induction rs arbitrary: b) auto

lemma whole_records_fit: "length (journal_bytes lib (take (whole_records lib b rs) rs)) \<le> b"
proof (induction rs arbitrary: b)
  case (Cons r rs)
  show ?case using Cons.IH [of "b - length (journal_line lib r)"] by (auto simp del: nat_add_left_cancel_le)
qed simp

lemma whole_records_max:
  "whole_records lib b rs = length rs \<or> b < length (journal_bytes lib (take (Suc (whole_records lib b rs)) rs))"
proof (induction rs arbitrary: b)
  case (Cons r rs)
  show ?case using Cons.IH [of "b - length (journal_line lib r)"] by auto
qed simp

lemma whole_records_cut:
  assumes "m \<le> length rs" and "p = [] \<or> m < length rs \<and> prefix p (utf8_encode (jl_dumps lib (rs ! m)))"
    and "list_all (record_safe lib) rs" and "k = length (journal_bytes lib (take m rs)) + length p"
  shows "whole_records lib (Suc k) rs = (if p \<noteq> [] \<and> p = utf8_encode (jl_dumps lib (rs ! m)) then Suc m else m)"
  using assms
proof (induction m arbitrary: rs k)
  case 0
  have len: "0 < length (utf8_encode (jl_dumps lib r))" if "record_safe lib r" for r
    using that by (auto simp: record_safe_def)
  show ?case
  proof (cases rs)
    case (Cons r rs')
    have "prefix p (utf8_encode (jl_dumps lib r))" using 0 Cons by auto
    then have "length p \<le> length (utf8_encode (jl_dumps lib r))"
      and "length p = length (utf8_encode (jl_dumps lib r)) \<Longrightarrow> p = utf8_encode (jl_dumps lib r)"
      by (auto simp: prefix_length_le prefix_def)
    moreover have "0 < length (utf8_encode (jl_dumps lib r))" using len 0 Cons by simp
    moreover have "whole_records lib 0 rs' = 0" using 0 Cons len by (cases rs') (auto simp: journal_line_def)
    ultimately show ?thesis using 0 Cons by (auto simp: journal_line_def)
  qed (use 0 in simp)
next
  case (Suc m)
  then obtain r rs' where rs: "rs = r # rs'" by (cases rs) auto
  let ?k = "length (journal_bytes lib (take m rs')) + length p"
  have "whole_records lib (Suc ?k) rs' = (if p \<noteq> [] \<and> p = utf8_encode (jl_dumps lib (rs' ! m)) then Suc m else m)"
    using Suc.prems rs by (intro Suc.IH) auto
  then show ?case using Suc.prems rs by (simp add: add.assoc)
qed

lemma crash_read_prepare:
  assumes safe: "list_all (record_safe lib) rs" and k: "k \<le> length (journal_bytes lib rs)"
    and b: "utf8_decode (take k (journal_bytes lib rs)) \<noteq> Inl UnicodeDecodeError"
  shows "read_journal lib (take k (journal_bytes lib rs)) = (take (whole_records lib (Suc k) rs) rs, None)"
    and "prepare_journal_append lib (take k (journal_bytes lib rs)) = (journal_bytes lib (take (whole_records lib (Suc k) rs) rs), None)"
proof -
  obtain m p where m: "m \<le> length rs" and cut: "take k (journal_bytes lib rs) = journal_bytes lib (take m rs) @ p"
    and p: "p = [] \<or> m < length rs \<and> prefix p (utf8_encode (jl_dumps lib (rs ! m)))"
    using journal_cut [OF k] by blast
  have klen: "k = length (journal_bytes lib (take m rs)) + length p"
    using arg_cong [OF cut, of length] k by simp
  have n: "whole_records lib (Suc k) rs = (if p \<noteq> [] \<and> p = utf8_encode (jl_dumps lib (rs ! m)) then Suc m else m)"
    by (rule whole_records_cut [OF m p safe klen])
  have pre: "list_all (record_safe lib) (take m rs)" using safe by (auto simp: list_all_iff dest: in_set_takeD)
  have "read_journal lib (take k (journal_bytes lib rs)) = (take (whole_records lib (Suc k) rs) rs, None)
    \<and> prepare_journal_append lib (take k (journal_bytes lib rs)) = (journal_bytes lib (take (whole_records lib (Suc k) rs) rs), None)"
  proof (cases "p = []")
    case True
    then show ?thesis using read_journal_whole [OF pre] journal_bytes_last [of "take m rs" lib]
      by (cases "take m rs = []") (auto simp: cut n prepare_journal_append_def)
  next
    case False
    let ?r = "rs ! m"
    have mr: "m < length rs" and pp: "prefix p (utf8_encode (jl_dumps lib ?r))" using p False by auto
    have r: "record_safe lib ?r" using safe mr by (simp add: list_all_length)
    have "utf8_decode p \<noteq> Inl UnicodeDecodeError"
      using b unfolding cut by (simp add: journal_bytes_text utf8_decode_encode_append)
    then obtain q where q: "prefix q (jl_dumps lib ?r)" "p = utf8_encode q" using utf8_prefix [OF pp] by blast
    have "(p = utf8_encode (jl_dumps lib ?r)) = (q = jl_dumps lib ?r)" using q(2) utf8_encode_inj by blast
    then show ?thesis using torn_read [OF pre r q(1)] torn_prepare [OF r q(1), of "take m rs"] False q(2)
      by (simp add: cut n take_Suc_conv_app_nth [OF mr])
  qed
  then show "read_journal lib (take k (journal_bytes lib rs)) = (take (whole_records lib (Suc k) rs) rs, None)"
    and "prepare_journal_append lib (take k (journal_bytes lib rs)) = (journal_bytes lib (take (whole_records lib (Suc k) rs) rs), None)"
    by auto
qed

lemma prefix_no_mark:
  assumes "prefix p (utf8_encode s)" shows "take 2 p \<notin> {[CHR 0xFF, CHR 0xFE], [CHR 0xFE, CHR 0xFF]}"
proof (cases "2 \<le> length p")
  case True
  then have "take 2 p = take 2 (utf8_encode s)" using assms by (auto simp: prefix_def)
  then show ?thesis using utf8_no_mark [of s] by simp
qed auto

lemma crash_in_character:
  assumes safe: "list_all (record_safe lib) rs" and k: "k \<le> length (journal_bytes lib rs)"
    and b: "utf8_decode (take k (journal_bytes lib rs)) = Inl UnicodeDecodeError"
  shows "prepare_journal_append lib (take k (journal_bytes lib rs)) = (take k (journal_bytes lib rs), Some UnicodeDecodeError)"
proof -
  obtain m p where m: "m \<le> length rs" and cut: "take k (journal_bytes lib rs) = journal_bytes lib (take m rs) @ p"
    and p: "p = [] \<or> m < length rs \<and> prefix p (utf8_encode (jl_dumps lib (rs ! m)))"
    using journal_cut [OF k] by blast
  have dec: "utf8_decode p = Inl UnicodeDecodeError"
    using b unfolding cut by (simp add: journal_bytes_text utf8_decode_encode_append)
  then have ne: "p \<noteq> []" by auto
  then have mr: "m < length rs" and pp: "prefix p (utf8_encode (jl_dumps lib (rs ! m)))" using p by auto
  have r: "record_safe lib (rs ! m)" using safe mr by (simp add: list_all_length)
  have chars: "LF \<notin> set p" "CHR 0x00 \<notin> set p" using record_safe_bytes [OF r] set_mono_prefix [OF pp] by auto
  then have "last (journal_bytes lib (take m rs) @ p) \<noteq> LF" using ne last_in_set [of p] by (metis last_append)
  moreover have "loads_bytes lib p = Inl UnicodeDecodeError"
    using dec chars prefix_no_mark [OF pp] by (simp add: loads_bytes_def)
  ultimately show ?thesis using ne chars
    by (simp add: cut prepare_journal_append_def scan_back_last_line journal_bytes_last_line)
qed

section \<open>Properties\<close>

text \<open>C16. A journal survives a crash at any byte that is not inside a character: let the process die after
  \<open>k\<close> bytes of its records are on disk. Reading the file gives the records \<open>take n es\<close> that were written
  completely (only the line end of the last may be missing), opening it again repairs it without an
  exception, and everything appended from then on is read back behind them.\<close>

theorem journal_survives_crash:
  assumes "list_all (\<lambda>e. record_safe lib (event_to_dict e)) (es @ new)"
    and "k \<le> length (write_journal_events lib es [])"
    and "utf8_decode (take k (write_journal_events lib es [])) \<noteq> Inl UnicodeDecodeError"
  shows "\<exists>n file. n \<le> length es
    \<and> read_journal lib (take k (write_journal_events lib es [])) = (map event_to_dict (take n es), None)
    \<and> prepare_journal_append lib (take k (write_journal_events lib es [])) = (file, None)
    \<and> read_journal lib (write_journal_events lib new file) = (map event_to_dict (take n es @ new), None)
    \<and> length (write_journal_events lib (take n es) []) \<le> k + 1
    \<and> (n = length es \<or> k + 1 < length (write_journal_events lib (take (Suc n) es) []))"
proof -
  let ?rs = "map event_to_dict es"
  let ?n = "whole_records lib (Suc k) ?rs"
  have safe: "list_all (record_safe lib) ?rs" "list_all (record_safe lib) (map event_to_dict (take ?n es @ new))"
    using assms(1) by (auto simp: list_all_iff dest: in_set_takeD)
  have k: "k \<le> length (journal_bytes lib ?rs)" and b: "utf8_decode (take k (journal_bytes lib ?rs)) \<noteq> Inl UnicodeDecodeError"
    using assms(2,3) by (simp_all add: write_journal_events_eq)
  note crash = crash_read_prepare [OF safe(1) k b]
  show ?thesis
    using crash read_journal_whole [OF safe(2)] whole_records_le [of lib "Suc k" ?rs]
      whole_records_fit [of lib "Suc k" ?rs] whole_records_max [of lib "Suc k" ?rs]
    by (intro exI [of _ ?n] exI [of _ "journal_bytes lib (take ?n ?rs)"])
      (simp add: write_journal_events_eq take_map)
qed

text \<open>A library with one record, whose text is given.\<close>

definition demo_line_lib :: "json \<Rightarrow> string \<Rightarrow> json_lib" where
  "demo_line_lib r t = \<lparr>jl_dumps = (\<lambda>_. t), jl_loads = (\<lambda>s. if s = t \<or> s = t @ [LF] then Some r else None)\<rparr>"

definition demo_event :: journal_event where
  "demo_event = \<lparr>ev_seq = 1, ev_id = ''e1'', ev_type = ''turn_started'', ev_turn_id = Some ''t'',
     ev_timestamp = snd demo_stamp, ev_tool_call_id = None, ev_payload = []\<rparr>"

lemma demo_line_safe: "record_safe (demo_line_lib r ''{}'') r" "record_safe (demo_line_lib r [CHR 0xE9, CHR 0x7D]) r"
  by (simp_all add: record_safe_def demo_line_lib_def py_space_def upt_rec)

theorem journal_survives_crash_witness:
  "\<exists>file. prepare_journal_append (demo_line_lib (event_to_dict demo_event) ''{}'') (''{}'' @ [LF] @ ''{'') = (file, None)
    \<and> read_journal (demo_line_lib (event_to_dict demo_event) ''{}'')
        (write_journal_events (demo_line_lib (event_to_dict demo_event) ''{}'') [demo_event] file)
      = ([event_to_dict demo_event, event_to_dict demo_event], None)"
proof -
  let ?lib = "demo_line_lib (event_to_dict demo_event) ''{}''"
  let ?es = "[demo_event, demo_event]"
  have line: "journal_line ?lib r = ''{}'' @ [LF]" for r
    by (simp add: journal_line_def demo_line_lib_def utf8_encode_def utf8_char_def)
  have "list_all (\<lambda>e. record_safe ?lib (event_to_dict e)) (?es @ [demo_event])" by (simp add: demo_line_safe)
  moreover have "utf8_decode (take 4 (write_journal_events ?lib ?es [])) \<noteq> Inl UnicodeDecodeError"
    by (simp add: line)
  moreover have "4 \<le> length (write_journal_events ?lib ?es [])" by (simp add: line)
  ultimately obtain n b where n: "n \<le> length ?es" "prepare_journal_append ?lib (take 4 (write_journal_events ?lib ?es [])) = (b, None)"
    "read_journal ?lib (write_journal_events ?lib [demo_event] b) = (map event_to_dict (take n ?es @ [demo_event]), None)"
    "length (write_journal_events ?lib (take n ?es) []) \<le> 4 + 1"
    "n = length ?es \<or> 4 + 1 < length (write_journal_events ?lib (take (Suc n) ?es) [])"
    using journal_survives_crash by blast
  have "n = 1"
  proof -
    have "n \<noteq> 2" using n(4) by (auto simp: line)
    moreover have "n \<noteq> 0"
    proof
      assume "n = 0"
      with n(5) show False by (simp add: line)
    qed
    ultimately show ?thesis using n(1) by (auto simp: le_Suc_eq)
  qed
  then show ?thesis using n(2,3) by (simp add: line)
qed

text \<open>C39. A tear inside a character is fatal: when the process dies between the two bytes of a character, the
  file can neither be read nor opened for appending. Both raise \<open>UnicodeDecodeError\<close>, and the file stays
  as it is.\<close>

theorem torn_character_is_fatal:
  assumes "list_all (\<lambda>e. record_safe lib (event_to_dict e)) es"
    and "k \<le> length (write_journal_events lib es [])"
    and "utf8_decode (take k (write_journal_events lib es [])) = Inl UnicodeDecodeError"
  shows "read_journal lib (take k (write_journal_events lib es [])) = ([], Some UnicodeDecodeError)
    \<and> prepare_journal_append lib (take k (write_journal_events lib es []))
      = (take k (write_journal_events lib es []), Some UnicodeDecodeError)"
proof -
  have "list_all (record_safe lib) (map event_to_dict es)" using assms(1) by (simp add: list_all_iff)
  from crash_in_character [OF this, of k] assms(2,3) show ?thesis
    by (simp add: write_journal_events_eq read_journal_def)
qed

theorem torn_character_is_fatal_witness:
  "write_journal_events (demo_line_lib (event_to_dict demo_event) [CHR 0xE9, CHR 0x7D]) [demo_event] [] = [CHR 0xC3, CHR 0xA9, CHR 0x7D, LF]
   \<and> prepare_journal_append (demo_line_lib (event_to_dict demo_event) [CHR 0xE9, CHR 0x7D]) [CHR 0xC3]
     = ([CHR 0xC3], Some UnicodeDecodeError)"
proof -
  let ?lib = "demo_line_lib (event_to_dict demo_event) [CHR 0xE9, CHR 0x7D]"
  have bytes: "write_journal_events ?lib [demo_event] [] = [CHR 0xC3, CHR 0xA9, CHR 0x7D, LF]"
    by (simp add: journal_line_def demo_line_lib_def utf8_encode_def utf8_char_def char_of_def bit_0)
  then show ?thesis using torn_character_is_fatal [of ?lib "[demo_event]" 1] by (simp add: demo_line_safe)
qed

end
