(* ===== verification/Session_Store.thy ===== *)
theory Session_Store
  imports Journal_File "HOL-Library.Multiset" "HOL-Library.Product_Lexorder" "HOL-Library.List_Lexorder"
begin

text \<open>
  The store of Sessions: \<open>JsonlSessionStore\<close> of \<open>agent_core/session_store.py\<close>, its paths
  (\<open>agent_core/session_paths.py\<close>) and the first title of a Session
  (\<open>initial_session_title\<close> of \<open>agent_core/session_title.py\<close>).

  \<^item> \<open>store\<close> is the tree under the sessions directory: a Session directory is filed under the name of
    its group (empty for a store that does not group by workspace) and the Session id, and holds the
    bytes of the journal and of \<open>session.json\<close>, when there are such files. The order of the
    dictionary is the order in which the directory is listed.
  \<^item> The lock files are not modelled: every operation runs under the lock of its Session, so the
    operations are the steps that interleave. \<open>abspath w\<close> is \<open>Path(w).expanduser().resolve()\<close>.
  \<^item> An operation that changes the store gives the store it leaves and what it returned or raised, so
    a failure half way is visible.
\<close>

section \<open>Paths\<close>

definition validate_session_id :: "string \<Rightarrow> unit res" where
  "validate_session_id sid =
     (if sid = [] \<or> sid \<in> set [''.'', ''..''] \<or> CHR ''/'' \<in> set sid \<or> CHR 0x5C \<in> set sid
      then Inl (ValueError (''Invalid session id: '' @ quoted sid)) else Inr ())"

text \<open>\<open>urllib.parse.quote(s, safe="")\<close> and \<open>unquote\<close>. A sequence that is not UTF-8 decodes to
  replacement characters, which are outside the code points of the development.\<close>

definition unreserved :: "char \<Rightarrow> bool" where
  "unreserved c = (let n = of_char c :: nat in
     (48 \<le> n \<and> n \<le> 57) \<or> (65 \<le> n \<and> n \<le> 90) \<or> (97 \<le> n \<and> n \<le> 122) \<or> c \<in> set ''_.-~'')"

definition hex_char :: "nat \<Rightarrow> char" where
  "hex_char n = (if n < 10 then char_of (48 + n) else char_of (55 + n))"

definition hex_val :: "char \<Rightarrow> nat option" where
  "hex_val c = (let n = of_char c :: nat in
     if 48 \<le> n \<and> n \<le> 57 then Some (n - 48)
     else if 65 \<le> n \<and> n \<le> 70 then Some (n - 55)
     else if 97 \<le> n \<and> n \<le> 102 then Some (n - 87) else None)"

definition quote_byte :: "char \<Rightarrow> string" where
  "quote_byte b = (if unreserved b then [b]
     else [CHR ''%'', hex_char (of_char b div 16), hex_char (of_char b mod 16)])"

definition workspace_key :: "(string \<Rightarrow> string) \<Rightarrow> string \<Rightarrow> string" where
  "workspace_key abspath w = concat (map quote_byte (utf8_encode (abspath w)))"

fun unquote_bytes :: "string \<Rightarrow> string" where
  "unquote_bytes [] = []"
| "unquote_bytes (c # cs) =
     (if c = CHR ''%'' then
        (case cs of
           a # b # rest \<Rightarrow>
             (case (hex_val a, hex_val b) of
                (Some x, Some y) \<Rightarrow> char_of (16 * x + y) # unquote_bytes rest
              | _ \<Rightarrow> c # unquote_bytes cs)
         | _ \<Rightarrow> c # unquote_bytes cs)
      else c # unquote_bytes cs)"

definition workspace_from_key :: "string \<Rightarrow> string res" where
  "workspace_from_key key =
     (if CHR ''%'' \<notin> set key then Inr key
      else if \<not> list_all (\<lambda>c. of_char c < (128 :: nat)) key then Inl (Untyped ''unquote'')
      else (case utf8_decode (unquote_bytes key) of Inr s \<Rightarrow> Inr s | Inl _ \<Rightarrow> Inl (Untyped ''unquote'')))"

section \<open>The files\<close>

record session_dir =
  dr_journal :: "string option"
  dr_metadata :: "string option"

type_synonym dir_path = "string \<times> string"

record store =
  st_grouped :: bool
  st_dirs :: "(dir_path, session_dir) dict"

definition new_store :: "bool \<Rightarrow> store" where
  "new_store grouped = \<lparr>st_grouped = grouped, st_dirs = []\<rparr>"

definition dir_at :: "dir_path \<Rightarrow> store \<Rightarrow> session_dir option" where
  "dir_at k st = map_of (st_dirs st) k"

definition put_dir :: "dir_path \<Rightarrow> session_dir \<Rightarrow> store \<Rightarrow> store" where
  "put_dir k d st = st\<lparr>st_dirs := AList.update k d (st_dirs st)\<rparr>"

definition remove_dir :: "dir_path \<Rightarrow> store \<Rightarrow> store" where
  "remove_dir k st = st\<lparr>st_dirs := AList.delete k (st_dirs st)\<rparr>"

definition ensure_dir :: "dir_path \<Rightarrow> store \<Rightarrow> store" where
  "ensure_dir k st =
     (case dir_at k st of None \<Rightarrow> put_dir k \<lparr>dr_journal = None, dr_metadata = None\<rparr> st | Some _ \<Rightarrow> st)"

definition journal_at :: "dir_path \<Rightarrow> store \<Rightarrow> string option" where
  "journal_at k st = (case dir_at k st of None \<Rightarrow> None | Some d \<Rightarrow> dr_journal d)"

definition metadata_at :: "dir_path \<Rightarrow> store \<Rightarrow> string option" where
  "metadata_at k st = (case dir_at k st of None \<Rightarrow> None | Some d \<Rightarrow> dr_metadata d)"

definition put_journal :: "dir_path \<Rightarrow> string \<Rightarrow> store \<Rightarrow> store" where
  "put_journal k b st = put_dir k \<lparr>dr_journal = Some b, dr_metadata = metadata_at k st\<rparr> st"

definition put_metadata :: "dir_path \<Rightarrow> string \<Rightarrow> store \<Rightarrow> store" where
  "put_metadata k b st = put_dir k \<lparr>dr_journal = journal_at k st, dr_metadata = Some b\<rparr> st"

section \<open>Session metadata\<close>

definition session_metadata :: "json_lib \<Rightarrow> dir_path \<Rightarrow> store \<Rightarrow> jobj res" where
  "session_metadata lib k st = (case metadata_at k st of
      None \<Rightarrow> Inr []
    | Some b \<Rightarrow> res_bind (utf8_decode b) (\<lambda>s.
        case jl_loads lib (universal_newlines s) of
          None \<Rightarrow> Inl JSONDecodeError
        | Some (JObj d) \<Rightarrow> Inr d
        | Some _ \<Rightarrow> Inl (ValueError ''session workspace metadata must be an object'')))"

definition write_session_metadata :: "json_lib \<Rightarrow> dir_path \<Rightarrow> jobj \<Rightarrow> store \<Rightarrow> store" where
  "write_session_metadata lib k m st = put_metadata k (utf8_encode (jl_dumps lib (JObj m))) st"

definition new_session_metadata :: jobj where
  "new_session_metadata = [(''title'', JStr []), (''title_source'', JStr ''initial''), (''has_activity'', JBool False)]"

definition stored_preset :: "json_lib \<Rightarrow> dir_path \<Rightarrow> store \<Rightarrow> preset res" where
  "stored_preset lib k st =
     res_bind (session_metadata lib k st) (\<lambda>m.
       case jget m ''permission_preset'' of
         JNull \<Rightarrow> Inr ASK_FOR_APPROVAL
       | v \<Rightarrow> res_bind (py_str v) preset_of)"

text \<open>The label of the second and further attachments is a text outside the code points of the
  development and a parameter.\<close>

definition TITLE_MAX_CHARS :: nat where
  "TITLE_MAX_CHARS = 80"

definition initial_session_title :: "(nat \<Rightarrow> string) \<Rightarrow> message \<Rightarrow> string \<Rightarrow> string" where
  "initial_session_title label m sid =
     (let text = py_strip (case text_content (msg_content m) of None \<Rightarrow> [] | Some t \<Rightarrow> t);
          names = filter (\<lambda>f. f \<noteq> []) (map part_filename (filter (\<lambda>p. is_image p \<or> is_file p) (content_parts (msg_content m))));
          text' = (if text \<noteq> [] then text
                   else if names \<noteq> [] then hd names @ (if 1 < length names then label (length names) else [])
                   else [])
      in take TITLE_MAX_CHARS (py_join '' '' (py_words (if text' \<noteq> [] then text' else sid))))"

text \<open>One event of \<open>_update_session_metadata\<close>: the preset, the activity flag, the first title.\<close>

definition meta_preset :: "journal_event \<Rightarrow> jobj \<times> bool \<Rightarrow> (jobj \<times> bool) res" where
  "meta_preset e mc =
     (if ev_type e = ''permission_preset_changed'' then
        res_bind (res_bind (res_bind (jindex (ev_payload e) ''preset'') py_str) preset_of) (\<lambda>p.
          Inr (AList.update ''permission_preset'' (JStr (preset_value p)) (fst mc), True))
      else Inr mc)"

definition meta_activity :: "journal_event \<Rightarrow> jobj \<times> bool \<Rightarrow> (jobj \<times> bool) res" where
  "meta_activity e mc =
     res_bind (jindex (fst mc) ''has_activity'') (\<lambda>a.
       if \<not> py_truthy a \<and> ev_type e \<notin> set [''permission_preset_changed'', ''plan_updated'']
       then Inr (AList.update ''has_activity'' (JBool True) (fst mc), True) else Inr mc)"

definition meta_title :: "(nat \<Rightarrow> string) \<Rightarrow> string \<Rightarrow> journal_event \<Rightarrow> jobj \<times> bool \<Rightarrow> (jobj \<times> bool) res" where
  "meta_title label sid e mc =
     res_bind (jindex (fst mc) ''title'') (\<lambda>t.
       if py_truthy t then Inr mc
       else res_bind (jindex (fst mc) ''title_source'') (\<lambda>src.
         if src = JStr ''initial'' \<and> ev_type e = ''message_appended'' then
           (case jget (ev_payload e) ''message'' of
              JObj d \<Rightarrow>
                if jget d ''role'' = JStr ''user'' then
                  res_bind (message_from_dict d) (\<lambda>m.
                    Inr (AList.update ''title'' (JStr (initial_session_title label m sid)) (fst mc), True))
                else Inr mc
            | _ \<Rightarrow> Inr mc)
         else Inr mc))"

definition meta_event :: "(nat \<Rightarrow> string) \<Rightarrow> string \<Rightarrow> jobj \<times> bool \<Rightarrow> journal_event \<Rightarrow> (jobj \<times> bool) res" where
  "meta_event label sid mc e =
     res_bind (meta_preset e mc) (\<lambda>mc. res_bind (meta_activity e mc) (meta_title label sid e))"

definition update_session_metadata ::
  "json_lib \<Rightarrow> (nat \<Rightarrow> string) \<Rightarrow> dir_path \<Rightarrow> string \<Rightarrow> journal_event list \<Rightarrow> store \<Rightarrow> store outcome" where
  "update_session_metadata lib label k sid es st =
     try_in st (session_metadata lib k st) (\<lambda>m.
     try_in st (replay (meta_event label sid) (m, False) es) (\<lambda>(m', changed).
       (if changed then write_session_metadata lib k m' st else st, None)))"

section \<open>Finding and loading Sessions\<close>

definition find_session_directory :: "string \<Rightarrow> store \<Rightarrow> dir_path option" where
  "find_session_directory sid st =
     (if \<not> st_grouped st then (if journal_at ([], sid) st \<noteq> None then Some ([], sid) else None)
      else (case filter (\<lambda>(k, d). fst k \<noteq> [] \<and> snd k = sid \<and> (dr_journal d \<noteq> None \<or> dr_metadata d \<noteq> None)) (st_dirs st) of
          [] \<Rightarrow> None
        | (k, _) # _ \<Rightarrow> Some k))"

definition workspace_for_unlocked :: "string \<Rightarrow> store \<Rightarrow> string option res" where
  "workspace_for_unlocked sid st =
     (if \<not> st_grouped st then Inr None
      else (case find_session_directory sid st of
          None \<Rightarrow> Inr None
        | Some k \<Rightarrow> res_map Some (workspace_from_key (fst k))))"

definition session_directory :: "(string \<Rightarrow> string) \<Rightarrow> string \<Rightarrow> string \<Rightarrow> dir_path res" where
  "session_directory abspath w sid = res_bind (validate_session_id sid) (\<lambda>_. Inr (workspace_key abspath w, sid))"

text \<open>The path of the journal is its directory: the file name is fixed by the Session id.\<close>

definition session_path :: "(string \<Rightarrow> string) \<Rightarrow> string \<Rightarrow> string option \<Rightarrow> store \<Rightarrow> dir_path option res" where
  "session_path abspath sid ws st =
     (if \<not> st_grouped st then Inr (Some ([], sid))
      else (case ws of
          Some w \<Rightarrow> res_map Some (session_directory abspath w sid)
        | None \<Rightarrow> res_bind (workspace_for_unlocked sid st) (\<lambda>bound. case bound of
            None \<Rightarrow> Inr None
          | Some w \<Rightarrow> res_map Some (session_directory abspath w sid))))"

definition load_record :: "session \<Rightarrow> json \<Rightarrow> session res" where
  "load_record s r =
     res_bind (event_from_dict r) (\<lambda>e.
       case apply_event e (ses_core s) of
         (c, None) \<Rightarrow> Inr (s\<lparr>ses_core := c, ses_journal := ses_journal s @ [e]\<rparr>)
       | (_, Some x) \<Rightarrow> Inl x)"

definition load_journal :: "json_lib \<Rightarrow> string \<Rightarrow> session \<Rightarrow> session res" where
  "load_journal lib b s = (case read_journal lib b of
      (rs, x) \<Rightarrow> res_bind (replay load_record s rs) (\<lambda>s'. case x of None \<Rightarrow> Inr s' | Some e \<Rightarrow> Inl e))"

text \<open>The Session object before replay: its workspace and the stored permission preset.\<close>

definition start_session :: "json_lib \<Rightarrow> string \<Rightarrow> string option \<Rightarrow> store \<Rightarrow> session res" where
  "start_session lib sid bound st =
     (let s = new_session sid bound in
      case find_session_directory sid st of
        None \<Rightarrow> Inr s
      | Some k \<Rightarrow> res_map (\<lambda>p. s\<lparr>ses_core := (ses_core s)\<lparr>sc_permission_preset := p\<rparr>\<rparr>) (stored_preset lib k st))"

definition load_unlocked ::
  "json_lib \<Rightarrow> (string \<Rightarrow> string) \<Rightarrow> (nat \<Rightarrow> stamp) \<Rightarrow> string \<Rightarrow> string option \<Rightarrow> bool \<Rightarrow> store \<Rightarrow> session res" where
  "load_unlocked lib abspath stamps sid ws rec st =
     res_bind (session_path abspath sid ws st) (\<lambda>path.
     res_bind (workspace_for_unlocked sid st) (\<lambda>bound.
     res_bind (start_session lib sid bound st) (\<lambda>s.
     case Option.bind path (\<lambda>k. journal_at k st) of
       None \<Rightarrow> Inr s
     | Some b \<Rightarrow> res_bind (load_journal lib b s) (\<lambda>s.
         if rec then (case recover stamps s of (s', None) \<Rightarrow> Inr s' | (_, Some x) \<Rightarrow> Inl x) else Inr s))))"

definition load_session ::
  "json_lib \<Rightarrow> (string \<Rightarrow> string) \<Rightarrow> (nat \<Rightarrow> stamp) \<Rightarrow> string \<Rightarrow> string option \<Rightarrow> bool \<Rightarrow> store \<Rightarrow> session res" where
  "load_session lib abspath stamps sid ws rec st =
     res_bind (validate_session_id sid) (\<lambda>_. load_unlocked lib abspath stamps sid ws rec st)"

definition has_journal :: "(string \<Rightarrow> string) \<Rightarrow> string \<Rightarrow> store \<Rightarrow> bool res" where
  "has_journal abspath sid st =
     res_bind (validate_session_id sid) (\<lambda>_.
       res_map (\<lambda>path. Option.bind path (\<lambda>k. journal_at k st) \<noteq> None) (session_path abspath sid None st))"

definition workspace_for :: "string \<Rightarrow> store \<Rightarrow> string option res" where
  "workspace_for sid st = res_bind (validate_session_id sid) (\<lambda>_. workspace_for_unlocked sid st)"

definition permission_preset_for :: "json_lib \<Rightarrow> string \<Rightarrow> store \<Rightarrow> preset res" where
  "permission_preset_for lib sid st =
     res_bind (validate_session_id sid) (\<lambda>_.
       case find_session_directory sid st of
         None \<Rightarrow> Inr ASK_FOR_APPROVAL
       | Some k \<Rightarrow> stored_preset lib k st)"

definition provider_for :: "json_lib \<Rightarrow> string \<Rightarrow> store \<Rightarrow> string option res" where
  "provider_for lib sid st =
     res_bind (validate_session_id sid) (\<lambda>_.
       if \<not> st_grouped st then Inr None
       else (case find_session_directory sid st of
           None \<Rightarrow> Inr None
         | Some k \<Rightarrow> res_map (\<lambda>m. case jget_str m ''provider'' of Some v \<Rightarrow> if v = [] then None else Some v | None \<Rightarrow> None)
             (session_metadata lib k st)))"

definition no_session :: "string \<Rightarrow> exn" where
  "no_session sid = ValueError (''session does not exist: '' @ quoted sid)"

definition title_source_for :: "json_lib \<Rightarrow> string \<Rightarrow> store \<Rightarrow> string res" where
  "title_source_for lib sid st =
     res_bind (validate_session_id sid) (\<lambda>_.
       case find_session_directory sid st of
         None \<Rightarrow> Inl (no_session sid)
       | Some k \<Rightarrow> res_bind (res_bind (session_metadata lib k st) (\<lambda>m. jindex m ''title_source'')) py_str)"

section \<open>Changing the store\<close>

definition delete_session :: "string \<Rightarrow> store \<Rightarrow> store \<times> bool res" where
  "delete_session sid st =
     (case validate_session_id sid of
        Inl x \<Rightarrow> (st, Inl x)
      | Inr _ \<Rightarrow>
          (case (if st_grouped st then find_session_directory sid st else Some ([], sid)) of
             None \<Rightarrow> (st, Inr False)
           | Some k \<Rightarrow> if dir_at k st = None then (st, Inl (OSError ''No such file or directory''))
               else (remove_dir k st, Inr True)))"

definition init_metadata :: "json_lib \<Rightarrow> dir_path \<Rightarrow> store \<Rightarrow> store" where
  "init_metadata lib k st =
     (if metadata_at k st = None then write_session_metadata lib k new_session_metadata st else st)"

definition bind_workspace :: "json_lib \<Rightarrow> (string \<Rightarrow> string) \<Rightarrow> string \<Rightarrow> string \<Rightarrow> store \<Rightarrow> store outcome" where
  "bind_workspace lib abspath sid w st =
     try_in st (validate_session_id sid) (\<lambda>_.
       let target = (workspace_key abspath (abspath w), sid) in
       case find_session_directory sid st of
         Some k \<Rightarrow>
           if k = target then (init_metadata lib target (ensure_dir target st), None)
           else if dir_at target st \<noteq> None
           then (st, Some (ValueError (''session already exists in workspace: '' @ quoted sid)))
           else (init_metadata lib target (put_dir target (the (dir_at k st)) (remove_dir k st)), None)
       | None \<Rightarrow> (init_metadata lib target (ensure_dir target st), None))"

definition set_metadata_field ::
  "json_lib \<Rightarrow> (string \<Rightarrow> string) \<Rightarrow> string \<Rightarrow> string \<Rightarrow> string \<Rightarrow> string \<Rightarrow> store \<Rightarrow> store outcome" where
  "set_metadata_field lib abspath sid w name v st =
     try_in st (validate_session_id sid) (\<lambda>_.
     try_in st (session_directory abspath w sid) (\<lambda>k.
       let st1 = ensure_dir k st in
       try_in st1 (session_metadata lib k st1) (\<lambda>m.
         (write_session_metadata lib k (AList.update name (JStr v) m) st1, None))))"

definition store_permission_preset ::
  "json_lib \<Rightarrow> (string \<Rightarrow> string) \<Rightarrow> string \<Rightarrow> preset \<Rightarrow> string \<Rightarrow> store \<Rightarrow> store outcome" where
  "store_permission_preset lib abspath sid p w st = set_metadata_field lib abspath sid w ''permission_preset'' (preset_value p) st"

definition set_provider ::
  "json_lib \<Rightarrow> (string \<Rightarrow> string) \<Rightarrow> string \<Rightarrow> string \<Rightarrow> string \<Rightarrow> store \<Rightarrow> store outcome" where
  "set_provider lib abspath sid p w st = set_metadata_field lib abspath sid w ''provider'' p st"

definition set_title ::
  "json_lib \<Rightarrow> string \<Rightarrow> string \<Rightarrow> string \<Rightarrow> string option \<Rightarrow> store \<Rightarrow> store \<times> bool res" where
  "set_title lib sid title source expected st =
     (if source \<notin> set [''initial'', ''generated'', ''manual''] \<or> py_strip title = []
      then (st, Inl (ValueError ''invalid Session title or source''))
      else (case validate_session_id sid of
          Inl x \<Rightarrow> (st, Inl x)
        | Inr _ \<Rightarrow>
            (case find_session_directory sid st of
               None \<Rightarrow> (st, Inl (no_session sid))
             | Some k \<Rightarrow>
                 (case session_metadata lib k st of
                    Inl x \<Rightarrow> (st, Inl x)
                  | Inr m \<Rightarrow>
                      (let m' = AList.update ''title_source'' (JStr source) (AList.update ''title'' (JStr title) m);
                           write = (write_session_metadata lib k m' st, Inr True)
                       in case expected of
                            None \<Rightarrow> write
                          | Some x \<Rightarrow>
                              (case jindex m ''title_source'' of
                                 Inl e \<Rightarrow> (st, Inl e)
                               | Inr v \<Rightarrow> if v \<noteq> JStr x then (st, Inr False) else write))))))"

section \<open>Writing journals\<close>

text \<open>Make the directory, its metadata and the journal file, if they are missing.\<close>

definition open_journal_file :: "json_lib \<Rightarrow> dir_path \<Rightarrow> store \<Rightarrow> store" where
  "open_journal_file lib k st =
     (let st1 = init_metadata lib k (ensure_dir k st)
      in case journal_at k st1 of None \<Rightarrow> put_journal k [] st1 | Some _ \<Rightarrow> st1)"

text \<open>\<open>append\<close> of \<open>open_journal\<close>. A writer whose directory was deleted writes into the unlinked file.\<close>

definition journal_sink ::
  "json_lib \<Rightarrow> (nat \<Rightarrow> string) \<Rightarrow> dir_path \<Rightarrow> string \<Rightarrow> journal_event list \<Rightarrow> store \<Rightarrow> store outcome" where
  "journal_sink lib label k sid es st =
     update_session_metadata lib label k sid es
       (case journal_at k st of None \<Rightarrow> st | Some b \<Rightarrow> put_journal k (write_journal_events lib es b) st)"

definition prepare_journal :: "json_lib \<Rightarrow> dir_path \<Rightarrow> store \<Rightarrow> store outcome" where
  "prepare_journal lib k st = (case journal_at k st of
      None \<Rightarrow> (st, None)
    | Some b \<Rightarrow> (case prepare_journal_append lib b of (b', x) \<Rightarrow> (if b' = b then st else put_journal k b' st, x)))"

definition open_journal ::
  "json_lib \<Rightarrow> (string \<Rightarrow> string) \<Rightarrow> string \<Rightarrow> string option \<Rightarrow> store \<Rightarrow> store \<times> dir_path res" where
  "open_journal lib abspath sid ws st =
     (case validate_session_id sid of
        Inl x \<Rightarrow> (st, Inl x)
      | Inr _ \<Rightarrow>
          (case session_path abspath sid ws st of
             Inl x \<Rightarrow> (st, Inl x)
           | Inr None \<Rightarrow> (st, Inl (ValueError (''session has no journal path: '' @ quoted sid)))
           | Inr (Some k) \<Rightarrow>
               (case prepare_journal lib k (open_journal_file lib k st) of
                  (st', Some x) \<Rightarrow> (st', Inl x)
                | (st', None) \<Rightarrow> (st', Inr k))))"

definition append_events_unlocked ::
  "json_lib \<Rightarrow> (nat \<Rightarrow> string) \<Rightarrow> (string \<Rightarrow> string) \<Rightarrow> string \<Rightarrow> journal_event list \<Rightarrow> string option \<Rightarrow> store \<Rightarrow> store outcome" where
  "append_events_unlocked lib label abspath sid es ws st =
     try_in st (case ws of None \<Rightarrow> workspace_for_unlocked sid st | Some w \<Rightarrow> Inr (Some w)) (\<lambda>ws.
     if ws = None \<and> st_grouped st
     then (st, Some (ValueError (''workspace is required for a new session: '' @ quoted sid)))
     else try_in st (session_path abspath sid ws st) (\<lambda>path. case path of
         None \<Rightarrow> (st, Some (ValueError (''session has no journal path: '' @ quoted sid)))
       | Some k \<Rightarrow>
           (case prepare_journal lib k (open_journal_file lib k st) of
              (st', Some x) \<Rightarrow> (st', Some x)
            | (st', None) \<Rightarrow> journal_sink lib label k sid es st')))"

definition append_events ::
  "json_lib \<Rightarrow> (nat \<Rightarrow> string) \<Rightarrow> (string \<Rightarrow> string) \<Rightarrow> string \<Rightarrow> journal_event list \<Rightarrow> string option \<Rightarrow> store \<Rightarrow> store outcome" where
  "append_events lib label abspath sid es ws st =
     (if es = [] then (st, None)
      else try_in st (validate_session_id sid) (\<lambda>_. append_events_unlocked lib label abspath sid es ws st))"

section \<open>Forks\<close>

fun editable_anchor :: "journal_event list \<Rightarrow> user_anchor list \<Rightarrow> (string \<times> nat) list res" where
  "editable_anchor evs [] = Inr []"
| "editable_anchor evs (a # as) =
     (if ua_source a \<noteq> ''user_input'' then editable_anchor evs as
      else if length evs \<le> ua_item_index a then Inl (IndexError ''list index out of range'')
      else let e = evs ! ua_item_index a in
        if ev_turn_id e \<noteq> Some (ua_turn_id a) then Inl (ValueError ''user anchor does not match its Journal event'')
        else Inr [(ev_id e, ua_item_index a)])"

definition editable_user_messages :: "session \<Rightarrow> (string \<times> nat) list res" where
  "editable_user_messages s =
     editable_anchor (filter (\<lambda>e. ev_type e = ''message_appended'') (ses_journal s)) (rev (sc_user_anchors (ses_core s)))"

fun first_index :: "('a \<Rightarrow> bool) \<Rightarrow> 'a list \<Rightarrow> nat option" where
  "first_index P [] = None"
| "first_index P (x # xs) = (if P x then Some 0 else map_option Suc (first_index P xs))"

text \<open>The events before the turn of the edited message.\<close>

definition fork_prefix :: "session \<Rightarrow> string \<Rightarrow> journal_event list res" where
  "fork_prefix s anchor_id =
     res_bind (editable_user_messages s) (\<lambda>targets.
       if targets = [] \<or> fst (hd targets) \<noteq> anchor_id then Inl (ValueError ''editable user message does not exist'')
       else (case List.find (\<lambda>e. ev_id e = anchor_id) (ses_journal s) of
           None \<Rightarrow> Inl (RuntimeError ''StopIteration'')
         | Some a \<Rightarrow>
             (case first_index (\<lambda>e. ev_type e = ''turn_started'' \<and> ev_turn_id e = ev_turn_id a) (ses_journal s) of
                None \<Rightarrow> Inl (ValueError ''editable user message has no turn boundary'')
              | Some i \<Rightarrow> Inr (take i (ses_journal s)))))"

definition fork_metadata :: "string \<Rightarrow> string \<Rightarrow> journal_event list \<Rightarrow> jobj \<Rightarrow> jobj" where
  "fork_metadata source anchor_id before m =
     (let m1 = AList.update ''fork_anchor_id'' (JStr anchor_id)
                (AList.update ''forked_from'' (JStr source) (AList.update ''has_activity'' (JBool False) m))
      in if list_ex (\<lambda>e. ev_type e = ''message_appended'') before then m1
         else AList.update ''title_source'' (JStr ''initial'') (AList.update ''title'' (JStr []) m1))"

text \<open>Fill a fresh directory; when anything raises, the directory is removed again.\<close>

definition fill_fork ::
  "json_lib \<Rightarrow> (nat \<Rightarrow> string) \<Rightarrow> (string \<Rightarrow> string) \<Rightarrow> (nat \<Rightarrow> stamp) \<Rightarrow> dir_path \<Rightarrow> string \<Rightarrow> string option
    \<Rightarrow> jobj \<Rightarrow> journal_event list \<Rightarrow> store \<Rightarrow> store \<times> session res" where
  "fill_fork lib label abspath stamps target new ws m before st =
     (case append_events_unlocked lib label abspath new before ws (write_session_metadata lib target m (ensure_dir target st)) of
        (st', Some x) \<Rightarrow> (remove_dir target st', Inl x)
      | (st', None) \<Rightarrow>
          (case load_unlocked lib abspath stamps new None False st' of
             Inl x \<Rightarrow> (remove_dir target st', Inl x)
           | Inr s \<Rightarrow> (st', Inr s)))"

definition fork_target :: "(string \<Rightarrow> string) \<Rightarrow> string \<Rightarrow> string option \<Rightarrow> store \<Rightarrow> dir_path res" where
  "fork_target abspath new ws st =
     (if find_session_directory new st \<noteq> None then Inl (ValueError (''session already exists: '' @ quoted new))
      else res_bind (if st_grouped st then (case ws of
            None \<Rightarrow> Inl (ValueError ''source session has no workspace'')
          | Some w \<Rightarrow> session_directory abspath w new) else Inr ([], new))
        (\<lambda>k. if dir_at k st \<noteq> None then Inl (OSError ''File exists'') else Inr k))"

text \<open>What is read under the lock of the source: workspace, metadata and events of the fork.\<close>

definition fork_source ::
  "json_lib \<Rightarrow> (string \<Rightarrow> string) \<Rightarrow> (nat \<Rightarrow> stamp) \<Rightarrow> string \<Rightarrow> string \<Rightarrow> store \<Rightarrow> (string option \<times> jobj \<times> journal_event list) res" where
  "fork_source lib abspath stamps source anchor_id st =
     (case find_session_directory source st of
        None \<Rightarrow> res_bind (session_path abspath source None st) (\<lambda>_. Inl (no_session source))
      | Some k \<Rightarrow>
          res_bind (session_path abspath source None st) (\<lambda>path.
          if Option.bind path (\<lambda>k. journal_at k st) = None then Inl (no_session source)
          else res_bind (load_unlocked lib abspath stamps source None False st) (\<lambda>s.
          res_bind (fork_prefix s anchor_id) (\<lambda>before.
          res_bind (workspace_for_unlocked source st) (\<lambda>ws.
          res_bind (session_metadata lib k st) (\<lambda>m.
            Inr (ws, fork_metadata source anchor_id before m, before)))))))"

definition fork_session ::
  "json_lib \<Rightarrow> (nat \<Rightarrow> string) \<Rightarrow> (string \<Rightarrow> string) \<Rightarrow> (nat \<Rightarrow> stamp) \<Rightarrow> string \<Rightarrow> string \<Rightarrow> string \<Rightarrow> store
    \<Rightarrow> store \<times> session res" where
  "fork_session lib label abspath stamps source new anchor_id st =
     (case res_bind (validate_session_id source) (\<lambda>_. res_bind (validate_session_id new) (\<lambda>_.
         if new = source then Inl (ValueError (''session already exists: '' @ quoted new))
         else res_bind (fork_source lib abspath stamps source anchor_id st) (\<lambda>(ws, m, before).
           res_map (\<lambda>k. (k, ws, m, before)) (fork_target abspath new ws st)))) of
        Inl x \<Rightarrow> (st, Inl x)
      | Inr (target, ws, m, before) \<Rightarrow> fill_fork lib label abspath stamps target new ws m before st)"

section \<open>Listings\<close>

definition session_summary :: "string \<Rightarrow> jobj \<Rightarrow> jobj res" where
  "session_summary sid m =
     res_map (\<lambda>t. [(''session_id'', JStr sid), (''title'', if py_truthy t then t else JStr sid)]
       @ (case jget_str m ''forked_from'' of None \<Rightarrow> [] | Some f \<Rightarrow> [(''forked_from'', JStr f)])) (jindex m ''title'')"

type_synonym listed = "int \<times> string \<times> jobj"

fun scan_entries :: "json_lib \<Rightarrow> (dir_path \<Rightarrow> int) \<Rightarrow> store \<Rightarrow> dir_path list \<Rightarrow> listed list res" where
  "scan_entries lib mtime st [] = Inr []"
| "scan_entries lib mtime st (k # ks) =
     (if journal_at k st = None then scan_entries lib mtime st ks
      else res_bind (session_metadata lib k st) (\<lambda>m.
           res_bind (jindex m ''has_activity'') (\<lambda>a.
             if py_truthy a then
               res_bind (session_summary (snd k) m) (\<lambda>sm.
                 res_map ((#) (mtime k, snd k, sm)) (scan_entries lib mtime st ks))
             else scan_entries lib mtime st ks)))"

text \<open>\<open>sort(key=..., reverse=True)\<close> keeps equal elements in their order.\<close>

definition sort_desc :: "('a \<Rightarrow> 'b :: linorder) \<Rightarrow> 'a list \<Rightarrow> 'a list" where
  "sort_desc f xs = rev (sort_key f (rev xs))"

definition scan_sessions :: "json_lib \<Rightarrow> (dir_path \<Rightarrow> int) \<Rightarrow> string \<Rightarrow> store \<Rightarrow> listed list res" where
  "scan_sessions lib mtime grp st =
     res_map (sort_desc (\<lambda>(t, name, _). (t, name)))
       (scan_entries lib mtime st (filter (\<lambda>k. fst k = grp) (map fst (st_dirs st))))"

definition list_workspace_sessions ::
  "json_lib \<Rightarrow> (string \<Rightarrow> string) \<Rightarrow> (dir_path \<Rightarrow> int) \<Rightarrow> string \<Rightarrow> store \<Rightarrow> jobj list res" where
  "list_workspace_sessions lib abspath mtime w st =
     res_map (map (\<lambda>(_, _, s). s)) (scan_sessions lib mtime (workspace_key abspath w) st)"

fun list_groups :: "json_lib \<Rightarrow> (dir_path \<Rightarrow> int) \<Rightarrow> store \<Rightarrow> string list \<Rightarrow> (int \<times> string \<times> jobj list) list res" where
  "list_groups lib mtime st [] = Inr []"
| "list_groups lib mtime st (g # gs) =
     res_bind (scan_sessions lib mtime g st) (\<lambda>found.
       if found = [] then list_groups lib mtime st gs
       else res_bind (workspace_from_key g) (\<lambda>w.
         res_map ((#) (Max (set (map fst found)), w, map (\<lambda>(_, _, s). s) found)) (list_groups lib mtime st gs)))"

definition list_sessions :: "json_lib \<Rightarrow> (dir_path \<Rightarrow> int) \<Rightarrow> store \<Rightarrow> (string \<times> jobj list) list res" where
  "list_sessions lib mtime st =
     res_map (\<lambda>groups. map snd (sort_desc fst groups))
       (list_groups lib mtime st (filter (\<lambda>g. g \<noteq> []) (remdups (map (\<lambda>(k, _). fst k) (st_dirs st)))))"

section \<open>Reading what was written\<close>

lemma dir_at_put [simp]: "dir_at k' (put_dir k d st) = (if k' = k then Some d else dir_at k' st)"
  by (simp add: dir_at_def put_dir_def)

lemma dir_at_remove [simp]: "dir_at k' (remove_dir k st) = (if k' = k then None else dir_at k' st)"
  by (simp add: dir_at_def remove_dir_def)

lemma journal_at_simps [simp]:
  "journal_at k (put_journal k b st) = Some b"
  "journal_at k (put_metadata k b st) = journal_at k st"
  "metadata_at k (put_journal k b st) = metadata_at k st"
  "metadata_at k (put_metadata k b st) = Some b"
  by (simp_all add: journal_at_def metadata_at_def put_journal_def put_metadata_def)

lemma dir_at_others [simp]:
  "k' \<noteq> k \<Longrightarrow> dir_at k' (put_journal k b st) = dir_at k' st"
  "k' \<noteq> k \<Longrightarrow> dir_at k' (put_metadata k b st) = dir_at k' st"
  "k' \<noteq> k \<Longrightarrow> dir_at k' (write_session_metadata lib k m st) = dir_at k' st"
  "k' \<noteq> k \<Longrightarrow> dir_at k' (ensure_dir k st) = dir_at k' st"
  by (simp_all add: put_journal_def put_metadata_def write_session_metadata_def ensure_dir_def split: option.splits)

lemma grouped_kept [simp]:
  "st_grouped (put_journal k b st) = st_grouped st"
  "st_grouped (put_metadata k b st) = st_grouped st"
  "st_grouped (write_session_metadata lib k m st) = st_grouped st"
  "st_grouped (ensure_dir k st) = st_grouped st"
  "st_grouped (remove_dir k st) = st_grouped st"
  by (simp_all add: put_journal_def put_metadata_def write_session_metadata_def ensure_dir_def remove_dir_def put_dir_def
      split: option.splits)

lemma update_twice: "AList.update k v (AList.update k v' d) = AList.update k v d"
  by (induction d) auto

lemma put_journal_twice [simp]: "put_journal k b (put_journal k b' st) = put_journal k b st"
proof -
  have "metadata_at k (put_journal k b' st) = metadata_at k st" by simp
  then show ?thesis unfolding put_journal_def [of k b] by (simp add: put_journal_def put_dir_def update_twice)
qed

lemma dirs_ok_kept [simp]:
  "dict_ok (st_dirs st) \<Longrightarrow> dict_ok (st_dirs (put_dir k d st))"
  "dict_ok (st_dirs st) \<Longrightarrow> dict_ok (st_dirs (put_journal k b st))"
  "dict_ok (st_dirs st) \<Longrightarrow> dict_ok (st_dirs (put_metadata k b st))"
  "dict_ok (st_dirs st) \<Longrightarrow> dict_ok (st_dirs (write_session_metadata lib k m st))"
  "dict_ok (st_dirs st) \<Longrightarrow> dict_ok (st_dirs (ensure_dir k st))"
  "dict_ok (st_dirs st) \<Longrightarrow> dict_ok (st_dirs (remove_dir k st))"
  by (simp_all add: put_journal_def put_metadata_def write_session_metadata_def ensure_dir_def remove_dir_def put_dir_def
      split: option.splits)

text \<open>A document whose text decodes to it and has no carriage return survives a metadata file.\<close>

definition doc_safe :: "json_lib \<Rightarrow> json \<Rightarrow> bool" where
  "doc_safe lib v \<longleftrightarrow> jl_loads lib (jl_dumps lib v) = Some v \<and> CR \<notin> set (jl_dumps lib v)"

lemma metadata_roundtrip: "doc_safe lib (JObj m) \<Longrightarrow> session_metadata lib k (write_session_metadata lib k m st) = Inr m"
  by (simp add: session_metadata_def write_session_metadata_def doc_safe_def universal_newlines_id)

lemma session_metadata_journal [simp]: "session_metadata lib k (put_journal k b st) = session_metadata lib k st"
  by (simp add: session_metadata_def)

subsection \<open>Workspace keys\<close>

lemma hex_val_char: "n < 16 \<Longrightarrow> hex_val (hex_char n) = Some n"
  by (simp add: hex_val_def hex_char_def of_char_of Let_def)

lemma unquote_quote: "unquote_bytes (concat (map quote_byte bs)) = bs"
proof (induction bs)
  case (Cons b bs)
  have "(of_char b :: nat) div 16 < 16" using of_char_bound [of b] by linarith
  moreover have "char_of (16 * (of_char b div 16) + of_char b mod 16 :: nat) = b"
    by (simp only: mult_div_mod_eq) simp
  moreover have "\<not> unreserved (CHR ''%'')" by (simp add: unreserved_def)
  ultimately show ?case using Cons.IH by (auto simp: quote_byte_def hex_val_char)
qed simp

lemma hex_char_ascii: "n < 16 \<Longrightarrow> of_char (hex_char n) < (128 :: nat)"
  by (simp add: hex_char_def of_char_of)

lemma quote_byte_ascii: "list_all (\<lambda>c. of_char c < (128 :: nat)) (quote_byte b)"
proof -
  have "(of_char b :: nat) div 16 < 16" using of_char_bound [of b] by linarith
  then show ?thesis by (auto simp: quote_byte_def unreserved_def Let_def hex_char_ascii)
qed

lemma quote_plain: "CHR ''%'' \<notin> set (concat (map quote_byte bs)) \<Longrightarrow> concat (map quote_byte bs) = bs"
  by (induction bs) (auto simp: quote_byte_def split: if_splits)

lemma utf8_decode_ascii: "list_all (\<lambda>c. of_char c < (128 :: nat)) s \<Longrightarrow> utf8_decode s = Inr s"
  by (induction s) (simp_all add: Let_def)

lemma key_ascii: "list_all (\<lambda>c. of_char c < (128 :: nat)) (workspace_key abspath w)"
  using quote_byte_ascii by (fastforce simp: workspace_key_def list_all_iff)

lemma workspace_key_decodes: "workspace_from_key (workspace_key abspath w) = Inr (abspath w)"
proof (cases "CHR ''%'' \<in> set (workspace_key abspath w)")
  case True
  then show ?thesis using key_ascii [of abspath w] unquote_quote [of "utf8_encode (abspath w)"]
    by (simp add: workspace_from_key_def) (simp add: workspace_key_def)
next
  case False
  then have eq: "workspace_key abspath w = utf8_encode (abspath w)"
    unfolding workspace_key_def by (rule quote_plain)
  then have "utf8_decode (workspace_key abspath w) = Inr (abspath w)" by simp
  then have "workspace_key abspath w = abspath w" using utf8_decode_ascii [OF key_ascii, of abspath w] by simp
  then show ?thesis using False by (simp add: workspace_from_key_def)
qed

subsection \<open>Appending refines an abstract log\<close>

text \<open>The abstract Session directory: the list of its events and its metadata. Appending a batch adds the
  events and folds them into the metadata, one event at a time.\<close>

type_synonym session_log = "journal_event list \<times> jobj"

definition log_append :: "(nat \<Rightarrow> string) \<Rightarrow> string \<Rightarrow> session_log \<Rightarrow> journal_event list \<Rightarrow> session_log res" where
  "log_append label sid l es =
     res_map (\<lambda>mc. (fst l @ es, fst mc)) (replay (meta_event label sid) (snd l, False) es)"

definition holds_log :: "json_lib \<Rightarrow> dir_path \<Rightarrow> store \<Rightarrow> session_log \<Rightarrow> bool" where
  "holds_log lib k st l \<longleftrightarrow> journal_at k st = Some (journal_bytes lib (map event_to_dict (fst l)))
     \<and> session_metadata lib k st = Inr (snd l)"

definition sink_step ::
  "json_lib \<Rightarrow> (nat \<Rightarrow> string) \<Rightarrow> dir_path \<Rightarrow> string \<Rightarrow> store \<Rightarrow> journal_event list \<Rightarrow> store res" where
  "sink_step lib label k sid st es = (case journal_sink lib label k sid es st of (st', None) \<Rightarrow> Inr st' | (_, Some x) \<Rightarrow> Inl x)"

definition batch_ok :: "json_lib \<Rightarrow> (nat \<Rightarrow> string) \<Rightarrow> string \<Rightarrow> session_log \<Rightarrow> journal_event list \<Rightarrow> bool" where
  "batch_ok lib label sid l es \<longleftrightarrow>
     (case log_append label sid l es of Inl _ \<Rightarrow> True | Inr l' \<Rightarrow> doc_safe lib (JObj (snd l')))"

lemma meta_event_flag: "meta_event label sid (m, c) e = Inr (m', c') \<Longrightarrow> c' = c \<and> m' = m \<or> c'"
  by (auto simp: meta_event_def meta_preset_def meta_activity_def meta_title_def split: if_splits json.splits)

lemma meta_replay_flag: "replay (meta_event label sid) (m, c) es = Inr (m', c') \<Longrightarrow> c' = c \<and> m' = m \<or> c'"
proof (induction es arbitrary: m c)
  case (Cons e es)
  then obtain m1 c1 where "meta_event label sid (m, c) e = Inr (m1, c1)" "replay (meta_event label sid) (m1, c1) es = Inr (m', c')"
    by auto
  then show ?case using Cons.IH [of m1 c1] meta_event_flag [of label sid m c e m1 c1] by auto
qed simp

text \<open>The flag only says whether anything was written: it does not influence the metadata.\<close>

lemma meta_parts_same:
  "res_map fst (meta_preset e (m, c)) = res_map fst (meta_preset e (m, d))"
  "res_map fst (meta_activity e (m, c)) = res_map fst (meta_activity e (m, d))"
  "res_map fst (meta_title label sid e (m, c)) = res_map fst (meta_title label sid e (m, d))"
proof -
  show "res_map fst (meta_preset e (m, c)) = res_map fst (meta_preset e (m, d))"
    by (simp add: meta_preset_def res_map_bind)
  show "res_map fst (meta_activity e (m, c)) = res_map fst (meta_activity e (m, d))"
    by (cases "jindex m ''has_activity''") (simp_all add: meta_activity_def)
  show "res_map fst (meta_title label sid e (m, c)) = res_map fst (meta_title label sid e (m, d))"
    by (cases "jindex m ''title''"; cases "jindex m ''title_source''"; cases "jget (ev_payload e) ''message''")
      (simp_all add: meta_title_def res_map_bind if_distrib [of "res_map fst"])
qed

lemma res_map_same: "res_map fst r = res_map fst r' \<Longrightarrow> r = Inr (x, c) \<Longrightarrow> \<exists>c'. r' = Inr (x, c')"
  by (cases r') auto

lemmas meta_parts_any_flag = meta_parts_same [THEN res_map_same]

lemma meta_event_any_flag:
  assumes "meta_event label sid (m, c) e = Inr (m', c')"
  shows "\<exists>c''. meta_event label sid (m, d) e = Inr (m', c'')"
proof -
  from assms obtain m1 c1 m2 c2 where 1: "meta_preset e (m, c) = Inr (m1, c1)"
    and 2: "meta_activity e (m1, c1) = Inr (m2, c2)" and 3: "meta_title label sid e (m2, c2) = Inr (m', c')"
    by (auto simp: meta_event_def)
  from meta_parts_any_flag(1) [OF 1, of d] obtain d1 where 4: "meta_preset e (m, d) = Inr (m1, d1)" by blast
  from meta_parts_any_flag(2) [OF 2, of d1] obtain d2 where 5: "meta_activity e (m1, d1) = Inr (m2, d2)" by blast
  from meta_parts_any_flag(3) [OF 3, of d2] 4 5 show ?thesis by (auto simp: meta_event_def)
qed

lemma meta_replay_any_flag:
  "replay (meta_event label sid) (m, c) es = Inr (m', c') \<Longrightarrow> \<exists>c''. replay (meta_event label sid) (m, d) es = Inr (m', c'')"
proof (induction es arbitrary: m c d)
  case (Cons e es)
  then obtain m1 c1 where e: "meta_event label sid (m, c) e = Inr (m1, c1)" "replay (meta_event label sid) (m1, c1) es = Inr (m', c')"
    by auto
  from meta_event_any_flag [OF e(1), of d] obtain c2 where "meta_event label sid (m, d) e = Inr (m1, c2)" by blast
  with Cons.IH [OF e(2), of c2] show ?case by simp
qed simp

lemma sink_step_refines:
  assumes "holds_log lib k st l" and "batch_ok lib label sid l es" and "log_append label sid l es = Inr l'"
  shows "\<exists>st'. sink_step lib label k sid st es = Inr st' \<and> holds_log lib k st' l'"
proof -
  obtain m' c where run: "replay (meta_event label sid) (snd l, False) es = Inr (m', c)" and l': "l' = (fst l @ es, m')"
    using assms(3) by (auto simp: log_append_def)
  let ?st = "put_journal k (journal_bytes lib (map event_to_dict (fst l @ es))) st"
  have sink: "sink_step lib label k sid st es = Inr (if c then write_session_metadata lib k m' ?st else ?st)"
    using assms(1) run by (simp add: sink_step_def journal_sink_def holds_log_def write_journal_events_eq update_session_metadata_def)
  have safe: "doc_safe lib (JObj m')" using assms(2,3) l' by (simp add: batch_ok_def)
  show ?thesis
  proof (cases c)
    case True
    with sink safe show ?thesis by (simp add: holds_log_def l' metadata_roundtrip) (simp add: write_session_metadata_def)
  next
    case False
    then have "m' = snd l" using meta_replay_flag [OF run] by simp
    with False sink assms(1) show ?thesis by (simp add: holds_log_def l')
  qed
qed

interpretation sr: forward_simulation "holds_log lib k" "sink_step lib label k sid" "log_append label sid" "batch_ok lib label sid"
  for lib label k sid
  by unfold_locales (rule sink_step_refines)

lemma batches_ok:
  "(\<And>n l'. replay (log_append label sid) l (take n bs) = Inr l' \<Longrightarrow> doc_safe lib (JObj (snd l'))) \<Longrightarrow>
     sr.all_ok label sid lib l bs"
proof (induction bs arbitrary: l)
  case (Cons b bs)
  have "batch_ok lib label sid l b"
    using Cons.prems [of 1] by (cases "log_append label sid l b") (simp_all add: batch_ok_def)
  moreover have "sr.all_ok label sid lib l' bs" if "log_append label sid l b = Inr l'" for l'
    using Cons.prems [of "Suc _"] that by (intro Cons.IH) simp
  ultimately show ?case by (simp split: sum.split)
qed simp

text \<open>However the events are cut into batches, the abstract log is the same.\<close>

lemma log_append_append:
  assumes "log_append label sid l es = Inr l1" and "log_append label sid l1 es' = Inr l2"
  shows "log_append label sid l (es @ es') = Inr l2"
proof -
  obtain m1 c1 where 1: "replay (meta_event label sid) (snd l, False) es = Inr (m1, c1)" "l1 = (fst l @ es, m1)"
    using assms(1) by (auto simp: log_append_def)
  obtain m2 c2 where 2: "replay (meta_event label sid) (m1, False) es' = Inr (m2, c2)" "l2 = (fst l @ es @ es', m2)"
    using assms(2) 1(2) by (auto simp: log_append_def)
  from meta_replay_any_flag [OF 2(1), of c1] obtain c3 where "replay (meta_event label sid) (m1, c1) es' = Inr (m2, c3)" by blast
  with 1 2(2) show ?thesis by (simp add: log_append_def replay_append)
qed

lemma log_append_batches:
  "replay (log_append label sid) l bs = Inr l' \<Longrightarrow> log_append label sid l (concat bs) = Inr l'"
proof (induction bs arbitrary: l)
  case Nil
  then show ?case by (simp add: log_append_def)
next
  case (Cons b bs)
  then obtain l1 where "log_append label sid l b = Inr l1" "replay (log_append label sid) l1 bs = Inr l'" by auto
  then show ?case using Cons.IH [of l1] log_append_append [of label sid l b l1] by simp
qed

subsection \<open>Loading\<close>

lemma res_bind_ret [simp]: "res_bind r Inr = r"
  by (cases r) simp_all

lemma replay_load:
  "list_all (\<lambda>e. utc_ok (ev_timestamp e)) es \<Longrightarrow>
   replay load_record s (map event_to_dict es)
     = res_map (\<lambda>c. s\<lparr>ses_core := c, ses_journal := ses_journal s @ es\<rparr>) (replay apply_step (ses_core s) es)"
proof (induction es arbitrary: s)
  case (Cons e es)
  have "load_record s (event_to_dict e)
    = res_map (\<lambda>c. s\<lparr>ses_core := c, ses_journal := ses_journal s @ [e]\<rparr>) (apply_step (ses_core s) e)"
    using Cons.prems by (simp add: load_record_def event_roundtrip apply_step_def split: prod.split option.split)
  then show ?case using Cons by (cases "apply_step (ses_core s) e") (simp_all add: res_bind_map)
qed simp

lemma load_journal_whole:
  assumes "list_all (\<lambda>e. utc_ok (ev_timestamp e) \<and> record_safe lib (event_to_dict e)) es"
  shows "load_journal lib (journal_bytes lib (map event_to_dict es)) s
    = res_map (\<lambda>c. s\<lparr>ses_core := c, ses_journal := ses_journal s @ es\<rparr>) (replay apply_step (ses_core s) es)"
proof -
  have "list_all (record_safe lib) (map event_to_dict es)" "list_all (\<lambda>e. utc_ok (ev_timestamp e)) es"
    using assms by (simp_all add: list_all_iff)
  then show ?thesis
    by (cases "replay apply_step (ses_core s) es") (simp_all add: load_journal_def read_journal_whole replay_load)
qed

text \<open>What the code relies on of \<open>Path.resolve\<close>: its result is an absolute path that resolves to itself.\<close>

definition abspath_ok :: "(string \<Rightarrow> string) \<Rightarrow> bool" where
  "abspath_ok abspath \<longleftrightarrow> (\<forall>w. abspath (abspath w) = abspath w \<and> abspath w \<noteq> [])"

lemma key_idem: "abspath_ok abspath \<Longrightarrow> workspace_key abspath (abspath w) = workspace_key abspath w"
  by (simp add: workspace_key_def abspath_ok_def)

lemma workspace_key_not_Nil: "abspath_ok abspath \<Longrightarrow> workspace_key abspath w \<noteq> []"
proof
  assume "abspath_ok abspath" and "workspace_key abspath w = []"
  then have "abspath w \<noteq> []" "workspace_from_key [] = Inr (abspath w)"
    using workspace_key_decodes [of abspath w] by (simp_all only: abspath_ok_def) simp
  then show False by (simp add: workspace_from_key_def)
qed

lemma session_path_found:
  assumes "abspath_ok abspath" and "st_grouped st" and "validate_session_id sid = Inr ()"
    and "find_session_directory sid st = Some (workspace_key abspath w, sid)"
  shows "workspace_for_unlocked sid st = Inr (Some (abspath w))"
    and "session_path abspath sid None st = Inr (Some (workspace_key abspath w, sid))"
  using assms by (simp_all add: workspace_for_unlocked_def session_path_def session_directory_def workspace_key_decodes key_idem)

definition loaded_session :: "string \<Rightarrow> string option \<Rightarrow> journal_event list \<Rightarrow> session_core \<Rightarrow> session" where
  "loaded_session sid ws es c = (new_session sid ws)\<lparr>ses_core := c, ses_journal := es\<rparr>"

lemma load_found:
  assumes "abspath_ok abspath" and "st_grouped st" and "validate_session_id sid = Inr ()"
    and "find_session_directory sid st = Some k" and "k = (workspace_key abspath w, sid)"
    and "journal_at k st = Some (journal_bytes lib (map event_to_dict es))"
    and "list_all (\<lambda>e. utc_ok (ev_timestamp e) \<and> record_safe lib (event_to_dict e)) es"
  shows "load_unlocked lib abspath stamps sid None False st
    = res_bind (stored_preset lib k st) (\<lambda>p.
        res_map (loaded_session sid (Some (abspath w)) es) (replay apply_step (empty_core\<lparr>sc_permission_preset := p\<rparr>) es))"
  using assms session_path_found [of abspath st sid w]
  by (cases "stored_preset lib k st")
    (simp_all add: load_unlocked_def start_session_def load_journal_whole new_session_def loaded_session_def [abs_def] res_bind_map)

subsection \<open>What an operation touches\<close>

definition only_at :: "dir_path \<Rightarrow> store \<Rightarrow> store \<Rightarrow> bool" where
  "only_at k st st' \<longleftrightarrow> st_grouped st' = st_grouped st \<and> (\<forall>k'. k' \<noteq> k \<longrightarrow> dir_at k' st' = dir_at k' st)
     \<and> (dict_ok (st_dirs st) \<longrightarrow> dict_ok (st_dirs st'))"

lemma only_at_refl [simp]: "only_at k st st"
  by (simp add: only_at_def)

lemma only_at_trans: "only_at k st st1 \<Longrightarrow> only_at k st1 st2 \<Longrightarrow> only_at k st st2"
  by (simp add: only_at_def)

lemma only_at_puts [simp]:
  "only_at k st (put_journal k b st)" "only_at k st (put_metadata k b st)"
  "only_at k st (write_session_metadata lib k m st)" "only_at k st (ensure_dir k st)" "only_at k st (remove_dir k st)"
  by (simp_all add: only_at_def)

lemma update_metadata_only: "only_at k st (fst (update_session_metadata lib label k sid es st))"
  by (cases "session_metadata lib k st")
    (auto simp: update_session_metadata_def try_in_def split: sum.split prod.split)

lemma open_journal_file_only: "only_at k st (open_journal_file lib k st)"
proof -
  have 1: "only_at k st (init_metadata lib k (ensure_dir k st))"
    using only_at_trans [OF only_at_puts(4) only_at_puts(3)] by (simp add: init_metadata_def)
  show ?thesis
    using 1 only_at_trans [OF 1 only_at_puts(1)] by (simp add: open_journal_file_def Let_def split: option.split)
qed

lemma prepare_journal_only: "only_at k st (fst (prepare_journal lib k st))"
  by (simp add: prepare_journal_def split: option.split prod.split)

lemma journal_sink_only: "only_at k st (fst (journal_sink lib label k sid es st))"
proof (cases "journal_at k st")
  case None
  then show ?thesis by (simp add: journal_sink_def update_metadata_only)
next
  case (Some b)
  then show ?thesis using only_at_trans [OF only_at_puts(1) update_metadata_only] by (simp add: journal_sink_def)
qed

text \<open>Where a fork goes: into the workspace of its source.\<close>

definition fork_dir :: "(string \<Rightarrow> string) \<Rightarrow> string \<Rightarrow> string option \<Rightarrow> bool \<Rightarrow> dir_path" where
  "fork_dir abspath new ws grouped = (if grouped then (workspace_key abspath (the ws), new) else ([], new))"

lemma append_fork_dir:
  assumes "validate_session_id new = Inr ()" and "ws \<noteq> None \<longleftrightarrow> st_grouped st"
    and "k = fork_dir abspath new ws (st_grouped st)"
  shows "append_events_unlocked lib label abspath new es ws st =
    (case prepare_journal lib k (open_journal_file lib k st) of
       (st', Some x) \<Rightarrow> (st', Some x) | (st', None) \<Rightarrow> journal_sink lib label k new es st')"
  unfolding assms(3) using assms(1,2)
  by (cases ws) (simp_all add: append_events_unlocked_def fork_dir_def session_path_def session_directory_def workspace_for_unlocked_def
      split: prod.split option.split)

lemma append_fork_only:
  assumes "validate_session_id new = Inr ()" and "ws \<noteq> None \<longleftrightarrow> st_grouped st"
  shows "only_at (fork_dir abspath new ws (st_grouped st)) st (fst (append_events_unlocked lib label abspath new es ws st))"
proof -
  let ?k = "fork_dir abspath new ws (st_grouped st)"
  obtain st1 x where 1: "prepare_journal lib ?k (open_journal_file lib ?k st) = (st1, x)" by fastforce
  have "only_at ?k st st1"
    using only_at_trans [OF open_journal_file_only prepare_journal_only, of ?k st lib lib] 1 by simp
  then show ?thesis using append_fork_dir [OF assms refl, of lib label abspath es] 1 only_at_trans [OF _ journal_sink_only]
    by (cases x) simp_all
qed

lemma fork_target_dir:
  assumes "fork_target abspath new ws st = Inr k"
  shows "dir_at k st = None" "find_session_directory new st = None" "st_grouped st \<Longrightarrow> ws \<noteq> None"
    "k = fork_dir abspath new ws (st_grouped st)" 
  using assms by (auto simp: fork_target_def fork_dir_def session_directory_def simp del: not_None_eq split: if_splits option.splits)

lemma workspace_for_ungrouped: "workspace_for_unlocked sid st = Inr ws \<Longrightarrow> \<not> st_grouped st \<Longrightarrow> ws = None"
  by (simp add: workspace_for_unlocked_def)

text \<open>The parts of a successful reading phase.\<close>

lemma fork_session_cases:
  assumes "fork_session lib label abspath stamps source new anchor_id st = (st', r)"
  obtains (early) x where "st' = st" "r = Inl x"
  | (fill) ws m before k where "validate_session_id source = Inr ()" "validate_session_id new = Inr ()"
      "fork_source lib abspath stamps source anchor_id st = Inr (ws, m, before)"
      "fork_target abspath new ws st = Inr k" "ws \<noteq> None \<longleftrightarrow> st_grouped st"
      "fill_fork lib label abspath stamps k new ws m before st = (st', r)"
proof (cases "res_bind (validate_session_id source) (\<lambda>_. res_bind (validate_session_id new) (\<lambda>_.
         if new = source then Inl (ValueError (''session already exists: '' @ quoted new))
         else res_bind (fork_source lib abspath stamps source anchor_id st) (\<lambda>(ws, m, before).
           res_map (\<lambda>k. (k, ws, m, before)) (fork_target abspath new ws st))))")
  case (Inl x)
  with assms have "st' = st" "r = Inl x" by (simp_all add: fork_session_def)
  then show thesis by (rule early)
next
  case (Inr y)
  obtain k ws m before where y: "y = (k, ws, m, before)" by (cases y) auto
  from Inr y have p: "validate_session_id source = Inr ()" "validate_session_id new = Inr ()"
    "fork_source lib abspath stamps source anchor_id st = Inr (ws, m, before)" "fork_target abspath new ws st = Inr k"
    by (auto split: if_splits)
  then have "workspace_for_unlocked source st = Inr ws" by (auto simp: fork_source_def split: option.splits if_splits)
  then have "ws \<noteq> None \<longleftrightarrow> st_grouped st"
    using fork_target_dir(3) [OF p(4)] workspace_for_ungrouped by auto
  moreover have "fill_fork lib label abspath stamps k new ws m before st = (st', r)"
    using assms Inr y by (simp add: fork_session_def)
  ultimately show thesis using fill p by blast
qed

subsection \<open>Forks\<close>

lemma only_at_absent: "only_at k st st' \<Longrightarrow> dir_at k st = None \<Longrightarrow> dir_at k' (remove_dir k st') = dir_at k' st"
  by (cases k') (simp add: only_at_def)

lemma fill_fork_effect:
  assumes "fill_fork lib label abspath stamps k new ws m before st = (st', r)"
    and "validate_session_id new = Inr ()" "ws \<noteq> None \<longleftrightarrow> st_grouped st" "fork_target abspath new ws st = Inr k"
  shows "(\<exists>x. r = Inl x \<and> (\<forall>k'. dir_at k' st' = dir_at k' st)) \<or> (\<exists>s. r = Inr s \<and> only_at k st st')"
proof -
  let ?st = "write_session_metadata lib k m (ensure_dir k st)"
  note t = fork_target_dir [OF assms(4)]
  have st: "only_at k st ?st" by (rule only_at_trans [OF only_at_puts(4) only_at_puts(3)])
  obtain st1 x where ap: "append_events_unlocked lib label abspath new before ws ?st = (st1, x)" by fastforce
  have "only_at k ?st st1"
    using append_fork_only [of new ws ?st abspath lib label before] assms(2,3) ap t(4) by simp
  with st have o: "only_at k st st1" by (rule only_at_trans)
  show ?thesis
  proof (cases x)
    case (Some e)
    then have "r = Inl e" "st' = remove_dir k st1" using assms(1) ap by (auto simp: fill_fork_def)
    then show ?thesis using only_at_absent [OF o t(1)] by blast
  next
    case None
    show ?thesis
    proof (cases "load_unlocked lib abspath stamps new None False st1")
      case (Inl e)
      then have "r = Inl e" "st' = remove_dir k st1" using assms(1) ap None by (auto simp: fill_fork_def)
      then show ?thesis using only_at_absent [OF o t(1)] by blast
    next
      case (Inr s)
      then have "r = Inr s" "st' = st1" using assms(1) ap None by (auto simp: fill_fork_def)
      then show ?thesis using o by blast
    qed
  qed
qed

text \<open>The journal a successful fork writes.\<close>

lemma journal_at_update_metadata:
  "journal_at k (fst (update_session_metadata lib label k sid es st)) = journal_at k st"
proof -
  have "journal_at k (write_session_metadata lib k m st) = journal_at k st" for m by (simp add: write_session_metadata_def)
  then show ?thesis by (cases "session_metadata lib k st") (auto simp: update_session_metadata_def try_in_def split: sum.split prod.split)
qed

lemma fork_journal:
  assumes "append_events_unlocked lib label abspath new es ws st = (st', None)"
    and "validate_session_id new = Inr ()" "ws \<noteq> None \<longleftrightarrow> st_grouped st" "journal_at (fork_dir abspath new ws (st_grouped st)) st = None"
  shows "journal_at (fork_dir abspath new ws (st_grouped st)) st' = Some (journal_bytes lib (map event_to_dict es))"
proof -
  let ?k = "fork_dir abspath new ws (st_grouped st)"
  have none: "journal_at ?k (init_metadata lib ?k (ensure_dir ?k st)) = None"
    using assms(4) by (auto simp: init_metadata_def write_session_metadata_def)
      (auto simp: journal_at_def ensure_dir_def split: option.splits)
  then have op: "journal_at ?k (open_journal_file lib ?k st) = Some []"
    by (simp add: open_journal_file_def)
  then have "prepare_journal lib ?k (open_journal_file lib ?k st) = (open_journal_file lib ?k st, None)"
    by (simp add: prepare_journal_def prepare_journal_append_def)
  with assms(1) append_fork_dir [OF assms(2,3) refl, of lib label abspath es]
  have "journal_sink lib label ?k new es (open_journal_file lib ?k st) = (st', None)" by simp
  with op journal_at_update_metadata [of ?k lib label new es] show ?thesis
    by (simp add: journal_sink_def write_journal_events_eq) (metis fst_conv journal_at_simps(1))
qed

lemma find_only_at:
  assumes "find_session_directory sid st = None" and "only_at k st st'" and "dict_ok (st_dirs st)" "st_grouped st"
    and "journal_at k st' \<noteq> None" "fst k \<noteq> []" "snd k = sid"
  shows "find_session_directory sid st' = Some k"
proof -
  let ?P = "\<lambda>(k, d). fst k \<noteq> [] \<and> snd k = sid \<and> (dr_journal d \<noteq> None \<or> dr_metadata d \<noteq> None)"
  have o: "st_grouped st'" "dict_ok (st_dirs st')" "\<And>k'. k' \<noteq> k \<Longrightarrow> dir_at k' st' = dir_at k' st"
    using assms(2-4) by (auto simp: only_at_def)
  have none: "filter ?P (st_dirs st) = []"
    using assms(1,4) by (auto simp: find_session_directory_def split: list.splits)
  have "k' = k" if "(k', d) \<in> set (filter ?P (st_dirs st'))" for k' d
  proof (rule ccontr)
    assume ne: "k' \<noteq> k"
    from that have "dir_at k' st' = Some d" "?P (k', d)" using o(2) by (simp_all add: dir_at_def dict_mem_get)
    with o(3) [OF ne] have "(k', d) \<in> set (filter ?P (st_dirs st))" by (simp add: dir_at_def map_of_SomeD)
    with none show False by simp
  qed
  moreover obtain d where d: "dir_at k st' = Some d" "dr_journal d \<noteq> None"
    using assms(5) by (auto simp: journal_at_def split: option.splits)
  then have "(k, d) \<in> set (filter ?P (st_dirs st'))"
    using assms(6,7) by (simp add: dir_at_def map_of_SomeD)
  ultimately obtain d1 rest where "filter ?P (st_dirs st') = (k, d1) # rest"
    by (cases "filter ?P (st_dirs st')") (metis list.set(1) empty_iff, metis list.set_intros(1) surj_pair)
  then show ?thesis using o(1) by (simp add: find_session_directory_def)
qed

lemma event_from_dict_utc: "event_from_dict r = Inr e \<Longrightarrow> utc_ok (ev_timestamp e)"
  by (cases r) (auto simp: event_from_dict_def parse_utc_def Let_def split: if_splits option.splits)

lemma load_record_utc:
  assumes "load_record s r = Inr s'" and "list_all (\<lambda>e. utc_ok (ev_timestamp e)) (ses_journal s)"
  shows "list_all (\<lambda>e. utc_ok (ev_timestamp e)) (ses_journal s')"
proof -
  obtain e where e: "event_from_dict r = Inr e" using assms(1) by (auto simp: load_record_def)
  obtain c x where "apply_event e (ses_core s) = (c, x)" by fastforce
  with assms e event_from_dict_utc [OF e] show ?thesis by (cases x) (auto simp: load_record_def)
qed

lemma load_records_utc:
  assumes "replay load_record s rs = Inr s'" and "list_all (\<lambda>e. utc_ok (ev_timestamp e)) (ses_journal s)"
  shows "list_all (\<lambda>e. utc_ok (ev_timestamp e)) (ses_journal s')"
  using replay_invariant [of load_record s rs s' "\<lambda>s. list_all (\<lambda>e. utc_ok (ev_timestamp e)) (ses_journal s)"] assms load_record_utc
  by blast

lemma load_utc:
  assumes "load_unlocked lib abspath stamps sid ws False st = Inr s"
  shows "list_all (\<lambda>e. utc_ok (ev_timestamp e)) (ses_journal s)"
proof -
  from assms obtain s0 bound where st: "start_session lib sid bound st = Inr s0"
    and c: "s = s0 \<or> (\<exists>b. load_journal lib b s0 = Inr s)"
    by (auto simp: load_unlocked_def split: option.splits)
  have s0: "ses_journal s0 = []"
    using st by (auto simp: start_session_def new_session_def Let_def split: option.splits)
  from c show ?thesis
  proof
    assume "\<exists>b. load_journal lib b s0 = Inr s"
    then obtain b where b: "load_journal lib b s0 = Inr s" by blast
    obtain rs x where "read_journal lib b = (rs, x)" by fastforce
    with b have "replay load_record s0 rs = Inr s" by (cases x) (simp_all add: load_journal_def)
    then show ?thesis using load_records_utc s0 by simp
  qed (simp add: s0)
qed

lemma first_index_Some:
  "first_index P xs = Some i \<Longrightarrow> i < length xs \<and> P (xs ! i) \<and> list_all (\<lambda>x. \<not> P x) (take i xs)"
  by (induction xs arbitrary: i) (auto split: if_splits)

lemma fork_source_prefix:
  assumes "fork_source lib abspath stamps source anchor_id st = Inr (ws, m, before)"
  obtains s i where "load_unlocked lib abspath stamps source None False st = Inr s" "before = take i (ses_journal s)"
    "i < length (ses_journal s)" "ev_type (ses_journal s ! i) = ''turn_started''"
    "list_ex (\<lambda>e. ev_id e = anchor_id \<and> ev_turn_id e = ev_turn_id (ses_journal s ! i)) (ses_journal s)"
proof -
  obtain s where s: "load_unlocked lib abspath stamps source None False st = Inr s" "fork_prefix s anchor_id = Inr before"
    using assms by (auto simp: fork_source_def split: option.splits if_splits)
  then obtain a i where a: "List.find (\<lambda>e. ev_id e = anchor_id) (ses_journal s) = Some a"
    and i: "first_index (\<lambda>e. ev_type e = ''turn_started'' \<and> ev_turn_id e = ev_turn_id a) (ses_journal s) = Some i"
    and b: "before = take i (ses_journal s)"
    by (auto simp: fork_prefix_def split: if_splits option.splits)
  from a have "a \<in> set (ses_journal s)" "ev_id a = anchor_id" by (auto simp: find_Some_iff)
  then have "list_ex (\<lambda>e. ev_id e = anchor_id \<and> ev_turn_id e = ev_turn_id (ses_journal s ! i)) (ses_journal s)"
    using first_index_Some [OF i] by (auto simp: list_ex_iff)
  then show thesis using that s(1) b first_index_Some [OF i] by blast
qed

section \<open>Properties\<close>

text \<open>Forking is atomic: whatever raises while a fork is made, the store is exactly as before; a fork that
  succeeds adds one new directory and leaves every other Session directory untouched.\<close>

theorem fork_is_atomic:
  assumes "fork_session lib label abspath stamps source new anchor_id st = (st', r)"
  shows "(\<exists>x. r = Inl x \<and> (\<forall>k. dir_at k st' = dir_at k st))
    \<or> (\<exists>s k. r = Inr s \<and> dir_at k st = None \<and> (\<forall>k'. k' \<noteq> k \<longrightarrow> dir_at k' st' = dir_at k' st))"
  using assms
proof (cases rule: fork_session_cases)
  case (fill ws m before k)
  from fill_fork_effect [OF fill(6,2,5,4)] fork_target_dir(1) [OF fill(4)] show ?thesis
    unfolding only_at_def by blast
qed simp

text \<open>C17. A fork holds the conversation before the edited message and nothing else: when forking Session
  \<open>source\<close> succeeds, the new Session's journal is the source's journal up to the start of the turn the
  edited message belongs to.\<close>

theorem fork_copies_prefix:
  assumes fork: "fork_session lib label abspath stamps source new anchor_id st = (st', Inr s)"
    and ok: "abspath_ok abspath" "st_grouped st" "dict_ok (st_dirs st)"
    and src: "load_session lib abspath stamps source None False st = Inr s0"
    and safe: "list_all (\<lambda>e. record_safe lib (event_to_dict e)) (ses_journal s0)"
  shows "\<exists>i. i < length (ses_journal s0) \<and> ses_journal s = take i (ses_journal s0)
    \<and> ev_type (ses_journal s0 ! i) = ''turn_started''
    \<and> list_ex (\<lambda>e. ev_id e = anchor_id \<and> ev_turn_id e = ev_turn_id (ses_journal s0 ! i)) (ses_journal s0)"
  using fork
proof (cases rule: fork_session_cases)
  case (fill ws m before k)
  from fork_source_prefix [OF fill(3)] obtain s1 i where
    s1: "load_unlocked lib abspath stamps source None False st = Inr s1" "before = take i (ses_journal s1)"
    "i < length (ses_journal s1)" "ev_type (ses_journal s1 ! i) = ''turn_started''"
    "list_ex (\<lambda>e. ev_id e = anchor_id \<and> ev_turn_id e = ev_turn_id (ses_journal s1 ! i)) (ses_journal s1)" by blast
  have eq: "s1 = s0" using src s1(1) by (simp add: load_session_def)
  let ?st = "write_session_metadata lib k m (ensure_dir k st)"
  note t = fork_target_dir [OF fill(4)]
  obtain st1 where ap: "append_events_unlocked lib label abspath new before ws ?st = (st1, None)"
    and ld: "load_unlocked lib abspath stamps new None False st1 = Inr s"
    using fill(6) by (auto simp: fill_fork_def split: prod.splits option.splits sum.splits)
  have k: "k = (workspace_key abspath (the ws), new)" using t(4) ok(2) by (simp add: fork_dir_def)
  have none: "journal_at k ?st = None"
    using t(1) by (simp add: write_session_metadata_def) (simp add: journal_at_def ensure_dir_def)
  have j: "journal_at k st1 = Some (journal_bytes lib (map event_to_dict before))"
    using fork_journal [OF ap fill(2)] fill(5) none t(4) by simp
  have "only_at k ?st st1" using append_fork_only [of new ws ?st abspath lib label before] fill(2,5) ap t(4) by simp
  then have o: "only_at k st st1"
    using only_at_trans [OF only_at_trans [OF only_at_puts(4) only_at_puts(3)]] by blast
  then have f: "find_session_directory new st1 = Some k"
    using find_only_at [OF t(2) o ok(3,2)] j k workspace_key_not_Nil [OF ok(1)] by simp
  have "list_all (\<lambda>e. utc_ok (ev_timestamp e) \<and> record_safe lib (event_to_dict e)) before"
    using load_utc [OF s1(1)] safe by (auto simp: s1(2) eq list_all_iff dest: in_set_takeD)
  moreover have "st_grouped st1" using o ok(2) by (simp add: only_at_def)
  ultimately have "ses_journal s = before"
    using load_found [OF ok(1) _ fill(2) f k j] ld by (auto simp: loaded_session_def)
  then show ?thesis using s1 eq by blast
qed simp

text \<open>A library that knows a table of documents, for evaluating the store on examples.\<close>

definition doc_text :: "nat \<Rightarrow> string" where
  "doc_text i = [CHR ''{'', digit_char i, CHR ''}'']"

definition table_lib :: "json list \<Rightarrow> json_lib" where
  "table_lib docs = \<lparr>jl_dumps = (\<lambda>v. case first_index (\<lambda>d. d = v) docs of Some i \<Rightarrow> doc_text i | None \<Rightarrow> []),
     jl_loads = (\<lambda>s. case first_index (\<lambda>i. s = doc_text i \<or> s = doc_text i @ [LF]) [0..<length docs] of
       Some i \<Rightarrow> Some (docs ! i) | None \<Rightarrow> None)\<rparr>"

lemma first_index_ex: "x \<in> set xs \<Longrightarrow> P x \<Longrightarrow> \<exists>i. first_index P xs = Some i"
  by (induction xs) auto

lemma digit_char_inj: "i < 10 \<Longrightarrow> j < 10 \<Longrightarrow> digit_char i = digit_char j \<Longrightarrow> i = j"
  by (metis digit_char_props(2))

lemma digit_char_plain: "i < 10 \<Longrightarrow> digit_char i \<notin> {LF, CR, CHR 0x00}"
proof
  assume "i < 10" "digit_char i \<in> {LF, CR, CHR 0x00}"
  then have "is_digit (digit_char i)" "\<not> is_digit (digit_char i)" by (simp, auto simp: is_digit_def)
  then show False by blast
qed

lemma table_loads:
  assumes "i < length docs" "length docs \<le> 10" "s = doc_text i \<or> s = doc_text i @ [LF]"
  shows "jl_loads (table_lib docs) s = Some (docs ! i)"
proof -
  have "i \<in> set [0..<length docs]" using assms(1) by simp
  from first_index_ex [OF this, of "\<lambda>i. s = doc_text i \<or> s = doc_text i @ [LF]"] assms(3) obtain j
    where j: "first_index (\<lambda>i. s = doc_text i \<or> s = doc_text i @ [LF]) [0..<length docs] = Some j" by blast
  from first_index_Some [OF j] have "j < length docs" "s = doc_text j \<or> s = doc_text j @ [LF]" by auto
  then have "j = i" using assms digit_char_inj [of j i] by (auto simp: doc_text_def)
  then show ?thesis using j by (simp add: table_lib_def)
qed

lemma table_lib_safe:
  assumes "v \<in> set docs" "length docs \<le> 10"
  shows "record_safe (table_lib docs) v" "doc_safe (table_lib docs) v"
proof -
  from first_index_ex [OF assms(1), of "\<lambda>d. d = v"] obtain i where i: "first_index (\<lambda>d. d = v) docs = Some i" by blast
  have li: "i < length docs" "docs ! i = v" using first_index_Some [OF i] by auto
  have d: "jl_dumps (table_lib docs) v = doc_text i" using i by (simp add: table_lib_def)
  have "jl_loads (table_lib docs) s = None" if "length s < 3" for s
  proof -
    have "first_index (\<lambda>i. s = doc_text i \<or> s = doc_text i @ [LF]) [0..<length docs] = None"
    proof (rule ccontr)
      assume "first_index (\<lambda>i. s = doc_text i \<or> s = doc_text i @ [LF]) [0..<length docs] \<noteq> None"
      then obtain j where "first_index (\<lambda>i. s = doc_text i \<or> s = doc_text i @ [LF]) [0..<length docs] = Some j" by auto
      from first_index_Some [OF this] that show False by (auto simp: doc_text_def)
    qed
    then show ?thesis by (simp add: table_lib_def)
  qed
  then have short: "list_all (\<lambda>n. jl_loads (table_lib docs) (take n (doc_text i)) = None) [0..<length (doc_text i)]"
    by (auto simp: list_all_iff doc_text_def)
  have "list_all (\<lambda>c. c \<noteq> LF \<and> c \<noteq> CR \<and> c \<noteq> CHR 0x00) (doc_text i)" "\<not> list_all py_space (doc_text i)" "CR \<notin> set (doc_text i)"
    using digit_char_plain [of i] li assms(2) by (auto simp: doc_text_def py_space_def)
  then show "record_safe (table_lib docs) v" "doc_safe (table_lib docs) v"
    using table_loads [OF li(1) assms(2)] li(2) short by (simp_all add: record_safe_def doc_safe_def d)
qed

definition demo_turn_event :: journal_event where
  "demo_turn_event = \<lparr>ev_seq = 1, ev_id = ''e1'', ev_type = ''turn_started'', ev_turn_id = Some ''t'',
     ev_timestamp = snd demo_stamp, ev_tool_call_id = None, ev_payload = []\<rparr>"

definition demo_user_event :: journal_event where
  "demo_user_event = \<lparr>ev_seq = 2, ev_id = ''e2'', ev_type = ''message_appended'', ev_turn_id = Some ''t'',
     ev_timestamp = snd demo_stamp, ev_tool_call_id = None,
     ev_payload = [(''message'', JObj [(''role'', JStr ''user''), (''content'', JStr ''hi'')])]\<rparr>"

definition demo_docs :: "json list" where
  "demo_docs = [event_to_dict demo_turn_event, event_to_dict demo_user_event, JObj new_session_metadata,
     JObj (fork_metadata ''s'' ''e2'' [] new_session_metadata),
     JObj (AList.update ''has_activity'' (JBool True) new_session_metadata)]"

definition demo_root :: "string \<Rightarrow> string" where
  "demo_root w = ''/w''"

definition demo_dir :: dir_path where
  "demo_dir = (workspace_key demo_root ''/w'', ''s'')"

definition demo_store :: store where
  "demo_store = \<lparr>st_grouped = True, st_dirs = [(demo_dir,
     \<lparr>dr_journal = Some (journal_bytes (table_lib demo_docs) (map event_to_dict [demo_turn_event, demo_user_event])),
      dr_metadata = Some (utf8_encode (jl_dumps (table_lib demo_docs) (JObj new_session_metadata)))\<rparr>)]\<rparr>"

lemma demo_root_ok: "abspath_ok demo_root"
  by (simp add: abspath_ok_def demo_root_def)

lemma demo_grouped: "st_grouped demo_store"
  by (simp add: demo_store_def)

lemma demo_docs_safe: "v \<in> set demo_docs \<Longrightarrow> record_safe (table_lib demo_docs) v \<and> doc_safe (table_lib demo_docs) v"
  using table_lib_safe [of v demo_docs] by (simp add: demo_docs_def)

lemma demo_dir_not_root: "fst demo_dir \<noteq> []"
  by (simp add: demo_dir_def workspace_key_not_Nil demo_root_ok)

lemma demo_found: "find_session_directory ''s'' demo_store = Some demo_dir" "find_session_directory ''n'' demo_store = None"
  using demo_dir_not_root by (simp_all add: find_session_directory_def demo_store_def) (simp_all add: demo_dir_def)

lemma demo_metadata: "session_metadata (table_lib demo_docs) demo_dir demo_store = Inr new_session_metadata"
proof -
  have "doc_safe (table_lib demo_docs) (JObj new_session_metadata)" using demo_docs_safe by (simp add: demo_docs_def)
  then show ?thesis
    by (simp add: session_metadata_def metadata_at_def dir_at_def demo_store_def doc_safe_def universal_newlines_id)
qed

lemma demo_journal_at:
  "journal_at demo_dir demo_store = Some (journal_bytes (table_lib demo_docs) (map event_to_dict [demo_turn_event, demo_user_event]))"
  by (simp add: journal_at_def dir_at_def demo_store_def)

lemma demo_preset: "stored_preset (table_lib demo_docs) demo_dir demo_store = Inr ASK_FOR_APPROVAL"
  by (simp add: stored_preset_def demo_metadata new_session_metadata_def)

definition demo_two_core :: session_core where
  "demo_two_core = fst (apply_all [demo_turn_event, demo_user_event] empty_core)"

lemma demo_two_runs:
  "replay apply_step empty_core [demo_turn_event, demo_user_event] = Inr demo_two_core"
  "sc_user_anchors demo_two_core = [\<lparr>ua_turn_id = ''t'', ua_content = CStr ''hi'', ua_timestamp = snd demo_stamp, ua_source = ''user_input'', ua_item_index = 0\<rparr>]"
  by (simp_all add: demo_two_core_def demo_turn_event_def demo_user_event_def apply_step_def apply_event_def apply_message_def
      apply_turn_started_def truthy_str_def empty_core_def user_source_def Let_def message_from_dict_def content_from_json_def
      tool_calls_from_dict_def str_or_none_def origin_from_dict_def provider_data_from_dict_def is_user_authored_def jget_str_def)

lemma demo_load:
  "load_unlocked (table_lib demo_docs) demo_root stamps ''s'' None False demo_store
     = Inr (loaded_session ''s'' (Some ''/w'') [demo_turn_event, demo_user_event] demo_two_core)"
proof -
  have v: "validate_session_id ''s'' = Inr ()" by (simp add: validate_session_id_def)
  have e: "empty_core\<lparr>sc_permission_preset := ASK_FOR_APPROVAL\<rparr> = empty_core" by (simp add: empty_core_def)
  have "utc_ok (snd demo_stamp)" by (simp add: demo_stamp_def utc_ok_def days_in_month_def leap_year_def)
  then have "list_all (\<lambda>e. utc_ok (ev_timestamp e) \<and> record_safe (table_lib demo_docs) (event_to_dict e)) [demo_turn_event, demo_user_event]"
    using demo_docs_safe by (simp add: demo_docs_def) (simp add: demo_turn_event_def demo_user_event_def)
  from load_found [OF demo_root_ok demo_grouped v demo_found(1) demo_dir_def demo_journal_at this] show ?thesis
    by (simp add: demo_preset e demo_two_runs(1) demo_root_def del: replay.simps)
qed

abbreviation demo_fork_dir :: dir_path where
  "demo_fork_dir \<equiv> (workspace_key demo_root ''/w'', ''n'')"

abbreviation demo_fork_metadata :: jobj where
  "demo_fork_metadata \<equiv> fork_metadata ''s'' ''e2'' [] new_session_metadata"

lemma demo_ids: "validate_session_id ''s'' = Inr ()" "validate_session_id ''n'' = Inr ()"
  by (simp_all add: validate_session_id_def)

lemma demo_workspace: "workspace_for_unlocked ''s'' demo_store = Inr (Some ''/w'')"
  "session_path demo_root ''s'' None demo_store = Inr (Some demo_dir)"
  using session_path_found [OF demo_root_ok demo_grouped demo_ids(1) demo_found(1) [unfolded demo_dir_def]]
  by (simp_all add: demo_root_def demo_dir_def)

lemma demo_fork_source:
  "fork_source (table_lib demo_docs) demo_root stamps ''s'' ''e2'' demo_store = Inr (Some ''/w'', demo_fork_metadata, [])"
proof -
  have "fork_prefix (loaded_session ''s'' (Some ''/w'') [demo_turn_event, demo_user_event] demo_two_core) ''e2'' = Inr []"
    by (simp add: fork_prefix_def editable_user_messages_def loaded_session_def demo_two_runs(2))
      (simp add: demo_turn_event_def demo_user_event_def)
  then show ?thesis
    by (simp add: fork_source_def demo_found(1) demo_workspace demo_journal_at demo_load demo_metadata)
qed

lemma demo_fork_target: "fork_target demo_root ''n'' (Some ''/w'') demo_store = Inr demo_fork_dir"
  by (simp add: fork_target_def demo_found demo_grouped session_directory_def demo_ids)
    (simp add: dir_at_def demo_store_def demo_dir_def)

lemma demo_fork_runs:
  "\<exists>st' s. fork_session (table_lib demo_docs) label demo_root stamps ''s'' ''n'' ''e2'' demo_store = (st', Inr s)"
proof -
  let ?lib = "table_lib demo_docs"
  let ?k = demo_fork_dir
  let ?st = "write_session_metadata ?lib ?k demo_fork_metadata (ensure_dir ?k demo_store)"
  let ?st1 = "put_journal ?k [] ?st"
  have safe: "doc_safe ?lib (JObj demo_fork_metadata)" using demo_docs_safe by (simp add: demo_docs_def)
  have m: "session_metadata ?lib ?k ?st1 = Inr demo_fork_metadata" using metadata_roundtrip [OF safe] by simp
  have grouped: "st_grouped ?st" by (simp add: demo_grouped)
  have none: "journal_at ?k ?st = None"
    by (simp add: write_session_metadata_def) (simp add: journal_at_def ensure_dir_def dir_at_def demo_store_def demo_dir_def put_dir_def)
  have keep: "ensure_dir ?k ?st = ?st"
    by (simp add: ensure_dir_def write_session_metadata_def put_metadata_def)
  have init: "init_metadata ?lib ?k ?st = ?st" by (simp add: init_metadata_def write_session_metadata_def)
  have ap: "append_events_unlocked ?lib label demo_root ''n'' [] (Some ''/w'') ?st = (?st1, None)"
    using append_fork_dir [of "''n''" "Some ''/w''" ?st ?k demo_root ?lib label "[]"] grouped none m
    by (simp add: demo_ids fork_dir_def open_journal_file_def Let_def keep init prepare_journal_def
        prepare_journal_append_def journal_sink_def update_session_metadata_def)
  have o: "only_at ?k demo_store ?st1" by (simp add: only_at_def demo_grouped)
  have f: "find_session_directory ''n'' ?st1 = Some ?k"
    using find_only_at [OF demo_found(2) o _ demo_grouped] workspace_key_not_Nil [OF demo_root_ok]
    by (simp add: demo_store_def dict_ok_def)
  have p: "stored_preset ?lib ?k ?st1 = Inr ASK_FOR_APPROVAL"
  proof -
    have "jget demo_fork_metadata ''permission_preset'' = JNull" by (simp add: fork_metadata_def new_session_metadata_def)
    then show ?thesis unfolding stored_preset_def m by simp
  qed
  have "load_unlocked ?lib demo_root stamps ''n'' None False ?st1 = Inr (loaded_session ''n'' (Some ''/w'') [] (empty_core\<lparr>sc_permission_preset := ASK_FOR_APPROVAL\<rparr>))"
    using load_found [OF demo_root_ok _ demo_ids(2) f refl, of ?lib "[]"] by (simp add: p demo_grouped demo_root_def)
  then have "fill_fork ?lib label demo_root stamps ?k ''n'' (Some ''/w'') demo_fork_metadata [] demo_store
    = (?st1, Inr (loaded_session ''n'' (Some ''/w'') [] (empty_core\<lparr>sc_permission_preset := ASK_FOR_APPROVAL\<rparr>)))"
    by (simp add: fill_fork_def ap)
  then show ?thesis by (simp add: fork_session_def demo_ids demo_fork_source demo_fork_target)
qed

theorem fork_is_atomic_witness:
  "\<exists>st' r. fork_session (table_lib demo_docs) (\<lambda>_. []) demo_root (\<lambda>_. demo_stamp) ''s'' ''n'' ''e3'' demo_store = (st', r)
     \<and> (r = Inl (ValueError ''editable user message does not exist'') \<and> dir_at demo_dir st' = dir_at demo_dir demo_store)"
proof -
  let ?r = "fork_session (table_lib demo_docs) (\<lambda>_. []) demo_root (\<lambda>_. demo_stamp) ''s'' ''n'' ''e3'' demo_store"
  have "fork_prefix (loaded_session ''s'' (Some ''/w'') [demo_turn_event, demo_user_event] demo_two_core) ''e3''
    = Inl (ValueError ''editable user message does not exist'')"
    by (simp add: fork_prefix_def editable_user_messages_def loaded_session_def demo_two_runs(2))
      (simp add: demo_turn_event_def demo_user_event_def)
  then have "fork_source (table_lib demo_docs) demo_root (\<lambda>_. demo_stamp) ''s'' ''e3'' demo_store
    = Inl (ValueError ''editable user message does not exist'')"
    by (simp add: fork_source_def demo_found(1) demo_workspace demo_journal_at demo_load)
  then have r: "?r = (demo_store, Inl (ValueError ''editable user message does not exist''))"
    by (simp add: fork_session_def demo_ids)
  with fork_is_atomic [OF r] show ?thesis by blast
qed

theorem fork_copies_prefix_witness:
  "\<exists>st' s. fork_session (table_lib demo_docs) (\<lambda>_. []) demo_root (\<lambda>_. demo_stamp) ''s'' ''n'' ''e2'' demo_store = (st', Inr s)
     \<and> ses_journal s = []"
proof -
  from demo_fork_runs obtain st' s where
    f: "fork_session (table_lib demo_docs) (\<lambda>_. []) demo_root (\<lambda>_. demo_stamp) ''s'' ''n'' ''e2'' demo_store = (st', Inr s)" by blast
  let ?s0 = "loaded_session ''s'' (Some ''/w'') [demo_turn_event, demo_user_event] demo_two_core"
  have j: "ses_journal ?s0 = [demo_turn_event, demo_user_event]" by (simp add: loaded_session_def)
  have "load_session (table_lib demo_docs) demo_root (\<lambda>_. demo_stamp) ''s'' None False demo_store = Inr ?s0"
    by (simp add: load_session_def demo_ids demo_load)
  moreover have "list_all (\<lambda>e. record_safe (table_lib demo_docs) (event_to_dict e)) (ses_journal ?s0)"
    using demo_docs_safe by (simp add: j) (simp add: demo_docs_def)
  moreover have "dict_ok (st_dirs demo_store)" by (simp add: demo_store_def dict_ok_def)
  ultimately obtain i where "i < length (ses_journal ?s0)" "ses_journal s = take i (ses_journal ?s0)"
    "ev_type (ses_journal ?s0 ! i) = ''turn_started''"
    using fork_copies_prefix [OF f demo_root_ok demo_grouped] by blast
  then have i: "i < 2" "ses_journal s = take i [demo_turn_event, demo_user_event]"
    "ev_type ([demo_turn_event, demo_user_event] ! i) = ''turn_started''" by (simp_all add: j)
  have "i = 0"
    using i(1,3) by (auto simp: less_2_cases_iff demo_user_event_def)
  with f i(2) show ?thesis by simp
qed

text \<open>C18. Appending refines an abstract log: from a directory that holds the events \<open>es\<close> and the metadata
  \<open>m\<close>, handing batches of events to the journal writer never raises when the abstract log accepts them, and
  leads to a directory that holds \<open>es\<close> followed by all new events and the metadata they fold to. The abstract
  log does not depend on how the events were cut into batches.\<close>

theorem appends_refine_log:
  assumes "holds_log lib k st (es, m)"
    and "replay (log_append label sid) (es, m) batches = Inr l"
    and "\<forall>n l'. replay (log_append label sid) (es, m) (take n batches) = Inr l' \<longrightarrow> doc_safe lib (JObj (snd l'))"
  shows "\<exists>st'. replay (sink_step lib label k sid) st batches = Inr st' \<and> holds_log lib k st' l
    \<and> fst l = es @ concat batches \<and> log_append label sid (es, m) (concat batches) = Inr l"
proof -
  have "sr.all_ok label sid lib (es, m) batches" by (rule batches_ok) (rule assms(3) [rule_format])
  from sr.replay_simulated [OF assms(1) this assms(2)] obtain st' where
    st': "replay (sink_step lib label k sid) st batches = Inr st'" "holds_log lib k st' l" by blast
  have "log_append label sid (es, m) (concat batches) = Inr l" by (rule log_append_batches [OF assms(2)])
  with st' show ?thesis by (auto simp: log_append_def)
qed

theorem appends_refine_log_witness:
  "\<exists>st'. sink_step (table_lib demo_docs) (\<lambda>_. []) demo_dir ''s'' demo_store [demo_turn_event] = Inr st'
     \<and> session_metadata (table_lib demo_docs) demo_dir st' = Inr (AList.update ''has_activity'' (JBool True) new_session_metadata)
     \<and> journal_at demo_dir st' = Some (journal_bytes (table_lib demo_docs)
         (map event_to_dict [demo_turn_event, demo_user_event, demo_turn_event]))"
proof -
  let ?lib = "table_lib demo_docs"
  let ?m = "AList.update ''has_activity'' (JBool True) new_session_metadata"
  let ?es = "[demo_turn_event, demo_user_event]"
  have h: "holds_log ?lib demo_dir demo_store (?es, new_session_metadata)"
    by (simp add: holds_log_def demo_metadata demo_journal_at)
  have "meta_event (\<lambda>_. []) ''s'' (new_session_metadata, False) demo_turn_event = Inr (?m, True)"
    by (simp add: meta_event_def meta_preset_def meta_activity_def meta_title_def new_session_metadata_def demo_turn_event_def py_truthy_def)
  then have a: "log_append (\<lambda>_. []) ''s'' (?es, new_session_metadata) [demo_turn_event] = Inr (?es @ [demo_turn_event], ?m)"
    by (simp add: log_append_def)
  have safe: "doc_safe ?lib (JObj (snd l'))"
    if "replay (log_append (\<lambda>_. []) ''s'') (?es, new_session_metadata) (take n [[demo_turn_event]]) = Inr l'" for n l'
  proof (cases n)
    case 0
    then have "l' = (?es, new_session_metadata)" using that by simp
    moreover have "JObj new_session_metadata \<in> set demo_docs" by (simp add: demo_docs_def)
    ultimately show ?thesis using demo_docs_safe by simp
  next
    case (Suc i)
    then have "l' = (?es @ [demo_turn_event], ?m)" using that a by simp
    then show ?thesis using demo_docs_safe by (simp add: demo_docs_def)
  qed
  from a have "replay (log_append (\<lambda>_. []) ''s'') (?es, new_session_metadata) [[demo_turn_event]] = Inr (?es @ [demo_turn_event], ?m)"
    by simp
  with appends_refine_log [OF h this] safe obtain st' where
    "replay (sink_step ?lib (\<lambda>_. []) demo_dir ''s'') demo_store [[demo_turn_event]] = Inr st'"
    "holds_log ?lib demo_dir st' (?es @ [demo_turn_event], ?m)" by blast
  then have "sink_step ?lib (\<lambda>_. []) demo_dir ''s'' demo_store [demo_turn_event] = Inr st'"
    "journal_at demo_dir st' = Some (journal_bytes ?lib (map event_to_dict (?es @ [demo_turn_event])))"
    "session_metadata ?lib demo_dir st' = Inr ?m" by (simp_all add: holds_log_def)
  then show ?thesis by (intro exI [of _ st'] conjI) simp_all
qed



text \<open>The name of a group directory is the workspace: decoding the key of a workspace gives its absolute
  path back, for every path, so two workspaces never share a directory.\<close>

theorem workspace_key_roundtrip:
  "workspace_from_key (workspace_key abspath w) = Inr (abspath w)
   \<and> (workspace_key abspath w = workspace_key abspath w' \<longleftrightarrow> abspath w = abspath w')"
proof -
  have "abspath w = abspath w'" if "workspace_key abspath w = workspace_key abspath w'"
    using workspace_key_decodes [of abspath w] workspace_key_decodes [of abspath w'] that by simp
  then show ?thesis using workspace_key_decodes [of abspath w] by (auto simp: workspace_key_def)
qed

section \<open>Listings\<close>

text \<open>A Session is listed when it has a journal and its metadata says there was activity.\<close>

definition listed_active :: "json_lib \<Rightarrow> dir_path \<Rightarrow> store \<Rightarrow> bool" where
  "listed_active lib k st \<longleftrightarrow> journal_at k st \<noteq> None
     \<and> (case session_metadata lib k st of Inl _ \<Rightarrow> False | Inr m \<Rightarrow> py_truthy (jget m ''has_activity''))"

lemma scan_entries_set:
  "scan_entries lib mtime st ks = Inr xs \<Longrightarrow>
     map (\<lambda>(t, name, _). (t, name)) xs = map (\<lambda>k. (mtime k, snd k)) (filter (\<lambda>k. listed_active lib k st) ks)"
proof (induction ks arbitrary: xs)
  case (Cons k ks)
  show ?case
  proof (cases "journal_at k st = None")
    case True
    with Cons show ?thesis by (simp add: listed_active_def)
  next
    case False
    with Cons.prems obtain m a where m: "session_metadata lib k st = Inr m" "jindex m ''has_activity'' = Inr a"
      by (auto split: if_splits)
    then have g: "jget m ''has_activity'' = a" by (auto simp: jindex_def jget_def split: option.splits)
    show ?thesis
    proof (cases "py_truthy a")
      case True
      with Cons.prems False m obtain sm ys where "scan_entries lib mtime st ks = Inr ys" "xs = (mtime k, snd k, sm) # ys" by auto
      with Cons.IH False True m g show ?thesis by (simp add: listed_active_def)
    next
      case notrue: False
      with Cons.prems False m have "scan_entries lib mtime st ks = Inr xs" by simp
      with Cons.IH notrue m g show ?thesis by (simp add: listed_active_def)
    qed
  qed
qed simp

lemma sort_desc_props: "mset (sort_desc f xs) = mset xs" "sorted (rev (map f (sort_desc f xs)))"
  by (simp_all add: sort_desc_def rev_map)

lemma scan_sessions_pairs:
  assumes "scan_sessions lib mtime grp st = Inr xs" and "dict_ok (st_dirs st)"
  obtains act where "mset (map (\<lambda>(t, name, _). (t, name)) xs) = mset (map (\<lambda>k. (mtime k, snd k)) act)"
    "set act = {k. fst k = grp \<and> listed_active lib k st}" "distinct act"
    "sorted (rev (map (\<lambda>(t, name, _). (t, name)) xs))"
proof
  let ?ks = "filter (\<lambda>k. fst k = grp) (map fst (st_dirs st))"
  let ?act = "filter (\<lambda>k. listed_active lib k st) ?ks"
  obtain ys where ys: "scan_entries lib mtime st ?ks = Inr ys" "xs = sort_desc (\<lambda>(t, name, _). (t, name)) ys"
    using assms(1) by (auto simp: scan_sessions_def)
  have "mset xs = mset ys" unfolding ys(2) by (rule sort_desc_props(1))
  then have "mset (map (\<lambda>(t, name, _). (t, name)) xs) = mset (map (\<lambda>(t, name, _). (t, name)) ys)" by simp
  then show "mset (map (\<lambda>(t, name, _). (t, name)) xs) = mset (map (\<lambda>k. (mtime k, snd k)) ?act)"
    by (simp only: scan_entries_set [OF ys(1)])
  have mem: "k \<in> fst ` set (st_dirs st)" if "listed_active lib k st" for k
  proof -
    from that obtain d where "dir_at k st = Some d" by (auto simp: listed_active_def journal_at_def split: option.splits)
    then show ?thesis by (auto simp: dir_at_def dest!: map_of_SomeD intro!: image_eqI)
  qed
  then show "set ?act = {k. fst k = grp \<and> listed_active lib k st}" by auto
  show "distinct ?act" using assms(2) by (simp add: dict_ok_def)
  show "sorted (rev (map (\<lambda>(t, name, _). (t, name)) xs))" unfolding ys(2) by (rule sort_desc_props(2))
qed

text \<open>The listing of a workspace is complete and newest first: it names exactly the Sessions of the
  workspace that have a journal and activity, each once, in descending order of the time of their last write
  (and of their names, where the times agree).\<close>

theorem scan_sessions_complete:
  assumes "scan_sessions lib mtime grp st = Inr xs" and "dict_ok (st_dirs st)"
  shows "set (map (\<lambda>(t, name, _). name) xs) = {sid. listed_active lib (grp, sid) st}
    \<and> distinct (map (\<lambda>(t, name, _). name) xs)
    \<and> sorted (rev (map (\<lambda>(t, name, _). (t, name)) xs))
    \<and> list_all (\<lambda>(t, name, _). t = mtime (grp, name)) xs"
proof -
  from scan_sessions_pairs [OF assms] obtain act
    where ms: "mset (map (\<lambda>(t, name, _). (t, name)) xs) = mset (map (\<lambda>k. (mtime k, snd k)) act)"
      and act: "set act = {k. fst k = grp \<and> listed_active lib k st}" "distinct act"
      and sorted: "sorted (rev (map (\<lambda>(t, name, _). (t, name)) xs))" by blast
  have nms: "map (\<lambda>(t, name, _). name) xs = map snd (map (\<lambda>(t, name, _). (t, name)) xs)" by (simp add: comp_def split_def)
  have names: "mset (map (\<lambda>(t, name, _). name) xs) = mset (map snd act)"
    using arg_cong [OF ms, of "image_mset snd"] by (simp add: nms image_mset.compositionality comp_def split_def)
  have "inj_on snd (set act)" unfolding act(1) by (auto simp: inj_on_def)
  then have "distinct (map snd act)" using act(2) by (simp add: distinct_map)
  then have dist: "distinct (map (\<lambda>(t, name, _). name) xs)" using mset_eq_imp_distinct_iff [OF names] by simp
  have "set (map snd act) = {sid. listed_active lib (grp, sid) st}" using act(1) by force
  then have set: "set (map (\<lambda>(t, name, _). name) xs) = {sid. listed_active lib (grp, sid) st}" using mset_eq_setD [OF names] by simp
  have "t = mtime (grp, name)" if "(t, name, sm) \<in> set xs" for t name sm
  proof -
    have "(t, name) \<in> set (map (\<lambda>(t, name, _). (t, name)) xs)" using that by force
    then have "(t, name) \<in> set (map (\<lambda>k. (mtime k, snd k)) act)" using mset_eq_setD [OF ms] by simp
    then show ?thesis using act(1) by auto
  qed
  then have "list_all (\<lambda>(t, name, _). t = mtime (grp, name)) xs" by (auto simp: list_all_iff)
  with set dist sorted show ?thesis by blast
qed

definition demo_active_store :: store where
  "demo_active_store = write_session_metadata (table_lib demo_docs) demo_dir
     (AList.update ''has_activity'' (JBool True) new_session_metadata) demo_store"

theorem scan_sessions_complete_witness:
  "\<exists>xs. scan_sessions (table_lib demo_docs) (\<lambda>_. 7) (fst demo_dir) demo_active_store = Inr xs
     \<and> map (\<lambda>(t, name, _). (t, name)) xs = [(7, ''s'')]"
proof -
  let ?lib = "table_lib demo_docs"
  let ?m = "AList.update ''has_activity'' (JBool True) new_session_metadata"
  have "JObj ?m \<in> set demo_docs" by (simp add: demo_docs_def)
  then have m: "session_metadata ?lib demo_dir demo_active_store = Inr ?m"
    using demo_docs_safe metadata_roundtrip by (simp add: demo_active_store_def)
  have dirs: "map fst (st_dirs demo_active_store) = [demo_dir]"
    by (simp add: demo_active_store_def write_session_metadata_def put_metadata_def put_dir_def demo_store_def)
  have j: "journal_at demo_dir demo_active_store \<noteq> None"
    using demo_journal_at by (simp add: demo_active_store_def write_session_metadata_def)
  have s: "snd demo_dir = ''s''" by (simp add: demo_dir_def)
  have a: "jindex ?m ''has_activity'' = Inr (JBool True)" "jindex ?m ''title'' = Inr (JStr [])" "py_truthy (JBool True)"
    by (simp_all add: new_session_metadata_def py_truthy_def)
  obtain sm where sm: "session_summary ''s'' ?m = Inr sm" using a(2) by (simp add: session_summary_def)
  then have xs: "scan_sessions ?lib (\<lambda>_. 7) (fst demo_dir) demo_active_store = Inr [(7, ''s'', sm)]"
    using j by (simp add: scan_sessions_def dirs m s a sort_desc_def)
  have "dict_ok (st_dirs demo_active_store)" by (simp add: dict_ok_def dirs)
  from scan_sessions_complete [OF xs this] xs show ?thesis by simp
qed

end
