(* ===== verification/Memory.thy ===== *)
theory Memory
  imports Context_Manager Session_Store
begin

text \<open>
  Long-term memory (\<open>agent_core/memory.py\<close>) and the tool that collects it
  (\<open>tools/builtin/remember.py\<close>).

  \<^item> A memory document has three lists of entries and is kept as a Markdown file, one for the user
    and one per workspace. \<open>memory_store\<close> is the bytes of those files; every operation runs under the
    file lock and is one step.
  \<^item> \<open>reconcile\<close> asks a model to merge the candidates of a turn into a document;
    \<open>reconcile_pending\<close> is the end of a turn: it takes the candidates, merges them and writes the
    result if the files have not changed in between.
  \<^item> The provider, the JSON library, the clock and path resolution are parameters.
\<close>

section \<open>Documents\<close>

datatype memory_kind = Preference | Fact | Decision

definition KINDS :: "memory_kind list" where
  "KINDS = [Preference, Fact, Decision]"

fun kind_value :: "memory_kind \<Rightarrow> string" where
  "kind_value Preference = ''preference''"
| "kind_value Fact = ''fact''"
| "kind_value Decision = ''decision''"

fun kind_heading :: "memory_kind \<Rightarrow> string" where
  "kind_heading Preference = ''Preferences''"
| "kind_heading Fact = ''Facts''"
| "kind_heading Decision = ''Decisions''"

datatype memory_scope = GlobalScope | WorkspaceScope

fun scope_name :: "memory_scope \<Rightarrow> string" where
  "scope_name GlobalScope = ''global''"
| "scope_name WorkspaceScope = ''workspace''"

record memory_candidate =
  mc_kind :: memory_kind
  mc_scope :: memory_scope
  mc_content :: string

record memory_document =
  md_preferences :: "string list"
  md_facts :: "string list"
  md_decisions :: "string list"

definition empty_document :: memory_document where
  "empty_document = \<lparr>md_preferences = [], md_facts = [], md_decisions = []\<rparr>"

fun entries :: "memory_kind \<Rightarrow> memory_document \<Rightarrow> string list" where
  "entries Preference d = md_preferences d"
| "entries Fact d = md_facts d"
| "entries Decision d = md_decisions d"

fun add_entry :: "memory_kind \<Rightarrow> string \<Rightarrow> memory_document \<Rightarrow> memory_document" where
  "add_entry Preference c d = d\<lparr>md_preferences := md_preferences d @ [c]\<rparr>"
| "add_entry Fact c d = d\<lparr>md_facts := md_facts d @ [c]\<rparr>"
| "add_entry Decision c d = d\<lparr>md_decisions := md_decisions d @ [c]\<rparr>"

definition document_is_empty :: "memory_document \<Rightarrow> bool" where
  "document_is_empty d \<longleftrightarrow> md_preferences d = [] \<and> md_facts d = [] \<and> md_decisions d = []"

subsection \<open>The Markdown form\<close>

definition heading_line :: "nat \<Rightarrow> memory_kind \<Rightarrow> string" where
  "heading_line level k = replicate level (CHR ''#'') @ '' '' @ kind_heading k"

definition render_section :: "nat \<Rightarrow> memory_document \<Rightarrow> memory_kind \<Rightarrow> string" where
  "render_section level d k = py_join [LF] (heading_line level k # map (\<lambda>c. ''- '' @ c) (entries k d))"

definition render_document :: "nat \<Rightarrow> memory_document \<Rightarrow> string" where
  "render_document level d = py_join [LF, LF] (map (render_section level d) KINDS) @ [LF]"

definition GLOBAL_HEADER :: string where
  "GLOBAL_HEADER = ''# Nosis Global Memory''"

definition WORKSPACE_HEADER :: string where
  "WORKSPACE_HEADER = ''# Nosis Workspace Memory''"

definition render_global :: "memory_document \<Rightarrow> string" where
  "render_global d = GLOBAL_HEADER @ [LF, LF] @ render_document 2 d"

definition render_workspace :: "memory_document \<Rightarrow> string" where
  "render_workspace d = WORKSPACE_HEADER @ [LF, LF] @ render_document 2 d"

definition render_prompt_memory :: "memory_document \<Rightarrow> string" where
  "render_prompt_memory d = py_rstrip (render_document 4 d)"

definition heading_kind :: "nat \<Rightarrow> string \<Rightarrow> memory_kind option" where
  "heading_kind level line = List.find (\<lambda>k. heading_line level k = line) KINDS"

fun parse_lines ::
  "nat \<Rightarrow> memory_kind option \<Rightarrow> memory_kind list \<Rightarrow> memory_document \<Rightarrow> string list \<Rightarrow> memory_document res" where
  "parse_lines level current seen d [] = Inr d"
| "parse_lines level current seen d (line # lines) =
     (if py_strip line = [] then parse_lines level current seen d lines
      else (case heading_kind level line of
          Some k \<Rightarrow>
            if k \<in> set seen then Inl (ValueError (''duplicate memory heading: '' @ line))
            else parse_lines level (Some k) (k # seen) d lines
        | None \<Rightarrow>
            (case current of
               None \<Rightarrow> Inl (ValueError ''invalid MEMORY.md entry'')
             | Some k \<Rightarrow>
                 if take 2 line \<noteq> ''- '' \<or> py_strip (drop 2 line) = [] then Inl (ValueError ''invalid MEMORY.md entry'')
                 else parse_lines level current seen (add_entry k (py_strip (drop 2 line)) d) lines)))"

definition parse_document_lines :: "string list \<Rightarrow> nat \<Rightarrow> memory_document res" where
  "parse_document_lines lines level = parse_lines level None [] empty_document lines"

definition parse_memory :: "string \<Rightarrow> string \<Rightarrow> string \<Rightarrow> memory_document res" where
  "parse_memory header msg text =
     (if py_strip text = [] then Inr empty_document
      else let lines = py_splitlines text in
        if lines = [] \<or> hd lines \<noteq> header then Inl (ValueError msg)
        else parse_document_lines (tl lines) 2)"

definition parse_global :: "string \<Rightarrow> memory_document res" where
  "parse_global = parse_memory GLOBAL_HEADER ''invalid global MEMORY.md header''"

definition parse_workspace :: "string \<Rightarrow> memory_document res" where
  "parse_workspace = parse_memory WORKSPACE_HEADER ''invalid workspace MEMORY.md header''"

subsection \<open>The JSON form\<close>

definition document_to_json :: "memory_document \<Rightarrow> json" where
  "document_to_json d = JList (concat (map (\<lambda>k.
     map (\<lambda>c. JObj [(''kind'', JStr (kind_value k)), (''content'', JStr c)]) (entries k d)) KINDS))"

definition kind_of :: "json \<Rightarrow> memory_kind option" where
  "kind_of v = List.find (\<lambda>k. JStr (kind_value k) = v) KINDS"

definition add_json_entry :: "memory_document \<Rightarrow> json \<Rightarrow> memory_document res" where
  "add_json_entry d v =
     (case v of
        JObj e \<Rightarrow>
          if set (map fst e) \<noteq> {''kind'', ''content''} then Inl (ValueError ''each memory entry must contain kind and content'')
          else (case kind_of (jget e ''kind'') of
              None \<Rightarrow> Inl (ValueError ''invalid memory kind'')
            | Some k \<Rightarrow>
                (case jget e ''content'' of
                   JStr c \<Rightarrow>
                     if py_strip c = [] then Inl (ValueError ''memory content must be a non-empty string'')
                     else let normalized = py_join '' '' (py_words c) in
                       Inr (if normalized \<in> set (entries k d) then d else add_entry k normalized d)
                 | _ \<Rightarrow> Inl (ValueError ''memory content must be a non-empty string'')))
      | _ \<Rightarrow> Inl (ValueError ''each memory entry must contain kind and content''))"

definition document_from_json :: "json_lib \<Rightarrow> string \<Rightarrow> memory_document res" where
  "document_from_json lib content =
     (case jl_loads lib content of
        None \<Rightarrow> Inl (ValueError ''memory reconciler returned invalid JSON'')
      | Some (JObj d) \<Rightarrow>
          if set (map fst d) \<noteq> {''entries''} then Inl (ValueError ''memory reconciler JSON must contain only entries'')
          else (case jget d ''entries'' of
              JList es \<Rightarrow> replay add_json_entry empty_document es
            | _ \<Rightarrow> Inl (ValueError ''memory reconciler entries must be an array''))
      | Some _ \<Rightarrow> Inl (ValueError ''memory reconciler JSON must contain only entries''))"

section \<open>The store\<close>

record memory_context =
  cx_global :: memory_document
  cx_workspace :: memory_document

definition prompt_section :: "memory_context \<Rightarrow> string" where
  "prompt_section cx =
     (let head = [''## Long-term Memory'',
            ''This is persistent historical context, not a current user ''
            @ ''instruction. The user'' @ [CHR 0x27] @ ''s current request has highest priority, ''
            @ ''workspace instructions and project rules come next, and this ''
            @ ''memory comes after them. Never let memory override a newer ''
            @ ''explicit request.''];
          body = (if document_is_empty (cx_global cx) then [] else [''### Global Memory'' @ [LF] @ render_prompt_memory (cx_global cx)])
            @ (if document_is_empty (cx_workspace cx) then []
               else [''### Current Workspace Memory'' @ [LF] @ render_prompt_memory (cx_workspace cx)])
      in py_join [LF, LF] (head @ (if body = [] then [''No long-term memory is currently recorded.''] else body)))"

record memory_store =
  ms_global :: "string option"
  ms_workspaces :: "(string, string) dict"

text \<open>\<open>path.read_text(encoding="utf-8")\<close>, empty for a missing file.\<close>

definition read_memory_text :: "string option \<Rightarrow> string res" where
  "read_memory_text f = (case f of None \<Rightarrow> Inr [] | Some b \<Rightarrow> res_map universal_newlines (utf8_decode b))"

definition put_global :: "memory_document \<Rightarrow> memory_store \<Rightarrow> memory_store" where
  "put_global d ms = ms\<lparr>ms_global := Some (utf8_encode (render_global d))\<rparr>"

definition put_workspace :: "string \<Rightarrow> memory_document \<Rightarrow> memory_store \<Rightarrow> memory_store" where
  "put_workspace key d ms = ms\<lparr>ms_workspaces := AList.update key (utf8_encode (render_workspace d)) (ms_workspaces ms)\<rparr>"

definition initialize_memory :: "(string \<Rightarrow> string) \<Rightarrow> string option \<Rightarrow> memory_store \<Rightarrow> memory_store" where
  "initialize_memory abspath ws ms =
     (let ms1 = (if ms_global ms = None then put_global empty_document ms else ms) in
      case ws of
        None \<Rightarrow> ms1
      | Some w \<Rightarrow> let key = workspace_key abspath w in
          if map_of (ms_workspaces ms1) key = None then put_workspace key empty_document ms1 else ms1)"

definition load_memory :: "(string \<Rightarrow> string) \<Rightarrow> string \<Rightarrow> memory_store \<Rightarrow> memory_context res" where
  "load_memory abspath w ms =
     res_bind (read_memory_text (ms_global ms)) (\<lambda>g.
     res_bind (read_memory_text (map_of (ms_workspaces ms) (workspace_key abspath w))) (\<lambda>t.
     res_bind (parse_global g) (\<lambda>gd.
     res_bind (parse_workspace t) (\<lambda>wd. Inr \<lparr>cx_global = gd, cx_workspace = wd\<rparr>))))"

definition load_workspace_files :: "memory_store \<Rightarrow> (string, memory_document) dict res" where
  "load_workspace_files ms =
     res_map (foldl (\<lambda>acc (w, d). AList.update w d acc) [])
       (res_list (\<lambda>(key, b). res_bind (workspace_from_key key) (\<lambda>w.
          res_bind (res_bind (read_memory_text (Some b)) parse_workspace) (\<lambda>d. Inr (w, d)))) (ms_workspaces ms))"

definition load_all_memory :: "memory_store \<Rightarrow> (memory_document \<times> (string, memory_document) dict) res" where
  "load_all_memory ms =
     res_bind (read_memory_text (ms_global ms)) (\<lambda>g.
     res_bind (load_workspace_files ms) (\<lambda>ws.
     res_bind (parse_global g) (\<lambda>gd. Inr (gd, ws))))"

definition write_updates ::
  "(string \<Rightarrow> string) \<Rightarrow> string \<Rightarrow> memory_document option \<Rightarrow> memory_document option \<Rightarrow> memory_context option \<Rightarrow> memory_store
    \<Rightarrow> memory_store outcome" where
  "write_updates abspath w g wd expected ms =
     (let key = workspace_key abspath w in
      try_in ms (res_bind (read_memory_text (ms_global ms)) parse_global) (\<lambda>cg.
      try_in ms (res_bind (read_memory_text (map_of (ms_workspaces ms) key)) parse_workspace) (\<lambda>cw.
      if \<exists>e. expected = Some e \<and> g \<noteq> None \<and> cg \<noteq> cx_global e
      then (ms, Some (RuntimeError ''global memory changed during reconciliation''))
      else if \<exists>e. expected = Some e \<and> wd \<noteq> None \<and> cw \<noteq> cx_workspace e
      then (ms, Some (RuntimeError ''workspace memory changed during reconciliation''))
      else let ms1 = (case g of None \<Rightarrow> ms | Some d \<Rightarrow> put_global d ms)
           in (case wd of None \<Rightarrow> ms1 | Some d \<Rightarrow> put_workspace key d ms1, None))))"

section \<open>Reconciliation\<close>

record reconciler =
  rc_stream :: "llm_request \<Rightarrow> llm_response res"
  rc_tracked :: bool
  rc_global_prompt :: string
  rc_workspace_prompt :: string

definition mk_reconciler ::
  "(llm_request \<Rightarrow> llm_response res) \<Rightarrow> bool \<Rightarrow> string \<Rightarrow> string \<Rightarrow> int \<Rightarrow> int \<Rightarrow> reconciler" where
  "mk_reconciler stream tracked global_prompt workspace_prompt global_max workspace_max =
     \<lparr>rc_stream = stream, rc_tracked = tracked,
      rc_global_prompt = py_replace ''{{global_max_tokens}}'' (int_str global_max) global_prompt,
      rc_workspace_prompt = py_replace ''{{workspace_max_tokens}}'' (int_str workspace_max) workspace_prompt\<rparr>"

definition reconcile_payload :: "memory_scope \<Rightarrow> memory_document \<Rightarrow> memory_candidate list \<Rightarrow> json" where
  "reconcile_payload scp current cs =
     JObj [(''scope'', JStr (scope_name scp)), (''current_memory'', document_to_json current),
       (''candidates'', JList (map (\<lambda>c. JObj [(''kind'', JStr (kind_value (mc_kind c))), (''content'', JStr (mc_content c))]) cs))]"

definition reconcile_request :: "json_lib \<Rightarrow> reconciler \<Rightarrow> memory_scope \<Rightarrow> memory_document \<Rightarrow> memory_candidate list \<Rightarrow> llm_request" where
  "reconcile_request lib rc scp current cs =
     \<lparr>rq_system_prompt = (case scp of GlobalScope \<Rightarrow> rc_global_prompt rc | WorkspaceScope \<Rightarrow> rc_workspace_prompt rc),
      rq_messages = [plain_message ''user'' (CStr (jl_dumps lib (reconcile_payload scp current cs)))],
      rq_tools = [], rq_max_generation_tokens = None, rq_media_root = None\<rparr>"

text \<open>What is reported of the call, and its result.\<close>

definition reconcile ::
  "json_lib \<Rightarrow> utc \<times> int \<Rightarrow> reconciler \<Rightarrow> memory_scope \<Rightarrow> memory_document \<Rightarrow> memory_candidate list
    \<Rightarrow> auxiliary_model_call list \<times> memory_document res" where
  "reconcile lib timing rc scp current cs =
     (if cs = [] then ([], Inr current)
      else let answer = rc_stream rc (reconcile_request lib rc scp current cs);
               result = res_bind answer (\<lambda>r. case rs_content r of
                   None \<Rightarrow> Inl (ValueError ''memory reconciler must return JSON content only'')
                 | Some c \<Rightarrow> if rs_tool_calls r \<noteq> [] then Inl (ValueError ''memory reconciler must return JSON content only'')
                     else document_from_json lib c)
           in (if rc_tracked rc then [tracker_record ''memory'' (Some (scope_name scp)) 1 timing
                 (case answer of Inl _ \<Rightarrow> None | Inr r \<Rightarrow> Some r) (case result of Inl x \<Rightarrow> Some x | Inr _ \<Rightarrow> None)] else [],
               result))"

section \<open>The manager\<close>

record memory_manager =
  mm_workspace :: string
  mm_pending :: "memory_candidate list"

definition discard_pending :: "memory_manager \<Rightarrow> memory_manager" where
  "discard_pending mm = mm\<lparr>mm_pending := []\<rparr>"

definition memory_begin_turn :: "memory_manager \<Rightarrow> memory_manager" where
  "memory_begin_turn mm = discard_pending mm"

definition remember :: "memory_candidate \<Rightarrow> memory_manager \<Rightarrow> memory_manager" where
  "remember c mm = mm\<lparr>mm_pending := mm_pending mm @ [c]\<rparr>"

subsection \<open>The tool\<close>

definition hashable :: "json \<Rightarrow> bool" where
  "hashable v = (case v of JList _ \<Rightarrow> False | JObj _ \<Rightarrow> False | _ \<Rightarrow> True)"

definition scope_of_json :: "json \<Rightarrow> memory_scope option" where
  "scope_of_json v = List.find (\<lambda>s. JStr (scope_name s) = v) [GlobalScope, WorkspaceScope]"

definition remember_tool :: "jobj \<Rightarrow> memory_manager option \<Rightarrow> (memory_manager \<times> json) res" where
  "remember_tool arguments memory =
     (case memory of
        None \<Rightarrow> Inl (RuntimeError ''memory manager is unavailable'')
      | Some mm \<Rightarrow>
          if \<not> set (map fst arguments) \<subseteq> {''kind'', ''scope'', ''content''}
          then Inl (ValueError ''unknown remember argument(s)'')
          else let kind = jget arguments ''kind''; scp = jget arguments ''scope'' in
            if \<not> hashable kind then Inl (TypeError ''unhashable type'')
            else (case kind_of kind of
                None \<Rightarrow> Inl (ValueError ''kind must be preference, fact, or decision'')
              | Some k \<Rightarrow>
                  if \<not> hashable scp then Inl (TypeError ''unhashable type'')
                  else (case scope_of_json scp of
                      None \<Rightarrow> Inl (ValueError ''scope must be global or workspace'')
                    | Some sc \<Rightarrow>
                        (case jget_str arguments ''content'' of
                           None \<Rightarrow> Inl (ValueError ''content must be a non-empty string'')
                         | Some c \<Rightarrow>
                             if py_strip c = [] then Inl (ValueError ''content must be a non-empty string'')
                             else Inr (remember \<lparr>mc_kind = k, mc_scope = sc, mc_content = py_strip c\<rparr> mm,
                               JObj [(''accepted'', JBool True), (''scope'', scp), (''kind'', kind)])))))"

subsection \<open>The end of a turn\<close>

text \<open>The updates of one scope: nothing without candidates.\<close>

definition scope_update ::
  "json_lib \<Rightarrow> utc \<times> int \<Rightarrow> reconciler \<Rightarrow> memory_scope \<Rightarrow> memory_document \<Rightarrow> memory_candidate list
    \<Rightarrow> auxiliary_model_call list \<times> memory_document option res" where
  "scope_update lib timing rc scp current cs =
     (let mine = filter (\<lambda>c. mc_scope c = scp) cs in
      if mine = [] then ([], Inr None)
      else case reconcile lib timing rc scp current mine of (calls, r) \<Rightarrow> (calls, res_map Some r))"

text \<open>The steps of \<open>reconcile_pending\<close> that run without the lock of the files: read the files, then ask the
  model for each scope.\<close>

definition plan_updates ::
  "json_lib \<Rightarrow> (memory_scope \<Rightarrow> utc \<times> int) \<Rightarrow> reconciler \<Rightarrow> memory_context \<Rightarrow> memory_candidate list
    \<Rightarrow> auxiliary_model_call list \<times> (memory_document option \<times> memory_document option) res" where
  "plan_updates lib timing rc cx cs =
     (case scope_update lib (timing GlobalScope) rc GlobalScope (cx_global cx) cs of
        (calls, Inl x) \<Rightarrow> (calls, Inl x)
      | (calls, Inr g) \<Rightarrow>
          (case scope_update lib (timing WorkspaceScope) rc WorkspaceScope (cx_workspace cx) cs of
             (calls', Inl x) \<Rightarrow> (calls @ calls', Inl x)
           | (calls', Inr w) \<Rightarrow> (calls @ calls', Inr (g, w))))"

text \<open>\<open>between\<close> is what other processes did to the files while the model was asked.\<close>

definition reconcile_pending ::
  "json_lib \<Rightarrow> (string \<Rightarrow> string) \<Rightarrow> (memory_scope \<Rightarrow> utc \<times> int) \<Rightarrow> reconciler \<Rightarrow> (memory_store \<Rightarrow> memory_store)
    \<Rightarrow> memory_manager \<times> memory_store \<Rightarrow> (memory_manager \<times> memory_store) \<times> auxiliary_model_call list \<times> bool res" where
  "reconcile_pending lib abspath timing rc between s =
     (case s of (mm, ms) \<Rightarrow>
      let cs = mm_pending mm; mm' = discard_pending mm in
      if cs = [] then ((mm', ms), [], Inr False)
      else (case load_memory abspath (mm_workspace mm) ms of
          Inl x \<Rightarrow> ((mm', ms), [], Inl x)
        | Inr cx \<Rightarrow>
            (case plan_updates lib timing rc cx cs of
               (calls, Inl x) \<Rightarrow> ((mm', between ms), calls, Inl x)
             | (calls, Inr (g, w)) \<Rightarrow>
                 (case write_updates abspath (mm_workspace mm) g w (Some cx) (between ms) of
                    (ms', Some x) \<Rightarrow> ((mm', ms'), calls, Inl x)
                  | (ms', None) \<Rightarrow> ((mm', ms'), calls, Inr True)))))"

section \<open>Files keep documents\<close>

text \<open>The entries the program writes: one line, not blank, without white space around it.\<close>

definition entry_ok :: "string \<Rightarrow> bool" where
  "entry_ok c \<longleftrightarrow> c \<noteq> [] \<and> stripped c \<and> list_all (\<lambda>x. \<not> py_linebreak x) c"

definition document_ok :: "memory_document \<Rightarrow> bool" where
  "document_ok d \<longleftrightarrow> list_all entry_ok (md_preferences d) \<and> list_all entry_ok (md_facts d) \<and> list_all entry_ok (md_decisions d)"

lemma document_ok_entries: "document_ok d \<Longrightarrow> list_all entry_ok (entries k d)"
  by (cases k) (simp_all add: document_ok_def)

definition lines_text :: "string list \<Rightarrow> string" where
  "lines_text ls = concat (map (\<lambda>l. l @ [LF]) ls)"

lemma splitlines_lines_text:
  "list_all (list_all (\<lambda>c. \<not> py_linebreak c)) ls \<Longrightarrow> py_splitlines (lines_text ls) = ls"
proof -
  assume "list_all (list_all (\<lambda>c. \<not> py_linebreak c)) ls"
  then have "py_splitlines_aux [] (lines_text ls) = ls"
    by (induction ls) (simp_all add: lines_text_def splitlines_aux_line)
  then show ?thesis by (simp add: py_splitlines_def)
qed

lemma lines_text_append: "lines_text (ls @ ls') = lines_text ls @ lines_text ls'"
  by (simp add: lines_text_def)

lemma join_lines: "ls \<noteq> [] \<Longrightarrow> py_join [LF] ls @ [LF] = lines_text ls"
proof (induction ls rule: induct_list012)
  case (3 x y ys)
  then show ?case by (simp add: lines_text_def)
qed (simp_all add: lines_text_def)

definition section_lines :: "nat \<Rightarrow> memory_document \<Rightarrow> memory_kind \<Rightarrow> string list" where
  "section_lines level d k = heading_line level k # map (\<lambda>c. ''- '' @ c) (entries k d)"

definition document_lines :: "nat \<Rightarrow> memory_document \<Rightarrow> string list" where
  "document_lines level d = section_lines level d Preference @ [[]] @ section_lines level d Fact @ [[]] @ section_lines level d Decision"

lemma render_section_lines: "render_section level d k @ [LF] = lines_text (section_lines level d k)"
  using join_lines [of "section_lines level d k"] by (simp add: render_section_def section_lines_def)

lemma render_document_lines: "render_document level d = lines_text (document_lines level d)"
proof -
  have "render_document level d = (render_section level d Preference @ [LF]) @ [LF] @ (render_section level d Fact @ [LF]) @ [LF]
    @ (render_section level d Decision @ [LF])"
    by (simp add: render_document_def KINDS_def)
  moreover have "lines_text [[]] = [LF]" by (simp add: lines_text_def)
  ultimately show ?thesis by (simp only: render_section_lines document_lines_def lines_text_append)
qed

subsection \<open>Parsing\<close>

lemma py_strip_head: "\<not> py_space x \<Longrightarrow> py_strip (x # xs) \<noteq> []"
  by (simp add: py_strip_Nil_iff)

lemma heading_not_blank: "py_strip (heading_line (Suc n) k) \<noteq> []"
  by (simp add: heading_line_def py_strip_head py_space_def)

lemma heading_kind_line: "heading_kind level (heading_line level k) = Some k"
  by (cases k) (simp_all add: heading_kind_def KINDS_def heading_line_def)

lemma entry_no_heading: "heading_kind (Suc n) (CHR ''-'' # l) = None"
  by (simp add: heading_kind_def KINDS_def heading_line_def)

lemma entry_line:
  assumes "entry_ok c"
  shows "py_strip (CHR ''-'' # l) \<noteq> []" "py_strip c = c" "c \<noteq> []"
  using assms py_strip_head [of "CHR ''-''" l] by (simp_all add: entry_ok_def py_strip_stripped py_space_def)

lemma parse_entries:
  "list_all entry_ok cs \<Longrightarrow> parse_lines (Suc n) (Some k) seen d (map (\<lambda>c. ''- '' @ c) cs @ ls)
     = parse_lines (Suc n) (Some k) seen (foldl (\<lambda>d c. add_entry k c d) d cs) ls"
proof (induction cs arbitrary: d)
  case (Cons c cs)
  then have "entry_ok c" by simp
  note e = entry_line [OF this]
  have "parse_lines (Suc n) (Some k) seen d ((''- '' @ c) # map (\<lambda>c. ''- '' @ c) cs @ ls)
    = parse_lines (Suc n) (Some k) seen (add_entry k c d) (map (\<lambda>c. ''- '' @ c) cs @ ls)"
    using e by (simp add: entry_no_heading)
  then show ?case using Cons by simp
qed simp

lemma parse_section:
  assumes "list_all entry_ok (entries k d)" and "k \<notin> set seen"
  shows "parse_lines (Suc n) current seen d0 (section_lines (Suc n) d k @ ls)
    = parse_lines (Suc n) (Some k) (k # seen) (foldl (\<lambda>d c. add_entry k c d) d0 (entries k d)) ls"
  using assms parse_entries [OF assms(1)] by (simp add: section_lines_def heading_not_blank heading_kind_line)

lemma parse_blank: "parse_lines level current seen d ([] # ls) = parse_lines level current seen d ls"
  by simp

lemma fold_add:
  "foldl (\<lambda>d c. add_entry Preference c d) d cs = d\<lparr>md_preferences := md_preferences d @ cs\<rparr>"
  "foldl (\<lambda>d c. add_entry Fact c d) d cs = d\<lparr>md_facts := md_facts d @ cs\<rparr>"
  "foldl (\<lambda>d c. add_entry Decision c d) d cs = d\<lparr>md_decisions := md_decisions d @ cs\<rparr>"
  by (induction cs arbitrary: d) simp_all

lemma parse_document:
  assumes "document_ok d" shows "parse_document_lines ([] # document_lines 2 d) 2 = Inr d"
proof -
  have ok: "list_all entry_ok (entries k d)" for k by (rule document_ok_entries [OF assms])
  have two: "2 = Suc 1" by simp
  have "parse_document_lines ([] # document_lines 2 d) 2
    = Inr (foldl (\<lambda>d c. add_entry Decision c d) (foldl (\<lambda>d c. add_entry Fact c d)
        (foldl (\<lambda>d c. add_entry Preference c d) empty_document (entries Preference d)) (entries Fact d)) (entries Decision d))"
    unfolding parse_document_lines_def document_lines_def two parse_blank
    using parse_section [OF ok, of Decision "[Fact, Preference]" 1 _ _ "[]"]
    by (simp add: parse_section [OF ok] parse_blank del: parse_lines.simps(2))
  also have "\<dots> = Inr d" by (simp only: fold_add) (simp add: empty_document_def)
  finally show ?thesis .
qed

subsection \<open>Round trip through a file\<close>

lemma hash_no_linebreak: "list_all (\<lambda>c. \<not> py_linebreak c) (heading_line level k)"
  by (cases k) (simp_all add: heading_line_def py_linebreak_def list_all_iff)

lemma document_lines_plain:
  assumes "document_ok d" shows "list_all (list_all (\<lambda>c. \<not> py_linebreak c)) (document_lines level d)"
proof -
  have "list_all (list_all (\<lambda>c. \<not> py_linebreak c)) (section_lines level d k)" for k
  proof -
    have dash: "\<not> py_linebreak (CHR ''-'')" "\<not> py_linebreak (CHR '' '')" by (simp_all add: py_linebreak_def)
    have "list_all (list_all (\<lambda>c. \<not> py_linebreak c)) (map (\<lambda>c. ''- '' @ c) cs)" if "list_all entry_ok cs" for cs
      using that dash by (induction cs) (simp_all add: entry_ok_def)
    then show ?thesis using document_ok_entries [OF assms, of k] by (simp add: section_lines_def hash_no_linebreak)
  qed
  then show ?thesis by (simp add: document_lines_def)
qed

text \<open>The two files differ in their first line only.\<close>

lemma parse_rendered:
  assumes "document_ok d" and "list_all (\<lambda>c. \<not> py_linebreak c) header" and "\<exists>c \<in> set header. \<not> py_space c"
  shows "parse_memory header msg (header @ [LF, LF] @ render_document 2 d) = Inr d"
    and "CR \<notin> set (header @ [LF, LF] @ render_document 2 d)"
proof -
  have tx: "header @ [LF, LF] @ render_document 2 d = lines_text (header # [] # document_lines 2 d)"
    by (simp add: lines_text_def render_document_lines)
  have plain: "list_all (list_all (\<lambda>c. \<not> py_linebreak c)) (header # [] # document_lines 2 d)"
    using assms(2) document_lines_plain [OF assms(1)] by simp
  have "py_strip (header @ [LF, LF] @ render_document 2 d) \<noteq> []" using assms(3) by (auto simp: py_strip_Nil_iff)
  moreover have "py_splitlines (header @ [LF, LF] @ render_document 2 d) = header # [] # document_lines 2 d"
    unfolding tx by (rule splitlines_lines_text [OF plain])
  ultimately show "parse_memory header msg (header @ [LF, LF] @ render_document 2 d) = Inr d"
    using parse_document [OF assms(1)] by (simp add: parse_memory_def Let_def)
  have "CR \<notin> set (lines_text ls)" if "list_all (list_all (\<lambda>c. \<not> py_linebreak c)) ls" for ls
    using that linebreak_LF_CR(2) by (induction ls) (auto simp: lines_text_def list_all_iff)
  then show "CR \<notin> set (header @ [LF, LF] @ render_document 2 d)" using plain tx by metis
qed

lemma headers_plain:
  "list_all (\<lambda>c. \<not> py_linebreak c) GLOBAL_HEADER" "\<exists>c \<in> set GLOBAL_HEADER. \<not> py_space c"
  "list_all (\<lambda>c. \<not> py_linebreak c) WORKSPACE_HEADER" "\<exists>c \<in> set WORKSPACE_HEADER. \<not> py_space c"
  by (simp_all add: GLOBAL_HEADER_def WORKSPACE_HEADER_def py_linebreak_def py_space_def)

lemma read_written: "CR \<notin> set t \<Longrightarrow> read_memory_text (Some (utf8_encode t)) = Inr t"
  by (simp add: read_memory_text_def universal_newlines_id)

lemma global_file_roundtrip:
  "document_ok d \<Longrightarrow> res_bind (read_memory_text (Some (utf8_encode (render_global d)))) parse_global = Inr d"
  using parse_rendered [OF _ headers_plain(1,2)] read_written [of "render_global d"]
  unfolding render_global_def parse_global_def by simp

lemma workspace_file_roundtrip:
  "document_ok d \<Longrightarrow> res_bind (read_memory_text (Some (utf8_encode (render_workspace d)))) parse_workspace = Inr d"
  using parse_rendered [OF _ headers_plain(3,4)] read_written [of "render_workspace d"]
  unfolding render_workspace_def parse_workspace_def by simp

subsection \<open>What the model's answer may contain\<close>

lemma py_words_aux_ok:
  "\<forall>c \<in> set cur. \<not> py_space c \<Longrightarrow> w \<in> set (py_words_aux cur s) \<Longrightarrow> w \<noteq> [] \<and> (\<forall>c \<in> set w. \<not> py_space c)"
proof (induction cur s rule: py_words_aux.induct)
  case (2 cur c cs)
  show ?case
  proof (cases "py_space c")
    case True
    then have "cur \<noteq> [] \<and> w = rev cur \<or> w \<in> set (py_words_aux [] cs)" using 2(5) by (simp split: if_splits)
    then show ?thesis
    proof
      assume mem: "w \<in> set (py_words_aux [] cs)"
      show ?thesis
      proof (cases "cur = []")
        case none: True
        show ?thesis by (rule 2(1) [OF True none _ mem]) simp
      next
        case False
        show ?thesis by (rule 2(2) [OF True False _ mem]) simp
      qed
    qed (use 2(4) in simp)
  next
    case False
    show ?thesis by (rule 2(3) [OF False]) (use 2(4,5) False in simp_all)
  qed
qed (auto split: if_splits)

lemma py_words_ok: "w \<in> set (py_words s) \<Longrightarrow> w \<noteq> [] \<and> (\<forall>c \<in> set w. \<not> py_space c)"
  using py_words_aux_ok [of "[]" w s] by (simp add: py_words_def)

lemma py_words_aux_Nil: "py_words_aux cur s = [] \<longleftrightarrow> cur = [] \<and> (\<forall>c \<in> set s. py_space c)"
  by (induction cur s rule: py_words_aux.induct) auto

lemma py_words_Nil: "py_words s = [] \<longleftrightarrow> py_strip s = []"
  by (simp add: py_words_def py_words_aux_Nil py_strip_Nil_iff)

lemma join_words_ok:
  "ws \<noteq> [] \<Longrightarrow> \<forall>w \<in> set ws. w \<noteq> [] \<and> (\<forall>c \<in> set w. \<not> py_space c) \<Longrightarrow>
     py_join '' '' ws \<noteq> [] \<and> \<not> py_space (hd (py_join '' '' ws)) \<and> \<not> py_space (last (py_join '' '' ws))
     \<and> (\<forall>c \<in> set (py_join '' '' ws). \<not> py_linebreak c)"
proof (induction ws rule: induct_list012)
  case (2 x)
  then show ?case using py_linebreak_space by (auto dest: hd_in_set last_in_set)
next
  case (3 x y zs)
  then have ih: "py_join '' '' (y # zs) \<noteq> [] \<and> \<not> py_space (last (py_join '' '' (y # zs)))
    \<and> (\<forall>c \<in> set (py_join '' '' (y # zs)). \<not> py_linebreak c)" by simp
  moreover have "\<not> py_space (hd x)" "x \<noteq> []" "\<forall>c \<in> set x. \<not> py_linebreak c"
    using 3(4) py_linebreak_space by (auto dest: hd_in_set)
  moreover have "\<not> py_linebreak (CHR '' '')" by (simp add: py_linebreak_def)
  ultimately show ?case by (auto simp: hd_append)
qed simp

lemma normalized_ok: "py_strip c \<noteq> [] \<Longrightarrow> entry_ok (py_join '' '' (py_words c))"
  using join_words_ok [of "py_words c"] py_words_ok py_words_Nil [of c]
  by (simp add: entry_ok_def stripped_def list_all_iff)

lemma add_entry_ok: "document_ok d \<Longrightarrow> entry_ok c \<Longrightarrow> document_ok (add_entry k c d)"
  by (cases k) (simp_all add: document_ok_def)

lemma add_json_entry_ok: "document_ok d \<Longrightarrow> add_json_entry d v = Inr d' \<Longrightarrow> document_ok d'"
  by (auto simp: add_json_entry_def Let_def intro: add_entry_ok normalized_ok split: json.splits option.splits if_splits)

lemma document_from_json_ok: "document_from_json lib c = Inr d \<Longrightarrow> document_ok d"
proof -
  assume "document_from_json lib c = Inr d"
  then obtain es where "replay add_json_entry empty_document es = Inr d"
    by (auto simp: document_from_json_def split: option.splits json.splits if_splits)
  moreover have "document_ok empty_document" by (simp add: document_ok_def empty_document_def)
  ultimately show ?thesis using add_json_entry_ok by (rule replay_invariant) 
qed

lemma reconcile_ok: "cs \<noteq> [] \<Longrightarrow> reconcile lib timing rc scp cur cs = (calls, Inr d) \<Longrightarrow> document_ok d"
  by (auto simp: reconcile_def Let_def intro: document_from_json_ok split: option.splits if_splits)

lemma scope_update_ok: "scope_update lib timing rc scp cur cs = (calls, Inr (Some d)) \<Longrightarrow> document_ok d"
  using reconcile_ok by (auto simp: scope_update_def Let_def split: if_splits prod.splits)

section \<open>The end of a turn\<close>

lemma load_memory_Inr:
  "load_memory abspath w ms = Inr cx \<longleftrightarrow>
     res_bind (read_memory_text (ms_global ms)) parse_global = Inr (cx_global cx)
     \<and> res_bind (read_memory_text (map_of (ms_workspaces ms) (workspace_key abspath w))) parse_workspace = Inr (cx_workspace cx)"
  by (cases cx) (auto simp: load_memory_def)

text \<open>Either nothing is written, or the files had not changed and now hold the new documents.\<close>

lemma write_updates_effect:
  assumes "write_updates abspath w g wd (Some cx) ms = (ms', r)"
  shows "r \<noteq> None \<and> ms' = ms \<or> r = None \<and> (\<exists>now. load_memory abspath w ms = Inr now
    \<and> (g \<noteq> None \<longrightarrow> cx_global now = cx_global cx) \<and> (wd \<noteq> None \<longrightarrow> cx_workspace now = cx_workspace cx)
    \<and> ms_global ms' = (case g of None \<Rightarrow> ms_global ms | Some d \<Rightarrow> Some (utf8_encode (render_global d)))
    \<and> (\<forall>k. map_of (ms_workspaces ms') k = (if k = workspace_key abspath w \<and> wd \<noteq> None
         then Some (utf8_encode (render_workspace (the wd))) else map_of (ms_workspaces ms) k)))"
proof (cases "load_memory abspath w ms")
  case (Inl x)
  then have "\<not> (\<exists>cg cw. res_bind (read_memory_text (ms_global ms)) parse_global = Inr cg
    \<and> res_bind (read_memory_text (map_of (ms_workspaces ms) (workspace_key abspath w))) parse_workspace = Inr cw)"
    using load_memory_Inr [of abspath w ms "\<lparr>cx_global = _, cx_workspace = _\<rparr>"] by auto
  then have "r \<noteq> None \<and> ms' = ms"
    using assms by (auto simp: write_updates_def Let_def try_in_def split: sum.splits)
  then show ?thesis by blast
next
  case (Inr now)
  note cur = Inr [unfolded load_memory_Inr]
  show ?thesis
  proof (cases "(g \<noteq> None \<longrightarrow> cx_global now = cx_global cx) \<and> (wd \<noteq> None \<longrightarrow> cx_workspace now = cx_workspace cx)")
    case True
    then have "ms' = (let ms1 = (case g of None \<Rightarrow> ms | Some d \<Rightarrow> put_global d ms)
        in case wd of None \<Rightarrow> ms1 | Some d \<Rightarrow> put_workspace (workspace_key abspath w) d ms1)" "r = None"
      using assms cur by (auto simp: write_updates_def Let_def)
    with True Inr show ?thesis
      by (auto simp: put_global_def put_workspace_def split: option.split)
  next
    case False
    then have "r \<noteq> None \<and> ms' = ms" using assms cur by (auto simp: write_updates_def Let_def split: if_splits)
    then show ?thesis by blast
  qed
qed

lemma write_updates_cases:
  assumes "write_updates abspath w g wd (Some cx) ms = (ms', r)"
    and ok: "\<And>d. g = Some d \<Longrightarrow> document_ok d" "\<And>d. wd = Some d \<Longrightarrow> document_ok d"
  obtains (raised) x where "r = Some x" "ms' = ms"
  | (written) now where "r = None" "load_memory abspath w ms = Inr now"
      "g \<noteq> None \<Longrightarrow> cx_global now = cx_global cx" "wd \<noteq> None \<Longrightarrow> cx_workspace now = cx_workspace cx"
      "load_memory abspath w ms' = Inr \<lparr>cx_global = (case g of Some d \<Rightarrow> d | None \<Rightarrow> cx_global now),
          cx_workspace = (case wd of Some d \<Rightarrow> d | None \<Rightarrow> cx_workspace now)\<rparr>"
      "\<forall>k. k \<noteq> workspace_key abspath w \<longrightarrow> map_of (ms_workspaces ms') k = map_of (ms_workspaces ms) k"
  using write_updates_effect [OF assms(1)]
proof
  assume "r \<noteq> None \<and> ms' = ms"
  then show thesis using raised by auto
next
  assume "r = None \<and> (\<exists>now. load_memory abspath w ms = Inr now
    \<and> (g \<noteq> None \<longrightarrow> cx_global now = cx_global cx) \<and> (wd \<noteq> None \<longrightarrow> cx_workspace now = cx_workspace cx)
    \<and> ms_global ms' = (case g of None \<Rightarrow> ms_global ms | Some d \<Rightarrow> Some (utf8_encode (render_global d)))
    \<and> (\<forall>k. map_of (ms_workspaces ms') k = (if k = workspace_key abspath w \<and> wd \<noteq> None
         then Some (utf8_encode (render_workspace (the wd))) else map_of (ms_workspaces ms) k)))"
  then obtain now where now: "r = None" "load_memory abspath w ms = Inr now"
      "g \<noteq> None \<longrightarrow> cx_global now = cx_global cx" "wd \<noteq> None \<longrightarrow> cx_workspace now = cx_workspace cx"
    and files: "ms_global ms' = (case g of None \<Rightarrow> ms_global ms | Some d \<Rightarrow> Some (utf8_encode (render_global d)))"
      "\<forall>k. map_of (ms_workspaces ms') k = (if k = workspace_key abspath w \<and> wd \<noteq> None
         then Some (utf8_encode (render_workspace (the wd))) else map_of (ms_workspaces ms) k)" by blast
  have "load_memory abspath w ms' = Inr \<lparr>cx_global = (case g of Some d \<Rightarrow> d | None \<Rightarrow> cx_global now),
      cx_workspace = (case wd of Some d \<Rightarrow> d | None \<Rightarrow> cx_workspace now)\<rparr>"
    unfolding load_memory_Inr using now(2) [unfolded load_memory_Inr] files ok global_file_roundtrip workspace_file_roundtrip
    by (cases g; cases wd) simp_all
  then show thesis using written now files(2) by simp
qed

lemma plan_updates_ok:
  assumes "plan_updates lib timing rc cx cs = (calls, Inr (g, w))"
  shows "g = Some d \<Longrightarrow> document_ok d" "w = Some d \<Longrightarrow> document_ok d"
    "g = None \<longleftrightarrow> list_all (\<lambda>c. mc_scope c \<noteq> GlobalScope) cs" "w = None \<longleftrightarrow> list_all (\<lambda>c. mc_scope c \<noteq> WorkspaceScope) cs"
proof -
  have none: "x = None \<longleftrightarrow> list_all (\<lambda>c. mc_scope c \<noteq> scp) cs"
    if "scope_update lib t rc scp cur cs = (calls', Inr x)" for t scp cur calls' x
    using that by (auto simp: scope_update_def Let_def list_all_iff filter_empty_conv split: if_splits prod.splits)
  obtain c1 c2 where 1: "scope_update lib (timing GlobalScope) rc GlobalScope (cx_global cx) cs = (c1, Inr g)"
    and 2: "scope_update lib (timing WorkspaceScope) rc WorkspaceScope (cx_workspace cx) cs = (c2, Inr w)"
    using assms by (auto simp: plan_updates_def split: prod.splits sum.splits)
  from 1 2 show "g = Some d \<Longrightarrow> document_ok d" "w = Some d \<Longrightarrow> document_ok d" using scope_update_ok by blast+
  from none [OF 1] none [OF 2] show "g = None \<longleftrightarrow> list_all (\<lambda>c. mc_scope c \<noteq> GlobalScope) cs"
    "w = None \<longleftrightarrow> list_all (\<lambda>c. mc_scope c \<noteq> WorkspaceScope) cs" by simp_all
qed


definition demo_memory_lib :: json_lib where
  "demo_memory_lib = \<lparr>jl_dumps = (\<lambda>_. ''{}''), jl_loads = (\<lambda>_. Some (JObj [(''entries'',
     JList [JObj [(''kind'', JStr ''fact''), (''content'', JStr ''uses  tabs'')]])]))\<rparr>"

definition demo_reconciler :: reconciler where
  "demo_reconciler = mk_reconciler (\<lambda>_. Inr \<lparr>rs_content = Some ''{}'', rs_reasoning = None, rs_tool_calls = [], rs_usage = None,
     rs_provider_data = []\<rparr>) True ''merge'' ''merge'' 10 10"

definition demo_memory_manager :: memory_manager where
  "demo_memory_manager = \<lparr>mm_workspace = ''/w'', mm_pending = [\<lparr>mc_kind = Fact, mc_scope = GlobalScope, mc_content = ''uses tabs''\<rparr>]\<rparr>"

definition demo_document :: memory_document where
  "demo_document = \<lparr>md_preferences = [], md_facts = [''uses tabs''], md_decisions = []\<rparr>"


end
