(* ===== verification/Provider_Stream.thy ===== *)
theory Provider_Stream
  imports Nosis_Prelude
begin

text \<open>
  The stream of a model provider read by a thread of its own (\<open>_cancellable_chunks\<close> of
  \<open>agent_core/providers/base.py\<close>).

  \<^item> \<open>stream_source\<close> is what the provider does when it is asked: it fails to open, or delivers chunks and ends or
    fails, and it may have a \<open>close\<close> that may fail.
  \<^item> The two threads share a queue of capacity one, the event \<open>stopped\<close> and the stream. A state of the reader or
    of the generator is the place in the code it has reached; every step is one access to shared state.
  \<^item> A wait with a timeout ends either with the result or with a timeout: both are steps.
    \<open>check_cancelled\<close> raises \<open>AgentCancelled\<close> from some moment on, which is a step of the environment.
\<close>

section \<open>The state\<close>

record 'a stream_source =
  so_create :: "exn option"
  so_items :: "'a list"
  so_error :: "exn option"
  so_has_close :: bool
  so_close :: "exn option"
  so_generator :: bool

datatype 'a queue_item = Chunk 'a | Failure exn | StreamEnd

text \<open>Where \<open>publish\<close> was called: in the loop (with the chunks the stream still has), in the \<open>except\<close>, behind a
  failing \<open>close\<close>, at the very end.\<close>

datatype 'a phase = InLoop "'a list" | InExcept | InClose | InEnd

datatype 'a reader_pc =
    Creating
  | Reading "'a list"
  | Offering "'a queue_item" "'a phase"
  | Putting "'a queue_item" "'a phase"
  | Closing
  | Ended

datatype leave = Returned | Cancelled | Failed exn | Abandoned

datatype 'a consumer_pc =
    Polling
  | Waiting
  | Taken "'a queue_item"
  | Yielding
  | Leaving leave
  | Stopping leave
  | Left leave "exn option"

record 'a channel =
  ch_queue :: "'a queue_item option"
  ch_stopped :: bool
  ch_cancelled :: bool
  ch_stream :: bool
  ch_closed :: bool
  ch_reader :: "'a reader_pc"
  ch_consumer :: "'a consumer_pc"
  ch_yielded :: "'a list"

definition new_channel :: "'a channel" where
  "new_channel = \<lparr>ch_queue = None, ch_stopped = False, ch_cancelled = False, ch_stream = False, ch_closed = False,
     ch_reader = Creating, ch_consumer = Polling, ch_yielded = []\<rparr>"

section \<open>The reader\<close>

text \<open>Where \<open>publish\<close> returns to, with its value.\<close>

fun published :: "'a phase \<Rightarrow> bool \<Rightarrow> 'a reader_pc" where
  "published (InLoop rest) ok = (if ok then Reading rest else Closing)"
| "published InExcept ok = Closing"
| "published InClose ok = Offering StreamEnd InEnd"
| "published InEnd ok = Ended"

fun reader_step :: "'a stream_source \<Rightarrow> 'a channel \<Rightarrow> 'a channel" where
  "reader_step so c =
     (case ch_reader c of
        Creating \<Rightarrow>
          (case so_create so of
             Some e \<Rightarrow> c\<lparr>ch_reader := Offering (Failure e) InExcept\<rparr>
           | None \<Rightarrow> c\<lparr>ch_stream := True, ch_reader := Reading (so_items so)\<rparr>)
      | Reading (x # rest) \<Rightarrow> c\<lparr>ch_reader := Offering (Chunk x) (InLoop rest)\<rparr>
      | Reading [] \<Rightarrow>
          (case so_error so of
             Some e \<Rightarrow> c\<lparr>ch_reader := Offering (Failure e) InExcept\<rparr>
           | None \<Rightarrow> c\<lparr>ch_reader := Closing\<rparr>)
      | Offering i ph \<Rightarrow>
          if ch_stopped c then c\<lparr>ch_reader := published ph False\<rparr> else c\<lparr>ch_reader := Putting i ph\<rparr>
      | Putting i ph \<Rightarrow>
          if ch_queue c = None then c\<lparr>ch_queue := Some i, ch_reader := published ph True\<rparr>
          else c\<lparr>ch_reader := Offering i ph\<rparr>
      | Closing \<Rightarrow>
          if ch_stream c \<and> so_has_close so then
            (case so_close so of
               Some e \<Rightarrow> c\<lparr>ch_closed := True, ch_reader := Offering (Failure e) InClose\<rparr>
             | None \<Rightarrow> c\<lparr>ch_closed := True, ch_reader := Offering StreamEnd InEnd\<rparr>)
          else c\<lparr>ch_reader := Offering StreamEnd InEnd\<rparr>
      | Ended \<Rightarrow> c)"

section \<open>The generator\<close>

fun received :: "'a queue_item \<Rightarrow> 'a channel \<Rightarrow> 'a channel" where
  "received StreamEnd c = c\<lparr>ch_consumer := Leaving Returned\<rparr>"
| "received (Failure e) c = c\<lparr>ch_consumer := Leaving (Failed e)\<rparr>"
| "received (Chunk x) c = c\<lparr>ch_consumer := Yielding, ch_yielded := ch_yielded c @ [x]\<rparr>"

definition close_error :: "'a stream_source \<Rightarrow> 'a channel \<Rightarrow> exn option" where
  "close_error so c = (if ch_stream c \<and> so_has_close so \<and> \<not> so_generator so then so_close so else None)"

fun consumer_step :: "'a stream_source \<Rightarrow> 'a channel \<Rightarrow> 'a channel" where
  "consumer_step so c =
     (case ch_consumer c of
        Polling \<Rightarrow> c\<lparr>ch_consumer := if ch_cancelled c then Leaving Cancelled else Waiting\<rparr>
      | Waiting \<Rightarrow>
          (case ch_queue c of
             None \<Rightarrow> c\<lparr>ch_consumer := Polling\<rparr>
           | Some i \<Rightarrow> c\<lparr>ch_queue := None, ch_consumer := Taken i\<rparr>)
      | Taken i \<Rightarrow> if ch_cancelled c then c\<lparr>ch_consumer := Leaving Cancelled\<rparr> else received i c
      | Yielding \<Rightarrow> c\<lparr>ch_consumer := Polling\<rparr>
      | Leaving r \<Rightarrow> c\<lparr>ch_stopped := True, ch_consumer := Stopping r\<rparr>
      | Stopping r \<Rightarrow>
          c\<lparr>ch_closed := ch_closed c \<or> ch_stream c \<and> so_has_close so \<and> \<not> so_generator so,
            ch_consumer := Left r (close_error so c)\<rparr>
      | Left r e \<Rightarrow> c)"

section \<open>Interleavings\<close>

datatype 'a actor = ReaderMoves | ReadsClosed "exn option" | ConsumerMoves | CallerLeaves | TurnCancelled

text \<open>A stream that was closed under its reader may end or fail with any exception instead of going on.\<close>

fun channel_step :: "'a stream_source \<Rightarrow> 'a actor \<Rightarrow> 'a channel \<Rightarrow> 'a channel option" where
  "channel_step so ReaderMoves c = (if ch_reader c = Ended then None else Some (reader_step so c))"
| "channel_step so (ReadsClosed r) c =
     (case ch_reader c of
        Reading _ \<Rightarrow>
          if ch_closed c then Some (c\<lparr>ch_reader := case r of None \<Rightarrow> Closing | Some e \<Rightarrow> Offering (Failure e) InExcept\<rparr>) else None
      | _ \<Rightarrow> None)"
| "channel_step so ConsumerMoves c = (case ch_consumer c of Left _ _ \<Rightarrow> None | _ \<Rightarrow> Some (consumer_step so c))"
| "channel_step so CallerLeaves c = (if ch_consumer c = Yielding then Some (c\<lparr>ch_consumer := Leaving Abandoned\<rparr>) else None)"
| "channel_step so TurnCancelled c = Some (c\<lparr>ch_cancelled := True\<rparr>)"

fun channel_run :: "'a stream_source \<Rightarrow> 'a actor list \<Rightarrow> 'a channel \<Rightarrow> 'a channel option" where
  "channel_run so [] c = Some c"
| "channel_run so (a # as) c = (case channel_step so a c of None \<Rightarrow> None | Some c' \<Rightarrow> channel_run so as c')"

inductive stream_reachable :: "'a stream_source \<Rightarrow> 'a channel \<Rightarrow> bool" for so where
  start: "stream_reachable so new_channel"
| move: "stream_reachable so c \<Longrightarrow> channel_step so a c = Some c' \<Longrightarrow> stream_reachable so c'"

lemma channel_run_reachable: "channel_run so as c = Some c' \<Longrightarrow> stream_reachable so c \<Longrightarrow> stream_reachable so c'"
  by (induction as arbitrary: c) (auto split: option.splits intro: move)

section \<open>The invariant\<close>

definition provider_chunks :: "'a stream_source \<Rightarrow> 'a list" where
  "provider_chunks so = (if so_create so = None then so_items so else [])"

definition source_clean :: "'a stream_source \<Rightarrow> bool" where
  "source_clean so \<longleftrightarrow> so_create so = None \<and> so_error so = None \<and> (so_has_close so \<longrightarrow> so_close so = None)"

definition source_errors :: "'a stream_source \<Rightarrow> exn set" where
  "source_errors so = set_option (so_create so) \<union> set_option (so_error so) \<union> set_option (so_close so)"

fun item_chunks :: "'a queue_item \<Rightarrow> 'a list" where
  "item_chunks (Chunk x) = [x]"
| "item_chunks _ = []"

fun phase_left :: "'a phase \<Rightarrow> 'a list" where
  "phase_left (InLoop rest) = rest"
| "phase_left _ = []"

fun reader_left :: "'a stream_source \<Rightarrow> 'a reader_pc \<Rightarrow> 'a list" where
  "reader_left so Creating = provider_chunks so"
| "reader_left so (Reading rest) = rest"
| "reader_left so (Offering i ph) = item_chunks i @ phase_left ph"
| "reader_left so (Putting i ph) = item_chunks i @ phase_left ph"
| "reader_left so Closing = []"
| "reader_left so Ended = []"

fun consumer_holds :: "'a consumer_pc \<Rightarrow> 'a list" where
  "consumer_holds (Taken i) = item_chunks i"
| "consumer_holds _ = []"

definition queue_chunks :: "'a queue_item option \<Rightarrow> 'a list" where
  "queue_chunks q = (case q of None \<Rightarrow> [] | Some i \<Rightarrow> item_chunks i)"

text \<open>The chunks on their way, in order.\<close>

definition in_flight :: "'a stream_source \<Rightarrow> 'a channel \<Rightarrow> 'a list" where
  "in_flight so c = consumer_holds (ch_consumer c) @ queue_chunks (ch_queue c) @ reader_left so (ch_reader c)"

fun consuming :: "'a consumer_pc \<Rightarrow> bool" where
  "consuming Polling = True" | "consuming Waiting = True" | "consuming Yielding = True"
| "consuming (Taken i) = (case i of Failure _ \<Rightarrow> False | _ \<Rightarrow> True)"
| "consuming _ = False"

text \<open>The places of the reader behind the report of a failure of the stream, and behind that of its \<open>close\<close>.\<close>

fun behind_except :: "'a reader_pc \<Rightarrow> bool" where
  "behind_except Closing = True" | "behind_except Ended = True"
| "behind_except (Offering _ ph) = (ph = InClose \<or> ph = InEnd)"
| "behind_except (Putting _ ph) = (ph = InClose \<or> ph = InEnd)"
| "behind_except _ = False"

fun behind_close :: "'a reader_pc \<Rightarrow> bool" where
  "behind_close Ended = True"
| "behind_close (Offering _ ph) = (ph = InEnd)"
| "behind_close (Putting _ ph) = (ph = InEnd)"
| "behind_close _ = False"

definition reported :: "'a stream_source \<Rightarrow> 'a reader_pc \<Rightarrow> bool" where
  "reported so rd \<longleftrightarrow> (so_create so \<noteq> None \<or> so_error so \<noteq> None) \<and> behind_except rd
     \<or> so_create so = None \<and> so_has_close so \<and> so_close so \<noteq> None \<and> behind_close rd"

text \<open>The item in the hands of the reader fits the place it was published from.\<close>

fun fits_phase :: "'a stream_source \<Rightarrow> 'a channel \<Rightarrow> 'a queue_item \<Rightarrow> 'a phase \<Rightarrow> bool" where
  "fits_phase so c (Chunk x) ph = (so_create so = None \<and> (\<exists>rest. ph = InLoop rest))"
| "fits_phase so c (Failure e) ph = ((ph = InExcept \<and> (ch_stopped c \<or> e \<in> source_errors so)) \<or> (ph = InClose \<and> e \<in> source_errors so))"
| "fits_phase so c StreamEnd ph = (ph = InEnd)"

fun reader_fits :: "'a stream_source \<Rightarrow> 'a channel \<Rightarrow> 'a reader_pc \<Rightarrow> bool" where
  "reader_fits so c (Offering i ph) = fits_phase so c i ph"
| "reader_fits so c (Putting i ph) = fits_phase so c i ph"
| "reader_fits so c (Reading _) = (so_create so = None)"
| "reader_fits so c _ = True"

definition queue_fits :: "'a stream_source \<Rightarrow> 'a channel \<Rightarrow> bool" where
  "queue_fits so c \<longleftrightarrow>
     (\<forall>e. ch_queue c = Some (Failure e) \<longrightarrow> (ch_stopped c \<or> e \<in> source_errors so) \<and> behind_except (ch_reader c))
   \<and> (ch_queue c = Some StreamEnd \<longrightarrow> ch_reader c = Ended)"

definition delivered :: "'a stream_source \<Rightarrow> 'a channel \<Rightarrow> bool" where
  "delivered so c \<longleftrightarrow> ch_yielded c = provider_chunks so"

fun leave_ok :: "'a stream_source \<Rightarrow> 'a channel \<Rightarrow> leave \<Rightarrow> bool" where
  "leave_ok so c Returned = (delivered so c \<and> source_clean so)"
| "leave_ok so c Cancelled = ch_cancelled c"
| "leave_ok so c (Failed e) = (delivered so c \<and> e \<in> source_errors so)"
| "leave_ok so c Abandoned = True"

fun consumer_ok :: "'a stream_source \<Rightarrow> 'a channel \<Rightarrow> 'a consumer_pc \<Rightarrow> bool" where
  "consumer_ok so c (Taken i) = (case i of Chunk _ \<Rightarrow> True | Failure e \<Rightarrow> leave_ok so c (Failed e) | StreamEnd \<Rightarrow> leave_ok so c Returned)"
| "consumer_ok so c (Leaving r) = leave_ok so c r"
| "consumer_ok so c (Stopping r) = leave_ok so c r"
| "consumer_ok so c (Left r e) = (leave_ok so c r \<and> (e = None \<or> e = so_close so))"
| "consumer_ok so c _ = True"

fun has_stopped :: "'a consumer_pc \<Rightarrow> bool" where
  "has_stopped (Stopping r) = True" | "has_stopped (Left r e) = True" | "has_stopped _ = False"

definition stream_inv :: "'a stream_source \<Rightarrow> 'a channel \<Rightarrow> bool" where
  "stream_inv so c \<longleftrightarrow>
     prefix (ch_yielded c) (provider_chunks so)
   \<and> (consuming (ch_consumer c) \<longrightarrow> ch_yielded c @ in_flight so c = provider_chunks so)
   \<and> ch_stopped c = has_stopped (ch_consumer c)
   \<and> reader_fits so c (ch_reader c)
   \<and> queue_fits so c
   \<and> (reported so (ch_reader c) \<and> consuming (ch_consumer c) \<longrightarrow> (\<exists>e. ch_queue c = Some (Failure e)))
   \<and> consumer_ok so c (ch_consumer c)
   \<and> (ch_closed c \<longrightarrow> ch_stopped c \<or> behind_except (ch_reader c))
   \<and> ch_stream c = (so_create so = None \<and> ch_reader c \<noteq> Creating)"

lemmas stream_defs = stream_inv_def in_flight_def queue_chunks_def reported_def source_errors_def queue_fits_def

lemma consuming_not_stopped: "consuming p \<Longrightarrow> \<not> has_stopped p"
  by (cases p) auto

lemma leave_ok_cong: "ch_yielded c' = ch_yielded c \<Longrightarrow> ch_cancelled c \<longrightarrow> ch_cancelled c' \<Longrightarrow> leave_ok so c r \<Longrightarrow> leave_ok so c' r"
  by (cases r) (auto simp: delivered_def)

lemma consumer_ok_cong:
  "ch_yielded c' = ch_yielded c \<Longrightarrow> ch_cancelled c \<longrightarrow> ch_cancelled c' \<Longrightarrow> consumer_ok so c p \<Longrightarrow> consumer_ok so c' p"
  by (cases p) (auto simp: delivered_def split: queue_item.splits intro: leave_ok_cong)

lemma stream_inv_start: "stream_inv so new_channel"
  by (simp add: stream_defs new_channel_def)

lemma reader_step_inv:
  assumes "stream_inv so c" and "ch_reader c \<noteq> Ended"
  shows "stream_inv so (reader_step so c)"
proof -
  have keep: "consumer_ok so (reader_step so c) (ch_consumer (reader_step so c))"
  proof -
    have "ch_yielded (reader_step so c) = ch_yielded c" "ch_cancelled (reader_step so c) = ch_cancelled c"
      "ch_consumer (reader_step so c) = ch_consumer c"
      by (auto split: reader_pc.splits option.splits list.splits)
    then show ?thesis using assms(1) consumer_ok_cong [of "reader_step so c" c] by (auto simp: stream_inv_def)
  qed
  show ?thesis
  proof (cases "ch_reader c")
    case Creating
    then show ?thesis using assms keep by (auto simp: stream_defs provider_chunks_def split: option.splits)
  next
    case (Reading rest)
    then show ?thesis using assms keep by (cases rest) (auto simp: stream_defs split: option.splits)
  next
    case (Offering i ph)
    then show ?thesis using assms keep consuming_not_stopped [of "ch_consumer c"]
      by (cases i; cases ph) (auto simp: stream_defs split: option.splits)
  next
    case (Putting i ph)
    then show ?thesis using assms keep
      by (cases i; cases ph) (auto simp: stream_defs split: option.splits)
  next
    case Closing
    then show ?thesis using assms keep by (auto simp: stream_defs split: option.splits)
  qed (use assms in simp)
qed

lemma behind_except_nothing_left: "behind_except rd \<Longrightarrow> reader_fits so c rd \<Longrightarrow> reader_left so rd = []"
  by (cases rd rule: behind_except.cases) (auto elim: fits_phase.elims)

text \<open>The steps of the generator change nothing of the reader.\<close>

lemma fits_stopped:
  "reader_fits so c rd \<Longrightarrow> ch_stopped c \<longrightarrow> ch_stopped c' \<Longrightarrow> reader_fits so c' rd"
proof (cases rd)
  case (Offering i ph)
  assume "reader_fits so c rd" "ch_stopped c \<longrightarrow> ch_stopped c'"
  then show ?thesis using Offering by (cases i) auto
next
  case (Putting i ph)
  assume "reader_fits so c rd" "ch_stopped c \<longrightarrow> ch_stopped c'"
  then show ?thesis using Putting by (cases i) auto
qed auto

lemma take_item_ok:
  assumes "stream_inv so c" and "ch_consumer c = Waiting" and "ch_queue c = Some i"
  shows "consumer_ok so c (Taken i)"
proof (cases i)
  case (Failure e)
  have "behind_except (ch_reader c)" "reader_fits so c (ch_reader c)" using assms Failure by (auto simp: stream_defs)
  then have "reader_left so (ch_reader c) = []" by (rule behind_except_nothing_left)
  then show ?thesis using assms Failure by (auto simp: stream_defs delivered_def)
next
  case StreamEnd
  then have "ch_reader c = Ended" "\<not> reported so (ch_reader c)" using assms by (auto simp: stream_inv_def queue_fits_def)
  then show ?thesis using assms StreamEnd by (auto simp: stream_defs delivered_def source_clean_def)
qed simp

lemma received_frame [simp]:
  "ch_stopped (received i c) = ch_stopped c" "ch_queue (received i c) = ch_queue c" "ch_reader (received i c) = ch_reader c"
  "ch_closed (received i c) = ch_closed c" "ch_stream (received i c) = ch_stream c"
  by (cases i; simp)+

lemma consumer_step_stopped: "ch_stopped c \<longrightarrow> ch_stopped (consumer_step so c)"
  by (simp split: consumer_pc.split option.split)

lemma received_inv:
  assumes inv: "stream_inv so c" and held: "ch_consumer c = Taken i" and "\<not> ch_cancelled c"
  shows "stream_inv so (received i c)"
proof (cases i)
  case (Chunk x)
  have all: "ch_yielded c @ x # queue_chunks (ch_queue c) @ reader_left so (ch_reader c) = provider_chunks so"
    and fits: "reader_fits so c (ch_reader c)" using inv held Chunk by (auto simp: stream_inv_def in_flight_def)
  have "prefix (ch_yielded c @ [x]) (provider_chunks so)" unfolding all [symmetric] by simp
  moreover have "reader_fits so (received i c) (ch_reader c)" using fits by (rule fits_stopped) simp
  ultimately show ?thesis using inv held all Chunk
    by (simp add: stream_inv_def in_flight_def queue_fits_def) blast
next
  case (Failure e)
  have "reader_fits so (received i c) (ch_reader c)" by (rule fits_stopped [of so c]) (use inv in \<open>auto simp: stream_inv_def\<close>)
  then show ?thesis using inv held Failure by (simp add: stream_inv_def queue_fits_def delivered_def) blast
next
  case StreamEnd
  have "reader_fits so (received i c) (ch_reader c)" by (rule fits_stopped [of so c]) (use inv in \<open>auto simp: stream_inv_def\<close>)
  then show ?thesis using inv held StreamEnd by (simp add: stream_inv_def queue_fits_def delivered_def) blast
qed

lemma consumer_step_inv:
  assumes "stream_inv so c"
  shows "stream_inv so (consumer_step so c)"
proof -
  have fits: "reader_fits so (consumer_step so c) (ch_reader c)"
    by (rule fits_stopped [OF _ consumer_step_stopped]) (use assms in \<open>simp add: stream_inv_def\<close>)
  show ?thesis
  proof (cases "ch_consumer c")
    case Polling
    then show ?thesis using assms fits by (auto simp: stream_defs)
  next
    case Waiting
    show ?thesis
    proof (cases "ch_queue c")
      case None
      then show ?thesis using assms fits Waiting by (auto simp: stream_defs)
    next
      case (Some i)
      have ok: "consumer_ok so c (Taken i)" by (rule take_item_ok [OF assms Waiting Some])
      then have "consumer_ok so (consumer_step so c) (Taken i)" using Waiting Some by (intro consumer_ok_cong [OF _ _ ok]) auto
      then show ?thesis using assms fits Waiting Some by (cases i) (auto simp: stream_defs source_clean_def)
    qed
  next
    case (Taken i)
    show ?thesis
    proof (cases "ch_cancelled c")
      case True
      then have "consumer_step so c = c\<lparr>ch_consumer := Leaving Cancelled\<rparr>" using Taken by simp
      then show ?thesis using assms fits Taken True by (auto simp: stream_defs)
    next
      case False
      then have step: "consumer_step so c = received i c" using Taken by simp
      show ?thesis unfolding step by (rule received_inv [OF assms Taken False])
    qed
  next
    case Yielding
    then show ?thesis using assms fits by (auto simp: stream_defs)
  next
    case (Leaving r)
    then show ?thesis using assms fits leave_ok_cong [of "consumer_step so c" c so r] by (auto simp: stream_defs)
  next
    case (Stopping r)
    then show ?thesis using assms fits leave_ok_cong [of "consumer_step so c" c so r] by (auto simp: stream_defs close_error_def)
  next
    case (Left r e)
    then show ?thesis using assms by simp
  qed
qed

lemma channel_step_inv:
  assumes "stream_inv so c" and "channel_step so a c = Some c'"
  shows "stream_inv so c'"
proof (cases a)
  case ReaderMoves
  then show ?thesis using assms reader_step_inv by (auto simp del: reader_step.simps split: if_splits)
next
  case (ReadsClosed r)
  then obtain rest where r: "ch_reader c = Reading rest" "ch_closed c"
      "c' = c\<lparr>ch_reader := case r of None \<Rightarrow> Closing | Some e \<Rightarrow> Offering (Failure e) InExcept\<rparr>"
    using assms(2) by (auto split: reader_pc.splits if_splits)
  then have "ch_stopped c" "\<not> consuming (ch_consumer c)" using assms(1) consuming_not_stopped by (auto simp: stream_inv_def)
  moreover have "consumer_ok so c' (ch_consumer c)" using assms(1) r(3) by (intro consumer_ok_cong [of c' c]) (auto simp: stream_inv_def)
  ultimately show ?thesis using assms(1) r by (cases r) (auto simp: stream_defs)
next
  case ConsumerMoves
  then show ?thesis using assms consumer_step_inv by (auto simp del: consumer_step.simps split: consumer_pc.splits)
next
  case CallerLeaves
  then have "c' = c\<lparr>ch_consumer := Leaving Abandoned\<rparr>" "ch_consumer c = Yielding" using assms(2) by (auto split: if_splits)
  then show ?thesis using assms(1) fits_stopped [of so c "ch_reader c" c'] by (auto simp: stream_defs)
next
  case TurnCancelled
  then have "c' = c\<lparr>ch_cancelled := True\<rparr>" using assms(2) by simp
  moreover from this have "consumer_ok so c' (ch_consumer c)"
    using assms(1) by (intro consumer_ok_cong [of c' c]) (auto simp: stream_inv_def)
  ultimately show ?thesis using assms(1) fits_stopped [of so c "ch_reader c" c'] by (auto simp: stream_defs)
qed

lemma stream_reachable_inv: "stream_reachable so c \<Longrightarrow> stream_inv so c"
  by (induction rule: stream_reachable.induct) (auto intro: stream_inv_start channel_step_inv)


section \<open>What the caller sees\<close>

text \<open>C12. The caller of a stream gets the chunks of the provider, in order, each once, under every interleaving
  of the reading thread with the generator and at whatever moment the turn is cancelled. If the generator
  returns, it has yielded every chunk, and neither the stream nor its \<open>close\<close> failed. If it raises a failure of the
  provider, it has yielded every chunk before. It raises \<open>AgentCancelled\<close> only when the turn was cancelled, and
  once the turn is cancelled it yields nothing more.\<close>

theorem stream_delivers_in_order:
  assumes "stream_reachable so c"
  shows "prefix (ch_yielded c) (provider_chunks so)
    \<and> (case ch_consumer c of Left r _ \<Rightarrow> leave_ok so c r | _ \<Rightarrow> True)
    \<and> (ch_cancelled c \<longrightarrow> ch_yielded (consumer_step so c) = ch_yielded c)"
proof -
  have "stream_inv so c" by (rule stream_reachable_inv [OF assms])
  then show ?thesis by (auto simp: stream_inv_def split: consumer_pc.splits option.splits)
qed

definition demo_source :: "nat stream_source" where
  "demo_source = \<lparr>so_create = None, so_items = [1, 2], so_error = None, so_has_close = True, so_close = None, so_generator = False\<rparr>"

definition demo_schedule_run :: "nat actor list" where
  "demo_schedule_run = replicate 4 ReaderMoves @ replicate 4 ConsumerMoves @ replicate 3 ReaderMoves @ replicate 4 ConsumerMoves
     @ replicate 4 ReaderMoves @ replicate 5 ConsumerMoves"


theorem stream_delivers_in_order_witness:
  "\<exists>c. channel_run demo_source demo_schedule_run new_channel = Some c \<and> ch_consumer c = Left Returned None
     \<and> prefix (ch_yielded c) [1, 2] \<and> leave_ok demo_source c Returned"
proof -
  have "case channel_run demo_source demo_schedule_run new_channel of None \<Rightarrow> False
      | Some c \<Rightarrow> (case ch_consumer c of Left Returned None \<Rightarrow> True | _ \<Rightarrow> False)" by code_simp
  then obtain c where c: "channel_run demo_source demo_schedule_run new_channel = Some c" "ch_consumer c = Left Returned None"
    by (auto split: option.splits consumer_pc.splits leave.splits)
  have "stream_reachable demo_source c" using channel_run_reachable [OF c(1)] start by blast
  from stream_delivers_in_order [OF this] c show ?thesis by (simp add: provider_chunks_def demo_source_def)
qed

section \<open>The reader does not outlive the generator\<close>

fun reader_rank :: "'a reader_pc \<Rightarrow> nat" where
  "reader_rank Ended = 0"
| "reader_rank (Offering i ph) = (case ph of InEnd \<Rightarrow> 1 | InClose \<Rightarrow> 2 | _ \<Rightarrow> 4)"
| "reader_rank (Putting i ph) = (case ph of InEnd \<Rightarrow> 2 | InClose \<Rightarrow> 3 | InExcept \<Rightarrow> 5 | InLoop _ \<Rightarrow> 6)"
| "reader_rank Closing = 3"
| "reader_rank (Reading rest) = 5"
| "reader_rank Creating = 6"

definition closed_behind :: "'a stream_source \<Rightarrow> 'a channel \<Rightarrow> bool" where
  "closed_behind so c \<longleftrightarrow> (behind_except (ch_reader c) \<and> ch_reader c \<noteq> Closing \<and> ch_stream c \<and> so_has_close so \<longrightarrow> ch_closed c)"

lemma reader_rank_decreases:
  assumes "ch_stopped c" and "ch_reader c \<noteq> Ended"
  shows "reader_rank (ch_reader (reader_step so c)) < reader_rank (ch_reader c)"
proof (cases "ch_reader c")
  case (Reading rest)
  then show ?thesis by (cases rest) (auto split: option.split)
next
  case (Offering i ph)
  then show ?thesis using assms by (cases ph) auto
next
  case (Putting i ph)
  then show ?thesis by (cases ph) auto
qed (use assms in \<open>auto split: option.split\<close>)

lemma reader_step_frame:
  "ch_stopped (reader_step so c) = ch_stopped c" "ch_consumer (reader_step so c) = ch_consumer c"
  by (auto split: reader_pc.split list.split option.split)

lemma consumer_step_reader: "ch_reader (consumer_step so c) = ch_reader c"
  by (auto split: consumer_pc.split option.split)

lemma channel_step_rank:
  assumes "channel_step so a c = Some c'" and "ch_stopped c"
  shows "ch_stopped c' \<and> reader_rank (ch_reader c') + (if a = ReaderMoves then 1 else 0) \<le> reader_rank (ch_reader c)"
proof (cases a)
  case ReaderMoves
  then show ?thesis using assms reader_rank_decreases [OF assms(2), of so]
    by (auto simp: reader_step_frame simp del: reader_step.simps split: if_splits)
next
  case (ReadsClosed r)
  then show ?thesis using assms by (auto split: reader_pc.splits if_splits option.splits)
next
  case ConsumerMoves
  then show ?thesis using assms consumer_step_stopped [of c so] consumer_step_reader [of so c]
    by (auto simp del: consumer_step.simps split: consumer_pc.splits)
qed (use assms in \<open>auto split: if_splits\<close>)

lemma channel_run_rank:
  "channel_run so as c = Some c' \<Longrightarrow> ch_stopped c
   \<Longrightarrow> reader_rank (ch_reader c') + length (filter (\<lambda>a. a = ReaderMoves) as) \<le> reader_rank (ch_reader c)"
proof (induction as arbitrary: c)
  case (Cons a as)
  then obtain c1 where s: "channel_step so a c = Some c1" "channel_run so as c1 = Some c'" by (auto split: option.splits)
  then show ?case using channel_step_rank [OF s(1) Cons.prems(2)] Cons.IH [OF s(2)] by (cases "a = ReaderMoves") auto
qed simp

lemma reader_rank_bound: "reader_rank rd \<le> 6"
  by (cases rd) (auto split: phase.split)

lemma closed_behind_step:
  assumes "closed_behind so c" and "channel_step so a c = Some c'" and "stream_inv so c"
  shows "closed_behind so c'"
proof (cases a)
  case ReaderMoves
  then have c': "c' = reader_step so c" "ch_reader c \<noteq> Ended" using assms(2) by (auto simp del: reader_step.simps split: if_splits)
  show ?thesis
  proof (cases "ch_reader c")
    case (Reading rest)
    then show ?thesis using assms(1) unfolding c'(1) by (cases rest) (auto simp: closed_behind_def split: option.splits)
  next
    case (Offering i ph)
    then show ?thesis using assms(1) unfolding c'(1) by (cases ph) (auto simp: closed_behind_def)
  next
    case (Putting i ph)
    then show ?thesis using assms(1) unfolding c'(1) by (cases ph) (auto simp: closed_behind_def)
  qed (use assms(1) c' in \<open>auto simp: closed_behind_def split: option.splits\<close>)
next
  case (ReadsClosed r)
  then show ?thesis using assms by (auto simp: closed_behind_def split: reader_pc.splits if_splits option.splits)
next
  case ConsumerMoves
  then have c': "c' = consumer_step so c" using assms(2) by (auto simp del: consumer_step.simps split: consumer_pc.splits)
  have "ch_closed c \<longrightarrow> ch_closed c'" "ch_stream c' = ch_stream c" unfolding c'
    by (auto split: consumer_pc.split option.split)
  then show ?thesis using assms(1) consumer_step_reader [of so c] unfolding c' closed_behind_def by metis
qed (use assms in \<open>auto simp: closed_behind_def split: if_splits\<close>)


text \<open>C13. The thread that reads a provider does not outlive its caller. Once the generator has set \<open>stopped\<close>,
  because it is done, failed, was cancelled or was closed, the reader makes at most six more steps, whatever
  else happens meanwhile; and where it can make none, it has ended and the stream of the provider is closed.\<close>

theorem stopped_reader_ends:
  assumes "stream_reachable so c" and "ch_stopped c" and "channel_run so as c = Some c'"
  shows "length (filter (\<lambda>a. a = ReaderMoves) as) \<le> 6
    \<and> (channel_step so ReaderMoves c' = None \<longrightarrow> ch_reader c' = Ended \<and> (ch_stream c' \<and> so_has_close so \<longrightarrow> ch_closed c'))"
proof -
  have "stream_reachable so c'" using channel_run_reachable [OF assms(3,1)] .
  then have "closed_behind so c'"
  proof (induction rule: stream_reachable.induct)
    case start
    then show ?case by (simp add: closed_behind_def new_channel_def)
  next
    case (move c a c')
    then show ?case using closed_behind_step stream_reachable_inv by blast
  qed
  then show ?thesis using channel_run_rank [OF assms(3,2)] reader_rank_bound [of "ch_reader c"]
    by (auto simp: closed_behind_def simp del: reader_step.simps split: if_splits)
qed

definition demo_cancelled_run :: "nat actor list" where
  "demo_cancelled_run = [ReaderMoves, TurnCancelled, ConsumerMoves, ConsumerMoves]"

theorem stopped_reader_ends_witness:
  "\<exists>c c'. channel_run demo_source demo_cancelled_run new_channel = Some c \<and> ch_stopped c
     \<and> channel_run demo_source (replicate 4 ReaderMoves) c = Some c' \<and> ch_reader c' = Ended \<and> ch_closed c'"
proof -
  have "case channel_run demo_source demo_cancelled_run new_channel of None \<Rightarrow> False
      | Some c \<Rightarrow> ch_stopped c \<and> (case channel_run demo_source (replicate 4 ReaderMoves) c of None \<Rightarrow> False
          | Some c' \<Rightarrow> channel_step demo_source ReaderMoves c' = None \<and> ch_stream c')" by code_simp
  then obtain c c' where c: "channel_run demo_source demo_cancelled_run new_channel = Some c" "ch_stopped c"
      "channel_run demo_source (replicate 4 ReaderMoves) c = Some c'" "channel_step demo_source ReaderMoves c' = None" "ch_stream c'"
    by (force split: option.splits simp del: channel_run.simps channel_step.simps replicate.simps)
  have "stream_reachable demo_source c" using channel_run_reachable [OF c(1)] start by blast
  from stopped_reader_ends [OF this c(2,3)] c(4,5) have "ch_reader c' = Ended" "ch_closed c'"
    by (simp_all add: demo_source_def del: channel_step.simps)
  then show ?thesis using c(1-3) by blast
qed

end
