(* ===== verification/Workspace_Files.thy ===== *)
theory Workspace_Files
  imports Journal_File
begin

text \<open>
  The workspace and the files below it: \<open>agent_core/workspace.py\<close>, \<open>agent_core/path_utils.py\<close>,
  \<open>agent_core/atomic.py\<close>, \<open>agent_core/tools/files.py\<close>, and the tools \<open>write_file\<close> and
  \<open>edit_file\<close>.

  \<^item> An absolute POSIX path is the list of its segments; the root is the empty list.
  \<^item> The file system is a dictionary from paths to nodes. A file has its permission bits and its
    bytes. \<open>files_ok\<close> is the well-formedness of a tree: the parent of every node is a directory.
  \<^item> The platform is the record \<open>host\<close>: \<open>h_realpath\<close> is \<open>Path.resolve\<close> on an absolute path, and
    \<open>h_fault\<close> says which system call fails on which path for a reason of the platform's own (a full
    disk, missing rights). An \<open>OSError\<close> is the name of its class.
  \<^item> The temporary file of an atomic replacement exists only during the call, because it is
    removed in the \<open>finally\<close> clause; the model is the effect of the whole call.
\<close>

section \<open>Paths\<close>

type_synonym path = "string list"

definition clean_segment :: "string \<Rightarrow> bool" where
  "clean_segment s \<longleftrightarrow> s \<noteq> [] \<and> s \<noteq> ''.'' \<and> s \<noteq> ''..'' \<and> CHR ''/'' \<notin> set s"

definition clean_path :: "path \<Rightarrow> bool" where
  "clean_path p = list_all clean_segment p"

text \<open>\<open>Path(s)\<close>: its parts, without empty and \<open>.\<close> segments, and whether it is absolute.\<close>

definition path_parts :: "string \<Rightarrow> path" where
  "path_parts s = filter (\<lambda>x. x \<noteq> [] \<and> x \<noteq> ''.'') (py_split (CHR ''/'') s)"

definition is_absolute :: "string \<Rightarrow> bool" where
  "is_absolute s = (take 1 s = ''/'')"

text \<open>\<open>str(path)\<close> of an absolute path and \<open>as_posix\<close> of a relative one.\<close>

definition path_str :: "path \<Rightarrow> string" where
  "path_str p = (if p = [] then ''/'' else concat (map (\<lambda>s. CHR ''/'' # s) p))"

definition as_posix :: "path \<Rightarrow> string" where
  "as_posix p = (if p = [] then ''.'' else py_join ''/'' p)"

text \<open>\<open>path_for_comparison\<close>: the two Windows prefixes are removed from the text of the path.\<close>

definition comparison_text :: "string \<Rightarrow> string" where
  "comparison_text value =
     (if prefix [CHR 0x5C, CHR 0x5C, CHR ''?'', CHR 0x5C, CHR ''U'', CHR ''N'', CHR ''C'', CHR 0x5C] value
      then [CHR 0x5C, CHR 0x5C] @ drop 8 value
      else if prefix [CHR 0x5C, CHR 0x5C, CHR ''?'', CHR 0x5C] value then drop 4 value
      else value)"

definition path_for_comparison :: "path \<Rightarrow> path" where
  "path_for_comparison p = path_parts (comparison_text (path_str p))"

text \<open>\<open>path.relative_to(root)\<close>.\<close>

definition relative_to :: "path \<Rightarrow> path \<Rightarrow> path res" where
  "relative_to p root =
     (if take (length root) p = root then Inr (drop (length root) p)
      else Inl (ValueError (quoted (path_str p) @ '' is not in the subpath of '' @ quoted (path_str root))))"

definition relative_to_root :: "path \<Rightarrow> path \<Rightarrow> path res" where
  "relative_to_root p root = relative_to (path_for_comparison p) (path_for_comparison root)"

text \<open>All proper ancestors, the nearest first (\<open>path.parents\<close>).\<close>

fun parents_of :: "path \<Rightarrow> path list" where
  "parents_of p = (if p = [] then [] else butlast p # parents_of (butlast p))"

declare parents_of.simps [simp del]

lemma parents_of_Nil [simp]: "parents_of [] = []"
  by (simp add: parents_of.simps)

lemma parents_of_snoc [simp]: "parents_of (p @ [s]) = p # parents_of p"
  by (simp add: parents_of.simps [of "p @ [s]"])

lemma set_parents_of: "q \<in> set (parents_of p) \<longleftrightarrow> strict_prefix q p"
  by (induction p rule: rev_induct) (auto simp: prefix_snoc strict_prefix_def)

lemma py_split_no: "c \<notin> set s \<Longrightarrow> py_split c s = [s]"
  by (induction s) auto

lemma py_split_sep: "c \<notin> set s \<Longrightarrow> py_split c (s @ c # t) = s # py_split c t"
  by (induction s) auto

lemma py_split_join:
  "ss \<noteq> [] \<Longrightarrow> list_all (\<lambda>s. c \<notin> set s) ss \<Longrightarrow> py_split c (py_join [c] ss) = ss"
proof (induction "[c]" ss rule: py_join.induct)
  case (3 x y ys)
  then show ?case by (simp add: py_split_sep)
qed (auto simp: py_split_no)

lemma clean_path_no_sep: "clean_path p \<Longrightarrow> list_all (\<lambda>s. CHR ''/'' \<notin> set s) p"
  by (auto simp: clean_path_def clean_segment_def list_all_iff)

lemma clean_path_filter: "clean_path p \<Longrightarrow> filter (\<lambda>x. x \<noteq> [] \<and> x \<noteq> ''.'') p = p"
  by (auto simp: clean_path_def clean_segment_def list_all_iff filter_id_conv)

lemma path_str_join: "p \<noteq> [] \<Longrightarrow> path_str p = CHR ''/'' # py_join ''/'' p"
  by (induction "''/''" p rule: py_join.induct) (auto simp: path_str_def)

lemma path_parts_str [simp]: "clean_path p \<Longrightarrow> path_parts (path_str p) = p"
proof (cases "p = []")
  case True
  then show ?thesis by (simp add: path_parts_def path_str_def)
next
  case False
  assume c: "clean_path p"
  have "py_split (CHR ''/'') (path_str p) = [] # p"
    using py_split_join [OF False clean_path_no_sep [OF c]] by (simp add: path_str_join [OF False])
  then show ?thesis using clean_path_filter [OF c] by (simp add: path_parts_def)
qed

lemma path_parts_posix [simp]: "clean_path p \<Longrightarrow> path_parts (as_posix p) = p"
  using py_split_join [OF _ clean_path_no_sep] clean_path_filter
  by (cases "p = []") (auto simp: path_parts_def as_posix_def)

lemma path_str_slash: "take 1 (path_str p) = ''/''"
  by (cases p) (auto simp: path_str_def)

lemma comparison_text_posix [simp]: "comparison_text (path_str p) = path_str p"
  using path_str_slash [of p] by (cases "path_str p") (auto simp: comparison_text_def)

lemma path_for_comparison_clean [simp]: "clean_path p \<Longrightarrow> path_for_comparison p = p"
  by (simp add: path_for_comparison_def)

lemma relative_to_Inr_iff [simp]: "relative_to p root = Inr r \<longleftrightarrow> p = root @ r"
  by (auto simp: relative_to_def) (metis append_take_drop_id)

lemma clean_path_append [simp]: "clean_path (p @ q) \<longleftrightarrow> clean_path p \<and> clean_path q"
  by (simp add: clean_path_def)

lemma clean_path_Nil [simp]: "clean_path []"
  by (simp add: clean_path_def)

lemma clean_path_Cons [simp]: "clean_path (s # p) \<longleftrightarrow> clean_segment s \<and> clean_path p"
  by (simp add: clean_path_def)

lemma relative_to_root_clean:
  "clean_path p \<Longrightarrow> clean_path root \<Longrightarrow> relative_to_root p root = Inr r \<longleftrightarrow> p = root @ r"
  by (simp add: relative_to_root_def)

lemma posix_not_absolute: "clean_path r \<Longrightarrow> \<not> is_absolute (as_posix r)"
proof (cases r)
  case (Cons s t)
  assume c: "clean_path r"
  from c Cons obtain x xs where s: "s = x # xs" "x \<noteq> CHR ''/''"
    by (cases s) (auto simp: clean_segment_def)
  then have "take 1 (py_join ''/'' (s # t)) = [x]" by (cases t) auto
  then show ?thesis using s Cons by (simp add: is_absolute_def as_posix_def)
qed (simp add: is_absolute_def as_posix_def)

section \<open>The platform and the tree of files\<close>

datatype node = FileNode (node_mode: nat) (node_bytes: string) | DirNode

type_synonym files = "(path, node) dict"

record host =
  h_realpath :: "path \<Rightarrow> path res"
  h_fault :: "string \<Rightarrow> path \<Rightarrow> string option"

definition node_at :: "files \<Rightarrow> path \<Rightarrow> node option" where
  "node_at fs p = (if p = [] then Some DirNode else map_of fs p)"

definition files_ok :: "files \<Rightarrow> bool" where
  "files_ok fs \<longleftrightarrow> dict_ok fs \<and> list_all (\<lambda>(p, n). p \<noteq> [] \<and> node_at fs (butlast p) = Some DirNode) fs"

definition is_file_node :: "node option \<Rightarrow> bool" where
  "is_file_node n = (case n of Some (FileNode _ _) \<Rightarrow> True | _ \<Rightarrow> False)"

lemma node_at_Nil [simp]: "node_at fs [] = Some DirNode"
  by (simp add: node_at_def)

lemma node_at_update [simp]:
  "p \<noteq> [] \<Longrightarrow> node_at (AList.update p n fs) q = (if q = p then Some n else node_at fs q)"
  by (simp add: node_at_def)

lemma node_at_delete [simp]:
  "p \<noteq> [] \<Longrightarrow> node_at (AList.delete p fs) q = (if q = p then None else node_at fs q)"
  by (simp add: node_at_def)

lemma files_ok_iff:
  "files_ok fs \<longleftrightarrow> dict_ok fs \<and> map_of fs [] = None
     \<and> (\<forall>p n. map_of fs p = Some n \<longrightarrow> node_at fs (butlast p) = Some DirNode)"
proof -
  have "dict_ok fs \<Longrightarrow> map_of fs [] = None \<longleftrightarrow> (\<forall>(p, n) \<in> set fs. p \<noteq> [])"
    by (force simp: map_of_eq_None_iff)
  moreover have "dict_ok fs \<Longrightarrow> (\<forall>p n. map_of fs p = Some n \<longrightarrow> node_at fs (butlast p) = Some DirNode)
      \<longleftrightarrow> (\<forall>(p, n) \<in> set fs. node_at fs (butlast p) = Some DirNode)"
    by (auto simp: dict_mem_get [symmetric])
  ultimately show ?thesis by (auto simp: files_ok_def list_all_iff)
qed

lemma files_ok_parent:
  "files_ok fs \<Longrightarrow> node_at fs p = Some n \<Longrightarrow> node_at fs (butlast p) = Some DirNode"
  by (cases "p = []") (auto simp: node_at_def files_ok_iff)

lemma files_ok_update:
  assumes "files_ok fs" and "p \<noteq> []" and "node_at fs (butlast p) = Some DirNode"
    and "node_at fs p = Some DirNode \<longrightarrow> n = DirNode"
  shows "files_ok (AList.update p n fs)"
  using assms by (auto simp: files_ok_iff node_at_def split: if_splits)

lemma files_ok_delete_file:
  assumes "files_ok fs" and "node_at fs p = Some (FileNode m b)"
  shows "files_ok (AList.delete p fs)"
  using assms by (auto simp: files_ok_iff node_at_def split: if_splits)


section \<open>The workspace\<close>

text \<open>\<open>Workspace(path)\<close>, for a path whose user directory is expanded.\<close>

definition workspace_init :: "host \<Rightarrow> files \<Rightarrow> path \<Rightarrow> path res" where
  "workspace_init h fs p =
     res_bind (h_realpath h p) (\<lambda>r.
       if node_at fs r \<noteq> Some DirNode
       then Inl (ValueError (''workspace must be an existing directory: '' @ path_str r))
       else Inr r)"

definition resolve_path :: "host \<Rightarrow> path \<Rightarrow> string \<Rightarrow> path res" where
  "resolve_path h ws relative_path =
     (if is_absolute relative_path then Inl (ValueError ''workspace path must be relative'')
      else res_bind (h_realpath h (ws @ path_parts relative_path)) (\<lambda>resolved.
        case relative_to_root resolved ws of
          Inl _ \<Rightarrow> Inl (ValueError ''workspace path must stay within the workspace'')
        | Inr _ \<Rightarrow> Inr resolved))"

definition is_path_within :: "host \<Rightarrow> path \<Rightarrow> path \<Rightarrow> bool res" where
  "is_path_within h p root = res_map (\<lambda>r. prefix (path_for_comparison root) (path_for_comparison r)) (h_realpath h p)"

text \<open>The path of a resolved file relative to the workspace, as results show it.\<close>

definition display_path :: "path \<Rightarrow> path \<Rightarrow> string res" where
  "display_path ws p = res_map as_posix (relative_to_root p ws)"

text \<open>What \<open>Path.resolve\<close> documents: its results are absolute paths without \<open>.\<close>, \<open>..\<close> or symbolic
  links, which resolve to themselves.\<close>

definition realpath_canonical :: "host \<Rightarrow> bool" where
  "realpath_canonical h \<longleftrightarrow> (\<forall>p r. h_realpath h p = Inr r \<longrightarrow> clean_path r \<and> h_realpath h r = Inr r)"

text \<open>The workspace path is one that \<open>resolve\<close> returned.\<close>

definition ws_ok :: "host \<Rightarrow> path \<Rightarrow> bool" where
  "ws_ok h ws \<longleftrightarrow> h_realpath h ws = Inr ws"

lemma workspace_init_ok:
  "realpath_canonical h \<Longrightarrow> workspace_init h fs p = Inr ws \<Longrightarrow> ws_ok h ws \<and> node_at fs ws = Some DirNode"
  by (auto simp: workspace_init_def realpath_canonical_def ws_ok_def split: if_splits)

lemma resolve_path_Inr_iff:
  "resolve_path h ws s = Inr p \<longleftrightarrow> \<not> is_absolute s \<and> h_realpath h (ws @ path_parts s) = Inr p
     \<and> is_ok (relative_to_root p ws)"
proof (cases "h_realpath h (ws @ path_parts s)")
  case (Inr q)
  then show ?thesis by (cases "relative_to_root q ws") (auto simp: resolve_path_def)
qed (simp add: resolve_path_def)

lemma resolve_path_within:
  assumes "realpath_canonical h" "ws_ok h ws" "resolve_path h ws s = Inr p"
  obtains r where "p = ws @ r" "clean_path p" "h_realpath h p = Inr p"
    "display_path ws p = Inr (as_posix r)" "resolve_path h ws (as_posix r) = Inr p"
proof -
  have ws: "clean_path ws" using assms(1,2) by (auto simp: realpath_canonical_def ws_ok_def)
  from assms(3) have real: "h_realpath h (ws @ path_parts s) = Inr p"
    and "\<exists>r. relative_to_root p ws = Inr r"
    by (auto simp: resolve_path_Inr_iff is_ok_iff)
  with assms(1) have p: "clean_path p" "h_realpath h p = Inr p" and "\<exists>r. p = ws @ r"
    by (auto simp: realpath_canonical_def relative_to_root_clean ws)
  then obtain r where r: "p = ws @ r" by blast
  then have cr: "clean_path r" using p(1) by simp
  have rel: "relative_to_root p ws = Inr r" using p(1) ws r by (simp add: relative_to_root_clean)
  have "resolve_path h ws (as_posix r) = Inr p"
    using p(2) by (simp add: resolve_path_def posix_not_absolute [OF cr] cr r [symmetric] rel)
  with r p rel show thesis by (intro that) (simp_all add: display_path_def)
qed

lemma resolve_path_inside:
  assumes "realpath_canonical h" "ws_ok h ws" "resolve_path h ws s = Inr p"
  shows "is_path_within h p ws = Inr True"
  by (rule resolve_path_within [OF assms]) (simp add: is_path_within_def)

section \<open>Directories and atomic replacement\<close>

text \<open>\<open>os.mkdir\<close>.\<close>

definition os_mkdir :: "host \<Rightarrow> files \<Rightarrow> path \<Rightarrow> files outcome" where
  "os_mkdir h fs p =
     (if list_ex (\<lambda>q. is_file_node (node_at fs q)) (parents_of p) then (fs, Some (OSError ''NotADirectoryError''))
      else if node_at fs p \<noteq> None then (fs, Some (OSError ''FileExistsError''))
      else if node_at fs (butlast p) = None then (fs, Some (OSError ''FileNotFoundError''))
      else (case h_fault h ''mkdir'' p of
          Some e \<Rightarrow> (fs, Some (OSError e))
        | None \<Rightarrow> (AList.update p DirNode fs, None)))"

text \<open>\<open>path.mkdir(parents=True, exist_ok=True)\<close> of the standard library.\<close>

function mkdir_parents :: "host \<Rightarrow> files \<Rightarrow> path \<Rightarrow> files outcome" where
  "mkdir_parents h fs p =
     (case os_mkdir h fs p of
        (fs', None) \<Rightarrow> (fs', None)
      | (_, Some e) \<Rightarrow>
          if e = OSError ''FileNotFoundError'' \<and> p \<noteq> [] then
            (case mkdir_parents h fs (butlast p) of
               (fs1, Some e1) \<Rightarrow> (fs1, Some e1)
             | (fs1, None) \<Rightarrow>
                 (case os_mkdir h fs1 p of
                    (fs2, None) \<Rightarrow> (fs2, None)
                  | (_, Some e2) \<Rightarrow> if node_at fs1 p = Some DirNode then (fs1, None) else (fs1, Some e2)))
          else if node_at fs p = Some DirNode then (fs, None) else (fs, Some e))"
  by pat_completeness auto

termination mkdir_parents
  by (relation "measure (\<lambda>(h, fs, p). length p)") auto

declare mkdir_parents.simps [simp del]

definition atomic_write_bytes :: "host \<Rightarrow> files \<Rightarrow> path \<Rightarrow> string \<Rightarrow> nat option \<Rightarrow> files outcome" where
  "atomic_write_bytes h fs p data mode =
     (case mkdir_parents h fs (butlast p) of
        (fs1, Some e) \<Rightarrow> (fs1, Some e)
      | (fs1, None) \<Rightarrow>
          (case h_fault h ''write'' p of
             Some e \<Rightarrow> (fs1, Some (OSError e))
           | None \<Rightarrow>
               if node_at fs1 p = Some DirNode then (fs1, Some (OSError ''IsADirectoryError''))
               else (AList.update p (FileNode (case mode of None \<Rightarrow> 384 | Some m \<Rightarrow> m) data) fs1, None)))"

text \<open>The text is encoded as UTF-8 and its line feeds are written as they are (\<open>newline="\n"\<close>).\<close>

definition atomic_write_text :: "host \<Rightarrow> files \<Rightarrow> path \<Rightarrow> string \<Rightarrow> nat option \<Rightarrow> files outcome" where
  "atomic_write_text h fs p content mode = atomic_write_bytes h fs p (utf8_encode content) mode"

text \<open>\<open>files.write_file_bytes\<close>: a file that exists keeps its permission bits, a new one has those of
  \<open>mkstemp\<close> (octal 600). The mode of a directory is not used, as replacing one fails.\<close>

definition write_file_bytes :: "host \<Rightarrow> files \<Rightarrow> path \<Rightarrow> string \<Rightarrow> files outcome" where
  "write_file_bytes h fs p data =
     atomic_write_bytes h fs p data
       (case node_at fs p of Some (FileNode m _) \<Rightarrow> Some m | Some DirNode \<Rightarrow> Some 493 | None \<Rightarrow> None)"

text \<open>\<open>files.missing_parent_directories\<close>: the directories above a path that are to be made, the
  outermost first.\<close>

function missing_above :: "files \<Rightarrow> path \<Rightarrow> path \<Rightarrow> path list \<Rightarrow> path list res" where
  "missing_above fs ws current missing =
     (if current = ws then Inr missing
      else case relative_to_root current ws of
        Inl _ \<Rightarrow> Inl (ValueError ''workspace path must stay within the workspace'')
      | Inr _ \<Rightarrow>
          (case node_at fs current of
             Some DirNode \<Rightarrow> Inr missing
           | Some (FileNode _ _) \<Rightarrow> Inl (OSError ''NotADirectoryError'')
           | None \<Rightarrow> missing_above fs ws (butlast current) (current # missing)))"
  by pat_completeness auto

termination missing_above
  by (relation "measure (\<lambda>(fs, ws, c, m). length c)") (auto simp: node_at_def split: if_splits)

declare missing_above.simps [simp del]

definition missing_parent_directories :: "files \<Rightarrow> path \<Rightarrow> path \<Rightarrow> path list res" where
  "missing_parent_directories fs p ws = missing_above fs ws (butlast p) []"

text \<open>\<open>path.unlink()\<close>.\<close>

definition unlink_file :: "host \<Rightarrow> files \<Rightarrow> path \<Rightarrow> files outcome" where
  "unlink_file h fs p =
     (case node_at fs p of
        None \<Rightarrow> (fs, Some (OSError ''FileNotFoundError''))
      | Some DirNode \<Rightarrow> (fs, Some (OSError ''IsADirectoryError''))
      | Some (FileNode _ _) \<Rightarrow>
          (case h_fault h ''unlink'' p of
             Some e \<Rightarrow> (fs, Some (OSError e))
           | None \<Rightarrow> (AList.delete p fs, None)))"

subsection \<open>What the operations leave alone\<close>

text \<open>The tree has grown by directories above \<open>p\<close> and is otherwise the same.\<close>

definition dirs_added :: "path \<Rightarrow> files \<Rightarrow> files \<Rightarrow> bool" where
  "dirs_added p fs fs' \<longleftrightarrow> (\<forall>q. node_at fs' q = node_at fs q
     \<or> prefix q p \<and> node_at fs q = None \<and> node_at fs' q = Some DirNode)"

lemma dirs_added_refl [simp]: "dirs_added p fs fs"
  by (simp add: dirs_added_def)

lemma dirs_added_trans: "dirs_added p fs fs1 \<Longrightarrow> dirs_added p fs1 fs2 \<Longrightarrow> dirs_added p fs fs2"
  unfolding dirs_added_def by (metis option.distinct(1))

lemma dirs_added_above: "dirs_added q fs fs' \<Longrightarrow> prefix q p \<Longrightarrow> dirs_added p fs fs'"
  unfolding dirs_added_def by (metis prefix_order.trans)

lemma dirs_added_keeps: "dirs_added p fs fs' \<Longrightarrow> node_at fs q = Some n \<Longrightarrow> node_at fs' q = Some n"
  unfolding dirs_added_def by (metis option.distinct(1))

lemma dirs_added_file:
  "dirs_added p fs fs' \<Longrightarrow> node_at fs' q = Some (FileNode m b) \<longleftrightarrow> node_at fs q = Some (FileNode m b)"
  unfolding dirs_added_def by (metis node.distinct(1) option.distinct(1) option.inject)

lemma prefix_butlast: "prefix (butlast p) p"
  by (simp add: prefix_def) (metis append_butlast_last_id append_Nil2 butlast.simps(1))

lemma os_mkdir_spec:
  assumes "files_ok fs" and "os_mkdir h fs p = (fs', r)"
  shows "files_ok fs' \<and> dirs_added p fs fs' \<and> (r = None \<longrightarrow> node_at fs' p = Some DirNode) \<and> (r \<noteq> None \<longrightarrow> fs' = fs)"
proof (cases "r = None")
  case True
  then have c: "node_at fs p = None" "node_at fs (butlast p) \<noteq> None"
      "\<not> list_ex (\<lambda>q. is_file_node (node_at fs q)) (parents_of p)" "fs' = AList.update p DirNode fs"
    using assms(2) by (auto simp: os_mkdir_def split: if_splits option.splits)
  then have p: "p \<noteq> []" by auto
  then have "\<not> is_file_node (node_at fs (butlast p))" using c(3) by (simp add: parents_of.simps [of p])
  then have "node_at fs (butlast p) = Some DirNode"
    using c(2) by (auto simp: is_file_node_def split: option.splits node.splits)
  then show ?thesis using assms(1) p c True by (auto simp: dirs_added_def intro: files_ok_update)
next
  case False
  then show ?thesis using assms by (auto simp: os_mkdir_def split: if_splits option.splits)
qed

lemma mkdir_parents_spec:
  "files_ok fs \<Longrightarrow> mkdir_parents h fs p = (fs', r)
   \<Longrightarrow> files_ok fs' \<and> dirs_added p fs fs' \<and> (r = None \<longrightarrow> node_at fs' p = Some DirNode)"
proof (induction h fs p arbitrary: fs' r rule: mkdir_parents.induct)
  case (1 h fs p)
  obtain fsa ra where a: "os_mkdir h fs p = (fsa, ra)" by fastforce
  note A = os_mkdir_spec [OF 1(2) a]
  show ?case
  proof (cases "ra = Some (OSError ''FileNotFoundError'') \<and> p \<noteq> []")
    case False
    then show ?thesis using 1(2,3) a A
      by (cases ra) (auto simp: mkdir_parents.simps [of h fs p] split: if_splits)
  next
    case True
    obtain fs1 r1 where b: "mkdir_parents h fs (butlast p) = (fs1, r1)" by fastforce
    have B: "files_ok fs1 \<and> dirs_added (butlast p) fs fs1"
      using 1(1) [OF a [symmetric] _ _ 1(2) b] True by auto
    then have B': "dirs_added p fs fs1" using dirs_added_above prefix_butlast by blast
    obtain fs2 r2 where c: "os_mkdir h fs1 p = (fs2, r2)" by fastforce
    note C = os_mkdir_spec [OF conjunct1 [OF B] c]
    show ?thesis
      using 1(3) a True b c B B' C
      by (cases r1; cases r2)
        (auto simp: mkdir_parents.simps [of h fs p] split: if_splits intro: dirs_added_trans)
  qed
qed


text \<open>The tree has a new node at \<open>p\<close>, perhaps with new directories above it, and is otherwise the
  same.\<close>

definition wrote :: "path \<Rightarrow> node \<Rightarrow> files \<Rightarrow> files \<Rightarrow> bool" where
  "wrote p n fs fs' \<longleftrightarrow> node_at fs' p = Some n \<and> (\<forall>q. q \<noteq> p \<longrightarrow> node_at fs' q = node_at fs q
     \<or> strict_prefix q p \<and> node_at fs q = None \<and> node_at fs' q = Some DirNode)"

lemma wrote_file_elsewhere:
  "wrote p n fs fs' \<Longrightarrow> q \<noteq> p \<Longrightarrow>
   node_at fs' q = Some (FileNode m b) \<longleftrightarrow> node_at fs q = Some (FileNode m b)"
  unfolding wrote_def by (metis node.distinct(1) option.distinct(1) option.inject)

lemma dirs_added_wrote:
  assumes "dirs_added (butlast p) fs fs1" and "p \<noteq> []"
  shows "wrote p n fs (AList.update p n fs1)"
proof -
  have "strict_prefix (butlast p) p"
    using assms(2) by (metis append_butlast_last_id strict_prefixI')
  then have "prefix q (butlast p) \<Longrightarrow> strict_prefix q p" for q
    by (meson prefix_order.le_less_trans)
  then show ?thesis using assms by (auto simp: wrote_def dirs_added_def)
qed

lemma atomic_write_spec:
  assumes "files_ok fs" and "atomic_write_bytes h fs p data mode = (fs', r)"
  shows "files_ok fs' \<and> (case r of
      Some e \<Rightarrow> dirs_added (butlast p) fs fs'
    | None \<Rightarrow> wrote p (FileNode (case mode of None \<Rightarrow> 384 | Some m \<Rightarrow> m) data) fs fs')"
proof -
  obtain fs1 r1 where m: "mkdir_parents h fs (butlast p) = (fs1, r1)" by fastforce
  note M = mkdir_parents_spec [OF assms(1) m]
  show ?thesis
  proof (cases "r = None")
    case False
    then show ?thesis using assms(2) M m
      by (auto simp: atomic_write_bytes_def split: option.splits if_splits)
  next
    case True
    then have "r1 = None" "node_at fs1 p \<noteq> Some DirNode"
        "fs' = AList.update p (FileNode (case mode of None \<Rightarrow> 384 | Some m \<Rightarrow> m) data) fs1"
      using assms(2) m by (auto simp: atomic_write_bytes_def split: option.splits if_splits)
    moreover from this have "p \<noteq> []" by auto
    ultimately show ?thesis using M True by (auto simp: dirs_added_wrote intro: files_ok_update)
  qed
qed

lemmas write_file_bytes_spec =
  atomic_write_spec [where mode = "case node_at fs p of Some (FileNode m _) \<Rightarrow> Some m | Some DirNode \<Rightarrow> Some 493 | None \<Rightarrow> None"
    and fs = fs and p = p for fs p, folded write_file_bytes_def]

text \<open>Without a fault of the platform, a write below directories of a tree succeeds.\<close>

lemma mkdir_parents_exists: "node_at fs p = Some DirNode \<Longrightarrow> mkdir_parents h fs p = (fs, None)"
  by (auto simp: mkdir_parents.simps [of h fs p] os_mkdir_def)

section \<open>The write\_file and edit\_file tools\<close>

text \<open>\<open>for directory in missing: directory.mkdir()\<close>.\<close>

fun make_directories :: "host \<Rightarrow> files \<Rightarrow> path list \<Rightarrow> files outcome" where
  "make_directories h fs [] = (fs, None)"
| "make_directories h fs (d # ds) =
     (case os_mkdir h fs d of
        (fs', Some e) \<Rightarrow> (fs', Some e)
      | (fs', None) \<Rightarrow> make_directories h fs' ds)"

text \<open>A fallible step in front of code that changes the files, and a change in front of more code.\<close>

definition try_val :: "'s \<Rightarrow> 'a res \<Rightarrow> ('a \<Rightarrow> 's \<times> 'b res) \<Rightarrow> 's \<times> 'b res" where
  "try_val s r k = (case r of Inl e \<Rightarrow> (s, Inl e) | Inr x \<Rightarrow> k x)"

definition after_change :: "'s outcome \<Rightarrow> ('s \<Rightarrow> 's \<times> 'b res) \<Rightarrow> 's \<times> 'b res" where
  "after_change c k = (case c of (s, Some e) \<Rightarrow> (s, Inl e) | (s, None) \<Rightarrow> k s)"

lemma try_val_cases:
  assumes "try_val s r k = (s', v)"
  obtains e where "r = Inl e" "s' = s" "v = Inl e" | x where "r = Inr x" "k x = (s', v)"
  using assms by (cases r) (auto simp: try_val_def)

lemma after_change_cases:
  assumes "after_change c k = (s', v)"
  obtains e where "c = (s', Some e)" "v = Inl e" | s1 where "c = (s1, None)" "k s1 = (s', v)"
  using assms by (cases c; cases "snd c") (auto simp: after_change_def)

definition write_file_arguments :: "jobj \<Rightarrow> (string \<times> string \<times> bool) res" where
  "write_file_arguments args =
     (case jget args ''path'' of
        JStr (c # cs) \<Rightarrow>
          (case jget args ''content'' of
             JStr content \<Rightarrow>
               (case (case map_of args ''overwrite'' of None \<Rightarrow> JBool False | Some v \<Rightarrow> v) of
                  JBool overwrite \<Rightarrow>
                    if \<not> set (map fst args) \<subseteq> {''path'', ''content'', ''overwrite''}
                    then Inl (ValueError (''write_file accepts only '' @ quoted ''path'' @ '', '' @ quoted ''content''
                      @ '', and '' @ quoted ''overwrite''))
                    else Inr (c # cs, content, overwrite)
                | _ \<Rightarrow> Inl (ValueError (''write_file requires a boolean '' @ quoted ''overwrite'')))
           | _ \<Rightarrow> Inl (ValueError (''write_file requires a string '' @ quoted ''content'')))
      | _ \<Rightarrow> Inl (ValueError (''write_file requires a non-empty string '' @ quoted ''path'')))"

definition write_file :: "host \<Rightarrow> path \<Rightarrow> jobj \<Rightarrow> files \<Rightarrow> files \<times> json res" where
  "write_file h ws args fs =
     try_val fs (write_file_arguments args) (\<lambda>(path, content, overwrite).
     try_val fs (resolve_path h ws path) (\<lambda>file_path.
       let existed = node_at fs file_path \<noteq> None in
       if existed \<and> \<not> overwrite
       then (fs, Inl (ValueError ''file already exists; use edit_file, or explicitly set overwrite=true''))
       else
         try_val fs (missing_parent_directories fs file_path ws) (\<lambda>missing.
         after_change (make_directories h fs missing) (\<lambda>fs1.
         after_change (write_file_bytes h fs1 file_path (utf8_encode content)) (\<lambda>fs2.
         try_val fs2 (display_path ws file_path) (\<lambda>shown.
         try_val fs2 (res_list (display_path ws) missing) (\<lambda>dirs.
           (fs2, Inr (JObj [(''path'', JStr shown), (''created'', JBool (\<not> existed)),
              (''created_parent_dirs'', JList (map JStr dirs)),
              (''bytes_written'', JInt (int (length (utf8_encode content))))]))))))))) "

text \<open>\<open>s.count(t)\<close> for a non-empty \<open>t\<close> (occurrences that do not overlap) and \<open>s.replace(t, u, 1)\<close>.\<close>

fun py_count :: "string \<Rightarrow> string \<Rightarrow> nat" where
  "py_count t [] = 0"
| "py_count t (c # cs) =
     (if prefix t (c # cs) then Suc (py_count t (drop (length t - 1) cs)) else py_count t cs)"

fun py_replace_first :: "string \<Rightarrow> string \<Rightarrow> string \<Rightarrow> string" where
  "py_replace_first t u [] = []"
| "py_replace_first t u (c # cs) =
     (if prefix t (c # cs) then u @ drop (length t) (c # cs) else c # py_replace_first t u cs)"

definition edit_file_arguments :: "jobj \<Rightarrow> (string \<times> string \<times> string) res" where
  "edit_file_arguments args =
     (case jget args ''path'' of
        JStr (c # cs) \<Rightarrow>
          (case jget args ''old_text'' of
             JStr (d # ds) \<Rightarrow>
               (case jget args ''new_text'' of
                  JStr new_text \<Rightarrow>
                    if set (map fst args) \<noteq> {''path'', ''old_text'', ''new_text''}
                    then Inl (ValueError (''edit_file accepts only '' @ quoted ''path'' @ '', '' @ quoted ''old_text''
                      @ '', and '' @ quoted ''new_text''))
                    else Inr (c # cs, d # ds, new_text)
                | _ \<Rightarrow> Inl (ValueError (''edit_file requires a string '' @ quoted ''new_text'')))
           | _ \<Rightarrow> Inl (ValueError (''edit_file requires a non-empty string '' @ quoted ''old_text'')))
      | _ \<Rightarrow> Inl (ValueError (''edit_file requires a non-empty string '' @ quoted ''path'')))"

text \<open>\<open>path.read_bytes()\<close>.\<close>

definition read_bytes :: "host \<Rightarrow> files \<Rightarrow> path \<Rightarrow> string res" where
  "read_bytes h fs p =
     (case node_at fs p of
        None \<Rightarrow> Inl (OSError ''FileNotFoundError'')
      | Some DirNode \<Rightarrow> Inl (OSError ''IsADirectoryError'')
      | Some (FileNode _ bytes) \<Rightarrow>
          (case h_fault h ''read'' p of Some e \<Rightarrow> Inl (OSError e) | None \<Rightarrow> Inr bytes))"

definition edit_file :: "host \<Rightarrow> path \<Rightarrow> jobj \<Rightarrow> files \<Rightarrow> files \<times> json res" where
  "edit_file h ws args fs =
     try_val fs (edit_file_arguments args) (\<lambda>(path, old_text, new_text).
     try_val fs (resolve_path h ws path) (\<lambda>file_path.
     try_val fs (res_bind (read_bytes h fs file_path) utf8_decode) (\<lambda>content.
       let occurrences = py_count old_text content in
       if occurrences = 0 then (fs, Inl (ValueError ''old_text was not found in the file''))
       else if occurrences > 1
       then (fs, Inl (ValueError (''old_text appears '' @ nat_str occurrences @ '' times; it must be unique'')))
       else
         after_change (write_file_bytes h fs file_path (utf8_encode (py_replace_first old_text new_text content))) (\<lambda>fs'.
         try_val fs' (display_path ws file_path) (\<lambda>shown.
           (fs', Inr (JObj [(''path'', JStr shown), (''replacements'', JInt 1)])))))))"

subsection \<open>What the tools change\<close>

lemma make_directories_spec:
  "files_ok fs \<Longrightarrow> list_all (\<lambda>d. prefix d p) ds \<Longrightarrow> make_directories h fs ds = (fs', r)
   \<Longrightarrow> files_ok fs' \<and> dirs_added p fs fs'"
proof (induction ds arbitrary: fs)
  case (Cons d ds)
  obtain fs1 r1 where o: "os_mkdir h fs d = (fs1, r1)" by fastforce
  note O = os_mkdir_spec [OF Cons.prems(1) o]
  have d: "dirs_added p fs fs1" using O Cons.prems(2) dirs_added_above by fastforce
  show ?case
  proof (cases r1)
    case None
    then have "files_ok fs' \<and> dirs_added p fs1 fs'"
      using O Cons.prems o by (intro Cons.IH) auto
    then show ?thesis using d dirs_added_trans by blast
  next
    case (Some e)
    then show ?thesis using O d Cons.prems(3) o by auto
  qed
qed simp

lemma missing_above_prefix:
  "missing_above fs ws c ms = Inr ds \<Longrightarrow> prefix c p \<Longrightarrow> list_all (\<lambda>d. prefix d p) ms \<Longrightarrow> list_all (\<lambda>d. prefix d p) ds"
proof (induction fs ws c ms rule: missing_above.induct)
  case (1 fs ws c ms)
  show ?case
  proof (cases "c \<noteq> ws \<and> is_ok (relative_to_root c ws) \<and> node_at fs c = None")
    case True
    then obtain r where r: "relative_to_root c ws = Inr r" by (auto simp: is_ok_iff)
    have "missing_above fs ws (butlast c) (c # ms) = Inr ds"
      using 1(2) True r by (simp add: missing_above.simps [of fs ws c])
    then show ?thesis
      using 1(1) [of r] True r 1(3,4) prefix_order.trans [OF prefix_butlast 1(3)] by simp
  next
    case False
    then show ?thesis using 1(2,4)
      by (auto simp: missing_above.simps [of fs ws c] is_ok_iff split: if_splits sum.splits option.splits node.splits)
  qed
qed

lemma py_replace_first_split:
  "py_count t s \<noteq> 0 \<Longrightarrow> \<exists>a b. s = a @ t @ b \<and> py_replace_first t u s = a @ u @ b"
proof (induction s)
  case (Cons c s)
  show ?case
  proof (cases "prefix t (c # s)")
    case True
    then obtain b where b: "c # s = t @ b" by (auto simp: prefix_def)
    have "py_replace_first t u (c # s) = u @ drop (length t) (c # s)" using True by simp
    then have "py_replace_first t u (c # s) = u @ b" by (simp add: b)
    then show ?thesis using b by (intro exI [of _ "[]"] exI [of _ b]) simp
  next
    case False
    then obtain a b where "s = a @ t @ b" "py_replace_first t u s = a @ u @ b" using Cons by auto
    then show ?thesis using False by (intro exI [of _ "c # a"] exI [of _ b]) simp
  qed
qed simp


text \<open>No file has been changed, made or removed.\<close>

definition same_files :: "files \<Rightarrow> files \<Rightarrow> bool" where
  "same_files fs fs' \<longleftrightarrow> (\<forall>q m b. node_at fs' q = Some (FileNode m b) \<longleftrightarrow> node_at fs q = Some (FileNode m b))"

lemma same_files_refl [simp]: "same_files fs fs"
  by (simp add: same_files_def)

lemma dirs_added_same_files: "dirs_added p fs fs' \<Longrightarrow> same_files fs fs'"
  by (simp add: same_files_def dirs_added_file)

lemma dirs_added_then_wrote:
  assumes "dirs_added (butlast p) fs fs1" and "wrote p n fs1 fs2" and "p \<noteq> []"
  shows "wrote p n fs fs2"
proof -
  have s: "strict_prefix (butlast p) p" using assms(3) by (metis append_butlast_last_id strict_prefixI')
  have "node_at fs2 q = node_at fs q \<or> strict_prefix q p \<and> node_at fs q = None \<and> node_at fs2 q = Some DirNode"
    if "q \<noteq> p" for q
  proof (cases "node_at fs1 q = node_at fs q")
    case True
    then show ?thesis using assms(2) that by (metis wrote_def)
  next
    case False
    then have "prefix q (butlast p)" "node_at fs q = None" "node_at fs1 q = Some DirNode"
      using assms(1) by (auto simp: dirs_added_def)
    then show ?thesis using assms(2) that s
      by (metis option.distinct(1) prefix_order.le_less_trans wrote_def)
  qed
  then show ?thesis using assms(2) by (simp add: wrote_def)
qed

lemma missing_above_shown:
  "missing_above fs ws c ms = Inr ds \<Longrightarrow> list_all (\<lambda>d. is_ok (relative_to_root d ws)) ms
   \<Longrightarrow> list_all (\<lambda>d. is_ok (relative_to_root d ws)) ds"
proof (induction fs ws c ms rule: missing_above.induct)
  case (1 fs ws c ms)
  show ?case
  proof (cases "c \<noteq> ws \<and> is_ok (relative_to_root c ws) \<and> node_at fs c = None")
    case True
    then obtain r where r: "relative_to_root c ws = Inr r" by (auto simp: is_ok_iff)
    have "missing_above fs ws (butlast c) (c # ms) = Inr ds"
      using 1(2) True r by (simp add: missing_above.simps [of fs ws c])
    then show ?thesis using 1(1) [of r] True r 1(3) by simp
  next
    case False
    then show ?thesis using 1(2,3)
      by (auto simp: missing_above.simps [of fs ws c] is_ok_iff split: if_splits sum.splits option.splits node.splits)
  qed
qed

lemma res_list_ok: "list_all (\<lambda>x. is_ok (f x)) xs \<Longrightarrow> is_ok (res_list f xs)"
  by (induction xs) (auto simp: is_ok_iff)

lemma missing_shown:
  "missing_parent_directories fs p ws = Inr ds \<Longrightarrow> is_ok (res_list (display_path ws) ds)"
  unfolding missing_parent_directories_def
  by (rule res_list_ok, drule missing_above_shown) (auto simp: display_path_def is_ok_iff list_all_iff)

text \<open>The node a write leaves: the bits of the file that was there, or those of a new file.\<close>

definition written_node :: "files \<Rightarrow> path \<Rightarrow> string \<Rightarrow> node" where
  "written_node fs p data = FileNode (case node_at fs p of Some (FileNode m _) \<Rightarrow> m | _ \<Rightarrow> 384) data"

lemma write_file_bytes_effect:
  assumes "files_ok fs" and "write_file_bytes h fs p data = (fs', r)"
  shows "files_ok fs' \<and> (case r of
      Some e \<Rightarrow> dirs_added (butlast p) fs fs'
    | None \<Rightarrow> p \<noteq> [] \<and> node_at fs p \<noteq> Some DirNode \<and> wrote p (written_node fs p data) fs fs')"
proof -
  note S = write_file_bytes_spec [OF assms]
  show ?thesis
  proof (cases r)
    case None
    obtain n where n: "wrote p (FileNode n data) fs fs'"
        "n = (case (case node_at fs p of Some (FileNode m _) \<Rightarrow> Some m | Some DirNode \<Rightarrow> Some 493 | None \<Rightarrow> None) of
          None \<Rightarrow> 384 | Some m \<Rightarrow> m)"
      using S None by simp
    then have p: "p \<noteq> []" by (auto simp: wrote_def)
    obtain fs1 r1 where m: "mkdir_parents h fs (butlast p) = (fs1, r1)" by fastforce
    have d: "node_at fs p \<noteq> Some DirNode"
      using assms(2) None m dirs_added_keeps [of "butlast p" fs fs1 p DirNode] mkdir_parents_spec [OF assms(1) m]
      by (auto simp: write_file_bytes_def atomic_write_bytes_def split: option.splits if_splits)
    then have "FileNode n data = written_node fs p data"
      by (auto simp: n(2) written_node_def split: option.splits node.splits)
    then show ?thesis using None S n(1) p d by simp
  next
    case (Some e)
    then show ?thesis using S by simp
  qed
qed

text \<open>The part of \<open>write_file\<close> behind its checks.\<close>

lemma write_step_effect:
  assumes fs: "files_ok fs" and ds: "list_all (\<lambda>d. prefix d (butlast p)) ds"
    and mk: "make_directories h fs ds = (fs1, None)" and wr: "write_file_bytes h fs1 p data = (fs2, r)"
  shows "files_ok fs2 \<and> (case r of
      Some e \<Rightarrow> same_files fs fs2
    | None \<Rightarrow> wrote p (written_node fs p data) fs fs2)"
proof -
  have m: "files_ok fs1" "dirs_added (butlast p) fs fs1"
    using make_directories_spec [OF fs ds mk] by simp_all
  note W = write_file_bytes_effect [OF m(1) wr]
  show ?thesis
  proof (cases r)
    case (Some e)
    then show ?thesis using W m(2) dirs_added_trans dirs_added_same_files by fastforce
  next
    case None
    then have p: "p \<noteq> []" using W by simp
    then have "\<not> prefix p (butlast p)" by (metis append_butlast_last_id not_Cons_self2 prefix_order.antisym prefix_butlast self_append_conv)
    then have "node_at fs1 p = node_at fs p" using m(2) by (auto simp: dirs_added_def)
    then have "written_node fs1 p data = written_node fs p data" by (simp add: written_node_def)
    then show ?thesis using None W p m(2) dirs_added_then_wrote by fastforce
  qed
qed

text \<open>A call of \<open>write_file\<close> that raises has changed no file; one that succeeds has changed exactly the
  file it names, which lies in the workspace, to the content given.\<close>

theorem write_file_effect:
  assumes h: "realpath_canonical h" "ws_ok h ws" and fs: "files_ok fs"
    and run: "write_file h ws args fs = (fs', v)"
  shows "files_ok fs' \<and> (case v of
      Inl e \<Rightarrow> same_files fs fs'
    | Inr out \<Rightarrow> \<exists>path content overwrite r. write_file_arguments args = Inr (path, content, overwrite)
        \<and> resolve_path h ws path = Inr (ws @ r) \<and> (overwrite \<or> node_at fs (ws @ r) = None)
        \<and> wrote (ws @ r) (written_node fs (ws @ r) (utf8_encode content)) fs fs')"
proof (cases "write_file_arguments args")
  case (Inl e)
  then show ?thesis using run fs by (auto simp: write_file_def try_val_def)
next
  case (Inr a)
  then obtain path content overwrite where args: "write_file_arguments args = Inr (path, content, overwrite)"
    by (cases a) auto
  show ?thesis
  proof (cases "resolve_path h ws path")
    case (Inl e)
    then show ?thesis using run fs args by (auto simp: write_file_def try_val_def)
  next
    case (Inr p)
    then obtain r where r: "p = ws @ r" "display_path ws p = Inr (as_posix r)"
      using resolve_path_within [OF h Inr] by metis
    show ?thesis
    proof (cases "(node_at fs p \<noteq> None \<and> \<not> overwrite) \<or> \<not> is_ok (missing_parent_directories fs p ws)")
      case True
      then show ?thesis using run fs args Inr
        by (auto simp: write_file_def try_val_def is_ok_def Let_def split: if_splits sum.splits)
    next
      case False
      then obtain ds where ds: "missing_parent_directories fs p ws = Inr ds" by (auto simp: is_ok_iff)
      obtain dirs where dirs: "res_list (display_path ws) ds = Inr dirs"
        using missing_shown [OF ds] by (auto simp: is_ok_iff)
      have pre: "list_all (\<lambda>d. prefix d (butlast p)) ds"
        using ds unfolding missing_parent_directories_def by (rule missing_above_prefix) simp_all
      obtain fs1 r1 where mk: "make_directories h fs ds = (fs1, r1)" by fastforce
      obtain fs2 r2 where wr: "write_file_bytes h fs1 p (utf8_encode content) = (fs2, r2)" by fastforce
      note M = make_directories_spec [OF fs pre mk]
      show ?thesis
      proof (cases r1)
        case (Some e)
        then have "fs' = fs1" "v = Inl e"
          using run args Inr False ds mk by (auto simp: write_file_def try_val_def after_change_def Let_def)
        then show ?thesis using M dirs_added_same_files by auto
      next
        case None
        note W = write_step_effect [OF fs pre mk [unfolded None] wr]
        show ?thesis
        proof (cases r2)
          case (Some e)
          then show ?thesis using run args Inr False ds mk None wr W
            by (auto simp: write_file_def try_val_def after_change_def Let_def)
        next
          case wrote: None
          obtain out where "fs' = fs2" "v = Inr out"
            using run args Inr False ds dirs mk None wr wrote r(2)
            by (auto simp: write_file_def try_val_def after_change_def Let_def)
          moreover have "overwrite \<or> node_at fs (ws @ r) = None" using False r(1) by auto
          ultimately show ?thesis using W wrote args Inr r(1) by (simp del: utf8_encode_append)
        qed
      qed
    qed
  qed
qed


text \<open>The same for \<open>edit_file\<close>: the file's text was \<open>a @ old_text @ b\<close> and is \<open>a @ new_text @ b\<close>.\<close>

theorem edit_file_effect:
  assumes h: "realpath_canonical h" "ws_ok h ws" and fs: "files_ok fs"
    and run: "edit_file h ws args fs = (fs', v)"
  shows "files_ok fs' \<and> (case v of
      Inl e \<Rightarrow> same_files fs fs'
    | Inr out \<Rightarrow> \<exists>path old new r m bytes a b. edit_file_arguments args = Inr (path, old, new)
        \<and> resolve_path h ws path = Inr (ws @ r) \<and> node_at fs (ws @ r) = Some (FileNode m bytes)
        \<and> utf8_decode bytes = Inr (a @ old @ b) \<and> py_count old (a @ old @ b) = 1
        \<and> wrote (ws @ r) (FileNode m (utf8_encode (a @ new @ b))) fs fs')"
proof (cases "edit_file_arguments args")
  case (Inl e)
  then show ?thesis using run fs by (auto simp: edit_file_def try_val_def)
next
  case (Inr x)
  then obtain path old new where args: "edit_file_arguments args = Inr (path, old, new)" by (cases x) auto
  show ?thesis
  proof (cases "resolve_path h ws path")
    case (Inl e)
    then show ?thesis using run fs args by (auto simp: edit_file_def try_val_def)
  next
    case (Inr p)
    then obtain r where r: "p = ws @ r" "display_path ws p = Inr (as_posix r)"
      using resolve_path_within [OF h Inr] by metis
    show ?thesis
    proof (cases "res_bind (read_bytes h fs p) utf8_decode")
      case (Inl e)
      then show ?thesis using run fs args Inr by (auto simp: edit_file_def try_val_def)
    next
      case content: (Inr content)
      then obtain m bytes where node: "node_at fs p = Some (FileNode m bytes)" "utf8_decode bytes = Inr content"
        by (auto simp: read_bytes_def split: option.splits node.splits)
      show ?thesis
      proof (cases "py_count old content = 1")
        case False
        then show ?thesis using run fs args Inr content
          by (auto simp: edit_file_def try_val_def Let_def split: if_splits)
      next
        case True
        obtain fs1 r1 where wr: "write_file_bytes h fs p (utf8_encode (py_replace_first old new content)) = (fs1, r1)"
          by fastforce
        note W = write_file_bytes_effect [OF fs wr]
        from True obtain a b where ab: "content = a @ old @ b" "py_replace_first old new content = a @ new @ b"
          using py_replace_first_split [of old content new] by auto
        show ?thesis
        proof (cases r1)
          case (Some e)
          then show ?thesis using run args Inr content True wr W dirs_added_same_files
            by (auto simp: edit_file_def try_val_def after_change_def)
        next
          case None
          then have fs': "files_ok fs1" "wrote p (FileNode m (utf8_encode (a @ new @ b))) fs fs1"
            using W node ab by (simp_all add: written_node_def)
          obtain out where out: "fs' = fs1" "v = Inr out"
            using run args Inr content True wr None r(2) by (auto simp: edit_file_def try_val_def after_change_def)
          have "utf8_decode bytes = Inr (a @ old @ b)" "py_count old (a @ old @ b) = 1"
            using node(2) True ab(1) by simp_all
          then show ?thesis using fs' args Inr node(1) r(1) out by (simp del: utf8_encode_append) blast
        qed
      qed
    qed
  qed
qed

text \<open>A text whose occurrences overlap counts as unique: \<open>aa\<close> stands at two places of \<open>aaa\<close>, and the
  first is replaced.\<close>

definition demo_host :: host where
  "demo_host = \<lparr>h_realpath = (\<lambda>p. if clean_path p then Inr p else Inl (OSError ''realpath'')),
     h_fault = (\<lambda>_ _. None)\<rparr>"

definition demo_files :: files where
  "demo_files = [([''w''], DirNode), ([''w'', ''f''], FileNode 420 ''aaa'')]"

lemma demo_host_ok: "realpath_canonical demo_host" "ws_ok demo_host [''w'']"
  by (auto simp: realpath_canonical_def ws_ok_def demo_host_def clean_segment_def split: if_splits)

lemma demo_files_ok: "files_ok demo_files"
  by code_simp

theorem edit_file_overlapping:
  "edit_file demo_host [''w''] [(''path'', JStr ''f''), (''old_text'', JStr ''aa''), (''new_text'', JStr ''b'')] demo_files
     = ([([''w''], DirNode), ([''w'', ''f''], FileNode 420 ''ba'')], Inr (JObj [(''path'', JStr ''f''), (''replacements'', JInt 1)]))"
  by code_simp

end
