(* ===== verification/List_Directory.thy ===== *)
theory List_Directory
  imports Workspace_Files "HOL-Library.List_Lexorder" "HOL-Library.Multiset"
begin

text \<open>
  The \<open>list_directory\<close> tool and the globs of the file tools (\<open>agent_core/tools/globs.py\<close>,
  \<open>agent_core/tools/builtin/list_directory.py\<close>).

  \<^item> \<open>fnmatchcase\<close> is the function of the standard library: the pattern is translated piece by piece, with its rules
    for brackets, and a set of characters is a list of ranges.
  \<^item> \<open>dentry\<close> is a directory entry as \<open>os.scandir\<close> shows it: a directory has the entries the scan delivers before it
    ends, normally or by an \<open>OSError\<close>, which the tool passes over. Links are listed and never followed.
  \<^item> \<open>list_timing\<close> gives the clock, in nanoseconds, and the cancellation signal at the n-th call of \<open>state.check\<close>.
\<close>

section \<open>fnmatch\<close>

datatype fn_item = FnStar | FnAny | FnNever | FnChar char | FnClass bool "(char \<times> char) list"

text \<open>The characters between the brackets, for the text behind an opening bracket; \<open>None\<close> if it is not closed.\<close>

definition bracket_body :: "string \<Rightarrow> string option" where
  "bracket_body s =
     (let negated = (if take 1 s = ''!'' then 1 else 0);
          start = (if take 1 (drop negated s) = '']'' then Suc negated else negated);
          body = take start s @ takeWhile (\<lambda>c. c \<noteq> CHR '']'') (drop start s)
      in if length body < length s then Some body else None)"

definition find_from :: "nat \<Rightarrow> char \<Rightarrow> string \<Rightarrow> nat option" where
  "find_from k c s = List.find (\<lambda>i. s ! i = c) [k..<length s]"

lemma find_from_less: "find_from k c s = Some i \<Longrightarrow> k \<le> i \<and> i < length s"
  by (auto simp: find_from_def find_Some_iff)

function class_chunks :: "nat \<Rightarrow> string \<Rightarrow> string list" where
  "class_chunks k s =
     (case find_from k (CHR ''-'') s of
        None \<Rightarrow> [s]
      | Some i \<Rightarrow> if Suc i = length s then [s] else take i s # class_chunks 2 (drop (Suc i) s))"
  by pat_completeness auto

termination class_chunks
  by (relation "measure (length \<circ> snd)") (auto dest: find_from_less)

declare class_chunks.simps [simp del]

text \<open>Ranges that are empty are removed, from the last to the first.\<close>

fun drop_empty_ranges :: "string list \<Rightarrow> string list" where
  "drop_empty_ranges (c # cs) =
     (case drop_empty_ranges cs of
        [] \<Rightarrow> [c]
      | d # ds \<Rightarrow> if last c > hd d then (butlast c @ tl d) # ds else c # d # ds)"
| "drop_empty_ranges [] = []"

fun class_ranges :: "string list \<Rightarrow> (char \<times> char) list" where
  "class_ranges (c # d # cs) = map (\<lambda>x. (x, x)) (butlast c) @ (last c, hd d) # class_ranges (tl d # cs)"
| "class_ranges [c] = map (\<lambda>x. (x, x)) c"
| "class_ranges [] = []"

definition class_item :: "string \<Rightarrow> fn_item" where
  "class_item stuff =
     (let chunks = (if CHR ''-'' \<in> set stuff
            then drop_empty_ranges (class_chunks (if take 1 stuff = ''!'' then 2 else 1) stuff) else [stuff])
      in case chunks of
           [] \<Rightarrow> FnNever
         | c # cs \<Rightarrow>
             if chunks = [[]] then FnNever
             else if chunks = [''!''] then FnAny
             else if take 1 c = ''!'' then FnClass True (class_ranges (tl c # cs))
             else FnClass False (class_ranges chunks))"

function fn_translate :: "string \<Rightarrow> fn_item list" where
  "fn_translate [] = []"
| "fn_translate (c # cs) =
     (if c = CHR ''*'' then FnStar # fn_translate cs
      else if c = CHR ''?'' then FnAny # fn_translate cs
      else if c = CHR ''['' then
        (case bracket_body cs of
           None \<Rightarrow> FnChar c # fn_translate cs
         | Some body \<Rightarrow> class_item body # fn_translate (drop (Suc (length body)) cs))
      else FnChar c # fn_translate cs)"
  by pat_completeness auto

termination fn_translate
  by (relation "measure length") auto

fun fn_match :: "fn_item list \<Rightarrow> string \<Rightarrow> bool" where
  "fn_match [] s = (s = [])"
| "fn_match (FnStar # is) s = list_ex (\<lambda>k. fn_match is (drop k s)) [0..<Suc (length s)]"
| "fn_match (FnNever # is) s = False"
| "fn_match (FnAny # is) s = (case s of [] \<Rightarrow> False | x # xs \<Rightarrow> fn_match is xs)"
| "fn_match (FnChar c # is) s = (case s of [] \<Rightarrow> False | x # xs \<Rightarrow> x = c \<and> fn_match is xs)"
| "fn_match (FnClass negated ranges # is) s =
     (case s of [] \<Rightarrow> False | x # xs \<Rightarrow> list_ex (\<lambda>(lo, hi). lo \<le> x \<and> x \<le> hi) ranges \<noteq> negated \<and> fn_match is xs)"

definition fnmatchcase :: "string \<Rightarrow> string \<Rightarrow> bool" where
  "fnmatchcase name pat = fn_match (fn_translate pat) name"

section \<open>Globs\<close>

abbreviation STARSTAR :: string where "STARSTAR \<equiv> ''**''"

function skip_stars :: "string list \<Rightarrow> nat \<Rightarrow> nat" where
  "skip_stars pats j = (if Suc j < length pats \<and> pats ! Suc j = STARSTAR then skip_stars pats (Suc j) else j)"
  by pat_completeness auto

termination skip_stars
  by (relation "measure (\<lambda>(pats, j). length pats - j)") auto

declare skip_stars.simps [simp del]

lemma skip_stars_ge: "j \<le> skip_stars pats j"
proof (induction pats j rule: skip_stars.induct)
  case (1 pats j)
  then show ?case by (subst skip_stars.simps) auto
qed

function matches_parts :: "string list \<Rightarrow> string list \<Rightarrow> nat \<Rightarrow> nat \<Rightarrow> bool" where
  "matches_parts parts pats i j =
     (if j < length pats then
        if pats ! j = STARSTAR then
          (let j' = skip_stars pats j in
           if Suc j' = length pats then True
           else list_ex (\<lambda>k. matches_parts parts pats k (Suc j')) [i..<Suc (length parts)])
        else if length parts \<le> i \<or> \<not> fnmatchcase (parts ! i) (pats ! j) then False
        else matches_parts parts pats (Suc i) (Suc j)
      else i = length parts)"
  by pat_completeness auto

termination matches_parts
proof (relation "measure (\<lambda>(parts, pats, i, j). length pats - j)", simp)
  fix parts pats :: "string list" and i j j' k
  assume "j < length pats" "j' = skip_stars pats j"
  then show "((parts, pats, k, Suc j'), parts, pats, i, j) \<in> measure (\<lambda>(parts, pats, i, j). length pats - j)"
    using skip_stars_ge [of j pats] by auto
qed auto

declare matches_parts.simps [simp del]

text \<open>\<open>pattern.replace\<close> of the other separator and \<open>split\<close>.\<close>

definition pattern_parts :: "string \<Rightarrow> string list" where
  "pattern_parts pattern = py_split (CHR ''/'') (map (\<lambda>c. if c = CHR 0x5C then CHR ''/'' else c) pattern)"

definition matches_path_glob :: "path \<Rightarrow> string \<Rightarrow> bool" where
  "matches_path_glob p pattern = matches_parts (py_split (CHR ''/'') (as_posix p)) (pattern_parts pattern) 0 0"

section \<open>Arguments\<close>

definition DEFAULT_LIST_LIMIT :: nat where "DEFAULT_LIST_LIMIT = 200"
definition MAX_LIST_LIMIT :: nat where "MAX_LIST_LIMIT = 200"
definition DEFAULT_LIST_TIMEOUT_SECONDS :: nat where "DEFAULT_LIST_TIMEOUT_SECONDS = 60"

record list_request =
  lr_path :: string
  lr_glob :: string
  lr_recursive :: bool
  lr_cursor :: "string option"
  lr_limit :: nat
  lr_timeout :: nat

definition arg_or :: "jobj \<Rightarrow> string \<Rightarrow> json \<Rightarrow> json" where
  "arg_or args key fallback = (case map_of args key of None \<Rightarrow> fallback | Some v \<Rightarrow> v)"

definition list_error :: "string \<Rightarrow> exn" where
  "list_error what = ValueError (''list_directory requires '' @ what)"

definition parse_list_arguments :: "jobj \<Rightarrow> list_request res" where
  "parse_list_arguments args =
     (if \<not> set (map fst args) \<subseteq> {''path'', ''glob'', ''recursive'', ''cursor'', ''limit'', ''timeout_seconds''}
      then Inl (ValueError (''list_directory accepts only '' @ quoted ''path'' @ '', '' @ quoted ''glob'' @ '', '' @ quoted ''recursive''
        @ '', '' @ quoted ''cursor'' @ '', '' @ quoted ''limit'' @ '', and '' @ quoted ''timeout_seconds''))
      else case jget args ''path'' of
        JStr (c # cs) \<Rightarrow>
          (case arg_or args ''glob'' (JStr ''*'') of
             JStr (g # gs) \<Rightarrow>
               (case arg_or args ''recursive'' (JBool False) of
                  JBool recursive \<Rightarrow>
                    res_bind (case jget args ''cursor'' of
                        JNull \<Rightarrow> Inr None
                      | JStr (k # ks) \<Rightarrow> Inr (Some (k # ks))
                      | _ \<Rightarrow> Inl (list_error (quoted ''cursor'' @ '' to be a non-empty string''))) (\<lambda>cursor.
                      case arg_or args ''limit'' (JInt (int DEFAULT_LIST_LIMIT)) of
                        JInt limit \<Rightarrow>
                          if limit < 1 \<or> limit > int MAX_LIST_LIMIT
                          then Inl (list_error (quoted ''limit'' @ '' to be between 1 and '' @ nat_str MAX_LIST_LIMIT))
                          else (case arg_or args ''timeout_seconds'' (JInt (int DEFAULT_LIST_TIMEOUT_SECONDS)) of
                              JInt t \<Rightarrow>
                                if t < 1 then Inl (list_error (quoted ''timeout_seconds'' @ '' to be a positive integer''))
                                else Inr \<lparr>lr_path = c # cs, lr_glob = g # gs, lr_recursive = recursive, lr_cursor = cursor,
                                       lr_limit = nat limit, lr_timeout = nat t\<rparr>
                            | _ \<Rightarrow> Inl (list_error (quoted ''timeout_seconds'' @ '' to be a positive integer'')))
                      | _ \<Rightarrow> Inl (list_error (quoted ''limit'' @ '' to be between 1 and '' @ nat_str MAX_LIST_LIMIT)))
                | _ \<Rightarrow> Inl (list_error (quoted ''recursive'' @ '' to be a boolean'')))
           | _ \<Rightarrow> Inl (list_error (quoted ''glob'' @ '' to be a non-empty string'')))
      | _ \<Rightarrow> Inl (list_error (''a non-empty string '' @ quoted ''path'')))"

section \<open>The listing\<close>

datatype dentry = FileEntry | LinkEntry | OtherEntry | DirEntry "(string \<times> dentry) list"

fun is_dir_entry :: "dentry \<Rightarrow> bool" where
  "is_dir_entry (DirEntry _) = True"
| "is_dir_entry _ = False"

fun children :: "dentry \<Rightarrow> (string \<times> dentry) list" where
  "children (DirEntry ds) = ds"
| "children _ = []"

fun entry_type :: "dentry \<Rightarrow> string" where
  "entry_type LinkEntry = ''symlink''"
| "entry_type (DirEntry _) = ''directory''"
| "entry_type FileEntry = ''file''"
| "entry_type OtherEntry = ''other''"

type_synonym check = "nat \<Rightarrow> exn option"

record list_timing =
  lt_start :: int
  lt_now :: "nat \<Rightarrow> int"
  lt_cancelled :: "nat \<Rightarrow> bool"

definition list_check :: "list_timing \<Rightarrow> nat \<Rightarrow> check" where
  "list_check tm timeout_seconds n =
     (if lt_cancelled tm n then Some AgentCancelled
      else if lt_start tm + int timeout_seconds * 1000000000 \<le> lt_now tm n
      then Some (OSError (''list_directory timed out after '' @ nat_str timeout_seconds @ '' seconds''))
      else None)"

text \<open>The loop over one directory: the entries it yields and the directories it puts on the stack. The counter is
  the number of checks made so far.\<close>

fun scan_dir :: "check \<Rightarrow> bool \<Rightarrow> path \<Rightarrow> (string \<times> dentry) list \<Rightarrow> nat \<Rightarrow> (nat \<times> (path \<times> dentry) list \<times> (path \<times> dentry) list) res" where
  "scan_dir check recursive base [] n = Inr (n, [], [])"
| "scan_dir check recursive base ((name, d) # ds) n =
     (case check n of
        Some e \<Rightarrow> Inl e
      | None \<Rightarrow>
          res_map (\<lambda>(m, found, pushed). (m, (base @ [name], d) # found,
              (if recursive \<and> is_dir_entry d then (base @ [name], d) # pushed else pushed)))
            (scan_dir check recursive base ds (Suc n)))"

fun weight :: "dentry \<Rightarrow> nat" where
  "weight (DirEntry ds) = Suc (sum_list (map (\<lambda>(_, d). weight d) ds))"
| "weight _ = 1"

definition pending_weight :: "(path \<times> dentry) list \<Rightarrow> nat" where
  "pending_weight stack = sum_list (map (\<lambda>(_, d). weight d) stack)"

lemma pending_weight_simps [simp]:
  "pending_weight [] = 0" "pending_weight (x # xs) = weight (snd x) + pending_weight xs"
  "pending_weight (xs @ ys) = pending_weight xs + pending_weight ys"
  by (auto simp: pending_weight_def case_prod_unfold)

lemma scan_dir_weight:
  "scan_dir check recursive base ds n = Inr (m, found, pushed) \<Longrightarrow> pending_weight pushed \<le> sum_list (map (\<lambda>(_, d). weight d) ds)"
proof (induction ds arbitrary: n m found pushed)
  case (Cons nd ds)
  obtain name d where nd: "nd = (name, d)" by fastforce
  obtain found' pushed' where r: "scan_dir check recursive base ds (Suc n) = Inr (m, found', pushed')"
      "pushed = (if recursive \<and> is_dir_entry d then (base @ [name], d) # pushed' else pushed')"
    using Cons.prems nd by (cases "scan_dir check recursive base ds (Suc n)") (auto split: option.splits)
  then show ?case using Cons.IH [OF r(1)] by (auto simp: nd)
qed simp

lemma weight_children: "sum_list (map (\<lambda>(_, d). weight d) (children d)) < weight d"
  by (cases d) auto

text \<open>The stack of directories, the top of it last.\<close>

function iter_entries :: "check \<Rightarrow> bool \<Rightarrow> (path \<times> dentry) list \<Rightarrow> nat \<Rightarrow> (nat \<times> (path \<times> dentry) list) res" where
  "iter_entries check recursive stack n =
     (if stack = [] then Inr (n, [])
      else case check n of
        Some e \<Rightarrow> Inl e
      | None \<Rightarrow>
          (case scan_dir check recursive (fst (last stack)) (children (snd (last stack))) (Suc n) of
             Inl e \<Rightarrow> Inl e
           | Inr (m, found, pushed) \<Rightarrow>
               res_map (\<lambda>(k, more). (k, found @ more)) (iter_entries check recursive (butlast stack @ pushed) m)))"
  by pat_completeness auto

termination iter_entries
proof (relation "measure (\<lambda>(check, recursive, stack, n). pending_weight stack)", simp)
  fix check recursive stack n x m y found pushed
  assume ne: "stack \<noteq> []"
    and x: "scan_dir check recursive (fst (last stack)) (children (snd (last stack))) (Suc n) = Inr x" "(m, y) = x" "(found, pushed) = y"
  then have "pending_weight pushed < weight (snd (last stack))"
    using scan_dir_weight [of check recursive _ _ _ m found pushed] weight_children [of "snd (last stack)"]
    by (metis le_less_trans)
  moreover have "pending_weight stack = pending_weight (butlast stack) + weight (snd (last stack))"
    using append_butlast_last_id [OF ne] pending_weight_simps by (metis add.right_neutral)
  ultimately show "((check, recursive, butlast stack @ pushed, m), check, recursive, stack, n)
      \<in> measure (\<lambda>(check, recursive, stack, n). pending_weight stack)" by simp
qed

declare iter_entries.simps [simp del]

definition entry_shown :: "list_request \<Rightarrow> path \<times> dentry \<Rightarrow> bool" where
  "entry_shown r e \<longleftrightarrow> matches_path_glob (fst e) (lr_glob r)
     \<and> (case lr_cursor r of None \<Rightarrow> True | Some c \<Rightarrow> as_posix (fst e) > c)"

text \<open>The entries of the page, with a check before each.\<close>

fun render_entries :: "check \<Rightarrow> (string \<times> dentry) list \<Rightarrow> nat \<Rightarrow> (nat \<times> json list) res" where
  "render_entries check [] n = Inr (n, [])"
| "render_entries check ((name, d) # ds) n =
     (case check n of
        Some e \<Rightarrow> Inl e
      | None \<Rightarrow> res_map (\<lambda>(m, out). (m, JObj [(''name'', JStr name), (''type'', JStr (entry_type d))] # out)) (render_entries check ds (Suc n)))"

definition list_directory :: "host \<Rightarrow> path \<Rightarrow> (path \<Rightarrow> dentry option) \<Rightarrow> list_timing \<Rightarrow> jobj \<Rightarrow> json res" where
  "list_directory h ws tree tm args =
     res_bind (parse_list_arguments args) (\<lambda>r.
       let check = list_check tm (lr_timeout r) in
       case check 0 of
         Some e \<Rightarrow> Inl e
       | None \<Rightarrow>
           res_bind (resolve_path h ws (lr_path r)) (\<lambda>dir.
             case tree dir of
               Some (DirEntry ds) \<Rightarrow>
                 res_bind (iter_entries check (lr_recursive r) [([], DirEntry ds)] 1) (\<lambda>(n, entries).
                   let candidates = take (Suc (lr_limit r))
                         (sort_key fst (map (\<lambda>(p, d). (as_posix p, d)) (filter (entry_shown r) entries)));
                       more_left = lr_limit r < length candidates;
                       shown = take (lr_limit r) candidates
                   in res_bind (render_entries check shown n) (\<lambda>(m, out).
                      res_bind (display_path ws dir) (\<lambda>display.
                        case check m of
                          Some e \<Rightarrow> Inl e
                        | None \<Rightarrow> Inr (JObj [(''path'', JStr display), (''entries'', JList out), (''has_more'', JBool more_left),
                            (''next_cursor'', if more_left then JStr (fst (last shown)) else JNull)]))))
             | _ \<Rightarrow> Inl (ValueError ''list_directory path must be a directory'')))"


section \<open>What a glob means\<close>

text \<open>The reference: a path matches if it can be cut into blocks, one for each segment of the pattern, where
  \<open>**\<close> stands for any block and every other segment for one name that it matches.\<close>

definition glob_block :: "string \<Rightarrow> string list \<Rightarrow> bool" where
  "glob_block q block \<longleftrightarrow> q = STARSTAR \<or> (\<exists>name. block = [name] \<and> fnmatchcase name q)"

definition glob_denotes :: "string list \<Rightarrow> string list \<Rightarrow> bool" where
  "glob_denotes pats parts \<longleftrightarrow> (\<exists>blocks. parts = concat blocks \<and> list_all2 glob_block pats blocks)"

lemma glob_denotes_Nil [simp]: "glob_denotes [] parts \<longleftrightarrow> parts = []"
  by (simp add: glob_denotes_def)

lemma glob_denotes_Cons:
  "glob_denotes (q # qs) parts \<longleftrightarrow> (\<exists>block rest. parts = block @ rest \<and> glob_block q block \<and> glob_denotes qs rest)"
proof
  assume "glob_denotes (q # qs) parts"
  then obtain b bs where "parts = b @ concat bs" "glob_block q b" "list_all2 glob_block qs bs"
    by (auto simp: glob_denotes_def list_all2_Cons1)
  then show "\<exists>block rest. parts = block @ rest \<and> glob_block q block \<and> glob_denotes qs rest" by (auto simp: glob_denotes_def)
next
  assume "\<exists>block rest. parts = block @ rest \<and> glob_block q block \<and> glob_denotes qs rest"
  then obtain b bs where "parts = b @ concat bs" "glob_block q b" "list_all2 glob_block qs bs" by (auto simp: glob_denotes_def)
  then show "glob_denotes (q # qs) parts" unfolding glob_denotes_def by (intro exI [of _ "b # bs"]) simp
qed

lemma glob_denotes_segment:
  "q \<noteq> STARSTAR \<Longrightarrow> glob_denotes (q # qs) parts \<longleftrightarrow> (\<exists>name rest. parts = name # rest \<and> fnmatchcase name q \<and> glob_denotes qs rest)"
  unfolding glob_denotes_Cons glob_block_def by (metis append_Cons append_Nil)

lemma glob_denotes_star:
  "glob_denotes (STARSTAR # qs) parts \<longleftrightarrow> (\<exists>k \<le> length parts. glob_denotes qs (drop k parts))"
proof
  assume "glob_denotes (STARSTAR # qs) parts"
  then obtain block rest where b: "parts = block @ rest" "glob_denotes qs rest" by (auto simp: glob_denotes_Cons)
  then show "\<exists>k \<le> length parts. glob_denotes qs (drop k parts)" by (intro exI [of _ "length block"]) simp
next
  assume "\<exists>k \<le> length parts. glob_denotes qs (drop k parts)"
  then obtain k where k: "glob_denotes qs (drop k parts)" by blast
  have "parts = take k parts @ drop k parts" by simp
  with k show "glob_denotes (STARSTAR # qs) parts" unfolding glob_denotes_Cons glob_block_def by blast
qed

lemma glob_denotes_star_star: "glob_denotes (STARSTAR # STARSTAR # qs) parts \<longleftrightarrow> glob_denotes (STARSTAR # qs) parts"
proof
  assume "glob_denotes (STARSTAR # STARSTAR # qs) parts"
  then obtain k l where "glob_denotes qs (drop l (drop k parts))" "l \<le> length (drop k parts)" "k \<le> length parts"
    by (auto simp: glob_denotes_star)
  then show "glob_denotes (STARSTAR # qs) parts" unfolding glob_denotes_star by (intro exI [of _ "l + k"]) auto
next
  assume "glob_denotes (STARSTAR # qs) parts"
  then show "glob_denotes (STARSTAR # STARSTAR # qs) parts"
    unfolding glob_denotes_star [of "STARSTAR # qs"] by (intro exI [of _ 0]) simp
qed

lemma skip_stars_denotes:
  "j < length pats \<Longrightarrow> pats ! j = STARSTAR \<Longrightarrow> skip_stars pats j < length pats
     \<and> (glob_denotes (STARSTAR # drop (Suc (skip_stars pats j)) pats) parts \<longleftrightarrow> glob_denotes (drop j pats) parts)"
proof (induction pats j rule: skip_stars.induct)
  case (1 pats j)
  have j: "drop j pats = STARSTAR # drop (Suc j) pats" using 1(2,3) by (metis Cons_nth_drop_Suc)
  show ?case
  proof (cases "Suc j < length pats \<and> pats ! Suc j = STARSTAR")
    case True
    have "drop (Suc j) pats = STARSTAR # drop (Suc (Suc j)) pats" using True by (metis Cons_nth_drop_Suc)
    then show ?thesis using 1(1) [OF True] True j glob_denotes_star_star by (simp add: skip_stars.simps [of pats j])
  next
    case False
    then have "skip_stars pats j = j" by (auto simp: skip_stars.simps [of pats j])
    then show ?thesis using 1(2) j by simp
  qed
qed

lemma drop_shift:
  "i \<le> length xs \<Longrightarrow> (\<exists>k. i \<le> k \<and> k \<le> length xs \<and> P (drop k xs)) \<longleftrightarrow> (\<exists>l \<le> length (drop i xs). P (drop l (drop i xs)))"
proof
  assume "\<exists>k. i \<le> k \<and> k \<le> length xs \<and> P (drop k xs)"
  then obtain k where "i \<le> k" "k \<le> length xs" "P (drop k xs)" by blast
  then show "\<exists>l \<le> length (drop i xs). P (drop l (drop i xs))" by (intro exI [of _ "k - i"]) simp
next
  assume i: "i \<le> length xs" and "\<exists>l \<le> length (drop i xs). P (drop l (drop i xs))"
  then obtain l where "l \<le> length xs - i" "P (drop (l + i) xs)" by auto
  then show "\<exists>k. i \<le> k \<and> k \<le> length xs \<and> P (drop k xs)" using i by (intro exI [of _ "l + i"]) simp
qed

lemma matches_parts_denotes:
  "i \<le> length parts \<Longrightarrow> matches_parts parts pats i j \<longleftrightarrow> glob_denotes (drop j pats) (drop i parts)"
proof (induction parts pats i j rule: matches_parts.induct)
  case (1 parts pats i j)
  consider (finished) "length pats \<le> j" | (star) "j < length pats" "pats ! j = STARSTAR"
    | (segment) "j < length pats" "pats ! j \<noteq> STARSTAR" by linarith
  then show ?case
  proof cases
    case finished
    then show ?thesis using 1(3) by (auto simp: matches_parts.simps [of _ _ _ j])
  next
    case star
    define j' where "j' = skip_stars pats j"
    have d: "j' < length pats" "glob_denotes (drop j pats) (drop i parts) \<longleftrightarrow> glob_denotes (STARSTAR # drop (Suc j') pats) (drop i parts)"
      using skip_stars_denotes [OF star] by (auto simp: j'_def)
    show ?thesis
    proof (cases "Suc j' = length pats")
      case True
      then have "glob_denotes (STARSTAR # drop (Suc j') pats) (drop i parts)"
        unfolding glob_denotes_star by (intro exI [of _ "length (drop i parts)"]) simp
      then show ?thesis using star d True by (simp add: matches_parts.simps [of _ _ _ j] j'_def [symmetric])
    next
      case False
      have "matches_parts parts pats i j \<longleftrightarrow> (\<exists>k. i \<le> k \<and> k \<le> length parts \<and> matches_parts parts pats k (Suc j'))"
        using star False by (auto simp: matches_parts.simps [of _ _ _ j] j'_def [symmetric] list_ex_iff less_Suc_eq_le)
      also have "\<dots> \<longleftrightarrow> (\<exists>k. i \<le> k \<and> k \<le> length parts \<and> glob_denotes (drop (Suc j') pats) (drop k parts))"
        using 1(1) [OF star j'_def False] by (metis atLeastLessThan_iff less_Suc_eq_le set_upt)
      also have "\<dots> \<longleftrightarrow> glob_denotes (STARSTAR # drop (Suc j') pats) (drop i parts)"
        by (simp only: glob_denotes_star drop_shift [OF 1(3)])
      finally show ?thesis using d by simp
    qed
  next
    case segment
    have j: "drop j pats = pats ! j # drop (Suc j) pats" using segment(1) by (rule Cons_nth_drop_Suc [symmetric])
    show ?thesis
    proof (cases "i < length parts \<and> fnmatchcase (parts ! i) (pats ! j)")
      case True
      then have "matches_parts parts pats (Suc i) (Suc j) \<longleftrightarrow> glob_denotes (drop (Suc j) pats) (drop (Suc i) parts)"
        using 1(2) segment by simp
      moreover have "drop i parts = parts ! i # drop (Suc i) parts" using True by (simp add: Cons_nth_drop_Suc)
      ultimately show ?thesis using True segment j by (auto simp: matches_parts.simps [of _ _ _ j] glob_denotes_segment)
    next
      case False
      then have "\<not> matches_parts parts pats i j" using segment by (auto simp: matches_parts.simps [of _ _ _ j])
      moreover have "\<not> (\<exists>name rest. drop i parts = name # rest \<and> fnmatchcase name (pats ! j))"
        using False by (metis drop_eq_Nil2 hd_drop_conv_nth leI list.distinct(1) list.sel(1))
      ultimately show ?thesis using segment(2) j glob_denotes_segment by metis
    qed
  qed
qed


text \<open>C28. A glob matches a path exactly if the path can be cut into blocks, one for each segment of the pattern,
  where \<open>**\<close> stands for any number of names and every other segment for one name that \<open>fnmatchcase\<close> accepts. The
  backtracking matcher of the source is compared with this definition.\<close>

theorem glob_is_denotation:
  assumes "clean_path p" and "p \<noteq> []"
  shows "matches_path_glob p pattern \<longleftrightarrow> glob_denotes (pattern_parts pattern) p"
proof -
  have "py_split (CHR ''/'') (as_posix p) = p"
    using py_split_join [OF assms(2) clean_path_no_sep [OF assms(1)]] assms(2) by (simp add: as_posix_def)
  then show ?thesis using matches_parts_denotes [of 0 p "pattern_parts pattern" 0] by (simp add: matches_path_glob_def)
qed

theorem glob_is_denotation_witness: "glob_denotes (pattern_parts ''src/**/[a-c]?.p*'') [''src'', ''x'', ''y'', ''b1.py'']"
proof -
  have m: "matches_path_glob [''src'', ''x'', ''y'', ''b1.py''] ''src/**/[a-c]?.p*''" by code_simp
  have "clean_path [''src'', ''x'', ''y'', ''b1.py'']" by code_simp
  from glob_is_denotation [OF this] m show ?thesis by simp
qed

section \<open>Paging\<close>

text \<open>All entries below a directory: the reference for the traversal with a stack.\<close>

fun entries_below :: "bool \<Rightarrow> path \<Rightarrow> dentry \<Rightarrow> (path \<times> dentry) list" where
  "entries_below recursive base (DirEntry ds) =
     concat (map (\<lambda>(name, d). (base @ [name], d) # (if recursive then entries_below recursive (base @ [name]) d else [])) ds)"
| "entries_below recursive base _ = []"

fun names_ok :: "dentry \<Rightarrow> bool" where
  "names_ok (DirEntry ds) \<longleftrightarrow> distinct (map fst ds) \<and> list_all (\<lambda>(name, d). clean_segment name \<and> names_ok d) ds"
| "names_ok _ \<longleftrightarrow> True"

abbreviation unhindered :: check where "unhindered \<equiv> \<lambda>_. None"

text \<open>A call that is neither cancelled nor takes as long as the default timeout.\<close>

definition in_time :: "list_timing \<Rightarrow> bool" where
  "in_time tm \<longleftrightarrow> (\<forall>n. \<not> lt_cancelled tm n \<and> lt_now tm n < lt_start tm + 60000000000)"

lemma list_check_in_time: "in_time tm \<Longrightarrow> list_check tm DEFAULT_LIST_TIMEOUT_SECONDS = unhindered"
  by (auto simp: in_time_def list_check_def DEFAULT_LIST_TIMEOUT_SECONDS_def fun_eq_iff not_le)

lemma scan_dir_unhindered:
  "scan_dir unhindered recursive base ds n = Inr (n + length ds, map (\<lambda>(name, d). (base @ [name], d)) ds,
     filter (\<lambda>(_, d). recursive \<and> is_dir_entry d) (map (\<lambda>(name, d). (base @ [name], d)) ds))"
  by (induction ds arbitrary: n) auto

lemma entries_below_nondir: "\<not> is_dir_entry d \<Longrightarrow> entries_below recursive base d = []"
  by (cases d) auto

lemma entries_below_mset:
  "mset (entries_below recursive base d) = mset (map (\<lambda>(name, d). (base @ [name], d)) (children d))
     + mset (concat (map (\<lambda>(p, d). entries_below recursive p d)
         (filter (\<lambda>(_, d). recursive \<and> is_dir_entry d) (map (\<lambda>(name, d). (base @ [name], d)) (children d)))))"
proof (cases d)
  case (DirEntry ds)
  have "mset (concat (map (\<lambda>(name, d). (base @ [name], d) # (if recursive then entries_below recursive (base @ [name]) d else [])) ds))
      = mset (map (\<lambda>(name, d). (base @ [name], d)) ds)
       + mset (concat (map (\<lambda>(p, d). entries_below recursive p d)
           (filter (\<lambda>(_, d). recursive \<and> is_dir_entry d) (map (\<lambda>(name, d). (base @ [name], d)) ds))))"
    by (induction ds) (auto simp: entries_below_nondir)
  then show ?thesis by (simp add: DirEntry)
qed auto

lemma iter_entries_unhindered:
  "\<exists>m found. iter_entries unhindered recursive stack n = Inr (m, found)
     \<and> mset found = mset (concat (map (\<lambda>(p, d). entries_below recursive p d) stack))"
proof (induction "unhindered" recursive stack n rule: iter_entries.induct)
  case (1 recursive stack n)
  show ?case
  proof (cases "stack = []")
    case True
    then show ?thesis by (simp add: iter_entries.simps)
  next
    case False
    obtain base d where l: "last stack = (base, d)" by fastforce
    define found where "found = map (\<lambda>(name, d). (base @ [name], d)) (children d)"
    define pushed where "pushed = filter (\<lambda>(_, d). recursive \<and> is_dir_entry d) found"
    have s: "scan_dir unhindered recursive base (children d) (Suc n) = Inr (Suc n + length (children d), found, pushed)"
      unfolding found_def pushed_def by (rule scan_dir_unhindered)
    obtain m more_found where r: "iter_entries unhindered recursive (butlast stack @ pushed) (Suc n + length (children d)) = Inr (m, more_found)"
        "mset more_found = mset (concat (map (\<lambda>(p, d). entries_below recursive p d) (butlast stack @ pushed)))"
      using 1 [OF False refl] s l by fastforce
    have i: "iter_entries unhindered recursive stack n = Inr (m, found @ more_found)"
      using False s r(1) l by (simp add: iter_entries.simps [of _ _ stack])
    have "mset (entries_below recursive base d) = mset found + mset (concat (map (\<lambda>(p, d). entries_below recursive p d) pushed))"
      unfolding found_def pushed_def by (rule entries_below_mset)
    moreover define front where "front = butlast stack"
    then have "stack = front @ [(base, d)]" using False l by (metis append_butlast_last_id)
    then have "mset (concat (map (\<lambda>(p, d). entries_below recursive p d) stack))
        = mset (concat (map (\<lambda>(p, d). entries_below recursive p d) front)) + mset (entries_below recursive base d)" by simp
    ultimately show ?thesis using i r(2) front_def by (intro exI [of _ m] exI [of _ "found @ more_found"]) simp
  qed
qed

lemma entries_below_prefix: "(p, e) \<in> set (entries_below recursive base d) \<Longrightarrow> \<exists>name rest. p = base @ name # rest"
proof (induction recursive base d arbitrary: p e rule: entries_below.induct)
  case (1 recursive base ds)
  then obtain name d where nd: "(name, d) \<in> set ds"
      "(p, e) = (base @ [name], d) \<or> (recursive \<and> (p, e) \<in> set (entries_below recursive (base @ [name]) d))"
    by (auto split: if_splits)
  then show ?case
  proof (elim disjE conjE)
    assume r: "recursive" "(p, e) \<in> set (entries_below recursive (base @ [name]) d)"
    then show ?case using 1(1) [OF nd(1) refl r] by auto
  qed auto
qed auto


lemma entries_below_clean:
  "names_ok d \<Longrightarrow> (p, e) \<in> set (entries_below recursive base d) \<Longrightarrow> \<exists>rest. p = base @ rest \<and> rest \<noteq> [] \<and> clean_path rest"
proof (induction recursive base d arbitrary: p e rule: entries_below.induct)
  case (1 recursive base ds)
  from 1(3) obtain name d where nd: "(name, d) \<in> set ds"
      "(p, e) = (base @ [name], d) \<or> (recursive \<and> (p, e) \<in> set (entries_below recursive (base @ [name]) d))"
    by (auto split: if_splits)
  have ok: "clean_segment name" "names_ok d" using 1(2) nd(1) by (auto simp: list_all_iff)
  show ?case
  proof (cases "(p, e) = (base @ [name], d)")
    case True
    then show ?thesis using ok by simp
  next
    case False
    then have "recursive" "(p, e) \<in> set (entries_below recursive (base @ [name]) d)" using nd(2) by auto
    then obtain rest where "p = (base @ [name]) @ rest" "clean_path rest" using 1(1) [OF nd(1) refl _ ok(2)] by blast
    then show ?thesis using ok(1) by (intro exI [of _ "name # rest"]) simp
  qed
qed auto

lemma distinct_concat_blocks:
  assumes "distinct (map key xs)" and "\<And>x. x \<in> set xs \<Longrightarrow> distinct (blocks x)"
    and "\<And>x p. x \<in> set xs \<Longrightarrow> p \<in> set (blocks x) \<Longrightarrow> owner p = key x"
  shows "distinct (concat (map blocks xs))"
  using assms
proof (induction xs)
  case (Cons x xs)
  have "set (blocks x) \<inter> set (concat (map blocks xs)) = {}"
  proof (rule equals0I)
    fix p
    assume "p \<in> set (blocks x) \<inter> set (concat (map blocks xs))"
    then obtain y where "p \<in> set (blocks x)" "y \<in> set xs" "p \<in> set (blocks y)" by auto
    then have "key x = key y" using Cons.prems(3) by (metis list.set_intros)
    then show False using Cons.prems(1) \<open>y \<in> set xs\<close> by (simp add: rev_image_eqI)
  qed
  then show ?case using Cons by simp
qed simp

lemma entries_below_distinct: "names_ok d \<Longrightarrow> distinct (map fst (entries_below recursive base d))"
proof (induction recursive base d rule: entries_below.induct)
  case (1 recursive base ds)
  let ?b = "\<lambda>(name, d). map fst ((base @ [name], d) # (if recursive then entries_below recursive (base @ [name]) d else []))"
  have "distinct (concat (map ?b ds))"
  proof (rule distinct_concat_blocks [where key = fst and owner = "\<lambda>p. p ! length base"])
    show "distinct (map fst ds)" using 1(2) by simp
  next
    fix x
    assume x: "x \<in> set ds"
    obtain name d where nd: "x = (name, d)" by fastforce
    have ok: "names_ok d" using 1(2) x nd by (auto simp: list_all_iff)
    have "base @ [name] \<notin> fst ` set (entries_below recursive (base @ [name]) d)"
    proof
      assume "base @ [name] \<in> fst ` set (entries_below recursive (base @ [name]) d)"
      then obtain e where "(base @ [name], e) \<in> set (entries_below recursive (base @ [name]) d)" by auto
      then show False using entries_below_prefix by fastforce
    qed
    moreover have "distinct (map fst (entries_below recursive (base @ [name]) d))" if recursive
      using 1(1) [OF x [unfolded nd] refl that ok] .
    ultimately show "distinct (?b x)" unfolding nd by (cases recursive) simp_all
  next
    fix x p
    assume x: "x \<in> set ds" "p \<in> set (?b x)"
    obtain name d where nd: "x = (name, d)" by fastforce
    have "p = base @ [name] \<or> (\<exists>e. (p, e) \<in> set (entries_below recursive (base @ [name]) d))"
      using x nd by (auto split: if_splits)
    then have "\<exists>rest. p = base @ name # rest" using entries_below_prefix [of p _ recursive "base @ [name]" d] by fastforce
    then show "p ! length base = fst x" using nd by (auto simp: nth_append)
  qed
  moreover have "map fst (entries_below recursive base (DirEntry ds)) = concat (map ?b ds)"
    by (auto simp: map_concat comp_def case_prod_unfold intro!: arg_cong [where f = concat])
  ultimately show ?case by simp
qed auto

text \<open>The listing a caller is after: every matching entry below the directory, sorted by its path.\<close>

definition full_listing :: "string \<Rightarrow> bool \<Rightarrow> dentry \<Rightarrow> (string \<times> dentry) list" where
  "full_listing glob recursive d =
     sort_key fst (map (\<lambda>(p, e). (as_posix p, e)) (filter (\<lambda>(p, e). matches_path_glob p glob) (entries_below recursive [] d)))"

lemma as_posix_inj: "clean_path p \<Longrightarrow> clean_path q \<Longrightarrow> as_posix p = as_posix q \<Longrightarrow> p = q"
  by (metis path_parts_posix)

lemma entry_names_distinct:
  assumes "names_ok d"
  shows "distinct (map (\<lambda>(p, e). as_posix p) (entries_below recursive [] d))"
proof -
  have "inj_on as_posix (fst ` set (entries_below recursive [] d))"
    using entries_below_clean [OF assms, of _ _ recursive "[]"] by (auto intro!: inj_onI as_posix_inj)
  then have "distinct (map as_posix (map fst (entries_below recursive [] d)))"
    using entries_below_distinct [OF assms, of recursive "[]"] by (simp only: distinct_map set_map)
  then show ?thesis by (simp add: comp_def case_prod_unfold)
qed

lemma distinct_sort_keys: "distinct (map f (sort_key f xs)) = distinct (map f xs)"
  by (rule mset_eq_imp_distinct_iff) simp

lemma full_listing_sorted:
  assumes "names_ok d"
  shows "sorted (map fst (full_listing glob recursive d)) \<and> distinct (map fst (full_listing glob recursive d))"
proof -
  have "distinct (map (\<lambda>(p, e). as_posix p) (filter (\<lambda>(p, e). matches_path_glob p glob) (entries_below recursive [] d)))"
    using entry_names_distinct [OF assms] by (rule distinct_map_filter)
  then have "distinct (map fst (map (\<lambda>(p, e). (as_posix p, e)) (filter (\<lambda>(p, e). matches_path_glob p glob) (entries_below recursive [] d))))"
    by (simp add: comp_def case_prod_unfold)
  then show ?thesis unfolding full_listing_def distinct_sort_keys by simp
qed


text \<open>The entries behind a cursor.\<close>

definition behind_cursor :: "string option \<Rightarrow> (string \<times> dentry) list \<Rightarrow> (string \<times> dentry) list" where
  "behind_cursor cursor xs = filter (\<lambda>x. case cursor of None \<Rightarrow> True | Some c \<Rightarrow> fst x > c) xs"

lemma behind_cursor_drop:
  assumes "sorted (map fst xs)" and "distinct (map fst xs)" and "k < length xs"
  shows "behind_cursor (Some (fst (xs ! k))) xs = drop (Suc k) xs"
proof -
  have "\<not> fst x > fst (xs ! k)" if m: "x \<in> set (take (Suc k) xs)" for x
  proof -
    obtain i where "i < length (take (Suc k) xs)" "x = take (Suc k) xs ! i" using m unfolding in_set_conv_nth by blast
    then have "i \<le> k" "x = xs ! i" by simp_all
    then have "fst x \<le> fst (xs ! k)" using assms(1,3) sorted_nth_mono [of "map fst xs" i k] by simp
    then show ?thesis by simp
  qed
  moreover have "fst x > fst (xs ! k)" if m: "x \<in> set (drop (Suc k) xs)" for x
  proof -
    obtain l where "l < length (drop (Suc k) xs)" "x = drop (Suc k) xs ! l" using m unfolding in_set_conv_nth by blast
    then obtain i where i: "k < i" "i < length xs" "x = xs ! i" using assms(3) by (intro that [of "Suc k + l"]) simp_all
    then have "fst (xs ! k) \<le> fst x" using assms(1) sorted_nth_mono [of "map fst xs" k i] by simp
    moreover have "fst (xs ! k) \<noteq> fst x" using i assms(2,3) nth_eq_iff_index_eq [of "map fst xs" k i] by simp
    ultimately show ?thesis by simp
  qed
  ultimately have "filter (\<lambda>x. fst x > fst (xs ! k)) (take (Suc k) xs @ drop (Suc k) xs) = drop (Suc k) xs"
    by (simp only: filter_append) (auto simp: filter_empty_conv filter_id_conv simp del: append_take_drop_id)
  then show ?thesis by (simp add: behind_cursor_def)
qed

lemma render_entries_unhindered:
  "render_entries unhindered ds n = Inr (n + length ds, map (\<lambda>(name, d). JObj [(''name'', JStr name), (''type'', JStr (entry_type d))]) ds)"
  by (induction ds arbitrary: n) auto

lemma candidates_behind_cursor:
  assumes "names_ok d" and "mset found = mset (entries_below (lr_recursive r) [] d)"
  shows "sort_key fst (map (\<lambda>(p, d). (as_posix p, d)) (filter (entry_shown r) found))
    = behind_cursor (lr_cursor r) (full_listing (lr_glob r) (lr_recursive r) d)"
proof -
  let ?f = "\<lambda>(p, d). (as_posix p, d)"
  let ?glob = "filter (\<lambda>(p, e). matches_path_glob p (lr_glob r)) (entries_below (lr_recursive r) [] d)"
  have "behind_cursor (lr_cursor r) (full_listing (lr_glob r) (lr_recursive r) d)
      = sort_key fst (filter (\<lambda>x. case lr_cursor r of None \<Rightarrow> True | Some c \<Rightarrow> fst x > c) (map ?f ?glob))"
    by (simp add: behind_cursor_def full_listing_def filter_sort)
  also have "filter (\<lambda>x. case lr_cursor r of None \<Rightarrow> True | Some c \<Rightarrow> fst x > c) (map ?f ?glob)
      = map ?f (filter (entry_shown r) (entries_below (lr_recursive r) [] d))"
    by (auto simp: filter_map entry_shown_def case_prod_unfold comp_def conj_commute intro!: arg_cong [where f = "map _"] filter_cong split: option.splits)
  finally have b: "behind_cursor (lr_cursor r) (full_listing (lr_glob r) (lr_recursive r) d)
      = sort_key fst (map ?f (filter (entry_shown r) (entries_below (lr_recursive r) [] d)))" .
  have d: "distinct (map fst (map ?f (entries_below (lr_recursive r) [] d)))"
    using entry_names_distinct [OF assms(1)] by (simp add: comp_def case_prod_unfold)
  have set: "set found = set (entries_below (lr_recursive r) [] d)" using assms(2) by (rule mset_eq_setD)
  have "inj_on fst (?f ` set (entries_below (lr_recursive r) [] d))" using d by (simp only: distinct_map set_map)
  then have "inj_on fst (set (map ?f (filter (entry_shown r) found)))" by (rule inj_on_subset) (auto simp: set)
  moreover have "mset (map ?f (filter (entry_shown r) found)) = mset (map ?f (filter (entry_shown r) (entries_below (lr_recursive r) [] d)))"
    using assms(2) by simp
  ultimately show ?thesis unfolding b by (intro sort_key_inj_key_eq) simp_all
qed


text \<open>A caller that follows the cursors.\<close>

fun page_through :: "(string option \<Rightarrow> json res) \<Rightarrow> nat \<Rightarrow> string option \<Rightarrow> json list option" where
  "page_through call 0 cursor = None"
| "page_through call (Suc fuel) cursor =
     (case call cursor of
        Inr (JObj d) \<Rightarrow>
          (case jget d ''entries'' of
             JList es \<Rightarrow>
               (case jget d ''next_cursor'' of
                  JStr c \<Rightarrow> map_option ((@) es) (page_through call fuel (Some c))
                | JNull \<Rightarrow> Some es
                | _ \<Rightarrow> None)
           | _ \<Rightarrow> None)
      | _ \<Rightarrow> None)"

definition list_args :: "string \<Rightarrow> string \<Rightarrow> bool \<Rightarrow> nat \<Rightarrow> string option \<Rightarrow> jobj" where
  "list_args path glob recursive limit cursor =
     [(''path'', JStr path), (''glob'', JStr glob), (''recursive'', JBool recursive), (''limit'', JInt (int limit))]
     @ (case cursor of None \<Rightarrow> [] | Some c \<Rightarrow> [(''cursor'', JStr c)])"

definition entry_json :: "string \<times> dentry \<Rightarrow> json" where
  "entry_json e = JObj [(''name'', JStr (fst e)), (''type'', JStr (entry_type (snd e)))]"

lemma parse_list_args:
  assumes "path \<noteq> []" and "glob \<noteq> []" and "1 \<le> limit" and "limit \<le> MAX_LIST_LIMIT" and "cursor \<noteq> Some []"
  shows "parse_list_arguments (list_args path glob recursive limit cursor) = Inr \<lparr>lr_path = path, lr_glob = glob,
    lr_recursive = recursive, lr_cursor = cursor, lr_limit = limit, lr_timeout = DEFAULT_LIST_TIMEOUT_SECONDS\<rparr>"
proof -
  obtain c cs g gs where "path = c # cs" "glob = g # gs" using assms(1,2) by (meson neq_Nil_conv)
  then show ?thesis using assms(3-5)
    by (cases cursor) (auto simp: parse_list_arguments_def list_args_def jget_def arg_or_def neq_Nil_conv DEFAULT_LIST_TIMEOUT_SECONDS_def)
qed

definition page_of :: "(string \<times> dentry) list \<Rightarrow> nat \<Rightarrow> string \<Rightarrow> json" where
  "page_of xs limit display = JObj [(''path'', JStr display), (''entries'', JList (map entry_json (take limit xs))),
     (''has_more'', JBool (limit < length xs)),
     (''next_cursor'', if limit < length xs then JStr (fst (last (take limit xs))) else JNull)]"

lemma list_directory_page:
  assumes "names_ok (DirEntry ds)" and "tree dir = Some (DirEntry ds)" and "resolve_path h ws path = Inr dir"
    and "display_path ws dir = Inr display" and "path \<noteq> []" and "glob \<noteq> []" and "1 \<le> limit" and "limit \<le> MAX_LIST_LIMIT" and "cursor \<noteq> Some []"
    and "in_time tm"
  shows "list_directory h ws tree tm (list_args path glob recursive limit cursor)
    = Inr (page_of (behind_cursor cursor (full_listing glob recursive (DirEntry ds))) limit display)"
proof -
  obtain m found where i: "iter_entries unhindered recursive [([], DirEntry ds)] 1 = Inr (m, found)"
      "mset found = mset (entries_below recursive [] (DirEntry ds))"
    using iter_entries_unhindered [of recursive "[([], DirEntry ds)]" 1] by auto
  define r where "r = \<lparr>lr_path = path, lr_glob = glob, lr_recursive = recursive, lr_cursor = cursor, lr_limit = limit,
    lr_timeout = DEFAULT_LIST_TIMEOUT_SECONDS\<rparr>"
  define xs where "xs = behind_cursor cursor (full_listing glob recursive (DirEntry ds))"
  have p: "parse_list_arguments (list_args path glob recursive limit cursor) = Inr r"
    unfolding r_def using assms(5-9) by (rule parse_list_args)
  have c: "sort_key fst (map (\<lambda>(p, d). (as_posix p, d)) (filter (entry_shown r) found)) = xs"
    using candidates_behind_cursor [OF assms(1), of found r] i(2) by (simp add: r_def xs_def)
  have r: "lr_path r = path" "lr_recursive r = recursive" "lr_limit r = limit" by (simp_all add: r_def)
  have t: "take limit (take (Suc limit) xs) = take limit xs" "limit < length (take (Suc limit) xs) \<longleftrightarrow> limit < length xs"
    by (auto simp: min_def)
  have e: "(\<lambda>(name, d). JObj [(''name'', JStr name), (''type'', JStr (entry_type d))]) = entry_json"
    by (auto simp: entry_json_def fun_eq_iff)
  have k: "list_check tm (lr_timeout r) = unhindered" using list_check_in_time [OF assms(10)] by (simp add: r_def)
  show ?thesis unfolding xs_def [symmetric] page_of_def list_directory_def p
    by (simp only: k res_bind.simps option.case assms(2,3) dentry.case i(1) prod.case c r t e Let_def render_entries_unhindered assms(4))
qed

lemma page_through_from:
  assumes call: "\<And>cursor. cursor \<noteq> Some [] \<Longrightarrow> call cursor = Inr (page_of (behind_cursor cursor xs) limit display)"
    and sorted: "sorted (map fst xs)" "distinct (map fst xs)" and names: "[] \<notin> fst ` set xs" and limit: "1 \<le> limit"
  shows "k = 0 \<and> cursor = None \<or> 0 < k \<and> k \<le> length xs \<and> cursor = Some (fst (xs ! (k - 1))) \<Longrightarrow> length xs - k < fuel
    \<Longrightarrow> page_through call fuel cursor = Some (map entry_json (drop k xs))"
proof (induction fuel arbitrary: k cursor)
  case (Suc fuel)
  have left: "behind_cursor cursor xs = drop k xs"
    using Suc.prems(1) behind_cursor_drop [OF sorted, of "k - 1"] by (auto simp: behind_cursor_def)
  have "cursor \<noteq> Some []"
  proof
    assume "cursor = Some []"
    then have "xs ! (k - 1) \<in> set xs" "fst (xs ! (k - 1)) = []" using Suc.prems(1) by auto
    then show False using names by (metis imageI)
  qed
  then have c: "call cursor = Inr (page_of (drop k xs) limit display)" using call left by simp
  show ?case
  proof (cases "limit < length (drop k xs)")
    case False
    then show ?thesis by (simp add: c page_of_def jget_def)
  next
    case True
    have l: "last (take limit (drop k xs)) = xs ! (k + limit - 1)"
      using True limit by (subst last_conv_nth) (auto simp: min_def)
    have "page_through call fuel (Some (fst (xs ! (k + limit - 1)))) = Some (map entry_json (drop (k + limit) xs))"
      using Suc.IH [of "k + limit" "Some (fst (xs ! (k + limit - 1)))"] True limit Suc.prems by auto
    moreover have "map entry_json (take limit (drop k xs)) @ map entry_json (drop (k + limit) xs) = map entry_json (drop k xs)"
      by (metis add.commute append_take_drop_id drop_drop map_append)
    ultimately show ?thesis using True l by (simp add: c page_of_def jget_def)
  qed
qed simp

text \<open>C27. Paging through a directory lists every entry once. A caller that follows \<open>next_cursor\<close> from the first page
  to the last, on a tree that does not change and within the time limit, is given every entry below the directory that matches the glob,
  in the order of the paths, none left out and none twice, whatever the page size; and it needs at most one
  call more than there are entries.\<close>

theorem paging_lists_everything:
  assumes "realpath_canonical h" and "ws_ok h ws" and "resolve_path h ws path = Inr dir" and "tree dir = Some (DirEntry ds)"
    and "names_ok (DirEntry ds)" and "path \<noteq> []" and "glob \<noteq> []" and "1 \<le> limit" and "limit \<le> MAX_LIST_LIMIT"
    and "\<And>cursor. in_time (tm cursor)"
  shows "page_through (\<lambda>cursor. list_directory h ws tree (tm cursor) (list_args path glob recursive limit cursor))
      (Suc (length (full_listing glob recursive (DirEntry ds)))) None
    = Some (map entry_json (full_listing glob recursive (DirEntry ds)))"
proof -
  let ?xs = "full_listing glob recursive (DirEntry ds)"
  obtain display where d: "display_path ws dir = Inr display" using resolve_path_within [OF assms(1-3)] by metis
  have call: "list_directory h ws tree (tm cursor) (list_args path glob recursive limit cursor)
      = Inr (page_of (behind_cursor cursor ?xs) limit display)" if "cursor \<noteq> Some []" for cursor
    using list_directory_page [where tree = tree and dir = dir, OF assms(5,4,3) d assms(6-9) that assms(10)] .
  have "[] \<notin> fst ` set ?xs"
  proof
    assume "[] \<in> fst ` set ?xs"
    then obtain p e where "(p, e) \<in> set (entries_below recursive [] (DirEntry ds))" "as_posix p = []"
      by (auto simp: full_listing_def simp del: entries_below.simps)
    then have "p \<noteq> []" "clean_path p" using entries_below_clean [OF assms(5), of p e recursive "[]"] by auto
    then have "path_parts [] = p" using path_parts_posix [of p] \<open>as_posix p = []\<close> by simp
    then show False using \<open>p \<noteq> []\<close> by (simp add: path_parts_def)
  qed
  then show ?thesis
    using page_through_from [where xs = ?xs and k = 0 and cursor = None, OF call] full_listing_sorted [OF assms(5)] assms(8) by (simp del: page_through.simps)
qed


definition demo_tree :: "path \<Rightarrow> dentry option" where
  "demo_tree p = (if p = [''w''] then Some (DirEntry [(''b'', FileEntry), (''a'', DirEntry [(''x.py'', FileEntry), (''l'', LinkEntry)])]) else None)"

definition demo_timing :: list_timing where
  "demo_timing = \<lparr>lt_start = 5, lt_now = (\<lambda>_. 6), lt_cancelled = (\<lambda>_. False)\<rparr>"

lemma demo_in_time: "in_time demo_timing"
  by (simp add: in_time_def demo_timing_def)

theorem paging_lists_everything_witness:
  "page_through (\<lambda>cursor. list_directory demo_host [''w''] demo_tree demo_timing (list_args ''.'' ''**'' True 1 cursor)) 5 None
     = Some (map entry_json [(''a'', DirEntry [(''x.py'', FileEntry), (''l'', LinkEntry)]), (''a/l'', LinkEntry), (''a/x.py'', FileEntry), (''b'', FileEntry)])"
proof -
  have r: "resolve_path demo_host [''w''] ''.'' = Inr [''w'']" by code_simp
  have t: "demo_tree [''w''] = Some (DirEntry [(''b'', FileEntry), (''a'', DirEntry [(''x.py'', FileEntry), (''l'', LinkEntry)])])"
    by (simp add: demo_tree_def)
  have n: "names_ok (DirEntry [(''b'', FileEntry), (''a'', DirEntry [(''x.py'', FileEntry), (''l'', LinkEntry)])])" by code_simp
  have l: "full_listing ''**'' True (DirEntry [(''b'', FileEntry), (''a'', DirEntry [(''x.py'', FileEntry), (''l'', LinkEntry)])])
      = [(''a'', DirEntry [(''x.py'', FileEntry), (''l'', LinkEntry)]), (''a/l'', LinkEntry), (''a/x.py'', FileEntry), (''b'', FileEntry)]"
    by code_simp
  have g: "1 \<le> MAX_LIST_LIMIT" by (simp add: MAX_LIST_LIMIT_def)
  have five: "Suc (length [(''a'', DirEntry [(''x.py'', FileEntry), (''l'', LinkEntry)]), (''a/l'', LinkEntry), (''a/x.py'', FileEntry), (''b'', FileEntry)]) = 5"
    by simp
  have "''.'' \<noteq> []" "''**'' \<noteq> []" by simp_all
  from paging_lists_everything [where tree = demo_tree and recursive = True, OF demo_host_ok r t n this le_refl g demo_in_time]
  show ?thesis unfolding l five .
qed

end
