(* ===== verification/Schedule_Tool.thy ===== *)
theory Schedule_Tool
  imports Scheduler Session_Store
begin

text \<open>
  The \<open>scheduled_task\<close> tool (\<open>agent_core/tools/builtin/schedule.py\<close>): the tool through which an Agent makes, changes,
  lists and deletes scheduled tasks, on the store of Sessions and the scheduler.

  \<^item> \<open>task_context\<close> has the fields of the tool's context that it reads. The Session writer of another Session
    (\<open>session_permissions\<close>) is a context manager of the Runtime: entering it, setting a preset and leaving it are
    operations on the store.
  \<^item> \<open>task_env\<close> has what a call draws from outside: the clock, the new identifiers, the time zones, the JSON library.
\<close>

section \<open>The tool\<close>

record perm_manager =
  pm_enter :: "string \<Rightarrow> store \<Rightarrow> store outcome"
  pm_set :: "string \<Rightarrow> preset \<Rightarrow> store \<Rightarrow> store outcome"
  pm_exit :: "string \<Rightarrow> store \<Rightarrow> store"

record task_context =
  tx_scheduler :: bool
  tx_router :: "authority option"
  tx_execution :: "authority option"
  tx_workspace :: string
  tx_session_id :: string
  tx_session_preset :: preset
  tx_permissions :: "perm_manager option"

record task_env =
  te_lib :: json_lib
  te_zones :: zones
  te_now :: aware
  te_abspath :: "string \<Rightarrow> string"
  te_resolve :: "string \<Rightarrow> string"
  te_session_id :: string
  te_schedule_id :: string

record task_world =
  tw_store :: store
  tw_service :: scheduler

definition task_available :: "task_context \<Rightarrow> bool" where
  "task_available cx \<longleftrightarrow> tx_scheduler cx \<and> tx_router cx \<noteq> None"

definition task_service :: "task_context \<Rightarrow> unit res" where
  "task_service cx = (if tx_scheduler cx then Inr () else Inl (RuntimeError ''scheduler is unavailable''))"

definition definition_authority :: "task_context \<Rightarrow> authority res" where
  "definition_authority cx =
     (case tx_router cx of None \<Rightarrow> Inl (RuntimeError ''scheduled task execution router is unavailable'') | Some a \<Rightarrow> Inr a)"

definition execution_authority :: "task_context \<Rightarrow> authority res" where
  "execution_authority cx =
     (case tx_execution cx of None \<Rightarrow> Inl (RuntimeError ''scheduled task execution was not resolved'') | Some a \<Rightarrow> Inr a)"

text \<open>The presets that the definition of the tool offers.\<close>

definition offered_presets :: "task_context \<Rightarrow> preset list res" where
  "offered_presets cx =
     res_map (\<lambda>a. [ASK_FOR_APPROVAL, WORKSPACE_ACCESS] @ (if allows_unattended a HOST then [FULL_ACCESS] else []))
       (definition_authority cx)"

definition parse_permission_preset :: "json \<Rightarrow> task_context \<Rightarrow> preset res" where
  "parse_permission_preset v cx =
     (case (case v of JStr s \<Rightarrow> preset_of s | _ \<Rightarrow> Inl (ValueError ''preset'')) of
        Inl _ \<Rightarrow> Inl (ValueError (''permission_preset must be '' @ quoted ''ask_for_approval'' @ '', '' @ quoted ''workspace_access''
          @ '', or '' @ quoted ''full_access''))
      | Inr p \<Rightarrow>
          if p = FULL_ACCESS then
            res_bind (execution_authority cx) (\<lambda>a.
              if allows_unattended a HOST then Inr p
              else Inl (PermissionError ''Full Access scheduled tasks require Full Access''))
          else Inr p)"

definition reject_unknown :: "string list \<Rightarrow> jobj \<Rightarrow> unit res" where
  "reject_unknown allowed d =
     (let unknown = unknown_fields allowed d in
      if unknown \<noteq> [] then Inl (ValueError (''unsupported argument(s): '' @ py_join '', '' unknown)) else Inr ())"

text \<open>A change of the store inside a world; \<open>then_do\<close> goes on where it succeeded.\<close>

definition on_store :: "(store \<Rightarrow> store outcome) \<Rightarrow> task_world \<Rightarrow> (task_world \<Rightarrow> task_world \<times> 'a res) \<Rightarrow> task_world \<times> 'a res" where
  "on_store f w k =
     (case f (tw_store w) of
        (st, None) \<Rightarrow> k (w\<lparr>tw_store := st\<rparr>)
      | (st, Some e) \<Rightarrow> (w\<lparr>tw_store := st\<rparr>, Inl e))"

definition task_try :: "task_world \<Rightarrow> 'b res \<Rightarrow> ('b \<Rightarrow> task_world \<times> 'a res) \<Rightarrow> task_world \<times> 'a res" where
  "task_try w r k = (case r of Inl e \<Rightarrow> (w, Inl e) | Inr x \<Rightarrow> k x)"

definition task_create :: "task_env \<Rightarrow> task_context \<Rightarrow> jobj \<Rightarrow> task_world \<Rightarrow> task_world \<times> json res" where
  "task_create env cx args w =
     task_try w (reject_unknown [''action'', ''schedule''] args) (\<lambda>_.
       case jget args ''schedule'' of
         JObj data \<Rightarrow>
           task_try w (reject_unknown [''prompt'', ''trigger'', ''end_at'', ''permission_preset''] data) (\<lambda>_.
           task_try w (parse_schedule_prompt_input (jget data ''prompt'')) (\<lambda>prompt.
           task_try w (parse_trigger_input (te_zones env) (jget data ''trigger'')) (\<lambda>trigger.
           task_try w (parse_end_at_input (jget data ''end_at'')) (\<lambda>end_at.
           task_try w (parse_permission_preset (case map_of data ''permission_preset'' of
               None \<Rightarrow> JStr (preset_value (tx_session_preset cx)) | Some v \<Rightarrow> v) cx) (\<lambda>preset.
             on_store (bind_workspace (te_lib env) (te_abspath env) (te_session_id env) (tx_workspace cx)) w (\<lambda>w1.
             on_store (store_permission_preset (te_lib env) (te_abspath env) (te_session_id env) preset (tx_workspace cx)) w1 (\<lambda>w2.
             task_try w2 (provider_for (te_lib env) (tx_session_id cx) (tw_store w2)) (\<lambda>provider.
             on_store (case provider of None \<Rightarrow> (\<lambda>st. (st, None))
                 | Some p \<Rightarrow> set_provider (te_lib env) (te_abspath env) (te_session_id env) p (tx_workspace cx)) w2 (\<lambda>w3.
             task_try w3 (task_service cx) (\<lambda>_.
             task_try w3 (create_schedule (te_lib env) (te_zones env) (te_now env) (te_schedule_id env) (te_resolve env) trigger
                 (JStr prompt) (tx_workspace cx) (tx_session_id cx) (te_session_id env) end_at (tw_service w3)) (\<lambda>(sv, s).
               (w3\<lparr>tw_service := sv\<rparr>, Inr (JObj [(''schedule_id'', JStr (sd_id s)), (''schedule_session_id'', JStr (sd_session_id s)),
                 (''workspace'', JStr (sd_workspace s)), (''permission_preset'', JStr (preset_value preset)),
                 (''next_run_at'', dt (sd_next_run_at s))])))))))))))))
       | _ \<Rightarrow> (w, Inl (ValueError ''schedule must be an object'')))"

definition updated_result :: "task_env \<Rightarrow> task_world \<Rightarrow> schedule \<Rightarrow> json res" where
  "updated_result env w s =
     res_map (\<lambda>p. JObj [(''schedule_id'', JStr (sd_id s)), (''schedule_session_id'', JStr (sd_session_id s)),
         (''trigger'', JObj (trigger_to_dict (sd_trigger s))), (''permission_preset'', JStr (preset_value p)), (''enabled'', JBool (sd_enabled s)),
         (''end_at'', dt (sd_end_at s)), (''next_run_at'', dt (sd_next_run_at s))])
       (permission_preset_for (te_lib env) (sd_session_id s) (tw_store w))"

definition no_changes :: "schedule_update \<Rightarrow> bool" where
  "no_changes u \<longleftrightarrow> su_prompt u = None \<and> su_trigger u = None \<and> su_enabled u = None \<and> su_end_at u = None"

definition service_update :: "task_env \<Rightarrow> json \<Rightarrow> schedule_update \<Rightarrow> task_world \<Rightarrow> task_world \<times> schedule res" where
  "service_update env sid u w =
     (case update_schedule (te_lib env) (te_zones env) (te_now env) sid u (tw_service w) of
        Inl e \<Rightarrow> (w, Inl e)
      | Inr (sv, s) \<Rightarrow> (w\<lparr>tw_service := sv\<rparr>, Inr s))"

text \<open>The body of the \<open>with\<close> statement: the schedule first, if it changes, then the preset; the writer is left in any case.\<close>

definition update_with_preset :: "task_env \<Rightarrow> perm_manager \<Rightarrow> json \<Rightarrow> schedule_update \<Rightarrow> preset \<Rightarrow> schedule \<Rightarrow> task_world \<Rightarrow> task_world \<times> schedule res" where
  "update_with_preset env pm sid u p s w =
     on_store (pm_enter pm (sd_session_id s)) w (\<lambda>w1.
       case (if no_changes u then (w1, Inr s) else service_update env sid u w1) of
         (w2, Inl e) \<Rightarrow> (w2\<lparr>tw_store := pm_exit pm (sd_session_id s) (tw_store w2)\<rparr>, Inl e)
       | (w2, Inr s') \<Rightarrow>
           (case pm_set pm (sd_session_id s) p (tw_store w2) of
              (st, None) \<Rightarrow> (w2\<lparr>tw_store := pm_exit pm (sd_session_id s) st\<rparr>, Inr s')
            | (st, Some e) \<Rightarrow> (w2\<lparr>tw_store := pm_exit pm (sd_session_id s) st\<rparr>, Inl e)))"

definition apply_update :: "task_env \<Rightarrow> task_context \<Rightarrow> string \<Rightarrow> schedule_update \<Rightarrow> preset option \<Rightarrow> task_world \<Rightarrow> task_world \<times> schedule res" where
  "apply_update env cx sid u preset w =
     (case preset of
        None \<Rightarrow> service_update env (JStr sid) u w
      | Some p \<Rightarrow>
          task_try w (sv_reload (te_lib env) (te_zones env) (te_now env) (tw_service w)) (\<lambda>sv.
          task_try (w\<lparr>tw_service := sv\<rparr>) (known_schedule sid sv) (\<lambda>s.
            case tx_permissions cx of
              None \<Rightarrow> (w\<lparr>tw_service := sv\<rparr>, Inl (RuntimeError ''session permission control is unavailable''))
            | Some pm \<Rightarrow> update_with_preset env pm (JStr sid) u p s (w\<lparr>tw_service := sv\<rparr>))))"

definition task_update :: "task_env \<Rightarrow> task_context \<Rightarrow> jobj \<Rightarrow> task_world \<Rightarrow> task_world \<times> json res" where
  "task_update env cx args w =
     task_try w (reject_unknown [''action'', ''schedule_id'', ''changes''] args) (\<lambda>_.
     task_try w (parse_schedule_id_input (jget args ''schedule_id'')) (\<lambda>sid.
       case jget args ''changes'' of
         JObj (c # cs) \<Rightarrow>
           task_try w (parse_schedule_update_input (te_zones env) (JObj (filter (\<lambda>kv. fst kv \<noteq> ''permission_preset'') (c # cs)))) (\<lambda>u.
           task_try w (case map_of (c # cs) ''permission_preset'' of None \<Rightarrow> Inr None
               | Some v \<Rightarrow> res_map Some (parse_permission_preset v cx)) (\<lambda>preset.
           task_try w (task_service cx) (\<lambda>_.
             case apply_update env cx sid u preset w of
               (w1, Inl e) \<Rightarrow> (w1, Inl e)
             | (w1, Inr s) \<Rightarrow> (w1, updated_result env w1 s))))
       | _ \<Rightarrow> (w, Inl (ValueError ''changes must be a non-empty object''))))"

definition listed_schedule :: "task_env \<Rightarrow> task_world \<Rightarrow> schedule \<Rightarrow> json res" where
  "listed_schedule env w s =
     res_map (\<lambda>p. JObj [(''schedule_id'', JStr (sd_id s)), (''prompt'', JStr (sd_prompt s)), (''trigger'', JObj (trigger_to_dict (sd_trigger s))),
         (''workspace'', JStr (sd_workspace s)), (''permission_preset'', JStr (preset_value p)), (''enabled'', JBool (sd_enabled s)),
         (''end_at'', dt (sd_end_at s)), (''next_run_at'', dt (sd_next_run_at s))])
       (permission_preset_for (te_lib env) (sd_session_id s) (tw_store w))"

definition task_list :: "task_env \<Rightarrow> task_context \<Rightarrow> task_world \<Rightarrow> task_world \<times> json res" where
  "task_list env cx w =
     task_try w (task_service cx) (\<lambda>_.
     task_try w (sv_reload (te_lib env) (te_zones env) (te_now env) (tw_service w)) (\<lambda>sv.
       (w\<lparr>tw_service := sv\<rparr>, res_map JList (res_list (listed_schedule env w) (map snd (sv_schedules sv))))))"

definition scheduled_task :: "task_env \<Rightarrow> task_context \<Rightarrow> jobj \<Rightarrow> task_world \<Rightarrow> task_world \<times> json res" where
  "scheduled_task env cx args w =
     (if jget args ''action'' = JStr ''create'' then task_create env cx args w
      else if jget args ''action'' = JStr ''update'' then task_update env cx args w
      else if jget args ''action'' = JStr ''list'' then
        task_try w (reject_unknown [''action''] args) (\<lambda>_. task_list env cx w)
      else if jget args ''action'' = JStr ''delete'' then
        task_try w (reject_unknown [''action'', ''schedule_id''] args) (\<lambda>_.
        task_try w (parse_schedule_id_input (jget args ''schedule_id'')) (\<lambda>sid.
        task_try w (task_service cx) (\<lambda>_.
        task_try w (delete_schedule (te_lib env) (te_zones env) (te_now env) (JStr sid) (tw_service w)) (\<lambda>sv.
          (w\<lparr>tw_service := sv\<rparr>, Inr (JObj [(''schedule_id'', JStr sid), (''deleted'', JBool True)]))))))
      else (w, Inl (ValueError ''action must be create, update, list, or delete'')))"


section \<open>What the tool does to the store\<close>

definition task_docs :: "preset \<Rightarrow> string option \<Rightarrow> jobj list" where
  "task_docs p provider =
     (let m = AList.update ''permission_preset'' (JStr (preset_value p)) new_session_metadata in
      [new_session_metadata, m] @ (case provider of None \<Rightarrow> [] | Some v \<Rightarrow> [AList.update ''provider'' (JStr v) m]))"

definition task_dir :: "task_env \<Rightarrow> task_context \<Rightarrow> dir_path" where
  "task_dir env cx = (workspace_key (te_abspath env) (tx_workspace cx), te_session_id env)"

lemma write_ensure [simp]: "write_session_metadata lib k m (ensure_dir k st) = write_session_metadata lib k m st"
  by (auto simp: write_session_metadata_def put_metadata_def ensure_dir_def put_dir_def update_twice journal_at_def dir_at_def split: option.splits)

lemma write_twice [simp]: "write_session_metadata lib k m (write_session_metadata lib k m' st) = write_session_metadata lib k m st"
  by (auto simp: write_session_metadata_def put_metadata_def put_dir_def update_twice journal_at_def dir_at_def split: option.splits)

lemma ensure_written [simp]: "ensure_dir k (write_session_metadata lib k m st) = write_session_metadata lib k m st"
  by (simp add: ensure_dir_def write_session_metadata_def put_metadata_def)

lemma filter_update_other: "(\<And>d. \<not> P (k, d)) \<Longrightarrow> filter P (AList.update k d xs) = filter P xs"
  by (induction xs) auto

lemma filter_update_new: "filter P xs = [] \<Longrightarrow> P (k, d) \<Longrightarrow> filter P (AList.update k d xs) = [(k, d)]"
  by (induction xs) (auto split: if_splits)

lemma find_write_other:
  "st_grouped st \<Longrightarrow> s \<noteq> snd k \<Longrightarrow> find_session_directory s (write_session_metadata lib k m st) = find_session_directory s st"
  by (subst (1 2) find_session_directory_def)
    (simp add: write_session_metadata_def put_metadata_def put_dir_def filter_update_other)

lemma find_write_new:
  assumes "st_grouped st" and "find_session_directory (snd k) st = None" and "fst k \<noteq> []"
  shows "find_session_directory (snd k) (write_session_metadata lib k m st) = Some k"
proof -
  let ?P = "\<lambda>(k', d). fst k' \<noteq> [] \<and> snd k' = snd k \<and> (dr_journal d \<noteq> None \<or> dr_metadata d \<noteq> None)"
  have "filter ?P (st_dirs st) = []" using assms(1,2) by (auto simp: find_session_directory_def split: list.splits)
  then show ?thesis
    using assms(1,3) filter_update_new [of ?P "st_dirs st" k]
    by (simp add: find_session_directory_def write_session_metadata_def put_metadata_def put_dir_def)
qed

lemma find_session_key:
  assumes "st_grouped st" and "find_session_directory s st = Some k"
  shows "snd k = s"
proof -
  let ?P = "\<lambda>(k, d). fst k \<noteq> [] \<and> snd k = s \<and> (dr_journal d \<noteq> None \<or> dr_metadata d \<noteq> None)"
  obtain d rest where f: "filter ?P (st_dirs st) = (k, d) # rest"
    using assms by (auto simp: find_session_directory_def split: list.splits)
  then have "(k, d) \<in> set (filter ?P (st_dirs st))" by simp
  then show ?thesis by simp
qed

lemma preset_write_other:
  assumes "st_grouped st" and "s \<noteq> snd k"
  shows "permission_preset_for lib s (write_session_metadata lib k m st) = permission_preset_for lib s st"
    "provider_for lib s (write_session_metadata lib k m st) = provider_for lib s st"
proof -
  have "session_metadata lib k' (write_session_metadata lib k m st) = session_metadata lib k' st"
    if "find_session_directory s st = Some k'" for k'
  proof -
    have "k' \<noteq> k" using find_session_key [OF assms(1) that] assms(2) by auto
    then show ?thesis
      by (simp add: session_metadata_def metadata_at_def write_session_metadata_def put_metadata_def)
  qed
  moreover have "st_grouped (write_session_metadata lib k m st) = st_grouped st"
    by (simp add: write_session_metadata_def put_metadata_def put_dir_def)
  ultimately show "permission_preset_for lib s (write_session_metadata lib k m st) = permission_preset_for lib s st"
    "provider_for lib s (write_session_metadata lib k m st) = provider_for lib s st"
    using find_write_other [OF assms, of lib m]
    by (auto simp: permission_preset_for_def provider_for_def stored_preset_def split: option.split)
qed

lemma preset_write_new:
  assumes "st_grouped st" and "find_session_directory (snd k) st = None" and "fst k \<noteq> []" and "doc_safe lib (JObj m)"
    and "jget m ''permission_preset'' = JNull \<or> jget m ''permission_preset'' = JStr (preset_value p)"
    and "permission_preset_for lib (snd k) (write_session_metadata lib k m st) = Inr FULL_ACCESS"
  shows "p = FULL_ACCESS"
  using assms(5,6) metadata_roundtrip [OF assms(4), of k st] find_write_new [OF assms(1-3), of lib m]
  by (cases "validate_session_id (snd k)") (auto simp: permission_preset_for_def stored_preset_def py_str_def)

lemma task_docs_preset:
  "m \<in> set (task_docs p provider) \<Longrightarrow> jget m ''permission_preset'' = JNull \<or> jget m ''permission_preset'' = JStr (preset_value p)"
  by (auto simp: task_docs_def Let_def jget_def new_session_metadata_def split: option.splits)

text \<open>The store before any of it, or with one of the documents in the directory of the new Session.\<close>

definition task_store :: "task_env \<Rightarrow> task_context \<Rightarrow> jobj list \<Rightarrow> store \<Rightarrow> store \<Rightarrow> bool" where
  "task_store env cx docs st st' \<longleftrightarrow> st' = st \<or> (\<exists>m \<in> set docs. st' = write_session_metadata (te_lib env) (task_dir env cx) m st)"

lemma bind_new_session:
  assumes "abspath_ok abspath" and "st_grouped st" and "dict_ok (st_dirs st)" and "find_session_directory sid st = None"
    and "bind_workspace lib abspath sid w st = (st', r)"
  shows "st' = st \<and> r \<noteq> None \<or> validate_session_id sid = Inr () \<and> r = None
    \<and> st' = write_session_metadata lib (workspace_key abspath w, sid) new_session_metadata st"
proof (cases "validate_session_id sid")
  case (Inl e)
  then show ?thesis using assms(5) by (auto simp: bind_workspace_def)
next
  case (Inr u)
  let ?k = "(workspace_key abspath w, sid)"
  let ?P = "\<lambda>(k, d). fst k \<noteq> [] \<and> snd k = sid \<and> (dr_journal d \<noteq> None \<or> dr_metadata d \<noteq> None)"
  have none: "filter ?P (st_dirs st) = []" using assms(2,4) by (auto simp: find_session_directory_def split: list.splits)
  have "metadata_at ?k st = None"
  proof (rule ccontr)
    assume "metadata_at ?k st \<noteq> None"
    then obtain d where "dir_at ?k st = Some d" "dr_metadata d \<noteq> None" by (auto simp: metadata_at_def split: option.splits)
    then have "(?k, d) \<in> set (filter ?P (st_dirs st))"
      using workspace_key_not_Nil [OF assms(1)] by (simp add: dir_at_def map_of_SomeD)
    then show False unfolding none by simp
  qed
  then have "metadata_at ?k (ensure_dir ?k st) = None" by (auto simp: metadata_at_def ensure_dir_def split: option.splits)
  then show ?thesis using assms(4,5) Inr by (auto simp: bind_workspace_def Let_def key_idem [OF assms(1)] init_metadata_def)
qed

lemma set_field_new:
  assumes "validate_session_id sid = Inr ()" and "doc_safe lib (JObj m)"
  shows "set_metadata_field lib abspath sid w name v (write_session_metadata lib (workspace_key abspath w, sid) m st)
    = (write_session_metadata lib (workspace_key abspath w, sid) (AList.update name (JStr v) m) st, None)"
  by (simp add: set_metadata_field_def assms(1) session_directory_def metadata_roundtrip [OF assms(2)])

lemma task_try_cases:
  assumes "task_try w r k = (w', v)"
  obtains e where "r = Inl e" "w' = w" "v = Inl e" | x where "r = Inr x" "k x = (w', v)"
  using assms by (cases r) (auto simp: task_try_def)

lemma on_store_cases:
  assumes "on_store f w k = (w', v)"
  obtains st e where "f (tw_store w) = (st, Some e)" "w' = w\<lparr>tw_store := st\<rparr>" "v = Inl e"
  | st where "f (tw_store w) = (st, None)" "k (w\<lparr>tw_store := st\<rparr>) = (w', v)"
  using assms by (auto simp: on_store_def split: prod.splits option.splits)

text \<open>The part of \<open>_create\<close> that changes the store and the scheduler.\<close>

lemma create_writes_docs:
  assumes base: "abspath_ok (te_abspath env)" "st_grouped (tw_store w)" "dict_ok (st_dirs (tw_store w))"
      "find_session_directory (te_session_id env) (tw_store w) = None"
    and caller: "tx_session_id cx \<noteq> te_session_id env" and provider: "provider_for (te_lib env) (tx_session_id cx) (tw_store w) = Inr provider"
    and docs: "\<And>p. list_all (\<lambda>m. doc_safe (te_lib env) (JObj m)) (task_docs p provider)"
    and run: "task_create env cx args w = (w', r)"
  shows "tw_store w' = tw_store w \<or> (\<exists>p v. parse_permission_preset v cx = Inr p
    \<and> task_store env cx (task_docs p provider) (tw_store w) (tw_store w'))"
proof -
  let ?k = "task_dir env cx"
  let ?st = "tw_store w"
  let ?written = "\<lambda>m. write_session_metadata (te_lib env) ?k m ?st"
  have goal: ?thesis if run1: "on_store (bind_workspace (te_lib env) (te_abspath env) (te_session_id env) (tx_workspace cx)) w (\<lambda>w1.
      on_store (store_permission_preset (te_lib env) (te_abspath env) (te_session_id env) p (tx_workspace cx)) w1 (\<lambda>w2.
      task_try w2 (provider_for (te_lib env) (tx_session_id cx) (tw_store w2)) (\<lambda>provider.
      on_store (case provider of None \<Rightarrow> (\<lambda>st. (st, None))
          | Some v \<Rightarrow> set_provider (te_lib env) (te_abspath env) (te_session_id env) v (tx_workspace cx)) w2 rest))) = (w', r)"
    and p: "parse_permission_preset v cx = Inr p" and rest: "\<And>w3 w' r. rest w3 = (w', r) \<Longrightarrow> tw_store w' = tw_store w3" for p v rest
    using run1
  proof (cases rule: on_store_cases)
    case (1 st e)
    then show ?thesis using bind_new_session [OF base 1(1)] by simp
  next
    case (2 st)
    have b: "validate_session_id (te_session_id env) = Inr ()" "st = ?written new_session_metadata"
      using bind_new_session [OF base 2(1)] by (simp_all add: task_dir_def)
    define m where "m = AList.update ''permission_preset'' (JStr (preset_value p)) new_session_metadata"
    have safe: "doc_safe (te_lib env) (JObj new_session_metadata)" "doc_safe (te_lib env) (JObj m)"
      using docs [of p] by (simp_all add: task_docs_def m_def Let_def)
    have s: "store_permission_preset (te_lib env) (te_abspath env) (te_session_id env) p (tx_workspace cx) st = (?written m, None)"
      using set_field_new [OF b(1) safe(1)] unfolding b(2) m_def store_permission_preset_def task_dir_def by blast
    have pr: "provider_for (te_lib env) (tx_session_id cx) (?written m) = Inr provider"
      using preset_write_other(2) [OF base(2), of "tx_session_id cx" ?k] caller provider by (simp add: task_dir_def)
    obtain w3 where w3: "rest w3 = (w', r)" "\<exists>d \<in> set (task_docs p provider). tw_store w3 = ?written d"
    proof (cases provider)
      case None
      then have "rest (w\<lparr>tw_store := ?written m\<rparr>) = (w', r)" using 2(2) s pr by (simp add: on_store_def task_try_def)
      then show thesis using that [of "w\<lparr>tw_store := ?written m\<rparr>"] by (simp add: task_docs_def Let_def m_def)
    next
      case (Some v)
      let ?d = "AList.update ''provider'' (JStr v) m"
      have "set_provider (te_lib env) (te_abspath env) (te_session_id env) v (tx_workspace cx) (?written m) = (?written ?d, None)"
        using set_field_new [OF b(1) safe(2)] unfolding set_provider_def task_dir_def by blast
      then have "rest (w\<lparr>tw_store := ?written ?d\<rparr>) = (w', r)" using 2(2) s pr Some by (simp add: on_store_def task_try_def)
      then show thesis using that [of "w\<lparr>tw_store := ?written ?d\<rparr>"] Some by (simp add: task_docs_def Let_def m_def)
    qed
    then have "task_store env cx (task_docs p provider) ?st (tw_store w')" using rest [OF w3(1)] by (auto simp: task_store_def)
    then show ?thesis using p by blast
  qed
  show ?thesis
    using run unfolding task_create_def
  proof (cases rule: task_try_cases)
    case (2 u)
    show ?thesis
    proof (cases "jget args ''schedule''")
      case (JObj data)
      show ?thesis
        using 2(2) unfolding JObj json.case
        by (elim task_try_cases; (simp; fail)?) (elim goal, assumption, auto elim!: task_try_cases split: prod.splits)
    qed (use 2(2) in auto)
  qed simp
qed


text \<open>What the code relies on of the Session writer of the Runtime: entering and leaving it changes no preset, and
  setting a preset makes no Session one of full access unless that is the preset.\<close>

definition manager_keeps :: "json_lib \<Rightarrow> perm_manager \<Rightarrow> bool" where
  "manager_keeps lib pm \<longleftrightarrow> (\<forall>sid st s.
     (permission_preset_for lib s (fst (pm_enter pm sid st)) = Inr FULL_ACCESS \<longrightarrow> permission_preset_for lib s st = Inr FULL_ACCESS)
   \<and> (permission_preset_for lib s (pm_exit pm sid st) = Inr FULL_ACCESS \<longrightarrow> permission_preset_for lib s st = Inr FULL_ACCESS)
   \<and> (\<forall>p. permission_preset_for lib s (fst (pm_set pm sid p st)) = Inr FULL_ACCESS
        \<longrightarrow> permission_preset_for lib s st = Inr FULL_ACCESS \<or> p = FULL_ACCESS))"

lemma service_update_store: "service_update env sid u w = (w', r) \<Longrightarrow> tw_store w' = tw_store w"
  by (auto simp: service_update_def split: sum.splits prod.splits)

lemma manager_keepsD:
  assumes "manager_keeps lib pm"
  shows "permission_preset_for lib s (fst (pm_enter pm sid st)) = Inr FULL_ACCESS \<Longrightarrow> permission_preset_for lib s st = Inr FULL_ACCESS"
    and "permission_preset_for lib s (pm_exit pm sid st) = Inr FULL_ACCESS \<Longrightarrow> permission_preset_for lib s st = Inr FULL_ACCESS"
    and "permission_preset_for lib s (fst (pm_set pm sid p st)) = Inr FULL_ACCESS
      \<Longrightarrow> permission_preset_for lib s st = Inr FULL_ACCESS \<or> p = FULL_ACCESS"
  using assms unfolding manager_keeps_def by blast+

lemma update_with_preset_grants:
  assumes "manager_keeps (te_lib env) pm" and "update_with_preset env pm sid u p s w = (w', r)"
    and "permission_preset_for (te_lib env) t (tw_store w') = Inr FULL_ACCESS"
  shows "permission_preset_for (te_lib env) t (tw_store w) = Inr FULL_ACCESS \<or> p = FULL_ACCESS"
  using assms(2) unfolding update_with_preset_def
proof (cases rule: on_store_cases)
  case (1 st e)
  then have "permission_preset_for (te_lib env) t (fst (pm_enter pm (sd_session_id s) (tw_store w))) = Inr FULL_ACCESS"
    using assms(3) by simp
  then show ?thesis using manager_keepsD(1) [OF assms(1)] by blast
next
  case (2 st)
  define w1 where "w1 = w\<lparr>tw_store := st\<rparr>"
  obtain w2 v where b: "(if no_changes u then (w1, Inr s) else service_update env sid u w1) = (w2, v)" by fastforce
  have run: "(case (w2, v) of (w2, Inl e) \<Rightarrow> (w2\<lparr>tw_store := pm_exit pm (sd_session_id s) (tw_store w2)\<rparr>, Inl e)
       | (w2, Inr s') \<Rightarrow>
           (case pm_set pm (sd_session_id s) p (tw_store w2) of
              (st, None) \<Rightarrow> (w2\<lparr>tw_store := pm_exit pm (sd_session_id s) st\<rparr>, Inr s')
            | (st, Some e) \<Rightarrow> (w2\<lparr>tw_store := pm_exit pm (sd_session_id s) st\<rparr>, Inl e))) = (w', r)"
    using 2(2) unfolding w1_def [symmetric] b .
  have st2: "tw_store w2 = st" using b service_update_store [of env sid u w1 w2 v] by (auto simp: w1_def split: if_splits)
  have enter: ?thesis if "permission_preset_for (te_lib env) t st = Inr FULL_ACCESS"
    using manager_keepsD(1) [OF assms(1), of t "sd_session_id s" "tw_store w"] 2(1) that by simp
  show ?thesis
  proof (cases v)
    case (Inl e)
    then have "tw_store w' = pm_exit pm (sd_session_id s) st" using run st2 by auto
    then show ?thesis using manager_keepsD(2) [OF assms(1)] assms(3) enter by simp
  next
    case (Inr s')
    obtain st3 x where s3: "pm_set pm (sd_session_id s) p st = (st3, x)" by fastforce
    then have "tw_store w' = pm_exit pm (sd_session_id s) st3" using run st2 Inr by (cases x) auto
    then have "permission_preset_for (te_lib env) t st3 = Inr FULL_ACCESS" using manager_keepsD(2) [OF assms(1)] assms(3) by simp
    then show ?thesis using manager_keepsD(3) [OF assms(1), of t "sd_session_id s" p st] s3 enter by auto
  qed
qed

lemma parse_preset_full: "parse_permission_preset v cx = Inr FULL_ACCESS \<Longrightarrow> \<exists>a. tx_execution cx = Some a \<and> allows_unattended a HOST"
  by (auto simp: parse_permission_preset_def execution_authority_def res_bind_Inr_iff split: sum.splits if_splits option.splits)

lemma apply_update_grants:
  assumes "\<And>pm. tx_permissions cx = Some pm \<Longrightarrow> manager_keeps (te_lib env) pm" and "apply_update env cx sid u preset w = (w', r)"
    and "permission_preset_for (te_lib env) t (tw_store w') = Inr FULL_ACCESS"
  shows "permission_preset_for (te_lib env) t (tw_store w) = Inr FULL_ACCESS \<or> preset = Some FULL_ACCESS"
proof (cases preset)
  case None
  then show ?thesis using assms(2,3) service_update_store [of env "JStr sid" u w w' r] by (simp add: apply_update_def)
next
  case (Some p)
  from assms(2) [unfolded apply_update_def Some option.case] show ?thesis
  proof (cases rule: task_try_cases)
    case 1
    then show ?thesis using assms(3) by simp
  next
    case (2 sv)
    from 2(2) show ?thesis
    proof (cases rule: task_try_cases)
      case 1
      then show ?thesis using assms(3) by simp
    next
      case (2 s)
      show ?thesis
      proof (cases "tx_permissions cx")
        case None
        then show ?thesis using 2(2) assms(3) by auto
      next
        case (Some pm)
        then have "update_with_preset env pm (JStr sid) u p s (w\<lparr>tw_service := sv\<rparr>) = (w', r)" using 2(2) by simp
        from update_with_preset_grants [OF assms(1) [OF Some] this assms(3)] show ?thesis using \<open>preset = Some p\<close> by simp
      qed
    qed
  qed
qed

lemma task_update_cases:
  assumes "task_update env cx args w = (w', r)"
  obtains "w' = w"
  | sid u preset x v where "apply_update env cx sid u preset w = (w', x)"
      "preset = Some FULL_ACCESS \<longrightarrow> parse_permission_preset v cx = Inr FULL_ACCESS"
proof -
  from assms [unfolded task_update_def] show thesis
  proof (cases rule: task_try_cases)
    case 1
    then show thesis using that(1) by simp
  next
    case (2 u0)
    from 2(2) show thesis
    proof (cases rule: task_try_cases)
      case 1
      then show thesis using that(1) by simp
    next
      case (2 sid)
      show thesis
      proof (cases "\<exists>c cs. jget args ''changes'' = JObj (c # cs)")
        case False
        then have "w' = w" using 2(2) by (auto split: json.splits list.splits)
        then show thesis using that(1) by simp
      next
        case True
        then obtain c cs where d: "jget args ''changes'' = JObj (c # cs)" by blast
        from 2(2) [unfolded d json.case list.case] show thesis
        proof (cases rule: task_try_cases)
          case 1
          then show thesis using that(1) by simp
        next
          case (2 u)
          from 2(2) show thesis
          proof (cases rule: task_try_cases)
            case 1
            then show thesis using that(1) by simp
          next
            case (2 preset)
            from 2(2) show thesis
            proof (cases rule: task_try_cases)
              case 1
              then show thesis using that(1) by simp
            next
              case (2 u1)
              obtain w1 x where a: "apply_update env cx sid u preset w = (w1, x)" by fastforce
              then have "w1 = w'" using 2(2) by (cases x) auto
              moreover have "\<exists>v. preset = Some FULL_ACCESS \<longrightarrow> parse_permission_preset v cx = Inr FULL_ACCESS"
                using \<open>(case map_of (c # cs) ''permission_preset'' of None \<Rightarrow> Inr None | Some v \<Rightarrow> res_map Some (parse_permission_preset v cx)) = Inr preset\<close>
                by (auto split: option.splits)
              ultimately show thesis using that(2) a by blast
            qed
          qed
        qed
      qed
    qed
  qed
qed


definition demo_task_docs :: "json list" where
  "demo_task_docs = map JObj (remdups (concat (map (\<lambda>p. task_docs p None) [ASK_FOR_APPROVAL, WORKSPACE_ACCESS, FULL_ACCESS])))"

definition demo_task_env :: task_env where
  "demo_task_env = \<lparr>te_lib = table_lib demo_task_docs, te_zones = (\<lambda>_. None), te_now = demo_instant, te_abspath = demo_root,
     te_resolve = demo_root, te_session_id = ''n'', te_schedule_id = ''t''\<rparr>"

definition demo_task_context :: task_context where
  "demo_task_context = \<lparr>tx_scheduler = True, tx_router = Some FULL_ACCESS_AUTHORITY, tx_execution = Some FULL_ACCESS_AUTHORITY,
     tx_workspace = ''/w'', tx_session_id = ''s'', tx_session_preset = FULL_ACCESS, tx_permissions = None\<rparr>"

definition demo_task_world :: task_world where
  "demo_task_world = \<lparr>tw_store = new_store True, tw_service = demo_empty\<rparr>"

definition demo_task_args :: jobj where
  "demo_task_args = [(''action'', JStr ''create''), (''schedule'', JObj [(''prompt'', JStr ''hi''),
     (''trigger'', JObj [(''type'', JStr ''interval''), (''seconds'', JInt 60)])])]"

lemma create_result_store:
  "tw_store (fst (task_try w r (\<lambda>(sv, s). (w\<lparr>tw_service := sv\<rparr>, f s)))) = tw_store w"
  by (auto simp: task_try_def split: sum.split prod.split)

lemma demo_docs_all_safe: "list_all (\<lambda>m. doc_safe (te_lib demo_task_env) (JObj m)) (task_docs p None)"
proof -
  have "length demo_task_docs \<le> 10" by code_simp
  moreover have "JObj ` set (task_docs p None) \<subseteq> set demo_task_docs" by (cases p) (auto simp: demo_task_docs_def)
  ultimately show ?thesis using table_lib_safe(2) [of _ demo_task_docs] by (auto simp: list_all_iff demo_task_env_def)
qed

lemma demo_task_granted:
  "permission_preset_for (te_lib demo_task_env) ''n'' (tw_store (fst (scheduled_task demo_task_env demo_task_context demo_task_args demo_task_world)))
     = Inr FULL_ACCESS"
proof -
  define data where "data = [(''prompt'', JStr ''hi''), (''trigger'', JObj [(''type'', JStr ''interval''), (''seconds'', JInt 60)])]"
  have a: "reject_unknown [''action'', ''schedule''] demo_task_args = Inr ()" "jget demo_task_args ''schedule'' = JObj data"
      "jget demo_task_args ''action'' = JStr ''create''"
      "reject_unknown [''prompt'', ''trigger'', ''end_at'', ''permission_preset''] data = Inr ()"
      "parse_schedule_prompt_input (jget data ''prompt'') = Inr ''hi''" "parse_end_at_input (jget data ''end_at'') = Inr None"
      "map_of data ''permission_preset'' = None"
      "parse_permission_preset (JStr (preset_value (tx_session_preset demo_task_context))) demo_task_context = Inr FULL_ACCESS"
    unfolding data_def by code_simp+
  obtain t where t: "parse_trigger_input (te_zones demo_task_env) (jget data ''trigger'') = Inr t"
    by (simp add: data_def parse_trigger_input_def jget_def unknown_fields_def)
  let ?lib = "te_lib demo_task_env" and ?k = "task_dir demo_task_env demo_task_context" and ?st = "new_store True"
  define m where "m = AList.update ''permission_preset'' (JStr (preset_value FULL_ACCESS)) new_session_metadata"
  have k: "?k = (workspace_key demo_root ''/w'', ''n'')" by (simp add: task_dir_def demo_task_env_def demo_task_context_def)
  have none: "find_session_directory ''n'' ?st = None" by (simp add: find_session_directory_def new_store_def)
  have g: "st_grouped ?st" "dict_ok (st_dirs ?st)" by (simp_all add: new_store_def dict_ok_def)
  have id: "validate_session_id ''n'' = Inr ()" by code_simp
  obtain st' r where b0: "bind_workspace ?lib demo_root ''n'' ''/w'' ?st = (st', r)" by fastforce
  have b: "bind_workspace ?lib demo_root ''n'' ''/w'' ?st = (write_session_metadata ?lib ?k new_session_metadata ?st, None)"
    using bind_new_session [OF demo_root_ok g none b0] b0 id none by (auto simp: k bind_workspace_def Let_def)
  have safe: "doc_safe ?lib (JObj new_session_metadata)" "doc_safe ?lib (JObj m)"
    using demo_docs_all_safe [of FULL_ACCESS] by (simp_all add: task_docs_def m_def Let_def)
  have p: "store_permission_preset ?lib demo_root ''n'' FULL_ACCESS ''/w'' (write_session_metadata ?lib ?k new_session_metadata ?st)
      = (write_session_metadata ?lib ?k m ?st, None)"
    using set_field_new [OF id safe(1)] unfolding store_permission_preset_def k m_def by blast
  have "provider_for ?lib ''s'' ?st = Inr None"
  proof -
    have "validate_session_id ''s'' = Inr ()" by code_simp
    then show ?thesis by (simp add: provider_for_def find_session_directory_def new_store_def)
  qed
  then have pr: "provider_for ?lib ''s'' (write_session_metadata ?lib ?k m ?st) = Inr None"
    using preset_write_other(2) [OF g(1), of "''s''" ?k ?lib m] by (simp add: k)
  have cx: "te_abspath demo_task_env = demo_root" "te_session_id demo_task_env = ''n''" "tx_workspace demo_task_context = ''/w''"
      "tx_session_id demo_task_context = ''s''" "tw_store demo_task_world = ?st" "task_service demo_task_context = Inr ()"
    by (simp_all add: demo_task_env_def demo_task_context_def demo_task_world_def task_service_def)
  have "tw_store (fst (scheduled_task demo_task_env demo_task_context demo_task_args demo_task_world)) = write_session_metadata ?lib ?k m ?st"
    unfolding scheduled_task_def task_create_def a if_True
    by (simp add: task_try_def [of _ "Inr _"] a t on_store_def cx b p pr create_result_store del: preset_value.simps)
  moreover have "find_session_directory ''n'' (write_session_metadata ?lib ?k m ?st) = Some ?k"
    using find_write_new [OF g(1), of ?k ?lib m] none workspace_key_not_Nil [OF demo_root_ok] by (simp add: k)
  moreover have "jget m ''permission_preset'' = JStr (preset_value FULL_ACCESS)" by (simp add: m_def jget_def)
  ultimately show ?thesis using metadata_roundtrip [OF safe(2), of ?k ?st] id
    by (simp add: permission_preset_for_def stored_preset_def py_str_def del: preset_value.simps)
qed


text \<open>The authority of the caller is looked at only where a preset is given: an update that names none, of the prompt
  for instance, is carried out alike whatever the caller may do, also on a schedule whose Session has full access.\<close>

theorem update_ignores_authority:
  assumes "jget args ''changes'' = JObj changes" and "map_of changes ''permission_preset'' = None"
  shows "task_update env (cx\<lparr>tx_execution := a\<rparr>) args w = task_update env cx args w"
proof -
  have permissions: "tx_permissions (cx\<lparr>tx_execution := a\<rparr>) = tx_permissions cx" by simp
  have same: "apply_update env (cx\<lparr>tx_execution := a\<rparr>) = apply_update env cx" "task_service (cx\<lparr>tx_execution := a\<rparr>) = task_service cx"
    unfolding apply_update_def [abs_def] permissions by (rule refl) (simp add: task_service_def)
  show ?thesis
  proof (cases changes)
    case (Cons c cs)
    then have none: "map_of (c # cs) ''permission_preset'' = None" using assms(2) by simp
    show ?thesis unfolding task_update_def assms(1) Cons json.case list.case none option.case same by (rule refl)
  qed (simp add: task_update_def assms(1))
qed

end
