(* ===== verification/Apply_Patch.thy ===== *)
theory Apply_Patch
  imports Workspace_Files Tool_Base
begin

text \<open>
  The \<open>apply_patch\<close> tool (\<open>agent_core/tools/builtin/apply_patch.py\<close>): the patch is parsed and every
  file change is computed before anything is written; then the changes are committed one by one.

  \<^item> \<open>prepare_changes\<close>, \<open>apply_hunks\<close>, \<open>find_hunk\<close>, \<open>lines_match\<close> and the line splitters are the
    functions of those names. The two index loops over the lines of a patch are recursions on the
    lines that are left, with their termination measures.
  \<^item> A set of paths is iterated in the order of insertion (the source's order is that of the hashes; it
    decides only which path the last message names).
  \<^item> \<open>same_edit\<close> is the specification of an update: a list of operations that keep, remove and insert
    lines, read once as the old file and once as the new one.
\<close>

section \<open>Data\<close>

datatype file_operation = Added | Updated | Deleted

fun operation_name :: "file_operation \<Rightarrow> string" where
  "operation_name Added = ''added''"
| "operation_name Updated = ''updated''"
| "operation_name Deleted = ''deleted''"

record file_change =
  fc_operation :: file_operation
  fc_path :: string
  fc_content :: "string option"

record text_line =
  tl_text :: string
  tl_ending :: string

record hunk_header =
  hh_old_start :: nat
  hh_old_count :: nat
  hh_new_start :: nat
  hh_new_count :: nat

section \<open>Lines\<close>

definition split_patch_lines :: "string \<Rightarrow> string list" where
  "split_patch_lines patch =
     (let lines = py_split LF patch;
          lines = (if last lines = [] then butlast lines else lines)
      in map (\<lambda>line. if line \<noteq> [] \<and> last line = CR then butlast line else line) lines)"

text \<open>The matches of the pattern of line ends, with the text in front of each.\<close>

fun split_text_lines_aux :: "string \<Rightarrow> string \<Rightarrow> text_line list" where
  "split_text_lines_aux cur [] = (if cur = [] then [] else [\<lparr>tl_text = rev cur, tl_ending = []\<rparr>])"
| "split_text_lines_aux cur (c # cs) =
     (if c = CR \<and> take 1 cs = [LF] then \<lparr>tl_text = rev cur, tl_ending = [CR, LF]\<rparr> # split_text_lines_aux [] (drop 1 cs)
      else if c = CR \<or> c = LF then \<lparr>tl_text = rev cur, tl_ending = [c]\<rparr> # split_text_lines_aux [] cs
      else split_text_lines_aux (c # cur) cs)"

definition split_text_lines :: "string \<Rightarrow> text_line list" where
  "split_text_lines content = split_text_lines_aux [] content"

text \<open>\<open>max\<close> over the three endings in the order of the dictionary, by count and then by being the
  first one of the file; the earlier of equal keys wins.\<close>

definition preferred_newline :: "text_line list \<Rightarrow> string" where
  "preferred_newline lines =
     (let endings = filter (\<lambda>e. e \<noteq> []) (map tl_ending lines);
          key = (\<lambda>e. 2 * count_list endings e + (if e = hd endings then 1 else 0));
          best = (\<lambda>a b. if key a < key b then b else a)
      in if endings = [] then [LF] else best (best [CR, LF] [LF]) [CR])"

section \<open>Headers\<close>

text \<open>\<open>int(digits)\<close>; the interpreter refuses more than 4300 digits.\<close>

definition int_of_digits :: "string \<Rightarrow> nat res" where
  "int_of_digits ds =
     (if length ds > 4300 then Inl (ValueError ''Exceeds the limit (4300 digits) for integer string conversion'')
      else Inr (foldl (\<lambda>n c. 10 * n + digit_val c) 0 ds))"

text \<open>One number of a range, and \<open>number[,number]\<close>; the second number is optional.\<close>

definition scan_digits :: "string \<Rightarrow> (string \<times> string) option" where
  "scan_digits s = (let ds = takeWhile is_digit s in if ds = [] then None else Some (ds, drop (length ds) s))"

definition scan_range :: "string \<Rightarrow> (string \<times> string option \<times> string) option" where
  "scan_range s = (case scan_digits s of
      None \<Rightarrow> None
    | Some (a, r) \<Rightarrow>
        if take 1 r = '','' then
          (case scan_digits (drop 1 r) of
             None \<Rightarrow> Some (a, None, r)
           | Some (b, r') \<Rightarrow> Some (a, Some b, r'))
        else Some (a, None, r))"

text \<open>The full match of the hunk header pattern: the four groups.\<close>

definition match_hunk_header :: "string \<Rightarrow> (string \<times> string option \<times> string \<times> string option) option" where
  "match_hunk_header s =
     (if take 4 s \<noteq> ''@@ -'' then None
      else case scan_range (drop 4 s) of
        None \<Rightarrow> None
      | Some (a, b, r) \<Rightarrow>
          if take 2 r \<noteq> '' +'' then None
          else (case scan_range (drop 2 r) of
              None \<Rightarrow> None
            | Some (c, d, r') \<Rightarrow>
                if r' = '' @@'' \<or> take 4 r' = '' @@ '' \<and> LF \<notin> set r' then Some (a, b, c, d) else None))"

definition parse_hunk_header :: "string \<Rightarrow> string \<Rightarrow> hunk_header option res" where
  "parse_hunk_header header path =
     (if header = ''@@'' then Inr None
      else case match_hunk_header header of
        None \<Rightarrow> Inl (ValueError (''apply_patch invalid hunk header in '' @ quoted path @ '': '' @ quoted header))
      | Some (a, b, c, d) \<Rightarrow>
          res_bind (int_of_digits a) (\<lambda>old_start.
          res_bind (case b of None \<Rightarrow> Inr 1 | Some ds \<Rightarrow> int_of_digits ds) (\<lambda>old_count.
          res_bind (int_of_digits c) (\<lambda>new_start.
          res_bind (case d of None \<Rightarrow> Inr 1 | Some ds \<Rightarrow> int_of_digits ds) (\<lambda>new_count.
            if old_start < (if old_count = 0 then 0 else 1) \<or> new_start < (if new_count = 0 then 0 else 1)
            then Inl (ValueError (''apply_patch hunk starts must be positive in '' @ quoted path))
            else Inr (Some \<lparr>hh_old_start = old_start, hh_old_count = old_count,
                        hh_new_start = new_start, hh_new_count = new_count\<rparr>))))))"

definition parse_file_header :: "string \<Rightarrow> (file_operation \<times> string) res" where
  "parse_file_header header =
     (let bad = Inl (ValueError (''apply_patch invalid file header: '' @ quoted header));
          path_behind = (\<lambda>p operation. if drop (length p) header = [] then bad else Inr (operation, drop (length p) header))
      in if prefix ''*** Add File: '' header then path_behind ''*** Add File: '' Added
         else if prefix ''*** Update File: '' header then path_behind ''*** Update File: '' Updated
         else if prefix ''*** Delete File: '' header then path_behind ''*** Delete File: '' Deleted
         else bad)"

section \<open>Matching a hunk\<close>

definition is_context :: "string \<Rightarrow> bool" where
  "is_context line = (take 1 line = '' '')"

definition is_addition :: "string \<Rightarrow> bool" where
  "is_addition line = (take 1 line = ''+'')"

definition is_removal :: "string \<Rightarrow> bool" where
  "is_removal line = (take 1 line = ''-'')"

definition space_tab :: "char \<Rightarrow> bool" where
  "space_tab c \<longleftrightarrow> c = CHR '' '' \<or> c = CHR 0x09"

fun lines_match_from :: "text_line list \<Rightarrow> string list \<Rightarrow> nat \<Rightarrow> bool \<Rightarrow> bool" where
  "lines_match_from src [] index ignore_ws = True"
| "lines_match_from src (line # hunk) index ignore_ws =
     (if is_addition line then lines_match_from src hunk index ignore_ws
      else if length src \<le> index then False
      else
        (let actual = tl_text (src ! index); expected = drop 1 line;
             trim = (if ignore_ws \<and> is_context line then py_rstrip_set space_tab else (\<lambda>s. s))
         in trim actual = trim expected \<and> lines_match_from src hunk (Suc index) ignore_ws))"

definition lines_match :: "text_line list \<Rightarrow> string list \<Rightarrow> nat \<Rightarrow> bool \<Rightarrow> bool" where
  "lines_match src hunk start ignore_ws \<longleftrightarrow> start \<le> length src \<and> lines_match_from src hunk start ignore_ws"

definition old_count :: "string list \<Rightarrow> nat" where
  "old_count hunk = length (filter (\<lambda>line. \<not> is_addition line) hunk)"

definition leading_context :: "string list \<Rightarrow> nat" where
  "leading_context hunk = length (takeWhile is_context hunk)"

definition trailing_context :: "string list \<Rightarrow> nat" where
  "trailing_context hunk = (if list_all is_context hunk then 0 else length (takeWhile is_context (rev hunk)))"

text \<open>The matches of one round of the search in the order they are found: the position of the edit,
  and the place and the trimmed hunk.\<close>

definition round_matches :: "text_line list \<Rightarrow> string list \<Rightarrow> nat \<Rightarrow> nat \<Rightarrow> bool \<Rightarrow> (nat \<times> nat \<times> string list) list" where
  "round_matches src hunk start trim ignore_ws =
     concat (map (\<lambda>before.
       let after = trim - before; candidate = drop before (take (length hunk - after) hunk)
       in if after > trailing_context hunk then []
          else map (\<lambda>index. (index + leading_context hunk - before, index, candidate))
                 (filter (\<lambda>index. lines_match src candidate index ignore_ws)
                   [start..<Suc (length src) - old_count candidate]))
       [0..<Suc (min (leading_context hunk) trim)])"

fun collect_matches :: "string \<Rightarrow> (nat, nat \<times> string list) dict \<Rightarrow> (nat \<times> nat \<times> string list) list
    \<Rightarrow> (nat, nat \<times> string list) dict res" where
  "collect_matches path found [] = Inr found"
| "collect_matches path found ((edit_start, m) # ms) =
     (let found' = AList.update edit_start m found in
      if length found' > 1
      then Inl (ValueError (''apply_patch hunk is ambiguous in '' @ quoted path
        @ ''; include more context or use a numbered range with matching full context''))
      else collect_matches path found' ms)"

fun find_rounds :: "text_line list \<Rightarrow> string list \<Rightarrow> nat \<Rightarrow> string \<Rightarrow> nat option \<Rightarrow> (nat \<times> bool) list
    \<Rightarrow> (nat \<times> string list) res" where
  "find_rounds src hunk start path preferred [] =
     Inl (ValueError (''apply_patch hunk did not match '' @ quoted path @ ''; expected context: ''
       @ ''['' @ py_join '', '' (map (\<lambda>line. quoted (take 120 (drop 1 line)))
           (take 3 (filter (\<lambda>line. \<not> is_addition line) hunk))) @ '']''))"
| "find_rounds src hunk start path preferred ((trim, ignore_ws) # rounds) =
     (case preferred of
        Some p \<Rightarrow>
          if trim = 0 \<and> start \<le> p \<and> lines_match src hunk p ignore_ws then Inr (p, hunk)
          else res_bind (collect_matches path [] (round_matches src hunk start trim ignore_ws)) (\<lambda>found.
            if found \<noteq> [] then Inr (snd (hd found)) else find_rounds src hunk start path preferred rounds)
      | None \<Rightarrow> res_bind (collect_matches path [] (round_matches src hunk start trim ignore_ws)) (\<lambda>found.
            if found \<noteq> [] then Inr (snd (hd found)) else find_rounds src hunk start path preferred rounds))"

definition find_hunk :: "text_line list \<Rightarrow> string list \<Rightarrow> nat \<Rightarrow> string \<Rightarrow> nat option \<Rightarrow> (nat \<times> string list) res" where
  "find_hunk src hunk start path preferred =
     (let has_removal = list_ex (\<lambda>line. is_removal line \<and> list_ex (\<lambda>c. \<not> space_tab c) (drop 1 line)) hunk
      in find_rounds src hunk start path preferred
           (List.product (if has_removal then [0, 1, 2] else [0]) [False, True]))"


section \<open>Applying hunks\<close>

text \<open>The lines a matched hunk leaves: context lines are those of the file, added lines get the file's
  line end. Indexing behind the end of the file would raise.\<close>

fun hunk_result :: "text_line list \<Rightarrow> string \<Rightarrow> string list \<Rightarrow> nat \<Rightarrow> text_line list res" where
  "hunk_result src newline [] index = Inr []"
| "hunk_result src newline (line # hunk) index =
     (if is_context line then
        if index < length src then res_map ((#) (src ! index)) (hunk_result src newline hunk (Suc index))
        else Inl (IndexError ''list index out of range'')
      else if is_removal line then hunk_result src newline hunk (Suc index)
      else res_map ((#) \<lparr>tl_text = drop 1 line, tl_ending = newline\<rparr>) (hunk_result src newline hunk index))"

text \<open>The checks of one hunk against its header, the search for its place, and the lines it adds to the
  result, with the index of the file behind it.\<close>

definition check_counts :: "hunk_header \<Rightarrow> nat \<Rightarrow> nat \<Rightarrow> string \<Rightarrow> unit res" where
  "check_counts header olds news location =
     (if olds \<noteq> hh_old_count header
      then Inl (ValueError (''apply_patch old line count does not match hunk header in '' @ quoted location))
      else if news \<noteq> hh_new_count header
      then Inl (ValueError (''apply_patch new line count does not match hunk header in '' @ quoted location))
      else Inr ())"

definition insertion_point :: "text_line list \<Rightarrow> nat \<Rightarrow> nat \<Rightarrow> hunk_header \<Rightarrow> nat \<Rightarrow> string \<Rightarrow> nat res" where
  "insertion_point src source_index done header news location =
     (let match_index = hh_old_start header;
          expected = int done + int match_index - int source_index + (if news > 0 then 1 else 0)
      in if int (hh_new_start header) \<noteq> expected
         then Inl (ValueError (''apply_patch new start does not match hunk position in '' @ quoted location))
         else if \<not> (source_index \<le> match_index \<and> match_index \<le> length src)
         then Inl (ValueError (''apply_patch hunk range did not match '' @ quoted location))
         else Inr match_index)"

definition place_hunk :: "text_line list \<Rightarrow> nat \<Rightarrow> nat \<Rightarrow> hunk_header option \<Rightarrow> string list \<Rightarrow> string
    \<Rightarrow> (nat \<times> string list) res" where
  "place_hunk src source_index done header hunk location =
     (let olds = old_count hunk; news = length (filter (\<lambda>line. \<not> is_removal line) hunk) in
      case header of
        None \<Rightarrow>
          if olds = 0
          then Inl (ValueError (''apply_patch update hunk for '' @ quoted location @ '' needs context or removal''))
          else find_hunk src hunk source_index location None
      | Some hd' \<Rightarrow>
          res_bind (check_counts hd' olds news location) (\<lambda>_.
            if olds = 0 then res_map (\<lambda>i. (i, hunk)) (insertion_point src source_index done hd' news location)
            else find_hunk src hunk source_index location (Some (hh_old_start hd' - 1))))"

definition valid_hunk_line :: "string \<Rightarrow> bool" where
  "valid_hunk_line line \<longleftrightarrow> is_context line \<or> is_addition line \<or> is_removal line"

definition hunk_location :: "string \<Rightarrow> nat \<Rightarrow> string" where
  "hunk_location path n = path @ '' (hunk '' @ nat_str n @ '')''"

text \<open>The loop of \<open>_apply_hunks\<close> over the lines of the body that are left.\<close>

function hunks_loop :: "text_line list \<Rightarrow> string \<Rightarrow> string \<Rightarrow> text_line list \<Rightarrow> nat \<Rightarrow> nat \<Rightarrow> string list
    \<Rightarrow> (text_line list \<times> nat) res" where
  "hunks_loop src newline path result source_index hunk_number [] = Inr (result, source_index)"
| "hunks_loop src newline path result source_index hunk_number (line # body) =
     (let location = hunk_location path (Suc hunk_number);
          hunk = takeWhile (\<lambda>l. \<not> prefix ''@@'' l) body;
          rest = dropWhile (\<lambda>l. \<not> prefix ''@@'' l) body
      in res_bind (parse_hunk_header line location) (\<lambda>header.
         case find (\<lambda>l. \<not> valid_hunk_line l) hunk of
           Some l \<Rightarrow> Inl (ValueError (''apply_patch invalid hunk line in '' @ quoted location @ '': '' @ quoted l))
         | None \<Rightarrow>
             if hunk = [] then Inl (ValueError (''apply_patch empty hunk in '' @ quoted location))
             else
               res_bind (place_hunk src source_index (length result) header hunk location) (\<lambda>(match_index, matched).
               res_bind (hunk_result src newline matched match_index) (\<lambda>new.
                 hunks_loop src newline path (result @ drop source_index (take match_index src) @ new)
                   (match_index + old_count matched) (Suc hunk_number) rest))))"
  by pat_completeness auto

termination hunks_loop
  by (relation "measure (\<lambda>(src, newline, path, result, i, n, body). length body)")
    (auto simp: le_imp_less_Suc length_dropWhile_le)

text \<open>The text of the resulting lines: every line has an end, the last one only when the file had it.\<close>

fun render_lines :: "string \<Rightarrow> bool \<Rightarrow> text_line list \<Rightarrow> string" where
  "render_lines newline trailing [] = []"
| "render_lines newline trailing (l # ls) =
     tl_text l @ (if ls \<noteq> [] \<or> trailing then (if tl_ending l \<noteq> [] then tl_ending l else newline) else [])
       @ render_lines newline trailing ls"

definition apply_hunks :: "string \<Rightarrow> string list \<Rightarrow> string \<Rightarrow> string res" where
  "apply_hunks original body path =
     (let src = split_text_lines original;
          trailing = (src = [] \<or> tl_ending (last src) \<noteq> []);
          newline = preferred_newline src
      in res_bind (hunks_loop src newline path [] 0 0 body) (\<lambda>(result, source_index).
           Inr (render_lines newline trailing (result @ drop source_index src))))"

section \<open>Preparing and committing a patch\<close>

fun drop_blank_before_end :: "string list \<Rightarrow> string list" where
  "drop_blank_before_end lines =
     (if 2 < length lines \<and> last (butlast lines) = []
      then drop_blank_before_end (butlast (butlast lines) @ [last lines]) else lines)"

declare drop_blank_before_end.simps [simp del]

definition change_for :: "host \<Rightarrow> path \<Rightarrow> files \<Rightarrow> file_operation \<Rightarrow> path \<Rightarrow> string \<Rightarrow> string list \<Rightarrow> file_change res" where
  "change_for h ws fs operation file_path shown body =
     (case operation of
        Added \<Rightarrow>
          if node_at fs file_path \<noteq> None
          then Inl (ValueError (''apply_patch cannot add existing file '' @ quoted shown))
          else res_bind (missing_parent_directories fs file_path ws) (\<lambda>_.
            if list_ex (\<lambda>line. \<not> is_addition line) body
            then Inl (ValueError (''apply_patch add lines for '' @ quoted shown @ '' must start with '' @ quoted ''+''))
            else Inr \<lparr>fc_operation = Added, fc_path = shown,
                   fc_content = Some (py_join [LF] (map (drop 1) body) @ (if body = [] then [] else [LF]))\<rparr>)
      | _ \<Rightarrow>
          if \<not> is_file_node (node_at fs file_path)
          then Inl (ValueError (''apply_patch requires existing file '' @ quoted shown))
          else if operation = Deleted then
            if body \<noteq> [] then Inl (ValueError (''apply_patch delete for '' @ quoted shown @ '' must have no body''))
            else Inr \<lparr>fc_operation = Deleted, fc_path = shown, fc_content = None\<rparr>
          else
            res_bind (read_bytes h fs file_path) (\<lambda>bytes.
            case utf8_decode bytes of
              Inl UnicodeDecodeError \<Rightarrow> Inl (ValueError (''apply_patch requires UTF-8 file '' @ quoted shown))
            | Inl e \<Rightarrow> Inl e
            | Inr original \<Rightarrow>
                if body = [] \<or> \<not> prefix ''@@'' (hd body)
                then Inl (ValueError (''apply_patch update for '' @ quoted shown @ '' requires an @@ hunk''))
                else res_map (\<lambda>content. \<lparr>fc_operation = Updated, fc_path = shown, fc_content = Some content\<rparr>)
                       (apply_hunks original body shown)))"

definition strip_blank_tail :: "string list \<Rightarrow> string list" where
  "strip_blank_tail body = rev (dropWhile (\<lambda>l. l = []) (rev body))"

text \<open>The section loop: \<open>lines\<close> are those between the first and the last line of the patch that are
  left, \<open>changes\<close> the changes so far with the paths they resolved to.\<close>

function sections_loop :: "host \<Rightarrow> path \<Rightarrow> files \<Rightarrow> (path \<times> file_change) list \<Rightarrow> string list
    \<Rightarrow> (path \<times> file_change) list res" where
  "sections_loop h ws fs changes [] = Inr changes"
| "sections_loop h ws fs changes (line # lines) =
     (if line = [] then sections_loop h ws fs changes lines
      else
        res_bind (parse_file_header line) (\<lambda>(operation, raw_path).
        res_bind (resolve_path h ws raw_path) (\<lambda>file_path.
        res_bind (display_path ws file_path) (\<lambda>shown.
          if file_path \<in> set (map fst changes)
          then Inl (ValueError (''apply_patch contains multiple operations for '' @ quoted shown))
          else
            (let body = takeWhile (\<lambda>l. \<not> prefix ''*** '' l) lines;
                 rest = dropWhile (\<lambda>l. \<not> prefix ''*** '' l) lines
             in res_bind (change_for h ws fs operation file_path shown (strip_blank_tail body)) (\<lambda>change.
                  sections_loop h ws fs (changes @ [(file_path, change)]) rest))))))"
  by pat_completeness auto

termination sections_loop
  by (relation "measure (\<lambda>(h, ws, fs, changes, lines). length lines)")
    (auto simp: le_imp_less_Suc length_dropWhile_le)

definition prepare_changes :: "host \<Rightarrow> path \<Rightarrow> files \<Rightarrow> string \<Rightarrow> (path \<times> file_change) list res" where
  "prepare_changes h ws fs patch =
     (let lines = split_patch_lines patch in
      if lines = [] \<or> hd lines \<noteq> ''*** Begin Patch''
      then Inl (ValueError (''apply_patch patch must start with '' @ quoted ''*** Begin Patch''))
      else if last lines \<noteq> ''*** End Patch''
      then Inl (ValueError (''apply_patch patch must end with '' @ quoted ''*** End Patch''))
      else
        res_bind (sections_loop h ws fs [] (butlast (drop 1 (drop_blank_before_end lines)))) (\<lambda>changes.
          if changes = [] then Inl (ValueError ''apply_patch requires at least one file operation'')
          else case find (\<lambda>p. list_ex (\<lambda>q. q \<in> set (map fst changes)) (parents_of p)) (map fst changes) of
            Some p \<Rightarrow> Inl (ValueError (''apply_patch file path is also used as a parent: '' @ quoted (path_str p)))
          | None \<Rightarrow> Inr changes))"


text \<open>Committing one change; the path is resolved again.\<close>

definition commit_change :: "host \<Rightarrow> path \<Rightarrow> file_change \<Rightarrow> files \<Rightarrow> files outcome" where
  "commit_change h ws change fs =
     (case resolve_path h ws (fc_path change) of
        Inl e \<Rightarrow> (fs, Some e)
      | Inr file_path \<Rightarrow>
          if fc_operation change = Deleted then unlink_file h fs file_path
          else (case fc_content change of
              None \<Rightarrow> (fs, Some AssertionError)
            | Some content \<Rightarrow> write_file_bytes h fs file_path (utf8_encode content)))"

text \<open>\<open>except (OSError, ValueError)\<close> and \<open>type(error).__name__\<close> of what it catches.\<close>

fun os_or_value_class :: "exn \<Rightarrow> string option" where
  "os_or_value_class (ValueError _) = Some ''ValueError''"
| "os_or_value_class UnicodeDecodeError = Some ''UnicodeDecodeError''"
| "os_or_value_class JSONDecodeError = Some ''JSONDecodeError''"
| "os_or_value_class (PermissionError _) = Some ''PermissionError''"
| "os_or_value_class (OSError c) = Some c"
| "os_or_value_class _ = None"

definition file_entry :: "file_change \<Rightarrow> json" where
  "file_entry change = JObj [(''path'', JStr (fc_path change)), (''operation'', JStr (operation_name (fc_operation change)))]"

definition patch_apply_error :: "file_change list \<Rightarrow> file_change \<Rightarrow> file_change list \<Rightarrow> string \<Rightarrow> exn \<Rightarrow> tool_error" where
  "patch_apply_error completed failed pending cls e =
     \<lparr>te_type = ''PatchApplyError'',
      te_message = ''apply_patch failed for '' @ quoted (fc_path failed) @ '': '' @ exn_str e,
      te_details = Some [(''completed'', JList (map file_entry completed)), (''failed'', file_entry failed),
        (''pending'', JList (map file_entry pending)),
        (''cause'', JObj [(''type'', JStr cls), (''message'', JStr (exn_str e))])]\<rparr>"

datatype patch_outcome = Patched json | Raised exn | ApplyError tool_error

fun commit_changes :: "host \<Rightarrow> path \<Rightarrow> file_change list \<Rightarrow> file_change list \<Rightarrow> files \<Rightarrow> files \<times> patch_outcome" where
  "commit_changes h ws completed [] fs = (fs, Patched (JObj [(''files'', JList (map file_entry completed))]))"
| "commit_changes h ws completed (change # pending) fs =
     (case commit_change h ws change fs of
        (fs', None) \<Rightarrow> commit_changes h ws (completed @ [change]) pending fs'
      | (fs', Some e) \<Rightarrow>
          (fs', (case os_or_value_class e of
             Some cls \<Rightarrow> ApplyError (patch_apply_error completed change pending cls e)
           | None \<Rightarrow> Raised e)))"

definition apply_patch :: "host \<Rightarrow> path \<Rightarrow> bool \<Rightarrow> jobj \<Rightarrow> files \<Rightarrow> files \<times> patch_outcome" where
  "apply_patch h ws cancelled args fs =
     (if set (map fst args) \<noteq> {''patch''}
      then (fs, Raised (ValueError (''apply_patch accepts only the '' @ quoted ''patch'' @ '' argument'')))
      else case jget args ''patch'' of
        JStr (c # cs) \<Rightarrow>
          (case prepare_changes h ws fs (c # cs) of
             Inl e \<Rightarrow> (fs, Raised e)
           | Inr changes \<Rightarrow>
               if cancelled then (fs, Raised AgentCancelled)
               else commit_changes h ws [] (map snd changes) fs)
      | _ \<Rightarrow> (fs, Raised (ValueError (''apply_patch requires a non-empty string '' @ quoted ''patch''))))"

section \<open>The lines of a text\<close>

definition line_str :: "text_line \<Rightarrow> string" where
  "line_str l = tl_text l @ tl_ending l"

lemma split_text_lines_aux_concat: "concat (map line_str (split_text_lines_aux cur s)) = rev cur @ s"
proof (induction cur s rule: split_text_lines_aux.induct)
  case (2 cur c cs)
  have "take 1 cs = [LF] \<Longrightarrow> LF # drop 1 cs = cs" by (cases cs) auto
  then show ?case using 2 by (auto simp: line_str_def)
qed (simp add: line_str_def)

lemma split_text_lines_concat: "concat (map line_str (split_text_lines s)) = s"
  by (simp add: split_text_lines_def split_text_lines_aux_concat)

lemma split_text_lines_aux_ending:
  "l \<in> set (butlast (split_text_lines_aux cur s)) \<Longrightarrow> tl_ending l \<noteq> []"
proof (induction cur s rule: split_text_lines_aux.induct)
  case (2 cur c cs)
  then show ?case by (auto split: if_splits)
qed (simp split: if_splits)

text \<open>Rendering lines that all have an end, the last one perhaps not, writes them as they are.\<close>

lemma render_lines_id:
  "(\<forall>l \<in> set (butlast ls). tl_ending l \<noteq> []) \<Longrightarrow> trailing = (ls = [] \<or> tl_ending (last ls) \<noteq> [])
   \<Longrightarrow> render_lines newline trailing ls = concat (map line_str ls)"
proof (induction ls)
  case (Cons l ls)
  then show ?case by (cases "ls = []") (auto simp: line_str_def)
qed simp

lemma render_split:
  "render_lines newline (split_text_lines s = [] \<or> tl_ending (last (split_text_lines s)) \<noteq> []) (split_text_lines s) = s"
  using render_lines_id [of "split_text_lines s"] split_text_lines_aux_ending [of _ "[]" s]
  by (simp add: split_text_lines_concat) (simp add: split_text_lines_def)

section \<open>What an update does\<close>

datatype edit_op = Keep text_line | Remove text_line | Insert string

fun old_side :: "edit_op list \<Rightarrow> text_line list" where
  "old_side [] = []"
| "old_side (Keep l # ops) = l # old_side ops"
| "old_side (Remove l # ops) = l # old_side ops"
| "old_side (Insert t # ops) = old_side ops"

fun new_side :: "string \<Rightarrow> edit_op list \<Rightarrow> text_line list" where
  "new_side newline [] = []"
| "new_side newline (Keep l # ops) = l # new_side newline ops"
| "new_side newline (Remove l # ops) = new_side newline ops"
| "new_side newline (Insert t # ops) = \<lparr>tl_text = t, tl_ending = newline\<rparr> # new_side newline ops"

text \<open>The removals and insertions of a script and those a patch body asks for, in order.\<close>

fun script_edits :: "edit_op list \<Rightarrow> (bool \<times> string) list" where
  "script_edits [] = []"
| "script_edits (Keep l # ops) = script_edits ops"
| "script_edits (Remove l # ops) = (False, tl_text l) # script_edits ops"
| "script_edits (Insert t # ops) = (True, t) # script_edits ops"

definition body_edits :: "string list \<Rightarrow> (bool \<times> string) list" where
  "body_edits body = map (\<lambda>l. (is_addition l, drop 1 l)) (filter (\<lambda>l. is_addition l \<or> is_removal l) body)"

lemma side_append [simp]:
  "old_side (xs @ ys) = old_side xs @ old_side ys"
  "new_side newline (xs @ ys) = new_side newline xs @ new_side newline ys"
  "script_edits (xs @ ys) = script_edits xs @ script_edits ys"
  by (induction xs rule: old_side.induct; simp)+

lemma side_keep [simp]:
  "old_side (map Keep ls) = ls" "new_side newline (map Keep ls) = ls" "script_edits (map Keep ls) = []"
  by (induction ls; simp)+

lemma body_edits_append [simp]: "body_edits (xs @ ys) = body_edits xs @ body_edits ys"
  by (simp add: body_edits_def)

lemma line_kinds [simp]:
  "is_context l \<Longrightarrow> \<not> is_addition l" "is_context l \<Longrightarrow> \<not> is_removal l" "is_removal l \<Longrightarrow> \<not> is_addition l"
  by (auto simp: is_context_def is_addition_def is_removal_def)

lemma body_edits_context: "list_all is_context xs \<Longrightarrow> body_edits xs = []"
  by (induction xs) (auto simp: body_edits_def)

lemma body_edits_Cons [simp]:
  "body_edits (l # ls) = (if is_addition l \<or> is_removal l then [(is_addition l, drop 1 l)] else []) @ body_edits ls"
  by (simp add: body_edits_def)

lemma old_count_Cons [simp]: "old_count (l # ls) = (if is_addition l then 0 else 1) + old_count ls"
  by (simp add: old_count_def)

lemma body_edits_Nil [simp]: "body_edits [] = []" "old_count [] = 0"
  by (simp_all add: body_edits_def old_count_def)

text \<open>A hunk that matches keeps the lines of its context, removes exactly its removal lines and inserts
  its additions; it never indexes behind the end of the file.\<close>

lemma hunk_result_script:
  assumes "lines_match_from src hunk i ws" "list_all valid_hunk_line hunk" "i \<le> length src"
  shows "i + old_count hunk \<le> length src
    \<and> (\<exists>ops. hunk_result src newline hunk i = Inr (new_side newline ops)
         \<and> old_side ops = take (old_count hunk) (drop i src) \<and> script_edits ops = body_edits hunk)"
  using assms
proof (induction hunk arbitrary: i)
  case Nil
  then show ?case by (auto intro: exI [of _ "[]"])
next
  case (Cons l hunk)
  show ?case
  proof (cases "is_addition l")
    case True
    then have nr: "\<not> is_context l" "\<not> is_removal l" using line_kinds by blast+
    from True Cons.prems have "i + old_count hunk \<le> length src
        \<and> (\<exists>ops. hunk_result src newline hunk i = Inr (new_side newline ops)
         \<and> old_side ops = take (old_count hunk) (drop i src) \<and> script_edits ops = body_edits hunk)"
      by (intro Cons.IH) auto
    then obtain ops where "i + old_count hunk \<le> length src" "hunk_result src newline hunk i = Inr (new_side newline ops)"
        "old_side ops = take (old_count hunk) (drop i src)" "script_edits ops = body_edits hunk" by blast
    then show ?thesis using True nr by (intro conjI exI [of _ "Insert (drop 1 l) # ops"]) simp_all
  next
    case False
    then have i: "i < length src" and m: "lines_match_from src hunk (Suc i) ws"
      using Cons.prems(1) by (auto simp: Let_def split: if_splits)
    have "Suc i + old_count hunk \<le> length src
        \<and> (\<exists>ops. hunk_result src newline hunk (Suc i) = Inr (new_side newline ops)
         \<and> old_side ops = take (old_count hunk) (drop (Suc i) src) \<and> script_edits ops = body_edits hunk)"
      using Cons.prems(2) i m by (intro Cons.IH) auto
    then obtain ops where ops: "Suc i + old_count hunk \<le> length src"
        "hunk_result src newline hunk (Suc i) = Inr (new_side newline ops)"
        "old_side ops = take (old_count hunk) (drop (Suc i) src)" "script_edits ops = body_edits hunk" by blast
    have src: "take (Suc n) (drop i src) = src ! i # take n (drop (Suc i) src)" for n
      using i by (simp add: Cons_nth_drop_Suc [symmetric])
    show ?thesis
    proof (cases "is_context l")
      case True
      then show ?thesis using False i ops by (intro conjI exI [of _ "Keep (src ! i) # ops"]) (simp_all add: src)
    next
      case nc: False
      then have r: "is_removal l" using False Cons.prems(2) by (simp add: valid_hunk_line_def)
      then have "tl_text (src ! i) = drop 1 l" using Cons.prems(1) False nc i by (auto simp: Let_def split: if_splits)
      then show ?thesis using False nc r i ops
        by (intro conjI exI [of _ "Remove (src ! i) # ops"]) (simp_all add: src)
    qed
  qed
qed


text \<open>What the search for a hunk returns: a place behind the last hunk where the hunk matches, perhaps
  without some of its outer context.\<close>

definition found_hunk :: "text_line list \<Rightarrow> string list \<Rightarrow> nat \<Rightarrow> nat \<times> string list \<Rightarrow> bool" where
  "found_hunk src hunk start m \<longleftrightarrow> start \<le> fst m \<and> (\<exists>ws. lines_match src (snd m) (fst m) ws)
     \<and> set (snd m) \<subseteq> set hunk \<and> body_edits (snd m) = body_edits hunk"

lemma take_leading_context: "n \<le> leading_context hunk \<Longrightarrow> list_all is_context (take n hunk)"
  unfolding leading_context_def by (induction hunk arbitrary: n) (auto simp: take_Cons' split: if_splits)

lemma drop_trailing_context:
  "n \<le> trailing_context hunk \<Longrightarrow> list_all is_context (drop (length hunk - n) hunk)"
proof (cases "list_all is_context hunk")
  case True
  then show ?thesis by (meson in_set_dropD list_all_iff)
next
  case False
  assume "n \<le> trailing_context hunk"
  then have "list_all is_context (take n (rev hunk))"
    using False take_leading_context [of n "rev hunk"] by (simp add: trailing_context_def leading_context_def)
  then show ?thesis by (simp add: take_rev list_all_rev)
qed

lemma trimmed_hunk_edits:
  assumes "a \<le> leading_context hunk" "b \<le> trailing_context hunk" "a + b \<le> length hunk"
  shows "body_edits (drop a (take (length hunk - b) hunk)) = body_edits hunk"
proof -
  let ?m = "drop a (take (length hunk - b) hunk)"
  have "hunk = take a (take (length hunk - b) hunk) @ ?m @ drop (length hunk - b) hunk"
    by (metis append_assoc append_take_drop_id)
  moreover have "a \<le> length hunk - b" using assms(3) by simp
  then have "take a (take (length hunk - b) hunk) = take a hunk" by (simp add: min_absorb1)
  ultimately have h: "hunk = take a hunk @ ?m @ drop (length hunk - b) hunk" by simp
  have "body_edits hunk = body_edits (take a hunk) @ body_edits ?m @ body_edits (drop (length hunk - b) hunk)"
    by (subst h) (simp only: body_edits_append)
  then show ?thesis
    using take_leading_context [OF assms(1)] drop_trailing_context [OF assms(2)] by (simp add: body_edits_context)
qed

lemma context_bounds: "leading_context hunk + trailing_context hunk \<le> length hunk"
proof (cases "list_all is_context hunk")
  case True
  then show ?thesis by (simp add: trailing_context_def leading_context_def length_takeWhile_le)
next
  case False
  then obtain l where l: "l \<in> set hunk" "\<not> is_context l" by (auto simp: list_all_iff)
  let ?n = "leading_context hunk" and ?t = "length (takeWhile is_context (rev hunk))"
  have t: "list_all is_context (drop (length hunk - ?t) hunk)"
    using drop_trailing_context [of ?t hunk] False by (simp add: trailing_context_def)
  have "?n < length hunk" using l
    by (metis leading_context_def length_takeWhile_le le_neq_implies_less set_takeWhileD takeWhile_eq_take take_all_iff)
  then have "\<not> is_context (hunk ! ?n)" by (simp add: leading_context_def nth_length_takeWhile)
  moreover have "is_context (hunk ! ?n)" if "length hunk - ?t \<le> ?n"
  proof -
    have "hunk ! ?n = drop (length hunk - ?t) hunk ! (?n - (length hunk - ?t))" using that \<open>?n < length hunk\<close> by simp
    then show ?thesis using t that \<open>?n < length hunk\<close>
      by (metis diff_less_mono length_drop list_all_length)
  qed
  ultimately have "?n < length hunk - ?t" by linarith
  then show ?thesis using False by (simp add: trailing_context_def)
qed

lemma round_matches_found:
  assumes "(e, m) \<in> set (round_matches src hunk start trim ws)"
  shows "found_hunk src hunk start m"
proof -
  let ?cand = "\<lambda>a. drop a (take (length hunk - (trim - a)) hunk)"
  from assms obtain a where a: "a < Suc (min (leading_context hunk) trim)" and m: "(e, m) \<in> set
      (if trim - a > trailing_context hunk then []
       else map (\<lambda>index. (index + leading_context hunk - a, index, ?cand a))
              (filter (\<lambda>index. lines_match src (?cand a) index ws) [start..<Suc (length src) - old_count (?cand a)]))"
    unfolding round_matches_def Let_def set_concat set_map by fastforce
  then obtain i where i: "trim - a \<le> trailing_context hunk" "start \<le> i" "m = (i, ?cand a)" "lines_match src (?cand a) i ws"
    by (cases "trim - a > trailing_context hunk") auto
  from a have a: "a \<le> leading_context hunk" "trim - a \<le> trailing_context hunk" "start \<le> i" "m = (i, ?cand a)"
      "lines_match src (?cand a) i ws" using i by simp_all
  have "a + (trim - a) \<le> length hunk" using a context_bounds [of hunk] by linarith
  then have "body_edits (snd m) = body_edits hunk" using trimmed_hunk_edits [OF a(1,2)] a(4) by simp
  moreover have "set (snd m) \<subseteq> set hunk" using a(4) by (auto dest: in_set_dropD in_set_takeD)
  ultimately show ?thesis using a by (auto simp: found_hunk_def)
qed

lemma collect_matches_from:
  "collect_matches path found ms = Inr found' \<Longrightarrow> set found' \<subseteq> set found \<union> set ms"
proof (induction path found ms rule: collect_matches.induct)
  case (2 path found e m ms)
  then have "set found' \<subseteq> set (AList.update e m found) \<union> set ms" by (auto simp: Let_def split: if_splits)
  moreover have "set (AList.update e m found) \<subseteq> insert (e, m) (set found)"
    using dict_update_mem by fastforce
  ultimately show ?case by auto
qed simp

lemma find_rounds_found:
  "find_rounds src hunk start path preferred rounds = Inr m \<Longrightarrow> found_hunk src hunk start m"
proof (induction src hunk start path preferred rounds rule: find_rounds.induct)
  case (2 src hunk start path preferred trim ws rounds)
  show ?case
  proof (cases "\<exists>p. preferred = Some p \<and> trim = 0 \<and> start \<le> p \<and> lines_match src hunk p ws")
    case True
    then obtain p where "preferred = Some p" "trim = 0" "start \<le> p" and l: "lines_match src hunk p ws" by blast
    then have "m = (p, hunk)" using 2(3) by simp
    then show ?thesis using \<open>start \<le> p\<close> exI [of "lines_match src hunk p", OF l] by (simp add: found_hunk_def)
  next
    case False
    then obtain found where f: "collect_matches path [] (round_matches src hunk start trim ws) = Inr found"
        "(if found \<noteq> [] then Inr (snd (hd found)) else find_rounds src hunk start path preferred rounds) = Inr m"
      using 2(3) by (auto split: option.splits if_splits)
    show ?thesis
    proof (cases "found = []")
      case True
      then show ?thesis using 2(1,2) False f by (cases preferred) auto
    next
      case nonempty: False
      then have "(fst (hd found), snd (hd found)) \<in> set (round_matches src hunk start trim ws)"
        using collect_matches_from [OF f(1)] by auto
      then have "found_hunk src hunk start (snd (hd found))" by (rule round_matches_found)
      then show ?thesis using f(2) nonempty by simp
    qed
  qed
qed simp


lemma place_hunk_found:
  assumes "place_hunk src si n header hunk location = Inr m" and "list_all valid_hunk_line hunk" "si \<le> length src"
  shows "found_hunk src hunk si m"
proof (cases "old_count hunk = 0")
  case False
  then show ?thesis using assms(1)
    by (auto simp: place_hunk_def find_hunk_def Let_def intro: find_rounds_found split: option.splits)
next
  case True
  then obtain i where i: "m = (i, hunk)" "si \<le> i" "i \<le> length src"
    using assms(1) by (auto simp: place_hunk_def insertion_point_def Let_def split: option.splits if_splits)
  have "lines_match_from src hunk i False"
    using True by (induction hunk) (auto split: if_splits)
  then show ?thesis using i exI [of "lines_match src hunk i" False] by (simp add: found_hunk_def lines_match_def)
qed

lemma parse_header_no_edit:
  "parse_hunk_header line location = Inr header \<Longrightarrow> \<not> is_addition line \<and> \<not> is_removal line"
  by (cases line) (auto simp: parse_hunk_header_def match_hunk_header_def is_addition_def is_removal_def
      split: if_splits option.splits)

text \<open>The lines of the result so far, as an edit of the file in front of \<open>si\<close>.\<close>

definition progress :: "text_line list \<Rightarrow> string \<Rightarrow> text_line list \<Rightarrow> nat \<Rightarrow> (bool \<times> string) list \<Rightarrow> bool" where
  "progress src newline result si edits \<longleftrightarrow> si \<le> length src
     \<and> (\<exists>ops. old_side ops = take si src \<and> new_side newline ops = result \<and> script_edits ops = edits)"

lemma progress_hunk:
  assumes p: "progress src newline result si edits" and f: "found_hunk src hunk si (mi, matched)"
    and v: "list_all valid_hunk_line hunk"
  obtains new where "hunk_result src newline matched mi = Inr new"
    "progress src newline (result @ drop si (take mi src) @ new) (mi + old_count matched) (edits @ body_edits hunk)"
proof -
  obtain ws where m: "si \<le> mi" "lines_match src matched mi ws" "set matched \<subseteq> set hunk" "body_edits matched = body_edits hunk"
    using f by (auto simp: found_hunk_def)
  have "list_all valid_hunk_line matched" using v m(3) by (auto simp: list_all_iff)
  then obtain ops where ops: "mi + old_count matched \<le> length src"
      "hunk_result src newline matched mi = Inr (new_side newline ops)"
      "old_side ops = take (old_count matched) (drop mi src)" "script_edits ops = body_edits matched"
    using hunk_result_script [of src matched mi ws newline] m(2) by (auto simp: lines_match_def)
  obtain ops0 where o: "old_side ops0 = take si src" "new_side newline ops0 = result" "script_edits ops0 = edits"
    using p by (auto simp: progress_def)
  have "take si src @ drop si (take mi src) = take mi src"
    using m(1) by (metis append_take_drop_id min.absorb1 take_take)
  then have "old_side (ops0 @ map Keep (drop si (take mi src)) @ ops) = take (mi + old_count matched) src"
    using o ops(3) by (simp add: take_add)
  then have "progress src newline (result @ drop si (take mi src) @ new_side newline ops) (mi + old_count matched)
      (edits @ body_edits hunk)"
    unfolding progress_def using o ops m(4)
    by (intro conjI exI [of _ "ops0 @ map Keep (drop si (take mi src)) @ ops"]) simp_all
  with ops(2) show thesis by (rule that)
qed

lemma hunks_loop_progress:
  "progress src newline result si edits \<Longrightarrow> hunks_loop src newline path result si n body = Inr (result', si')
   \<Longrightarrow> progress src newline result' si' (edits @ body_edits body)"
proof (induction src newline path result si n body arbitrary: edits rule: hunks_loop.induct)
  case (2 src newline path result si n line body)
  let ?hunk = "takeWhile (\<lambda>l. \<not> prefix ''@@'' l) body" and ?rest = "dropWhile (\<lambda>l. \<not> prefix ''@@'' l) body"
  let ?loc = "hunk_location path (Suc n)"
  from 2(3) obtain header mi matched new where h: "parse_hunk_header line ?loc = Inr header"
      "find (\<lambda>l. \<not> valid_hunk_line l) ?hunk = None" "?hunk \<noteq> []"
      "place_hunk src si (length result) header ?hunk ?loc = Inr (mi, matched)"
      "hunk_result src newline matched mi = Inr new"
      "hunks_loop src newline path (result @ drop si (take mi src) @ new) (mi + old_count matched) (Suc n) ?rest
         = Inr (result', si')"
    by (auto simp: Let_def split: option.splits if_splits prod.splits)
  have v: "list_all valid_hunk_line ?hunk" using h(2) by (auto simp: find_None_iff list_all_iff)
  have "si \<le> length src" using 2(2) by (simp add: progress_def)
  then have "found_hunk src ?hunk si (mi, matched)" using place_hunk_found h(4) v by blast
  then have p: "progress src newline (result @ drop si (take mi src) @ new) (mi + old_count matched) (edits @ body_edits ?hunk)"
    using progress_hunk [OF 2(2) _ v] h(5) by (metis Inr_inject)
  have "progress src newline result' si' ((edits @ body_edits ?hunk) @ body_edits ?rest)"
    using 2(1) [OF refl refl refl h(1,2,3) _ refl h(5) p h(6)] h(4) by simp
  moreover have "body_edits (line # body) = body_edits ?hunk @ body_edits ?rest"
    using parse_header_no_edit [OF h(1)] body_edits_append [of ?hunk ?rest] by simp
  ultimately show ?case by simp
qed simp




section \<open>What a patch does to the files\<close>

definition file_bytes :: "files \<Rightarrow> path \<Rightarrow> string option" where
  "file_bytes fs q = (case node_at fs q of Some (FileNode _ b) \<Rightarrow> Some b | _ \<Rightarrow> None)"

definition new_bytes :: "file_change \<Rightarrow> string option" where
  "new_bytes c = (if fc_operation c = Deleted then None else map_option utf8_encode (fc_content c))"

definition patched :: "(path \<times> file_change) list \<Rightarrow> files \<Rightarrow> files \<Rightarrow> bool" where
  "patched changes fs fs' \<longleftrightarrow>
     (\<forall>q. file_bytes fs' q = (case map_of changes q of Some c \<Rightarrow> new_bytes c | None \<Rightarrow> file_bytes fs q))"

text \<open>A prepared change names the file it was computed for and has a content unless it deletes.\<close>

definition change_ok :: "host \<Rightarrow> path \<Rightarrow> path \<times> file_change \<Rightarrow> bool" where
  "change_ok h ws pc \<longleftrightarrow> resolve_path h ws (fc_path (snd pc)) = Inr (fst pc)
     \<and> (fc_operation (snd pc) \<noteq> Deleted \<longrightarrow> fc_content (snd pc) \<noteq> None)"

lemma file_bytes_wrote: "wrote p (FileNode m b) fs fs' \<Longrightarrow> file_bytes fs' q = (if q = p then Some b else file_bytes fs q)"
  using wrote_file_elsewhere [of p "FileNode m b" fs fs' q]
  by (auto simp: file_bytes_def wrote_def split: option.splits node.splits)

lemma file_bytes_Some_iff: "file_bytes fs q = Some b \<longleftrightarrow> (\<exists>m. node_at fs q = Some (FileNode m b))"
  by (auto simp: file_bytes_def split: option.splits node.splits)

lemma file_bytes_same: "same_files fs fs' \<Longrightarrow> file_bytes fs' q = file_bytes fs q"
  unfolding same_files_def by (metis file_bytes_Some_iff not_Some_eq)

lemma mkdir_parents_error: "mkdir_parents h fs p = (fs', Some e) \<Longrightarrow> \<exists>c. e = OSError c"
proof (induction h fs p arbitrary: fs' e rule: mkdir_parents.induct)
  case (1 h fs p)
  have o: "os_mkdir h fs p = (x, Some e) \<Longrightarrow> \<exists>c. e = OSError c" for h fs p x e
    by (auto simp: os_mkdir_def split: if_splits option.splits)
  from 1(2) show ?case
    using 1(1) by (auto simp: mkdir_parents.simps [of h fs p] dest: o split: prod.splits option.splits if_splits)
qed

lemma write_file_bytes_error: "write_file_bytes h fs p b = (fs', Some e) \<Longrightarrow> \<exists>c. e = OSError c"
  by (auto simp: write_file_bytes_def atomic_write_bytes_def dest: mkdir_parents_error
      split: prod.splits option.splits if_splits)

lemma commit_change_effect:
  assumes fs: "files_ok fs" and c: "change_ok h ws (p, c)" and run: "commit_change h ws c fs = (fs', r)"
  shows "files_ok fs' \<and> (case r of
      None \<Rightarrow> \<forall>q. file_bytes fs' q = (if q = p then new_bytes c else file_bytes fs q)
    | Some e \<Rightarrow> os_or_value_class e \<noteq> None \<and> (\<forall>q. file_bytes fs' q = file_bytes fs q))"
proof (cases "fc_operation c = Deleted")
  case True
  then have u: "unlink_file h fs p = (fs', r)" using c run by (simp add: commit_change_def change_ok_def)
  show ?thesis
  proof (cases "node_at fs p")
    case None
    then show ?thesis using u fs by (auto simp: unlink_file_def)
  next
    case (Some n)
    then show ?thesis
    proof (cases n)
      case (FileNode m b)
      then have "p \<noteq> []" using Some by auto
      then show ?thesis using u fs Some FileNode True files_ok_delete_file [OF fs, of p m b]
        by (auto simp: unlink_file_def file_bytes_def new_bytes_def split: option.splits)
    next
      case DirNode
      then show ?thesis using u fs Some by (auto simp: unlink_file_def)
    qed
  qed
next
  case False
  then obtain t where t: "fc_content c = Some t" using c by (auto simp: change_ok_def)
  then have w: "write_file_bytes h fs p (utf8_encode t) = (fs', r)"
    using c run False by (simp add: commit_change_def change_ok_def)
  note W = write_file_bytes_effect [OF fs w]
  show ?thesis
  proof (cases r)
    case None
    then show ?thesis using W False t by (auto simp: written_node_def file_bytes_wrote new_bytes_def)
  next
    case (Some e)
    then obtain k where "e = OSError k" using write_file_bytes_error w by blast
    then show ?thesis using W Some dirs_added_same_files file_bytes_same by fastforce
  qed
qed

lemma commit_changes_effect:
  assumes "files_ok fs" and "list_all (change_ok h ws) cs" and "distinct (map fst cs)"
    and "commit_changes h ws completed (map snd cs) fs = (fs', out)"
  shows "(out = Patched (JObj [(''files'', JList (map file_entry (completed @ map snd cs)))]) \<and> patched cs fs fs')
    \<or> (\<exists>ds p c rest cls e. cs = ds @ (p, c) # rest \<and> patched ds fs fs'
         \<and> out = ApplyError (patch_apply_error (completed @ map snd ds) c (map snd rest) cls e))"
  using assms
proof (induction cs arbitrary: completed fs)
  case Nil
  then show ?case by (auto simp: patched_def)
next
  case (Cons pc cs)
  obtain p c where pc: "pc = (p, c)" by fastforce
  obtain fs1 r where r: "commit_change h ws c fs = (fs1, r)" by fastforce
  have E: "files_ok fs1 \<and> (case r of
      None \<Rightarrow> \<forall>q. file_bytes fs1 q = (if q = p then new_bytes c else file_bytes fs q)
    | Some e \<Rightarrow> os_or_value_class e \<noteq> None \<and> (\<forall>q. file_bytes fs1 q = file_bytes fs q))"
    using Cons.prems(2) by (intro commit_change_effect [OF Cons.prems(1) _ r]) (simp add: pc)
  show ?case
  proof (cases r)
    case (Some e)
    then obtain cls where "os_or_value_class e = Some cls" using E by auto
    then have "out = ApplyError (patch_apply_error completed c (map snd cs) cls e)" "fs' = fs1"
      using Cons.prems(4) Some r pc by simp_all
    then show ?thesis using E Some pc
      by (intro disjI2 exI [of _ "[]"] exI [of _ p] exI [of _ c] exI [of _ cs] exI [of _ cls] exI [of _ e])
        (simp add: patched_def)
  next
    case None
    have p: "p \<notin> set (map fst cs)" using Cons.prems(3) pc by simp
    have step: "patched ds fs1 fs' \<Longrightarrow> p \<notin> set (map fst ds) \<Longrightarrow> patched ((p, c) # ds) fs fs'" for ds
      using E None by (auto simp: patched_def split: option.splits)
        (metis (no_types, lifting) domI dom_map_of_conv_image_fst option.case_eq_if option.distinct(1))
    have "(out = Patched (JObj [(''files'', JList (map file_entry ((completed @ [c]) @ map snd cs)))]) \<and> patched cs fs1 fs')
      \<or> (\<exists>ds p c' rest cls e. cs = ds @ (p, c') # rest \<and> patched ds fs1 fs'
         \<and> out = ApplyError (patch_apply_error ((completed @ [c]) @ map snd ds) c' (map snd rest) cls e))"
      using Cons.prems r None pc E by (intro Cons.IH) auto
    then show ?thesis
    proof (elim disjE exE conjE)
      assume "out = Patched (JObj [(''files'', JList (map file_entry ((completed @ [c]) @ map snd cs)))])"
        "patched cs fs1 fs'"
      then show ?thesis using step p pc by simp
    next
      fix ds p' c' rest cls e
      assume a: "cs = ds @ (p', c') # rest" "patched ds fs1 fs'"
        "out = ApplyError (patch_apply_error ((completed @ [c]) @ map snd ds) c' (map snd rest) cls e)"
      have "patched ((p, c) # ds) fs fs'" using a step p by auto
      then show ?thesis using a pc
        by (intro disjI2 exI [of _ "(p, c) # ds"] exI [of _ p'] exI [of _ c'] exI [of _ rest] exI [of _ cls] exI [of _ e])
          simp
    qed
  qed
qed


lemma decode_case_Inr_iff:
  "(case r of Inl UnicodeDecodeError \<Rightarrow> Inl a | Inl e \<Rightarrow> Inl e | Inr x \<Rightarrow> f x) = Inr c \<longleftrightarrow> (\<exists>x. r = Inr x \<and> f x = Inr c)"
  by (cases r) (simp_all split: exn.splits)

lemma change_for_ok:
  assumes "change_for h ws fs operation p shown body = Inr c" and "resolve_path h ws shown = Inr p"
  shows "change_ok h ws (p, c)"
  using assms
  by (cases operation) (auto simp: change_for_def change_ok_def decode_case_Inr_iff split: if_splits)

lemma sections_loop_ok:
  assumes h: "realpath_canonical h" "ws_ok h ws"
  shows "list_all (change_ok h ws) cs \<Longrightarrow> distinct (map fst cs) \<Longrightarrow> sections_loop h ws fs cs lines = Inr cs'
     \<Longrightarrow> list_all (change_ok h ws) cs' \<and> distinct (map fst cs')"
  using h
proof (induction h ws fs cs lines rule: sections_loop.induct)
  case (2 h ws fs cs line lines)
  show ?case
  proof (cases "line = []")
    case True
    then show ?thesis using 2 by simp
  next
    case False
    let ?body = "takeWhile (\<lambda>l. \<not> prefix ''*** '' l) lines" and ?rest = "dropWhile (\<lambda>l. \<not> prefix ''*** '' l) lines"
    from 2(5) False obtain operation raw p shown c where s:
      "parse_file_header line = Inr (operation, raw)" "resolve_path h ws raw = Inr p" "display_path ws p = Inr shown"
      "p \<notin> set (map fst cs)" "change_for h ws fs operation p shown (strip_blank_tail ?body) = Inr c"
      "sections_loop h ws fs (cs @ [(p, c)]) ?rest = Inr cs'"
      by (auto simp: Let_def split: if_splits prod.splits)
    obtain r where "display_path ws p = Inr (as_posix r)" "resolve_path h ws (as_posix r) = Inr p"
      using resolve_path_within [OF 2(6,7) s(2)] by metis
    then have "change_ok h ws (p, c)" using change_for_ok [OF s(5)] s(3) by simp
    then have "list_all (change_ok h ws) (cs @ [(p, c)])" "distinct (map fst (cs @ [(p, c)]))"
      using 2(3,4) s(4) by auto
    then show ?thesis using 2(2) [OF False s(1) refl s(2,3,4) refl refl s(5)] s(6) 2(6,7) by blast
  qed
qed simp

text \<open>C21. A patch is applied as a whole or its progress is reported. A call of \<open>apply_patch\<close> that raises has
  left the tree of files exactly as it was. Otherwise all changes were computed from the files as they were;
  a result means that every file of the patch has the bytes computed for it, or is gone, and no other file
  has changed; a \<open>PatchApplyError\<close> names the changes in front of the failed one as completed, and exactly
  these have been made.\<close>

theorem apply_patch_applied_or_reported:
  assumes "realpath_canonical h" and "ws_ok h ws" and "files_ok fs"
    and "apply_patch h ws cancelled args fs = (fs', out)"
  shows "(\<exists>e. out = Raised e \<and> fs' = fs)
    \<or> (\<exists>patch changes. jget args ''patch'' = JStr patch \<and> prepare_changes h ws fs patch = Inr changes
         \<and> ((out = Patched (JObj [(''files'', JList (map file_entry (map snd changes)))]) \<and> patched changes fs fs')
          \<or> (\<exists>ds p c rest cls e. changes = ds @ (p, c) # rest \<and> patched ds fs fs'
               \<and> out = ApplyError (patch_apply_error (map snd ds) c (map snd rest) cls e))))"
proof -
  consider (early) e where "out = Raised e" "fs' = fs"
    | (commit) patch changes where "jget args ''patch'' = JStr patch" "prepare_changes h ws fs patch = Inr changes"
        "commit_changes h ws [] (map snd changes) fs = (fs', out)"
    using assms(4) by (auto simp: apply_patch_def split: if_splits json.splits list.splits sum.splits)
  then show ?thesis
  proof cases
    case commit
    from commit(2) obtain lines where "sections_loop h ws fs [] lines = Inr changes"
      by (auto simp: prepare_changes_def Let_def split: if_splits option.splits)
    then have "list_all (change_ok h ws) changes" "distinct (map fst changes)"
      using sections_loop_ok [OF assms(1,2), of "[]"] by auto
    from commit_changes_effect [OF assms(3) this commit(3)] show ?thesis using commit(1,2) by auto
  qed blast
qed

definition demo_patch :: string where
  "demo_patch = ''*** Begin Patch'' @ [LF] @ ''*** Update File: f'' @ [LF] @ ''@@'' @ [LF] @ ''-aaa'' @ [LF] @ ''+b'' @ [LF]
     @ ''*** Add File: d/g'' @ [LF] @ ''+new'' @ [LF] @ ''*** End Patch'' @ [LF]"

definition demo_changes :: "(path \<times> file_change) list" where
  "demo_changes = [([''w'', ''f''], \<lparr>fc_operation = Updated, fc_path = ''f'', fc_content = Some ''b''\<rparr>),
     ([''w'', ''d'', ''g''], \<lparr>fc_operation = Added, fc_path = ''d/g'', fc_content = Some (''new'' @ [LF])\<rparr>)]"

theorem apply_patch_applied_or_reported_witness:
  "patched demo_changes demo_files
     [([''w''], DirNode), ([''w'', ''f''], FileNode 420 ''b''), ([''w'', ''d''], DirNode),
      ([''w'', ''d'', ''g''], FileNode 384 (''new'' @ [LF]))]"
proof -
  let ?fs = "[([''w''], DirNode), ([''w'', ''f''], FileNode 420 ''b''), ([''w'', ''d''], DirNode),
      ([''w'', ''d'', ''g''], FileNode 384 (''new'' @ [LF]))]"
  let ?out = "Patched (JObj [(''files'', JList (map file_entry (map snd demo_changes)))])"
  have run: "apply_patch demo_host [''w''] False [(''patch'', JStr demo_patch)] demo_files = (?fs, ?out)"
    by code_simp
  have "prepare_changes demo_host [''w''] demo_files demo_patch = Inr demo_changes" by code_simp
  with apply_patch_applied_or_reported [OF demo_host_ok demo_files_ok run] show ?thesis by simp
qed

end
