(* ===== verification/Text_View.thy ===== *)
theory Text_View
  imports Apply_Patch
begin

text \<open>
  Bounded text views: \<open>agent_core/tools/budget.py\<close>, \<open>agent_core/tools/text.py\<close>,
  \<open>agent_core/tools/paths.py\<close> and the \<open>read_file\<close> tool.

  \<^item> An open text file is the text that is left to be read, its line ends translated to LF.
    \<open>readline\<close> is the method of the standard library with a limit.
    A file is decoded as a whole, the source decodes it in blocks as it reads: the two differ only for
    a file that is not UTF-8 behind the blocks that the page needs.
  \<^item> The two texts of the source with characters beyond the code points of the development (the notice
    on a truncated line and the dash of the end-of-file status) are the fields of \<open>view_texts\<close>.
  \<^item> \<open>text_lines\<close> is the reference: the lines of a text. A page is compared with the lines it covers.
\<close>

section \<open>The budget\<close>

definition MAX_TOOL_RESULT_CHARS :: nat where "MAX_TOOL_RESULT_CHARS = 32 * 1024"

text \<open>What one character occupies in a JSON string that is not restricted to ASCII.\<close>

definition escape_cost :: "char \<Rightarrow> nat" where
  "escape_cost c =
     (if of_char c \<in> set [34, 92, 8, 9, 10, 12, 13 :: nat] then 2
      else if of_char c < (32 :: nat) then 6 else 1)"

definition escaped_length :: "string \<Rightarrow> nat" where
  "escaped_length s = sum_list (map escape_cost s)"

definition envelope_chars :: "json_lib \<Rightarrow> json \<Rightarrow> nat" where
  "envelope_chars lib output = length (jl_dumps lib (JObj [(''ok'', JBool True), (''output'', output)]))"

definition output_fits :: "json_lib \<Rightarrow> json \<Rightarrow> bool" where
  "output_fits lib output \<longleftrightarrow> envelope_chars lib output \<le> MAX_TOOL_RESULT_CHARS"

lemma escaped_length_simps [simp]:
  "escaped_length [] = 0" "escaped_length (c # s) = escape_cost c + escaped_length s"
  "escaped_length (s @ t) = escaped_length s + escaped_length t"
  by (simp_all add: escaped_length_def)

lemma escape_cost_bounds: "1 \<le> escape_cost c" "escape_cost c \<le> 6"
  by (simp_all add: escape_cost_def)

lemma escaped_length_bound: "escaped_length s \<le> 6 * length s"
proof (induction s)
  case (Cons c s)
  then show ?case using escape_cost_bounds(2) [of c] by simp
qed simp

lemma length_le_escaped: "length s \<le> escaped_length s"
proof (induction s)
  case (Cons c s)
  then show ?case using escape_cost_bounds(1) [of c] by simp
qed simp

section \<open>Reading lines\<close>

definition DEFAULT_READ_LIMIT :: nat where "DEFAULT_READ_LIMIT = 2000"
definition MAX_FILE_SIZE_BYTES :: nat where "MAX_FILE_SIZE_BYTES = 50 * 1024 * 1024"
definition MAX_ARTIFACT_LINE_CHARS :: nat where "MAX_ARTIFACT_LINE_CHARS = MAX_TOOL_RESULT_CHARS div 8"
definition STATUS_RESERVE_CHARS :: nat where "STATUS_RESERVE_CHARS = 256"
definition DISCARD_CHUNK_CHARS :: nat where "DISCARD_CHUNK_CHARS = 8192"

record view_texts =
  vt_truncated :: string
  vt_end_of_file :: string

text \<open>\<open>file.readline(n)\<close> for a positive \<open>n\<close>: what is read and what is left.\<close>

fun readline :: "nat \<Rightarrow> string \<Rightarrow> string \<times> string" where
  "readline n [] = ([], [])"
| "readline n (c # cs) =
     (if n = 0 then ([], c # cs)
      else if c = LF then ([LF], cs)
      else let (chunk, rest) = readline (n - 1) cs in (c # chunk, rest))"

lemma readline_append: "fst (readline n s) @ snd (readline n s) = s"
  by (induction n s rule: readline.induct) (auto split: prod.splits)

lemma readline_Nil_iff: "0 < n \<Longrightarrow> fst (readline n s) = [] \<longleftrightarrow> s = []"
  by (cases s) (auto split: prod.splits)

lemma readline_shorter: "0 < n \<Longrightarrow> s \<noteq> [] \<Longrightarrow> length (snd (readline n s)) < length s"
  using readline_append [of n s] readline_Nil_iff [of n s]
  by (metis length_append length_greater_0_conv less_add_same_cancel2)

text \<open>The loop that reads to the end of an overlong line; the flag says that the file ended.\<close>

function discard_line :: "string \<Rightarrow> bool \<times> string" where
  "discard_line s =
     (let (remainder, rest) = readline DISCARD_CHUNK_CHARS s in
      if remainder = [] then (True, rest)
      else if last remainder = LF then (False, rest)
      else discard_line rest)"
  by pat_completeness auto

termination discard_line
proof (relation "measure length", simp)
  fix s x remainder rest
  assume "x = readline DISCARD_CHUNK_CHARS s" "(remainder, rest) = x" "remainder \<noteq> []"
  then have x: "readline DISCARD_CHUNK_CHARS s = (remainder, rest)" and "remainder \<noteq> []" by simp_all
  then have "s \<noteq> []" by auto
  then show "(rest, s) \<in> measure length"
    using readline_shorter [of DISCARD_CHUNK_CHARS s] x by (simp add: DISCARD_CHUNK_CHARS_def)
qed

declare discard_line.simps [simp del]

definition read_line_bounded :: "nat \<Rightarrow> string \<Rightarrow> string option \<times> bool \<times> bool \<times> string" where
  "read_line_bounded max_chars s =
     (let (chunk, rest) = readline (Suc max_chars) s in
      if chunk = [] then (None, False, True, rest)
      else if last chunk = LF then (Some (butlast chunk), False, False, rest)
      else if length chunk \<le> max_chars then (Some chunk, False, True, rest)
      else let (ended, rest') = discard_line rest in (Some (take max_chars chunk), True, ended, rest'))"

fun skip_lines :: "nat \<Rightarrow> string \<Rightarrow> nat \<times> string" where
  "skip_lines 0 s = (0, s)"
| "skip_lines (Suc n) s =
     (case read_line_bounded 0 s of
        (None, _, _, rest) \<Rightarrow> (0, rest)
      | (Some _, _, _, rest) \<Rightarrow> let (k, rest') = skip_lines n rest in (Suc k, rest'))"

fun trim_to_escaped_from :: "nat \<Rightarrow> nat \<Rightarrow> string \<Rightarrow> string" where
  "trim_to_escaped_from used budget [] = []"
| "trim_to_escaped_from used budget (c # cs) =
     (if used + escape_cost c > budget then [] else c # trim_to_escaped_from (used + escape_cost c) budget cs)"

definition trim_to_escaped :: "string \<Rightarrow> nat \<Rightarrow> string" where
  "trim_to_escaped line budget = trim_to_escaped_from 0 budget line"

section \<open>One page\<close>

definition line_prefix :: "nat \<Rightarrow> string" where
  "line_prefix n = nat_str n @ ''| ''"

record page =
  pg_lines :: "string list"
  pg_next :: nat
  pg_rest :: string
  pg_eof :: bool
  pg_next_offset :: "nat option"
  pg_limit_reached :: bool

text \<open>One round of the loop of \<open>read_text_range\<close>: it stops with a page (\<open>Inl\<close>) or goes on with one more
  line, the characters used and the rest of the file.\<close>

definition stopped :: "string list \<Rightarrow> nat \<Rightarrow> string \<Rightarrow> bool \<Rightarrow> nat option \<Rightarrow> bool \<Rightarrow> page" where
  "stopped rendered line_number rest eof next_offset limit_reached =
     \<lparr>pg_lines = rendered, pg_next = line_number, pg_rest = rest, pg_eof = eof, pg_next_offset = next_offset,
      pg_limit_reached = limit_reached\<rparr>"

definition page_step :: "view_texts \<Rightarrow> nat \<Rightarrow> string list \<Rightarrow> nat \<Rightarrow> nat \<Rightarrow> string \<Rightarrow> page + string list \<times> nat \<times> string" where
  "page_step vt budget rendered body line_number rest =
     (let pre = line_prefix line_number;
          notice = escaped_length (vt_truncated vt);
          used = body + (if rendered = [] then 0 else 2) + length pre;
          available = budget - used
      in if budget < used + notice
         then Inl (stopped rendered line_number rest False (Some line_number) True)
         else
           (case read_line_bounded (budget - length pre) rest of
              (None, _, _, rest') \<Rightarrow> Inl (stopped rendered line_number rest' True None False)
            | (Some line, truncated, ended, rest') \<Rightarrow>
                if truncated \<or> available < escaped_length line then
                  if rendered \<noteq> []
                  then Inl (stopped rendered line_number rest False (Some line_number) True)
                  else
                    Inl (stopped (rendered @ [pre @ trim_to_escaped line (available - notice) @ vt_truncated vt])
                      (Suc line_number) rest' ended (if ended then None else Some (Suc line_number)) True)
                else if ended
                then Inl (stopped (rendered @ [pre @ line]) (Suc line_number) rest' True None False)
                else Inr (rendered @ [pre @ line], used + escaped_length line, rest')))"

text \<open>The loop; \<open>left\<close> is how many more lines it may show.\<close>

primrec page_loop :: "view_texts \<Rightarrow> nat \<Rightarrow> nat \<Rightarrow> string list \<Rightarrow> nat \<Rightarrow> nat \<Rightarrow> string \<Rightarrow> page" where
  "page_loop vt budget 0 rendered body line_number rest = stopped rendered line_number rest False None False"
| "page_loop vt budget (Suc left) rendered body line_number rest =
     (case page_step vt budget rendered body line_number rest of
        Inl p \<Rightarrow> p
      | Inr (rendered', body', rest') \<Rightarrow> page_loop vt budget left rendered' body' (Suc line_number) rest')"

text \<open>The look ahead behind the loop.\<close>

definition look_ahead :: "page \<Rightarrow> page" where
  "look_ahead p =
     (if pg_eof p \<or> pg_next_offset p \<noteq> None then p
      else (case fst (read_line_bounded 0 (pg_rest p)) of
          None \<Rightarrow> p\<lparr>pg_eof := True\<rparr>
        | Some _ \<Rightarrow> p\<lparr>pg_next_offset := Some (pg_next p)\<rparr>))"

definition view_status :: "view_texts \<Rightarrow> nat \<Rightarrow> page \<Rightarrow> string" where
  "view_status vt offset p =
     (let end_line = pg_next p - 1;
          limit_text = (if pg_limit_reached p then ''. character limit reached'' else [])
      in if pg_eof p then ''('' @ vt_end_of_file vt @ nat_str end_line @ '' lines total'' @ limit_text @ '')''
         else
           ''('' @ (if end_line < offset then ''No complete lines shown''
                 else if offset = end_line then ''Showing line '' @ nat_str end_line
                 else ''Showing lines '' @ nat_str offset @ ''-'' @ nat_str end_line)
             @ limit_text
             @ (case pg_next_offset p of None \<Rightarrow> [] | Some n \<Rightarrow> ''. Use offset='' @ nat_str n @ '' to continue'') @ ''.)'')"

definition join_content :: "string list \<Rightarrow> string \<Rightarrow> string" where
  "join_content rendered status = (if rendered = [] then status else py_join [LF] rendered @ [LF, LF] @ status)"

definition read_page :: "view_texts \<Rightarrow> nat \<Rightarrow> nat \<Rightarrow> nat \<Rightarrow> string \<Rightarrow> page" where
  "read_page vt offset limit budget rest = look_ahead (page_loop vt budget limit [] 0 offset rest)"

definition read_text_range :: "view_texts \<Rightarrow> string \<Rightarrow> nat \<Rightarrow> nat \<Rightarrow> nat \<Rightarrow> string" where
  "read_text_range vt s offset limit budget =
     (let (skipped, rest) = skip_lines (offset - 1) s in
      if skipped < offset - 1 then ''('' @ vt_end_of_file vt @ nat_str skipped @ '' lines total)''
      else (let p = read_page vt offset limit budget rest in join_content (pg_lines p) (view_status vt offset p)))"


text \<open>The artifact writer: a line longer than the limit is continued on the next line. The state is the
  chunk in hand and the rest of the source.\<close>

function artifact_loop :: "string \<Rightarrow> string \<Rightarrow> string" where
  "artifact_loop chunk rest =
     (if chunk = [] then []
      else if length chunk > MAX_ARTIFACT_LINE_CHARS \<and> last chunk \<noteq> LF then
        (let (c, rest') = readline MAX_ARTIFACT_LINE_CHARS rest in
         take MAX_ARTIFACT_LINE_CHARS chunk @ [LF] @ artifact_loop (drop MAX_ARTIFACT_LINE_CHARS chunk @ c) rest')
      else
        (let (c, rest') = readline (Suc MAX_ARTIFACT_LINE_CHARS) rest in chunk @ artifact_loop c rest'))"
  by pat_completeness auto

lemma readline_length: "length (fst (readline n s)) + length (snd (readline n s)) = length s"
  by (metis length_append readline_append)

lemma MAX_ARTIFACT_pos: "0 < MAX_ARTIFACT_LINE_CHARS"
  by (simp add: MAX_ARTIFACT_LINE_CHARS_def MAX_TOOL_RESULT_CHARS_def)

termination artifact_loop
proof (relation "measure (\<lambda>(chunk, rest). length chunk + length rest)", simp)
  fix chunk rest :: string and x c rest'
  assume a: "chunk \<noteq> []" "MAX_ARTIFACT_LINE_CHARS < length chunk \<and> last chunk \<noteq> LF"
    "x = readline MAX_ARTIFACT_LINE_CHARS rest" "(c, rest') = x"
  then have "length c + length rest' = length rest"
    using readline_length [of MAX_ARTIFACT_LINE_CHARS rest] by (metis fst_conv snd_conv)
  then show "((drop MAX_ARTIFACT_LINE_CHARS chunk @ c, rest'), chunk, rest)
      \<in> measure (\<lambda>(chunk, rest). length chunk + length rest)"
    using a(2) MAX_ARTIFACT_pos by (simp, linarith)
next
  fix chunk rest :: string and x c rest'
  assume a: "chunk \<noteq> []" "x = readline (Suc MAX_ARTIFACT_LINE_CHARS) rest" "(c, rest') = x"
  then have "length c + length rest' = length rest"
    using readline_length [of "Suc MAX_ARTIFACT_LINE_CHARS" rest] by (metis fst_conv snd_conv)
  then show "((c, rest'), chunk, rest) \<in> measure (\<lambda>(chunk, rest). length chunk + length rest)"
    using a(1) by simp
qed

declare artifact_loop.simps [simp del]

definition write_text_artifact :: "string \<Rightarrow> string \<times> nat" where
  "write_text_artifact s =
     (let (chunk, rest) = readline (Suc MAX_ARTIFACT_LINE_CHARS) s; out = artifact_loop chunk rest
      in (out, length out))"

section \<open>The read\_file tool\<close>

definition read_text_file :: "json_lib \<Rightarrow> view_texts \<Rightarrow> host \<Rightarrow> files \<Rightarrow> path \<Rightarrow> jobj \<Rightarrow> nat \<Rightarrow> nat \<Rightarrow> string \<Rightarrow> json res" where
  "read_text_file lib vt h fs p metadata offset limit tool_name =
     (case node_at fs p of
        Some (FileNode _ content) \<Rightarrow>
          (let size = length content in
           if size > MAX_FILE_SIZE_BYTES
           then Inl (ValueError (tool_name @ '' refused file because its size is '' @ nat_str size
             @ '' bytes, exceeding the maximum of '' @ nat_str MAX_FILE_SIZE_BYTES @ '' bytes''))
           else
             (let output = AList.update ''content'' (JStr []) (AList.update ''file_size_bytes'' (JInt (int size)) metadata);
                  budget = MAX_TOOL_RESULT_CHARS - envelope_chars lib (JObj output) - STATUS_RESERVE_CHARS
              in res_bind (read_bytes h fs p) (\<lambda>bytes.
                 case utf8_decode bytes of
                   Inl UnicodeDecodeError \<Rightarrow> Inl (ValueError (tool_name @ '' requires a UTF-8 text file''))
                 | Inl e \<Rightarrow> Inl e
                 | Inr s \<Rightarrow> Inr (JObj (AList.update ''content''
                     (JStr (read_text_range vt (universal_newlines s) offset limit budget)) output)))))
      | Some DirNode \<Rightarrow> Inl (OSError ''IsADirectoryError'')
      | None \<Rightarrow> Inl (OSError ''FileNotFoundError''))"

text \<open>\<open>paths.resolve_readable_path\<close>: a path below \<open>.nosis/sessions\<close> is resolved in the Session root.\<close>

definition SESSION_MARKER :: path where "SESSION_MARKER = [''.nosis'', ''sessions'']"

definition resolve_readable_path :: "host \<Rightarrow> path \<Rightarrow> path \<Rightarrow> string \<Rightarrow> (path \<times> string) res" where
  "resolve_readable_path h ws sessions path =
     (if \<not> is_absolute path \<and> prefix SESSION_MARKER (path_parts path) then
        res_bind (h_realpath h (sessions @ drop (length SESSION_MARKER) (path_parts path))) (\<lambda>resolved.
          case relative_to_root resolved sessions of
            Inl _ \<Rightarrow> Inl (ValueError ''session artifact path must stay within sessions'')
          | Inr _ \<Rightarrow> Inr (resolved, as_posix (path_parts path)))
      else
        res_bind (resolve_path h ws path) (\<lambda>resolved.
        res_bind (relative_to_root resolved ws) (\<lambda>shown. Inr (resolved, as_posix shown))))"

definition positive_int :: "jobj \<Rightarrow> string \<Rightarrow> nat \<Rightarrow> nat res" where
  "positive_int args key fallback =
     (let bad = Inl (ValueError (''read_file requires '' @ quoted key @ '' to be a positive integer''))
      in case map_of args key of
           None \<Rightarrow> Inr fallback
         | Some (JInt i) \<Rightarrow> if i < 1 then bad else Inr (nat i)
         | Some _ \<Rightarrow> bad)"

definition read_file_arguments :: "jobj \<Rightarrow> (string \<times> nat \<times> nat) res" where
  "read_file_arguments args =
     (case jget args ''path'' of
        JStr (c # cs) \<Rightarrow>
          res_bind (positive_int args ''offset'' 1) (\<lambda>offset.
          res_bind (positive_int args ''limit'' DEFAULT_READ_LIMIT) (\<lambda>limit.
            if \<not> set (map fst args) \<subseteq> {''path'', ''offset'', ''limit''}
            then Inl (ValueError (''read_file accepts only '' @ quoted ''path'' @ '', '' @ quoted ''offset'' @ '', and '' @ quoted ''limit''))
            else Inr (c # cs, offset, limit)))
      | _ \<Rightarrow> Inl (ValueError (''read_file requires a non-empty string '' @ quoted ''path'')))"

definition read_file :: "json_lib \<Rightarrow> view_texts \<Rightarrow> host \<Rightarrow> path \<Rightarrow> path \<Rightarrow> files \<Rightarrow> jobj \<Rightarrow> json res" where
  "read_file lib vt h ws sessions fs args =
     res_bind (read_file_arguments args) (\<lambda>(path, offset, limit).
     res_bind (resolve_readable_path h ws sessions path) (\<lambda>(file_path, shown).
       read_text_file lib vt h fs file_path [(''path'', JStr shown)] offset limit ''read_file''))"

section \<open>Pages against the lines of the text\<close>

definition first_line :: "string \<Rightarrow> string" where
  "first_line s = takeWhile (\<lambda>c. c \<noteq> LF) s"

definition after_line :: "string \<Rightarrow> string" where
  "after_line s = drop (Suc (length (first_line s))) s"

lemma after_line_shorter [termination_simp]: "s \<noteq> [] \<Longrightarrow> length (after_line s) < length s"
  by (cases s) (auto simp: after_line_def less_Suc_eq_le)

fun text_lines :: "string \<Rightarrow> string list" where
  "text_lines s = (if s = [] then [] else first_line s # text_lines (after_line s))"

declare text_lines.simps [simp del]

lemma text_lines_Nil [simp]: "text_lines [] = []"
  by (simp add: text_lines.simps)

lemma text_lines_step: "s \<noteq> [] \<Longrightarrow> text_lines s = first_line s # text_lines (after_line s)"
  by (simp add: text_lines.simps)

lemma first_line_Cons [simp]:
  "first_line (c # s) = (if c = LF then [] else c # first_line s)"
  "after_line (c # s) = (if c = LF then s else after_line s)"
  "first_line [] = []" "after_line [] = []"
  by (simp_all add: first_line_def after_line_def)

lemma readline_whole:
  "length (first_line s) < n \<Longrightarrow> readline n s = (first_line s @ (if LF \<in> set s then [LF] else []), after_line s)"
  by (induction n s rule: readline.induct) (auto split: prod.splits)

lemma readline_part: "n \<le> length (first_line s) \<Longrightarrow> readline n s = (take n s, drop n s)"
  by (induction n s rule: readline.induct) (auto simp: take_Cons' drop_Cons' split: if_splits prod.splits)

lemma first_line_no_LF: "LF \<notin> set s \<Longrightarrow> first_line s = s \<and> after_line s = []"
  by (induction s) auto

lemma no_LF_in_part: "n \<le> length (first_line s) \<Longrightarrow> LF \<notin> set (take n s)"
  by (induction s arbitrary: n) (auto simp: take_Cons' split: if_splits)

lemma after_line_drop: "n \<le> length (first_line s) \<Longrightarrow> after_line (drop n s) = after_line s"
  by (induction s arbitrary: n) (auto simp: drop_Cons' split: if_splits)

lemma take_first_line: "n \<le> length (first_line s) \<Longrightarrow> take n s = take n (first_line s)"
  by (induction s arbitrary: n) (auto simp: take_Cons' split: if_splits)

lemma no_LF_last: "LF \<notin> set s \<Longrightarrow> s \<noteq> [] \<Longrightarrow> last s \<noteq> LF"
  using last_in_set by metis

lemma LF_in_drop: "n \<le> length (first_line s) \<Longrightarrow> LF \<in> set (drop n s) \<longleftrightarrow> LF \<in> set s"
  using no_LF_in_part [of n s] by (metis UnE append_take_drop_id in_set_dropD set_append)

lemma discard_line_spec: "discard_line s = (LF \<notin> set s, after_line s)"
proof (induction s rule: discard_line.induct)
  case (1 s)
  show ?case
  proof (cases "length (first_line s) < DISCARD_CHUNK_CHARS")
    case True
    then show ?thesis
      using 1 [OF refl] first_line_no_LF [of s] no_LF_last [of s]
      by (subst discard_line.simps) (auto simp: readline_whole)
  next
    case False
    let ?n = DISCARD_CHUNK_CHARS
    have s: "s \<noteq> []" using False by (auto simp: DISCARD_CHUNK_CHARS_def)
    have n: "?n \<le> length (first_line s)" using False by simp
    have r: "readline ?n s = (take ?n s, drop ?n s)" using n by (rule readline_part)
    have t: "take ?n s \<noteq> []" "last (take ?n s) \<noteq> LF"
      using s no_LF_last [OF no_LF_in_part [OF n]] by (auto simp: DISCARD_CHUNK_CHARS_def)
    have "discard_line s = discard_line (drop ?n s)" using r t by (subst discard_line.simps) simp
    also have "\<dots> = (LF \<notin> set (drop ?n s), after_line (drop ?n s))" using 1 [OF r [symmetric] refl t] .
    also have "\<dots> = (LF \<notin> set s, after_line s)"
      by (simp add: LF_in_drop [OF n] after_line_drop [OF n])
    finally show ?thesis .
  qed
qed

lemma read_line_bounded_spec:
  assumes "s \<noteq> []"
  shows "read_line_bounded m s = (Some (take m (first_line s)), m < length (first_line s), LF \<notin> set s, after_line s)"
proof (cases "m < length (first_line s)")
  case True
  then have n: "Suc m \<le> length (first_line s)" by simp
  have l: "length (take (Suc m) s) = Suc m"
    using n by (metis (no_types) length_take min.absorb2 take_first_line)
  have t: "take (Suc m) s \<noteq> []" "last (take (Suc m) s) \<noteq> LF"
    using assms no_LF_last [OF no_LF_in_part [OF n]] by auto
  then show ?thesis
    using l after_line_drop [OF n] take_first_line [of m s] True
    by (simp add: read_line_bounded_def readline_part [OF n] discard_line_spec LF_in_drop [OF n] min_def)
next
  case False
  then show ?thesis using assms first_line_no_LF [of s] no_LF_last [of s]
    by (auto simp: read_line_bounded_def readline_whole)
qed

lemma read_line_bounded_Nil [simp]: "read_line_bounded m [] = (None, False, True, [])"
  by (simp add: read_line_bounded_def)

lemma skip_lines_spec:
  "fst (skip_lines k s) = min k (length (text_lines s)) \<and> text_lines (snd (skip_lines k s)) = drop k (text_lines s)"
proof (induction k arbitrary: s)
  case (Suc k)
  show ?case
  proof (cases "s = []")
    case False
    then show ?thesis using Suc [of "after_line s"]
      by (auto simp: read_line_bounded_spec text_lines_step split: prod.splits)
  qed simp
qed simp


text \<open>How a line is shown: whole, or, when it does not fit a page of its own, cut with a notice.\<close>

definition shown_line :: "view_texts \<Rightarrow> nat \<Rightarrow> nat \<times> string \<Rightarrow> string \<Rightarrow> bool" where
  "shown_line vt budget il out \<longleftrightarrow> (case il of (i, line) \<Rightarrow>
     out = line_prefix i @ line
     \<or> budget < length (line_prefix i) + escaped_length line
       \<and> (\<exists>j \<le> length line. out = line_prefix i @ take j line @ vt_truncated vt))"

text \<open>A page that starts at line \<open>n\<close> of the lines \<open>ls\<close> shows the first \<open>k\<close> of them, and says truly whether
  these are all and where the next page starts.\<close>

definition page_covers :: "view_texts \<Rightarrow> nat \<Rightarrow> nat \<Rightarrow> string list \<Rightarrow> string list \<Rightarrow> nat \<Rightarrow> page \<Rightarrow> bool" where
  "page_covers vt budget n ls rendered k p \<longleftrightarrow> k \<le> length ls \<and> pg_next p = n + k
     \<and> (\<exists>outs. pg_lines p = rendered @ outs \<and> list_all2 (shown_line vt budget) (enumerate n (take k ls)) outs)
     \<and> (pg_eof p \<longrightarrow> k = length ls) \<and> (\<forall>m. pg_next_offset p = Some m \<longrightarrow> m = n + k)
     \<and> (\<not> pg_eof p \<and> pg_next_offset p = None \<longrightarrow> text_lines (pg_rest p) = drop k ls)"

lemma trim_to_escaped_from_take: "\<exists>j \<le> length line. trim_to_escaped_from u b line = take j line"
proof (induction line arbitrary: u)
  case (Cons c line)
  show ?case
  proof (cases "u + escape_cost c > b")
    case True
    then show ?thesis by (intro exI [of _ 0]) simp
  next
    case False
    obtain j where "j \<le> length line" "trim_to_escaped_from (u + escape_cost c) b line = take j line"
      using Cons by blast
    then show ?thesis using False by (intro exI [of _ "Suc j"]) simp
  qed
qed simp

lemma trim_to_escaped_take: "\<exists>j \<le> length line. trim_to_escaped line b = take j line"
  unfolding trim_to_escaped_def by (rule trim_to_escaped_from_take)

lemma stopped_sel [simp]:
  "pg_lines (stopped r n rest e nxt l) = r" "pg_next (stopped r n rest e nxt l) = n" "pg_rest (stopped r n rest e nxt l) = rest"
  "pg_eof (stopped r n rest e nxt l) = e" "pg_next_offset (stopped r n rest e nxt l) = nxt"
  by (simp_all add: stopped_def)

lemma page_covers_none:
  "page_covers vt budget n (text_lines rest) rendered 0 (stopped rendered n rest' eof nxt lim)
   \<longleftrightarrow> (eof \<longrightarrow> rest = []) \<and> (\<forall>m. nxt = Some m \<longrightarrow> m = n) \<and> (\<not> eof \<and> nxt = None \<longrightarrow> text_lines rest' = text_lines rest)"
  by (cases "rest = []") (auto simp: page_covers_def text_lines_step)

lemma page_covers_one:
  assumes "rest \<noteq> []" and "shown_line vt budget (n, first_line rest) out" and "eof \<longrightarrow> after_line rest = []"
    and "\<forall>m. nxt = Some m \<longrightarrow> m = Suc n" and "\<not> eof \<longrightarrow> nxt \<noteq> None"
  shows "page_covers vt budget n (text_lines rest) rendered 1 (stopped (rendered @ [out]) (Suc n) rest' eof nxt lim)"
  using assms by (auto simp: page_covers_def text_lines_step)

lemma page_covers_Cons:
  assumes "rest \<noteq> []" and "shown_line vt budget (n, first_line rest) out"
    and "page_covers vt budget (Suc n) (text_lines (after_line rest)) (rendered @ [out]) k p"
  shows "page_covers vt budget n (text_lines rest) rendered (Suc k) p"
  using assms by (auto simp: page_covers_def text_lines_step)

text \<open>What one round does: it stops with a page that covers nothing or one line more, or goes on behind one
  line more.\<close>

lemma page_step_cases:
  fixes vt :: view_texts and n :: nat
  assumes "rendered = [] \<longrightarrow> body = 0"
  defines "need \<equiv> body + (if rendered = [] then 0 else 2) + length (line_prefix n) + escaped_length (vt_truncated vt)"
  shows "(\<exists>p k. page_step vt budget rendered body n rest = Inl p \<and> page_covers vt budget n (text_lines rest) rendered k p
            \<and> (rest \<noteq> [] \<and> rendered = [] \<and> need \<le> budget \<longrightarrow> k = 1))
       \<or> (\<exists>b. rest \<noteq> [] \<and> shown_line vt budget (n, first_line rest) (line_prefix n @ first_line rest)
            \<and> page_step vt budget rendered body n rest
                = Inr (rendered @ [line_prefix n @ first_line rest], b, after_line rest))"
proof (cases "budget < need \<or> rest = []")
  case True
  show ?thesis
  proof (cases "budget < need")
    case True
    then show ?thesis
      by (intro disjI1 exI [of _ "stopped rendered n rest False (Some n) True"] exI [of _ 0])
        (auto simp: page_step_def need_def Let_def page_covers_none)
  next
    case False
    then show ?thesis using True
      by (intro disjI1 exI [of _ "stopped rendered n [] True None False"] exI [of _ 0])
        (auto simp: page_step_def need_def Let_def page_covers_def)
  qed
next
  case False
  then have rest: "rest \<noteq> []" and need: "need \<le> budget" by auto
  let ?pre = "line_prefix n" and ?l = "first_line rest"
  let ?m = "budget - length ?pre"
  let ?av = "budget - (body + (if rendered = [] then 0 else 2) + length ?pre)"
  note rl = read_line_bounded_spec [OF rest, of ?m]
  have nb: "\<not> budget < body + (if rendered = [] then 0 else 2) + length ?pre + escaped_length (vt_truncated vt)"
    using need by (simp add: need_def)
  show ?thesis
  proof (cases "?m < length ?l \<or> ?av < escaped_length (take ?m ?l)")
    case long: True
    show ?thesis
    proof (cases "rendered = []")
      case False
      then show ?thesis using long rest nb rl
        by (intro disjI1 exI [of _ "stopped rendered n rest False (Some n) True"] exI [of _ 0])
          (auto simp: page_step_def Let_def page_covers_none)
    next
      case True
      then have b: "body = 0" using assms(1) by simp
      have over: "budget < length ?pre + escaped_length ?l"
        using long True b length_le_escaped [of ?l] by (cases "?m < length ?l") auto
      obtain j where j: "j \<le> length (take ?m ?l)"
          "trim_to_escaped (take ?m ?l) (?av - escaped_length (vt_truncated vt)) = take j (take ?m ?l)"
        using trim_to_escaped_take by blast
      let ?out = "?pre @ trim_to_escaped (take ?m ?l) (?av - escaped_length (vt_truncated vt)) @ vt_truncated vt"
      have "shown_line vt budget (n, ?l) ?out"
        using over j by (auto simp: shown_line_def intro!: exI [of _ j])
      let ?p = "stopped (rendered @ [?out]) (Suc n) (after_line rest) (LF \<notin> set rest)
             (if LF \<notin> set rest then None else Some (Suc n)) True"
      have "page_covers vt budget n (text_lines rest) rendered 1 ?p"
        using \<open>shown_line vt budget (n, ?l) ?out\<close> rest first_line_no_LF [of rest] by (intro page_covers_one) auto
      moreover have "page_step vt budget rendered body n rest = Inl ?p"
        using long True rest nb rl by (auto simp: page_step_def Let_def)
      ultimately show ?thesis by (intro disjI1 exI [of _ ?p] exI [of _ 1]) simp
    qed
  next
    case False
    then have t: "take ?m ?l = ?l" by simp
    have sh: "shown_line vt budget (n, ?l) (?pre @ ?l)" by (simp add: shown_line_def)
    show ?thesis
    proof (cases "LF \<in> set rest")
      case True
      then show ?thesis using False t rest nb rl sh
        by (intro disjI2) (auto simp: page_step_def Let_def)
    next
      case end_: False
      let ?p = "stopped (rendered @ [?pre @ ?l]) (Suc n) (after_line rest) True None False"
      have "page_covers vt budget n (text_lines rest) rendered 1 ?p"
        using rest sh first_line_no_LF [OF end_] by (intro page_covers_one) auto
      moreover have "page_step vt budget rendered body n rest = Inl ?p"
        using False t rest nb rl end_ by (auto simp: page_step_def Let_def)
      ultimately show ?thesis by (intro disjI1 exI [of _ ?p] exI [of _ 1]) simp
    qed
  qed
qed


lemma page_loop_covers:
  "(rendered = [] \<longrightarrow> body = 0) \<Longrightarrow>
   \<exists>k. page_covers vt budget n (text_lines rest) rendered k (page_loop vt budget left rendered body n rest)
     \<and> (rest \<noteq> [] \<and> rendered = [] \<and> 0 < left
        \<and> length (line_prefix n) + escaped_length (vt_truncated vt) \<le> budget \<longrightarrow> 0 < k)"
proof (induction left arbitrary: rendered body n rest)
  case 0
  then show ?case by (intro exI [of _ 0]) (simp add: page_covers_none)
next
  case (Suc left)
  from page_step_cases [where vt = vt and n = n and budget = budget and rest = rest, OF Suc.prems] show ?case
  proof (elim disjE exE conjE)
    fix p k assume "page_step vt budget rendered body n rest = Inl p" "page_covers vt budget n (text_lines rest) rendered k p"
      "rest \<noteq> [] \<and> rendered = [] \<and> body + (if rendered = [] then 0 else 2) + length (line_prefix n)
         + escaped_length (vt_truncated vt) \<le> budget \<longrightarrow> k = 1"
    then show ?thesis using Suc.prems by (intro exI [of _ k]) auto
  next
    fix b assume s: "rest \<noteq> []" "shown_line vt budget (n, first_line rest) (line_prefix n @ first_line rest)"
      "page_step vt budget rendered body n rest = Inr (rendered @ [line_prefix n @ first_line rest], b, after_line rest)"
    obtain k where "page_covers vt budget (Suc n) (text_lines (after_line rest)) (rendered @ [line_prefix n @ first_line rest]) k
        (page_loop vt budget left (rendered @ [line_prefix n @ first_line rest]) b (Suc n) (after_line rest))"
      using Suc.IH [of "rendered @ [line_prefix n @ first_line rest]" b "Suc n" "after_line rest"] by blast
    from page_covers_Cons [OF s(1,2) this] show ?thesis using s(3) by (intro exI [of _ "Suc k"]) simp
  qed
qed

lemma look_ahead_covers:
  assumes "page_covers vt budget n (text_lines rest) rendered k p"
  shows "page_covers vt budget n (text_lines rest) rendered k (look_ahead p)
    \<and> (pg_eof (look_ahead p) \<or> pg_next_offset (look_ahead p) = Some (n + k)) \<and> pg_lines (look_ahead p) = pg_lines p"
proof (cases "pg_eof p \<or> pg_next_offset p \<noteq> None")
  case True
  then show ?thesis using assms by (auto simp: look_ahead_def page_covers_def)
next
  case False
  then have r: "text_lines (pg_rest p) = drop k (text_lines rest)" using assms by (simp add: page_covers_def)
  show ?thesis
  proof (cases "pg_rest p = []")
    case True
    then have "k = length (text_lines rest)" using r assms by (simp add: page_covers_def)
    then show ?thesis using False True assms by (auto simp: look_ahead_def page_covers_def)
  next
    case nonempty: False
    then have "look_ahead p = p\<lparr>pg_next_offset := Some (pg_next p)\<rparr>"
      using False by (simp add: look_ahead_def read_line_bounded_spec)
    then show ?thesis using False assms by (auto simp: page_covers_def)
  qed
qed

lemma read_page_covers:
  assumes "0 < limit" and "length (line_prefix n) + escaped_length (vt_truncated vt) \<le> budget"
  obtains k where "page_covers vt budget n (text_lines rest) [] k (read_page vt n limit budget rest)"
    "rest \<noteq> [] \<longrightarrow> 0 < k" "pg_eof (read_page vt n limit budget rest) \<or> pg_next_offset (read_page vt n limit budget rest) = Some (n + k)"
proof -
  obtain k where k: "page_covers vt budget n (text_lines rest) [] k (page_loop vt budget limit [] 0 n rest)" "rest \<noteq> [] \<longrightarrow> 0 < k"
    using page_loop_covers [of "[]" 0 vt budget n rest limit] assms by auto
  from look_ahead_covers [OF k(1)] k(2) show thesis by (intro that [of k]) (simp_all add: read_page_def)
qed

section \<open>Reading a file page by page\<close>

text \<open>What a caller does that follows the offsets of the status lines: the lines shown in all, or None when
  the given number of calls does not reach the end of the file.\<close>

primrec read_through :: "view_texts \<Rightarrow> string \<Rightarrow> nat \<Rightarrow> nat \<Rightarrow> nat \<Rightarrow> nat \<Rightarrow> string list option" where
  "read_through vt s limit budget 0 offset = None"
| "read_through vt s limit budget (Suc calls) offset =
     (let p = read_page vt offset limit budget (snd (skip_lines (offset - 1) s)) in
      if pg_eof p then Some (pg_lines p)
      else (case pg_next_offset p of
          None \<Rightarrow> None
        | Some m \<Rightarrow> map_option ((@) (pg_lines p)) (read_through vt s limit budget calls m)))"

lemma nat_str_length: "n < 10 ^ Suc k \<Longrightarrow> length (nat_str n) \<le> Suc k"
proof (induction k arbitrary: n)
  case 0
  then show ?case by (simp add: nat_str.simps [of n])
next
  case (Suc k)
  have "length (nat_str (n div 10)) \<le> Suc k" using Suc.prems by (intro Suc.IH) (simp add: less_mult_imp_div_less)
  then show ?case by (simp add: nat_str.simps [of n])
qed

lemma line_prefix_length: "n < 10 ^ Suc k \<Longrightarrow> length (line_prefix n) \<le> k + 3"
  using nat_str_length [of n k] by (simp add: line_prefix_def)

lemma read_through_from:
  assumes "0 < limit" and "n \<le> length (text_lines s)" and "length (text_lines s) < 10 ^ 8 - 1"
    and "10 + escaped_length (vt_truncated vt) \<le> budget" and "length (text_lines s) - n < calls"
  shows "\<exists>outs. read_through vt s limit budget calls (Suc n) = Some outs
    \<and> list_all2 (shown_line vt budget) (enumerate (Suc n) (drop n (text_lines s))) outs"
  using assms(2,5)
proof (induction calls arbitrary: n)
  case (Suc calls)
  let ?ls = "drop n (text_lines s)" and ?rest = "snd (skip_lines n s)"
  have ls: "text_lines ?rest = ?ls" using skip_lines_spec by blast
  have "length (line_prefix (Suc n)) \<le> 10" using Suc.prems(1) assms(3) line_prefix_length [of "Suc n" 7] by simp
  then have b: "length (line_prefix (Suc n)) + escaped_length (vt_truncated vt) \<le> budget" using assms(4) by simp
  let ?p = "read_page vt (Suc n) limit budget ?rest"
  obtain k where k: "page_covers vt budget (Suc n) ?ls [] k ?p" "?rest \<noteq> [] \<longrightarrow> 0 < k"
      "pg_eof ?p \<or> pg_next_offset ?p = Some (Suc n + k)"
    using read_page_covers [OF assms(1) b, of ?rest] unfolding ls by metis
  have lines: "list_all2 (shown_line vt budget) (enumerate (Suc n) (take k ?ls)) (pg_lines ?p)" "k \<le> length ?ls"
    using k(1) by (auto simp: page_covers_def)
  show ?case
  proof (cases "pg_eof ?p")
    case True
    then have "take k ?ls = ?ls" using k(1) by (simp add: page_covers_def)
    then show ?thesis using True lines by simp
  next
    case False
    then have nx: "pg_next_offset ?p = Some (Suc (n + k))" using k(3) by simp
    have "0 < k"
    proof (rule ccontr)
      assume "\<not> 0 < k"
      then have "?rest = []" using k(2) by simp
      then have "pg_eof ?p"
        using b assms(1) by (cases limit) (auto simp: read_page_def look_ahead_def page_step_def Let_def split: if_splits)
      then show False using False by simp
    qed
    then have c: "n + k \<le> length (text_lines s)" "length (text_lines s) - (n + k) < calls"
      using lines(2) Suc.prems by auto
    from Suc.IH [OF c] obtain outs where o: "read_through vt s limit budget calls (Suc (n + k)) = Some outs"
        "list_all2 (shown_line vt budget) (enumerate (Suc (n + k)) (drop (n + k) (text_lines s))) outs" by blast
    have "enumerate (Suc n) ?ls = enumerate (Suc n) (take k ?ls) @ enumerate (Suc (n + k)) (drop (n + k) (text_lines s))"
      using lines(2) by (subst append_take_drop_id [symmetric, of ?ls k])
        (simp only: enumerate_append_eq, simp add: add.commute min_def)
    then have "list_all2 (shown_line vt budget) (enumerate (Suc n) ?ls) (pg_lines ?p @ outs)"
      using lines(1) o(2) by (simp add: list_all2_appendI)
    then show ?thesis using False nx o(1) by simp
  qed
qed simp


text \<open>C23. Reading page by page ends. A caller that follows the offsets of the status lines reaches the end of
  the file after at most one call more than it has lines, whatever the limit of lines per page, provided
  the budget holds a line number and the notice. It has then seen every line of the file exactly once and in
  order, each one whole unless it is too long for a page of its own.\<close>

theorem paging_reaches_end:
  assumes "0 < limit" and "length (text_lines s) < 10 ^ 8 - 1"
    and "10 + escaped_length (vt_truncated vt) \<le> budget"
  shows "\<exists>outs. read_through vt s limit budget (Suc (length (text_lines s))) 1 = Some outs
    \<and> list_all2 (shown_line vt budget) (enumerate 1 (text_lines s)) outs"
  using read_through_from [of limit 0 s vt budget "Suc (length (text_lines s))"] assms by simp

definition demo_texts :: view_texts where
  "demo_texts = \<lparr>vt_truncated = '' ...(cut)'', vt_end_of_file = ''End of file - ''\<rparr>"

theorem paging_reaches_end_witness:
  "\<exists>outs. read_through demo_texts (''ab'' @ [LF] @ ''c'') 1 20 (Suc (length (text_lines (''ab'' @ [LF] @ ''c'')))) 1 = Some outs
    \<and> list_all2 (shown_line demo_texts 20) (enumerate 1 (text_lines (''ab'' @ [LF] @ ''c''))) outs"
proof (rule paging_reaches_end)
  show "length (text_lines (''ab'' @ [LF] @ ''c'')) < 10 ^ 8 - 1" by (simp add: text_lines_step)
  show "10 + escaped_length (vt_truncated demo_texts) \<le> 20"
    by (simp add: demo_texts_def escape_cost_def)
qed simp

section \<open>Artifacts\<close>

text \<open>The artifact writer adds line ends and nothing else: the pieces it writes make up the source, some of
  them with a line end behind them.\<close>

definition breaks_added :: "string \<Rightarrow> string \<Rightarrow> bool" where
  "breaks_added src out \<longleftrightarrow> (\<exists>pieces. src = concat (map fst pieces)
     \<and> out = concat (map (\<lambda>(piece, broken). piece @ (if broken then [LF] else [])) pieces))"

lemma breaks_added_Nil [simp]: "breaks_added [] []"
  unfolding breaks_added_def by (intro exI [of _ "[]"]) simp

lemma breaks_added_Cons:
  assumes "breaks_added src out"
  shows "breaks_added (piece @ src) (piece @ (if broken then [LF] else []) @ out)"
proof -
  obtain pieces where "src = concat (map fst pieces)"
      "out = concat (map (\<lambda>(piece, broken). piece @ (if broken then [LF] else [])) pieces)"
    using assms by (auto simp: breaks_added_def)
  then show ?thesis unfolding breaks_added_def by (intro exI [of _ "(piece, broken) # pieces"]) simp
qed

text \<open>The chunk in hand is at most one character longer than a line and has a line end only as its last
  character.\<close>

definition chunk_ok :: "string \<Rightarrow> string \<Rightarrow> bool" where
  "chunk_ok chunk rest \<longleftrightarrow> length chunk \<le> Suc MAX_ARTIFACT_LINE_CHARS \<and> LF \<notin> set (butlast chunk)
     \<and> (length chunk \<le> MAX_ARTIFACT_LINE_CHARS \<and> chunk \<noteq> [] \<and> last chunk \<noteq> LF \<longrightarrow> rest = [])
     \<and> (chunk = [] \<longrightarrow> rest = [])"

lemma readline_chunk:
  assumes "readline n s = (c, rest)" and "0 < n"
  shows "length c \<le> n \<and> LF \<notin> set (butlast c) \<and> (length c < n \<and> c \<noteq> [] \<and> last c \<noteq> LF \<longrightarrow> rest = []) \<and> (c = [] \<longrightarrow> rest = [])"
  using assms
proof (induction n s arbitrary: c rest rule: readline.induct)
  case (2 n x xs)
  show ?case
  proof (cases "x = LF")
    case True
    then show ?thesis using 2(2,3) by auto
  next
    case False
    obtain c' rest' where r: "readline (n - 1) xs = (c', rest')" by fastforce
    then have c: "c = x # c'" "rest = rest'" using 2(2,3) False by auto
    show ?thesis
    proof (cases "n = 1")
      case True
      then show ?thesis using r c by (cases xs) auto
    next
      case n: False
      then show ?thesis using 2(1) [of c' rest'] r c 2(3) False by (cases "c' = []") auto
    qed
  qed
qed auto

lemma chunk_ok_readline: "readline (Suc MAX_ARTIFACT_LINE_CHARS) s = (c, rest) \<Longrightarrow> chunk_ok c rest"
  using readline_chunk [of "Suc MAX_ARTIFACT_LINE_CHARS" s c rest] by (auto simp: chunk_ok_def)

lemma text_lines_line: "LF \<notin> set l \<Longrightarrow> text_lines (l @ [LF] @ t) = l # text_lines t"
proof -
  assume a: "LF \<notin> set l"
  then have "first_line (l @ LF # t) = l" "after_line (l @ LF # t) = t" by (induction l) auto
  then show ?thesis by (simp add: text_lines_step)
qed

lemma text_lines_last: "LF \<notin> set l \<Longrightarrow> l \<noteq> [] \<Longrightarrow> text_lines l = [l]"
  by (simp add: text_lines_step first_line_no_LF)

lemma artifact_loop_spec:
  "chunk_ok chunk rest \<Longrightarrow> breaks_added (chunk @ rest) (artifact_loop chunk rest)
     \<and> list_all (\<lambda>l. length l \<le> MAX_ARTIFACT_LINE_CHARS) (text_lines (artifact_loop chunk rest))"
proof (induction chunk rest rule: artifact_loop.induct)
  case (1 chunk rest)
  let ?M = MAX_ARTIFACT_LINE_CHARS
  consider (finished) "chunk = []" | (long) "chunk \<noteq> []" "?M < length chunk" "last chunk \<noteq> LF"
    | (line) "chunk \<noteq> []" "\<not> (?M < length chunk \<and> last chunk \<noteq> LF)" by blast
  then show ?case
  proof cases
    case finished
    then show ?thesis using 1(3) by (simp add: artifact_loop.simps [of "[]"] chunk_ok_def)
  next
    case long
    obtain c rest' where r: "readline ?M rest = (c, rest')" by fastforce
    have len: "length chunk = Suc ?M" using 1(3) long by (simp add: chunk_ok_def)
    then have d: "drop ?M chunk = [last chunk]" using long(1)
      by (metis append_butlast_last_id append_eq_conv_conj diff_Suc_1 length_butlast)
    have no: "LF \<notin> set (take ?M chunk)"
      using 1(3) len by (simp add: chunk_ok_def butlast_conv_take)
    have out: "artifact_loop chunk rest = take ?M chunk @ [LF] @ artifact_loop (drop ?M chunk @ c) rest'"
      using long r by (simp add: artifact_loop.simps [of chunk])
    have src: "chunk @ rest = take ?M chunk @ ((drop ?M chunk @ c) @ rest')"
      using readline_append [of ?M rest] r by simp
    have "chunk_ok (drop ?M chunk @ c) rest'"
      using readline_chunk [OF r MAX_ARTIFACT_pos] d long(3) by (cases "c = []") (auto simp: chunk_ok_def butlast_append)
    from 1(1) [OF long(1) _ r [symmetric] refl this] long have IH:
        "breaks_added ((drop ?M chunk @ c) @ rest') (artifact_loop (drop ?M chunk @ c) rest')"
        "list_all (\<lambda>l. length l \<le> ?M) (text_lines (artifact_loop (drop ?M chunk @ c) rest'))" by auto
    show ?thesis unfolding out src
      using breaks_added_Cons [OF IH(1), of "take ?M chunk" True] IH(2) no
      by (simp add: text_lines_line [simplified])
  next
    case line
    obtain c rest' where r: "readline (Suc ?M) rest = (c, rest')" by fastforce
    have out: "artifact_loop chunk rest = chunk @ artifact_loop c rest'"
      using line r by (auto simp: artifact_loop.simps [of chunk])
    have src: "chunk @ rest = chunk @ (c @ rest')"
      using readline_append [of "Suc ?M" rest] r by simp
    from 1(2) [OF line(1) _ r [symmetric] refl chunk_ok_readline [OF r]] line have IH:
        "breaks_added (c @ rest') (artifact_loop c rest')"
        "list_all (\<lambda>l. length l \<le> ?M) (text_lines (artifact_loop c rest'))" by auto
    have "list_all (\<lambda>l. length l \<le> ?M) (text_lines (chunk @ artifact_loop c rest'))"
    proof (cases "last chunk = LF")
      case True
      then have ch: "chunk = butlast chunk @ [LF]" using line(1) by (metis append_butlast_last_id)
      moreover have "LF \<notin> set (butlast chunk)" "length (butlast chunk) \<le> ?M" using 1(3) by (auto simp: chunk_ok_def)
      ultimately have "text_lines (chunk @ artifact_loop c rest') = butlast chunk # text_lines (artifact_loop c rest')"
        using text_lines_line [of "butlast chunk" "artifact_loop c rest'"] by (metis append_assoc)
      then show ?thesis using IH(2) \<open>length (butlast chunk) \<le> ?M\<close> by simp
    next
      case False
      then have "rest = []" "length chunk \<le> ?M" "LF \<notin> set (butlast chunk)" using 1(3) line by (auto simp: chunk_ok_def)
      then have "c = []" "LF \<notin> set chunk"
        using r False line(1) by (simp, metis UnE append_butlast_last_id list.set(1,2) set_append singletonD)
      then have "text_lines (chunk @ artifact_loop c rest') = [chunk]"
        using line(1) by (simp add: artifact_loop.simps [of "[]"] text_lines_last)
      then show ?thesis using \<open>length chunk \<le> ?M\<close> by simp
    qed
    then show ?thesis unfolding out src using breaks_added_Cons [OF IH(1), of chunk False] by simp
  qed
qed


lemma shown_lines_whole:
  assumes "list_all2 (shown_line vt budget) (enumerate n ls) outs"
    and "\<forall>l \<in> set ls. length l \<le> m" and "n + length ls \<le> 10 ^ 8" and "6 * m + 10 \<le> budget"
  shows "outs = map (\<lambda>(i, l). line_prefix i @ l) (enumerate n ls)"
  using assms
proof (induction ls arbitrary: n outs)
  case (Cons l ls)
  then obtain out outs' where o: "outs = out # outs'" "shown_line vt budget (n, l) out"
      "list_all2 (shown_line vt budget) (enumerate (Suc n) ls) outs'"
    by (auto simp: list_all2_Cons1)
  have "length (line_prefix n) \<le> 10" using Cons.prems(3) line_prefix_length [of n 7] by simp
  moreover have "length l \<le> m" using Cons.prems(2) by simp
  ultimately have "length (line_prefix n) + escaped_length l \<le> budget"
    using Cons.prems(4) escaped_length_bound [of l] by simp
  then have "out = line_prefix n @ l" using o(2) by (simp add: shown_line_def)
  moreover have "outs' = map (\<lambda>(i, l). line_prefix i @ l) (enumerate (Suc n) ls)"
    using Cons.prems by (intro Cons.IH [OF o(3)]) auto
  ultimately show ?case using o(1) by simp
qed simp

text \<open>A spilled tool result can be read back. The artifact of a text is the text with line ends added and
  nothing else changed, and a caller that pages through the artifact with \<open>read_file\<close> is shown every line
  of it whole: no line is ever cut, whatever its characters cost in JSON.\<close>

theorem artifact_read_whole:
  assumes "write_text_artifact src = (out, chars)" and "length (text_lines out) < 10 ^ 8 - 1"
    and "0 < limit" and "24586 \<le> budget" and "escaped_length (vt_truncated vt) \<le> 24576"
  shows "breaks_added src out \<and> chars = length out
    \<and> read_through vt out limit budget (Suc (length (text_lines out))) 1
        = Some (map (\<lambda>(i, l). line_prefix i @ l) (enumerate 1 (text_lines out)))"
proof -
  obtain c rest where r: "readline (Suc MAX_ARTIFACT_LINE_CHARS) src = (c, rest)" by fastforce
  then have out: "out = artifact_loop c rest" "chars = length out" using assms(1) by (auto simp: write_text_artifact_def Let_def)
  have src: "src = c @ rest" using readline_append [of "Suc MAX_ARTIFACT_LINE_CHARS" src] r by simp
  note A = artifact_loop_spec [OF chunk_ok_readline [OF r]]
  have b: "10 + escaped_length (vt_truncated vt) \<le> budget" using assms(4,5) by simp
  obtain outs where o: "read_through vt out limit budget (Suc (length (text_lines out))) 1 = Some outs"
      "list_all2 (shown_line vt budget) (enumerate 1 (text_lines out)) outs"
    using read_through_from [of limit 0 out vt budget "Suc (length (text_lines out))"] assms(2,3) b by auto
  have "outs = map (\<lambda>(i, l). line_prefix i @ l) (enumerate 1 (text_lines out))"
    using A assms(2,4) out(1)
    by (intro shown_lines_whole [OF o(2), of MAX_ARTIFACT_LINE_CHARS])
      (auto simp: list_all_iff MAX_ARTIFACT_LINE_CHARS_def MAX_TOOL_RESULT_CHARS_def)
  then show ?thesis using A out src o(1) by simp
qed

theorem artifact_read_whole_witness:
  "breaks_added (''ab'' @ [LF] @ ''c'') (''ab'' @ [LF] @ ''c'')"
proof -
  have w: "write_text_artifact (''ab'' @ [LF] @ ''c'') = (''ab'' @ [LF] @ ''c'', 4)"
    by (simp add: write_text_artifact_def artifact_loop.simps MAX_ARTIFACT_LINE_CHARS_def MAX_TOOL_RESULT_CHARS_def)
  have "length (text_lines (''ab'' @ [LF] @ ''c'')) < 10 ^ 8 - 1" by (simp add: text_lines_step)
  from artifact_read_whole [OF w this, of 1 24586 demo_texts] show ?thesis
    by (simp add: demo_texts_def escape_cost_def)
qed

section \<open>A page fits its result\<close>

lemma escape_cost_digit: "n < 10 \<Longrightarrow> escape_cost (digit_char n) = 1"
  by (simp add: escape_cost_def digit_char_def of_char_of)

lemma escaped_nat_str [simp]: "escaped_length (nat_str n) = length (nat_str n)"
proof (induction n rule: nat_str.induct)
  case (1 n)
  show ?case
  proof (cases "n < 10")
    case True
    then show ?thesis by (simp add: nat_str.simps [of n] escape_cost_digit)
  next
    case False
    then show ?thesis using 1 [OF False] by (subst (1 2) nat_str.simps) (simp add: escape_cost_digit)
  qed
qed

lemma escaped_line_prefix [simp]: "escaped_length (line_prefix n) = length (line_prefix n)"
  by (simp add: line_prefix_def escape_cost_def)

lemma trim_to_escaped_from_bound: "u \<le> b \<Longrightarrow> u + escaped_length (trim_to_escaped_from u b line) \<le> b"
  by (induction u b line rule: trim_to_escaped_from.induct) (auto simp: add.assoc)

lemma trim_to_escaped_bound: "escaped_length (trim_to_escaped line b) \<le> b"
  using trim_to_escaped_from_bound [of 0 b line] by (simp add: trim_to_escaped_def)

lemma escaped_join_snoc:
  "escaped_length (py_join [LF] (xs @ [x]))
     = escaped_length (py_join [LF] xs) + (if xs = [] then 0 else 2) + escaped_length x"
  by (induction "[LF]" xs rule: py_join.induct) (simp_all add: escape_cost_def)


text \<open>The characters of the lines of a page, as they are escaped, stay within the budget.\<close>

lemma page_step_bound:
  assumes "body = escaped_length (py_join [LF] rendered)" "body \<le> budget"
  shows "case page_step vt budget rendered body n rest of
      Inl p \<Rightarrow> escaped_length (py_join [LF] (pg_lines p)) \<le> budget
    | Inr (rendered', body', rest') \<Rightarrow> body' = escaped_length (py_join [LF] rendered') \<and> body' \<le> budget"
proof (cases "budget < body + (if rendered = [] then 0 else 2) + length (line_prefix n) + escaped_length (vt_truncated vt)
    \<or> rest = []")
  case True
  then show ?thesis using assms by (auto simp: page_step_def Let_def)
next
  case False
  then have rest: "rest \<noteq> []"
    and fits: "\<not> budget < body + (if rendered = [] then 0 else 2) + length (line_prefix n) + escaped_length (vt_truncated vt)"
    by auto
  let ?l = "take (budget - length (line_prefix n)) (first_line rest)"
  let ?av = "budget - (body + (if rendered = [] then 0 else 2) + length (line_prefix n))"
  have t: "escaped_length (trim_to_escaped ?l (?av - escaped_length (vt_truncated vt))) \<le> ?av - escaped_length (vt_truncated vt)"
    by (rule trim_to_escaped_bound)
  show ?thesis using assms fits t
    by (auto simp: page_step_def Let_def read_line_bounded_spec [OF rest] escaped_join_snoc)
qed

lemma page_loop_bound:
  "body = escaped_length (py_join [LF] rendered) \<Longrightarrow> body \<le> budget
   \<Longrightarrow> escaped_length (py_join [LF] (pg_lines (page_loop vt budget left rendered body n rest))) \<le> budget"
proof (induction left arbitrary: rendered body n rest)
  case (Suc left)
  from page_step_bound [OF Suc.prems, of vt n rest] show ?case
    by (auto split: sum.splits prod.splits intro: Suc.IH)
qed simp

lemma view_status_bound:
  assumes "n \<le> offset" "pg_next p \<le> 10 ^ 8" "offset < 10 ^ 8" "\<forall>m. pg_next_offset p = Some m \<longrightarrow> m < 10 ^ 8"
    and "escaped_length (vt_end_of_file vt) \<le> 200"
  shows "escaped_length (view_status vt offset p) \<le> 252"
proof -
  have "length (nat_str (pg_next p - 1)) \<le> 8" "length (nat_str offset) \<le> 8"
    using assms(2,3) nat_str_length [of _ 7] by simp_all
  moreover have "length (nat_str m) \<le> 8" if "pg_next_offset p = Some m" for m
    using assms(4) that nat_str_length [of m 7] by simp
  ultimately show ?thesis using assms(5)
    by (auto simp: view_status_def Let_def escape_cost_def split: option.splits)
qed

lemma read_text_range_bound:
  assumes "length (text_lines s) < 10 ^ 8 - 1" and "0 < offset" and "escaped_length (vt_end_of_file vt) \<le> 200"
  shows "escaped_length (read_text_range vt s offset limit budget) \<le> budget + STATUS_RESERVE_CHARS"
proof -
  obtain skipped rest where sk: "skip_lines (offset - 1) s = (skipped, rest)" by fastforce
  then have sp: "skipped = min (offset - 1) (length (text_lines s))" "text_lines rest = drop (offset - 1) (text_lines s)"
    using skip_lines_spec [of "offset - 1" s] by simp_all
  show ?thesis
  proof (cases "skipped < offset - 1")
    case True
    then have "length (nat_str skipped) \<le> 8" using sp(1) assms(1) nat_str_length [of skipped 7] by simp
    then show ?thesis using True sk assms(3) by (simp add: read_text_range_def STATUS_RESERVE_CHARS_def escape_cost_def)
  next
    case False
    let ?p = "page_loop vt budget limit [] 0 offset rest"
    obtain k where k: "page_covers vt budget offset (text_lines rest) [] k ?p"
      using page_loop_covers [of "[]" 0 vt budget offset rest limit] by auto
    note L = look_ahead_covers [OF k]
    have "offset + k < 10 ^ 8" "offset < 10 ^ 8" using k sp False assms(1,2) by (auto simp: page_covers_def)
    then have st: "escaped_length (view_status vt offset (look_ahead ?p)) \<le> 252"
      using L assms(3) by (intro view_status_bound [OF order_refl]) (auto simp: page_covers_def)
    have "escaped_length (py_join [LF] (pg_lines (look_ahead ?p))) \<le> budget"
      using L page_loop_bound [of 0 "[]" budget vt limit offset rest] by simp
    then show ?thesis using sk False st
      by (auto simp: read_text_range_def read_page_def join_content_def STATUS_RESERVE_CHARS_def escape_cost_def Let_def)
  qed
qed

text \<open>What the source relies on of \<open>json.dumps\<close>: escaping is additive.\<close>

definition dumps_additive :: "json_lib \<Rightarrow> bool" where
  "dumps_additive lib \<longleftrightarrow> (\<forall>d c. envelope_chars lib (JObj (AList.update ''content'' (JStr c) d))
     = envelope_chars lib (JObj (AList.update ''content'' (JStr []) d)) + escaped_length c)"

lemma update_same: "AList.update k v (AList.update k v d) = AList.update k v d"
  by (induction d) auto

lemma text_lines_length: "length (text_lines s) \<le> length s"
proof (induction s rule: text_lines.induct)
  case (1 s)
  then show ?case using after_line_shorter [of s] by (cases "s = []") (auto simp: text_lines_step)
qed

lemma universal_newlines_length: "length (universal_newlines s) \<le> length s"
proof (induction s rule: universal_newlines.induct)
  case (2 c cs)
  then show ?case by (cases cs) (auto split: if_splits)
qed simp

lemma utf8_decode_length: "utf8_decode b = Inr s \<Longrightarrow> length s \<le> length b"
proof (induction b arbitrary: s rule: length_induct)
  case (1 b)
  show ?case
  proof (cases b)
    case Nil
    then show ?thesis using 1(2) by simp
  next
    case (Cons x bs)
    then have "(\<exists>t. utf8_decode bs = Inr t \<and> s = x # t) \<or> (\<exists>d ds c t. bs = d # ds \<and> utf8_decode ds = Inr t \<and> s = c # t)"
      using 1(2) by (auto simp: Let_def split: if_splits list.splits)
    then show ?thesis
    proof (elim disjE exE conjE)
      fix t assume t: "utf8_decode bs = Inr t" "s = x # t"
      then have "length t \<le> length bs" using 1(1) Cons by simp
      then show ?thesis using t Cons by simp
    next
      fix d ds c t assume t: "bs = d # ds" "utf8_decode ds = Inr t" "s = c # t"
      then have "length t \<le> length ds" using 1(1) Cons by simp
      then show ?thesis using t Cons by simp
    qed
  qed
qed

text \<open>C24. A page of a file stays inline. Whatever the file, the offset and the limit, the result of \<open>read_file\<close>
  in its JSON envelope is not longer than the largest tool result, so that it is never spilled to an
  artifact of its own, provided the path itself leaves room for the status line.\<close>

theorem read_text_file_fits:
  assumes "dumps_additive lib" and "escaped_length (vt_end_of_file vt) \<le> 200" and "0 < offset"
    and "read_bytes h fs p = Inr bytes"
    and "envelope_chars lib (JObj (AList.update ''content'' (JStr [])
           (AList.update ''file_size_bytes'' (JInt (int (length bytes))) metadata))) + STATUS_RESERVE_CHARS
         \<le> MAX_TOOL_RESULT_CHARS"
    and "read_text_file lib vt h fs p metadata offset limit tool_name = Inr out"
  shows "output_fits lib out"
proof -
  let ?d = "AList.update ''file_size_bytes'' (JInt (int (length bytes))) metadata"
  let ?o = "AList.update ''content'' (JStr []) ?d"
  let ?b = "MAX_TOOL_RESULT_CHARS - envelope_chars lib (JObj ?o) - STATUS_RESERVE_CHARS"
  from assms(6,4) obtain s where s: "length bytes \<le> MAX_FILE_SIZE_BYTES" "utf8_decode bytes = Inr s"
      "out = JObj (AList.update ''content'' (JStr (read_text_range vt (universal_newlines s) offset limit ?b)) ?o)"
    by (auto simp: read_text_file_def read_bytes_def Let_def decode_case_Inr_iff
        split: if_splits option.splits node.splits)
  have "length (text_lines (universal_newlines s)) \<le> MAX_FILE_SIZE_BYTES"
    using text_lines_length [of "universal_newlines s"] universal_newlines_length [of s] utf8_decode_length [OF s(2)] s(1)
    by linarith
  then have "length (text_lines (universal_newlines s)) < 10 ^ 8 - 1" by (simp add: MAX_FILE_SIZE_BYTES_def)
  from read_text_range_bound [OF this assms(3,2)]
  have "escaped_length (read_text_range vt (universal_newlines s) offset limit ?b) \<le> ?b + STATUS_RESERVE_CHARS" .
  moreover have "envelope_chars lib out = envelope_chars lib (JObj ?o)
      + escaped_length (read_text_range vt (universal_newlines s) offset limit ?b)"
    using assms(1) [unfolded dumps_additive_def, rule_format, of _ ?o] unfolding s(3) by (simp only: update_same)
  ultimately show ?thesis using assms(5) by (simp add: output_fits_def)
qed


definition demo_sized_lib :: json_lib where
  "demo_sized_lib = \<lparr>jl_dumps = (\<lambda>j. case j of
       JObj [_, (_, JObj d)] \<Rightarrow> replicate (100 + (case jget d ''content'' of JStr c \<Rightarrow> escaped_length c | _ \<Rightarrow> 0)) (CHR ''x'')
     | _ \<Rightarrow> []), jl_loads = (\<lambda>_. None)\<rparr>"

lemma demo_sized_lib_additive: "dumps_additive demo_sized_lib"
  by (simp add: dumps_additive_def envelope_chars_def demo_sized_lib_def jget_def)

theorem read_text_file_fits_witness:
  "output_fits demo_sized_lib (JObj [(''path'', JStr ''f''), (''file_size_bytes'', JInt 3),
     (''content'', JStr (''1| aaa'' @ [LF, LF] @ ''(End of file - 1 lines total)''))])"
proof (rule read_text_file_fits [OF demo_sized_lib_additive, of demo_texts 1 demo_host demo_files "[''w'', ''f'']" "''aaa''"
      "[(''path'', JStr ''f'')]" 1 "''read_file''"])
  show "escaped_length (vt_end_of_file demo_texts) \<le> 200" by (simp add: demo_texts_def escape_cost_def)
  show "read_bytes demo_host demo_files [''w'', ''f''] = Inr ''aaa''" by code_simp
  show "envelope_chars demo_sized_lib (JObj (AList.update ''content'' (JStr [])
          (AList.update ''file_size_bytes'' (JInt (int (length ''aaa''))) [(''path'', JStr ''f'')]))) + STATUS_RESERVE_CHARS
        \<le> MAX_TOOL_RESULT_CHARS"
    by (simp add: envelope_chars_def demo_sized_lib_def STATUS_RESERVE_CHARS_def MAX_TOOL_RESULT_CHARS_def)
  show "read_text_file demo_sized_lib demo_texts demo_host demo_files [''w'', ''f''] [(''path'', JStr ''f'')] 1 1 ''read_file''
      = Inr (JObj [(''path'', JStr ''f''), (''file_size_bytes'', JInt 3),
          (''content'', JStr (''1| aaa'' @ [LF, LF] @ ''(End of file - 1 lines total)''))])"
  proof -
    have "read_bytes demo_host demo_files [''w'', ''f''] = Inr ''aaa''"
      "node_at demo_files [''w'', ''f''] = Some (FileNode 420 ''aaa'')" by code_simp+
    moreover have "universal_newlines ''aaa'' = ''aaa''" "utf8_decode ''aaa'' = Inr ''aaa''"
      "nat_str 1 = ''1''" "escaped_length '' ...(cut)'' = 9" "escaped_length ''aaa'' = 3" by code_simp+
    ultimately show ?thesis
      by (simp add: read_text_file_def Let_def envelope_chars_def demo_sized_lib_def MAX_FILE_SIZE_BYTES_def
          MAX_TOOL_RESULT_CHARS_def STATUS_RESERVE_CHARS_def read_text_range_def read_page_def page_step_def
          read_line_bounded_spec look_ahead_def join_content_def view_status_def line_prefix_def stopped_def demo_texts_def)
  qed
qed simp

end
