(* ===== verification/Skills.thy ===== *)
theory Skills
  imports Text_View "HOL-Library.List_Lexorder"
begin

text \<open>
  Skills and the prompts that carry them: \<open>agent_core/skills.py\<close>, the \<open>read_skill\<close> tool and
  \<open>agent_core/prompting.py\<close>.

  \<^item> \<open>yaml\<close> is \<open>yaml.safe_load\<close>, a package of its own: a document, as the JSON value it stands for, or the text of the
    error. A value that is no JSON value (a date) counts as one of another type than the code accepts.
  \<^item> The children of a directory are the entries of the tree of files one level below it.
\<close>

section \<open>Locations\<close>

record skill_location =
  sl_path :: path
  sl_namespace :: "string option"

definition directory_children :: "files \<Rightarrow> path \<Rightarrow> path list" where
  "directory_children fs root = filter (\<lambda>p. p \<noteq> [] \<and> butlast p = root) (map fst fs)"

definition skill_locations :: "host \<Rightarrow> files \<Rightarrow> path \<Rightarrow> string option \<Rightarrow> skill_location list res" where
  "skill_locations h fs directory namespace =
     res_bind (h_realpath h directory) (\<lambda>root.
       if node_at fs root \<noteq> Some DirNode then Inr []
       else Inr (map (\<lambda>child. \<lparr>sl_path = child @ [''SKILL.md''], sl_namespace = namespace\<rparr>)
         (filter (\<lambda>child. node_at fs child = Some DirNode \<and> is_file_node (node_at fs (child @ [''SKILL.md''])))
           (sort_key last (directory_children fs root)))))"

section \<open>The registry\<close>

record skill =
  sk_name :: string
  sk_description :: string
  sk_directory :: path
  sk_namespace :: "string option"

definition skill_identifier :: "skill \<Rightarrow> string" where
  "skill_identifier s = (case sk_namespace s of None \<Rightarrow> sk_name s | Some n \<Rightarrow> n @ '':'' @ sk_name s)"

record skill_registry =
  rg_skills :: "(string, skill) dict"
  rg_warnings :: "string list"

fun register_skills :: "(string, skill) dict \<Rightarrow> skill list \<Rightarrow> (string, skill) dict res" where
  "register_skills known [] = Inr known"
| "register_skills known (s # ss) =
     (if map_of known (skill_identifier s) \<noteq> None
      then Inl (ValueError (''skill '' @ quoted (skill_identifier s) @ '' is already registered''))
      else register_skills (AList.update (skill_identifier s) s known) ss)"

definition mk_skill_registry :: "skill list \<Rightarrow> string list \<Rightarrow> skill_registry res" where
  "mk_skill_registry skills warnings = res_map (\<lambda>d. \<lparr>rg_skills = d, rg_warnings = warnings\<rparr>) (register_skills [] skills)"

definition skill_names :: "skill_registry \<Rightarrow> string list" where
  "skill_names r = map fst (rg_skills r)"

definition get_skill :: "string \<Rightarrow> skill_registry \<Rightarrow> skill res" where
  "get_skill name r =
     (case map_of (rg_skills r) name of
        Some s \<Rightarrow> Inr s
      | None \<Rightarrow> Inl (ValueError (''unknown skill '' @ quoted name @ ''; available skills: ''
          @ (let known = py_join '', '' (skill_names r) in if known = [] then ''none'' else known))))"

definition skill_prompt_section :: "skill_registry \<Rightarrow> string" where
  "skill_prompt_section r =
     (if rg_skills r = [] then []
      else ''## Available Skills'' @ [LF, LF]
        @ ''Load a skill'' @ [CHR 0x27] @ ''s instructions with `read_skill` when it is relevant. ''
        @ ''Only the catalog is provided initially; skill files are loaded progressively.'' @ [LF, LF]
        @ py_join [LF] (map (\<lambda>(_, s). ''- '' @ skill_identifier s @ '': '' @ sk_description s) (rg_skills r)))"

section \<open>The loader\<close>

type_synonym yaml = "string \<Rightarrow> string + json"

definition closing_line :: "string list \<Rightarrow> nat option" where
  "closing_line lines = List.find (\<lambda>i. py_strip (lines ! i) = ''---'') [1..<length lines]"

definition front_matter :: "yaml \<Rightarrow> string \<Rightarrow> path \<Rightarrow> jobj res" where
  "front_matter yaml text p =
     (let lines = py_splitlines text in
      if lines = [] \<or> py_strip (hd lines) \<noteq> ''---'' then Inl (ValueError (''skill file is missing YAML front matter: '' @ path_str p))
      else (case closing_line lines of
          None \<Rightarrow> Inl (ValueError (''skill front matter is not closed: '' @ path_str p))
        | Some e \<Rightarrow>
            (case yaml (py_join [LF] (take (e - 1) (tl lines))) of
               Inl message \<Rightarrow> Inl (ValueError (''invalid skill front matter in '' @ path_str p @ '': '' @ message))
             | Inr (JObj d) \<Rightarrow> Inr d
             | Inr _ \<Rightarrow> Inl (ValueError (''skill front matter must be an object: '' @ path_str p)))))"

definition required_string :: "jobj \<Rightarrow> string \<Rightarrow> path \<Rightarrow> string res" where
  "required_string d name p =
     (let bad = Inl (ValueError (''skill field '' @ quoted name @ '' must be a non-empty string: '' @ path_str p)) in
      case jget d name of JStr s \<Rightarrow> if py_strip s = [] then bad else Inr (py_strip s) | _ \<Rightarrow> bad)"

definition registration_enabled :: "json \<Rightarrow> path \<Rightarrow> bool res" where
  "registration_enabled metadata p =
     (case metadata of
        JNull \<Rightarrow> Inr True
      | JObj d \<Rightarrow>
          (case jget d ''nosis'' of
             JNull \<Rightarrow> Inr True
           | JObj n \<Rightarrow>
               (case map_of n ''register'' of
                  None \<Rightarrow> Inr True
                | Some (JBool b) \<Rightarrow> Inr b
                | Some _ \<Rightarrow> Inl (ValueError (''skill field '' @ quoted ''metadata.nosis.register'' @ '' must be a boolean: '' @ path_str p)))
           | _ \<Rightarrow> Inl (ValueError (''skill field '' @ quoted ''metadata.nosis'' @ '' must be an object: '' @ path_str p)))
      | _ \<Rightarrow> Inl (ValueError (''skill field '' @ quoted ''metadata'' @ '' must be an object: '' @ path_str p)))"

definition load_skill :: "yaml \<Rightarrow> host \<Rightarrow> files \<Rightarrow> skill_location \<Rightarrow> (skill \<times> bool) res" where
  "load_skill yaml h fs l =
     res_bind (h_realpath h (sl_path l)) (\<lambda>p.
     res_bind (read_bytes h fs p) (\<lambda>bytes.
     res_bind (case utf8_decode bytes of Inl _ \<Rightarrow> Inl (ValueError (''skill file must be UTF-8: '' @ path_str p)) | Inr s \<Rightarrow> Inr (universal_newlines s)) (\<lambda>text.
     res_bind (front_matter yaml text p) (\<lambda>d.
     res_bind (required_string d ''name'' p) (\<lambda>name.
     res_bind (required_string d ''description'' p) (\<lambda>description.
     res_map (\<lambda>enabled. (\<lparr>sk_name = name, sk_description = description, sk_directory = butlast p, sk_namespace = sl_namespace l\<rparr>, enabled))
       (registration_enabled (jget d ''metadata'') p)))))))"

fun os_or_value_error :: "exn \<Rightarrow> bool" where
  "os_or_value_error (OSError _) = True" | "os_or_value_error (ValueError _) = True"
| "os_or_value_error UnicodeDecodeError = True" | "os_or_value_error JSONDecodeError = True"
| "os_or_value_error (PermissionError _) = True" | "os_or_value_error _ = False"

text \<open>One location of the loop: the skills so far and the warnings.\<close>

definition load_location ::
  "yaml \<Rightarrow> host \<Rightarrow> files \<Rightarrow> (string, skill) dict \<times> string list \<Rightarrow> skill_location \<Rightarrow> ((string, skill) dict \<times> string list) res" where
  "load_location yaml h fs acc l =
     (case load_skill yaml h fs l of
        Inl e \<Rightarrow>
          if os_or_value_error e
          then Inr (fst acc, snd acc @ [''Skipping skill at '' @ quoted (path_str (sl_path l)) @ '': '' @ exn_str e])
          else Inl e
      | Inr (s, registered) \<Rightarrow>
          if \<not> registered then Inr acc
          else (case map_of (fst acc) (skill_identifier s) of
              Some existing \<Rightarrow> Inr (fst acc, snd acc @ [''Skipping duplicate skill '' @ quoted (skill_identifier s) @ '' at ''
                @ quoted (path_str (sk_directory s)) @ ''; already registered from '' @ quoted (path_str (sk_directory existing))])
            | None \<Rightarrow> Inr (AList.update (skill_identifier s) s (fst acc), snd acc)))"

fun load_locations ::
  "yaml \<Rightarrow> host \<Rightarrow> files \<Rightarrow> (string, skill) dict \<times> string list \<Rightarrow> skill_location list \<Rightarrow> ((string, skill) dict \<times> string list) res" where
  "load_locations yaml h fs acc [] = Inr acc"
| "load_locations yaml h fs acc (l # ls) = res_bind (load_location yaml h fs acc l) (\<lambda>acc'. load_locations yaml h fs acc' ls)"

text \<open>A source is a function that gives its locations.\<close>

fun load_sources ::
  "yaml \<Rightarrow> host \<Rightarrow> files \<Rightarrow> (string, skill) dict \<times> string list \<Rightarrow> (files \<Rightarrow> skill_location list res) list
    \<Rightarrow> ((string, skill) dict \<times> string list) res" where
  "load_sources yaml h fs acc [] = Inr acc"
| "load_sources yaml h fs acc (src # srcs) =
     res_bind (src fs) (\<lambda>ls. res_bind (load_locations yaml h fs acc ls) (\<lambda>acc'. load_sources yaml h fs acc' srcs))"

definition load_skills :: "yaml \<Rightarrow> host \<Rightarrow> files \<Rightarrow> (files \<Rightarrow> skill_location list res) list \<Rightarrow> string list \<Rightarrow> skill_registry res" where
  "load_skills yaml h fs sources warnings =
     res_bind (load_sources yaml h fs ([], warnings) sources) (\<lambda>(skills, load_warnings). mk_skill_registry (map snd skills) load_warnings)"

section \<open>The read\_skill tool\<close>

definition skill_int :: "jobj \<Rightarrow> string \<Rightarrow> nat \<Rightarrow> nat res" where
  "skill_int args key fallback =
     (let bad = Inl (ValueError (''read_skill requires '' @ quoted key @ '' to be a positive integer''))
      in case map_of args key of
           None \<Rightarrow> Inr fallback
         | Some (JInt i) \<Rightarrow> if i < 1 then bad else Inr (nat i)
         | Some _ \<Rightarrow> bad)"

definition read_skill_arguments :: "jobj \<Rightarrow> (string \<times> string \<times> nat \<times> nat) res" where
  "read_skill_arguments args =
     (let bad = (\<lambda>key. Inl (ValueError (''read_skill requires a non-empty string '' @ quoted key))) in
      case jget args ''name'' of
        JStr name \<Rightarrow>
          if py_strip name = [] then bad ''name''
          else (case (case map_of args ''path'' of None \<Rightarrow> JStr ''SKILL.md'' | Some v \<Rightarrow> v) of
              JStr path \<Rightarrow>
                if py_strip path = [] then bad ''path''
                else
                  res_bind (skill_int args ''offset'' 1) (\<lambda>offset.
                  res_bind (skill_int args ''limit'' DEFAULT_READ_LIMIT) (\<lambda>limit.
                    if \<not> set (map fst args) \<subseteq> {''name'', ''path'', ''offset'', ''limit''}
                    then Inl (ValueError (''read_skill accepts only '' @ quoted ''name'' @ '', '' @ quoted ''path'' @ '', '' @ quoted ''offset''
                      @ '', and '' @ quoted ''limit''))
                    else Inr (py_strip name, path, offset, limit)))
            | _ \<Rightarrow> bad ''path'')
      | _ \<Rightarrow> bad ''name'')"

definition resolve_skill_path :: "host \<Rightarrow> files \<Rightarrow> path \<Rightarrow> string \<Rightarrow> path res" where
  "resolve_skill_path h fs directory path =
     (if is_absolute path then Inl (ValueError ''read_skill path must be relative to the skill directory'')
      else res_bind (h_realpath h (directory @ path_parts path)) (\<lambda>resolved.
        case relative_to_root resolved directory of
          Inl _ \<Rightarrow> Inl (ValueError ''read_skill path must stay inside the skill directory'')
        | Inr _ \<Rightarrow>
            if is_file_node (node_at fs resolved) then Inr resolved
            else Inl (ValueError (''skill file does not exist: '' @ path))))"

definition read_skill_available :: "skill_registry option \<Rightarrow> bool" where
  "read_skill_available skills = (case skills of None \<Rightarrow> False | Some r \<Rightarrow> rg_skills r \<noteq> [])"

definition read_skill :: "json_lib \<Rightarrow> view_texts \<Rightarrow> host \<Rightarrow> skill_registry option \<Rightarrow> files \<Rightarrow> jobj \<Rightarrow> json res" where
  "read_skill lib vt h skills fs args =
     res_bind (read_skill_arguments args) (\<lambda>(name, path, offset, limit).
       case skills of
         None \<Rightarrow> Inl (ValueError ''this runtime has no registered skills'')
       | Some r \<Rightarrow>
           res_bind (get_skill name r) (\<lambda>s.
           res_bind (resolve_skill_path h fs (sk_directory s) path) (\<lambda>p.
             read_text_file lib vt h fs p [(''name'', JStr (skill_identifier s)), (''path'', JStr path)] offset limit ''read_skill'')))"


section \<open>Prompts\<close>

record workspace_instruction =
  wi_label :: string
  wi_content :: "string option"

definition has_instructions :: "workspace_instruction list \<Rightarrow> bool" where
  "has_instructions docs = list_ex (\<lambda>d. wi_content d \<noteq> None \<and> wi_content d \<noteq> Some []) docs"

definition instruction_section :: "workspace_instruction list option \<Rightarrow> string" where
  "instruction_section instructions =
     (case instructions of
        None \<Rightarrow> []
      | Some docs \<Rightarrow>
          if \<not> has_instructions docs then []
          else py_join [LF, LF] ([''## Workspace Instructions'',
              ''These runtime-loaded instructions persist for this Runtime. They are already loaded; do not search for instruction files to ''
              @ ''discover rules during normal work. You may still read or edit those files when the user explicitly asks. ''
              @ ''Earlier sources override later sources when instructions conflict.'' @ [LF] @ ''Priority from highest to lowest:'' @ [LF]
              @ py_join [LF] (map (\<lambda>(i, d). nat_str i @ ''. `'' @ wi_label d @ ''`'') (enumerate 1 docs))]
            @ concat (map (\<lambda>d. case wi_content d of
                Some (c # cs) \<Rightarrow> [''### '' @ wi_label d @ [LF] @ c # cs] | _ \<Rightarrow> []) docs)))"

definition with_runtime_context :: "string \<Rightarrow> workspace_instruction list option \<Rightarrow> skill_registry option \<Rightarrow> (string \<times> string) list \<Rightarrow> string" where
  "with_runtime_context prompt instructions skills mcp =
     (let section1 = instruction_section instructions;
          section2 = (case skills of None \<Rightarrow> [] | Some r \<Rightarrow> skill_prompt_section r)
      in py_join [LF, LF] ([prompt] @ (if section1 = [] then [] else [section1]) @ (if section2 = [] then [] else [section2])
        @ (if mcp = [] then []
           else [''## MCP Server Instructions'' @ [LF, LF]
             @ ''These server-provided instructions describe how to use the MCP servers below. They do not override Nosis execution and approval rules, ''
             @ ''workspace instructions, or the user'' @ [CHR 0x27] @ ''s task constraints.'']
             @ map (\<lambda>(server, text). ''### '' @ server @ [LF, LF] @ text) mcp)))"

definition render_system_prompt ::
  "string \<Rightarrow> path \<Rightarrow> skill_registry option \<Rightarrow> workspace_instruction list option \<Rightarrow> (string \<times> string) list \<Rightarrow> string" where
  "render_system_prompt template workspace skills instructions mcp =
     with_runtime_context (py_strip (py_replace ''{{workspace}}'' (path_str workspace) template)) instructions skills mcp"

definition render_subagent_prompt ::
  "string \<Rightarrow> path \<Rightarrow> string \<Rightarrow> string \<Rightarrow> string \<Rightarrow> skill_registry option \<Rightarrow> workspace_instruction list option \<Rightarrow> (string \<times> string) list \<Rightarrow> string" where
  "render_subagent_prompt template workspace role description role_instructions skills instructions mcp =
     (let prompt = py_strip (py_replace ''{{role_description}}'' description
            (py_replace ''{{role}}'' role (py_replace ''{{workspace}}'' (path_str workspace) template)));
          prompt' = (if role_instructions = [] then prompt
            else prompt @ [LF, LF] @ ''## Role Instructions'' @ [LF] @ py_strip role_instructions)
      in with_runtime_context prompt' instructions skills mcp)"

section \<open>The first skill of a name wins\<close>

text \<open>What the locations offer: the skills that load and do not opt out, in order.\<close>

definition offered :: "yaml \<Rightarrow> host \<Rightarrow> files \<Rightarrow> skill_location list \<Rightarrow> skill list" where
  "offered yaml h fs ls = concat (map (\<lambda>l. case load_skill yaml h fs l of Inr (s, True) \<Rightarrow> [s] | _ \<Rightarrow> []) ls)"

definition first_named :: "skill list \<Rightarrow> string \<Rightarrow> skill option" where
  "first_named ss name = List.find (\<lambda>s. skill_identifier s = name) ss"

lemma first_named_append: "first_named (ss @ ts) name = (case first_named ss name of None \<Rightarrow> first_named ts name | Some s \<Rightarrow> Some s)"
  by (induction ss) (auto simp: first_named_def)

definition keyed :: "(string, skill) dict \<Rightarrow> bool" where
  "keyed d \<longleftrightarrow> dict_ok d \<and> list_all (\<lambda>(k, s). k = skill_identifier s) d"

lemma keyed_entries_update: "list_all (\<lambda>(k, s). k = skill_identifier s) d
   \<Longrightarrow> list_all (\<lambda>(k, s). k = skill_identifier s) (AList.update (skill_identifier s) s d)"
  by (induction d) auto

lemma keyed_update_new: "keyed d \<Longrightarrow> keyed (AList.update (skill_identifier s) s d)"
  by (simp add: keyed_def dict_ok_def keyed_entries_update distinct_update)

lemma load_location_step:
  assumes "load_location yaml h fs acc l = Inr acc'" and "keyed (fst acc)"
  shows "keyed (fst acc') \<and> map_of (fst acc') = (\<lambda>name. case map_of (fst acc) name of
    None \<Rightarrow> first_named (offered yaml h fs [l]) name | Some s \<Rightarrow> Some s)"
proof (cases "load_skill yaml h fs l")
  case (Inl e)
  then show ?thesis using assms by (auto simp: load_location_def offered_def first_named_def fun_eq_iff split: if_splits option.splits)
next
  case (Inr sr)
  obtain s registered where sr: "sr = (s, registered)" by fastforce
  show ?thesis
  proof (cases "registered \<and> map_of (fst acc) (skill_identifier s) = None")
    case True
    then have "acc' = (AList.update (skill_identifier s) s (fst acc), snd acc)" using assms(1) Inr sr by (simp add: load_location_def)
    then show ?thesis using assms(2) True Inr sr
      by (auto simp: keyed_update_new offered_def first_named_def fun_eq_iff update_conv' split: option.splits)
  next
    case False
    then have "fst acc' = fst acc" using assms(1) Inr sr by (auto simp: load_location_def split: if_splits option.splits)
    then show ?thesis using assms(2) False Inr sr
      by (cases registered) (auto simp: offered_def first_named_def fun_eq_iff split: option.splits)
  qed
qed

lemma offered_Cons: "offered yaml h fs (l # ls) = offered yaml h fs [l] @ offered yaml h fs ls"
  by (simp add: offered_def)

lemma load_locations_spec:
  "load_locations yaml h fs acc ls = Inr acc' \<Longrightarrow> keyed (fst acc)
   \<Longrightarrow> keyed (fst acc') \<and> map_of (fst acc') = (\<lambda>name. case map_of (fst acc) name of
     None \<Rightarrow> first_named (offered yaml h fs ls) name | Some s \<Rightarrow> Some s)"
proof (induction ls arbitrary: acc)
  case Nil
  then show ?case by (auto simp: offered_def first_named_def fun_eq_iff split: option.splits)
next
  case (Cons l ls)
  then obtain acc1 where a: "load_location yaml h fs acc l = Inr acc1" "load_locations yaml h fs acc1 ls = Inr acc'"
    by (auto simp: res_bind_Inr_iff)
  note S = load_location_step [OF a(1) Cons.prems(2)]
  from Cons.IH [OF a(2)] S show ?case
    by (auto simp: offered_Cons [of yaml h fs l ls] first_named_append fun_eq_iff split: option.splits)
qed

lemma load_sources_spec:
  "load_sources yaml h fs acc srcs = Inr acc' \<Longrightarrow> keyed (fst acc)
   \<Longrightarrow> \<exists>lss. list_all2 (\<lambda>src ls. src fs = Inr ls) srcs lss \<and> keyed (fst acc')
     \<and> map_of (fst acc') = (\<lambda>name. case map_of (fst acc) name of
       None \<Rightarrow> first_named (offered yaml h fs (concat lss)) name | Some s \<Rightarrow> Some s)"
proof (induction srcs arbitrary: acc)
  case Nil
  then show ?case by (auto simp: offered_def first_named_def fun_eq_iff split: option.splits)
next
  case (Cons src srcs)
  then obtain ls acc1 where a: "src fs = Inr ls" "load_locations yaml h fs acc ls = Inr acc1"
      "load_sources yaml h fs acc1 srcs = Inr acc'"
    by (auto simp: res_bind_Inr_iff)
  note S = load_locations_spec [OF a(2) Cons.prems(2)]
  from Cons.IH [OF a(3)] S obtain lss where L: "list_all2 (\<lambda>src ls. src fs = Inr ls) srcs lss" "keyed (fst acc')"
      "map_of (fst acc') = (\<lambda>name. case map_of (fst acc1) name of
       None \<Rightarrow> first_named (offered yaml h fs (concat lss)) name | Some s \<Rightarrow> Some s)" by auto
  have "offered yaml h fs (concat (ls # lss)) = offered yaml h fs ls @ offered yaml h fs (concat lss)" by (simp add: offered_def)
  with L S a(1) show ?case
    by (intro exI [of _ "ls # lss"]) (auto simp: first_named_append fun_eq_iff simp del: concat.simps split: option.splits)
qed

lemma register_skills_keyed:
  "keyed (known @ d) \<Longrightarrow> register_skills known (map snd d) = Inr (known @ d)"
proof (induction d arbitrary: known)
  case (Cons e d)
  obtain k s where e: "e = (k, s)" by fastforce
  have k: "k = skill_identifier s" "k \<notin> fst ` set known" using Cons.prems e by (auto simp: keyed_def dict_ok_def)
  have u: "AList.update k s known = known @ [(k, s)]" using k(2) by (induction known) auto
  show ?case using Cons.IH [of "known @ [e]"] Cons.prems k u e by (auto simp: map_of_eq_None_iff)
qed simp

lemma load_skills_spec:
  assumes "load_sources yaml h fs ([], warnings) sources = Inr (skills, ws)"
  shows "\<exists>lss. load_skills yaml h fs sources warnings = Inr \<lparr>rg_skills = skills, rg_warnings = ws\<rparr>
    \<and> list_all2 (\<lambda>src ls. src fs = Inr ls) sources lss
    \<and> map_of skills = (\<lambda>name. first_named (offered yaml h fs (concat lss)) name)"
proof -
  have "keyed []" by (simp add: keyed_def dict_ok_def)
  with load_sources_spec [OF assms] obtain lss where L: "list_all2 (\<lambda>src ls. src fs = Inr ls) sources lss" "keyed skills"
      "map_of skills = (\<lambda>name. first_named (offered yaml h fs (concat lss)) name)" by auto
  have "load_skills yaml h fs sources warnings = Inr \<lparr>rg_skills = skills, rg_warnings = ws\<rparr>"
    using register_skills_keyed [of "[]" skills] L(2) assms by (simp add: load_skills_def mk_skill_registry_def)
  then show ?thesis using L by auto
qed

text \<open>C40. A skill registry holds, under each identifier, the first skill of that identifier that the sources offer,
  in the order of the sources and of the locations of each: neither a broken file, nor a skill that opts out, nor a
  later skill of the same name displaces it, and making the registry of the loaded skills never fails.\<close>

theorem first_skill_wins:
  assumes "load_sources yaml h fs ([], warnings) sources = Inr (skills, ws)"
  shows "\<exists>r lss. load_skills yaml h fs sources warnings = Inr r \<and> rg_warnings r = ws
    \<and> list_all2 (\<lambda>src ls. src fs = Inr ls) sources lss
    \<and> (\<forall>name. map_of (rg_skills r) name = first_named (offered yaml h fs (concat lss)) name)"
  using load_skills_spec [OF assms] by force

text \<open>Two skills of one name in two sources: the second is left out, with a warning.\<close>

definition skill_md :: "string \<Rightarrow> string" where
  "skill_md d = ''---'' @ [LF] @ d @ [LF] @ ''---'' @ [LF] @ ''Body''"

definition demo_yaml :: yaml where
  "demo_yaml d = Inr (JObj [(''name'', JStr ''fmt''), (''description'', JStr d)])"

definition demo_skill_files :: files where
  "demo_skill_files = [([''a''], DirNode), ([''a'', ''fmt''], DirNode), ([''a'', ''fmt'', ''SKILL.md''], FileNode 420 (skill_md ''one'')),
     ([''b''], DirNode), ([''b'', ''fmt''], DirNode), ([''b'', ''fmt'', ''SKILL.md''], FileNode 420 (skill_md ''two''))]"

definition demo_sources :: "(files \<Rightarrow> skill_location list res) list" where
  "demo_sources = [\<lambda>fs. skill_locations demo_host fs [''a''] None, \<lambda>fs. skill_locations demo_host fs [''b''] None]"

definition demo_loaded :: "(string, skill) dict" where
  "demo_loaded = [(''fmt'', \<lparr>sk_name = ''fmt'', sk_description = ''one'', sk_directory = [''a'', ''fmt''], sk_namespace = None\<rparr>)]"

definition demo_load_warnings :: "string list" where
  "demo_load_warnings = [''Skipping duplicate skill '' @ quoted ''fmt'' @ '' at '' @ quoted ''/b/fmt'' @ ''; already registered from '' @ quoted ''/a/fmt'']"

lemma demo_skills_load: "load_sources demo_yaml demo_host demo_skill_files ([], []) demo_sources = Inr (demo_loaded, demo_load_warnings)"
  by code_simp

theorem first_skill_wins_witness:
  "\<exists>r lss. load_skills demo_yaml demo_host demo_skill_files demo_sources [] = Inr r \<and> rg_warnings r = demo_load_warnings
    \<and> list_all2 (\<lambda>src ls. src demo_skill_files = Inr ls) demo_sources lss
    \<and> (\<forall>name. map_of (rg_skills r) name = first_named (offered demo_yaml demo_host demo_skill_files (concat lss)) name)"
  by (rule first_skill_wins [OF demo_skills_load])

section \<open>A skill's files stay in its directory\<close>

lemma load_skill_directory:
  "load_skill yaml h fs l = Inr (s, b) \<Longrightarrow> \<exists>p. h_realpath h (sl_path l) = Inr p \<and> sk_directory s = butlast p"
  by (auto simp: load_skill_def res_bind_Inr_iff res_map_Inr_iff)

lemma offered_directory:
  assumes "s \<in> set (offered yaml h fs ls)"
  obtains l :: skill_location and p where "h_realpath h (sl_path l) = Inr p" "sk_directory s = butlast p"
proof -
  from assms obtain l where "load_skill yaml h fs l = Inr (s, True)"
    by (auto simp: offered_def split: sum.splits bool.splits)
  from load_skill_directory [OF this] that show thesis by blast
qed

lemma first_named_in: "first_named ss name = Some s \<Longrightarrow> s \<in> set ss"
  by (auto simp: first_named_def find_Some_iff)

lemma loaded_skill_directory:
  assumes "load_skills yaml h fs sources warnings = Inr r" "map_of (rg_skills r) name = Some s" "realpath_canonical h"
  shows "clean_path (sk_directory s)"
proof -
  from assms(1) obtain skills ws where S: "load_sources yaml h fs ([], warnings) sources = Inr (skills, ws)"
    by (auto simp: load_skills_def res_bind_Inr_iff)
  from load_skills_spec [OF S] assms(1,2) obtain lss where "first_named (offered yaml h fs (concat lss)) name = Some s" by auto
  from offered_directory [OF first_named_in [OF this]] obtain l :: skill_location and p where
    p: "h_realpath h (sl_path l) = Inr p" "sk_directory s = butlast p" by blast
  then have "clean_path p" using assms(3) by (auto simp: realpath_canonical_def)
  then show ?thesis using p(2) by (auto simp: clean_path_def list_all_iff dest: in_set_butlastD)
qed

text \<open>C9. The \<open>read_skill\<close> tool, on the registry the loader made, answers only with the text of a file that lies, once
  every link is followed, inside the directory of the registered skill asked for; the answer is that of the file reader on
  that file.\<close>

theorem read_skill_contained:
  assumes "realpath_canonical h"
    and "load_skills yaml h fs0 sources warnings = Inr r"
    and "read_skill lib vt h (Some r) fs args = Inr v"
  shows "\<exists>s name path offset limit p rest. read_skill_arguments args = Inr (name, path, offset, limit)
    \<and> map_of (rg_skills r) name = Some s \<and> h_realpath h (sk_directory s @ path_parts path) = Inr p
    \<and> p = sk_directory s @ rest \<and> is_file_node (node_at fs p)
    \<and> read_text_file lib vt h fs p [(''name'', JStr (skill_identifier s)), (''path'', JStr path)] offset limit ''read_skill'' = Inr v"
proof -
  from assms(3) obtain name path offset limit s p where A: "read_skill_arguments args = Inr (name, path, offset, limit)"
    and s: "map_of (rg_skills r) name = Some s" and p: "resolve_skill_path h fs (sk_directory s) path = Inr p"
    and v: "read_text_file lib vt h fs p [(''name'', JStr (skill_identifier s)), (''path'', JStr path)] offset limit ''read_skill'' = Inr v"
    by (auto simp: read_skill_def res_bind_Inr_iff get_skill_def split: option.splits)
  from p obtain rest where R: "h_realpath h (sk_directory s @ path_parts path) = Inr p" "is_file_node (node_at fs p)"
      "relative_to_root p (sk_directory s) = Inr rest"
    by (auto simp: resolve_skill_path_def res_bind_Inr_iff split: if_splits sum.splits)
  have "clean_path p" using assms(1) R(1) by (auto simp: realpath_canonical_def)
  with loaded_skill_directory [OF assms(2) s assms(1)] R(3) have "p = sk_directory s @ rest"
    by (simp add: relative_to_root_clean)
  with A s R v show ?thesis by blast
qed

definition demo_note_files :: files where
  "demo_note_files = [([''a''], DirNode), ([''a'', ''fmt''], DirNode), ([''a'', ''fmt'', ''n''], FileNode 420 ''aaa'')]"

definition demo_registry :: skill_registry where
  "demo_registry = \<lparr>rg_skills = demo_loaded, rg_warnings = demo_load_warnings\<rparr>"

lemma demo_registry_loaded: "load_skills demo_yaml demo_host demo_skill_files demo_sources [] = Inr demo_registry"
  using load_skills_spec [OF demo_skills_load] by (auto simp: demo_registry_def)

lemma demo_read_skill:
  "\<exists>v. read_skill demo_sized_lib demo_texts demo_host (Some demo_registry) demo_note_files
     [(''name'', JStr ''fmt''), (''path'', JStr ''n''), (''limit'', JInt 1)] = Inr v"
proof -
  have a: "read_skill_arguments [(''name'', JStr ''fmt''), (''path'', JStr ''n''), (''limit'', JInt 1)] = Inr (''fmt'', ''n'', 1, 1)"
    by code_simp
  have g: "get_skill ''fmt'' demo_registry
      = Inr \<lparr>sk_name = ''fmt'', sk_description = ''one'', sk_directory = [''a'', ''fmt''], sk_namespace = None\<rparr>" by code_simp
  have p: "resolve_skill_path demo_host demo_note_files [''a'', ''fmt''] ''n'' = Inr [''a'', ''fmt'', ''n'']" by code_simp
  have b: "read_bytes demo_host demo_note_files [''a'', ''fmt'', ''n''] = Inr ''aaa''" by code_simp
  have u: "utf8_decode ''aaa'' = Inr ''aaa''" by code_simp
  show ?thesis using b u
    by (auto simp: read_skill_def a g p read_text_file_def MAX_FILE_SIZE_BYTES_def read_bytes_def Let_def split: option.splits if_splits node.splits)
qed

theorem read_skill_contained_witness:
  "\<exists>v s name path offset limit p rest.
    read_skill_arguments [(''name'', JStr ''fmt''), (''path'', JStr ''n''), (''limit'', JInt 1)] = Inr (name, path, offset, limit)
    \<and> map_of (rg_skills demo_registry) name = Some s \<and> h_realpath demo_host (sk_directory s @ path_parts path) = Inr p
    \<and> p = sk_directory s @ rest \<and> is_file_node (node_at demo_note_files p)
    \<and> read_text_file demo_sized_lib demo_texts demo_host demo_note_files p
        [(''name'', JStr (skill_identifier s)), (''path'', JStr path)] offset limit ''read_skill'' = Inr v"
proof -
  from demo_read_skill obtain v where "read_skill demo_sized_lib demo_texts demo_host (Some demo_registry) demo_note_files
     [(''name'', JStr ''fmt''), (''path'', JStr ''n''), (''limit'', JInt 1)] = Inr v" by blast
  from read_skill_contained [OF demo_host_ok(1) demo_registry_loaded this] show ?thesis by blast
qed

end
