(* ===== verification/Session_Host.thy ===== *)
theory Session_Host
  imports Session_Store
begin

text \<open>
  The frontends' view of a running Session: \<open>interfaces/bridge/event_stream.py\<close>, the channel of
  \<open>interfaces/bridge_process.py\<close> and \<open>interfaces/session_host.py\<close>.

  A Bridge publishes numbered events on a channel; an \<open>ActiveSession\<close> reads them, keeps the last 512 and the state they
  describe, and hands them to the one client that is attached. Coroutines interleave at their awaits, so the parts of a
  coroutine between two awaits are the actions of \<open>host_act\<close>; what an \<open>async with\<close> block does is one action.

  \<^item> Messages are dictionaries, as the protocol has them; a missing key raises where the code indexes.
  \<^item> A queue is the list of everything put into it, \<open>None\<close> its end mark; the queues and the events that report a
    detachment are numbered in the order of their creation.
  \<^item> \<open>str\<close> of a turn id that is not a string is the argument \<open>render\<close>.
\<close>

section \<open>Published events\<close>

definition runtime_is_active :: "json \<Rightarrow> bool" where
  "runtime_is_active phase \<longleftrightarrow> phase \<in> set (map JStr [''starting'', ''running'', ''waiting_approval'', ''waiting_user''])"

definition failure_kinds :: "json list" where
  "failure_kinds = [JStr ''fatal'', JStr ''session_open_failed'']"

definition publish_event :: "jobj \<Rightarrow> jobj option \<Rightarrow> json list option \<Rightarrow> int \<Rightarrow> int \<times> jobj res" where
  "publish_event message state items sequence =
     (let n = sequence + 1 in
      (n, res_bind (jindex message ''type'') (\<lambda>kind.
        let result = AList.update ''resume_after'' (JInt (if kind \<in> set failure_kinds then n - 1 else n))
              (AList.update ''event_sequence'' (JInt n) message);
            result' = (case state of
                Some st \<Rightarrow> if kind \<noteq> JStr ''runtime_state'' then AList.update ''runtime'' (JObj st) result else result
              | None \<Rightarrow> result)
        in Inr (case items of
            Some is \<Rightarrow> AList.update ''transcript'' (JObj [(''items'', JList is), (''event_sequence'', JInt n)]) result'
          | None \<Rightarrow> result'))))"

section \<open>The channel\<close>

record bridge_channel =
  bc_id :: string
  bc_messages :: "jobj option list"
  bc_closed :: bool
  bc_sequence :: int

definition open_bridge_channel :: "string \<Rightarrow> bridge_channel" where
  "open_bridge_channel cid = \<lparr>bc_id = cid, bc_messages = [], bc_closed = False, bc_sequence = 0\<rparr>"

definition event_int :: "jobj \<Rightarrow> string \<Rightarrow> int res" where
  "event_int m k = res_bind (jindex m k) (\<lambda>v. case v of JInt i \<Rightarrow> Inr i | _ \<Rightarrow> Inl (TypeError k))"

definition channel_deliver :: "jobj \<Rightarrow> bridge_channel \<Rightarrow> bridge_channel res" where
  "channel_deliver m c =
     res_map (\<lambda>n. c\<lparr>bc_sequence := n, bc_messages := bc_messages c @ [Some m]\<rparr>) (event_int m ''event_sequence'')"

text \<open>The error of \<open>finish\<close>: the name of its class and its text.\<close>

definition channel_finish :: "(string \<times> string) option \<Rightarrow> bridge_channel \<Rightarrow> bridge_channel res" where
  "channel_finish error c =
     (if bc_closed c then Inr c
      else res_map (\<lambda>c'. c'\<lparr>bc_closed := True, bc_messages := bc_messages c' @ [None]\<rparr>)
        (case error of
           None \<Rightarrow> Inr c
         | Some (cls, message) \<Rightarrow>
             res_bind (snd (publish_event [(''type'', JStr ''fatal''),
                 (''error'', JObj [(''type'', JStr cls), (''message'', JStr message), (''details'', JObj [])])] None None (bc_sequence c)))
               (\<lambda>m. channel_deliver m c)))"

section \<open>States of a runtime\<close>

record runtime_fields =
  rf_turn_id :: "string option"
  rf_approval :: json
  rf_question :: json
  rf_provider :: "string option"
  rf_permission_preset :: string
  rf_context_window :: json
  rf_cache_usage :: json
  rf_jobs :: "json list option"
  rf_event_sequence :: "int option"
  rf_runtime_warnings :: "string list"
  rf_plan :: json
  rf_workspace :: "string option"

definition default_runtime_fields :: runtime_fields where
  "default_runtime_fields = \<lparr>rf_turn_id = None, rf_approval = JNull, rf_question = JNull, rf_provider = None,
     rf_permission_preset = ''ask_for_approval'', rf_context_window = JNull, rf_cache_usage = JNull, rf_jobs = None,
     rf_event_sequence = None, rf_runtime_warnings = [], rf_plan = JNull, rf_workspace = None\<rparr>"

definition runtime_state_message :: "string \<Rightarrow> runtime_fields \<Rightarrow> jobj" where
  "runtime_state_message phase f =
     [(''type'', JStr ''runtime_state''), (''phase'', JStr phase), (''turn_id'', jopt_str (rf_turn_id f)),
      (''approval'', rf_approval f), (''question'', rf_question f), (''provider'', jopt_str (rf_provider f)),
      (''permission_preset'', JStr (rf_permission_preset f)), (''context_window'', rf_context_window f),
      (''cache_usage'', rf_cache_usage f), (''jobs'', JList (case rf_jobs f of None \<Rightarrow> [] | Some js \<Rightarrow> js)),
      (''runtime_warnings'', JList (map JStr (rf_runtime_warnings f))), (''plan'', rf_plan f)]
     @ (case rf_event_sequence f of None \<Rightarrow> [] | Some n \<Rightarrow> [(''event_sequence'', JInt n)])
     @ (case rf_workspace f of None \<Rightarrow> [] | Some w \<Rightarrow> [(''workspace'', JStr w)])"

definition inactive_runtime_state :: "string option \<Rightarrow> string option \<Rightarrow> json \<Rightarrow> int option \<Rightarrow> jobj" where
  "inactive_runtime_state provider workspace cache_usage event_sequence =
     runtime_state_message ''inactive'' (default_runtime_fields\<lparr>rf_provider := provider, rf_workspace := workspace,
       rf_cache_usage := cache_usage, rf_event_sequence := event_sequence\<rparr>)"

definition attachment_replaced_message :: "json \<Rightarrow> jobj" where
  "attachment_replaced_message phase = [(''type'', JStr ''attachment_replaced''), (''phase'', phase)]"

section \<open>An active session\<close>

definition EVENT_REPLAY_LIMIT :: nat where "EVENT_REPLAY_LIMIT = 512"

text \<open>\<open>deque(maxlen=EVENT_REPLAY_LIMIT).append\<close>.\<close>

definition replay_append :: "jobj list \<Rightarrow> jobj \<Rightarrow> jobj list" where
  "replay_append es e = drop (Suc (length es) - EVENT_REPLAY_LIMIT) (es @ [e])"

text \<open>Where the reader stands: at \<open>bridge.read()\<close>, in its \<open>finally\<close> block before the last lock, at its end.\<close>

datatype bridge_reader_pc = ReaderReading | ReaderStopping | ReaderEnded

record active_session =
  as_session_id :: string
  as_state :: jobj
  as_transcript :: json
  as_pending_turn :: "string option"
  as_pending_refresh :: bool
  as_snapshot_ready :: bool
  as_resume_after :: int
  as_done :: bool
  as_closed :: bool
  as_failure_pending :: bool
  as_attachment_id :: "string option"
  as_subscriber :: "nat option"
  as_subscriber_detached :: "nat option"
  as_events :: "jobj list"
  as_event_sequence :: int
  as_reader :: bridge_reader_pc
  as_queues :: "jobj option list list"
  as_detached :: "bool list"
  as_sent :: "jobj list"

definition mk_active_session :: "string \<Rightarrow> string option \<Rightarrow> string \<Rightarrow> json list \<Rightarrow> active_session" where
  "mk_active_session sid provider workspace items = \<lparr>as_session_id = sid,
     as_state = inactive_runtime_state provider (Some workspace) JNull None,
     as_transcript = JObj [(''items'', JList items), (''event_sequence'', JInt 0)],
     as_pending_turn = None, as_pending_refresh = False, as_snapshot_ready = False, as_resume_after = 0,
     as_done = False, as_closed = False, as_failure_pending = False, as_attachment_id = None,
     as_subscriber = None, as_subscriber_detached = None, as_events = [], as_event_sequence = 0,
     as_reader = ReaderReading, as_queues = [], as_detached = [], as_sent = []\<rparr>"

definition put_queue :: "nat \<Rightarrow> jobj option \<Rightarrow> active_session \<Rightarrow> active_session" where
  "put_queue q x s = s\<lparr>as_queues := (as_queues s)[q := as_queues s ! q @ [x]]\<rparr>"

definition notify_end :: "active_session \<Rightarrow> active_session" where
  "notify_end s = (case as_subscriber s of None \<Rightarrow> s | Some q \<Rightarrow> put_queue q None s)"

definition event_seq :: "jobj \<Rightarrow> int" where
  "event_seq m = (case jget m ''event_sequence'' of JInt n \<Rightarrow> n | _ \<Rightarrow> 0)"

datatype attach_result =
    AttachRefused
  | Attached nat "jobj list" jobj
  | AttachWaits "nat option"

text \<open>One round of the loop of \<open>attach\<close>, under the lock.\<close>

definition attach_locked ::
  "int \<Rightarrow> string \<Rightarrow> bool \<Rightarrow> bool \<Rightarrow> active_session \<Rightarrow> active_session \<times> attach_result res" where
  "attach_locked after aid takeover claimed s =
     (let replacing = (as_attachment_id s \<noteq> None \<and> as_attachment_id s \<noteq> Some aid) in
      if replacing \<and> (claimed \<or> (\<not> takeover \<and> as_subscriber s \<noteq> None)) then (s, Inr AttachRefused)
      else let s1 = s\<lparr>as_attachment_id := Some aid\<rparr> in
        (case as_subscriber s1 of
           None \<Rightarrow>
             let q = length (as_queues s1);
                 s2 = s1\<lparr>as_queues := as_queues s1 @ [[]], as_detached := as_detached s1 @ [False],
                   as_subscriber := Some q, as_subscriber_detached := Some q\<rparr>;
                 events = filter (\<lambda>e. after < event_seq e) (as_events s2);
                 state = AList.update ''event_sequence'' (JInt (as_resume_after s2)) (as_state s2)
             in (if as_done s2 then put_queue q None s2 else s2, Inr (Attached q events state))
         | Some previous \<Rightarrow>
             if replacing
             then (case jindex (as_state s1) ''phase'' of
                 Inl e \<Rightarrow> (s1, Inl e)
               | Inr phase \<Rightarrow> (put_queue previous None (put_queue previous (Some (attachment_replaced_message phase)) s1),
                   Inr (AttachWaits (as_subscriber_detached s1))))
             else (put_queue previous None s1, Inr (AttachWaits (as_subscriber_detached s1)))))"

definition detach :: "nat \<Rightarrow> active_session \<Rightarrow> active_session" where
  "detach q s =
     (if as_subscriber s = Some q
      then (case as_subscriber_detached s of
          None \<Rightarrow> s\<lparr>as_subscriber := None\<rparr>
        | Some d \<Rightarrow> s\<lparr>as_subscriber := None, as_detached := (as_detached s)[d := True], as_subscriber_detached := None\<rparr>)
      else s)"

text \<open>\<open>send\<close>; the argument \<open>bridge_open\<close> says whether the Bridge still takes input.\<close>

definition host_send :: "(json \<Rightarrow> string) \<Rightarrow> bool \<Rightarrow> jobj \<Rightarrow> active_session \<Rightarrow> active_session \<times> unit res" where
  "host_send render bridge_open m s =
     (let forward = (\<lambda>s'. if bridge_open then (s'\<lparr>as_sent := as_sent s' @ [m]\<rparr>, Inr ()) else (s', Inl (RuntimeError ''Bridge input is closed'')))
      in if jget m ''type'' = JStr ''user_turn''
         then (case jindex m ''turn_id'' of
             Inl e \<Rightarrow> (s, Inl e)
           | Inr t \<Rightarrow> forward (s\<lparr>as_pending_turn := Some (case t of JStr x \<Rightarrow> x | _ \<Rightarrow> render t), as_snapshot_ready := False\<rparr>))
         else if jget m ''type'' = JStr ''runtime_refresh'' then forward (s\<lparr>as_pending_refresh := True, as_snapshot_ready := False\<rparr>)
         else forward s)"

definition owns_attachment :: "string \<Rightarrow> active_session \<Rightarrow> bool" where
  "owns_attachment aid s \<longleftrightarrow> as_attachment_id s = Some aid"

definition attachable :: "active_session \<Rightarrow> bool" where
  "attachable s \<longleftrightarrow> \<not> as_done s \<or> as_failure_pending s"

definition host_running :: "active_session \<Rightarrow> bool res" where
  "host_running s =
     (if as_done s then Inr False
      else if as_pending_turn s \<noteq> None \<or> as_pending_refresh s then Inr True
      else res_map runtime_is_active (jindex (as_state s) ''phase''))"

definition host_turn_id :: "active_session \<Rightarrow> json" where
  "host_turn_id s = (case as_pending_turn s of Some (c # cs) \<Rightarrow> JStr (c # cs) | _ \<Rightarrow> jget (as_state s) ''turn_id'')"

definition mark_failure_delivered :: "active_session \<Rightarrow> active_session" where
  "mark_failure_delivered s = s\<lparr>as_failure_pending := False\<rparr>"

definition terminal_kinds :: "json list" where
  "terminal_kinds = [JStr ''turn_completed'', JStr ''turn_cancelled'', JStr ''turn_failed'', JStr ''fatal'', JStr ''session_open_failed'']"

definition refresh_kinds :: "json list" where
  "refresh_kinds = [JStr ''runtime_refreshed'', JStr ''runtime_refresh_failed'', JStr ''fatal'', JStr ''session_open_failed'']"

definition ready_snapshot :: "active_session \<Rightarrow> active_session" where
  "ready_snapshot s = s\<lparr>as_pending_turn := None, as_snapshot_ready := True\<rparr>"

text \<open>The state a message carries: its own fields, its \<open>runtime\<close>, or for a bare \<open>fatal\<close> the failed state, which
  the message then carries too.\<close>

definition carried_state :: "json \<Rightarrow> jobj \<Rightarrow> active_session \<Rightarrow> jobj \<times> json" where
  "carried_state kind m s =
     (let state = (if kind = JStr ''runtime_state'' then JObj m else jget m ''runtime'') in
      if kind = JStr ''fatal'' \<and> state = JNull
      then let failed = JObj (AList.update ''jobs'' (JList []) (AList.update ''question'' JNull (AList.update ''approval'' JNull
             (AList.update ''turn_id'' JNull (AList.update ''phase'' (JStr ''failed'') (as_state s))))))
        in (AList.update ''runtime'' failed m, failed)
      else (m, state))"

definition adopt_state :: "json \<Rightarrow> active_session \<Rightarrow> active_session \<times> unit res" where
  "adopt_state state s =
     (case state of
        JNull \<Rightarrow> (s, Inr ())
      | JObj st \<Rightarrow>
          let s1 = s\<lparr>as_state := filter (\<lambda>(k, _). k \<notin> {''event_sequence'', ''resume_after'', ''transcript''}) st\<rparr> in
          (case as_pending_turn s1 of
             None \<Rightarrow> (ready_snapshot s1, Inr ())
           | Some t \<Rightarrow>
               (case jindex (as_state s1) ''turn_id'' of
                  Inl e \<Rightarrow> (s1, Inl e)
                | Inr v \<Rightarrow> (if v = JStr t then ready_snapshot s1 else s1, Inr ())))
      | _ \<Rightarrow> (s, Inl (AttributeError ''items'')))"

definition keep_event :: "json \<Rightarrow> jobj \<Rightarrow> active_session \<Rightarrow> active_session" where
  "keep_event kind m s =
     (let s1 = (case map_of m ''transcript'' of None \<Rightarrow> s | Some t \<Rightarrow> s\<lparr>as_transcript := t\<rparr>);
          s2 = (if kind \<in> set terminal_kinds then ready_snapshot s1 else s1);
          s3 = (if kind \<in> set refresh_kinds then s2\<lparr>as_pending_refresh := False\<rparr> else s2);
          s4 = (if kind \<in> set failure_kinds then s3\<lparr>as_failure_pending := True\<rparr> else s3);
          s5 = s4\<lparr>as_events := replay_append (as_events s4) m\<rparr>
      in case as_subscriber s5 of None \<Rightarrow> s5 | Some q \<Rightarrow> put_queue q (Some m) s5)"

text \<open>The body of the reader's loop: whether it goes on.\<close>

definition read_message :: "jobj \<Rightarrow> active_session \<Rightarrow> active_session \<times> bool res" where
  "read_message m s =
     (case event_int m ''event_sequence'' of
        Inl e \<Rightarrow> (s, Inl e)
      | Inr n \<Rightarrow>
          let s1 = s\<lparr>as_event_sequence := n\<rparr> in
          (case event_int m ''resume_after'' of
             Inl e \<Rightarrow> (s1, Inl e)
           | Inr r \<Rightarrow>
               let s2 = s1\<lparr>as_resume_after := r\<rparr> in
               (case jindex m ''type'' of
                  Inl e \<Rightarrow> (s2, Inl e)
                | Inr kind \<Rightarrow>
                    let (m', state) = carried_state kind m s2 in
                    (case adopt_state state s2 of
                       (s3, Inl e) \<Rightarrow> (s3, Inl e)
                     | (s3, Inr _) \<Rightarrow> (keep_event kind m' s3, Inr (kind \<notin> set failure_kinds))))))"

text \<open>The reader leaves its loop: the first part of its \<open>finally\<close> block, up to the wait for the channel.\<close>

definition reader_leave :: "active_session \<Rightarrow> active_session" where
  "reader_leave s = s\<lparr>as_done := True, as_snapshot_ready := True, as_closed := True, as_reader := ReaderStopping\<rparr>"

section \<open>Interleavings\<close>

datatype host_action =
    HRead jobj \<comment> \<open>the reader takes a message\<close>
  | HReadEnd \<comment> \<open>the reader takes the end mark of the channel, or is cancelled\<close>
  | HReaderEnd \<comment> \<open>the last block of the reader\<close>
  | HAttach int string bool bool
  | HDetach nat
  | HSend bool jobj
  | HCloseBegin
  | HCloseEnd
  | HFailureDelivered

definition after_read :: "active_session \<times> bool res \<Rightarrow> active_session" where
  "after_read r = (case snd r of Inr True \<Rightarrow> fst r | _ \<Rightarrow> reader_leave (fst r))"

fun host_act :: "(json \<Rightarrow> string) \<Rightarrow> host_action \<Rightarrow> active_session \<Rightarrow> active_session option" where
  "host_act render (HRead m) s = (if as_reader s = ReaderReading then Some (after_read (read_message m s)) else None)"
| "host_act render HReadEnd s = (if as_reader s = ReaderReading then Some (reader_leave s) else None)"
| "host_act render HReaderEnd s = (if as_reader s = ReaderStopping then Some (notify_end (s\<lparr>as_reader := ReaderEnded\<rparr>)) else None)"
| "host_act render (HAttach after aid takeover claimed) s =
     (if as_snapshot_ready s then Some (fst (attach_locked after aid takeover claimed s)) else None)"
| "host_act render (HDetach q) s = Some (detach q s)"
| "host_act render (HSend opened m) s = Some (fst (host_send render opened m s))"
| "host_act render HCloseBegin s = Some (if as_closed s then s else s\<lparr>as_closed := True, as_done := True\<rparr>)"
| "host_act render HCloseEnd s = Some (notify_end s)"
| "host_act render HFailureDelivered s = Some (mark_failure_delivered s)"

fun host_run :: "(json \<Rightarrow> string) \<Rightarrow> host_action list \<Rightarrow> active_session \<Rightarrow> active_session option" where
  "host_run render [] s = Some s"
| "host_run render (a # as) s = Option.bind (host_act render a s) (host_run render as)"

section \<open>Numbers\<close>

text \<open>Consecutive integers, and the window of the last 512.\<close>

lemma upto_snoc: "i \<le> j + 1 \<Longrightarrow> [i..j] @ [j + 1] = [i..j + 1]"
  using upto_rec2 [of i "j + 1"] by simp

lemma drop_upto: "drop k [i..j] = [i + int k..j]"
proof (induction k arbitrary: i)
  case (Suc k)
  show ?case
  proof (cases "i \<le> j")
    case True
    then show ?thesis using Suc.IH [of "i + 1"] by (simp add: upto_rec1 algebra_simps)
  qed simp
qed simp

lemma filter_less_upto: "filter (\<lambda>n. a < n) [i..j] = [max i (a + 1)..j]"
proof (induction i j rule: upto.induct)
  case (1 i j)
  show ?case
  proof (cases "i \<le> j")
    case True
    then show ?thesis using 1 by (cases "i = a + 1"; cases "a < i") (auto simp: upto_rec1 max_def)
  qed simp
qed

lemma upto_append: "i \<le> j + 1 \<Longrightarrow> j \<le> k \<Longrightarrow> [i..j] @ [j + 1..k] = [i..k]"
proof (cases "j = i - 1")
  case False
  assume "i \<le> j + 1" "j \<le> k"
  with False show ?thesis using upto_split2 [of i j k] by auto
qed auto

lemma replay_append_numbers:
  assumes "map event_seq es = [max 1 (L - 511)..L]" "event_seq m = L + 1" "0 \<le> L"
  shows "map event_seq (replay_append es m) = [max 1 (L - 510)..L + 1]"
proof -
  have len: "length es = nat (L + 1 - max 1 (L - 511))" using arg_cong [OF assms(1), of length] by simp
  have "map event_seq (replay_append es m) = drop (Suc (length es) - EVENT_REPLAY_LIMIT) ([max 1 (L - 511)..L] @ [L + 1])"
    by (simp only: replay_append_def drop_map [symmetric] map_append list.map assms)
  also have "\<dots> = [max 1 (L - 511) + int (Suc (length es) - EVENT_REPLAY_LIMIT)..L + 1]"
    using assms(3) by (subst upto_snoc) (auto simp: drop_upto)
  also have "max 1 (L - 511) + int (Suc (length es) - EVENT_REPLAY_LIMIT) = max 1 (L - 510)"
    using len assms(3) by (simp add: EVENT_REPLAY_LIMIT_def max_def split: if_splits)
  finally show ?thesis .
qed

section \<open>Published numbers\<close>

fun numbered :: "int \<Rightarrow> jobj list \<Rightarrow> bool" where
  "numbered n [] \<longleftrightarrow> True"
| "numbered n (m # ms) \<longleftrightarrow> event_int m ''event_sequence'' = Inr (n + 1) \<and> numbered (n + 1) ms"

fun publish_all :: "int \<Rightarrow> (jobj \<times> jobj option \<times> json list option) list \<Rightarrow> jobj list res" where
  "publish_all n [] = Inr []"
| "publish_all n ((m, st, items) # rest) =
     (case publish_event m st items n of (n', r) \<Rightarrow> res_bind r (\<lambda>e. res_map ((#) e) (publish_all n' rest)))"

lemma jindex_update: "jindex (AList.update k v d) k' = (if k' = k then Inr v else jindex d k')"
  by (simp add: jindex_def update_conv')

lemma publish_number:
  "publish_event m st items n = (n', Inr e) \<Longrightarrow> n' = n + 1 \<and> event_int e ''event_sequence'' = Inr (n + 1)"
  by (auto simp: publish_event_def Let_def res_bind_Inr_iff event_int_def jindex_update split: option.splits if_splits)

lemma publish_all_numbered: "publish_all n inputs = Inr es \<Longrightarrow> numbered n es"
proof (induction inputs arbitrary: n es)
  case (Cons i inputs)
  obtain m st items where i: "i = (m, st, items)" by (cases i)
  obtain n' r where p: "publish_event m st items n = (n', r)" by fastforce
  with Cons.prems i obtain e es' where "r = Inr e" "es = e # es'" "publish_all n' inputs = Inr es'"
    by (auto simp: res_bind_Inr_iff res_map_Inr_iff)
  with publish_number [of m st items n n' e] p Cons.IH show ?case by auto
qed simp

lemma numbered_append: "numbered n (xs @ ys) \<longleftrightarrow> numbered n xs \<and> numbered (n + int (length xs)) ys"
  by (induction xs arbitrary: n) (auto simp: algebra_simps)

text \<open>A channel carries the numbers on: the event that reports the end of a broken Bridge has the number after the last
  delivered one.\<close>

lemma channel_finish_numbered:
  assumes "channel_finish (Some (cls, text)) c = Inr c'" "\<not> bc_closed c"
  shows "\<exists>m. bc_messages c' = bc_messages c @ [Some m, None] \<and> event_int m ''event_sequence'' = Inr (bc_sequence c + 1)
    \<and> event_int m ''resume_after'' = Inr (bc_sequence c)"
  using assms by (auto simp: channel_finish_def channel_deliver_def res_map_Inr_iff res_bind_Inr_iff publish_event_def Let_def
      event_int_def jindex_update failure_kinds_def)

section \<open>A client misses no event\<close>

definition read_events :: "host_action list \<Rightarrow> jobj list" where
  "read_events as = concat (map (\<lambda>a. case a of HRead m \<Rightarrow> [m] | _ \<Rightarrow> []) as)"

text \<open>The numbers of the events put into a queue; a notice that another client took over has none.\<close>

definition queue_numbers :: "active_session \<Rightarrow> nat \<Rightarrow> int list" where
  "queue_numbers s q = concat (map (\<lambda>x. case x of
     Some m \<Rightarrow> if is_ok (event_int m ''event_sequence'') then [event_seq m] else [] | None \<Rightarrow> []) (as_queues s ! q))"

definition host_inv :: "int \<Rightarrow> active_session \<Rightarrow> bool" where
  "host_inv L s \<longleftrightarrow> 0 \<le> L \<and> map event_seq (as_events s) = [max 1 (L - 511)..L]
     \<and> as_event_sequence s \<in> {L, L + 1} \<and> (as_reader s = ReaderReading \<longrightarrow> as_event_sequence s = L)
     \<and> (\<forall>q. as_subscriber s = Some q \<longrightarrow> q < length (as_queues s))"

definition queue_inv :: "nat \<Rightarrow> int \<Rightarrow> int \<Rightarrow> active_session \<Rightarrow> bool" where
  "queue_inv q a L s \<longleftrightarrow> q < length (as_queues s)
     \<and> (\<exists>b. queue_numbers s q = [a + 1..b] \<and> a \<le> b \<and> b \<le> L \<and> (as_subscriber s = Some q \<longrightarrow> b = L))"

text \<open>What the actions that read nothing keep.\<close>

definition same_stream :: "active_session \<Rightarrow> active_session \<Rightarrow> bool" where
  "same_stream s s' \<longleftrightarrow> as_events s' = as_events s \<and> as_event_sequence s' = as_event_sequence s
     \<and> (as_reader s' = ReaderReading \<longrightarrow> as_reader s = ReaderReading)
     \<and> length (as_queues s) \<le> length (as_queues s')
     \<and> (\<forall>q < length (as_queues s). queue_numbers s' q = queue_numbers s q)
     \<and> (\<forall>q. as_subscriber s' = Some q \<longrightarrow> as_subscriber s = Some q \<or> length (as_queues s) \<le> q \<and> q < length (as_queues s'))"

lemma same_stream_inv: "same_stream s s' \<Longrightarrow> host_inv L s \<Longrightarrow> host_inv L s'"
  by (fastforce simp: same_stream_def host_inv_def)

lemma same_stream_queue: "same_stream s s' \<Longrightarrow> queue_inv q a L s \<Longrightarrow> queue_inv q a L s'"
  by (force simp: same_stream_def queue_inv_def)

lemma queue_numbers_put:
  "q < length (as_queues s) \<Longrightarrow> queue_numbers (put_queue p x s) q
     = queue_numbers s q @ (if p = q then (case x of
         Some m \<Rightarrow> if is_ok (event_int m ''event_sequence'') then [event_seq m] else [] | None \<Rightarrow> []) else [])"
  by (auto simp: queue_numbers_def put_queue_def nth_list_update)

lemma same_stream_refl [simp]: "same_stream s s"
  by (simp add: same_stream_def)

lemma same_stream_trans: "same_stream s t \<Longrightarrow> same_stream t u \<Longrightarrow> same_stream s u"
  unfolding same_stream_def by (elim conjE, intro conjI allI impI) (simp_all, meson le_trans order_less_le_trans)

lemma put_mark_same: "same_stream s (put_queue q None s)"
  by (auto simp: same_stream_def queue_numbers_put) (auto simp: put_queue_def)

lemma notice_number [simp]: "\<not> is_ok (event_int (attachment_replaced_message p) ''event_sequence'')"
  by (simp add: attachment_replaced_message_def event_int_def)

lemma put_notice_same: "same_stream s (put_queue q (Some (attachment_replaced_message p)) s)"
  by (auto simp: same_stream_def queue_numbers_put) (auto simp: put_queue_def)

lemma notify_end_same: "same_stream s (notify_end s)"
  by (auto simp: notify_end_def put_mark_same split: option.splits)

text \<open>An update that touches neither the events nor the queues nor the subscriber.\<close>

lemma same_stream_fields:
  "as_events s' = as_events s \<Longrightarrow> as_event_sequence s' = as_event_sequence s \<Longrightarrow> as_queues s' = as_queues s
   \<Longrightarrow> as_subscriber s' = as_subscriber s \<or> as_subscriber s' = None
   \<Longrightarrow> (as_reader s' = ReaderReading \<Longrightarrow> as_reader s = ReaderReading) \<Longrightarrow> same_stream s s'"
  by (auto simp: same_stream_def queue_numbers_def)

lemma detach_same: "same_stream s (detach q s)"
  by (rule same_stream_fields) (auto simp: detach_def split: option.splits if_splits)

lemma host_send_same: "same_stream s (fst (host_send render opened m s))"
  by (rule same_stream_fields) (auto simp: host_send_def Let_def split: sum.splits if_splits)

lemma reader_leave_same: "same_stream s (reader_leave s)"
  by (rule same_stream_fields) (auto simp: reader_leave_def)

lemma attach_new_same:
  assumes "as_subscriber s = None"
  shows "same_stream s (s\<lparr>as_attachment_id := Some aid, as_queues := as_queues s @ [[]], as_detached := ds,
    as_subscriber := Some (length (as_queues s)), as_subscriber_detached := d\<rparr>)"
  using assms by (auto simp: same_stream_def queue_numbers_def nth_append)

lemma attach_locked_same: "same_stream s (fst (attach_locked after aid takeover claimed s))"
proof (cases "as_subscriber s")
  case None
  show ?thesis
    using attach_new_same [OF None] same_stream_trans [OF attach_new_same [OF None] put_mark_same]
    by (auto simp: attach_locked_def Let_def None)
next
  case (Some p)
  let ?s1 = "s\<lparr>as_attachment_id := Some aid\<rparr>"
  have 1: "same_stream s ?s1" by (rule same_stream_fields) auto
  note 2 = same_stream_trans [OF 1 put_mark_same]
  note 3 = same_stream_trans [OF same_stream_trans [OF 1 put_notice_same] put_mark_same]
  show ?thesis using 1 2 3 by (auto simp: attach_locked_def Let_def Some split: sum.splits)
qed

lemma host_act_same:
  assumes "host_act render a s = Some s'" "\<And>m. a \<noteq> HRead m"
  shows "same_stream s s'"
proof (cases a)
  case HReaderEnd
  have "same_stream s (s\<lparr>as_reader := ReaderEnded\<rparr>)" by (rule same_stream_fields) auto
  with HReaderEnd assms show ?thesis by (auto split: if_splits intro: same_stream_trans [OF _ notify_end_same])
next
  case HCloseBegin
  have "same_stream s (s\<lparr>as_closed := True, as_done := True\<rparr>)" by (rule same_stream_fields) auto
  with HCloseBegin assms show ?thesis by (auto split: if_splits)
next
  case HFailureDelivered
  have "same_stream s (mark_failure_delivered s)" by (rule same_stream_fields) (auto simp: mark_failure_delivered_def)
  with HFailureDelivered assms show ?thesis by auto
qed (use assms in \<open>auto simp: attach_locked_same detach_same host_send_same reader_leave_same notify_end_same split: if_splits\<close>)

subsection \<open>One message\<close>

text \<open>The fields of the stream after a change of other fields.\<close>

definition stream_of :: "active_session \<Rightarrow> jobj list \<times> nat option \<times> jobj option list list \<times> bridge_reader_pc" where
  "stream_of s = (as_events s, as_subscriber s, as_queues s, as_reader s)"

lemma stream_of_ready [simp]: "stream_of (ready_snapshot s) = stream_of s" "as_event_sequence (ready_snapshot s) = as_event_sequence s"
  by (simp_all add: stream_of_def ready_snapshot_def)

lemma adopt_state_stream:
  "stream_of (fst (adopt_state st s)) = stream_of s \<and> as_event_sequence (fst (adopt_state st s)) = as_event_sequence s"
  by (auto simp: adopt_state_def Let_def stream_of_def ready_snapshot_def split: json.splits option.splits sum.splits)

lemma carried_number: "event_int (fst (carried_state kind m s)) ''event_sequence'' = event_int m ''event_sequence''"
  by (simp add: carried_state_def Let_def event_int_def jindex_update)

lemma event_int_seq: "event_int m ''event_sequence'' = Inr n \<Longrightarrow> event_seq m = n"
  by (cases "map_of m ''event_sequence''"; cases "the (map_of m ''event_sequence'')")
    (auto simp: event_int_def event_seq_def jindex_def jget_def)

lemma keep_event_fields:
  "as_events (keep_event kind m s) = replay_append (as_events s) m"
  "as_subscriber (keep_event kind m s) = as_subscriber s"
  "as_event_sequence (keep_event kind m s) = as_event_sequence s"
  "as_reader (keep_event kind m s) = as_reader s"
  "as_queues (keep_event kind m s) = (case as_subscriber s of None \<Rightarrow> as_queues s
     | Some q \<Rightarrow> (as_queues s)[q := as_queues s ! q @ [Some m]])"
  by (simp_all add: keep_event_def Let_def ready_snapshot_def put_queue_def split: option.splits)

text \<open>A message is kept, or the reader leaves with everything as it was but the number.\<close>

lemma read_message_cases:
  assumes "event_int m ''event_sequence'' = Inr n" "read_message m s = (s', r)"
  shows "(\<exists>m' t kind b. s' = keep_event kind m' t \<and> r = Inr b \<and> event_int m' ''event_sequence'' = Inr n
            \<and> stream_of t = stream_of s \<and> as_event_sequence t = n)
       \<or> (\<not> is_ok r \<and> stream_of s' = stream_of s \<and> as_event_sequence s' = n)"
proof -
  let ?s1 = "s\<lparr>as_event_sequence := n\<rparr>"
  have e1: "stream_of ?s1 = stream_of s" by (simp add: stream_of_def)
  show ?thesis
  proof (cases "event_int m ''resume_after''")
    case (Inl e)
    then show ?thesis using assms e1 by (auto simp: read_message_def)
  next
    case (Inr k)
    let ?s2 = "?s1\<lparr>as_resume_after := k\<rparr>"
    have e2: "stream_of ?s2 = stream_of s" by (simp add: stream_of_def)
    show ?thesis
    proof (cases "jindex m ''type''")
      case (Inl e)
      then show ?thesis using assms e2 Inr by (auto simp: read_message_def)
    next
      case kind: (Inr kind)
      obtain m' st where c: "carried_state kind m ?s2 = (m', st)" by fastforce
      obtain s3 r3 where a: "adopt_state st ?s2 = (s3, r3)" by fastforce
      have s3: "stream_of s3 = stream_of s" "as_event_sequence s3 = n"
        using adopt_state_stream [of st ?s2] a e2 by auto
      have m': "event_int m' ''event_sequence'' = Inr n" using carried_number [of kind m ?s2] c assms(1) by simp
      show ?thesis
      proof (cases r3)
        case (Inl e)
        then show ?thesis using assms Inr kind c a s3 by (auto simp: read_message_def)
      next
        case r3: (Inr u)
        then have "s' = keep_event kind m' s3 \<and> (\<exists>b. r = Inr b)" using assms Inr kind c a by (auto simp: read_message_def)
        then show ?thesis using m' s3 by blast
      qed
    qed
  qed
qed

lemma stream_of_inv: "stream_of t = stream_of s \<Longrightarrow> host_inv L s \<Longrightarrow> as_reader t \<noteq> ReaderReading \<Longrightarrow> as_event_sequence t = L + 1
   \<Longrightarrow> host_inv L t"
  by (simp add: host_inv_def stream_of_def)

lemma stream_of_queue: "stream_of t = stream_of s \<Longrightarrow> queue_inv q a L s \<Longrightarrow> queue_inv q a L t"
  by (simp add: queue_inv_def queue_numbers_def stream_of_def)

lemma keep_event_inv:
  assumes I: "host_inv L s" and t: "stream_of t = stream_of s" "as_event_sequence t = L + 1"
    and m: "event_int m ''event_sequence'' = Inr (L + 1)"
  shows "host_inv (L + 1) (keep_event kind m t)"
proof -
  have s: "as_events t = as_events s" "as_queues t = as_queues s" "as_subscriber t = as_subscriber s"
    using t(1) by (auto simp: stream_of_def)
  have "map event_seq (replay_append (as_events s) m) = [max 1 (L - 510)..L + 1]"
    using I event_int_seq [OF m] by (intro replay_append_numbers) (auto simp: host_inv_def)
  then show ?thesis using I t(2) s
    by (auto simp: host_inv_def keep_event_fields algebra_simps split: option.splits)
qed

lemma keep_event_queue:
  assumes Q: "queue_inv q a L s" and t: "stream_of t = stream_of s" and m: "event_int m ''event_sequence'' = Inr (L + 1)"
  shows "queue_inv q a (L + 1) (keep_event kind m t)"
proof -
  have s: "as_queues t = as_queues s" "as_subscriber t = as_subscriber s" using t by (auto simp: stream_of_def)
  from Q obtain b where b: "q < length (as_queues s)" "queue_numbers s q = [a + 1..b]" "a \<le> b" "b \<le> L"
    "as_subscriber s = Some q \<longrightarrow> b = L" by (auto simp: queue_inv_def)
  show ?thesis
  proof (cases "as_subscriber s = Some q")
    case True
    then have "queue_numbers (keep_event kind m t) q = [a + 1..L] @ [L + 1]"
      using b s event_int_seq [OF m] m by (simp add: queue_numbers_def keep_event_fields)
    then show ?thesis using b True s by (auto simp: queue_inv_def keep_event_fields upto_snoc)
  next
    case False
    then have "queue_numbers (keep_event kind m t) q = queue_numbers s q"
      using s by (auto simp: queue_numbers_def keep_event_fields nth_list_update split: option.splits)
    then show ?thesis using b False s by (auto simp: queue_inv_def keep_event_fields split: option.splits)
  qed
qed

text \<open>What one action does to the numbers.\<close>

definition stream_moves :: "int \<Rightarrow> active_session \<Rightarrow> int \<Rightarrow> active_session \<Rightarrow> bool" where
  "stream_moves L s L' s' \<longleftrightarrow> host_inv L' s' \<and> L \<le> L' \<and> (\<forall>q a. queue_inv q a L s \<longrightarrow> queue_inv q a L' s')"

lemma stream_moves_trans: "stream_moves L s L1 s1 \<Longrightarrow> stream_moves L1 s1 L2 s2 \<Longrightarrow> stream_moves L s L2 s2"
  by (auto simp: stream_moves_def)

lemma same_stream_moves: "same_stream s s' \<Longrightarrow> host_inv L s \<Longrightarrow> stream_moves L s L s'"
  by (simp add: stream_moves_def same_stream_inv same_stream_queue)

lemma read_moves:
  assumes I: "host_inv L s" and r: "as_reader s = ReaderReading" and m: "event_int m ''event_sequence'' = Inr (L + 1)"
  shows "\<exists>L'. stream_moves L s L' (after_read (read_message m s))
    \<and> (as_reader (after_read (read_message m s)) = ReaderReading \<longrightarrow> L' = L + 1)"
proof -
  obtain s' res where R: "read_message m s = (s', res)" by fastforce
  from read_message_cases [OF m R] show ?thesis
  proof (elim disjE exE conjE)
    fix m' t kind b
    assume k: "s' = keep_event kind m' t" "res = Inr b" "event_int m' ''event_sequence'' = Inr (L + 1)"
      "stream_of t = stream_of s" "as_event_sequence t = L + 1"
    have M: "stream_moves L s (L + 1) s'"
      using keep_event_inv [OF I k(4,5,3)] keep_event_queue [OF _ k(4,3)] k(1) by (simp add: stream_moves_def)
    then have "stream_moves L s (L + 1) (reader_leave s')"
      using same_stream_moves [OF reader_leave_same] stream_moves_trans by (metis stream_moves_def)
    with M show ?thesis by (intro exI [of _ "L + 1"]) (cases b; simp add: R k(2) after_read_def)
  next
    assume e: "\<not> is_ok res" "stream_of s' = stream_of s" "as_event_sequence s' = L + 1"
    have l: "after_read (read_message m s) = reader_leave s'" using e(1) R by (auto simp: after_read_def is_ok_def split: sum.splits)
    let ?t = "reader_leave s'"
    have t: "as_events ?t = as_events s" "as_queues ?t = as_queues s" "as_subscriber ?t = as_subscriber s"
      "as_event_sequence ?t = L + 1" "as_reader ?t = ReaderStopping"
      using e by (auto simp: reader_leave_def stream_of_def)
    then have "host_inv L ?t" using I by (simp add: host_inv_def)
    moreover have "queue_inv q a L ?t" if "queue_inv q a L s" for q a
      using that t by (simp add: queue_inv_def queue_numbers_def)
    ultimately show ?thesis using l t(5) by (auto simp: stream_moves_def)
  qed
qed

lemma host_act_moves:
  assumes "host_act render a s = Some s'" and "host_inv L s"
    and "as_reader s = ReaderReading \<Longrightarrow> numbered L (read_events [a])"
  shows "\<exists>L'. stream_moves L s L' s' \<and> (as_reader s' = ReaderReading \<longrightarrow> as_reader s = ReaderReading \<and> L' = L + int (length (read_events [a])))
    \<and> (as_reader s \<noteq> ReaderReading \<longrightarrow> L' = L)"
proof (cases "\<exists>m. a = HRead m")
  case True
  then obtain m where a: "a = HRead m" ..
  with assms(1) have r: "as_reader s = ReaderReading" "s' = after_read (read_message m s)" by (auto split: if_splits)
  with assms(3) a have "event_int m ''event_sequence'' = Inr (L + 1)" by (simp add: read_events_def)
  from read_moves [OF assms(2) r(1) this] r a show ?thesis by (auto simp: read_events_def)
next
  case False
  then have S: "same_stream s s'" using host_act_same [OF assms(1)] by blast
  have "read_events [a] = []" using False by (cases a) (auto simp: read_events_def)
  with same_stream_moves [OF S assms(2)] S show ?thesis by (intro exI [of _ L]) (auto simp: same_stream_def)
qed

lemma read_events_simps: "read_events [] = []" "read_events (a # as) = read_events [a] @ read_events as"
  "read_events (as @ bs) = read_events as @ read_events bs"
  by (simp_all add: read_events_def)

lemma host_run_moves:
  "host_run render as s = Some s' \<Longrightarrow> host_inv L s \<Longrightarrow> (as_reader s = ReaderReading \<Longrightarrow> numbered L (read_events as))
   \<Longrightarrow> \<exists>L'. stream_moves L s L' s' \<and> (as_reader s' = ReaderReading \<longrightarrow> as_reader s = ReaderReading \<and> L' = L + int (length (read_events as)))
     \<and> (as_reader s \<noteq> ReaderReading \<longrightarrow> L' = L)"
proof (induction as arbitrary: s L)
  case Nil
  then show ?case by (auto simp: stream_moves_def read_events_simps)
next
  case (Cons a as)
  from Cons.prems(1) obtain t where t: "host_act render a s = Some t" "host_run render as t = Some s'"
    by (auto simp: bind_eq_Some_conv)
  have n: "numbered L (read_events [a]) \<and> numbered (L + int (length (read_events [a]))) (read_events as)" if "as_reader s = ReaderReading"
    using Cons.prems(3) [OF that] by (simp add: read_events_simps(2) [of a as] numbered_append)
  from host_act_moves [OF t(1) Cons.prems(2)] n obtain L1 where L1: "stream_moves L s L1 t"
    "as_reader t = ReaderReading \<longrightarrow> as_reader s = ReaderReading \<and> L1 = L + int (length (read_events [a]))"
    "as_reader s \<noteq> ReaderReading \<longrightarrow> L1 = L" by blast
  have "host_inv L1 t" using L1(1) by (simp add: stream_moves_def)
  from Cons.IH [OF t(2) this] n L1(2) obtain L2 where "stream_moves L1 t L2 s'"
    "as_reader s' = ReaderReading \<longrightarrow> as_reader t = ReaderReading \<and> L2 = L1 + int (length (read_events as))"
    "as_reader t \<noteq> ReaderReading \<longrightarrow> L2 = L1" by blast
  with L1 show ?case using stream_moves_trans by (intro exI [of _ L2]) (auto simp: read_events_simps(2) [of a as])
qed

lemma host_inv_init: "host_inv 0 (mk_active_session sid provider workspace items)"
  by (simp add: host_inv_def mk_active_session_def)

lemma attached_queue:
  assumes "attach_locked after aid takeover claimed s = (s', Inr (Attached q evs st))" and "host_inv L s"
  shows "evs = filter (\<lambda>e. after < event_seq e) (as_events s) \<and> queue_inv q L L s' \<and> as_reader s' = as_reader s"
  using assms by (auto simp: attach_locked_def Let_def host_inv_def queue_inv_def queue_numbers_def put_queue_def
      split: if_splits option.splits sum.splits)


text \<open>A client that attaches after the first event gets it from the replay and the second one from its queue.\<close>

definition demo_host_inputs :: "(jobj \<times> jobj option \<times> json list option) list" where
  "demo_host_inputs = [(runtime_state_message ''idle'' default_runtime_fields, None, None),
     ([(''type'', JStr ''turn_completed'')], Some [(''phase'', JStr ''idle''), (''turn_id'', JNull)], Some [JStr ''hi''])]"

definition demo_host_events :: "jobj list" where
  "demo_host_events = (case publish_all 0 demo_host_inputs of Inr es \<Rightarrow> es | Inl _ \<Rightarrow> [])"

definition demo_host_start :: active_session where
  "demo_host_start = mk_active_session ''s'' None ''/w'' []"

definition demo_render :: "json \<Rightarrow> string" where "demo_render j = ''?''"

definition demo_host_1 :: active_session where
  "demo_host_1 = the (host_run demo_render [HRead (demo_host_events ! 0)] demo_host_start)"

definition demo_host_2 :: active_session where
  "demo_host_2 = fst (attach_locked 0 ''A'' False False demo_host_1)"

definition demo_host_3 :: active_session where
  "demo_host_3 = the (host_run demo_render [HRead (demo_host_events ! 1)] demo_host_2)"

lemma demo_host_facts:
  "publish_all 0 demo_host_inputs = Inr [demo_host_events ! 0, demo_host_events ! 1]"
  "is_ok (snd (attach_locked 0 ''A'' False False demo_host_1))"
  "(case snd (attach_locked 0 ''A'' False False demo_host_1) of Inr (Attached q evs _) \<Rightarrow> q = 0 \<and> length evs = 1 | _ \<Rightarrow> False)"
  "as_event_sequence demo_host_1 = 1" "as_reader demo_host_3 = ReaderReading" "as_subscriber demo_host_3 = Some 0"
  "host_run demo_render [HRead (demo_host_events ! 0)] demo_host_start \<noteq> None"
  "host_run demo_render [HRead (demo_host_events ! 1)] demo_host_2 \<noteq> None"
  by code_simp+


section \<open>Ownership\<close>

text \<open>While another client is attached, a client that does not ask to take over is refused and changes nothing; one that takes
  over leaves the first client a notice and the end mark as the last things in its queue, and waits until that client has
  detached.\<close>

lemma attach_refused:
  "as_subscriber s = Some q \<Longrightarrow> as_attachment_id s = Some owner \<Longrightarrow> owner \<noteq> aid
   \<Longrightarrow> attach_locked after aid False claimed s = (s, Inr AttachRefused)"
  by (simp add: attach_locked_def)

lemma attach_takeover:
  assumes "as_subscriber s = Some q" "as_attachment_id s = Some owner" "owner \<noteq> aid" "q < length (as_queues s)"
    "jindex (as_state s) ''phase'' = Inr p" "attach_locked after aid True False s = (s', r)"
  shows "r = Inr (AttachWaits (as_subscriber_detached s)) \<and> owns_attachment aid s' \<and> as_subscriber s' = Some q
    \<and> as_queues s' ! q = as_queues s ! q @ [Some (attachment_replaced_message p), None]"
  using assms by (auto simp: attach_locked_def Let_def put_queue_def owns_attachment_def)

lemma attach_attached_iff:
  "(\<exists>q evs st s'. attach_locked after aid takeover claimed s = (s', Inr (Attached q evs st)))
   \<longleftrightarrow> as_subscriber s = None \<and> (claimed \<longrightarrow> as_attachment_id s \<in> {None, Some aid})"
  by (auto simp: attach_locked_def Let_def split: option.splits sum.splits)

section \<open>The Bridge process\<close>

record bridge_process =
  bp_channels :: "(string, bridge_channel) dict"
  bp_ready :: bool
  bp_error :: "exn option"
  bp_closing :: bool
  bp_returncode :: "int option"

definition new_bridge :: bridge_process where
  "new_bridge = \<lparr>bp_channels = [], bp_ready = False, bp_error = None, bp_closing = False, bp_returncode = None\<rparr>"

definition bridge_available :: "bridge_process \<Rightarrow> bool" where
  "bridge_available b \<longleftrightarrow> \<not> bp_closing b \<and> bp_error b = None \<and> bp_returncode b = None"

definition open_channel :: "string \<Rightarrow> bridge_process \<Rightarrow> bridge_process res" where
  "open_channel cid b =
     (case bp_error b of
        Some e \<Rightarrow> Inl e
      | None \<Rightarrow>
          if bp_closing b then Inl (RuntimeError ''Bridge is closing'')
          else if map_of (bp_channels b) cid \<noteq> None then Inl (ValueError (''channel '' @ quoted cid @ '' is already open''))
          else Inr (b\<lparr>bp_channels := AList.update cid (open_bridge_channel cid) (bp_channels b)\<rparr>))"

definition PROTOCOL_VERSION :: int where "PROTOCOL_VERSION = 3"

text \<open>One message of the process: the body of the loop of \<open>_dispatch\<close>. An index into a value that is no dictionary is a
  \<open>TypeError\<close>; the text of an unknown kind and of a fatal message come from \<open>render\<close>.\<close>

definition sub_object :: "jobj \<Rightarrow> string \<Rightarrow> jobj res" where
  "sub_object m k = res_bind (jindex m k) (\<lambda>v. case v of JObj d \<Rightarrow> Inr d | _ \<Rightarrow> Inl (TypeError k))"

definition json_text :: "(json \<Rightarrow> string) \<Rightarrow> json \<Rightarrow> string" where
  "json_text render v = (case v of JStr s \<Rightarrow> s | _ \<Rightarrow> render v)"

definition dispatch_message :: "(json \<Rightarrow> string) \<Rightarrow> jobj \<Rightarrow> bridge_process \<Rightarrow> bridge_process res" where
  "dispatch_message render m b =
     res_bind (jindex m ''type'') (\<lambda>kind.
       if kind = JStr ''bridge_ready''
       then res_bind (jindex m ''protocol_version'') (\<lambda>v.
         if v \<noteq> JInt PROTOCOL_VERSION then Inl (ValueError ''Unsupported Bridge protocol version'') else Inr (b\<lparr>bp_ready := True\<rparr>))
       else if kind = JStr ''fatal''
       then res_bind (sub_object m ''error'') (\<lambda>e. res_bind (jindex e ''message'') (\<lambda>v. Inl (RuntimeError (json_text render v))))
       else if kind = JStr ''channel_event''
       then res_bind (jindex m ''channel_id'') (\<lambda>cid.
         case Option.bind (case cid of JStr c \<Rightarrow> Some c | _ \<Rightarrow> None) (map_of (bp_channels b)) of
           None \<Rightarrow> Inr b
         | Some c \<Rightarrow> res_bind (sub_object m ''event'') (\<lambda>e.
             res_map (\<lambda>c'. b\<lparr>bp_channels := AList.update (bc_id c) c' (bp_channels b)\<rparr>) (channel_deliver e c)))
       else if kind = JStr ''channel_closed''
       then res_bind (jindex m ''channel_id'') (\<lambda>cid.
         Inr (case cid of JStr c \<Rightarrow> b\<lparr>bp_channels := AList.delete c (bp_channels b)\<rparr> | _ \<Rightarrow> b))
       else Inl (ValueError (''Unknown Bridge event: '' @ json_text render kind)))"

text \<open>The end of \<open>_dispatch\<close>, with the error of its loop: the channels are finished and forgotten.\<close>

definition dispatch_end :: "exn option \<Rightarrow> bridge_process \<Rightarrow> bridge_process" where
  "dispatch_end error b = b\<lparr>bp_error := (if error = None then bp_error b else error), bp_ready := True, bp_channels := []\<rparr>"

section \<open>The registry of active sessions\<close>

text \<open>The runtimes are numbered in the order of their creation; a session that is being closed is entered with its
  runtime.\<close>

record session_registry =
  sr_runtimes :: "active_session list"
  sr_sessions :: "(string, nat) dict"
  sr_closing :: "(string, nat) dict"
  sr_bridge :: "bridge_process option"

definition empty_registry :: session_registry where
  "empty_registry = \<lparr>sr_runtimes = [], sr_sessions = [], sr_closing = [], sr_bridge = None\<rparr>"

text \<open>\<open>start\<close>: \<open>spawn\<close> is the result of \<open>BridgeProcess.spawn\<close>.\<close>

definition registry_start :: "bridge_process res \<Rightarrow> session_registry \<Rightarrow> session_registry \<times> unit res" where
  "registry_start spawn g =
     (let g1 = (case sr_bridge g of Some b \<Rightarrow> if bridge_available b then g else g\<lparr>sr_bridge := None\<rparr> | None \<Rightarrow> g) in
      case sr_bridge g1 of
        Some _ \<Rightarrow> (g1, Inr ())
      | None \<Rightarrow> (case spawn of Inl e \<Rightarrow> (g1, Inl e) | Inr b \<Rightarrow> (g1\<lparr>sr_bridge := Some b\<rparr>, Inr ())))"

datatype open_result = OpenWaits nat | OpenRuntime "nat option" bool

definition opened_runtime :: "string \<Rightarrow> json \<Rightarrow> string \<Rightarrow> session \<Rightarrow> active_session" where
  "opened_runtime sid provider workspace stored =
     (let s = mk_active_session sid (case provider of JStr p \<Rightarrow> Some p | _ \<Rightarrow> None) workspace
            (map (\<lambda>m. JObj (message_to_dict False m)) (sc_items (ses_core stored)))
      in s\<lparr>as_state := AList.update ''plan''
          (case sc_plan (ses_core stored) of None \<Rightarrow> JNull | Some p \<Rightarrow> JObj (plan_snapshot_to_dict p)) (as_state s)\<rparr>)"

text \<open>A new runtime of a session; \<open>load\<close> is \<open>store.load(session_id, recover=False)\<close>. The channel is opened and the
  session entered before the opening message is sent, which may raise.\<close>

definition create_runtime ::
  "bridge_process res \<Rightarrow> (string \<Rightarrow> session res) \<Rightarrow> bool \<Rightarrow> string \<Rightarrow> json \<Rightarrow> string \<Rightarrow> jobj \<Rightarrow> session_registry \<Rightarrow> session_registry \<times> open_result res" where
  "create_runtime spawn load bridge_open sid provider workspace opening g =
     (case registry_start spawn g of
        (g1, Inl e) \<Rightarrow> (g1, Inl e)
      | (g1, Inr _) \<Rightarrow>
          (case load sid of
             Inl e \<Rightarrow> (g1, Inl e)
           | Inr stored \<Rightarrow>
               (case res_bind (case sr_bridge g1 of None \<Rightarrow> Inl AssertionError | Some b \<Rightarrow> Inr b) (open_channel sid) of
                  Inl e \<Rightarrow> (g1, Inl e)
                | Inr b \<Rightarrow>
                    let r = length (sr_runtimes g1);
                        s = opened_runtime sid provider workspace stored;
                        g2 = g1\<lparr>sr_bridge := Some b, sr_sessions := AList.update sid r (sr_sessions g1)\<rparr>
                    in if bridge_open
                       then (g2\<lparr>sr_runtimes := sr_runtimes g1 @ [s\<lparr>as_sent := [opening]\<rparr>]\<rparr>, Inr (OpenRuntime (Some r) True))
                       else (g2\<lparr>sr_runtimes := sr_runtimes g1 @ [s]\<rparr>, Inl (RuntimeError ''Bridge input is closed'')))))"

definition open_or_attach ::
  "bridge_process res \<Rightarrow> (string \<Rightarrow> session res) \<Rightarrow> bool \<Rightarrow> string \<Rightarrow> json \<Rightarrow> string \<Rightarrow> jobj \<Rightarrow> bool \<Rightarrow> session_registry
    \<Rightarrow> session_registry \<times> open_result res" where
  "open_or_attach spawn load bridge_open sid provider workspace opening attach_only g =
     (case map_of (sr_closing g) sid of
        Some r \<Rightarrow> (g, Inr (OpenWaits r))
      | None \<Rightarrow>
          (case map_of (sr_sessions g) sid of
             Some r \<Rightarrow>
               let s = sr_runtimes g ! r in
               if as_done s \<and> as_failure_pending s \<or> \<not> as_done s then (g, Inr (OpenRuntime (Some r) False))
               else let g1 = g\<lparr>sr_sessions := AList.delete sid (sr_sessions g)\<rparr> in
                 if attach_only then (g1, Inr (OpenRuntime None False))
                 else create_runtime spawn load bridge_open sid provider workspace opening g1
           | None \<Rightarrow>
               if attach_only then (g, Inr (OpenRuntime None False))
               else create_runtime spawn load bridge_open sid provider workspace opening g))"

definition registry_get :: "string \<Rightarrow> session_registry \<Rightarrow> nat option" where
  "registry_get sid g = map_of (sr_sessions g) sid"

definition list_attachable :: "session_registry \<Rightarrow> nat list" where
  "list_attachable g = filter (\<lambda>r. attachable (sr_runtimes g ! r)) (map snd (sr_sessions g))"

text \<open>\<open>release_idle\<close>: \<open>Some r\<close> is the runtime whose close the caller then waits for.\<close>

definition release_idle :: "string \<Rightarrow> string option \<Rightarrow> string option \<Rightarrow> session_registry \<Rightarrow> session_registry \<times> nat option res" where
  "release_idle sid provider aid g =
     (case map_of (sr_sessions g) sid of
        None \<Rightarrow> (g, Inr None)
      | Some r \<Rightarrow>
          let s = sr_runtimes g ! r in
          (case (case provider of None \<Rightarrow> Inr False | Some p \<Rightarrow> res_map (\<lambda>v. v \<noteq> JStr p) (jindex (as_state s) ''provider'')) of
             Inl e \<Rightarrow> (g, Inl e)
           | Inr other \<Rightarrow>
               if other \<or> (case aid of None \<Rightarrow> False | Some a \<Rightarrow> \<not> owns_attachment a s) then (g, Inr None)
               else (case host_running s of
                   Inl e \<Rightarrow> (g, Inl e)
                 | Inr True \<Rightarrow> (g, Inl (RuntimeError ''session is running''))
                 | Inr False \<Rightarrow> (g\<lparr>sr_sessions := AList.delete sid (sr_sessions g),
                     sr_closing := AList.update sid r (sr_closing g)\<rparr>, Inr (Some r)))))"

text \<open>The part of \<open>remove_if_finished\<close> under the lock; the callback of a finished close.\<close>

definition remove_finished :: "nat \<Rightarrow> session_registry \<Rightarrow> session_registry" where
  "remove_finished r g =
     (let sid = as_session_id (sr_runtimes g ! r) in
      if map_of (sr_sessions g) sid = Some r then g\<lparr>sr_sessions := AList.delete sid (sr_sessions g)\<rparr> else g)"

definition closing_done :: "string \<Rightarrow> session_registry \<Rightarrow> session_registry" where
  "closing_done sid g = g\<lparr>sr_closing := AList.delete sid (sr_closing g)\<rparr>"

definition close_all :: "session_registry \<Rightarrow> session_registry \<times> nat list" where
  "close_all g = (g\<lparr>sr_sessions := [], sr_bridge := None\<rparr>, map snd (sr_sessions g) @ map snd (sr_closing g))"

section \<open>One live runtime per session\<close>

text \<open>The steps of a registry until \<open>close_all\<close>. A runtime that is removed as finished was seen done before the lock was
  taken; a close that has finished has set \<open>done\<close>.\<close>

inductive registry_step :: "(json \<Rightarrow> string) \<Rightarrow> session_registry \<Rightarrow> session_registry \<Rightarrow> bool" for render where
  rs_open: "open_or_attach spawn load opened sid provider workspace opening attach_only g = (g', r) \<Longrightarrow> registry_step render g g'"
| rs_release: "release_idle sid provider aid g = (g', r) \<Longrightarrow> registry_step render g g'"
| rs_remove: "r < length (sr_runtimes g) \<Longrightarrow> as_done (sr_runtimes g ! r) \<Longrightarrow> registry_step render g (remove_finished r g)"
| rs_closed: "map_of (sr_closing g) sid = Some r \<Longrightarrow> as_done (sr_runtimes g ! r) \<Longrightarrow> registry_step render g (closing_done sid g)"
| rs_host: "r < length (sr_runtimes g) \<Longrightarrow> host_act render a (sr_runtimes g ! r) = Some s
    \<Longrightarrow> registry_step render g (g\<lparr>sr_runtimes := (sr_runtimes g)[r := s]\<rparr>)"
| rs_bridge: "sr_bridge g = Some b \<Longrightarrow> registry_step render g (g\<lparr>sr_bridge := Some b'\<rparr>)"

inductive registry_reachable :: "(json \<Rightarrow> string) \<Rightarrow> session_registry \<Rightarrow> bool" for render where
  rr_init: "registry_reachable render empty_registry"
| rr_step: "registry_reachable render g \<Longrightarrow> registry_step render g g' \<Longrightarrow> registry_reachable render g'"

definition registry_inv :: "session_registry \<Rightarrow> bool" where
  "registry_inv g \<longleftrightarrow>
     (\<forall>r < length (sr_runtimes g). \<not> as_done (sr_runtimes g ! r) \<longrightarrow>
        map_of (sr_sessions g) (as_session_id (sr_runtimes g ! r)) = Some r
        \<or> map_of (sr_closing g) (as_session_id (sr_runtimes g ! r)) = Some r)
   \<and> (\<forall>sid r. map_of (sr_sessions g) sid = Some r \<longrightarrow> r < length (sr_runtimes g) \<and> as_session_id (sr_runtimes g ! r) = sid
        \<and> map_of (sr_closing g) sid = None)"

lemma registry_inv_live:
  "registry_inv g \<Longrightarrow> r < length (sr_runtimes g) \<Longrightarrow> \<not> as_done (sr_runtimes g ! r)
   \<Longrightarrow> map_of (sr_sessions g) (as_session_id (sr_runtimes g ! r)) = Some r
     \<or> map_of (sr_closing g) (as_session_id (sr_runtimes g ! r)) = Some r"
  by (simp add: registry_inv_def)

lemma registry_inv_entry:
  "registry_inv g \<Longrightarrow> map_of (sr_sessions g) sid = Some r \<Longrightarrow>
   r < length (sr_runtimes g) \<and> as_session_id (sr_runtimes g ! r) = sid \<and> map_of (sr_closing g) sid = None"
  by (simp add: registry_inv_def)

lemma put_queue_fixed [simp]: "as_session_id (put_queue q x s) = as_session_id s" "as_done (put_queue q x s) = as_done s"
  by (simp_all add: put_queue_def)

lemma adopt_state_fixed: "adopt_state st s = (s', r) \<Longrightarrow> as_session_id s' = as_session_id s \<and> as_done s' = as_done s"
  by (auto simp: adopt_state_def Let_def ready_snapshot_def split: json.splits option.splits sum.splits if_splits)

lemma keep_event_fixed: "as_session_id (keep_event kind m s) = as_session_id s" "as_done (keep_event kind m s) = as_done s"
  by (simp_all add: keep_event_def Let_def ready_snapshot_def split: option.splits)

lemma read_message_fixed: "read_message m s = (s', r) \<Longrightarrow> as_session_id s' = as_session_id s \<and> as_done s' = as_done s"
  by (auto simp: read_message_def Let_def keep_event_fixed split: sum.splits prod.splits dest!: adopt_state_fixed)

lemma attach_locked_fixed:
  "as_session_id (fst (attach_locked after aid takeover claimed s)) = as_session_id s
   \<and> as_done (fst (attach_locked after aid takeover claimed s)) = as_done s"
  by (auto simp: attach_locked_def Let_def split: option.splits sum.splits)

lemma host_send_fixed: "as_session_id (fst (host_send render opened m s)) = as_session_id s
   \<and> as_done (fst (host_send render opened m s)) = as_done s"
  by (auto simp: host_send_def Let_def split: sum.splits)

lemma notify_end_fixed [simp]: "as_session_id (notify_end s) = as_session_id s" "as_done (notify_end s) = as_done s"
  by (simp_all add: notify_end_def split: option.splits)

lemma host_act_fixed:
  assumes "host_act render a s = Some s'"
  shows "as_session_id s' = as_session_id s \<and> (as_done s \<longrightarrow> as_done s')"
proof (cases a)
  case (HRead m)
  obtain t r where t: "read_message m s = (t, r)" by fastforce
  from read_message_fixed [OF t] assms HRead t show ?thesis
    by (auto simp: after_read_def reader_leave_def split: if_splits sum.splits bool.splits)
qed (use assms in \<open>auto simp: attach_locked_fixed host_send_fixed reader_leave_def detach_def mark_failure_delivered_def
      split: if_splits option.splits\<close>)

lemma registry_start_same:
  "registry_start spawn g = (g', r) \<Longrightarrow> sr_runtimes g' = sr_runtimes g \<and> sr_sessions g' = sr_sessions g \<and> sr_closing g' = sr_closing g"
  by (auto simp: registry_start_def Let_def split: option.splits sum.splits if_splits)

lemma opened_runtime_fixed [simp]: "as_session_id (opened_runtime sid p w st) = sid"
  by (simp add: opened_runtime_def Let_def mk_active_session_def)

lemma create_runtime_effect:
  assumes "create_runtime spawn load opened sid provider workspace opening g = (g', r)"
  shows "sr_closing g' = sr_closing g \<and>
    (sr_runtimes g' = sr_runtimes g \<and> sr_sessions g' = sr_sessions g
     \<or> (\<exists>s. as_session_id s = sid \<and> sr_runtimes g' = sr_runtimes g @ [s]
          \<and> sr_sessions g' = AList.update sid (length (sr_runtimes g)) (sr_sessions g)))"
proof -
  obtain g1 u where st: "registry_start spawn g = (g1, u)" by fastforce
  note S = registry_start_same [OF st]
  show ?thesis using assms st S
    by (auto simp: create_runtime_def Let_def split: sum.splits if_splits)
qed

lemma registry_invI:
  assumes "\<And>r. r < length (sr_runtimes g) \<Longrightarrow> \<not> as_done (sr_runtimes g ! r) \<Longrightarrow>
      map_of (sr_sessions g) (as_session_id (sr_runtimes g ! r)) = Some r
      \<or> map_of (sr_closing g) (as_session_id (sr_runtimes g ! r)) = Some r"
    and "\<And>sid r. map_of (sr_sessions g) sid = Some r \<Longrightarrow> r < length (sr_runtimes g) \<and> as_session_id (sr_runtimes g ! r) = sid
      \<and> map_of (sr_closing g) sid = None"
  shows "registry_inv g"
  unfolding registry_inv_def using assms by blast

lemma create_runtime_inv:
  assumes c: "create_runtime spawn load opened sid provider workspace opening g = (g', u)" and I: "registry_inv g"
    and n: "map_of (sr_sessions g) sid = None" "map_of (sr_closing g) sid = None"
  shows "registry_inv g'"
proof -
  from create_runtime_effect [OF c] consider
      (same) "sr_closing g' = sr_closing g" "sr_runtimes g' = sr_runtimes g" "sr_sessions g' = sr_sessions g"
    | (new) s where "sr_closing g' = sr_closing g" "as_session_id s = sid" "sr_runtimes g' = sr_runtimes g @ [s]"
        "sr_sessions g' = AList.update sid (length (sr_runtimes g)) (sr_sessions g)" by blast
  then show ?thesis
  proof cases
    case same
    with I show ?thesis by (simp add: registry_inv_def)
  next
    case new
    show ?thesis
    proof (rule registry_invI)
      fix r assume r: "r < length (sr_runtimes g')" "\<not> as_done (sr_runtimes g' ! r)"
      show "map_of (sr_sessions g') (as_session_id (sr_runtimes g' ! r)) = Some r
        \<or> map_of (sr_closing g') (as_session_id (sr_runtimes g' ! r)) = Some r"
      proof (cases "r < length (sr_runtimes g)")
        case True
        then have "sr_runtimes g' ! r = sr_runtimes g ! r" by (simp add: new nth_append)
        moreover from registry_inv_live [OF I True] r(2) this n have "as_session_id (sr_runtimes g ! r) \<noteq> sid" by auto
        ultimately show ?thesis using registry_inv_live [OF I True] r(2) by (simp add: new)
      next
        case False
        with r(1) have "r = length (sr_runtimes g)" by (simp add: new)
        then show ?thesis by (simp add: new)
      qed
    next
      fix k r assume "map_of (sr_sessions g') k = Some r"
      then show "r < length (sr_runtimes g') \<and> as_session_id (sr_runtimes g' ! r) = k \<and> map_of (sr_closing g') k = None"
        using registry_inv_entry [OF I, of k r] n by (cases "k = sid") (auto simp: new nth_append)
    qed
  qed
qed

lemma drop_done_inv:
  assumes I: "registry_inv g" and s: "map_of (sr_sessions g) sid = Some r" and d: "as_done (sr_runtimes g ! r)"
  shows "registry_inv (g\<lparr>sr_sessions := AList.delete sid (sr_sessions g)\<rparr>)"
proof (rule registry_invI, goal_cases)
  case (1 k)
  with registry_inv_live [OF I, of k] s d show ?case by (cases "as_session_id (sr_runtimes g ! k) = sid") auto
next
  case (2 k q)
  with registry_inv_entry [OF I, of k q] show ?case by (simp split: if_splits)
qed

lemma open_or_attach_inv:
  assumes "open_or_attach spawn load opened sid provider workspace opening attach_only g = (g', r)" "registry_inv g"
  shows "registry_inv g'"
proof (cases "map_of (sr_closing g) sid")
  case None
  show ?thesis
  proof (cases "map_of (sr_sessions g) sid")
    case s: None
    with assms None show ?thesis by (auto simp: open_or_attach_def split: if_splits intro: create_runtime_inv)
  next
    case (Some k)
    let ?g = "g\<lparr>sr_sessions := AList.delete sid (sr_sessions g)\<rparr>"
    show ?thesis
    proof (cases "as_done (sr_runtimes g ! k) \<and> \<not> as_failure_pending (sr_runtimes g ! k)")
      case True
      with Some have I: "registry_inv ?g" using drop_done_inv [OF assms(2)] by blast
      show ?thesis using assms(1) None Some True I create_runtime_inv [OF _ I]
        by (auto simp: open_or_attach_def Let_def split: if_splits)
    qed (use assms None Some in \<open>auto simp: open_or_attach_def Let_def\<close>)
  qed
qed (use assms in \<open>auto simp: open_or_attach_def\<close>)

lemma release_idle_effect:
  assumes "release_idle sid provider aid g = (g', res)"
  shows "g' = g \<or> (\<exists>r. map_of (sr_sessions g) sid = Some r \<and> host_running (sr_runtimes g ! r) = Inr False \<and> res = Inr (Some r)
    \<and> g' = g\<lparr>sr_sessions := AList.delete sid (sr_sessions g), sr_closing := AList.update sid r (sr_closing g)\<rparr>)"
  using assms by (auto simp: release_idle_def Let_def split: option.splits sum.splits if_splits bool.splits)

lemma release_inv:
  assumes I: "registry_inv g" and s: "map_of (sr_sessions g) sid = Some r"
  shows "registry_inv (g\<lparr>sr_sessions := AList.delete sid (sr_sessions g), sr_closing := AList.update sid r (sr_closing g)\<rparr>)"
proof (rule registry_invI, goal_cases)
  case (1 k)
  with registry_inv_live [OF I, of k] registry_inv_entry [OF I s] s show ?case
    by (cases "as_session_id (sr_runtimes g ! k) = sid") auto
next
  case (2 k q)
  with registry_inv_entry [OF I, of k q] show ?case by (simp split: if_splits)
qed

lemma release_idle_inv: "release_idle sid provider aid g = (g', res) \<Longrightarrow> registry_inv g \<Longrightarrow> registry_inv g'"
  using release_idle_effect [of sid provider aid g g' res] release_inv [of g sid] by blast

lemma closing_done_inv:
  assumes I: "registry_inv g" and s: "map_of (sr_closing g) sid = Some r" and d: "as_done (sr_runtimes g ! r)"
  shows "registry_inv (closing_done sid g)"
proof (rule registry_invI, goal_cases)
  case (1 k)
  with registry_inv_live [OF I, of k] s d show ?case
    by (cases "as_session_id (sr_runtimes g ! k) = sid") (auto simp: closing_done_def)
next
  case (2 k q)
  with registry_inv_entry [OF I, of k q] show ?case by (simp add: closing_done_def split: if_splits)
qed

lemma host_act_inv:
  assumes I: "registry_inv g" and r: "r < length (sr_runtimes g)" and a: "host_act render a (sr_runtimes g ! r) = Some s"
  shows "registry_inv (g\<lparr>sr_runtimes := (sr_runtimes g)[r := s]\<rparr>)"
proof (rule registry_invI, goal_cases)
  case (1 k)
  with registry_inv_live [OF I, of k] host_act_fixed [OF a] show ?case by (cases "k = r") auto
next
  case (2 k q)
  with registry_inv_entry [OF I, of k q] host_act_fixed [OF a] show ?case by (cases "q = r") auto
qed

lemma registry_step_inv: "registry_step render g g' \<Longrightarrow> registry_inv g \<Longrightarrow> registry_inv g'"
proof (induction rule: registry_step.induct)
  case (rs_remove r g)
  then show ?case using drop_done_inv [of g _ r] by (auto simp: remove_finished_def Let_def)
next
  case (rs_bridge g b b')
  then show ?case by (simp add: registry_inv_def)
qed (auto intro: open_or_attach_inv release_idle_inv closing_done_inv host_act_inv)

lemma registry_inv_init: "registry_inv empty_registry"
  by (simp add: registry_inv_def empty_registry_def)

lemma registry_reachable_inv: "registry_reachable render g \<Longrightarrow> registry_inv g"
  by (induction rule: registry_reachable.induct) (auto intro: registry_step_inv registry_inv_init)

text \<open>C11. A session never has two live runtimes: whatever clients, Bridges and closing sessions do, of two runtimes of one
  session in the registry's history at most one is not done. A second opening of a session attaches to its runtime or waits
  until the runtime that is being closed is done.\<close>

theorem one_live_runtime:
  assumes "registry_reachable render g" and "r < length (sr_runtimes g)" and "r' < length (sr_runtimes g)" and "r \<noteq> r'"
    and "as_session_id (sr_runtimes g ! r) = as_session_id (sr_runtimes g ! r')"
  shows "as_done (sr_runtimes g ! r) \<or> as_done (sr_runtimes g ! r')"
proof (rule ccontr)
  assume "\<not> ?thesis"
  then have d: "\<not> as_done (sr_runtimes g ! r)" "\<not> as_done (sr_runtimes g ! r')" by auto
  note I = registry_reachable_inv [OF assms(1)]
  define k where "k = as_session_id (sr_runtimes g ! r)"
  have "map_of (sr_sessions g) k = Some r \<or> map_of (sr_closing g) k = Some r"
    unfolding k_def by (rule registry_inv_live [OF I assms(2) d(1)])
  moreover have "map_of (sr_sessions g) k = Some r' \<or> map_of (sr_closing g) k = Some r'"
    unfolding k_def assms(5) by (rule registry_inv_live [OF I assms(3) d(2)])
  moreover have "map_of (sr_sessions g) k = Some q \<Longrightarrow> map_of (sr_closing g) k = None" for q
    using registry_inv_entry [OF I] by blast
  ultimately show False using assms(4) by auto
qed


lemma registry_reachable_steps:
  "registry_reachable render g \<Longrightarrow> open_or_attach spawn load opened sid provider workspace opening attach_only g = (g', r) \<Longrightarrow> registry_reachable render g'"
  "registry_reachable render g \<Longrightarrow> k < length (sr_runtimes g) \<Longrightarrow> host_act render a (sr_runtimes g ! k) = Some s
    \<Longrightarrow> registry_reachable render (g\<lparr>sr_runtimes := (sr_runtimes g)[k := s]\<rparr>)"
  by (blast intro: rr_step rs_open rs_host)+

text \<open>A session that failed is opened again: the failed runtime is done, the new one is live.\<close>

definition demo_stored :: "string \<Rightarrow> session res" where
  "demo_stored sid = Inr (new_session sid (Some ''/w''))"

definition demo_open :: "session_registry \<Rightarrow> session_registry \<times> open_result res" where
  "demo_open = open_or_attach (Inr new_bridge) demo_stored True ''s'' JNull ''/w'' [(''type'', JStr ''open_session'')] False"

definition demo_failure :: jobj where
  "demo_failure = [(''type'', JStr ''session_open_failed''), (''event_sequence'', JInt 1), (''resume_after'', JInt 0)]"

definition demo_host_do :: "host_action \<Rightarrow> session_registry \<Rightarrow> session_registry" where
  "demo_host_do a g = g\<lparr>sr_runtimes := (sr_runtimes g)[0 := the (host_act demo_render a (sr_runtimes g ! 0))]\<rparr>"

definition demo_failed :: session_registry where
  "demo_failed = demo_host_do HFailureDelivered (demo_host_do (HRead demo_failure) (fst (demo_open empty_registry)))"

definition demo_channel_closed :: session_registry where
  "demo_channel_closed = demo_failed\<lparr>sr_bridge := Some (new_bridge\<lparr>bp_ready := True\<rparr>)\<rparr>"

lemma demo_host_do_reachable:
  assumes "registry_reachable demo_render g" "0 < length (sr_runtimes g)" "host_act demo_render a (sr_runtimes g ! 0) \<noteq> None"
  shows "registry_reachable demo_render (demo_host_do a g)"
  unfolding demo_host_do_def by (rule registry_reachable_steps(2) [OF assms(1,2)]) (use assms(3) in auto)

lemma demo_failed_reachable: "registry_reachable demo_render demo_failed"
proof -
  have o: "registry_reachable demo_render (fst (demo_open empty_registry))"
    using registry_reachable_steps(1) [OF rr_init, of _ _ _ _ _ _ _ _ "fst (demo_open empty_registry)" "snd (demo_open empty_registry)"]
    unfolding demo_open_def by simp
  have 1: "0 < length (sr_runtimes (fst (demo_open empty_registry)))"
    "host_act demo_render (HRead demo_failure) (sr_runtimes (fst (demo_open empty_registry)) ! 0) \<noteq> None" by code_simp+
  note r = demo_host_do_reachable [OF o 1]
  have 2: "0 < length (sr_runtimes (demo_host_do (HRead demo_failure) (fst (demo_open empty_registry))))"
    "host_act demo_render HFailureDelivered (sr_runtimes (demo_host_do (HRead demo_failure) (fst (demo_open empty_registry))) ! 0) \<noteq> None"
    by code_simp+
  show ?thesis unfolding demo_failed_def by (rule demo_host_do_reachable [OF r 2])
qed

theorem one_live_runtime_witness:
  "length (sr_runtimes (fst (demo_open demo_channel_closed))) = 2
   \<and> (as_done (sr_runtimes (fst (demo_open demo_channel_closed)) ! 0) \<or> as_done (sr_runtimes (fst (demo_open demo_channel_closed)) ! 1))"
proof -
  have "sr_bridge demo_failed \<noteq> None" by code_simp
  then have "registry_step demo_render demo_failed demo_channel_closed" unfolding demo_channel_closed_def by (auto intro: rs_bridge)
  from rr_step [OF demo_failed_reachable this] have r: "registry_reachable demo_render (fst (demo_open demo_channel_closed))"
    using registry_reachable_steps(1) [of demo_render demo_channel_closed _ _ _ _ _ _ _ _ "fst (demo_open demo_channel_closed)" "snd (demo_open demo_channel_closed)"]
    unfolding demo_open_def by simp
  have l: "length (sr_runtimes (fst (demo_open demo_channel_closed))) = 2"
    "as_session_id (sr_runtimes (fst (demo_open demo_channel_closed)) ! 0) = as_session_id (sr_runtimes (fst (demo_open demo_channel_closed)) ! 1)"
    by code_simp+
  from one_live_runtime [OF r, of 0 1] l show ?thesis by simp
qed

text \<open>In between, while the channel of the failed runtime is still being closed, the session cannot be opened: the opening
  raises instead of waiting, and the session is no longer in the registry.\<close>

theorem reopen_before_channel_closed:
  "registry_reachable demo_render demo_failed
   \<and> snd (demo_open demo_failed) = Inl (ValueError (''channel '' @ quoted ''s'' @ '' is already open''))
   \<and> registry_get ''s'' (fst (demo_open demo_failed)) = None"
proof -
  have "snd (demo_open demo_failed) = Inl (ValueError (''channel '' @ quoted ''s'' @ '' is already open''))"
    "registry_get ''s'' (fst (demo_open demo_failed)) = None" by code_simp+
  with demo_failed_reachable show ?thesis by blast
qed

end
