(* ===== verification/Tool_Set.thy ===== *)
theory Tool_Set
  imports Memory Jobs
begin

text \<open>
  Tools, hooks and the set of tools an Agent holds: \<open>agent_core/tools/catalog.py\<close> and
  \<open>agent_core/hooks.py\<close>.

  \<^item> A \<open>world\<close> is the Session of the Agent, a counter of the identifiers and times that were drawn,
    and the rest of the Runtime, of any type. An action reads and changes the world and raises or
    returns; a tool, a policy and the user's machine are actions.
  \<^item> \<open>runtime\<close> collects what the code calls and this development does not define: the stream of identifiers
    and times, the cancellation signal, the JSON library, the result normalizer and the execution of a
    hook command. The writers and previews of spooled results are left to the normalizer, and the text of the
    error about a decision that is no string leaves out its \<open>repr\<close>. The listener of hook events is a display and is left out.
  \<^item> \<open>AgentCancelled\<close>, \<open>JobCancelled\<close> and \<open>KeyboardInterrupt\<close> are no subclasses of \<open>Exception\<close>:
    \<open>except Exception\<close> does not catch them.
\<close>

section \<open>Worlds and actions\<close>

record 'e world =
  w_session :: session
  w_tick :: nat
  w_env :: 'e

type_synonym ('e, 'a) act = "'e world \<Rightarrow> 'a res \<times> 'e world"

definition act_return :: "'a \<Rightarrow> ('e, 'a) act" where
  "act_return x w = (Inr x, w)"

definition act_raise :: "exn \<Rightarrow> ('e, 'a) act" where
  "act_raise e w = (Inl e, w)"

definition act_bind :: "('e, 'a) act \<Rightarrow> ('a \<Rightarrow> ('e, 'b) act) \<Rightarrow> ('e, 'b) act" where
  "act_bind m f w = (case m w of (Inl e, w') \<Rightarrow> (Inl e, w') | (Inr x, w') \<Rightarrow> f x w')"

definition act_res :: "'a res \<Rightarrow> ('e, 'a) act" where
  "act_res r w = (r, w)"

text \<open>\<open>try: m except: h\<close>, where the handler sees the exception, and \<open>try: m finally: f\<close>, where an
  exception of the last part replaces the outcome of the first.\<close>

definition act_catch :: "('e, 'a) act \<Rightarrow> (exn \<Rightarrow> ('e, 'a) act) \<Rightarrow> ('e, 'a) act" where
  "act_catch m h w = (case m w of (Inl e, w') \<Rightarrow> h e w' | (Inr x, w') \<Rightarrow> (Inr x, w'))"

definition act_finally :: "('e, 'a) act \<Rightarrow> ('a res \<Rightarrow> ('e, unit) act) \<Rightarrow> ('e, 'a) act" where
  "act_finally m f w = (case m w of (r, w1) \<Rightarrow>
     (case f r w1 of (Inl e, w2) \<Rightarrow> (Inl e, w2) | (Inr _, w2) \<Rightarrow> (r, w2)))"

lemmas act_defs = act_return_def act_raise_def act_bind_def act_res_def act_catch_def act_finally_def

lemma act_bind_Inr_iff:
  "act_bind m f w = (Inr y, w') \<longleftrightarrow> (\<exists>x w1. m w = (Inr x, w1) \<and> f x w1 = (Inr y, w'))"
  by (auto simp: act_bind_def split: prod.splits sum.splits)

lemma act_return_iff [simp]: "act_return x w = (r, w') \<longleftrightarrow> r = Inr x \<and> w' = w"
  by (auto simp: act_return_def)

text \<open>Exceptions that \<open>except Exception\<close> catches, and \<open>type(error).__name__\<close>; an \<open>OSError\<close> and a \<open>ProviderFailure\<close>
  name their subclass, the empty name is the class itself.\<close>

definition is_exception :: "exn \<Rightarrow> bool" where
  "is_exception e \<longleftrightarrow> e \<notin> {AgentCancelled, KeyboardInterrupt, JobCancelled}"

fun exn_class :: "exn \<Rightarrow> string" where
  "exn_class (ValueError _) = ''ValueError''"
| "exn_class (TypeError _) = ''TypeError''"
| "exn_class (KeyError _) = ''KeyError''"
| "exn_class (IndexError _) = ''IndexError''"
| "exn_class (AttributeError _) = ''AttributeError''"
| "exn_class (RuntimeError _) = ''RuntimeError''"
| "exn_class AssertionError = ''AssertionError''"
| "exn_class (PermissionError _) = ''PermissionError''"
| "exn_class (OSError c) = (if c = [] then ''OSError'' else c)"
| "exn_class (OverflowError _) = ''OverflowError''"
| "exn_class JSONDecodeError = ''JSONDecodeError''"
| "exn_class UnicodeDecodeError = ''UnicodeDecodeError''"
| "exn_class AgentCancelled = ''AgentCancelled''"
| "exn_class KeyboardInterrupt = ''KeyboardInterrupt''"
| "exn_class (ProviderProtocolError _) = ''ProviderProtocolError''"
| "exn_class (ProviderFailure c _ _) = (if c = [] then ''ProviderError'' else c)"
| "exn_class (ToolCallLimitExceededError _ _) = ''ToolCallLimitExceededError''"
| "exn_class (ContextWindowExceededError _ _ _) = ''ContextWindowExceededError''"
| "exn_class JobCancelled = ''JobCancelled''"
| "exn_class (HookRejectedError _) = ''HookRejectedError''"
| "exn_class (HookExecutionError _) = ''HookExecutionError''"
| "exn_class (ToolExecutionError t _ _) = ''ToolExecutionError''"
| "exn_class (Untyped _) = ''TypeError''"

section \<open>Data\<close>

record tool_output =
  to_output :: json
  to_attachments :: "part list"
  to_present_to_user :: bool

record hook_definition =
  hk_name :: string
  hk_event :: string
  hk_command :: string
  hk_args :: "string list"
  hk_root :: string
  hk_source :: string
  hk_tools :: "string list option"
  hk_scope :: scope
  hk_timeout_seconds :: int

record hook_result =
  hr_decision :: string
  hr_reason :: string
  hr_feedback :: "string list"

definition default_hook_result :: hook_result where
  "default_hook_result = \<lparr>hr_decision = ''pass'', hr_reason = [], hr_feedback = []\<rparr>"

definition HOOK_EVENTS :: "string list" where
  "HOOK_EVENTS = [''InputSubmitted'', ''PreToolUse'', ''PostToolUse'', ''Stop'']"

definition MAX_HOOK_OUTPUT_CHARS :: nat where "MAX_HOOK_OUTPUT_CHARS = 16000"

text \<open>A tool: its name, whether its calls may run on separate threads, whether the Runtime supplies what it
  needs, and its execution on the arguments and the resolved route.\<close>

record 'e tool =
  tl_name :: string
  tl_concurrent :: bool
  tl_available :: "'e world \<Rightarrow> bool"
  tl_execute :: "json \<Rightarrow> resolved_execution option \<Rightarrow> ('e, tool_output) act"

type_synonym 'e policy = "tool_call \<Rightarrow> resolved_execution option \<Rightarrow> ('e, unit) act"

record 'e runtime =
  rt_stamp :: "nat \<Rightarrow> stamp"
  rt_now :: "nat \<Rightarrow> utc"
  rt_uuid :: "nat \<Rightarrow> string"
  rt_cancelled :: "'e world \<Rightarrow> bool"
  rt_json :: json_lib
  rt_normalize :: "tool_result \<Rightarrow> ('e, string) act"
  rt_hook_command :: "hook_definition \<Rightarrow> jobj \<Rightarrow> executor \<Rightarrow> string list \<Rightarrow> ('e, tool_output) act"
  rt_duration_ms :: "nat \<Rightarrow> int"
  rt_workspace :: string
  rt_agent_role :: string
  rt_parent_session_id :: "string option"

text \<open>One method of the Session, with the next identifier and time.\<close>

definition on_session :: "'e runtime \<Rightarrow> (stamp \<Rightarrow> session \<Rightarrow> session outcome) \<Rightarrow> ('e, unit) act" where
  "on_session rt f w =
     (case f (rt_stamp rt (w_tick w)) (w_session w) of
        (s, None) \<Rightarrow> (Inr (), w\<lparr>w_session := s, w_tick := Suc (w_tick w)\<rparr>)
      | (s, Some e) \<Rightarrow> (Inl e, w\<lparr>w_session := s, w_tick := Suc (w_tick w)\<rparr>))"

definition draw_uuid :: "'e runtime \<Rightarrow> ('e, string) act" where
  "draw_uuid rt w = (Inr (rt_uuid rt (w_tick w)), w\<lparr>w_tick := Suc (w_tick w)\<rparr>)"

definition raise_cancelled :: "'e runtime \<Rightarrow> ('e, unit) act" where
  "raise_cancelled rt w = (if rt_cancelled rt w then (Inl AgentCancelled, w) else (Inr (), w))"

section \<open>The catalog\<close>

type_synonym 'e catalog = "(string, 'e tool) dict"

fun catalog_add :: "'e catalog \<Rightarrow> 'e tool list \<Rightarrow> 'e catalog res" where
  "catalog_add c [] = Inr c"
| "catalog_add c (t # ts) =
     (if map_of c (tl_name t) \<noteq> None
      then Inl (ValueError (''tool '' @ quoted (tl_name t) @ '' is already registered''))
      else catalog_add (c @ [(tl_name t, t)]) ts)"

definition mk_catalog :: "'e tool list \<Rightarrow> 'e catalog res" where
  "mk_catalog ts = catalog_add [] ts"

definition catalog_names :: "'e catalog \<Rightarrow> string list" where
  "catalog_names c = map fst c"

definition catalog_extend :: "'e catalog \<Rightarrow> 'e tool list \<Rightarrow> 'e catalog res" where
  "catalog_extend c ts = mk_catalog (map snd c @ ts)"

record 'e toolset =
  tset_tools :: "(string, 'e tool) dict"
  tset_policy :: "'e policy option"
  tset_router :: "((string \<Rightarrow> bool) \<times> ('e world \<Rightarrow> authority)) option"
  tset_hooks :: "hook_definition list"

text \<open>\<open>ToolSet(tools, context, policy)\<close>; of the context it keeps the router and the hooks.\<close>

definition mk_toolset ::
  "'e tool list \<Rightarrow> 'e policy option \<Rightarrow> ((string \<Rightarrow> bool) \<times> ('e world \<Rightarrow> authority)) option \<Rightarrow> hook_definition list \<Rightarrow> 'e toolset" where
  "mk_toolset ts policy router hooks =
     \<lparr>tset_tools = foldl (\<lambda>d t. AList.update (tl_name t) t d) [] ts, tset_policy = policy, tset_router = router,
      tset_hooks = hooks\<rparr>"

definition catalog_select :: "'e catalog \<Rightarrow> string list \<Rightarrow> 'e world \<Rightarrow> 'e policy option
    \<Rightarrow> ((string \<Rightarrow> bool) \<times> ('e world \<Rightarrow> authority)) option \<Rightarrow> hook_definition list \<Rightarrow> 'e toolset" where
  "catalog_select c names w policy router hooks =
     mk_toolset (concat (map (\<lambda>n. case map_of c n of None \<Rightarrow> [] | Some t \<Rightarrow> if tl_available t w then [t] else []) names))
       policy router hooks"

definition is_concurrent :: "'e toolset \<Rightarrow> string \<Rightarrow> bool" where
  "is_concurrent ts name = (case map_of (tset_tools ts) name of None \<Rightarrow> False | Some t \<Rightarrow> tl_concurrent t)"

section \<open>Executing one call\<close>

definition tool_result_of :: "tool_call \<Rightarrow> json \<Rightarrow> tool_error option \<Rightarrow> part list \<Rightarrow> bool \<Rightarrow> bool \<Rightarrow> string list \<Rightarrow> tool_result" where
  "tool_result_of call output err attachments present executed feedback =
     \<lparr>tr_tool_call_id = tc_id call, tr_name = tc_name call, tr_output = output, tr_error = err,
      tr_attachments = attachments, tr_present_to_user = present, tr_executed = executed, tr_hook_feedback = feedback\<rparr>"

definition error_result :: "tool_call \<Rightarrow> tool_error \<Rightarrow> bool \<Rightarrow> string list \<Rightarrow> tool_result" where
  "error_result call e executed feedback = tool_result_of call JNull (Some e) [] False executed feedback"

definition plain_error :: "string \<Rightarrow> string \<Rightarrow> tool_error" where
  "plain_error ty message = \<lparr>te_type = ty, te_message = message, te_details = None\<rparr>"

text \<open>The error of the result: the one a \<open>ToolExecutionError\<close> carries, the class and the text of any other.\<close>

definition error_of :: "exn \<Rightarrow> tool_error" where
  "error_of e = (case e of ToolExecutionError t m d \<Rightarrow> \<lparr>te_type = t, te_message = m, te_details = d\<rparr>
     | _ \<Rightarrow> plain_error (exn_class e) (exn_str e))"

text \<open>The checks between the hooks and the tool: the route and the policy.\<close>

definition resolve_route :: "'e toolset \<Rightarrow> tool_call \<Rightarrow> ('e, resolved_execution option) act" where
  "resolve_route ts call w =
     (case tset_router ts of
        None \<Rightarrow> (Inr None, w)
      | Some (host_tool, auth) \<Rightarrow> (res_map Some (resolve host_tool (auth w) call), w))"

definition authorize_call :: "'e toolset \<Rightarrow> tool_call \<Rightarrow> resolved_execution option \<Rightarrow> ('e, unit) act" where
  "authorize_call ts call route =
     (case tset_policy ts of None \<Rightarrow> act_return () | Some policy \<Rightarrow> policy call route)"

text \<open>The body of the \<open>try\<close> statement of \<open>ToolSet.execute\<close>; the flag says whether the tool was entered.\<close>

definition guarded_execute :: "'e runtime \<Rightarrow> 'e toolset \<Rightarrow> 'e tool \<Rightarrow> tool_call \<Rightarrow> 'e world
    \<Rightarrow> bool \<times> tool_output res \<times> 'e world" where
  "guarded_execute rt ts tool call w =
     (case act_bind (resolve_route ts call) (\<lambda>route. act_bind (authorize_call ts call route) (\<lambda>_.
        act_bind (raise_cancelled rt) (\<lambda>_. act_return route))) w of
        (Inl e, w1) \<Rightarrow> (False, Inl e, w1)
      | (Inr route, w1) \<Rightarrow> (case tl_execute tool (tc_arguments call) route w1 of (r, w2) \<Rightarrow> (True, r, w2)))"

text \<open>What becomes of it: an exception is the error of the result, but for a failing hook and for what is no
  \<open>Exception\<close>.\<close>

definition call_outcome :: "tool_call \<Rightarrow> string list \<Rightarrow> bool \<Rightarrow> tool_output res \<Rightarrow> tool_result res" where
  "call_outcome call feedback executed r =
     (case r of
        Inl (HookExecutionError m) \<Rightarrow> Inl (HookExecutionError m)
      | Inl e \<Rightarrow>
          if is_exception e then Inr (error_result call (error_of e) executed feedback) else Inl e
      | Inr out \<Rightarrow>
          Inr (tool_result_of call (to_output out) None (to_attachments out) (to_present_to_user out) True feedback))"

definition toolset_execute :: "'e runtime \<Rightarrow> (string \<Rightarrow> jobj \<Rightarrow> ('e, hook_result) act) \<Rightarrow> 'e toolset \<Rightarrow> tool_call
    \<Rightarrow> ('e, tool_result) act" where
  "toolset_execute rt run_hooks ts call =
     act_bind (raise_cancelled rt) (\<lambda>_.
       case tc_argument_error call of
         Some e \<Rightarrow> act_return (error_result call e False [])
       | None \<Rightarrow>
           (case map_of (tset_tools ts) (tc_name call) of
              None \<Rightarrow> act_return (error_result call (plain_error ''tool_not_found''
                  (''tool '' @ quoted (tc_name call) @ '' is not registered'')) False [])
            | Some tool \<Rightarrow>
                act_bind (run_hooks ''PreToolUse'' [(''tool_call'', JObj (tool_call_to_dict call))]) (\<lambda>hook.
                  if hr_decision hook = ''deny''
                  then act_return (error_result call (plain_error ''HookDenied'' (hr_reason hook)) False (hr_feedback hook))
                  else (\<lambda>w. case guarded_execute rt ts tool call w of
                      (executed, r, w1) \<Rightarrow> (call_outcome call (hr_feedback hook) executed r, w1)))))"

text \<open>\<open>PermissionController.authorize\<close> as a policy: what it records goes into the Session.\<close>

fun record_all :: "'e runtime \<Rightarrow> string list \<Rightarrow> ('e, unit) act" where
  "record_all rt [] = act_return ()"
| "record_all rt (t # ts) =
     act_bind (on_session rt (\<lambda>st. record_user_interaction st t ''approval_response'')) (\<lambda>_. record_all rt ts)"

definition controller_policy ::
  "'e runtime \<Rightarrow> (json \<Rightarrow> string) \<Rightarrow> (tool_call \<Rightarrow> bool res) \<Rightarrow> 'e policy" where
  "controller_policy rt pystr approval call route =
     (case controller_authorize (jl_dumps (rt_json rt)) pystr approval call route of
        (r, recs) \<Rightarrow> act_bind (record_all rt recs) (\<lambda>_. act_res r))"

section \<open>Hooks\<close>

definition no_hooks :: "string \<Rightarrow> jobj \<Rightarrow> ('e, hook_result) act" where
  "no_hooks event payload = act_return default_hook_result"

text \<open>The checks of a hook's response.\<close>

definition check_text_field :: "jobj \<Rightarrow> string \<Rightarrow> unit res" where
  "check_text_field d key =
     (case map_of d key of
        None \<Rightarrow> Inr ()
      | Some (JStr s) \<Rightarrow> if py_strip s = [] then Inl (ValueError (''hook response '' @ quoted key @ '' must be a non-empty string'')) else Inr ()
      | Some _ \<Rightarrow> Inl (ValueError (''hook response '' @ quoted key @ '' must be a non-empty string'')))"

definition allowed_decisions :: "string \<Rightarrow> string list" where
  "allowed_decisions event =
     (if event = ''PostToolUse'' then [''pass''] else if event = ''Stop'' then [''pass'', ''continue''] else [''pass'', ''deny''])"

definition parse_hook_result :: "json \<Rightarrow> string \<Rightarrow> hook_result res" where
  "parse_hook_result data event =
     (case data of
        JObj d \<Rightarrow>
          if \<not> set (map fst d) \<subseteq> {''decision'', ''reason'', ''feedback''}
          then Inl (ValueError ''hook response must be an object with decision, reason and feedback fields'')
          else
            (case (case map_of d ''decision'' of None \<Rightarrow> JStr ''pass'' | Some v \<Rightarrow> v) of
               JStr decision \<Rightarrow>
                 if decision \<notin> set (allowed_decisions event)
                 then Inl (ValueError (''invalid decision for '' @ event @ '': '' @ quoted decision))
                 else
                   res_bind (check_text_field d ''reason'') (\<lambda>_. res_bind (check_text_field d ''feedback'') (\<lambda>_.
                     let reason = (case jget d ''reason'' of JStr s \<Rightarrow> s | _ \<Rightarrow> []);
                         feedback = (case jget d ''feedback'' of JStr s \<Rightarrow> s | _ \<Rightarrow> [])
                     in if decision = ''deny'' \<and> reason = [] then Inl (ValueError ''deny requires a reason'')
                        else if decision = ''continue'' \<and> feedback = [] then Inl (ValueError ''continue requires feedback'')
                        else Inr \<lparr>hr_decision = decision, hr_reason = reason,
                               hr_feedback = (if feedback = [] then [] else [feedback])\<rparr>))
             | _ \<Rightarrow> Inl (ValueError (''invalid decision for '' @ event)))
      | _ \<Rightarrow> Inl (ValueError ''hook response must be an object with decision, reason and feedback fields''))"

text \<open>\<open>HookCommandTool\<close>: it runs the command of the invocation through the executor of the route.\<close>

definition hook_command_tool :: "'e runtime \<Rightarrow> hook_definition \<Rightarrow> jobj \<Rightarrow> 'e tool" where
  "hook_command_tool rt hook payload =
     \<lparr>tl_name = ''_hook_command'', tl_concurrent = False, tl_available = (\<lambda>_. True),
      tl_execute = (\<lambda>arguments route.
        case route of
          Some r \<Rightarrow>
            (case re_executor r of
               Some executor \<Rightarrow>
                 (case arguments of
                    JObj d \<Rightarrow> act_bind (act_res (res_bind (jindex d ''command'') (\<lambda>c. res_bind (jindex d ''args'') (\<lambda>a.
                        case (c, a) of
                          (JStr command, JList l) \<Rightarrow> res_map ((#) command) (res_list (\<lambda>j. case j of JStr s \<Rightarrow> Inr s | _ \<Rightarrow> Inl (Untyped ''args'')) l)
                        | _ \<Rightarrow> Inl (Untyped ''command'')))))
                      (\<lambda>command. rt_hook_command rt hook payload executor command)
                  | _ \<Rightarrow> act_raise (Untyped ''arguments''))
             | None \<Rightarrow> act_raise (RuntimeError ''hook command execution is not bound''))
        | None \<Rightarrow> act_raise (RuntimeError ''hook command execution is not bound''))\<rparr>"

definition expand_root :: "hook_definition \<Rightarrow> string \<Rightarrow> string" where
  "expand_root hook v = py_replace ''${PLUGIN_ROOT}'' (hk_root hook) v"

text \<open>What a command printed, checked in the order of the source.\<close>

definition hook_response :: "json_lib \<Rightarrow> hook_definition \<Rightarrow> tool_result \<Rightarrow> hook_result res" where
  "hook_response lib hook result =
     (case tr_error result of
        Some e \<Rightarrow> Inl (HookExecutionError (te_message e))
      | None \<Rightarrow>
          (case tr_output result of
             JObj d \<Rightarrow>
               res_bind (jindex d ''timed_out'') (\<lambda>timed_out.
                 if py_truthy timed_out then Inl (HookExecutionError ''hook command timed out'')
                 else res_bind (jindex d ''exit_code'') (\<lambda>code.
                   if code \<noteq> JInt 0 then
                     res_bind (res_bind (jindex d ''stderr'') py_str) (\<lambda>err. res_bind (py_str code) (\<lambda>c.
                       Inl (HookExecutionError (''hook command exited with '' @ c @ '': '' @ take 1000 err))))
                   else res_bind (jindex d ''stdout'') (\<lambda>out. case out of
                     JStr s \<Rightarrow>
                       if length s > MAX_HOOK_OUTPUT_CHARS
                       then Inl (HookExecutionError ''hook response exceeds the output budget'')
                       else (case jl_loads lib s of None \<Rightarrow> Inl JSONDecodeError | Some j \<Rightarrow> parse_hook_result j (hk_event hook))
                   | _ \<Rightarrow> Inl (Untyped ''stdout''))))
           | _ \<Rightarrow> Inl (TypeError ''output'')))"

text \<open>One invocation. The payload of the command, the record of the start, the call of the command tool in a
  tool set of its own without hooks, and the record of the end, which is written whatever happened.\<close>

definition hook_common :: "string \<Rightarrow> hook_definition \<Rightarrow> jobj \<Rightarrow> jobj" where
  "hook_common invocation_id hook payload =
     [(''invocation_id'', JStr invocation_id), (''hook_id'', JStr (hk_name hook)), (''event'', JStr (hk_event hook)),
      (''source'', JStr (hk_source hook))]
     @ (case map_of payload ''input'' of None \<Rightarrow> [] | Some v \<Rightarrow> [(''input'', v)])"

definition hook_payload :: "'e runtime \<Rightarrow> hook_definition \<Rightarrow> jobj \<Rightarrow> session \<Rightarrow> jobj" where
  "hook_payload rt hook payload s =
     foldl (\<lambda>d (k, v). AList.update k v d)
       [(''schema_version'', JInt 1), (''event'', JStr (hk_event hook)), (''hook_id'', JStr (hk_name hook)),
        (''session_id'', JStr (ses_id s)), (''turn_id'', jopt_str (ses_current_turn_id s)),
        (''workspace'', JStr (rt_workspace rt)),
        (''agent'', JObj [(''role'', JStr (rt_agent_role rt)), (''parent_session_id'', jopt_str (rt_parent_session_id rt))])]
       payload"

definition payload_call_id :: "jobj \<Rightarrow> string option" where
  "payload_call_id payload = (case jget payload ''tool_call'' of JObj d \<Rightarrow> jget_str d ''id'' | _ \<Rightarrow> None)"

definition hook_call :: "string \<Rightarrow> hook_definition \<Rightarrow> tool_call" where
  "hook_call invocation_id hook =
     \<lparr>tc_id = invocation_id, tc_name = ''_hook_command'',
      tc_arguments = JObj [(''command'', JStr (expand_root hook (hk_command hook))),
        (''args'', JList (map (\<lambda>a. JStr (expand_root hook a)) (hk_args hook))), (''scope'', JStr (scope_value (hk_scope hook)))],
      tc_argument_error = None\<rparr>"

text \<open>What the end of an invocation records: the status, the parsed response if there is one, the error text
  otherwise, and the normalized result if the command was run.\<close>

record hook_end =
  he_status :: string
  he_result :: "hook_result option"
  he_reason :: "string option"
  he_diagnostics :: "string option"

definition hook_end_payload :: "jobj \<Rightarrow> hook_end \<Rightarrow> int \<Rightarrow> jobj" where
  "hook_end_payload common he duration =
     common @ [(''status'', JStr (he_status he)),
       (''decision'', jopt_str (map_option hr_decision (he_result he))),
       (''reason'', jopt_str (case he_result he of Some r \<Rightarrow> Some (hr_reason r) | None \<Rightarrow> he_reason he)),
       (''feedback'', JList (map JStr (case he_result he of Some r \<Rightarrow> hr_feedback r | None \<Rightarrow> []))),
       (''duration_ms'', JInt duration), (''diagnostics'', jopt_str (he_diagnostics he))]"

definition hook_failure :: "hook_definition \<Rightarrow> string option \<Rightarrow> exn \<Rightarrow> exn \<times> hook_end" where
  "hook_failure hook diagnostics e =
     (if e \<in> {AgentCancelled, KeyboardInterrupt}
      then (e, \<lparr>he_status = ''cancelled'', he_result = None, he_reason = None, he_diagnostics = diagnostics\<rparr>)
      else if is_exception e
      then (HookExecutionError (''Hook '' @ quoted (hk_name hook) @ '' ('' @ hk_source hook @ ''): '' @ exn_str e),
        \<lparr>he_status = ''failed'', he_result = None, he_reason = Some (exn_str e), he_diagnostics = diagnostics\<rparr>)
      else (e, \<lparr>he_status = ''failed'', he_result = None, he_reason = None, he_diagnostics = diagnostics\<rparr>))"

definition hook_run_command :: "'e runtime \<Rightarrow> 'e toolset \<Rightarrow> hook_definition \<Rightarrow> jobj \<Rightarrow> string
    \<Rightarrow> 'e world \<Rightarrow> (hook_result res \<times> hook_end) \<times> 'e world" where
  "hook_run_command rt ts hook payload invocation_id w =
     (let tools = mk_toolset [hook_command_tool rt hook (hook_payload rt hook payload (w_session w))]
            (tset_policy ts) (tset_router ts) [];
          failed = (\<lambda>diagnostics e w'. let (e', he) = hook_failure hook diagnostics e in ((Inl e', he), w'))
      in case toolset_execute rt no_hooks tools (hook_call invocation_id hook) w of
           (Inl e, w1) \<Rightarrow> failed None e w1
         | (Inr result, w1) \<Rightarrow>
             (case rt_normalize rt result w1 of
                (Inl e, w2) \<Rightarrow> failed None e w2
              | (Inr diagnostics, w2) \<Rightarrow>
                  (case hook_response (rt_json rt) hook result of
                     Inl e \<Rightarrow> failed (Some diagnostics) e w2
                   | Inr parsed \<Rightarrow>
                       ((Inr parsed, \<lparr>he_status = ''completed'', he_result = Some parsed, he_reason = None,
                           he_diagnostics = Some diagnostics\<rparr>), w2))))"

definition hook_invoke :: "'e runtime \<Rightarrow> 'e toolset \<Rightarrow> hook_definition \<Rightarrow> jobj \<Rightarrow> ('e, hook_result) act" where
  "hook_invoke rt ts hook payload =
     act_bind (raise_cancelled rt) (\<lambda>_. act_bind (draw_uuid rt) (\<lambda>invocation_id.
       let common = hook_common invocation_id hook payload; cid = payload_call_id payload in
       act_bind (on_session rt (\<lambda>st. record_hook st ''started'' common cid)) (\<lambda>_ w.
         (case hook_run_command rt ts hook payload invocation_id w of
            ((r, he), w1) \<Rightarrow>
              (case on_session rt (\<lambda>st. record_hook st ''finished'' (hook_end_payload common he (rt_duration_ms rt (w_tick w1))) cid) w1 of
                 (Inl e, w2) \<Rightarrow> (Inl e, w2)
               | (Inr _, w2) \<Rightarrow> (r, w2))))))"

definition hook_applies :: "string \<Rightarrow> jobj \<Rightarrow> hook_definition \<Rightarrow> bool" where
  "hook_applies event payload hook \<longleftrightarrow> hk_event hook = event
     \<and> (case hk_tools hook of
          None \<Rightarrow> True
        | Some names \<Rightarrow> (case jget payload ''tool_call'' of
             JObj d \<Rightarrow> (case jget d ''name'' of JStr n \<Rightarrow> n \<in> set names | _ \<Rightarrow> False)
           | _ \<Rightarrow> False))"

fun run_hooks_loop :: "'e runtime \<Rightarrow> 'e toolset \<Rightarrow> jobj \<Rightarrow> hook_definition list \<Rightarrow> string list \<Rightarrow> string \<Rightarrow> string list
    \<Rightarrow> ('e, hook_result) act" where
  "run_hooks_loop rt ts payload [] feedback decision reasons =
     act_return \<lparr>hr_decision = decision, hr_reason = py_join [LF] reasons, hr_feedback = feedback\<rparr>"
| "run_hooks_loop rt ts payload (hook # hooks) feedback decision reasons =
     act_bind (hook_invoke rt ts hook payload) (\<lambda>r.
       run_hooks_loop rt ts payload hooks (feedback @ hr_feedback r)
         (if hr_decision r \<noteq> ''pass'' then hr_decision r else decision)
         (if hr_decision r \<noteq> ''pass'' \<and> hr_reason r \<noteq> [] then reasons @ [''['' @ hk_name hook @ ''] '' @ hr_reason r] else reasons))"

definition run_hooks :: "'e runtime \<Rightarrow> 'e toolset \<Rightarrow> string \<Rightarrow> jobj \<Rightarrow> ('e, hook_result) act" where
  "run_hooks rt ts event payload =
     (if tset_hooks ts = [] then act_return default_hook_result
      else run_hooks_loop rt ts payload (filter (hook_applies event payload) (tset_hooks ts)) [] ''pass'' [])"

text \<open>The entry point an Agent uses.\<close>

definition execute_call :: "'e runtime \<Rightarrow> 'e toolset \<Rightarrow> tool_call \<Rightarrow> ('e, tool_result) act" where
  "execute_call rt ts call = toolset_execute rt (run_hooks rt ts) ts call"

definition plain_user_message :: "string \<Rightarrow> string \<Rightarrow> message" where
  "plain_user_message text origin =
     \<lparr>msg_role = ''user'', msg_content = CStr text, msg_timestamp = None, msg_tool_calls = [], msg_tool_call_id = None,
      msg_reasoning = None, msg_origin = origin, msg_provider_data = []\<rparr>"

definition append_hook_feedback :: "'e runtime \<Rightarrow> string list \<Rightarrow> ('e, unit) act" where
  "append_hook_feedback rt feedback =
     (if feedback = [] then act_return ()
      else on_session rt (\<lambda>st. add_item st
        (plain_user_message (''[Hook feedback]'' @ [LF] @ py_join [LF, LF] feedback) ''hook_feedback'') [] ''user_input''))"

definition message_content_json :: "message \<Rightarrow> json" where
  "message_content_json m = (case msg_content m of CStr s \<Rightarrow> JStr s | c \<Rightarrow> jopt_str (text_content c))"

text \<open>\<open>turn_execution_summary\<close>: the tools and jobs of the current turn. The content of a tool message is its text.\<close>

definition turn_execution_summary :: "session \<Rightarrow> json" where
  "turn_execution_summary s =
     (let c = ses_core s; turn = ses_current_turn_id s;
          results = foldl (\<lambda>d m. case msg_tool_call_id m of Some i \<Rightarrow> AList.update i (message_content_json m) d | None \<Rightarrow> d) []
            (filter (\<lambda>m. msg_role m = ''tool'') (sc_items c))
      in JObj
        [(''tools'', JList (map (\<lambda>x. JObj [(''id'', JStr (tx_id x)), (''name'', JStr (tx_name x)), (''arguments'', tx_arguments x),
             (''status'', JStr (tx_status x)), (''result'', jget results (tx_id x))])
           (filter (\<lambda>x. tx_turn_id x = turn) (map snd (sc_tool_executions c))))),
         (''jobs'', JList (map (\<lambda>j. JObj [(''id'', JStr (jx_id j)), (''kind'', JStr (jx_kind j)), (''status'', JStr (jx_status j)),
             (''details'', JObj (jx_details j)), (''result_summary'', jx_result_summary j)])
           (filter (\<lambda>j. Some (jx_turn_id j) = turn) (map snd (sc_jobs c)))))])"


section \<open>What stands between a call and its tool\<close>

text \<open>A catalog has every tool once, under its own name.\<close>

lemma catalog_add_ok:
  "catalog_add c ts = Inr c' \<Longrightarrow> distinct (map fst c) \<Longrightarrow> list_all (\<lambda>(n, t). tl_name t = n) c
   \<Longrightarrow> distinct (map fst c') \<and> list_all (\<lambda>(n, t). tl_name t = n) c' \<and> map snd c' = map snd c @ ts"
proof (induction ts arbitrary: c)
  case (Cons t ts)
  then have n: "\<not> map_of c (tl_name t) \<noteq> None" and r: "catalog_add (c @ [(tl_name t, t)]) ts = Inr c'"
    by (simp_all split: if_splits)
  have "distinct (map fst (c @ [(tl_name t, t)]))" using Cons.prems(2) n by (simp add: map_of_eq_None_iff)
  moreover have "list_all (\<lambda>(n, t). tl_name t = n) (c @ [(tl_name t, t)])" using Cons.prems(3) by simp
  ultimately show ?case using Cons.IH [OF r] by simp
qed simp

lemma catalog_tool:
  assumes "mk_catalog ts = Inr c" and "map_of c n = Some t"
  shows "t \<in> set ts \<and> tl_name t = n"
proof -
  have c: "list_all (\<lambda>(n, t). tl_name t = n) c" "map snd c = ts"
    using catalog_add_ok [of "[]" ts c] assms(1) by (simp_all add: mk_catalog_def)
  have "(n, t) \<in> set c" using assms(2) by (rule map_of_SomeD)
  then show ?thesis using c by (force simp: list_all_iff)
qed

text \<open>A result that says the tool was entered comes from a call behind all the checks.\<close>

lemma toolset_execute_entered:
  assumes "toolset_execute rt hooks ts call w = (Inr result, w')" and "tr_executed result"
  obtains tool w0 hook w1 route w2 where
    "map_of (tset_tools ts) (tc_name call) = Some tool" "\<not> rt_cancelled rt w"
    "hooks ''PreToolUse'' [(''tool_call'', JObj (tool_call_to_dict call))] w = (Inr hook, w0)" "hr_decision hook \<noteq> ''deny''"
    "resolve_route ts call w0 = (Inr route, w1)" "authorize_call ts call route w1 = (Inr (), w2)" "\<not> rt_cancelled rt w2"
    "w' = snd (tl_execute tool (tc_arguments call) route w2)"
proof -
  have nc: "\<not> rt_cancelled rt w" using assms(1) by (auto simp: toolset_execute_def act_bind_def raise_cancelled_def split: if_splits)
  have ne: "tc_argument_error call = None"
    using assms nc by (auto simp: toolset_execute_def act_bind_def raise_cancelled_def error_result_def tool_result_of_def
        split: if_splits option.splits)
  obtain tool where tool: "map_of (tset_tools ts) (tc_name call) = Some tool"
    using assms nc ne by (auto simp: toolset_execute_def act_bind_def raise_cancelled_def error_result_def tool_result_of_def
        split: if_splits option.splits)
  obtain hook w0 where hook: "hooks ''PreToolUse'' [(''tool_call'', JObj (tool_call_to_dict call))] w = (Inr hook, w0)"
    using assms nc ne tool by (auto simp: toolset_execute_def act_bind_def raise_cancelled_def split: if_splits prod.splits sum.splits)
  have nd: "hr_decision hook \<noteq> ''deny''"
    using assms nc ne tool hook
    by (auto simp: toolset_execute_def act_bind_def raise_cancelled_def error_result_def tool_result_of_def split: if_splits)
  obtain ex r wx where g: "guarded_execute rt ts tool call w0 = (ex, r, wx)" by (metis prod_cases3)
  have out: "call_outcome call (hr_feedback hook) ex r = Inr result" "w' = wx"
    using assms(1) nc ne tool hook nd g by (simp_all add: toolset_execute_def act_bind_def raise_cancelled_def)
  have "ex"
  proof (cases r)
    case (Inl e)
    then show ?thesis using out(1) assms(2)
      by (cases e) (auto simp: call_outcome_def error_result_def tool_result_of_def split: if_splits)
  next
    case (Inr x)
    then show ?thesis using g by (auto simp: guarded_execute_def split: prod.splits sum.splits)
  qed
  then obtain route w2 where "act_bind (resolve_route ts call) (\<lambda>route. act_bind (authorize_call ts call route) (\<lambda>_.
        act_bind (raise_cancelled rt) (\<lambda>_. act_return route))) w0 = (Inr route, w2)"
      "w' = snd (tl_execute tool (tc_arguments call) route w2)"
    using g out(2) by (auto simp: guarded_execute_def split: prod.splits sum.splits)
  then obtain w1 where "resolve_route ts call w0 = (Inr route, w1)" "authorize_call ts call route w1 = (Inr (), w2)"
      "\<not> rt_cancelled rt w2" "w' = snd (tl_execute tool (tc_arguments call) route w2)"
    by (auto simp: act_bind_Inr_iff raise_cancelled_def split: if_splits)
  then show thesis using that nc tool hook nd by metis
qed

text \<open>Every call the Runtime's policies cover has a scope.\<close>

lemma covered_scope:
  assumes "resolve (mcp_requires_approval u) a call = Inr r" and "runtime_covers u call"
  shows "\<exists>s. re_scope r = Some s"
proof -
  have "tc_name call \<in> set SHELL_TOOLS" if "shell_covers call"
    using that by (auto simp: shell_covers_def shell_prompt_def split: sum.splits option.splits if_splits)
  then show ?thesis using assms
    by (auto simp: resolve_def Let_def runtime_covers_def file_covers_def computer_covers_def mcp_covers_def
        split: if_splits option.splits)
qed

text \<open>The tool set of an Agent: the router takes the authority from the Session's preset, and the permission
  controller with the Runtime's policies authorizes.\<close>

definition session_authority :: "'e world \<Rightarrow> authority" where
  "session_authority w = preset_authority (sc_permission_preset (ses_core (w_session w)))"

definition controlled :: "'e runtime \<Rightarrow> (json \<Rightarrow> string) \<Rightarrow> approver \<Rightarrow> 'e toolset \<Rightarrow> bool" where
  "controlled rt pystr u ts \<longleftrightarrow> tset_router ts = Some (mcp_requires_approval u, session_authority)
     \<and> tset_policy ts = Some (controller_policy rt pystr (runtime_policy (jl_dumps (rt_json rt)) pystr u))"



definition demo_rt :: "unit runtime" where
  "demo_rt = \<lparr>rt_stamp = (\<lambda>_. demo_stamp), rt_now = (\<lambda>_. snd demo_stamp), rt_uuid = (\<lambda>_. ''u''), rt_cancelled = (\<lambda>_. False),
     rt_json = \<lparr>jl_dumps = (\<lambda>_. ''{}''), jl_loads = (\<lambda>_. None)\<rparr>, rt_normalize = (\<lambda>_. act_return ''{}''),
     rt_hook_command = (\<lambda>_ _ _ _. act_raise (RuntimeError ''no command'')), rt_duration_ms = (\<lambda>_. 0), rt_workspace = ''/w'',
     rt_agent_role = ''main'', rt_parent_session_id = None\<rparr>"

definition demo_tool :: "unit tool" where
  "demo_tool = \<lparr>tl_name = ''shell'', tl_concurrent = False, tl_available = (\<lambda>_. True),
     tl_execute = (\<lambda>_ _. act_return \<lparr>to_output = JStr ''ok'', to_attachments = [], to_present_to_user = False\<rparr>)\<rparr>"

definition demo_tools :: "unit toolset" where
  "demo_tools = mk_toolset [demo_tool]
     (Some (controller_policy demo_rt (\<lambda>_. []) (runtime_policy (jl_dumps (rt_json demo_rt)) (\<lambda>_. []) demo_user)))
     (Some (mcp_requires_approval demo_user, session_authority)) []"

definition demo_world :: "unit world" where
  "demo_world = \<lparr>w_session = new_session ''s'' None, w_tick = 0, w_env = ()\<rparr>"

lemmas tool_demo_eval = demo_rt_def demo_tool_def demo_tools_def demo_world_def mk_toolset_def act_defs raise_cancelled_def
  run_hooks_def default_hook_result_def guarded_execute_def resolve_route_def session_authority_def authorize_call_def
  controller_policy_def on_session_def record_user_interaction_def new_session_def empty_core_def tool_result_of_def
  toolset_execute_def call_outcome_def execute_call_def error_result_def plain_error_def


end
