(* ===== verification/Tool_Batch.thy ===== *)
theory Tool_Batch
  imports Tool_Set
begin

text \<open>
  The execution of one batch of tool calls (\<open>agent_core/tool_batch.py\<close>).

  \<^item> The calls run one after the other, or on one thread each when every tool of the batch allows it. On
    threads, all calls are journaled as started in call order; then the coordinator settles them in the
    order in which they complete, any order, which is a parameter, as is an interruption of the
    coordinator. The work of a tool is one step, at the moment its future completes.
  \<^item> The listeners of the interface are actions that may raise (\<open>batch_listeners\<close>).
  \<^item> The clean-up of spooled artifacts is not part of the model.
\<close>

record 'e batch_listeners =
  bl_on_call :: "tool_call \<Rightarrow> nat \<Rightarrow> nat \<Rightarrow> ('e, unit) act"
  bl_on_result :: "tool_result \<Rightarrow> nat \<Rightarrow> nat \<Rightarrow> ('e, unit) act"
  bl_on_media :: "part list \<Rightarrow> bool \<Rightarrow> ('e, unit) act"

definition failure_status :: "exn \<Rightarrow> string" where
  "failure_status e =
     (if e = AgentCancelled then ''cancelled'' else if e = KeyboardInterrupt then ''unknown'' else ''failed'')"

definition start_call :: "'e runtime \<Rightarrow> tool_call \<Rightarrow> string \<Rightarrow> ('e, unit) act" where
  "start_call rt call turn_id = on_session rt (\<lambda>st. tool_started st call (Some turn_id))"

definition end_call :: "'e runtime \<Rightarrow> tool_call \<Rightarrow> string \<Rightarrow> string option \<Rightarrow> string \<Rightarrow> ('e, unit) act" where
  "end_call rt call status err turn_id = on_session rt (\<lambda>st. tool_finished st call status err (Some turn_id))"

definition fail_call :: "'e runtime \<Rightarrow> tool_call \<Rightarrow> string \<Rightarrow> exn \<Rightarrow> ('e, unit) act" where
  "fail_call rt call turn_id e = end_call rt call (failure_status e) (Some (exn_str e)) turn_id"

definition finish_call :: "'e runtime \<Rightarrow> tool_call \<Rightarrow> tool_result \<Rightarrow> string \<Rightarrow> ('e, unit) act" where
  "finish_call rt call result turn_id =
     end_call rt call (if tr_error result \<noteq> None then ''failed'' else ''completed'')
       (map_option te_message (tr_error result)) turn_id"

definition tool_message :: "utc \<Rightarrow> string \<Rightarrow> string \<Rightarrow> message" where
  "tool_message at text call_id =
     \<lparr>msg_role = ''tool'', msg_content = CStr text, msg_timestamp = Some at, msg_tool_calls = [], msg_tool_call_id = Some call_id,
      msg_reasoning = None, msg_origin = ''conversation'', msg_provider_data = []\<rparr>"

definition add_tool_message :: "'e runtime \<Rightarrow> string \<Rightarrow> string \<Rightarrow> ('e, unit) act" where
  "add_tool_message rt text call_id w =
     on_session rt (\<lambda>st. add_item st (tool_message (rt_now rt (w_tick w)) text call_id) [] ''user_input'') w"

definition commit_normalized_result ::
  "'e runtime \<Rightarrow> 'e batch_listeners \<Rightarrow> tool_call \<Rightarrow> tool_result \<Rightarrow> nat \<Rightarrow> nat \<Rightarrow> ('e, string) act" where
  "commit_normalized_result rt bl call result index tool_count =
     act_bind (rt_normalize rt result) (\<lambda>text.
     act_bind (add_tool_message rt text (tc_id call)) (\<lambda>_.
     act_bind (bl_on_result bl result index tool_count) (\<lambda>_. act_return text)))"

section \<open>One after the other\<close>

text \<open>A call up to the record of its end; whatever raises in it is recorded as its end.\<close>

definition run_call :: "'e runtime \<Rightarrow> 'e batch_listeners \<Rightarrow> 'e toolset \<Rightarrow> string \<Rightarrow> nat \<Rightarrow> nat \<Rightarrow> tool_call
    \<Rightarrow> ('e, tool_result) act" where
  "run_call rt bl ts turn_id tool_count index call =
     act_catch
       (act_bind (start_call rt call turn_id) (\<lambda>_.
        act_bind (bl_on_call bl call index tool_count) (\<lambda>_.
        act_bind (execute_call rt ts call) (\<lambda>result.
        act_bind (finish_call rt call result turn_id) (\<lambda>_. act_return result)))))
       (\<lambda>e. act_bind (fail_call rt call turn_id e) (\<lambda>_. act_raise e))"

fun execute_sequentially :: "'e runtime \<Rightarrow> 'e batch_listeners \<Rightarrow> 'e toolset \<Rightarrow> string \<Rightarrow> nat \<Rightarrow> nat \<Rightarrow> tool_call list
    \<Rightarrow> ('e, (tool_call \<times> tool_result \<times> string) list) act" where
  "execute_sequentially rt bl ts turn_id tool_count index [] = act_return []"
| "execute_sequentially rt bl ts turn_id tool_count index (call # calls) =
     act_bind (run_call rt bl ts turn_id tool_count index call) (\<lambda>result.
     act_bind (commit_normalized_result rt bl call result index tool_count) (\<lambda>text.
     act_bind (execute_sequentially rt bl ts turn_id tool_count (Suc index) calls) (\<lambda>rest.
       act_return ((call, result, text) # rest))))"

section \<open>On threads\<close>

text \<open>The coordinator: the calls handed to the pool with their indices, those already settled, the results, and
  the first error.\<close>

record coordinator =
  co_futures :: "(nat \<times> tool_call) list"
  co_observed :: "nat list"
  co_done :: "(nat, tool_call \<times> tool_result \<times> string) dict"
  co_error :: "exn option"

definition first_error :: "exn \<Rightarrow> coordinator \<Rightarrow> coordinator" where
  "first_error e co = (if co_error co = None then co\<lparr>co_error := Some e\<rparr> else co)"

text \<open>The start loop. A failure of the journal leaves it; a failure of the listener or of the pool is recorded as
  the end of the call and stops the loop.\<close>

fun start_calls :: "'e runtime \<Rightarrow> 'e batch_listeners \<Rightarrow> (tool_call \<Rightarrow> exn option) \<Rightarrow> string \<Rightarrow> nat \<Rightarrow> nat \<Rightarrow> tool_call list
    \<Rightarrow> coordinator \<Rightarrow> ('e, coordinator) act" where
  "start_calls rt bl submit_error turn_id tool_count index [] co = act_return co"
| "start_calls rt bl submit_error turn_id tool_count index (call # calls) co =
     act_bind (start_call rt call turn_id) (\<lambda>_ w.
       case act_bind (bl_on_call bl call index tool_count) (\<lambda>_. case submit_error call of None \<Rightarrow> act_return () | Some e \<Rightarrow> act_raise e) w of
         (Inl e, w1) \<Rightarrow> act_bind (fail_call rt call turn_id e) (\<lambda>_. act_return (co\<lparr>co_error := Some e\<rparr>)) w1
       | (Inr _, w1) \<Rightarrow>
           start_calls rt bl submit_error turn_id tool_count (Suc index) calls
             (co\<lparr>co_futures := co_futures co @ [(index, call)]\<rparr>) w1)"

text \<open>\<open>settle\<close>: its exceptions are those of recording a failed call.\<close>

definition settle :: "'e runtime \<Rightarrow> 'e batch_listeners \<Rightarrow> 'e toolset \<Rightarrow> string \<Rightarrow> nat \<Rightarrow> nat \<Rightarrow> tool_call \<Rightarrow> coordinator
    \<Rightarrow> 'e world \<Rightarrow> exn option \<times> coordinator \<times> 'e world" where
  "settle rt bl ts turn_id tool_count index call co0 w =
     (let co = co0\<lparr>co_observed := co_observed co0 @ [index]\<rparr> in
      case execute_call rt ts call w of
        (Inl e, w1) \<Rightarrow>
          (case fail_call rt call turn_id e w1 of
             (Inl x, w2) \<Rightarrow> (Some x, co, w2)
           | (Inr _, w2) \<Rightarrow> (None, first_error e co, w2))
      | (Inr result, w1) \<Rightarrow>
          (case act_bind (finish_call rt call result turn_id) (\<lambda>_. commit_normalized_result rt bl call result index tool_count) w1 of
             (Inl e, w2) \<Rightarrow> (None, first_error e co, w2)
           | (Inr text, w2) \<Rightarrow> (None, co\<lparr>co_done := AList.update index (call, result, text) (co_done co)\<rparr>, w2)))"

fun settle_all :: "'e runtime \<Rightarrow> 'e batch_listeners \<Rightarrow> 'e toolset \<Rightarrow> string \<Rightarrow> nat \<Rightarrow> (nat \<times> tool_call) list \<Rightarrow> coordinator
    \<Rightarrow> 'e world \<Rightarrow> exn option \<times> coordinator \<times> 'e world" where
  "settle_all rt bl ts turn_id tool_count [] co w = (None, co, w)"
| "settle_all rt bl ts turn_id tool_count ((index, call) # futures) co w =
     (case settle rt bl ts turn_id tool_count index call co w of
        (Some x, co1, w1) \<Rightarrow> (Some x, co1, w1)
      | (None, co1, w1) \<Rightarrow> settle_all rt bl ts turn_id tool_count futures co1 w1)"

text \<open>\<open>completes\<close> is the order in which the futures complete while the coordinator waits, up to an interruption;
  what is left is settled in the order of submission.\<close>

definition execute_concurrently :: "'e runtime \<Rightarrow> 'e batch_listeners \<Rightarrow> 'e toolset \<Rightarrow> (tool_call \<Rightarrow> exn option)
    \<Rightarrow> ((nat \<times> tool_call) list \<Rightarrow> (nat \<times> tool_call) list \<times> exn option) \<Rightarrow> string \<Rightarrow> tool_call list
    \<Rightarrow> ('e, (nat, tool_call \<times> tool_result \<times> string) dict) act" where
  "execute_concurrently rt bl ts submit_error completes turn_id calls =
     act_bind (start_calls rt bl submit_error turn_id (length calls) 1 calls
       \<lparr>co_futures = [], co_observed = [], co_done = [], co_error = None\<rparr>) (\<lambda>co w.
       let (order, interruption) = completes (co_futures co) in
       case settle_all rt bl ts turn_id (length calls) order co w of
         (x, co1, w1) \<Rightarrow>
           (let co2 = (case (x, interruption) of (Some e, _) \<Rightarrow> first_error e co1 | (None, Some e) \<Rightarrow> first_error e co1
                         | (None, None) \<Rightarrow> co1);
                left = filter (\<lambda>(index, call). index \<notin> set (co_observed co1)) (co_futures co)
            in case settle_all rt bl ts turn_id (length calls) left co2 w1 of
                 (Some e, co3, w2) \<Rightarrow> (Inl e, w2)
               | (None, co3, w2) \<Rightarrow>
                   (case co_error co3 of Some e \<Rightarrow> (Inl e, w2) | None \<Rightarrow> (Inr (co_done co3), w2))))"

section \<open>The batch\<close>

definition is_concurrent_batch :: "'e toolset \<Rightarrow> tool_call list \<Rightarrow> bool" where
  "is_concurrent_batch ts calls \<longleftrightarrow> 1 < length calls \<and> list_all (\<lambda>call. is_concurrent ts (tc_name call)) calls"

definition media_notice :: "part list \<Rightarrow> string" where
  "media_notice attachments =
     (let noun = (if list_all is_image attachments then (if length attachments = 1 then ''image'' else ''images'')
                  else (if length attachments = 1 then ''attachment'' else ''attachments''))
      in ''[Tool output] The '' @ noun @ '' requested by the preceding tool call:'' @ [LF]
         @ py_join [LF] (map (\<lambda>p. ''- '' @ part_path p) attachments))"

definition commit_media_for :: "'e runtime \<Rightarrow> 'e batch_listeners \<Rightarrow> tool_result list \<Rightarrow> bool \<Rightarrow> ('e, unit) act" where
  "commit_media_for rt bl results present w =
     (let attachments = concat (map tr_attachments (filter (\<lambda>r. tr_present_to_user r = present) results)) in
      if attachments = [] then (Inr (), w)
      else act_bind (on_session rt (\<lambda>st. add_item st
             \<lparr>msg_role = ''user'', msg_content = CStr (if present then [] else media_notice attachments),
              msg_timestamp = Some (rt_now rt (w_tick w)), msg_tool_calls = [], msg_tool_call_id = None, msg_reasoning = None,
              msg_origin = (if present then ''tool_delivery'' else ''tool_media''), msg_provider_data = []\<rparr>
             attachments ''user_input'')) (\<lambda>_. bl_on_media bl attachments present) w)"

definition commit_media :: "'e runtime \<Rightarrow> 'e batch_listeners \<Rightarrow> tool_result list \<Rightarrow> ('e, unit) act" where
  "commit_media rt bl results = act_bind (commit_media_for rt bl results False) (\<lambda>_. commit_media_for rt bl results True)"

text \<open>The hooks behind the batch: the feedback of the calls and of the hooks in call order.\<close>

fun post_hooks :: "'e runtime \<Rightarrow> 'e toolset \<Rightarrow> (tool_call \<times> tool_result \<times> string) list \<Rightarrow> ('e, string list) act" where
  "post_hooks rt ts [] = act_return []"
| "post_hooks rt ts ((call, result, text) # rest) =
     act_bind
       (if tr_executed result
        then act_bind (run_hooks rt ts ''PostToolUse'' [(''tool_call'', JObj (tool_call_to_dict call)),
               (''tool_result'', JObj [(''ok'', JBool (tr_error result = None)), (''content'', JStr text)])])
               (\<lambda>hook. act_return (hr_feedback hook))
        else act_return []) (\<lambda>feedback.
     act_bind (post_hooks rt ts rest) (\<lambda>more. act_return (tr_hook_feedback result @ feedback @ more)))"

definition after_batch :: "'e runtime \<Rightarrow> 'e batch_listeners \<Rightarrow> 'e toolset \<Rightarrow> (tool_call \<times> tool_result \<times> string) list
    \<Rightarrow> ('e, unit) act" where
  "after_batch rt bl ts completed =
     act_bind (commit_media rt bl (map (fst \<circ> snd) completed)) (\<lambda>_.
     act_bind (post_hooks rt ts completed) (append_hook_feedback rt))"

text \<open>\<open>completed[index]\<close> for every call; a call without a result is a \<open>KeyError\<close>.\<close>

definition collect_results :: "nat \<Rightarrow> (nat, tool_call \<times> tool_result \<times> string) dict \<Rightarrow> (tool_call \<times> tool_result \<times> string) list res" where
  "collect_results n d = res_list (\<lambda>i. case map_of d i of Some x \<Rightarrow> Inr x | None \<Rightarrow> Inl (KeyError (nat_str i))) [1..<Suc n]"

definition execute_batch :: "'e runtime \<Rightarrow> 'e batch_listeners \<Rightarrow> 'e toolset \<Rightarrow> (tool_call \<Rightarrow> exn option)
    \<Rightarrow> ((nat \<times> tool_call) list \<Rightarrow> (nat \<times> tool_call) list \<times> exn option) \<Rightarrow> string \<Rightarrow> tool_call list \<Rightarrow> ('e, unit) act" where
  "execute_batch rt bl ts submit_error completes turn_id calls =
     (if is_concurrent_batch ts calls
      then act_bind (execute_concurrently rt bl ts submit_error completes turn_id calls) (\<lambda>d.
           act_bind (act_res (collect_results (length calls) d)) (after_batch rt bl ts))
      else act_bind (execute_sequentially rt bl ts turn_id (length calls) 1 calls) (after_batch rt bl ts))"


section \<open>Actions that start no call\<close>

text \<open>From \<open>w\<close> to \<open>w'\<close> the journal has grown by \<open>es\<close>, it still accepts every event, and the current turn is the
  same: no event of \<open>es\<close> starts or ends a turn.\<close>

definition turn_event :: "journal_event \<Rightarrow> bool" where
  "turn_event e = prefix ''turn_'' (ev_type e)"

definition trail :: "'e world \<Rightarrow> 'e world \<Rightarrow> journal_event list \<Rightarrow> bool" where
  "trail w w' es \<longleftrightarrow> accepting (w_session w') \<and> ses_journal (w_session w') = ses_journal (w_session w) @ es
     \<and> ses_current_turn_id (w_session w') = ses_current_turn_id (w_session w) \<and> list_all (\<lambda>e. \<not> turn_event e) es"

definition starts_nothing :: "journal_event list \<Rightarrow> bool" where
  "starts_nothing es = list_all (\<lambda>e. ev_type e \<noteq> ''tool_started'') es"

definition quiet_act :: "('e, 'a) act \<Rightarrow> bool" where
  "quiet_act m \<longleftrightarrow> (\<forall>w. accepting (w_session w) \<longrightarrow> (\<exists>es. trail w (snd (m w)) es \<and> starts_nothing es))"

named_theorems quiet \<open>actions that start no call\<close>

lemma trail_refl: "accepting (w_session w) \<Longrightarrow> trail w w []"
  by (simp add: trail_def)

lemma trail_trans: "trail w w1 es \<Longrightarrow> trail w1 w2 fs \<Longrightarrow> trail w w2 (es @ fs)"
  by (simp add: trail_def)

lemma trail_accepting: "trail w w' es \<Longrightarrow> accepting (w_session w')"
  by (simp add: trail_def)

lemma starts_nothing_append [simp]: "starts_nothing (es @ fs) \<longleftrightarrow> starts_nothing es \<and> starts_nothing fs"
  by (simp add: starts_nothing_def)

lemma starts_nothing_Nil [simp]: "starts_nothing []"
  by (simp add: starts_nothing_def)

lemma quiet_actE:
  assumes "quiet_act m" and "accepting (w_session w)" and "m w = (r, w')"
  obtains es where "trail w w' es" "starts_nothing es"
  using assms unfolding quiet_act_def by (metis snd_conv)

lemma quiet_return [quiet]: "quiet_act (act_return x)" "quiet_act (act_raise e)" "quiet_act (act_res r)"
  by (auto simp: quiet_act_def act_return_def act_raise_def act_res_def intro: exI [of _ "[]"] trail_refl)

lemma quiet_bind [quiet]:
  assumes "quiet_act m" and "\<And>x. quiet_act (f x)"
  shows "quiet_act (act_bind m f)"
  unfolding quiet_act_def
proof (intro allI impI)
  fix w :: "'a world" assume a: "accepting (w_session w)"
  obtain r w1 where m: "m w = (r, w1)" by fastforce
  then obtain es where es: "trail w w1 es" "starts_nothing es" using quiet_actE [OF assms(1) a] by metis
  show "\<exists>es. trail w (snd (act_bind m f w)) es \<and> starts_nothing es"
  proof (cases r)
    case (Inl e)
    then show ?thesis using m es by (auto simp: act_bind_def)
  next
    case (Inr x)
    obtain r2 w2 where f: "f x w1 = (r2, w2)" by fastforce
    then obtain fs where "trail w1 w2 fs" "starts_nothing fs"
      using quiet_actE [OF assms(2) trail_accepting [OF es(1)]] by metis
    then show ?thesis using m es Inr f trail_trans by (fastforce simp: act_bind_def)
  qed
qed

text \<open>One event of the Session: it is appended whatever its replay does.\<close>

lemma session_event_trail:
  assumes "accepting s" and "session_event st ty tid p cid s = (s', r)"
  shows "accepting s' \<and> ses_current_turn_id s' = ses_current_turn_id s
    \<and> (\<exists>e. ses_journal s' = ses_journal s @ [e] \<and> ev_type e = ty \<and> ev_tool_call_id e = cid)"
proof -
  let ?e = "\<lparr>ev_seq = next_seq (ses_journal s), ev_id = fst st, ev_type = ty, ev_turn_id = tid, ev_timestamp = snd st,
    ev_tool_call_id = cid, ev_payload = p\<rparr>"
  obtain s1 where s1: "sink_write [?e] s = (s1, None)" "ses_sink s1 = ses_sink s" "ses_journal s1 = ses_journal s"
      "ses_current_turn_id s1 = ses_current_turn_id s"
    using assms(1) by (cases "ses_sink s") (auto simp: sink_write_def accepting_def)
  obtain c x where c: "apply_all [?e] (ses_core s1) = (c, x)" by fastforce
  have "s' = s1\<lparr>ses_journal := ses_journal s1 @ [?e], ses_core := c\<rparr>"
    using assms(2) s1(1) c by (simp add: session_event_def journal_write_def)
  then show ?thesis using assms(1) s1 by (auto simp: accepting_def)
qed

definition writes_event :: "(stamp \<Rightarrow> session \<Rightarrow> session outcome) \<Rightarrow> string \<Rightarrow> string option \<Rightarrow> bool" where
  "writes_event f ty cid \<longleftrightarrow> \<not> prefix ''turn_'' ty \<and> (\<forall>st s. \<exists>tid p. f st s = session_event st ty tid p cid s)"

lemma on_session_trail:
  assumes "writes_event f ty cid" and "accepting (w_session w)" and "on_session rt f w = (r, w')"
  shows "\<exists>e. trail w w' [e] \<and> ev_type e = ty \<and> ev_tool_call_id e = cid"
proof -
  obtain s x where s: "f (rt_stamp rt (w_tick w)) (w_session w) = (s, x)" by fastforce
  then obtain tid p where "session_event (rt_stamp rt (w_tick w)) ty tid p cid (w_session w) = (s, x)"
    using assms(1) by (metis writes_event_def)
  from session_event_trail [OF assms(2) this] show ?thesis
    using assms(1,3) s by (cases x) (auto simp: on_session_def trail_def turn_event_def writes_event_def)
qed

lemma quiet_on_session: "writes_event f ty cid \<Longrightarrow> ty \<noteq> ''tool_started'' \<Longrightarrow> quiet_act (on_session rt f)"
  unfolding quiet_act_def
proof (intro allI impI)
  fix w :: "'a world" assume f: "writes_event f ty cid" "ty \<noteq> ''tool_started''" and a: "accepting (w_session w)"
  obtain r w' where o: "on_session rt f w = (r, w')" by fastforce
  obtain e where "trail w w' [e]" "ev_type e = ty" using on_session_trail [OF f(1) a o] by blast
  then show "\<exists>es. trail w (snd (on_session rt f w)) es \<and> starts_nothing es"
    using o f(2) by (intro exI [of _ "[e]"]) (simp add: starts_nothing_def)
qed

lemma writes_simple:
  "writes_event (\<lambda>st. add_item st m atts src) ''message_appended'' (msg_tool_call_id m)"
  "writes_event (\<lambda>st. record_hook st status p cid) (''hook_'' @ status) cid"
  "writes_event (\<lambda>st. tool_started st call turn) ''tool_started'' (Some (tc_id call))"
  "writes_event (\<lambda>st. tool_finished st call status err turn) (''tool_'' @ status) (Some (tc_id call))"
  by (auto simp: writes_event_def add_item_def append_message_def record_hook_def tool_started_def tool_finished_def)

lemma quiet_add_item [quiet]: "quiet_act (on_session rt (\<lambda>st. add_item st m atts src))"
  by (rule quiet_on_session [OF writes_simple(1)]) simp

lemma quiet_record_hook [quiet]: "quiet_act (on_session rt (\<lambda>st. record_hook st status p cid))"
  by (rule quiet_on_session [OF writes_simple(2)]) simp

lemma quiet_record_user [quiet]: "quiet_act (on_session rt (\<lambda>st. record_user_interaction st t src))"
proof -
  have "\<exists>es. trail w (snd (on_session rt (\<lambda>st. record_user_interaction st t src) w)) es \<and> starts_nothing es"
    if a: "accepting (w_session w)" for w
  proof (cases "ses_current_turn_id (w_session w) = None")
    case True
    then show ?thesis using a
      by (intro exI [of _ "[]"]) (simp add: on_session_def record_user_interaction_def trail_def)
  next
    case False
    then have "on_session rt (\<lambda>st. record_user_interaction st t src) w = on_session rt (\<lambda>st. add_item st
        \<lparr>msg_role = ''user'', msg_content = CStr t, msg_timestamp = None, msg_tool_calls = [], msg_tool_call_id = None,
         msg_reasoning = None, msg_origin = ''user_interaction'', msg_provider_data = []\<rparr> [] src) w"
      by (auto simp: on_session_def record_user_interaction_def)
    then show ?thesis using quiet_add_item a unfolding quiet_act_def by metis
  qed
  then show ?thesis by (simp add: quiet_act_def)
qed


lemma quiet_cancelled [quiet]: "quiet_act (raise_cancelled rt)" "quiet_act (draw_uuid rt)"
  by (auto simp: quiet_act_def raise_cancelled_def draw_uuid_def trail_def intro!: exI [of _ "[]"])

lemma quiet_cong: "quiet_act m \<Longrightarrow> (\<And>w. snd (m' w) = snd (m w)) \<Longrightarrow> quiet_act m'"
  by (simp add: quiet_act_def)

text \<open>What is assumed of the code that the Runtime calls: it does not journal the start of a call in this
  Session and leaves the journal open.\<close>

definition quiet_runtime :: "'e runtime \<Rightarrow> 'e toolset \<Rightarrow> bool" where
  "quiet_runtime rt ts \<longleftrightarrow> (\<forall>r. quiet_act (rt_normalize rt r)) \<and> (\<forall>h p x c. quiet_act (rt_hook_command rt h p x c))
     \<and> (\<forall>p call route. tset_policy ts = Some p \<longrightarrow> quiet_act (p call route))
     \<and> (\<forall>t \<in> snd ` set (tset_tools ts). \<forall>a route. quiet_act (tl_execute t a route))"

definition quiet_listeners :: "'e batch_listeners \<Rightarrow> bool" where
  "quiet_listeners bl \<longleftrightarrow> (\<forall>c i n. quiet_act (bl_on_call bl c i n)) \<and> (\<forall>r i n. quiet_act (bl_on_result bl r i n))
     \<and> (\<forall>a b. quiet_act (bl_on_media bl a b))"

lemma quiet_controller_policy: "quiet_act (controller_policy rt pystr approval call route)"
proof -
  have "quiet_act (record_all rt ts)" for ts by (induction ts) (auto intro: quiet)
  then show ?thesis by (auto simp: controller_policy_def intro: quiet split: prod.splits)
qed

lemma quiet_guarded:
  assumes "\<And>a route. quiet_act (tl_execute tool a route)" and "\<And>p call route. tset_policy ts = Some p \<Longrightarrow> quiet_act (p call route)"
  shows "quiet_act (\<lambda>w. case guarded_execute rt ts tool call w of (ex, r, w') \<Rightarrow> (r, w'))"
proof -
  let ?m = "act_bind (resolve_route ts call) (\<lambda>route. act_bind (authorize_call ts call route) (\<lambda>_.
        act_bind (raise_cancelled rt) (\<lambda>_. act_return route)))"
  have r: "quiet_act (resolve_route ts call)"
    by (auto simp: quiet_act_def resolve_route_def trail_def intro!: exI [of _ "[]"] split: option.splits)
  have "quiet_act (authorize_call ts call route)" for route
    using assms(2) by (auto simp: authorize_call_def intro: quiet split: option.splits)
  then have "quiet_act (act_bind ?m (tl_execute tool (tc_arguments call)))" using r assms(1) by (intro quiet) auto
  then show ?thesis
    by (rule quiet_cong) (auto simp: guarded_execute_def act_bind_def split: prod.splits sum.splits)
qed

lemma quiet_toolset_execute:
  assumes "\<And>ev p. quiet_act (hooks ev p)" and "\<And>p call route. tset_policy ts = Some p \<Longrightarrow> quiet_act (p call route)"
    and "\<And>t a route. t \<in> snd ` set (tset_tools ts) \<Longrightarrow> quiet_act (tl_execute t a route)"
  shows "quiet_act (toolset_execute rt hooks ts call)"
proof (cases "map_of (tset_tools ts) (tc_name call)")
  case None
  then show ?thesis by (auto simp: toolset_execute_def intro!: quiet split: option.splits)
next
  case (Some tool)
  then have t: "tool \<in> snd ` set (tset_tools ts)" by (force dest: map_of_SomeD)
  have g: "quiet_act (\<lambda>w. case guarded_execute rt ts tool call w of (ex, r, w') \<Rightarrow> (r, w'))"
    using assms(2,3) t by (intro quiet_guarded) auto
  have "quiet_act (\<lambda>w. case guarded_execute rt ts tool call w of (executed, r, w1) \<Rightarrow> (call_outcome call fb executed r, w1))" for fb
    by (rule quiet_cong [OF g]) (auto split: prod.splits)
  then show ?thesis using Some assms(1) by (auto simp: toolset_execute_def intro!: quiet split: option.splits)
qed

lemma quiet_hook_invoke:
  assumes "quiet_runtime rt ts"
  shows "quiet_act (hook_invoke rt ts hook payload)"
proof -
  have run: "quiet_act (\<lambda>w. case hook_run_command rt ts hook payload i w of ((r, he), w1) \<Rightarrow> (r, w1))" for i
  proof -
    let ?ts = "\<lambda>w. mk_toolset [hook_command_tool rt hook (hook_payload rt hook payload (w_session w))] (tset_policy ts) (tset_router ts) []"
    have q: "quiet_act (toolset_execute rt no_hooks (?ts w0) c)" for w0 c
      using assms unfolding quiet_runtime_def
      by (intro quiet_toolset_execute)
        (auto simp: no_hooks_def mk_toolset_def hook_command_tool_def intro!: quiet split: option.splits json.splits)
    have n: "quiet_act (rt_normalize rt r)" for r using assms by (simp add: quiet_runtime_def)
    have "\<exists>es. trail w (snd (act_bind (toolset_execute rt no_hooks (?ts w) (hook_call i hook)) (rt_normalize rt) w)) es \<and> starts_nothing es"
      if "accepting (w_session w)" for w
      using quiet_bind [OF q [of w "hook_call i hook"], of "rt_normalize rt"] n that unfolding quiet_act_def by blast
    moreover have "snd (case hook_run_command rt ts hook payload i w of ((r, he), w1) \<Rightarrow> (r, w1))
        = snd (act_bind (toolset_execute rt no_hooks (?ts w) (hook_call i hook)) (rt_normalize rt) w)" for w
      by (auto simp: hook_run_command_def act_bind_def Let_def split: prod.splits sum.splits)
    ultimately show ?thesis by (simp add: quiet_act_def)
  qed
  have "quiet_act (\<lambda>w. case hook_run_command rt ts hook payload i w of
      ((r, he), w1) \<Rightarrow> (case on_session rt (\<lambda>st. record_hook st ''finished''
            (hook_end_payload common he (rt_duration_ms rt (w_tick w1))) cid) w1 of
         (Inl e, w2) \<Rightarrow> (Inl e, w2) | (Inr _, w2) \<Rightarrow> (r, w2)))" for i common cid
    unfolding quiet_act_def
  proof (intro allI impI)
    fix w :: "'a world" assume a: "accepting (w_session w)"
    obtain r he w1 where h: "hook_run_command rt ts hook payload i w = ((r, he), w1)" by (metis prod.exhaust)
    obtain es where es: "trail w w1 es" "starts_nothing es" using quiet_actE [OF run [of i] a] h by (metis (no_types, lifting) case_prod_conv)
    let ?f = "\<lambda>st. record_hook st ''finished'' (hook_end_payload common he (rt_duration_ms rt (w_tick w1))) cid"
    obtain x w2 where o: "on_session rt ?f w1 = (x, w2)" by fastforce
    obtain fs where "trail w1 w2 fs" "starts_nothing fs" using quiet_actE [OF quiet_record_hook trail_accepting [OF es(1)] o] by metis
    then show "\<exists>es. trail w (snd (case hook_run_command rt ts hook payload i w of
        ((r, he), w1) \<Rightarrow> (case on_session rt (\<lambda>st. record_hook st ''finished''
            (hook_end_payload common he (rt_duration_ms rt (w_tick w1))) cid) w1 of
         (Inl e, w2) \<Rightarrow> (Inl e, w2) | (Inr _, w2) \<Rightarrow> (r, w2)))) es \<and> starts_nothing es"
      using h o es trail_trans by (intro exI [of _ "es @ fs"]) (auto split: sum.splits)
  qed
  then show ?thesis by (auto simp: hook_invoke_def Let_def intro!: quiet)
qed

lemma quiet_run_hooks:
  assumes "quiet_runtime rt ts"
  shows "quiet_act (run_hooks rt ts ev payload)"
proof -
  have "quiet_act (run_hooks_loop rt ts payload hs fb d rs)" for hs fb d rs
    by (induction hs arbitrary: fb d rs) (auto intro!: quiet quiet_hook_invoke assms)
  then show ?thesis by (auto simp: run_hooks_def intro: quiet)
qed

lemma quiet_execute_call: "quiet_runtime rt ts \<Longrightarrow> quiet_act (execute_call rt ts call)"
  unfolding execute_call_def
  by (rule quiet_toolset_execute) (auto simp: quiet_runtime_def intro: quiet_run_hooks)

section \<open>Calls that are under way\<close>

text \<open>The identifiers of the calls that a stretch of the journal leaves under way, given those before it.\<close>

fun open_calls :: "journal_event list \<Rightarrow> string set \<Rightarrow> string set" where
  "open_calls [] O0 = O0"
| "open_calls (e # es) O0 =
     open_calls es
       (if ev_type e = ''tool_started'' then O0 \<union> set_option (ev_tool_call_id e)
        else if ev_type e \<in> set TOOL_END_EVENTS then O0 - set_option (ev_tool_call_id e) else O0)"

lemma open_calls_append: "open_calls (es @ fs) O0 = open_calls fs (open_calls es O0)"
  by (induction es arbitrary: O0) auto

lemma open_calls_mono: "A \<subseteq> B \<Longrightarrow> open_calls es A \<subseteq> open_calls es B"
proof (induction es arbitrary: A B)
  case (Cons e es)
  show ?case unfolding open_calls.simps by (rule Cons.IH) (use Cons.prems in auto)
qed simp

lemma open_calls_quiet: "starts_nothing es \<Longrightarrow> open_calls es O0 \<subseteq> O0"
proof (induction es arbitrary: O0)
  case (Cons e es)
  let ?O = "if ev_type e \<in> set TOOL_END_EVENTS then O0 - set_option (ev_tool_call_id e) else O0"
  have "open_calls es ?O \<subseteq> ?O" using Cons by (simp add: starts_nothing_def)
  moreover have "open_calls (e # es) O0 = open_calls es ?O" using Cons.prems by (simp add: starts_nothing_def)
  moreover have "?O \<subseteq> O0" by auto
  ultimately show ?case by (metis order_trans)
qed simp

text \<open>From \<open>w\<close> to \<open>w'\<close> the journal has grown, and what was under way has changed from \<open>A\<close> to at most \<open>B\<close>.\<close>

definition moves :: "'e world \<Rightarrow> 'e world \<Rightarrow> string set \<Rightarrow> string set \<Rightarrow> bool" where
  "moves w w' A B \<longleftrightarrow> (\<exists>es. trail w w' es \<and> open_calls es A \<subseteq> B)"

lemma moves_refl: "accepting (w_session w) \<Longrightarrow> A \<subseteq> B \<Longrightarrow> moves w w A B"
  unfolding moves_def by (intro exI [of _ "[]"]) (simp add: trail_refl)

lemma moves_trans:
  assumes "moves w w1 A B" and "moves w1 w2 B C"
  shows "moves w w2 A C"
proof -
  obtain es fs where e: "trail w w1 es" "open_calls es A \<subseteq> B" "trail w1 w2 fs" "open_calls fs B \<subseteq> C"
    using assms by (auto simp: moves_def)
  have "open_calls (es @ fs) A \<subseteq> C" using open_calls_mono [OF e(2), of fs] e(4) by (simp add: open_calls_append)
  then show ?thesis unfolding moves_def using trail_trans [OF e(1,3)] by blast
qed

lemma moves_accepting: "moves w w' A B \<Longrightarrow> accepting (w_session w')"
  by (auto simp: moves_def trail_def)

lemma moves_weaken: "moves w w' A B \<Longrightarrow> B \<subseteq> C \<Longrightarrow> moves w w' A C"
  by (auto simp: moves_def)

lemma quiet_moves:
  assumes "quiet_act m" and "accepting (w_session w)" and "m w = (r, w')"
  shows "moves w w' A A"
  using quiet_actE [OF assms] open_calls_quiet unfolding moves_def by metis

lemma start_call_moves:
  assumes "accepting (w_session w)" and "start_call rt call turn w = (r, w')"
  shows "moves w w' A (insert (tc_id call) A)"
proof -
  obtain e where "trail w w' [e]" "ev_type e = ''tool_started''" "ev_tool_call_id e = Some (tc_id call)"
    using on_session_trail [OF writes_simple(3) assms(1)] assms(2) by (metis start_call_def)
  then show ?thesis unfolding moves_def by (intro exI [of _ "[e]"]) auto
qed

text \<open>The end of a call is journaled under one of the four types, and recording it does not fail.\<close>

definition END_STATUSES :: "string list" where
  "END_STATUSES = [''completed'', ''failed'', ''cancelled'', ''unknown'']"

lemma accepted_event_ok:
  assumes "accepting s" and "\<And>n. event_total \<lparr>ev_seq = n, ev_id = fst st, ev_type = ty, ev_turn_id = tid, ev_timestamp = snd st,
      ev_tool_call_id = cid, ev_payload = p\<rparr>"
  shows "snd (session_event st ty tid p cid s) = None"
proof -
  obtain c where "apply_event \<lparr>ev_seq = next_seq (ses_journal s), ev_id = fst st, ev_type = ty, ev_turn_id = tid,
      ev_timestamp = snd st, ev_tool_call_id = cid, ev_payload = p\<rparr> (ses_core s) = (c, None)"
    using event_total_step [OF assms(2)] by blast
  then show ?thesis using assms(1)
    by (cases "ses_sink s") (auto simp: session_event_def journal_write_def sink_write_def accepting_def)
qed

lemma end_call_moves:
  assumes "accepting (w_session w)" and "end_call rt call status err turn w = (r, w')" and "status \<in> set END_STATUSES"
  shows "moves w w' A (A - {tc_id call}) \<and> r = Inr ()"
proof
  obtain e where "trail w w' [e]" "ev_type e = ''tool_'' @ status" "ev_tool_call_id e = Some (tc_id call)"
    using on_session_trail [OF writes_simple(4) assms(1)] assms(2) by (metis end_call_def)
  then show "moves w w' A (A - {tc_id call})" unfolding moves_def using assms(3)
    by (intro exI [of _ "[e]"]) (auto simp: END_STATUSES_def TOOL_END_EVENTS_def)
  let ?p = "[(''status'', JStr status), (''name'', JStr (tc_name call))] @ (case err of None \<Rightarrow> [] | Some m \<Rightarrow> [(''error'', JStr m)])"
  have "event_total e" if "ev_type e = ''tool_'' @ status" "ev_payload e = ?p" for e
    using that assms(3) by (intro total_tool_finished [of e status]) (auto simp: END_STATUSES_def)
  then have fin: "snd (tool_finished (rt_stamp rt (w_tick w)) call status err (Some turn) (w_session w)) = None"
    unfolding tool_finished_def using assms(1) by (intro accepted_event_ok) simp_all
  obtain s where "tool_finished (rt_stamp rt (w_tick w)) call status err (Some turn) (w_session w) = (s, None)"
    using fin by (metis prod.collapse)
  then show "r = Inr ()" using assms(2) by (simp add: end_call_def on_session_def)
qed

lemma fail_call_moves:
  assumes "accepting (w_session w)" and "fail_call rt call turn e w = (r, w')"
  shows "moves w w' A (A - {tc_id call}) \<and> r = Inr ()"
  using end_call_moves [OF assms(1) assms(2) [unfolded fail_call_def]] by (simp add: failure_status_def END_STATUSES_def)

lemma finish_call_moves:
  assumes "accepting (w_session w)" and "finish_call rt call result turn w = (r, w')"
  shows "moves w w' A (A - {tc_id call}) \<and> r = Inr ()"
  using end_call_moves [OF assms(1) assms(2) [unfolded finish_call_def]] by (simp add: END_STATUSES_def)

lemma quiet_add_tool_message [quiet]: "quiet_act (add_tool_message rt t i)"
  unfolding quiet_act_def add_tool_message_def using quiet_add_item unfolding quiet_act_def by blast

lemma quiet_commit_result:
  assumes "quiet_runtime rt ts" and "quiet_listeners bl"
  shows "quiet_act (commit_normalized_result rt bl call result i n)"
  using assms unfolding commit_normalized_result_def quiet_runtime_def quiet_listeners_def by (intro quiet) auto

lemma run_call_moves:
  assumes "quiet_runtime rt ts" and "quiet_listeners bl" and "accepting (w_session w)"
    and "run_call rt bl ts turn n i call w = (r, w')"
  shows "moves w w' A A"
proof -
  let ?A = "insert (tc_id call) A"
  let ?q = "act_bind (bl_on_call bl call i n) (\<lambda>_. execute_call rt ts call)"
  have q: "quiet_act ?q" using assms(1,2) by (auto simp: quiet_listeners_def intro!: quiet quiet_execute_call)
  obtain s w1 where s: "start_call rt call turn w = (s, w1)" by fastforce
  have m1: "moves w w1 A ?A" by (rule start_call_moves [OF assms(3) s])
  have fail: "moves w w' A A" if "moves w v A ?A" "act_bind (fail_call rt call turn e) (\<lambda>_. act_raise e) v = (r, w')" for v e
  proof -
    obtain x v' where x: "fail_call rt call turn e v = (x, v')" by fastforce
    then have "w' = v'" using that(2) by (auto simp: act_bind_def act_raise_def split: sum.splits)
    moreover have "moves v v' ?A (?A - {tc_id call})" using fail_call_moves [OF moves_accepting [OF that(1)] x] by blast
    ultimately show ?thesis using moves_weaken [OF moves_trans [OF that(1)], of v' "?A - {tc_id call}" A] by auto
  qed
  show ?thesis
  proof (cases s)
    case (Inl e)
    then show ?thesis using fail [OF m1, of e] assms(4) s by (simp add: run_call_def act_catch_def act_bind_def)
  next
    case (Inr u)
    obtain t w2 where t: "?q w1 = (t, w2)" by fastforce
    have m2: "moves w w2 A ?A" using moves_trans [OF m1] quiet_moves [OF q moves_accepting [OF m1] t] by blast
    show ?thesis
    proof (cases t)
      case (Inl e)
      then show ?thesis using fail [OF m2, of e] assms(4) s Inr t
        by (auto simp: run_call_def act_catch_def act_bind_def split: prod.splits sum.splits)
    next
      case (Inr result)
      obtain f w3 where f: "finish_call rt call result turn w2 = (f, w3)" by fastforce
      from finish_call_moves [OF moves_accepting [OF m2] f, of ?A] have f': "moves w2 w3 ?A (?A - {tc_id call})" "f = Inr ()" by auto
      then have "w' = w3" using assms(4) s \<open>s = Inr u\<close> t Inr f
        by (auto simp: run_call_def act_catch_def act_bind_def act_return_def split: prod.splits sum.splits)
      then show ?thesis using moves_weaken [OF moves_trans [OF m2 f'(1)], of A] by auto
    qed
  qed
qed

lemma execute_sequentially_moves:
  assumes "quiet_runtime rt ts" and "quiet_listeners bl"
  shows "accepting (w_session w) \<Longrightarrow> execute_sequentially rt bl ts turn n i calls w = (r, w') \<Longrightarrow> moves w w' A A"
proof (induction calls arbitrary: i w r w')
  case Nil
  then show ?case by (simp add: moves_refl)
next
  case (Cons call calls)
  obtain r1 w1 where r1: "run_call rt bl ts turn n i call w = (r1, w1)" by fastforce
  have m1: "moves w w1 A A" by (rule run_call_moves [OF assms Cons.prems(1) r1])
  show ?case
  proof (cases r1)
    case (Inl e)
    then show ?thesis using m1 r1 Cons.prems(2) by (simp add: act_bind_def)
  next
    case (Inr result)
    obtain r2 w2 where r2: "commit_normalized_result rt bl call result i n w1 = (r2, w2)" by fastforce
    have m2: "moves w w2 A A"
      using moves_trans [OF m1 quiet_moves [OF quiet_commit_result [OF assms] moves_accepting [OF m1] r2]] .
    show ?thesis
    proof (cases r2)
      case (Inl e)
      then show ?thesis using m2 r1 r2 Inr Cons.prems(2) by (simp add: act_bind_def)
    next
      case (Inr txt0)
      obtain r3 w3 where r3: "execute_sequentially rt bl ts turn n (Suc i) calls w2 = (r3, w3)" by fastforce
      have "w' = w3" using r1 r2 r3 \<open>r1 = Inr result\<close> Inr Cons.prems(2)
        by (auto simp: act_bind_def act_return_def split: sum.splits)
      then show ?thesis using moves_trans [OF m2 Cons.IH [OF moves_accepting [OF m2] r3]] by simp
    qed
  qed
qed

abbreviation future_ids :: "(nat \<times> tool_call) list \<Rightarrow> string set" where
  "future_ids fs \<equiv> (tc_id \<circ> snd) ` set fs"

lemma start_call_ok:
  assumes "accepting (w_session w)" and "start_call rt call turn w = (r, w')"
  shows "r = Inr ()"
proof -
  have "snd (tool_started (rt_stamp rt (w_tick w)) call (Some turn) (w_session w)) = None"
    unfolding tool_started_def using assms(1) by (intro accepted_event_ok total_tool_started) simp_all
  then obtain s where "tool_started (rt_stamp rt (w_tick w)) call (Some turn) (w_session w) = (s, None)" by (metis prod.collapse)
  then show ?thesis using assms(2) by (simp add: start_call_def on_session_def)
qed

lemma start_calls_moves:
  assumes "quiet_listeners bl"
  shows "accepting (w_session w) \<Longrightarrow> start_calls rt bl sub turn n i calls co w = (r, w')
    \<Longrightarrow> \<exists>co' new. r = Inr co' \<and> co_futures co' = co_futures co @ new \<and> co_observed co' = co_observed co
      \<and> moves w w' A (A \<union> future_ids new) \<and> distinct (map fst new) \<and> (\<forall>j \<in> fst ` set new. i \<le> j)"
proof (induction calls arbitrary: i co w A)
  case Nil
  then show ?case by (intro exI [of _ co] exI [of _ "[]"]) (auto simp: moves_refl)
next
  case (Cons call calls)
  let ?q = "act_bind (bl_on_call bl call i n) (\<lambda>_. case sub call of None \<Rightarrow> act_return () | Some e \<Rightarrow> act_raise e)"
  have q: "quiet_act ?q" using assms by (auto simp: quiet_listeners_def intro!: quiet split: option.splits)
  obtain s w1 where s: "start_call rt call turn w = (s, w1)" by fastforce
  have m1: "moves w w1 A (insert (tc_id call) A)" by (rule start_call_moves [OF Cons.prems(1) s])
  obtain t w2 where t: "?q w1 = (t, w2)" by fastforce
  have m2: "moves w w2 A (insert (tc_id call) A)" using moves_trans [OF m1 quiet_moves [OF q moves_accepting [OF m1] t]] .
  have s': "s = Inr ()" by (rule start_call_ok [OF Cons.prems(1) s])
  show ?case
  proof (cases t)
    case (Inl e)
    obtain x w3 where x: "fail_call rt call turn e w2 = (x, w3)" by fastforce
    then have f: "moves w2 w3 (insert (tc_id call) A) (insert (tc_id call) A - {tc_id call})" "x = Inr ()"
      using fail_call_moves [OF moves_accepting [OF m2] x] by blast+
    have "(r, w') = (Inr (co\<lparr>co_error := Some e\<rparr>), w3)"
      using Cons.prems(2) s s' t Inl x f(2) by (simp add: act_bind_def [of "start_call rt call turn"] act_bind_def [of "fail_call rt call turn e"] act_return_def)
    then show ?thesis using moves_weaken [OF moves_trans [OF m2 f(1)], of A]
      by (intro exI [of _ "co\<lparr>co_error := Some e\<rparr>"] exI [of _ "[]"]) auto
  next
    case (Inr u)
    let ?co = "co\<lparr>co_futures := co_futures co @ [(i, call)]\<rparr>"
    have "start_calls rt bl sub turn n (Suc i) calls ?co w2 = (r, w')"
      using Cons.prems(2) s s' t Inr by (simp add: act_bind_def [of "start_call rt call turn"])
    from Cons.IH [OF moves_accepting [OF m2] this, of "insert (tc_id call) A"] obtain co' new where
      n: "r = Inr co'" "co_futures co' = co_futures co @ (i, call) # new" "co_observed co' = co_observed co"
        "moves w2 w' (insert (tc_id call) A) (insert (tc_id call) A \<union> future_ids new)" "distinct (map fst new)"
        "\<forall>j \<in> fst ` set new. Suc i \<le> j" by auto
    have "moves w w' A (A \<union> future_ids ((i, call) # new))" using moves_weaken [OF moves_trans [OF m2 n(4)]] by auto
    moreover have "distinct (map fst ((i, call) # new))" "\<forall>j \<in> fst ` set ((i, call) # new). i \<le> j"
      using n(5,6) by fastforce+
    ultimately show ?thesis using n(1-3) by blast
  qed
qed

lemma settle_moves:
  assumes "quiet_runtime rt ts" and "quiet_listeners bl" and "accepting (w_session w)"
    and "settle rt bl ts turn n i call co w = (x, co', w')"
  shows "x = None \<and> moves w w' A (A - {tc_id call}) \<and> co_observed co' = co_observed co @ [i]"
proof -
  obtain r w1 where r: "execute_call rt ts call w = (r, w1)" by fastforce
  have m1: "moves w w1 A A" by (rule quiet_moves [OF quiet_execute_call [OF assms(1)] assms(3) r])
  show ?thesis
  proof (cases r)
    case (Inl e)
    obtain y w2 where y: "fail_call rt call turn e w1 = (y, w2)" by fastforce
    have f: "moves w1 w2 A (A - {tc_id call})" "y = Inr ()"
      using fail_call_moves [OF moves_accepting [OF m1] y] by blast+
    show ?thesis using assms(4) r Inl y f(2) moves_trans [OF m1 f(1)] by (auto simp: settle_def Let_def first_error_def)
  next
    case (Inr result)
    obtain y w2 where y: "finish_call rt call result turn w1 = (y, w2)" by fastforce
    have f: "moves w1 w2 A (A - {tc_id call})" "y = Inr ()"
      using finish_call_moves [OF moves_accepting [OF m1] y] by blast+
    have m2: "moves w w2 A (A - {tc_id call})" by (rule moves_trans [OF m1 f(1)])
    obtain z w3 where z: "commit_normalized_result rt bl call result i n w2 = (z, w3)" by fastforce
    have "moves w w3 A (A - {tc_id call})"
      by (rule moves_trans [OF m2 quiet_moves [OF quiet_commit_result [OF assms(1,2)] moves_accepting [OF m2] z]])
    then show ?thesis using assms(4) r Inr y f(2) z by (auto simp: settle_def Let_def first_error_def act_bind_def split: sum.splits)
  qed
qed

lemma settle_all_moves:
  assumes "quiet_runtime rt ts" and "quiet_listeners bl"
  shows "accepting (w_session w) \<Longrightarrow> settle_all rt bl ts turn n fs co w = (x, co', w')
    \<Longrightarrow> x = None \<and> moves w w' A (A - future_ids fs) \<and> co_observed co' = co_observed co @ map fst fs"
proof (induction fs arbitrary: co w A)
  case Nil
  then show ?case by (simp add: moves_refl)
next
  case (Cons f fs)
  obtain i call where f: "f = (i, call)" by fastforce
  obtain y co1 w1 where y: "settle rt bl ts turn n i call co w = (y, co1, w1)" by (metis prod_cases3)
  from settle_moves [OF assms Cons.prems(1) y]
  have m: "y = None" "moves w w1 A (A - {tc_id call})" "co_observed co1 = co_observed co @ [i]" by auto
  have "settle_all rt bl ts turn n fs co1 w1 = (x, co', w')" using Cons.prems(2) f y m(1) by simp
  from Cons.IH [OF moves_accepting [OF m(2)] this, of "A - {tc_id call}"]
  show ?case using moves_weaken [OF moves_trans [OF m(2)], of w' "A - {tc_id call} - future_ids fs" "A - future_ids (f # fs)"] m(3) f
    by auto
qed

lemma execute_concurrently_moves:
  assumes "quiet_runtime rt ts" and "quiet_listeners bl" and "accepting (w_session w)"
    and "\<And>fs. set (fst (completes fs)) \<subseteq> set fs"
    and "execute_concurrently rt bl ts sub completes turn calls w = (r, w')"
  shows "moves w w' {} {}"
proof -
  let ?n = "length calls"
  let ?co0 = "\<lparr>co_futures = [], co_observed = [], co_done = [], co_error = None\<rparr>"
  obtain r0 w0 where s: "start_calls rt bl sub turn ?n 1 calls ?co0 w = (r0, w0)" by fastforce
  from start_calls_moves [OF assms(2,3) s, of "{}"] obtain co fs where
    co: "r0 = Inr co" "co_futures co = fs" "co_observed co = []" "moves w w0 {} (future_ids fs)" "distinct (map fst fs)" by auto
  obtain order stop where ord: "completes fs = (order, stop)" by fastforce
  then have sub: "set order \<subseteq> set fs" using assms(4) [of fs] by simp
  obtain x co1 w1 where a: "settle_all rt bl ts turn ?n order co w0 = (x, co1, w1)" by (metis prod_cases3)
  from settle_all_moves [OF assms(1,2) moves_accepting [OF co(4)] a, of "future_ids fs"]
  have m1: "x = None" "moves w0 w1 (future_ids fs) (future_ids fs - future_ids order)" "co_observed co1 = map fst order"
    using co(3) by auto
  let ?co2 = "case stop of None \<Rightarrow> co1 | Some e \<Rightarrow> first_error e co1"
  let ?left = "filter (\<lambda>(index, call). index \<notin> set (co_observed co1)) fs"
  obtain y co3 w2 where b: "settle_all rt bl ts turn ?n ?left ?co2 w1 = (y, co3, w2)" by (metis prod_cases3)
  from settle_all_moves [OF assms(1,2) moves_accepting [OF m1(2)] b, of "future_ids fs - future_ids order"]
  have m2: "y = None" "moves w1 w2 (future_ids fs - future_ids order) (future_ids fs - future_ids order - future_ids ?left)" by auto
  have "f \<in> set order \<or> f \<in> set ?left" if "f \<in> set fs" for f
  proof (cases "fst f \<in> set (map fst order)")
    case True
    then obtain g where "g \<in> set order" "fst g = fst f" by auto
    then show ?thesis using sub that co(5) by (metis eq_key_imp_eq_value prod.collapse subsetD)
  next
    case False
    then show ?thesis using that m1(3) by (auto simp: case_prod_beta)
  qed
  then have "future_ids fs - future_ids order - future_ids ?left \<subseteq> {}" by auto
  then have "moves w w2 {} {}" using moves_trans [OF co(4) moves_trans [OF m1(2) m2(2)]] moves_weaken by blast
  moreover have "w' = w2" using assms(5) s co(1,2) ord a m1(1) b m2(1)
    by (auto simp: execute_concurrently_def act_bind_def Let_def split: option.splits)
  ultimately show ?thesis by simp
qed

lemma quiet_after_batch:
  assumes "quiet_runtime rt ts" and "quiet_listeners bl"
  shows "quiet_act (after_batch rt bl ts completed)"
proof -
  have "quiet_act (commit_media_for rt bl rs b)" for rs b
  proof -
    have "quiet_act (act_bind (on_session rt (\<lambda>st. add_item st m atts src)) (\<lambda>_. bl_on_media bl atts b))" for m atts src
      using assms(2) by (auto simp: quiet_listeners_def intro!: quiet)
    then show ?thesis
      by (auto simp: quiet_act_def commit_media_for_def Let_def trail_def intro: exI [of _ "[]"])
  qed
  moreover have "quiet_act (post_hooks rt ts completed)"
    by (induction completed) (auto intro!: quiet quiet_run_hooks assms(1))
  ultimately show ?thesis
    by (auto simp: after_batch_def commit_media_def append_hook_feedback_def intro!: quiet)
qed

lemma bind_moves:
  assumes "act_bind m f w = (r, w')" and "\<And>r1 w1. m w = (r1, w1) \<Longrightarrow> moves w w1 A B" and "\<And>x. quiet_act (f x)"
  shows "moves w w' A B"
proof -
  obtain r1 w1 where m: "m w = (r1, w1)" by fastforce
  note m1 = assms(2) [OF m]
  show ?thesis
  proof (cases r1)
    case (Inl e)
    then show ?thesis using m1 m assms(1) by (simp add: act_bind_def)
  next
    case (Inr x)
    then have "f x w1 = (r, w')" using m assms(1) by (simp add: act_bind_def)
    from moves_trans [OF m1 quiet_moves [OF assms(3) moves_accepting [OF m1] this]] show ?thesis .
  qed
qed

lemma execute_batch_moves:
  assumes "quiet_runtime rt ts" and "quiet_listeners bl" and "accepting (w_session w)"
    and "\<And>fs. set (fst (completes fs)) \<subseteq> set fs"
    and "execute_batch rt bl ts submit_error completes turn_id calls w = (r, w')"
  shows "moves w w' {} {}"
proof (cases "is_concurrent_batch ts calls")
  case True
  then have "act_bind (execute_concurrently rt bl ts submit_error completes turn_id calls) (\<lambda>d.
      act_bind (act_res (collect_results (length calls) d)) (after_batch rt bl ts)) w = (r, w')"
    using assms(5) by (simp add: execute_batch_def)
  then show ?thesis
    by (rule bind_moves) (rule execute_concurrently_moves [OF assms(1-4)], auto intro!: quiet quiet_after_batch assms(1,2))
next
  case False
  then have "act_bind (execute_sequentially rt bl ts turn_id (length calls) 1 calls) (after_batch rt bl ts) w = (r, w')"
    using assms(5) by (simp add: execute_batch_def)
  then show ?thesis
    by (rule bind_moves) (auto intro!: quiet_after_batch execute_sequentially_moves assms(1-3))
qed

text \<open>C8. No call is left running. Whatever the tools, the hooks, the policy and the listeners do, return or
  raise, in whatever order the calls complete and wherever the coordinator is interrupted: when a batch is
  over, normally or with an exception, the journal has an end for every call that the batch started, as long as it
  accepts the events.\<close>

theorem no_call_left_running:
  assumes "quiet_runtime rt ts" and "quiet_listeners bl" and "accepting (w_session w)"
    and "\<And>fs. set (fst (completes fs)) \<subseteq> set fs"
    and "execute_batch rt bl ts submit_error completes turn_id calls w = (r, w')"
  shows "\<exists>es. ses_journal (w_session w') = ses_journal (w_session w) @ es \<and> open_calls es {} = {}"
  using execute_batch_moves [OF assms] by (auto simp: moves_def trail_def)

definition batch_tool :: "unit tool" where
  "batch_tool = demo_tool\<lparr>tl_concurrent := True, tl_execute := (\<lambda>_ _. act_raise AgentCancelled)\<rparr>"

definition batch_tools :: "unit toolset" where
  "batch_tools = mk_toolset [batch_tool] None None []"

definition silent_listeners :: "unit batch_listeners" where
  "silent_listeners = \<lparr>bl_on_call = (\<lambda>_ _ _. act_return ()), bl_on_result = (\<lambda>_ _ _. act_return ()), bl_on_media = (\<lambda>_ _. act_return ())\<rparr>"

lemma quiet_demo: "quiet_runtime demo_rt batch_tools" "quiet_listeners silent_listeners"
  by (auto simp: quiet_runtime_def quiet_listeners_def demo_rt_def batch_tools_def batch_tool_def demo_tool_def mk_toolset_def
      silent_listeners_def intro!: quiet)

theorem no_call_left_running_witness:
  "let w' = snd (execute_batch demo_rt silent_listeners batch_tools (\<lambda>_. None) (\<lambda>fs. (rev fs, None)) ''t''
       [demo_call, demo_call\<lparr>tc_id := ''other''\<rparr>] demo_world) in
     open_calls (ses_journal (w_session w')) {} = {}
     \<and> map ev_type (ses_journal (w_session w')) = [''tool_started'', ''tool_started'', ''tool_cancelled'', ''tool_cancelled'']
     \<and> map ev_tool_call_id (ses_journal (w_session w')) = map Some [tc_id demo_call, ''other'', ''other'', tc_id demo_call]"
proof -
  let ?run = "execute_batch demo_rt silent_listeners batch_tools (\<lambda>_. None) (\<lambda>fs. (rev fs, None)) ''t''
       [demo_call, demo_call\<lparr>tc_id := ''other''\<rparr>] demo_world"
  have acc: "accepting (w_session demo_world)" by (simp add: accepting_def demo_world_def new_session_def)
  have ord: "set (fst (rev fs, None)) \<subseteq> set fs" for fs :: "(nat \<times> tool_call) list" by simp
  have j: "ses_journal (w_session demo_world) = []" by (simp add: demo_world_def new_session_def)
  have o: "open_calls (ses_journal (w_session (snd ?run))) {} = {}"
    using no_call_left_running [OF quiet_demo acc ord, of "\<lambda>_. None" "''t''" "[demo_call, demo_call\<lparr>tc_id := ''other''\<rparr>]" "fst ?run" "snd ?run"] j
    by simp
  have "map ev_type (ses_journal (w_session (snd ?run))) = [''tool_started'', ''tool_started'', ''tool_cancelled'', ''tool_cancelled'']"
    by code_simp
  moreover have "map ev_tool_call_id (ses_journal (w_session (snd ?run))) = map Some [tc_id demo_call, ''other'', ''other'', tc_id demo_call]"
    by code_simp
  ultimately show ?thesis using o by (simp add: Let_def)
qed

end
