(* ===== verification/Tool_Result.thy ===== *)
theory Tool_Result
  imports Text_View Session_Store
begin

text \<open>
  The result of a tool as the model sees it (\<open>agent_core/tool_result.py\<close>): a result that fits the budget is
  passed on, any other one is written to a file of the Session and replaced by a summary that names the file.

  \<^item> \<open>spool\<close> is what a tool attaches to a large result: the function that writes its text to a file, the one
    that renders a preview within a budget, and the removal of its own temporary files.
  \<^item> A file that is opened for writing and written piece by piece is not replaced atomically: when a write
    fails, the first \<open>nz_torn\<close> bytes are on the disk.
  \<^item> \<open>pretty\<close> is \<open>json.dumps\<close> with an indentation.
\<close>

section \<open>The reading view\<close>

definition tool_result_to_content :: "json_lib \<Rightarrow> tool_result \<Rightarrow> string" where
  "tool_result_to_content lib r = jl_dumps lib (tool_result_data r)"

lemma size_enumerate [termination_simp]:
  assumes "(i, v) \<in> set (enumerate n vs)"
  shows "size v < Suc (Suc (k + size_list size vs))"
proof -
  have "v \<in> set vs" using assms by (metis enumerate_eq_zip in_set_zipE)
  then have "size v \<le> size_list size vs" by (rule size_list_estimation') simp
  then show ?thesis by simp
qed

fun artifact_sections :: "json_lib \<Rightarrow> string \<Rightarrow> json \<Rightarrow> string list" where
  "artifact_sections lib path (JObj (kv # kvs)) =
     concat (map (\<lambda>(k, v). artifact_sections lib (path @ ''['' @ jl_dumps lib (JStr k) @ '']'') v) (kv # kvs))"
| "artifact_sections lib path (JList (x # xs)) =
     concat (map (\<lambda>(i, v). artifact_sections lib (path @ ''['' @ nat_str i @ '']'') v) (enumerate 0 (x # xs)))"
| "artifact_sections lib path (JStr s) = [''--- '' @ path @ '' (text) ---'' @ [LF] @ s]"
| "artifact_sections lib path v = [''--- '' @ path @ '' (json) ---'' @ [LF] @ jl_dumps lib v]"

definition artifact_body :: "json_lib \<Rightarrow> (json \<Rightarrow> string) \<Rightarrow> tool_result \<Rightarrow> string" where
  "artifact_body lib pretty r =
     (case tr_error r of
        Some e \<Rightarrow> ''Tool '' @ quoted (tr_name r) @ '' failed.'' @ [LF] @ ''error_type: '' @ te_type e @ [LF, LF] @ te_message e
          @ (case te_details e of None \<Rightarrow> [] | Some d \<Rightarrow> [LF, LF] @ pretty (JObj d))
      | None \<Rightarrow> (case tr_output r of JStr s \<Rightarrow> s | v \<Rightarrow> py_join [LF, LF] (artifact_sections lib ''$'' v)))"

section \<open>The normalizer\<close>

definition DEFAULT_TOOL_RESULT_PREVIEW_CHARS :: nat where "DEFAULT_TOOL_RESULT_PREVIEW_CHARS = 1200"

record normalizer =
  nz_max_chars :: nat
  nz_preview_chars :: nat
  nz_sessions :: path
  nz_directory :: path
  nz_prefix :: path
  nz_torn :: nat

definition outside_sessions :: exn where
  "outside_sessions = ValueError ''session artifact path must stay within sessions''"

text \<open>The constructor. The Session's directory is the default; \<open>abspath\<close> resolves the path of the workspace.\<close>

definition mk_normalizer :: "host \<Rightarrow> (string \<Rightarrow> string) \<Rightarrow> string \<Rightarrow> string \<Rightarrow> int \<Rightarrow> int \<Rightarrow> path \<Rightarrow> path option \<Rightarrow> nat
    \<Rightarrow> normalizer res" where
  "mk_normalizer h abspath ws sid max_chars preview_chars sessions artifact_directory torn =
     (if max_chars < 1 then Inl (ValueError ''max_chars must be a positive integer'')
      else if preview_chars < 1 then Inl (ValueError ''preview_chars must be a positive integer'')
      else
        res_bind (h_realpath h sessions) (\<lambda>sessions.
        res_bind (session_directory abspath ws sid) (\<lambda>(key, sid).
        res_bind (h_realpath h (case artifact_directory of None \<Rightarrow> sessions @ [key, sid] | Some d \<Rightarrow> d)) (\<lambda>directory.
          case relative_to_root directory sessions of
            Inl _ \<Rightarrow> Inl outside_sessions
          | Inr relative \<Rightarrow>
              Inr \<lparr>nz_max_chars = nat max_chars, nz_preview_chars = nat preview_chars, nz_sessions = sessions,
                nz_directory = directory, nz_prefix = SESSION_MARKER @ relative, nz_torn = torn\<rparr>))))"

definition artifact_name :: "string \<Rightarrow> string" where
  "artifact_name call_id = concat (map quote_byte (utf8_encode call_id))"

definition absolute_artifact_path :: "host \<Rightarrow> normalizer \<Rightarrow> string \<Rightarrow> path res" where
  "absolute_artifact_path h nz name =
     res_bind (h_realpath h (nz_directory nz @ [name])) (\<lambda>p.
       case relative_to_root p (nz_sessions nz) of Inl _ \<Rightarrow> Inl outside_sessions | Inr _ \<Rightarrow> Inr p)"

text \<open>\<open>path.open("w")\<close> and the writes to the file: it keeps its permission bits, a new file has those of the
  process (octal 644).\<close>

definition write_plain :: "host \<Rightarrow> nat \<Rightarrow> files \<Rightarrow> path \<Rightarrow> string \<Rightarrow> files outcome" where
  "write_plain h torn fs p data =
     (case h_fault h ''open'' p of
        Some e \<Rightarrow> (fs, Some (OSError e))
      | None \<Rightarrow>
          if node_at fs p = Some DirNode then (fs, Some (OSError ''IsADirectoryError''))
          else if node_at fs (butlast p) \<noteq> Some DirNode then (fs, Some (OSError ''FileNotFoundError''))
          else
            (let mode = (case node_at fs p of Some (FileNode m _) \<Rightarrow> m | _ \<Rightarrow> 420) in
             case h_fault h ''write'' p of
               Some e \<Rightarrow> (AList.update p (FileNode mode (take torn data)) fs, Some (OSError e))
             | None \<Rightarrow> (AList.update p (FileNode mode data) fs, None)))"

record spool =
  sp_writer :: "(path \<Rightarrow> files \<Rightarrow> files outcome) option"
  sp_preview :: "(int \<Rightarrow> json res) option"
  sp_cleanup :: "(files \<Rightarrow> files outcome) option"

text \<open>\<open>try: m finally: f\<close> on the files.\<close>

definition fs_finally :: "files \<times> 'a res \<Rightarrow> (files \<Rightarrow> files outcome) \<Rightarrow> files \<times> 'a res" where
  "fs_finally m f = (case m of (fs, r) \<Rightarrow> (case f fs of (fs', Some e) \<Rightarrow> (fs', Inl e) | (fs', None) \<Rightarrow> (fs', r)))"

definition run_cleanup :: "spool \<Rightarrow> files \<Rightarrow> files outcome" where
  "run_cleanup sp fs = (case sp_cleanup sp of None \<Rightarrow> (fs, None) | Some f \<Rightarrow> f fs)"

definition unlink_missing_ok :: "host \<Rightarrow> path \<Rightarrow> files \<Rightarrow> files outcome" where
  "unlink_missing_ok h p fs = (if node_at fs p = None then (fs, None) else unlink_file h fs p)"

text \<open>\<open>path.with_suffix\<close>: the last component loses what stands behind its last dot, unless that is all of it or
  nothing.\<close>

definition with_suffix :: "path \<Rightarrow> string \<Rightarrow> path" where
  "with_suffix p new =
     (let name = last p;
          tail = takeWhile (\<lambda>c. c \<noteq> CHR ''.'') (rev name);
          stem = take (length name - length tail - 1) name
      in butlast p @ [(if CHR ''.'' \<in> set name \<and> tail \<noteq> [] \<and> stem \<noteq> [] then stem else name) @ new])"

text \<open>What a decoder has delivered before it meets a byte that it refuses.\<close>

fun decoded_part :: "string \<Rightarrow> string" where
  "decoded_part bytes =
     (case utf8_decode bytes of Inr text \<Rightarrow> text | Inl _ \<Rightarrow> if bytes = [] then [] else decoded_part (butlast bytes))"

declare decoded_part.simps [simp del]

text \<open>The reading view is written from the tool's own stream or from the body; the number of characters is
  returned. A stream that is not UTF-8 leaves a view that is torn.\<close>

definition save_view :: "host \<Rightarrow> normalizer \<Rightarrow> path \<Rightarrow> string \<Rightarrow> files \<Rightarrow> files \<times> nat res" where
  "save_view h nz p source fs =
     (case write_text_artifact (universal_newlines source) of
        (text, chars) \<Rightarrow> after_change (write_plain h (nz_torn nz) fs p (utf8_encode text)) (\<lambda>fs'. (fs', Inr chars)))"

definition tear_view :: "host \<Rightarrow> normalizer \<Rightarrow> path \<Rightarrow> string \<Rightarrow> exn \<Rightarrow> files \<Rightarrow> files \<times> nat res" where
  "tear_view h nz p bytes e fs =
     (let view = fst (write_text_artifact (universal_newlines (decoded_part bytes))) in
      after_change (write_plain h (nz_torn nz) fs p (take (nz_torn nz) (utf8_encode view))) (\<lambda>fs'. (fs', Inl e)))"

definition save_spooled :: "host \<Rightarrow> normalizer \<Rightarrow> (path \<Rightarrow> files \<Rightarrow> files outcome) \<Rightarrow> path \<Rightarrow> files \<Rightarrow> files \<times> nat res" where
  "save_spooled h nz writer p fs =
     (let source = with_suffix p ''.source'' in
      fs_finally
        (after_change (writer source fs) (\<lambda>fs1.
           try_val fs1 (read_bytes h fs1 source) (\<lambda>bytes.
             case utf8_decode bytes of
               Inr text \<Rightarrow> save_view h nz p text fs1
             | Inl e \<Rightarrow> tear_view h nz p bytes e fs1)))
        (unlink_missing_ok h source))"

definition read_instruction :: "string \<Rightarrow> string" where
  "read_instruction path =
     ''Use read_file with path '' @ quoted path @ '' to read the complete tool result. It is a reading view with long lines split; ''
     @ ''page through it with '' @ quoted ''offset'' @ '' when one read does not reach the end.''"

definition spill_summary :: "string \<Rightarrow> nat \<Rightarrow> json \<Rightarrow> json" where
  "spill_summary path chars preview =
     JObj [(''artifact_path'', JStr path), (''size_chars'', JInt (int chars)), (''preview'', preview),
       (''read_instruction'', JStr (read_instruction path))]"

definition render_summary :: "json_lib \<Rightarrow> (json \<Rightarrow> string) \<Rightarrow> normalizer \<Rightarrow> spool \<Rightarrow> tool_result \<Rightarrow> string \<Rightarrow> nat \<Rightarrow> string res" where
  "render_summary lib pretty nz sp r path chars =
     (case sp_preview sp of
        Some preview \<Rightarrow>
          (let budget = int (nz_max_chars nz) - int (length (jl_dumps lib (spill_summary path chars JNull))) + 4 in
           res_bind (preview budget) (\<lambda>v.
             let normalized = jl_dumps lib (spill_summary path chars v) in
             if length normalized > nz_max_chars nz
             then Inl (ValueError (''artifact_preview for tool '' @ quoted (tr_name r) @ '' exceeds its JSON budget: serialized preview has ''
               @ nat_str (length (jl_dumps lib v)) @ '' characters, allowed '' @ int_str budget @ ''; normalized result has ''
               @ nat_str (length normalized) @ '' characters, limit '' @ nat_str (nz_max_chars nz)))
             else Inr normalized))
      | None \<Rightarrow> Inr (jl_dumps lib (spill_summary path chars (JStr (take (nz_preview_chars nz) (artifact_body lib pretty r))))))"

definition normalize_result :: "json_lib \<Rightarrow> (json \<Rightarrow> string) \<Rightarrow> host \<Rightarrow> normalizer \<Rightarrow> tool_result \<Rightarrow> spool \<Rightarrow> files \<Rightarrow> files \<times> string res" where
  "normalize_result lib pretty h nz r sp fs =
     (let content = tool_result_to_content lib r; name = artifact_name (tr_tool_call_id r) in
      if sp_writer sp = None \<and> length content \<le> nz_max_chars nz
      then after_change (run_cleanup sp fs) (\<lambda>fs'. (fs', Inr content))
      else fs_finally
        (try_val fs (absolute_artifact_path h nz (name @ ''.txt'')) (\<lambda>p.
           after_change (mkdir_parents h fs (butlast p)) (\<lambda>fs1.
             case (case sp_writer sp of
                 Some writer \<Rightarrow> save_spooled h nz writer p fs1
               | None \<Rightarrow> save_view h nz p (artifact_body lib pretty r) fs1) of
               (fs2, saved) \<Rightarrow>
                 (fs2, res_bind saved (render_summary lib pretty nz sp r (as_posix (nz_prefix nz @ [name @ ''.txt''])))))))
        (run_cleanup sp))"

section \<open>What reaches the model fits the budget\<close>

text \<open>What \<open>json.dumps\<close> documents of the size of its output with the default separators: an object is its
  members behind their quoted names, joined by a comma and a blank.\<close>

definition dumps_sized :: "json_lib \<Rightarrow> bool" where
  "dumps_sized lib \<longleftrightarrow>
     (\<forall>d. length (jl_dumps lib (JObj d))
        = 2 + sum_list (map (\<lambda>(k, v). escaped_length k + 4 + length (jl_dumps lib v)) d) + 2 * (length d - 1))
     \<and> (\<forall>s. length (jl_dumps lib (JStr s)) = 2 + escaped_length s) \<and> (\<forall>n. length (jl_dumps lib (JInt (int n))) = length (nat_str n))"

lemma read_instruction_size: "escaped_length (read_instruction path) = escaped_length path + 172"
  by (simp add: read_instruction_def quoted_def escape_cost_def)

lemma spill_summary_size:
  assumes "dumps_sized lib"
  shows "length (jl_dumps lib (spill_summary path chars (JStr b)))
    = 2 * escaped_length path + length (nat_str chars) + escaped_length b + 248"
proof -
  have s: "length (jl_dumps lib (JStr t)) = 2 + escaped_length t" for t using assms by (simp add: dumps_sized_def)
  have n: "length (jl_dumps lib (JInt (int chars))) = length (nat_str chars)" using assms by (simp add: dumps_sized_def)
  have o: "length (jl_dumps lib (JObj d)) = 2 + sum_list (map (\<lambda>(k, v). escaped_length k + 4 + length (jl_dumps lib v)) d)
      + 2 * (length d - 1)" for d using assms by (simp add: dumps_sized_def)
  show ?thesis unfolding spill_summary_def o by (simp add: s n read_instruction_size escape_cost_def)
qed

lemma save_view_chars: "save_view h nz p source fs = (fs', Inr chars) \<Longrightarrow> chars = snd (write_text_artifact (universal_newlines source))"
  by (auto simp: save_view_def after_change_def split: prod.splits option.splits)

lemma fs_finally_Inr: "fs_finally m f = (fs', Inr x) \<Longrightarrow> \<exists>fs1. m = (fs1, Inr x)"
  by (auto simp: fs_finally_def split: prod.splits option.splits)

lemma normalize_cases:
  assumes "normalize_result lib pretty h nz r sp fs = (fs', Inr text)"
  obtains (inline) "sp_writer sp = None" "text = tool_result_to_content lib r" "length text \<le> nz_max_chars nz"
  | (spilled) p fs1 fs2 chars where "\<not> (sp_writer sp = None \<and> length (tool_result_to_content lib r) \<le> nz_max_chars nz)"
      "absolute_artifact_path h nz (artifact_name (tr_tool_call_id r) @ ''.txt'') = Inr p" "mkdir_parents h fs (butlast p) = (fs1, None)"
      "(case sp_writer sp of Some writer \<Rightarrow> save_spooled h nz writer p fs1
          | None \<Rightarrow> save_view h nz p (artifact_body lib pretty r) fs1) = (fs2, Inr chars)"
      "render_summary lib pretty nz sp r (as_posix (nz_prefix nz @ [artifact_name (tr_tool_call_id r) @ ''.txt''])) chars = Inr text"
      "run_cleanup sp fs2 = (fs', None)"
proof (cases "sp_writer sp = None \<and> length (tool_result_to_content lib r) \<le> nz_max_chars nz")
  case True
  then show thesis using assms inline by (auto simp: normalize_result_def Let_def elim!: after_change_cases)
next
  case False
  define name where "name = artifact_name (tr_tool_call_id r)"
  define shown where "shown = as_posix (nz_prefix nz @ [name @ ''.txt''])"
  define save where "save = (\<lambda>p fs1. case sp_writer sp of Some writer \<Rightarrow> save_spooled h nz writer p fs1
      | None \<Rightarrow> save_view h nz p (artifact_body lib pretty r) fs1)"
  define body where "body = try_val fs (absolute_artifact_path h nz (name @ ''.txt'')) (\<lambda>p. after_change (mkdir_parents h fs (butlast p))
      (\<lambda>fs1. case save p fs1 of (fs2, saved) \<Rightarrow> (fs2, res_bind saved (render_summary lib pretty nz sp r shown))))"
  have f: "fs_finally body (run_cleanup sp) = (fs', Inr text)"
    using assms False unfolding normalize_result_def Let_def body_def save_def shown_def name_def by (simp only: if_False)
  then obtain fs2 where b: "body = (fs2, Inr text)" using fs_finally_Inr by metis
  have c: "run_cleanup sp fs2 = (fs', None)" using f unfolding b fs_finally_def by (auto split: prod.splits option.splits)
  obtain p where p: "absolute_artifact_path h nz (name @ ''.txt'') = Inr p"
    and b1: "after_change (mkdir_parents h fs (butlast p)) (\<lambda>fs1. case save p fs1 of (fs2, saved) \<Rightarrow>
        (fs2, res_bind saved (render_summary lib pretty nz sp r shown))) = (fs2, Inr text)"
    using b unfolding body_def by (rule try_val_cases) auto
  obtain fs1 where m: "mkdir_parents h fs (butlast p) = (fs1, None)"
    and b2: "(case save p fs1 of (fs2, saved) \<Rightarrow> (fs2, res_bind saved (render_summary lib pretty nz sp r shown))) = (fs2, Inr text)"
    using b1 by (rule after_change_cases) auto
  obtain chars where "save p fs1 = (fs2, Inr chars)" "render_summary lib pretty nz sp r shown chars = Inr text"
    using b2 by (cases "save p fs1") auto
  then show thesis using spilled [OF False] p m c unfolding save_def shown_def name_def by blast
qed

text \<open>C25. What a tool returns never floods the context. Whatever a tool returns, the text that stands for it in the
  history is at most \<open>MAX_TOOL_RESULT_CHARS\<close> long: the result itself, or the summary of the file it was
  spilled to. A result that is written by the tool's own writer comes with the tool's own preview.\<close>

theorem normalized_result_fits:
  assumes "dumps_sized lib" and "nz_max_chars nz = MAX_TOOL_RESULT_CHARS" and "nz_preview_chars nz = DEFAULT_TOOL_RESULT_PREVIEW_CHARS"
    and "escaped_length (as_posix (nz_prefix nz @ [artifact_name (tr_tool_call_id r) @ ''.txt''])) \<le> 10000"
    and "snd (write_text_artifact (universal_newlines (artifact_body lib pretty r))) < 10 ^ 100"
    and "sp_preview sp = None \<Longrightarrow> sp_writer sp = None"
    and "normalize_result lib pretty h nz r sp fs = (fs', Inr text)"
  shows "length text \<le> MAX_TOOL_RESULT_CHARS"
  using assms(7)
proof (cases rule: normalize_cases)
  case inline
  then show ?thesis using assms(2) by simp
next
  case (spilled p fs1 fs2 chars)
  show ?thesis
  proof (cases "sp_preview sp")
    case (Some preview)
    then show ?thesis using spilled(5) assms(2)
      by (auto simp: render_summary_def Let_def res_bind_Inr_iff split: if_splits)
  next
    case None
    let ?path = "as_posix (nz_prefix nz @ [artifact_name (tr_tool_call_id r) @ ''.txt''])"
    let ?b = "take (nz_preview_chars nz) (artifact_body lib pretty r)"
    have "chars = snd (write_text_artifact (universal_newlines (artifact_body lib pretty r)))"
      using spilled(4) assms(6) [OF None] by (auto intro: save_view_chars)
    then have n: "length (nat_str chars) \<le> 100" using nat_str_length [of chars 99] assms(5) by simp
    have b: "escaped_length ?b \<le> 7200"
      using escaped_length_bound [of ?b] assms(3) by (simp add: DEFAULT_TOOL_RESULT_PREVIEW_CHARS_def)
    have t: "text = jl_dumps lib (spill_summary ?path chars (JStr ?b))" using spilled(5) None by (simp add: render_summary_def)
    have "length text = 2 * escaped_length ?path + length (nat_str chars) + escaped_length ?b + 248"
      unfolding t by (rule spill_summary_size [OF assms(1)])
    then show ?thesis using n b assms(4) by (simp add: MAX_TOOL_RESULT_CHARS_def)
  qed
qed

section \<open>A spilled result can be found\<close>

lemma hex_char_no_slash:
  assumes "n < 16"
  shows "hex_char n \<noteq> CHR ''/''"
proof
  assume h: "hex_char n = CHR ''/''"
  have "of_char (hex_char n) = (if n < 10 then 48 + n else 55 + n)" using assms by (simp add: hex_char_def of_char_of)
  then show False unfolding h by (simp split: if_splits)
qed

lemma quote_byte_no_slash: "CHR ''/'' \<notin> set (quote_byte b)"
proof -
  have "(of_char b :: nat) = of_char b mod 256" by simp
  then have "(of_char b :: nat) < 256" by (metis mod_less_divisor zero_less_numeral)
  then have "(of_char b :: nat) div 16 < 16" "(of_char b :: nat) mod 16 < 16" by (auto intro: less_mult_imp_div_less)
  then have "hex_char (of_char b div 16) \<noteq> CHR ''/''" "hex_char (of_char b mod 16) \<noteq> CHR ''/''"
    using hex_char_no_slash by blast+
  then show ?thesis by (auto simp: quote_byte_def unreserved_def Let_def)
qed

lemma write_text_artifact_spec:
  assumes "write_text_artifact src = (out, chars)"
  shows "breaks_added src out \<and> chars = length out"
proof -
  obtain c rest where r: "readline (Suc MAX_ARTIFACT_LINE_CHARS) src = (c, rest)" by fastforce
  then have out: "out = artifact_loop c rest" "chars = length out" using assms by (auto simp: write_text_artifact_def Let_def)
  have "src = c @ rest" using readline_append [of "Suc MAX_ARTIFACT_LINE_CHARS" src] r by simp
  then show ?thesis using artifact_loop_spec [OF chunk_ok_readline [OF r]] out by simp
qed

lemma artifact_name_clean: "clean_segment (artifact_name i @ ''.txt'')"
proof -
  have "CHR ''/'' \<notin> set (artifact_name i)" using quote_byte_no_slash by (auto simp: artifact_name_def)
  then show ?thesis by (auto simp: clean_segment_def append_eq_Cons_conv)
qed

lemma absolute_artifact_path_cases:
  assumes "absolute_artifact_path h nz name = Inr p"
  shows "h_realpath h (nz_directory nz @ [name]) = Inr p \<and> is_ok (relative_to_root p (nz_sessions nz))"
proof (cases "h_realpath h (nz_directory nz @ [name])")
  case (Inr q)
  then show ?thesis using assms
    by (cases "relative_to_root q (nz_sessions nz)") (auto simp: absolute_artifact_path_def is_ok_iff)
qed (use assms in \<open>simp add: absolute_artifact_path_def\<close>)

lemma save_view_wrote:
  assumes "save_view h nz p source fs = (fs', Inr chars)" and "files_ok fs"
  obtains m out where "write_text_artifact (universal_newlines source) = (out, chars)"
    "fs' = AList.update p (FileNode m (utf8_encode out)) fs" "p \<noteq> []"
proof -
  obtain out n where w: "write_text_artifact (universal_newlines source) = (out, n)" by fastforce
  then obtain "write_plain h (nz_torn nz) fs p (utf8_encode out) = (fs', None)" "n = chars"
    using assms(1) by (auto simp: save_view_def elim!: after_change_cases)
  moreover from this obtain m where "fs' = AList.update p (FileNode m (utf8_encode out)) fs" "node_at fs p \<noteq> Some DirNode"
    by (auto simp: write_plain_def Let_def split: option.splits if_splits)
  moreover from this have "p \<noteq> []" using assms(2) by (auto simp: files_ok_def)
  ultimately show thesis using that [of out m] w by simp
qed

lemma mk_normalizer_cases:
  assumes "mk_normalizer h abspath ws sid max_chars preview_chars sessions directory torn = Inr nz"
  obtains d relative where "h_realpath h sessions = Inr (nz_sessions nz)" "h_realpath h d = Inr (nz_directory nz)"
    "relative_to_root (nz_directory nz) (nz_sessions nz) = Inr relative" "nz_prefix nz = SESSION_MARKER @ relative"
proof -
  obtain s key i where s: "h_realpath h sessions = Inr s" "session_directory abspath ws sid = Inr (key, i)"
    using assms by (auto simp: mk_normalizer_def res_bind_Inr_iff split: if_splits prod.splits)
  define d where "d = (case directory of None \<Rightarrow> s @ [key, i] | Some d \<Rightarrow> d)"
  obtain r where r: "h_realpath h d = Inr r"
    using assms s by (auto simp: mk_normalizer_def res_bind_Inr_iff d_def split: if_splits)
  obtain relative where rel: "relative_to_root r s = Inr relative"
    using assms s r by (cases "relative_to_root r s") (auto simp: mk_normalizer_def d_def [symmetric] split: if_splits)
  then show thesis using that [of d relative] assms s r by (auto simp: mk_normalizer_def d_def [symmetric] split: if_splits)
qed


definition demo_tool_result :: tool_result where
  "demo_tool_result = \<lparr>tr_tool_call_id = ''c/1'', tr_name = ''t'', tr_output = JStr ''ab'', tr_error = None, tr_attachments = [],
     tr_present_to_user = False, tr_executed = True, tr_hook_feedback = []\<rparr>"

definition demo_plain_lib :: json_lib where
  "demo_plain_lib = \<lparr>jl_dumps = (\<lambda>_. ''{}''), jl_loads = (\<lambda>_. None)\<rparr>"

definition demo_normalizer :: normalizer where
  "demo_normalizer = \<lparr>nz_max_chars = 1, nz_preview_chars = 1, nz_sessions = [''n''], nz_directory = [''n'', ''w'', ''s1''],
     nz_prefix = [''.nosis'', ''sessions'', ''w'', ''s1''], nz_torn = 0\<rparr>"

definition no_spool :: spool where
  "no_spool = \<lparr>sp_writer = None, sp_preview = None, sp_cleanup = None\<rparr>"

definition demo_spilled :: files where
  "demo_spilled = fst (mkdir_parents demo_host demo_files [''n'', ''w'', ''s1''])"

lemma demo_artifact: "write_text_artifact ''ab'' = (''ab'', 2)"
  by (simp add: write_text_artifact_def artifact_loop.simps MAX_ARTIFACT_LINE_CHARS_def MAX_TOOL_RESULT_CHARS_def)

lemma demo_normalize:
  "normalize_result demo_plain_lib (\<lambda>_. []) demo_host demo_normalizer demo_tool_result no_spool demo_files
     = (AList.update [''n'', ''w'', ''s1'', ''c%2F1.txt''] (FileNode 420 ''ab'') demo_spilled, Inr ''{}'')"
proof -
  have p: "absolute_artifact_path demo_host demo_normalizer ''c%2F1.txt'' = Inr [''n'', ''w'', ''s1'', ''c%2F1.txt'']" by code_simp
  have n: "artifact_name (tr_tool_call_id demo_tool_result) = ''c%2F1''" by code_simp
  have m: "mkdir_parents demo_host demo_files [''n'', ''w'', ''s1''] = (demo_spilled, None)" by code_simp
  have b: "universal_newlines (artifact_body demo_plain_lib (\<lambda>_. []) demo_tool_result) = ''ab''" by code_simp
  have w: "write_plain demo_host 0 demo_spilled [''n'', ''w'', ''s1'', ''c%2F1.txt''] (utf8_encode ''ab'')
      = (AList.update [''n'', ''w'', ''s1'', ''c%2F1.txt''] (FileNode 420 ''ab'') demo_spilled, None)" by code_simp
  have v: "save_view demo_host demo_normalizer [''n'', ''w'', ''s1'', ''c%2F1.txt''] (artifact_body demo_plain_lib (\<lambda>_. []) demo_tool_result) demo_spilled
      = (AList.update [''n'', ''w'', ''s1'', ''c%2F1.txt''] (FileNode 420 ''ab'') demo_spilled, Inr 2)"
    using w by (simp add: save_view_def b demo_artifact after_change_def demo_normalizer_def)
  show ?thesis using p m v
    by (simp add: normalize_result_def n Let_def no_spool_def fs_finally_def try_val_def after_change_def run_cleanup_def render_summary_def
        tool_result_to_content_def demo_plain_lib_def demo_normalizer_def)
qed


text \<open>A library of the documented sizes, and a tool that writes its own source and renders its own preview.\<close>

fun json_size :: "json \<Rightarrow> nat" where
  "json_size (JObj d) = 2 + sum_list (map (\<lambda>(k, v). escaped_length k + 4 + json_size v) d) + 2 * (length d - 1)"
| "json_size (JStr s) = 2 + escaped_length s"
| "json_size (JInt i) = length (nat_str (nat i))"
| "json_size v = 4"

definition demo_measured_lib :: json_lib where
  "demo_measured_lib = \<lparr>jl_dumps = (\<lambda>j. replicate (json_size j) (CHR ''x'')), jl_loads = (\<lambda>_. None)\<rparr>"

lemma demo_measured_lib_sized: "dumps_sized demo_measured_lib"
  by (simp add: dumps_sized_def demo_measured_lib_def case_prod_unfold)

definition demo_wide_normalizer :: normalizer where
  "demo_wide_normalizer = demo_normalizer\<lparr>nz_max_chars := MAX_TOOL_RESULT_CHARS, nz_preview_chars := DEFAULT_TOOL_RESULT_PREVIEW_CHARS\<rparr>"

definition demo_spool :: spool where
  "demo_spool = \<lparr>sp_writer = Some (\<lambda>p fs. (AList.update p (FileNode 420 ''ab'') fs, None)), sp_preview = Some (\<lambda>_. Inr JNull), sp_cleanup = None\<rparr>"

lemma demo_save_spooled:
  "save_spooled demo_host demo_wide_normalizer (\<lambda>p fs. (AList.update p (FileNode 420 ''ab'') fs, None)) [''n'', ''w'', ''s1'', ''c%2F1.txt''] demo_spilled
     = (AList.update [''n'', ''w'', ''s1'', ''c%2F1.txt''] (FileNode 420 ''ab'') demo_spilled, Inr 2)"
proof -
  let ?src = "[''n'', ''w'', ''s1'', ''c%2F1.source'']" and ?p = "[''n'', ''w'', ''s1'', ''c%2F1.txt'']"
  let ?fs1 = "AList.update ?src (FileNode 420 ''ab'') demo_spilled"
  let ?fs2 = "AList.update ?p (FileNode 420 ''ab'') ?fs1"
  have s: "with_suffix ?p ''.source'' = ?src" by code_simp
  have r: "read_bytes demo_host ?fs1 ?src = Inr ''ab''" "utf8_decode ''ab'' = Inr ''ab''" "universal_newlines ''ab'' = ''ab''" by code_simp+
  have "write_plain demo_host 0 ?fs1 ?p (utf8_encode ''ab'') = (?fs2, None)" by code_simp
  then have v: "save_view demo_host demo_wide_normalizer ?p ''ab'' ?fs1 = (?fs2, Inr 2)"
    by (simp add: save_view_def r(3) demo_artifact after_change_def demo_wide_normalizer_def demo_normalizer_def)
  have u: "unlink_missing_ok demo_host ?src ?fs2 = (AList.update ?p (FileNode 420 ''ab'') demo_spilled, None)" by code_simp
  show ?thesis unfolding save_spooled_def s Let_def using r(1,2) v u by (simp add: fs_finally_def after_change_def try_val_def)
qed

theorem normalized_result_fits_witness:
  "\<exists>fs' text. normalize_result demo_measured_lib (\<lambda>_. []) demo_host demo_wide_normalizer demo_tool_result demo_spool demo_files = (fs', Inr text)
     \<and> length text \<le> MAX_TOOL_RESULT_CHARS"
proof -
  let ?f = "as_posix (nz_prefix demo_wide_normalizer @ [artifact_name (tr_tool_call_id demo_tool_result) @ ''.txt''])"
  have p: "absolute_artifact_path demo_host demo_wide_normalizer ''c%2F1.txt'' = Inr [''n'', ''w'', ''s1'', ''c%2F1.txt'']"
    by (simp add: absolute_artifact_path_def demo_wide_normalizer_def demo_normalizer_def demo_host_def clean_segment_def
        relative_to_root_def relative_to_def)
  have n: "artifact_name (tr_tool_call_id demo_tool_result) = ''c%2F1''" by code_simp
  have f: "?f = ''.nosis/sessions/w/s1/c%2F1.txt''"
    unfolding n by (simp add: demo_wide_normalizer_def demo_normalizer_def as_posix_def)
  have m: "mkdir_parents demo_host demo_files [''n'', ''w'', ''s1''] = (demo_spilled, None)" by code_simp
  have e: "escaped_length ''.nosis/sessions/w/s1/c%2F1.txt'' = 30" by code_simp
  have "length (jl_dumps demo_measured_lib (spill_summary ?f 2 JNull)) \<le> MAX_TOOL_RESULT_CHARS"
    unfolding f using nat_str_length [of 2 0]
    by (simp add: demo_measured_lib_def spill_summary_def e read_instruction_size MAX_TOOL_RESULT_CHARS_def escape_cost_def)
  then obtain out where t: "render_summary demo_measured_lib (\<lambda>_. []) demo_wide_normalizer demo_spool demo_tool_result ?f 2 = Inr out"
    by (simp add: render_summary_def demo_spool_def Let_def demo_wide_normalizer_def)
  have w: "sp_writer demo_spool = Some (\<lambda>p fs. (AList.update p (FileNode 420 ''ab'') fs, None))" "sp_cleanup demo_spool = None"
    by (simp_all add: demo_spool_def)
  obtain fs' where r: "normalize_result demo_measured_lib (\<lambda>_. []) demo_host demo_wide_normalizer demo_tool_result demo_spool demo_files = (fs', Inr out)"
    using p m t by (simp add: normalize_result_def n w Let_def fs_finally_def try_val_def after_change_def run_cleanup_def demo_save_spooled)
  moreover have "length out \<le> MAX_TOOL_RESULT_CHARS"
  proof (rule normalized_result_fits [OF demo_measured_lib_sized _ _ _ _ _ r])
    have "universal_newlines (artifact_body demo_measured_lib (\<lambda>_. []) demo_tool_result) = ''ab''" by code_simp
    then show "snd (write_text_artifact (universal_newlines (artifact_body demo_measured_lib (\<lambda>_. []) demo_tool_result))) < 10 ^ 100"
      by (simp add: demo_artifact)
    show "escaped_length ?f \<le> 10000" unfolding f e by simp
  qed (simp_all add: demo_wide_normalizer_def demo_spool_def)
  ultimately show ?thesis by blast
qed

end
