(* ===== verification/Agent_Loop.thy ===== *)
theory Agent_Loop
  imports Tool_Batch Turn_Control Context_Manager Tool_Result
begin

text \<open>
  The loop of an Agent over one turn (\<open>agent_core/agent.py\<close>): it composes the Session, the context manager,
  the hooks, the tool batches, the background jobs and the control of the turn.

  \<^item> The rest of the world holds the turn control and the job manager; the job manager works on the Session
    of the world. The loop runs in the monad of the continuation policy, whose state is the world, the
    repetition guard and the number of corrections a \<open>Stop\<close> hook has asked for.
  \<^item> Parameters (\<open>agent\<close>): the provider's answers, the text deltas of which go to the display; the context
    manager's view of the clock; the listener, which may raise; what other threads do at the points where
    the loop looks at the turn control or waits. The listener of compression calls is left out.
  \<^item> The loop may run for ever, as the model may call tools for ever: \<open>None\<close> is a run that does not return.
\<close>

section \<open>State and parameters\<close>

record agent_run_result =
  arr_content :: string
  arr_usage :: "token_usage option"

datatype agent_event =
    AssistantMessageEvent string utc int
  | ModelCompletedEvent int "token_usage option" "cache_usage option"
  | UnitCompletedEvent nat nat
  | ToolBatchStartedEvent int "tool_call list"
  | ToolCallEvent tool_call nat nat
  | ToolResultEvent tool_result nat nat
  | ToolMediaEvent "part list" bool
  | ContextWindowEvent context_window
  | UserSteerAppliedEvent string string utc

record 'e agent_env =
  ge_control :: "turn_control option"
  ge_jobs :: "job_manager option"
  ge_rest :: 'e

type_synonym 'e aworld = "'e agent_env world"
type_synonym ('e, 'a) agent_act = "('e agent_env, 'a) act"
type_synonym 'e turn_st = "('e aworld \<times> nat) turn_state"

record 'e agent =
  ag_rt :: "'e agent_env runtime"
  ag_tools :: "'e agent_env toolset"
  ag_definitions :: "'e aworld \<Rightarrow> tool_definition list"
  ag_context :: context_manager
  ag_max_same_tool_calls :: int
  ag_canonical :: "json \<Rightarrow> string"
  ag_hash :: "json \<Rightarrow> string"
  ag_local_time :: "utc \<Rightarrow> string"
  ag_memory :: "'e aworld \<Rightarrow> string option"
  ag_stream :: "int \<Rightarrow> llm_request \<Rightarrow> ('e, llm_response) agent_act"
  ag_archive_env :: "'e aworld \<Rightarrow> archive_env"
  ag_on_event :: "(agent_event \<Rightarrow> ('e, unit) agent_act) option"
  ag_submit_error :: "tool_call \<Rightarrow> exn option"
  ag_completes :: "(nat \<times> tool_call) list \<Rightarrow> (nat \<times> tool_call) list \<times> exn option"
  ag_external :: "'e aworld \<Rightarrow> bool option"
  ag_others :: "'e aworld \<Rightarrow> 'e aworld"
  ag_wait_job :: "string \<Rightarrow> ('e, unit) agent_act"
  ag_wait_turn :: "string \<Rightarrow> 'e aworld \<Rightarrow> 'e aworld"
  ag_since :: "json \<Rightarrow> json \<Rightarrow> json"
  ag_clock :: "nat \<Rightarrow> json"
  ag_moments :: "nat \<Rightarrow> nat \<Rightarrow> moment"

text \<open>With a turn control, its flag is what the tools and hooks look at.\<close>

definition agent_rt :: "'e agent \<Rightarrow> 'e agent_env runtime" where
  "agent_rt ag = (ag_rt ag)\<lparr>rt_cancelled := (\<lambda>w. case ge_control (w_env w) of
       None \<Rightarrow> rt_cancelled (ag_rt ag) w | Some c \<Rightarrow> tc_is_cancelled (ag_external ag w) c)\<rparr>"

definition agent_emit :: "'e agent \<Rightarrow> agent_event \<Rightarrow> ('e, unit) agent_act" where
  "agent_emit ag e = (case ag_on_event ag of None \<Rightarrow> act_return () | Some f \<Rightarrow> f e)"

text \<open>An action that first reads the world.\<close>

definition act_reads :: "('e world \<Rightarrow> 'b) \<Rightarrow> ('b \<Rightarrow> ('e, 'a) act) \<Rightarrow> ('e, 'a) act" where
  "act_reads g f w = f (g w) w"

definition agent_now :: "'e agent \<Rightarrow> 'e aworld \<Rightarrow> utc" where
  "agent_now ag w = rt_now (ag_rt ag) (w_tick w)"

definition conversation_message :: "string \<Rightarrow> content \<Rightarrow> utc \<Rightarrow> string \<Rightarrow> message" where
  "conversation_message role c at origin =
     \<lparr>msg_role = role, msg_content = c, msg_timestamp = Some at, msg_tool_calls = [], msg_tool_call_id = None,
      msg_reasoning = None, msg_origin = origin, msg_provider_data = []\<rparr>"

section \<open>Jobs and steering\<close>

definition job_block :: "json_lib \<Rightarrow> job_update \<Rightarrow> string" where
  "job_block lib u =
     ''[Background job result]'' @ [LF] @ ''job_id: '' @ ju_job_id u @ [LF] @ ''kind: '' @ ju_kind u @ [LF]
     @ ''status: '' @ ju_status u @ [LF] @ ''result: ''
     @ (case ju_error u of
          Some e \<Rightarrow> tool_result_to_content lib \<lparr>tr_tool_call_id = ju_job_id u, tr_name = ju_kind u, tr_output = JNull,
              tr_error = Some e, tr_attachments = [], tr_present_to_user = False, tr_executed = False, tr_hook_feedback = []\<rparr>
        | None \<Rightarrow>
            if ju_status u = ''cancelled''
            then jl_dumps lib (JObj [(''ok'', JBool False), (''error'', JObj [(''type'', JStr ''cancelled'')])])
            else (case ju_output u of JStr s \<Rightarrow> s | v \<Rightarrow> jl_dumps lib v))"

definition set_jobs :: "job_manager \<Rightarrow> 'e aworld \<Rightarrow> 'e aworld" where
  "set_jobs m w = w\<lparr>w_env := (w_env w)\<lparr>ge_jobs := Some m\<rparr>\<rparr>"

text \<open>A method of the job manager, on the Session of the world.\<close>

definition on_jobs :: "(job_manager \<Rightarrow> job_manager outcome) \<Rightarrow> job_manager \<Rightarrow> ('e, unit) agent_act" where
  "on_jobs f m w =
     (case f (m\<lparr>jm_session := w_session w\<rparr>) of
        (m', x) \<Rightarrow> ((case x of None \<Rightarrow> Inr () | Some e \<Rightarrow> Inl e), set_jobs m' (w\<lparr>w_session := jm_session m'\<rparr>)))"

definition apply_job_results :: "'e agent \<Rightarrow> string \<Rightarrow> ('e, bool \<times> bool) agent_act" where
  "apply_job_results ag turn_id w =
     (case ge_jobs (w_env w) of
        None \<Rightarrow> (Inr (False, False), w)
      | Some m \<Rightarrow>
          (case drain_terminal_state turn_id m of
             (m', updates, pending) \<Rightarrow>
               if updates = [] then (Inr (False, pending), set_jobs m' w)
               else act_bind (on_session (ag_rt ag) (\<lambda>st. add_item st (conversation_message ''user''
                      (CStr (py_join [LF, LF] (map (job_block (rt_json (ag_rt ag))) updates))) (agent_now ag w) ''job_result'')
                      [] ''user_input'')) (\<lambda>_. act_return (True, pending)) (set_jobs m' w)))"

definition input_json :: "string \<Rightarrow> string \<Rightarrow> json" where
  "input_json text source = JObj [(''text'', JStr text), (''source'', JStr source)]"

definition check_input :: "'e agent \<Rightarrow> string \<Rightarrow> string \<Rightarrow> ('e, string list) agent_act" where
  "check_input ag text source =
     act_bind (run_hooks (agent_rt ag) (ag_tools ag) ''InputSubmitted'' [(''input'', input_json text source)]) (\<lambda>hook.
       if hr_decision hook = ''deny''
       then act_bind (on_session (ag_rt ag) (\<lambda>st. record_hook st ''input_rejected''
              [(''input'', input_json text source), (''reason'', JStr (hr_reason hook))] None))
            (\<lambda>_. act_raise (HookRejectedError (hr_reason hook)))
       else act_return (hr_feedback hook))"

fun append_steering :: "'e agent \<Rightarrow> user_steer list \<Rightarrow> ('e, unit) agent_act" where
  "append_steering ag [] = act_return ()"
| "append_steering ag (steer # steers) =
     act_bind (check_input ag (steer_text steer) ''steering'') (\<lambda>feedback. act_reads (agent_now ag) (\<lambda>at.
       act_bind (on_session (ag_rt ag) (\<lambda>st. add_item st
           (conversation_message ''user'' (CStr (steer_text steer)) at ''conversation'') [] ''steering'')) (\<lambda>_.
       act_bind (append_hook_feedback (ag_rt ag) feedback) (\<lambda>_.
       act_bind (agent_emit ag (UserSteerAppliedEvent (steer_id steer) (steer_text steer) at)) (\<lambda>_.
         append_steering ag steers)))))"

section \<open>The state of the loop\<close>

definition turn_world :: "'e turn_st \<Rightarrow> 'e aworld" where
  "turn_world ts = (let w = fst (ts_rest ts) in w\<lparr>w_env := (w_env w)\<lparr>ge_control := ts_control ts\<rparr>\<rparr>)"

definition turn_view :: "guard \<Rightarrow> nat \<Rightarrow> 'e aworld \<Rightarrow> 'e turn_st" where
  "turn_view g stops w = \<lparr>ts_control = ge_control (w_env w), ts_guard = g, ts_rest = (w, stops)\<rparr>"

definition in_turn :: "('e, 'a) agent_act \<Rightarrow> ('e aworld \<times> nat, 'a) turn_m" where
  "in_turn m ts = (case m (turn_world ts) of (r, w) \<Rightarrow> (r, turn_view (ts_guard ts) (snd (ts_rest ts)) w))"

text \<open>\<open>before_finish\<close>: the \<open>Stop\<close> hooks may ask once for a correction.\<close>

definition stop_payload :: "string \<Rightarrow> nat \<Rightarrow> session \<Rightarrow> jobj" where
  "stop_payload content stops s =
     [(''response'', JStr content), (''correction_attempt'', JInt (int stops)), (''executions'', turn_execution_summary s)]"

definition before_finish :: "'e agent \<Rightarrow> string \<Rightarrow> ('e aworld \<times> nat, bool) turn_m" where
  "before_finish ag content ts =
     (if \<not> list_ex (\<lambda>h. hk_event h = ''Stop'') (tset_hooks (ag_tools ag)) then (Inr False, ts)
      else tm_bind (in_turn (\<lambda>w. run_hooks (agent_rt ag) (ag_tools ag) ''Stop'' (stop_payload content (snd (ts_rest ts)) (w_session w)) w))
        (\<lambda>hook ts1.
          if hr_decision hook = ''continue''
          then if snd (ts_rest ts1) \<ge> 1
               then (Inl (HookRejectedError (''Completion still rejected after hook correction: '' @ py_join [LF] (hr_feedback hook))), ts1)
               else tm_bind (in_turn (append_hook_feedback (ag_rt ag) (hr_feedback hook))) (\<lambda>_. tm_return True)
                 (ts1\<lparr>ts_rest := (fst (ts_rest ts1), Suc (snd (ts_rest ts1)))\<rparr>)
          else tm_bind (in_turn (append_hook_feedback (ag_rt ag) (hr_feedback hook))) (\<lambda>_. tm_return False) ts1) ts)"

definition agent_callbacks :: "'e agent \<Rightarrow> string \<Rightarrow> string \<Rightarrow> ('e aworld \<times> nat) turn_callbacks" where
  "agent_callbacks ag turn_id content =
     \<lparr>cb_external = (\<lambda>ts. ag_external ag (turn_world ts)),
      cb_apply_jobs = in_turn (apply_job_results ag turn_id),
      cb_append_steers = (\<lambda>steers. in_turn (append_steering ag steers)),
      cb_wait_for_job = in_turn (\<lambda>w. if ge_jobs (w_env w) = None then (Inr (), w) else ag_wait_job ag turn_id w),
      cb_before_finish = Some (before_finish ag content),
      cb_others = (\<lambda>ts. turn_view (ts_guard ts) (snd (ts_rest ts)) (ag_others ag (turn_world ts)))\<rparr>"

section \<open>One model call\<close>

definition listed_job_of :: "job_snapshot \<Rightarrow> listed_job" where
  "listed_job_of s = (js_job_id s, js_kind s, jget_str (js_details s) ''role'', js_status s)"

definition agent_request :: "'e agent \<Rightarrow> 'e aworld \<Rightarrow> llm_request res" where
  "agent_request ag w =
     res_bind (case ge_jobs (w_env w) of
         None \<Rightarrow> Inr None
       | Some m \<Rightarrow> res_map (\<lambda>l. Some (map listed_job_of l)) (list_jobs (ag_since ag) (ag_clock ag (w_tick w)) (m\<lparr>jm_session := w_session w\<rparr>)))
     (\<lambda>jobs. build_request (ag_local_time ag) (jl_dumps (rt_json (ag_rt ag))) (ag_context ag)
        \<lparr>rst_memory = ag_memory ag w, rst_jobs = jobs, rst_core = ses_core (w_session w),
         rst_active = ses_current_turn_id (w_session w)\<rparr> (ag_definitions ag w))"

definition measured_request :: "'e agent \<Rightarrow> 'e aworld \<Rightarrow> (llm_request \<times> input_token_estimate) res" where
  "measured_request ag w =
     res_map (\<lambda>request. (request, measure_input_tokens (ag_hash ag) (ag_context ag) (ses_core (w_session w)) request)) (agent_request ag w)"

definition emit_window :: "'e agent \<Rightarrow> int \<Rightarrow> ('e, unit) agent_act" where
  "emit_window ag tokens =
     act_reads (ses_core \<circ> w_session) (\<lambda>c. agent_emit ag (ContextWindowEvent (window (ag_context ag) c tokens)))"

definition archive_context :: "'e agent \<Rightarrow> llm_request \<Rightarrow> ('e, unit) agent_act" where
  "archive_context ag request w =
     (case archive (ag_archive_env ag w) (ag_context ag) request (w_session w) of
        (s, r) \<Rightarrow> (res_map (\<lambda>_. ()) r, w\<lparr>w_session := s, w_tick := Suc (w_tick w)\<rparr>))"

text \<open>The head of the loop: \<open>None\<close> when the context was archived.\<close>

definition prepare_call :: "'e agent \<Rightarrow> string \<Rightarrow> ('e aworld \<times> nat, (llm_request \<times> input_token_estimate) option) turn_m" where
  "prepare_call ag turn_id =
     (let cb = agent_callbacks ag turn_id []; cm = ag_context ag in
      tm_bind (raise_if_cancelled cb) (\<lambda>_.
      tm_bind (apply_jobs cb) (\<lambda>_.
      tm_bind (in_turn (\<lambda>w. (measured_request ag w, w))) (\<lambda>(request, est).
      tm_bind (in_turn (emit_window ag (ite_tokens est))) (\<lambda>_.
      tm_bind (in_turn (\<lambda>w. (Inr (should_archive cm (ses_core (w_session w)) (ite_tokens est)), w))) (\<lambda>full.
        if full
        then tm_bind (in_turn (archive_context ag request)) (\<lambda>_. tm_bind (apply_steering cb False) (\<lambda>_. tm_return None))
        else if ite_tokens est > cl_hard_limit (cm_limits cm)
        then in_turn (act_raise (ContextWindowExceededError (ite_tokens est) (pv_max_context_tokens (cm_provider cm))
               (cm_output_reserve_tokens cm)))
        else tm_return (Some (with_generation_limit request (cm_provider cm) (cm_max_generation_tokens cm), est))))))))"

text \<open>A \<open>ProviderError\<close> is raised again with the index of the call.\<close>

definition with_call_index :: "int \<Rightarrow> exn \<Rightarrow> exn" where
  "with_call_index index e =
     (case e of
        ProviderFailure c m d \<Rightarrow> ProviderFailure c m (AList.update ''model_call_index'' (JInt index) d)
      | ProviderProtocolError m \<Rightarrow> ProviderFailure ''ProviderProtocolError'' m [(''model_call_index'', JInt index)]
      | _ \<Rightarrow> e)"

definition call_model :: "'e agent \<Rightarrow> int \<Rightarrow> llm_request \<Rightarrow> input_token_estimate \<Rightarrow> ('e, llm_response) agent_act" where
  "call_model ag index request est =
     act_bind (act_catch (ag_stream ag index request) (\<lambda>e. act_raise (with_call_index index e))) (\<lambda>response.
     act_bind (on_session (ag_rt ag) (\<lambda>st. model_completed st index (rs_usage response) (rs_tool_calls response \<noteq> [])
         (estimate_anchor est (rs_usage response)))) (\<lambda>_.
     act_bind (act_reads (sc_cache_usage \<circ> ses_core \<circ> w_session) (\<lambda>usage.
         agent_emit ag (ModelCompletedEvent index (rs_usage response) usage))) (\<lambda>_.
       act_return response)))"

section \<open>A response with tool calls\<close>

definition assistant_message :: "llm_response \<Rightarrow> utc \<Rightarrow> message" where
  "assistant_message response at =
     \<lparr>msg_role = ''assistant'', msg_content = content_of_option (rs_content response), msg_timestamp = Some at,
      msg_tool_calls = rs_tool_calls response, msg_tool_call_id = None, msg_reasoning = rs_reasoning response,
      msg_origin = ''conversation'', msg_provider_data = rs_provider_data response\<rparr>"

definition item_count :: "'e aworld \<Rightarrow> nat" where
  "item_count w = length (sc_items (ses_core (w_session w)))"

definition batch_listeners_of :: "'e agent \<Rightarrow> 'e agent_env batch_listeners" where
  "batch_listeners_of ag =
     \<lparr>bl_on_call = (\<lambda>call i n. agent_emit ag (ToolCallEvent call i n)),
      bl_on_result = (\<lambda>result i n. agent_emit ag (ToolResultEvent result i n)),
      bl_on_media = (\<lambda>media present. agent_emit ag (ToolMediaEvent media present))\<rparr>"

definition check_repetition :: "'e agent \<Rightarrow> tool_call list \<Rightarrow> ('e aworld \<times> nat, unit) turn_m" where
  "check_repetition ag calls ts =
     (case guard_check (ag_canonical ag) (ts_guard ts) calls of
        Inl e \<Rightarrow> (Inl e, ts)
      | Inr g \<Rightarrow> (Inr (), ts\<lparr>ts_guard := g\<rparr>))"

definition run_unit :: "'e agent \<Rightarrow> string \<Rightarrow> int \<Rightarrow> llm_response \<Rightarrow> ('e, unit) agent_act" where
  "run_unit ag turn_id index response =
     act_reads (agent_now ag) (\<lambda>at. act_reads item_count (\<lambda>unit_start.
      act_bind (on_session (ag_rt ag) (\<lambda>st. add_item st (assistant_message response at) [] ''user_input'')) (\<lambda>_.
      act_bind (case rs_content response of None \<Rightarrow> act_return ()
          | Some c \<Rightarrow> if c = [] then act_return () else agent_emit ag (AssistantMessageEvent c at index)) (\<lambda>_.
      act_bind (agent_emit ag (ToolBatchStartedEvent index (rs_tool_calls response))) (\<lambda>_.
      act_bind (execute_batch (agent_rt ag) (batch_listeners_of ag) (ag_tools ag) (ag_submit_error ag) (ag_completes ag) turn_id
          (rs_tool_calls response)) (\<lambda>_. act_reads item_count (\<lambda>n. agent_emit ag (UnitCompletedEvent unit_start n))))))))"

definition tool_round :: "'e agent \<Rightarrow> string \<Rightarrow> int \<Rightarrow> llm_response \<Rightarrow> ('e aworld \<times> nat, unit) turn_m" where
  "tool_round ag turn_id index response =
     (let cb = agent_callbacks ag turn_id [] in
      tm_bind (check_repetition ag (rs_tool_calls response)) (\<lambda>_.
      tm_bind (in_turn (run_unit ag turn_id index response)) (\<lambda>_.
      tm_bind (raise_if_cancelled cb) (\<lambda>_.
      tm_bind (apply_jobs cb) (\<lambda>_.
      tm_bind (apply_steering cb False) (\<lambda>_. tm_return ()))))))"

section \<open>A final response\<close>

definition no_answer :: "llm_response \<Rightarrow> exn" where
  "no_answer response =
     (if rs_reasoning response \<noteq> None \<and> rs_reasoning response \<noteq> Some []
      then ValueError (''LLM response contained reasoning but no final content or tool calls; the model may have exhausted ''
        @ ''its output token limit before producing an answer'')
      else ValueError ''LLM response must contain content or tool calls'')"

definition store_answer :: "'e agent \<Rightarrow> int \<Rightarrow> llm_response \<Rightarrow> string \<Rightarrow> ('e, unit) agent_act" where
  "store_answer ag index response content =
     act_reads (agent_now ag) (\<lambda>at. act_reads item_count (\<lambda>unit_start.
      act_bind (on_session (ag_rt ag) (\<lambda>st. add_item st (assistant_message response at) [] ''user_input'')) (\<lambda>_.
        if ag_on_event ag = None then act_return ()
        else act_bind (agent_emit ag (AssistantMessageEvent content at index)) (\<lambda>_.
             act_bind (\<lambda>w. (measured_request ag w, w)) (\<lambda>(request, est).
             act_bind (emit_window ag (ite_tokens est)) (\<lambda>_.
               act_reads item_count (\<lambda>n. agent_emit ag (UnitCompletedEvent unit_start n))))))))"

section \<open>The loop\<close>

text \<open>An answer of the model: a tool batch, or the end of the turn. The outer \<open>None\<close> is a wait for background
  jobs that never ends.\<close>

definition agent_answer :: "'e agent \<Rightarrow> string \<Rightarrow> int \<Rightarrow> llm_response \<Rightarrow> 'e turn_st
    \<Rightarrow> ((int \<times> agent_run_result option) res \<times> 'e turn_st) option" where
  "agent_answer ag turn_id index response ts =
     (if rs_tool_calls response \<noteq> []
      then Some (tm_bind (tool_round ag turn_id index response) (\<lambda>_. tm_return (index, None)) ts)
      else (case rs_content response of
          None \<Rightarrow> Some (Inl (no_answer response), ts)
        | Some content \<Rightarrow>
            (case in_turn (store_answer ag index response content) ts of
               (Inl e, ts1) \<Rightarrow> Some (Inl e, ts1)
             | (Inr _, ts1) \<Rightarrow>
                 (case after_response (agent_callbacks ag turn_id content) ts1 of
                    None \<Rightarrow> None
                  | Some (Inl e, ts2) \<Rightarrow> Some (Inl e, ts2)
                  | Some (Inr again, ts2) \<Rightarrow>
                      Some (Inr (index, if again then None
                        else Some \<lparr>arr_content = content, arr_usage = rs_usage response\<rparr>), ts2)))))"

text \<open>One iteration: the index of the last model call and, at the end of the turn, the result.\<close>

definition agent_step :: "'e agent \<Rightarrow> string \<Rightarrow> int \<Rightarrow> 'e turn_st \<Rightarrow> ((int \<times> agent_run_result option) res \<times> 'e turn_st) option" where
  "agent_step ag turn_id index ts =
     (case prepare_call ag turn_id ts of
        (Inl e, ts1) \<Rightarrow> Some (Inl e, ts1)
      | (Inr None, ts1) \<Rightarrow> Some (Inr (index, None), ts1)
      | (Inr (Some (request, est)), ts1) \<Rightarrow>
          (case tm_bind (in_turn (call_model ag (index + 1) request est)) (\<lambda>response.
               tm_bind (raise_if_cancelled (agent_callbacks ag turn_id [])) (\<lambda>_. tm_return response)) ts1 of
             (Inl e, ts2) \<Rightarrow> Some (Inl e, ts2)
           | (Inr response, ts2) \<Rightarrow> agent_answer ag turn_id (index + 1) response ts2))"

partial_function (option) agent_loop ::
  "'e agent \<Rightarrow> string \<Rightarrow> int \<Rightarrow> 'e turn_st \<Rightarrow> (agent_run_result res \<times> 'e turn_st) option" where
  "agent_loop ag turn_id index ts =
     (case agent_step ag turn_id index ts of
        None \<Rightarrow> None
      | Some (Inl e, ts') \<Rightarrow> Some (Inl e, ts')
      | Some (Inr (index', Some result), ts') \<Rightarrow> Some (Inr result, ts')
      | Some (Inr (index', None), ts') \<Rightarrow> agent_loop ag turn_id index' ts')"

section \<open>The turn\<close>

definition start_turn :: "'e agent \<Rightarrow> string option \<Rightarrow> ('e, string) agent_act" where
  "start_turn ag turn_id =
     act_bind (draw_uuid (ag_rt ag)) (\<lambda>uid. act_reads w_session (\<lambda>s.
       act_bind (on_session (ag_rt ag) (\<lambda>st. begin_turn st uid turn_id)) (\<lambda>_. act_return (begin_turn_id uid turn_id s))))"

definition submit_input :: "'e agent \<Rightarrow> string \<Rightarrow> part list \<Rightarrow> string \<Rightarrow> ('e, unit) agent_act" where
  "submit_input ag user_input attachments source =
     act_reads (agent_now ag) (\<lambda>at. act_bind (check_input ag user_input source) (\<lambda>feedback.
     act_bind (on_session (ag_rt ag) (\<lambda>st. add_item st
         (conversation_message ''user'' (CStr user_input) at ''conversation'') attachments ''user_input'')) (\<lambda>_.
       append_hook_feedback (ag_rt ag) feedback)))"

definition agent_turn :: "'e agent \<Rightarrow> string \<Rightarrow> part list \<Rightarrow> string option \<Rightarrow> string \<Rightarrow> 'e aworld
    \<Rightarrow> (agent_run_result res \<times> 'e aworld) option" where
  "agent_turn ag user_input attachments turn_id source w =
     (case start_turn ag turn_id w of
        (Inl e, w1) \<Rightarrow> Some (Inl e, w1)
      | (Inr tid, w1) \<Rightarrow>
          (case submit_input ag user_input attachments source w1 of
             (Inl e, w2) \<Rightarrow> Some (Inl e, w2)
           | (Inr _, w2) \<Rightarrow>
               map_option (\<lambda>(r, ts). (r, turn_world ts))
                 (agent_loop ag tid 0 (turn_view (new_guard (ag_max_same_tool_calls ag)) 0 w2))))"

definition cancel_jobs :: "'e agent \<Rightarrow> ('e, unit) agent_act" where
  "cancel_jobs ag w =
     (case (ses_current_turn_id (w_session w), ge_jobs (w_env w)) of
        (Some tid, Some m) \<Rightarrow>
          act_bind (on_jobs (cancel_turn (ag_since ag) (ag_moments ag (w_tick w)) tid) m) (\<lambda>_ w1.
            let w2 = ag_wait_turn ag tid w1 in
            (Inr (), (case ge_jobs (w_env w2) of None \<Rightarrow> w2 | Some m2 \<Rightarrow> set_jobs (fst (drain_updates tid m2)) w2))) w
      | _ \<Rightarrow> (Inr (), w))"

definition runtime_error_info_of :: "exn \<Rightarrow> runtime_error_info" where
  "runtime_error_info_of e =
     \<lparr>rei_type = exn_class e, rei_message = exn_str e, rei_details = (case e of ProviderFailure c m d \<Rightarrow> d | _ \<Rightarrow> [])\<rparr>"

definition end_status :: "exn \<Rightarrow> string" where
  "end_status e =
     (if e = KeyboardInterrupt \<or> e = AgentCancelled then ''cancelled'' else if is_exception e then ''failed'' else ''interrupted'')"

definition end_turn :: "'e agent \<Rightarrow> agent_run_result res \<Rightarrow> ('e, agent_run_result) agent_act" where
  "end_turn ag r =
     (case r of
        Inr result \<Rightarrow> act_bind (on_session (ag_rt ag) (\<lambda>st. finish_turn st ''completed'' None None)) (\<lambda>_. act_return result)
      | Inl e \<Rightarrow>
          act_bind (cancel_jobs ag) (\<lambda>_.
          act_bind (on_session (ag_rt ag) (\<lambda>st. finish_turn st (end_status e) None
             (if end_status e = ''cancelled'' then None else Some (runtime_error_info_of e)))) (\<lambda>_. act_raise e)))"

definition agent_run :: "'e agent \<Rightarrow> string \<Rightarrow> part list \<Rightarrow> string option \<Rightarrow> string \<Rightarrow> 'e aworld
    \<Rightarrow> (agent_run_result res \<times> 'e aworld) option" where
  "agent_run ag user_input attachments turn_id source w =
     (case agent_turn ag user_input attachments turn_id source w of
        None \<Rightarrow> None
      | Some (r, w1) \<Rightarrow> Some (end_turn ag r w1))"

section \<open>What the steps of a turn write\<close>

text \<open>From \<open>s\<close> to \<open>s'\<close> the journal has grown by events that start no call and start and end no turn.\<close>

definition grows :: "session \<Rightarrow> session \<Rightarrow> bool" where
  "grows s s' \<longleftrightarrow> accepting s' \<and> ses_current_turn_id s' = ses_current_turn_id s
     \<and> (\<exists>es. ses_journal s' = ses_journal s @ es \<and> list_all (\<lambda>e. \<not> turn_event e) es \<and> starts_nothing es)"

lemma grows_refl: "accepting s \<Longrightarrow> grows s s"
  by (simp add: grows_def)

lemma grows_trans: "grows s s1 \<Longrightarrow> grows s1 s2 \<Longrightarrow> grows s s2"
  by (auto simp: grows_def)

lemma grows_accepting: "grows s s' \<Longrightarrow> accepting s'"
  by (simp add: grows_def)

lemma grows_event:
  assumes "accepting s" and "session_event st ty tid p cid s = (s', r)" and "\<not> prefix ''turn_'' ty" and "ty \<noteq> ''tool_started''"
  shows "grows s s'"
  using session_event_trail [OF assms(1,2)] assms(3,4) by (fastforce simp: grows_def turn_event_def starts_nothing_def)

lemma quiet_grows: "quiet_act m \<longleftrightarrow> (\<forall>w. accepting (w_session w) \<longrightarrow> grows (w_session w) (w_session (snd (m w))))"
  unfolding quiet_act_def grows_def trail_def by auto

lemma quiet_reads [quiet]: "(\<And>x. quiet_act (f x)) \<Longrightarrow> quiet_act (act_reads g f)"
  by (simp add: quiet_act_def act_reads_def)

lemma quiet_env: "quiet_act m \<Longrightarrow> (\<And>w. w_session (f w) = w_session w) \<Longrightarrow> quiet_act (\<lambda>w. m (f w))"
  unfolding quiet_grows by metis

lemma quiet_res [quiet]: "quiet_act (\<lambda>w. (r w, w))"
  by (simp add: quiet_grows grows_refl)

lemma quiet_catch [quiet]:
  assumes "quiet_act m" and "\<And>e. quiet_act (h e)"
  shows "quiet_act (act_catch m h)"
  unfolding quiet_grows
proof (intro allI impI)
  fix w :: "'a world" assume a: "accepting (w_session w)"
  obtain r w1 where m: "m w = (r, w1)" by fastforce
  have g: "grows (w_session w) (w_session w1)" using assms(1) a m unfolding quiet_grows by (metis snd_conv)
  show "grows (w_session w) (w_session (snd (act_catch m h w)))"
  proof (cases r)
    case (Inl e)
    have "grows (w_session w1) (w_session (snd (h e w1)))" using assms(2) grows_accepting [OF g] unfolding quiet_grows by blast
    then show ?thesis using m Inl grows_trans [OF g] by (simp add: act_catch_def)
  next
    case (Inr x)
    then show ?thesis using m g by (simp add: act_catch_def)
  qed
qed

lemma quiet_model_completed [quiet]: "quiet_act (on_session rt (\<lambda>st. model_completed st i u b a))"
  by (rule quiet_on_session [of _ "''model_completed''" None]) (auto simp: writes_event_def model_completed_def)

lemma archive_call_grows:
  assumes "accepting s" and "archive_call env cm k rq s = (s', resp, r)"
  shows "grows s s'"
proof -
  obtain call r' where "auxiliary_model_completed (ae_stamp env k) call (pv_model_name (cm_provider cm)) None s = (s', r')"
    and "aux_task call = ''compression''"
    using assms(2) by (auto simp: archive_call_def Let_def tracker_record_def split: prod.splits option.splits)
  then show ?thesis by (intro grows_event [OF assms(1)]) (auto simp: auxiliary_model_completed_def)
qed

lemma archive_attempts_grows:
  "archive_attempts env cm rq ks err s = (s', r) \<Longrightarrow> accepting s \<Longrightarrow> grows s s'"
proof (induction ks arbitrary: err s)
  case Nil
  then show ?case by (simp add: grows_refl)
next
  case (Cons k ks)
  let ?rq = "case err of Some e \<Rightarrow> if 0 < k then archive_repair_request rq e else rq | None \<Rightarrow> rq"
  obtain s1 resp v where call: "archive_call env cm k ?rq s = (s1, resp, v)" by (metis prod_cases3)
  have g: "grows s s1" by (rule archive_call_grows [OF Cons.prems(2) call])
  have "grows s1 s'" if "archive_attempts env cm rq ks e s1 = (s', r)" for e
    by (rule Cons.IH [OF that grows_accepting [OF g]])
  then show ?case using Cons.prems call g grows_trans [OF g] grows_refl [OF Cons.prems(2)]
    by (cases v) (auto simp: Let_def split: if_splits)
qed

lemma archive_grows:
  assumes "accepting s" and "archive env cm rq s = (s', r)"
  shows "grows s s'"
proof (cases "archivable_units cm (ses_core s) = [] \<or> (\<exists>x. archive_request cm (archivable_units cm (ses_core s)) rq = Inl x)")
  case True
  then show ?thesis using assms by (auto simp: archive_def Let_def grows_refl split: if_splits)
next
  case False
  then obtain q where q: "archive_request cm (archivable_units cm (ses_core s)) rq = Inr q" by (metis sum.exhaust)
  obtain s1 v where a: "archive_attempts env cm q [0..<ARCHIVE_RETRY_COUNT + 1] None s = (s1, v)" by fastforce
  have g: "grows s s1" by (rule archive_attempts_grows [OF a assms(1)])
  have "grows s1 s2" if "set_archived_summary st t n s1 = (s2, x)" for st t n s2 x
    using that by (intro grows_event [OF grows_accepting [OF g]]) (auto simp: set_archived_summary_def Let_def)
  then show ?thesis using assms(2) False q a g grows_trans [OF g]
    by (cases v) (auto simp: archive_def Let_def split: prod.splits option.splits)
qed

lemma quiet_archive [quiet]: "quiet_act (archive_context ag rq)"
  unfolding quiet_grows archive_context_def by (auto split: prod.splits intro: archive_grows)

text \<open>The end of a job that is cancelled is journaled, and nothing fails in it.\<close>

lemma finish_locked_grows:
  assumes "accepting (jm_session m)" and "finish_locked since mo j ''cancelled'' JNull None JNull m = (m', x)"
  shows "x = None \<and> grows (jm_session m) (jm_session m')"
proof -
  let ?ev = "job_finished (fst mo) (jb_id j) (jb_kind j) ''cancelled'' (jb_turn_id j) (elapsed since (snd mo) (jb_started_at j))
      JNull (jopt_obj (jb_progress j)) None (jm_session m)"
  obtain s r where s: "?ev = (s, r)" by fastforce
  have "snd ?ev = None" unfolding job_finished_def
    by (intro accepted_event_ok [OF assms(1)] total_job_finished) (simp_all add: JOB_END_EVENTS_def JOB_STATUSES_def)
  then have "r = None" using s by simp
  moreover have "grows (jm_session m) s" using s
    by (intro grows_event [OF assms(1)]) (auto simp: job_finished_def)
  moreover have "jm_session (put_job (j\<lparr>jb_status := ''cancelled''\<rparr>) m) = jm_session m" by (simp add: put_job_def)
  ultimately show ?thesis using assms(2) s by (auto simp: finish_locked_def Let_def publish_def)
qed

lemma cancel_all_grows:
  "cancel_all since mos k js m = (m', x) \<Longrightarrow> accepting (jm_session m) \<Longrightarrow> x = None \<and> grows (jm_session m) (jm_session m')"
proof (induction js arbitrary: k m)
  case Nil
  then show ?case by (simp add: grows_refl)
next
  case (Cons j js)
  obtain m1 y where c: "cancel_locked since (mos k) j m = (m1, y)" by fastforce
  have g: "y = None \<and> grows (jm_session m) (jm_session m1)"
    using c finish_locked_grows [OF Cons.prems(2)] grows_refl [OF Cons.prems(2)]
    by (auto simp: cancel_locked_def put_job_def split: if_splits)
  then have "cancel_all since mos (Suc k) js m1 = (m', x)" using Cons.prems(1) c by simp
  from Cons.IH [OF this] g show ?case using grows_accepting grows_trans by blast
qed

text \<open>What is assumed of the Agent's surroundings: tools, hooks, listener, provider and other threads start no
  call and no turn in this Session by themselves, end no turn, and leave the journal open.\<close>

definition orderly :: "'e agent \<Rightarrow> bool" where
  "orderly ag \<longleftrightarrow> quiet_runtime (agent_rt ag) (ag_tools ag) \<and> (\<forall>e. quiet_act (agent_emit ag e))
     \<and> (\<forall>i rq. quiet_act (ag_stream ag i rq)) \<and> (\<forall>t. quiet_act (ag_wait_job ag t))
     \<and> quiet_act (\<lambda>w. (Inr (), ag_others ag w)) \<and> (\<forall>t. quiet_act (\<lambda>w. (Inr (), ag_wait_turn ag t w)))
     \<and> (\<forall>fs. set (fst (ag_completes ag fs)) \<subseteq> set fs)"

lemma orderlyD [quiet]:
  assumes "orderly ag"
  shows "quiet_act (agent_emit ag e)" "quiet_act (ag_stream ag i rq)" "quiet_act (ag_wait_job ag t)"
    "quiet_act (run_hooks (agent_rt ag) (ag_tools ag) ev p)" "quiet_listeners (batch_listeners_of ag)"
  using assms by (simp_all add: orderly_def quiet_run_hooks quiet_listeners_def batch_listeners_of_def)

lemma quiet_append_feedback [quiet]: "quiet_act (append_hook_feedback rt fb)"
  by (auto simp: append_hook_feedback_def intro: quiet)

lemma quiet_check_input [quiet]: "orderly ag \<Longrightarrow> quiet_act (check_input ag t src)"
  by (auto simp: check_input_def intro!: quiet)

lemma quiet_append_steering [quiet]: "orderly ag \<Longrightarrow> quiet_act (append_steering ag ss)"
  by (induction ss) (simp_all add: quiet)

lemma set_jobs_session [simp]: "w_session (set_jobs m w) = w_session w"
  by (simp add: set_jobs_def)

lemma quiet_apply_job_results [quiet]: "quiet_act (apply_job_results ag tid)"
proof -
  have "quiet_act (act_bind (on_session (ag_rt ag) (\<lambda>st. add_item st m [] ''user_input'')) (\<lambda>_. act_return x))" for m x
    by (simp add: quiet)
  then have "grows (w_session w) (w_session (snd (act_bind (on_session (ag_rt ag) (\<lambda>st. add_item st m [] ''user_input''))
      (\<lambda>_. act_return x) (set_jobs m' w))))" if "accepting (w_session w)" for m x m' w
    using that unfolding quiet_grows by (metis set_jobs_session)
  then show ?thesis
    unfolding quiet_grows apply_job_results_def by (auto simp: grows_refl split: option.splits prod.splits)
qed

lemma quiet_call_model [quiet]: "orderly ag \<Longrightarrow> quiet_act (call_model ag i rq est)"
  by (simp add: call_model_def quiet)

lemma quiet_emit_window [quiet]: "orderly ag \<Longrightarrow> quiet_act (emit_window ag t)"
  by (simp add: emit_window_def quiet)

lemma quiet_store_answer [quiet]: "orderly ag \<Longrightarrow> quiet_act (store_answer ag i r c)"
  by (simp add: store_answer_def quiet split: prod.split)

lemma quiet_submit_input [quiet]: "orderly ag \<Longrightarrow> quiet_act (submit_input ag t atts src)"
  by (simp add: submit_input_def quiet)

section \<open>Steps of the loop\<close>

text \<open>A step of the loop that leaves no call under way and does not touch the turn.\<close>

definition calm :: "('e aworld \<times> nat, 'a) turn_m \<Rightarrow> bool" where
  "calm m \<longleftrightarrow> (\<forall>ts. accepting (w_session (turn_world ts)) \<longrightarrow> moves (turn_world ts) (turn_world (snd (m ts))) {} {})"

named_theorems calm_steps \<open>steps of the loop that leave no call under way\<close>

lemma turn_world_view [simp]: "turn_world (turn_view g k w) = w"
  by (simp add: turn_world_def turn_view_def)

lemma turn_world_frame [simp]:
  "turn_world (ts\<lparr>ts_guard := g\<rparr>) = turn_world ts"
  "turn_world (ts\<lparr>ts_rest := (fst (ts_rest ts), k)\<rparr>) = turn_world ts"
  "w_session (turn_world (ts\<lparr>ts_control := c\<rparr>)) = w_session (turn_world ts)"
  by (simp_all add: turn_world_def Let_def)

lemma moves_same: "w_session w' = w_session w \<Longrightarrow> accepting (w_session w) \<Longrightarrow> moves w w' {} {}"
  unfolding moves_def by (intro exI [of _ "[]"]) (simp add: trail_def)

lemma calmE:
  assumes "calm m" and "accepting (w_session (turn_world ts))" and "m ts = (r, ts')"
  shows "moves (turn_world ts) (turn_world ts') {} {}"
  using assms unfolding calm_def by (metis snd_conv)

lemma tm_bind_Inl: "m ts = (Inl e, ts1) \<Longrightarrow> tm_bind m f ts = (Inl e, ts1)"
  by (simp add: tm_bind_def)

lemma tm_bind_Inr: "m ts = (Inr x, ts1) \<Longrightarrow> tm_bind m f ts = f x ts1"
  by (simp add: tm_bind_def)

lemma calm_bind [calm_steps]:
  assumes "calm m" and "\<And>x. calm (f x)"
  shows "calm (tm_bind m f)"
  unfolding calm_def
proof (intro allI impI)
  fix ts :: "'a turn_st" assume a: "accepting (w_session (turn_world ts))"
  obtain r ts1 where m: "m ts = (r, ts1)" by fastforce
  note m1 = calmE [OF assms(1) a m]
  show "moves (turn_world ts) (turn_world (snd (tm_bind m f ts))) {} {}"
  proof (cases r)
    case (Inl e)
    then show ?thesis using m m1 by (simp add: tm_bind_def)
  next
    case (Inr x)
    obtain r2 ts2 where f: "f x ts1 = (r2, ts2)" by fastforce
    then show ?thesis using m Inr moves_trans [OF m1 calmE [OF assms(2) moves_accepting [OF m1] f]] by (simp add: tm_bind_def)
  qed
qed

lemma calm_return [calm_steps]: "calm (tm_return x)" "calm reset_guard" "calm (check_repetition ag calls)"
  by (auto simp: calm_def tm_return_def reset_guard_def check_repetition_def moves_same split: sum.splits)

lemma calm_in_turn:
  assumes "\<And>w r w'. accepting (w_session w) \<Longrightarrow> m w = (r, w') \<Longrightarrow> moves w w' {} {}"
  shows "calm (in_turn m)"
  unfolding calm_def in_turn_def by (auto split: prod.splits intro: assms)

lemma calm_quiet [calm_steps]: "quiet_act m \<Longrightarrow> calm (in_turn m)"
  by (rule calm_in_turn) (rule quiet_moves)

lemma calm_run_unit [calm_steps]:
  assumes "orderly ag"
  shows "calm (in_turn (run_unit ag tid i resp))"
proof -
  have steady: "moves w w' {} {}" if "accepting (w_session w)" "run_unit ag tid i resp w = (r, w')" for w r w'
  proof -
    let ?q = "\<lambda>at. act_bind (on_session (ag_rt ag) (\<lambda>st. add_item st (assistant_message resp at) [] ''user_input'')) (\<lambda>_.
      act_bind (case rs_content resp of None \<Rightarrow> act_return ()
          | Some c \<Rightarrow> if c = [] then act_return () else agent_emit ag (AssistantMessageEvent c at i)) (\<lambda>_.
        agent_emit ag (ToolBatchStartedEvent i (rs_tool_calls resp))))"
    let ?b = "execute_batch (agent_rt ag) (batch_listeners_of ag) (ag_tools ag) (ag_submit_error ag) (ag_completes ag) tid (rs_tool_calls resp)"
    let ?e = "act_reads item_count (\<lambda>n. agent_emit ag (UnitCompletedEvent (item_count w) n))"
    have split: "run_unit ag tid i resp w = act_bind (?q (agent_now ag w)) (\<lambda>_. act_bind ?b (\<lambda>_. ?e)) w"
      by (auto simp: run_unit_def act_reads_def act_bind_def split: prod.splits sum.splits)
    have q: "quiet_act (?q at)" for at using assms by (simp add: quiet split: option.split)
    obtain r1 w1 where r1: "?q (agent_now ag w) w = (r1, w1)" by fastforce
    note m1 = quiet_moves [OF q that(1) r1, of "{}"]
    have b: "moves w1 w2 {} {}" if "act_bind ?b (\<lambda>_. ?e) w1 = (r2, w2)" for r2 w2
      using that
    proof (rule bind_moves)
      show "moves w1 w3 {} {}" if "?b w1 = (r3, w3)" for r3 w3
        using assms that by (intro execute_batch_moves [OF _ orderlyD(5) moves_accepting [OF m1]]) (auto simp: orderly_def)
    qed (use assms in \<open>simp add: quiet\<close>)
    show ?thesis
    proof (cases r1)
      case (Inl e)
      then show ?thesis using m1 that(2) split r1 by (simp add: act_bind_def)
    next
      case (Inr u)
      then have "act_bind ?b (\<lambda>_. ?e) w1 = (r, w')" using that(2) split r1 by (simp add: act_bind_def [of "?q (agent_now ag w)"])
      from moves_trans [OF m1 b [OF this]] show ?thesis .
    qed
  qed
  then show ?thesis by (rule calm_in_turn)
qed

lemma calm_others:
  assumes "orderly ag" and "accepting (w_session (turn_world ts))"
  shows "moves (turn_world ts) (turn_world (cb_others (agent_callbacks ag tid c) ts)) {} {}"
proof -
  have "quiet_act (\<lambda>w. (Inr () :: unit res, ag_others ag w))" using assms(1) by (simp add: orderly_def)
  from quiet_moves [OF this assms(2)] show ?thesis by (simp add: agent_callbacks_def)
qed

lemma calm_raise_if_cancelled [calm_steps]: "orderly ag \<Longrightarrow> calm (raise_if_cancelled (agent_callbacks ag tid c))"
  by (auto simp: calm_def raise_if_cancelled_def Let_def calm_others split: option.splits)

lemma calm_apply_jobs [calm_steps]: "orderly ag \<Longrightarrow> calm (apply_jobs (agent_callbacks ag tid c))"
proof -
  have "calm (cb_apply_jobs (agent_callbacks ag tid c))" by (simp add: agent_callbacks_def calm_steps quiet)
  then show ?thesis by (auto simp: apply_jobs_def intro!: calm_steps split: prod.splits)
qed

lemma calm_take_steers [calm_steps]:
  assumes "orderly ag" shows "calm (take_steers (agent_callbacks ag tid c) b)"
  unfolding calm_def
proof (intro allI impI)
  fix ts :: "'a turn_st" assume a: "accepting (w_session (turn_world ts))"
  let ?ts = "cb_others (agent_callbacks ag tid c) ts"
  have m: "moves (turn_world ts) (turn_world ?ts) {} {}" by (rule calm_others [OF assms a])
  have "moves (turn_world ?ts) (turn_world (?ts\<lparr>ts_control := x\<rparr>)) {} {}" for x
    by (rule moves_same [OF _ moves_accepting [OF m]]) simp
  then show "moves (turn_world ts) (turn_world (snd (take_steers (agent_callbacks ag tid c) b ts))) {} {}"
    using m moves_trans [OF m] by (auto simp: take_steers_def Let_def split: option.splits prod.splits)
qed

lemma calm_apply_steering [calm_steps]:
  assumes "orderly ag" shows "calm (apply_steering (agent_callbacks ag tid c) b)"
proof -
  let ?cb = "agent_callbacks ag tid c"
  have "calm (cb_append_steers ?cb ss)" for ss using assms by (simp add: agent_callbacks_def calm_steps quiet)
  then have "calm (tm_bind (take_steers ?cb b) (\<lambda>ss. tm_bind (raise_if_cancelled ?cb) (\<lambda>_.
      if ss = [] then tm_return False
      else tm_bind (cb_append_steers ?cb ss) (\<lambda>_. tm_bind reset_guard (\<lambda>_. tm_return True)))))"
    using assms by (auto intro!: calm_steps)
  then show ?thesis by (auto simp: calm_def apply_steering_def moves_same)
qed

lemma calm_before_finish [calm_steps]:
  assumes "orderly ag" shows "calm (before_finish ag content)"
proof -
  have hooks: "calm (in_turn (\<lambda>w. run_hooks (agent_rt ag) (ag_tools ag) ''Stop'' (stop_payload content k (w_session w)) w))" for k
    using orderlyD(4) [OF assms] by (intro calm_quiet) (simp add: quiet_act_def)
  have feedback: "calm (tm_bind (in_turn (append_hook_feedback (ag_rt ag) fb)) (\<lambda>_. tm_return b))" for fb and b :: bool
    by (intro calm_steps quiet)
  have "moves (turn_world ts) (turn_world (snd (before_finish ag content ts))) {} {}"
    if a: "accepting (w_session (turn_world ts))" for ts
  proof (cases "list_ex (\<lambda>h. hk_event h = ''Stop'') (tset_hooks (ag_tools ag))")
    case False
    then show ?thesis using a by (simp add: before_finish_def moves_same)
  next
    case True
    define run where "run = in_turn (\<lambda>w. run_hooks (agent_rt ag) (ag_tools ag) ''Stop''
        (stop_payload content (snd (ts_rest ts)) (w_session w)) w)"
    obtain r ts1 where r: "run ts = (r, ts1)" by fastforce
    note m1 = calmE [OF hooks a r [unfolded run_def]]
    have "moves (turn_world ts1) (turn_world (snd (tm_bind (in_turn (append_hook_feedback (ag_rt ag) fb)) (\<lambda>_. tm_return b) ts2))) {} {}"
      if "turn_world ts2 = turn_world ts1" for fb ts2 and b :: bool
      using feedback [of fb b] moves_accepting [OF m1] that unfolding calm_def by metis
    note m2 = moves_trans [OF m1 this]
    show ?thesis
    proof (cases r)
      case (Inl e)
      then show ?thesis using m1 r by (simp add: before_finish_def True run_def [symmetric] tm_bind_Inl)
    next
      case (Inr hook)
      then show ?thesis using m1 m2 r by (simp add: before_finish_def True run_def [symmetric] tm_bind_Inr)
    qed
  qed
  then show ?thesis by (simp add: calm_def)
qed

lemma calm_wait_for_job [calm_steps]:
  assumes "orderly ag" shows "calm (cb_wait_for_job (agent_callbacks ag tid c))"
proof -
  have "quiet_act (\<lambda>w. if ge_jobs (w_env w) = None then (Inr (), w) else ag_wait_job ag tid w)"
    using orderlyD(3) [OF assms, of tid] by (auto simp: quiet_grows grows_refl)
  then show ?thesis by (simp add: agent_callbacks_def calm_steps)
qed

lemma wait_jobs_moves:
  assumes "orderly ag"
  shows "wait_jobs cb ts = Some y \<Longrightarrow> cb = agent_callbacks ag tid c \<Longrightarrow> accepting (w_session (turn_world ts))
    \<Longrightarrow> moves (turn_world ts) (turn_world (snd y)) {} {}"
proof (induction cb ts y rule: wait_jobs.raw_induct [rotated, consumes 1, case_names 1])
  case (1 wait cb ts y)
  let ?body = "tm_bind (raise_if_cancelled cb) (\<lambda>_. tm_bind (apply_steering cb False) (\<lambda>steered.
        if steered then tm_return (True, False)
        else tm_bind (cb_wait_for_job cb) (\<lambda>_. tm_bind (raise_if_cancelled cb) (\<lambda>_. apply_jobs cb))))"
  have "calm ?body" using assms by (auto simp: 1(3) intro!: calm_steps)
  moreover obtain r ts1 where r: "?body ts = (r, ts1)" by fastforce
  ultimately have m: "moves (turn_world ts) (turn_world ts1) {} {}" by (rule calmE [OF _ 1(4)])
  show ?case
  proof (cases r)
    case (Inl e)
    then show ?thesis using 1(2) r m by auto
  next
    case (Inr p)
    obtain again pending where p: "p = (again, pending)" by fastforce
    show ?thesis
    proof (cases "\<not> again \<and> pending")
      case True
      then have "wait cb ts1 = Some y" using 1(2) r Inr p by simp
      from moves_trans [OF m 1(1) [OF this 1(3) moves_accepting [OF m]]] show ?thesis .
    next
      case False
      then show ?thesis using 1(2) r Inr p m by (auto split: if_splits)
    qed
  qed
qed

lemma calm_close_turn [calm_steps]: "orderly ag \<Longrightarrow> calm (close_turn (agent_callbacks ag tid c))"
proof -
  assume "orderly ag"
  then have "calm (case Some (before_finish ag c) of None \<Rightarrow> apply_steering (agent_callbacks ag tid c) True
      | Some f \<Rightarrow> tm_bind (apply_steering (agent_callbacks ag tid c) False) (\<lambda>steered. if steered then tm_return True
            else tm_bind f (\<lambda>more. if more then tm_bind (raise_if_cancelled (agent_callbacks ag tid c)) (\<lambda>_. tm_bind reset_guard (\<lambda>_.
                  tm_bind (apply_steering (agent_callbacks ag tid c) False) (\<lambda>_. tm_return True)))
              else tm_bind (raise_if_cancelled (agent_callbacks ag tid c)) (\<lambda>_. apply_steering (agent_callbacks ag tid c) True))))"
    by (auto intro!: calm_steps)
  moreover have "cb_before_finish (agent_callbacks ag tid c) = Some (before_finish ag c)" by (simp add: agent_callbacks_def)
  ultimately show ?thesis by (simp only: close_turn_def)
qed

lemma after_response_moves:
  assumes "orderly ag" and "after_response (agent_callbacks ag tid c) ts = Some (r, ts')" and "accepting (w_session (turn_world ts))"
  shows "moves (turn_world ts) (turn_world ts') {} {}"
proof -
  let ?cb = "agent_callbacks ag tid c"
  define m where "m = tm_bind (raise_if_cancelled ?cb) (\<lambda>_. apply_jobs ?cb)"
  have "calm m" unfolding m_def using assms(1) by (auto intro!: calm_steps)
  moreover obtain q ts1 where q: "m ts = (q, ts1)" by fastforce
  ultimately have m1: "moves (turn_world ts) (turn_world ts1) {} {}" by (rule calmE [OF _ assms(3)])
  have close: "moves (turn_world ts) (turn_world ts') {} {}"
    if "close_turn ?cb ts2 = (r, ts')" "moves (turn_world ts) (turn_world ts2) {} {}" for ts2
    using moves_trans [OF that(2) calmE [OF calm_close_turn [OF assms(1)] moves_accepting [OF that(2)] that(1)]] .
  have wait: "moves (turn_world ts) (turn_world ts2) {} {}" if "wait_jobs ?cb ts1 = Some (x, ts2)" for x ts2
    using moves_trans [OF m1 wait_jobs_moves [OF assms(1) that refl moves_accepting [OF m1]]] by simp
  show ?thesis using assms(2) q m1 close wait
    by (cases q) (auto simp: after_response_def m_def [symmetric] split: if_splits option.splits sum.splits)
qed

lemma calm_prepare_call [calm_steps]: "orderly ag \<Longrightarrow> calm (prepare_call ag tid)"
proof -
  assume o: "orderly ag"
  have "calm (in_turn (act_raise e :: ('a, 'b) agent_act))" for e :: exn by (intro calm_steps quiet)
  then show ?thesis unfolding prepare_call_def Let_def using o by (auto intro!: calm_steps quiet split: prod.splits)
qed

lemma calm_tool_round [calm_steps]: "orderly ag \<Longrightarrow> calm (tool_round ag tid i resp)"
  unfolding tool_round_def Let_def by (auto intro!: calm_steps)

lemma agent_answer_moves:
  assumes o: "orderly ag" and s: "agent_answer ag tid i response ts = Some (r, ts')" and a: "accepting (w_session (turn_world ts))"
  shows "moves (turn_world ts) (turn_world ts') {} {}"
proof (cases "rs_tool_calls response \<noteq> []")
  case True
  have "calm (tm_bind (tool_round ag tid i response) (\<lambda>_. tm_return (i, None :: agent_run_result option)))"
    using o by (auto intro!: calm_steps)
  from calmE [OF this a] show ?thesis using s True by (simp add: agent_answer_def)
next
  case False
  show ?thesis
  proof (cases "rs_content response")
    case None
    then show ?thesis using s False a by (simp add: agent_answer_def moves_same)
  next
    case (Some content)
    obtain q ts1 where q: "in_turn (store_answer ag i response content) ts = (q, ts1)" by fastforce
    have "calm (in_turn (store_answer ag i response content))" using o by (intro calm_steps quiet)
    from calmE [OF this a q] have m1: "moves (turn_world ts) (turn_world ts1) {} {}" .
    have "moves (turn_world ts) (turn_world ts2) {} {}"
      if "after_response (agent_callbacks ag tid content) ts1 = Some (x, ts2)" for x ts2
      using moves_trans [OF m1 after_response_moves [OF o that moves_accepting [OF m1]]] .
    then show ?thesis using s False Some q m1
      by (cases q) (auto simp: agent_answer_def split: option.splits sum.splits)
  qed
qed

lemma agent_step_moves:
  assumes o: "orderly ag" and s: "agent_step ag tid i ts = Some (r, ts')" and a: "accepting (w_session (turn_world ts))"
  shows "moves (turn_world ts) (turn_world ts') {} {}"
proof -
  obtain p ts1 where p: "prepare_call ag tid ts = (p, ts1)" by fastforce
  note m1 = calmE [OF calm_prepare_call [OF o] a p]
  show ?thesis
  proof (cases "\<exists>request est. p = Inr (Some (request, est))")
    case False
    then show ?thesis using s p m1 by (auto simp: agent_step_def split: sum.splits option.splits)
  next
    case True
    then obtain request est where pr: "p = Inr (Some (request, est))" by blast
    define call where "call = tm_bind (in_turn (call_model ag (i + 1) request est)) (\<lambda>response.
        tm_bind (raise_if_cancelled (agent_callbacks ag tid [])) (\<lambda>_. tm_return response))"
    have "calm call" unfolding call_def using o by (auto intro!: calm_steps quiet)
    moreover obtain q ts2 where q: "call ts1 = (q, ts2)" by fastforce
    ultimately have m2: "moves (turn_world ts) (turn_world ts2) {} {}"
      using moves_trans [OF m1 calmE [OF _ moves_accepting [OF m1]]] by blast
    have s2: "(case call ts1 of (Inl e, ts2) \<Rightarrow> Some (Inl e, ts2)
        | (Inr response, ts2) \<Rightarrow> agent_answer ag tid (i + 1) response ts2) = Some (r, ts')"
      using s p pr by (simp add: agent_step_def call_def)
    show ?thesis
    proof (cases q)
      case (Inl e)
      then show ?thesis using s2 q m2 by simp
    next
      case (Inr response)
      then have "agent_answer ag tid (i + 1) response ts2 = Some (r, ts')" using s2 q by simp
      from moves_trans [OF m2 agent_answer_moves [OF o this moves_accepting [OF m2]]] show ?thesis .
    qed
  qed
qed

lemma agent_loop_moves:
  assumes "orderly ag"
  shows "agent_loop g tid i ts = Some y \<Longrightarrow> g = ag \<Longrightarrow> accepting (w_session (turn_world ts))
    \<Longrightarrow> moves (turn_world ts) (turn_world (snd y)) {} {}"
proof (induction g tid i ts y rule: agent_loop.raw_induct [rotated, consumes 1, case_names 1])
  case (1 loop g tid i ts y)
  obtain r ts1 where s: "agent_step g tid i ts = Some (r, ts1)" using 1(2) by (auto split: option.splits)
  then have m: "moves (turn_world ts) (turn_world ts1) {} {}"
    using agent_step_moves [OF assms _ 1(4)] 1(3) by blast
  show ?case
  proof (cases "\<exists>j. r = Inr (j, None)")
    case True
    then obtain j where "loop g tid j ts1 = Some y" using 1(2) s by auto
    from moves_trans [OF m 1(1) [OF this 1(3) moves_accepting [OF m]]] show ?thesis .
  next
    case False
    then have "snd y = ts1" using 1(2) s by (auto split: sum.splits prod.splits option.splits)
    then show ?thesis using m by simp
  qed
qed

section \<open>The turn in the journal\<close>

lemma session_event_ok:
  assumes "accepting s" and "\<And>e. ev_type e = ty \<Longrightarrow> ev_payload e = p \<Longrightarrow> event_total e"
  shows "\<exists>s' e. session_event st ty tid p cid s = (s', None) \<and> accepting s' \<and> ses_current_turn_id s' = ses_current_turn_id s
    \<and> ses_journal s' = ses_journal s @ [e] \<and> ev_type e = ty \<and> ev_turn_id e = tid"
proof -
  let ?e = "\<lparr>ev_seq = next_seq (ses_journal s), ev_id = fst st, ev_type = ty, ev_turn_id = tid, ev_timestamp = snd st,
    ev_tool_call_id = cid, ev_payload = p\<rparr>"
  obtain c where c: "apply_event ?e (ses_core s) = (c, None)" using event_total_step [OF assms(2), of ?e] by auto
  then show ?thesis using assms(1)
    by (cases "ses_sink s") (auto simp: session_event_def journal_write_def sink_write_def accepting_def)
qed

lemma start_turn_writes:
  assumes "accepting (w_session w)" and "start_turn ag hint w = (r, w1)"
  obtains tid b where "r = Inr tid" "ses_journal (w_session w1) = ses_journal (w_session w) @ [b]" "ev_type b = ''turn_started''"
    "ev_turn_id b = Some tid" "ses_current_turn_id (w_session w1) = Some tid" "accepting (w_session w1)"
proof -
  let ?k = "Suc (w_tick w)" and ?uid = "rt_uuid (ag_rt ag) (w_tick w)"
  let ?tid = "begin_turn_id ?uid hint (w_session w)"
  have "event_total e" if "ev_type e = ''turn_started''" "ev_payload e = [(''status'', JStr ''running'')]" for e
    using that by (intro total_turn_started [of e "''running''"]) simp_all
  from session_event_ok [where ty = "''turn_started''" and p = "[(''status'', JStr ''running'')]" and st = "rt_stamp (ag_rt ag) ?k"
      and tid = "Some ?tid" and cid = None, OF assms(1) this] obtain s e where
    "session_event (rt_stamp (ag_rt ag) ?k) ''turn_started'' (Some ?tid) [(''status'', JStr ''running'')] None (w_session w) = (s, None)"
    "accepting s" "ses_journal s = ses_journal (w_session w) @ [e]" "ev_type e = ''turn_started''" "ev_turn_id e = Some ?tid" by blast
  then show thesis using that assms(2)
    by (auto simp: start_turn_def draw_uuid_def act_reads_def act_bind_def on_session_def begin_turn_def accepting_def)
qed

lemma exn_class_nonempty: "exn_class e \<noteq> []"
  by (cases e) auto

lemma finish_turn_writes:
  assumes "accepting (w_session w)" and "ses_current_turn_id (w_session w) = Some tid"
    and "on_session (ag_rt ag) (\<lambda>st. finish_turn st status None err) w = (r, w1)"
    and "\<And>x. err = Some x \<Longrightarrow> rei_type x \<noteq> []"
  obtains e where "r = Inr ()" "ses_journal (w_session w1) = ses_journal (w_session w) @ [e]" "ev_type e = ''turn_'' @ status"
    "ev_turn_id e = Some tid" "ses_current_turn_id (w_session w1) = None"
proof -
  let ?p = "[(''status'', JStr status)] @ (case err of None \<Rightarrow> [] | Some e \<Rightarrow> [(''error'', runtime_error_to_json e)])"
  have "event_total e" if "ev_type e = ''turn_'' @ status" "ev_payload e = ?p" for e
    by (rule total_turn_changed [OF that(1)]) (use that(2) assms(4) in \<open>auto split: option.splits\<close>)
  from session_event_ok [where ty = "''turn_'' @ status" and p = ?p and st = "rt_stamp (ag_rt ag) (w_tick w)"
      and tid = "Some tid" and cid = None, OF assms(1) this] obtain s e where
    s: "session_event (rt_stamp (ag_rt ag) (w_tick w)) (''turn_'' @ status) (Some tid) ?p None (w_session w) = (s, None)"
      "ses_current_turn_id s = ses_current_turn_id (w_session w)" "ses_journal s = ses_journal (w_session w) @ [e]"
      "ev_type e = ''turn_'' @ status" "ev_turn_id e = Some tid" by blast
  have "finish_turn (rt_stamp (ag_rt ag) (w_tick w)) status None err (w_session w) = (s\<lparr>ses_current_turn_id := None\<rparr>, None)"
    using s(1,2) assms(2) by (simp add: finish_turn_def or_current_def truthy_str_def)
  then show thesis using that s(3-5) assms(3) by (auto simp: on_session_def)
qed

lemma cancel_jobs_moves:
  assumes "orderly ag" and "accepting (w_session w)" and "cancel_jobs ag w = (r, w1)"
  shows "r = Inr () \<and> moves w w1 {} {}"
proof (cases "\<exists>tid m. ses_current_turn_id (w_session w) = Some tid \<and> ge_jobs (w_env w) = Some m")
  case False
  then show ?thesis using assms(2,3) by (auto simp: cancel_jobs_def moves_same split: option.splits)
next
  case True
  then obtain tid m where tm: "ses_current_turn_id (w_session w) = Some tid" "ge_jobs (w_env w) = Some m" by blast
  let ?m = "m\<lparr>jm_session := w_session w\<rparr>"
  obtain m' x where c: "cancel_turn (ag_since ag) (ag_moments ag (w_tick w)) tid ?m = (m', x)" by fastforce
  have g: "x = None \<and> grows (w_session w) (jm_session m')"
    using cancel_all_grows [OF c [unfolded cancel_turn_def]] assms(2) by simp
  let ?w1 = "set_jobs m' (w\<lparr>w_session := jm_session m'\<rparr>)"
  let ?w2 = "ag_wait_turn ag tid ?w1"
  have q: "quiet_act (\<lambda>w. (Inr () :: unit res, ag_wait_turn ag tid w))" using assms(1) by (simp add: orderly_def)
  have "accepting (w_session ?w1)" using grows_accepting g by auto
  then have "grows (w_session ?w1) (w_session ?w2)" using q unfolding quiet_grows by (metis snd_conv)
  then have "grows (jm_session m') (w_session ?w2)" by simp
  then have g2: "grows (w_session w) (w_session ?w2)" using g grows_trans by blast
  have "r = Inr ()" "w_session w1 = w_session ?w2"
    using assms(3) tm c g by (auto simp: cancel_jobs_def on_jobs_def act_bind_def Let_def split: option.splits)
  moreover have "moves w w1 {} {}" if "grows (w_session w) (w_session w1)"
    using that open_calls_quiet unfolding moves_def trail_def grows_def by fastforce
  ultimately show ?thesis using g2 by simp
qed

definition outcome_status :: "agent_run_result res \<Rightarrow> string" where
  "outcome_status r = (case r of Inr _ \<Rightarrow> ''completed'' | Inl e \<Rightarrow> end_status e)"

lemma end_turn_writes:
  assumes o: "orderly ag" and a: "accepting (w_session w)" and c: "ses_current_turn_id (w_session w) = Some tid"
    and e: "end_turn ag r w = (r', w')"
  obtains w1 ev where "r' = r" "moves w w1 {} {}" "ses_journal (w_session w') = ses_journal (w_session w1) @ [ev]"
    "ev_type ev = ''turn_'' @ outcome_status r" "ev_turn_id ev = Some tid" "ses_current_turn_id (w_session w') = None"
proof (cases r)
  case (Inr result)
  obtain q w1 where q: "on_session (ag_rt ag) (\<lambda>st. finish_turn st ''completed'' None None) w = (q, w1)" by fastforce
  obtain ev where ev: "q = Inr ()" "ses_journal (w_session w1) = ses_journal (w_session w) @ [ev]" "ev_type ev = ''turn_completed''"
    "ev_turn_id ev = Some tid" "ses_current_turn_id (w_session w1) = None"
    using finish_turn_writes [OF a c q] by auto
  then have "r' = r" "w' = w1" using e Inr q by (auto simp: end_turn_def act_bind_def act_return_def)
  then show thesis using that [of w ev] ev Inr moves_same [OF refl a] by (simp add: outcome_status_def)
next
  case (Inl x)
  obtain y w1 where y: "cancel_jobs ag w = (y, w1)" by fastforce
  have m: "y = Inr ()" "moves w w1 {} {}" using cancel_jobs_moves [OF o a y] by auto
  then have c1: "ses_current_turn_id (w_session w1) = Some tid" using c by (auto simp: moves_def trail_def)
  let ?err = "if end_status x = ''cancelled'' then None else Some (runtime_error_info_of x)"
  obtain q w2 where q: "on_session (ag_rt ag) (\<lambda>st. finish_turn st (end_status x) None ?err) w1 = (q, w2)" by fastforce
  have n: "rei_type z \<noteq> []" if "?err = Some z" for z
    using that exn_class_nonempty by (auto simp: runtime_error_info_of_def split: if_splits)
  obtain ev where ev: "q = Inr ()" "ses_journal (w_session w2) = ses_journal (w_session w1) @ [ev]" "ev_type ev = ''turn_'' @ end_status x"
    "ev_turn_id ev = Some tid" "ses_current_turn_id (w_session w2) = None"
    using finish_turn_writes [OF moves_accepting [OF m(2)] c1 q n] by blast
  have "r' = r" "w' = w2" using e Inl y m(1) q ev(1) by (simp_all add: end_turn_def act_bind_def act_raise_def)
  then show thesis using that [of w1 ev] ev Inl m(2) by (simp add: outcome_status_def)
qed

text \<open>C2. Every turn is closed. Whatever the user's input, the model, the tools, the hooks, the jobs and the listener
  do, and however the turn ends, by an answer, an exception or a cancellation: when \<open>Agent.run\<close> is over, the
  journal has the start of the turn, then the events of the turn, none of which starts or ends a turn and
  which leave no tool call under way, and then, as the last event, its end, with the status that belongs to what
  \<open>run\<close> returned or raised; and the Session has no current turn any more.\<close>

theorem every_turn_is_closed:
  assumes "orderly ag" and "accepting (w_session w)" and "agent_run ag user_input attachments hint source w = Some (r, w')"
  shows "\<exists>tid start es end. ses_journal (w_session w') = ses_journal (w_session w) @ [start] @ es @ [end]
    \<and> ev_type start = ''turn_started'' \<and> ev_turn_id start = Some tid
    \<and> list_all (\<lambda>e. \<not> turn_event e) es \<and> open_calls es {} = {}
    \<and> ev_type end = ''turn_'' @ outcome_status r \<and> ev_turn_id end = Some tid
    \<and> ses_current_turn_id (w_session w') = None"
proof -
  obtain q w1 where s: "start_turn ag hint w = (q, w1)" by fastforce
  obtain tid b where b: "q = Inr tid" "ses_journal (w_session w1) = ses_journal (w_session w) @ [b]" "ev_type b = ''turn_started''"
    "ev_turn_id b = Some tid" "ses_current_turn_id (w_session w1) = Some tid" "accepting (w_session w1)"
    using start_turn_writes [OF assms(2) s] by metis
  obtain r0 w0 where t: "agent_turn ag user_input attachments hint source w = Some (r0, w0)" and e: "end_turn ag r0 w0 = (r, w')"
    using assms(3) by (auto simp: agent_run_def split: option.splits)
  obtain p w2 where p: "submit_input ag user_input attachments source w1 = (p, w2)" by fastforce
  have m2: "moves w1 w2 {} {}" by (rule quiet_moves [OF quiet_submit_input [OF assms(1)] b(6) p])
  have m0: "moves w1 w0 {} {}"
  proof (cases p)
    case (Inl x)
    then show ?thesis using t s b(1) p m2 by (simp add: agent_turn_def)
  next
    case (Inr u)
    let ?ts = "turn_view (new_guard (ag_max_same_tool_calls ag)) 0 w2"
    obtain y where y: "agent_loop ag tid 0 ?ts = Some y" "w0 = turn_world (snd y)"
      using t s b(1) p Inr by (auto simp: agent_turn_def)
    have "moves w2 w0 {} {}"
      using agent_loop_moves [OF assms(1) y(1) refl] moves_accepting [OF m2] y(2) by simp
    then show ?thesis by (rule moves_trans [OF m2])
  qed
  then have c0: "ses_current_turn_id (w_session w0) = Some tid" using b(5) by (auto simp: moves_def trail_def)
  obtain w3 ev where f: "r = r0" "moves w0 w3 {} {}" "ses_journal (w_session w') = ses_journal (w_session w3) @ [ev]"
    "ev_type ev = ''turn_'' @ outcome_status r0" "ev_turn_id ev = Some tid" "ses_current_turn_id (w_session w') = None"
    using end_turn_writes [OF assms(1) moves_accepting [OF m0] c0 e] by metis
  obtain es where es: "trail w1 w3 es" "open_calls es {} = {}" using moves_trans [OF m0 f(2)] by (auto simp: moves_def)
  then show ?thesis using b f
    by (intro exI [of _ tid] exI [of _ b] exI [of _ es] exI [of _ ev]) (simp add: trail_def)
qed

section \<open>A turn\<close>

text \<open>The loop is executable; the bounds of a timestamp are compared as integers.\<close>

declare agent_loop.simps [code]
declare wait_jobs.simps [code]

lemma utc_ok_code [code]:
  "utc_ok t \<longleftrightarrow> 1 \<le> utc_year t \<and> int (utc_year t) \<le> 9999 \<and> 1 \<le> utc_month t \<and> utc_month t \<le> 12
     \<and> 1 \<le> utc_day t \<and> utc_day t \<le> days_in_month (utc_year t) (utc_month t)
     \<and> utc_hour t < 24 \<and> utc_minute t < 60 \<and> utc_second t < 60 \<and> int (utc_micro t) < 1000000"
  by (auto simp: utc_ok_def)

definition chat_response :: llm_response where
  "chat_response = \<lparr>rs_content = Some ''done'', rs_reasoning = None, rs_tool_calls = [], rs_usage = None, rs_provider_data = []\<rparr>"

definition chat_now :: utc where
  "chat_now = \<lparr>utc_year = 1, utc_month = 1, utc_day = 1, utc_hour = 0, utc_minute = 0, utc_second = 0, utc_micro = 0\<rparr>"

definition chat_rt :: "unit agent_env runtime" where
  "chat_rt = \<lparr>rt_stamp = (\<lambda>_. (''e'', chat_now)), rt_now = (\<lambda>_. chat_now), rt_uuid = (\<lambda>_. ''u''), rt_cancelled = (\<lambda>_. False),
     rt_json = \<lparr>jl_dumps = (\<lambda>_. ''{}''), jl_loads = (\<lambda>_. None)\<rparr>, rt_normalize = (\<lambda>_. act_return ''{}''),
     rt_hook_command = (\<lambda>_ _ _ _. act_raise (RuntimeError ''no command'')), rt_duration_ms = (\<lambda>_. 0), rt_workspace = ''/w'',
     rt_agent_role = ''main'', rt_parent_session_id = None\<rparr>"

definition chat_tool :: "unit agent_env tool" where
  "chat_tool = \<lparr>tl_name = ''shell'', tl_concurrent = False, tl_available = (\<lambda>_. True),
     tl_execute = (\<lambda>_ _. act_return \<lparr>to_output = JStr ''ok'', to_attachments = [], to_present_to_user = False\<rparr>)\<rparr>"

definition chat_context :: context_manager where
  "chat_context = \<lparr>cm_provider = \<lparr>pv_identity = JNull, pv_model_name = None, pv_max_context_tokens = 9, pv_max_output_tokens = None,
       pv_count_input_tokens = (\<lambda>_. 1)\<rparr>, cm_system_prompt = [], cm_consolidator_prompt = [], cm_output_reserve_tokens = 1,
     cm_max_generation_tokens = None, cm_media_root = None,
     cm_limits = \<lparr>cl_hard_limit = 8, cl_compression_enabled = False, cl_compression_threshold = 8, cl_keep_recent_units = 1,
       cl_user_anchor_token_budget = 4\<rparr>, cm_system_prompt_tokens = 0\<rparr>"

definition chat_agent :: "unit agent" where
  "chat_agent = \<lparr>ag_rt = chat_rt, ag_tools = mk_toolset [chat_tool] None None [], ag_definitions = (\<lambda>_. []), ag_context = chat_context,
     ag_max_same_tool_calls = 3, ag_canonical = (\<lambda>_. ''{}''), ag_hash = (\<lambda>_. ''h''), ag_local_time = (\<lambda>_. ''now''), ag_memory = (\<lambda>_. None),
     ag_stream = (\<lambda>_ _. act_return chat_response),
     ag_archive_env = (\<lambda>_. \<lparr>ae_stream = (\<lambda>_ _. Inl AgentCancelled), ae_timing = (\<lambda>_. (snd demo_stamp, 0)), ae_stamp = (\<lambda>_. demo_stamp),
       ae_hash = (\<lambda>_. ''h'')\<rparr>),
     ag_on_event = None, ag_submit_error = (\<lambda>_. None), ag_completes = (\<lambda>fs. (fs, None)), ag_external = (\<lambda>_. None), ag_others = (\<lambda>w. w),
     ag_wait_job = (\<lambda>_. act_return ()), ag_wait_turn = (\<lambda>_ w. w), ag_since = (\<lambda>_ _. JNull), ag_clock = (\<lambda>_. JNull),
     ag_moments = (\<lambda>_ _. (demo_stamp, JNull))\<rparr>"

definition chat_world :: "unit aworld" where
  "chat_world = \<lparr>w_session = new_session ''s'' None, w_tick = 0,
     w_env = \<lparr>ge_control = Some new_turn_control, ge_jobs = None, ge_rest = ()\<rparr>\<rparr>"

lemma chat_orderly: "orderly chat_agent"
proof -
  have "quiet_runtime (agent_rt chat_agent) (ag_tools chat_agent)"
    by (auto simp: quiet_runtime_def agent_rt_def chat_agent_def chat_rt_def chat_tool_def mk_toolset_def intro!: quiet)
  then show ?thesis by (auto simp: orderly_def agent_emit_def chat_agent_def intro!: quiet)
qed

theorem every_turn_is_closed_witness:
  "\<exists>r w'. agent_run chat_agent ''hello'' [] None ''user'' chat_world = Some (Inr r, w') \<and> arr_content r = ''done''
     \<and> map ev_type (ses_journal (w_session w')) = [''turn_started'', ''message_appended'', ''model_completed'', ''message_appended'', ''turn_completed'']
     \<and> ses_current_turn_id (w_session w') = None"
proof -
  have acc: "accepting (w_session chat_world)" by (simp add: accepting_def chat_world_def new_session_def)
  have "map_option (\<lambda>(r, w'). (r, map ev_type (ses_journal (w_session w')))) (agent_run chat_agent ''hello'' [] None ''user'' chat_world)
      = Some (Inr \<lparr>arr_content = ''done'', arr_usage = None\<rparr>,
          [''turn_started'', ''message_appended'', ''model_completed'', ''message_appended'', ''turn_completed''])"
    by code_simp
  then obtain w' where run: "agent_run chat_agent ''hello'' [] None ''user'' chat_world
      = Some (Inr \<lparr>arr_content = ''done'', arr_usage = None\<rparr>, w')"
    and types: "map ev_type (ses_journal (w_session w')) = [''turn_started'', ''message_appended'', ''model_completed'', ''message_appended'', ''turn_completed'']"
    by auto
  from every_turn_is_closed [OF chat_orderly acc run] have "ses_current_turn_id (w_session w') = None" by blast
  then show ?thesis using run types
    by (intro exI [of _ "\<lparr>arr_content = ''done'', arr_usage = None\<rparr>"] exI [of _ w']) simp
qed

end
