(* ===== verification/Spec2Isabelle.thy ===== *)
theory Spec2Isabelle
  imports Turn_Control Projection Context_Manager Jobs Tool_Stream Scheduler Session_Store Memory Provider_Stream List_Directory Schedule_Tool Skills Session_Host Agent_Loop
begin

text \<open>
  Nosis is an agent runtime. An Agent works on one Session: it builds a request from the Session's history,
  calls a language model, executes the tool calls of the answer, and goes on until the model answers without
  one. Everything that happens is an event of the Session's journal, which is appended to a file before the
  state changes and is replayed when the Session is opened again. Around that core stand the user (steering,
  cancellation, approvals), background jobs, schedules, long-term memory and the tools that read and change
  the files of a workspace.

  \<^bold>\<open>The theories and the code they model.\<close>

  \<^item> \<open>Nosis_Prelude\<close>: exceptions and results, JSON values, Python's dicts, strings and numbers as far as the
    code uses them, and the locale \<open>replay_log\<close> of a log that is replayed into a state.
  \<^item> \<open>Content\<close>, \<open>Message\<close>, \<open>Tool_Base\<close>: message parts, messages and their JSON form, token usage, timestamps
    (\<open>content.py\<close>, \<open>session.py\<close>, \<open>usage.py\<close>, \<open>time_utils.py\<close>, \<open>errors.py\<close>), tool calls and results
    (\<open>tools/base.py\<close>).
  \<^item> \<open>Session\<close>: the Session as the replay of its journal, every method that writes an event, recovery after a
    crash (\<open>session.py\<close>). Shown: the state is the replay of the journal at every moment, a method takes full
    effect or none, recovery leaves nothing running.
  \<^item> \<open>Journal_File\<close>, \<open>Session_Store\<close>: the journal on disk byte by byte, torn tails, loading, listing, forking
    and metadata (\<open>session_store.py\<close>, \<open>session_paths.py\<close>, \<open>session_title.py\<close>). Shown: a journal cut off
    at any byte outside a character can be read and appended to; appends refine an abstract log; a fork is the prefix of
    its source and is atomic.
  \<^item> \<open>Projection\<close>, \<open>Context_Manager\<close>: the projection of the history into units a provider accepts, token
    budgets with their floating point arithmetic, user anchors and the compression loop (\<open>projection.py\<close>,
    \<open>context_manager.py\<close>, \<open>auxiliary.py\<close>, parts of \<open>llm.py\<close>).
  \<^item> \<open>Turn_Control\<close>: the steering mailbox, the turn control, the repetition guard and the continuation policy
    (\<open>turn_control.py\<close>, \<open>loop_policy.py\<close>), over every interleaving with other threads.
  \<^item> \<open>Jobs\<close>: background jobs over every interleaving of submitters, workers and cancellations (\<open>jobs.py\<close>).
  \<^item> \<open>Authority\<close>: execution authorities, the router, approval policies, presets and the permission controller
    (\<open>execution/authority.py\<close>, \<open>execution/router.py\<close>, \<open>approval.py\<close>, \<open>permissions.py\<close>, the approval modules
    of the runtime).
  \<^item> \<open>Agent_Loop\<close>: one turn of an Agent (\<open>agent.py\<close>), composed of the context manager, the provider, the tool batches,
    the jobs, the turn control and the Session. Shown: however a turn ends, the journal closes it, with its calls and jobs.
  \<^item> \<open>Tool_Result\<close>: the normalizer between a tool and the history (\<open>tool_result.py\<close>). Shown: what reaches the history fits
    the budget, and a result that does not fit is found in the file its summary names.
  \<^item> \<open>Provider_Stream\<close>: the thread that reads a provider's stream and the generator that hands the chunks on
    (\<open>providers/base.py\<close>), over every interleaving. Shown: chunks arrive in order, and a stopped reader ends.
  \<^item> \<open>Plan\<close>: plans and the \<open>update_plan\<close> tool (\<open>plan.py\<close>).
  \<^item> \<open>Tool_Stream\<close>: the assembly of tool calls from a provider's stream (\<open>providers/tool_call_stream.py\<close>).
  \<^item> \<open>Tool_Set\<close>, \<open>Tool_Batch\<close>: the catalog, hooks, the execution of one call behind its hooks, route and policy,
    and the execution of a batch, one after the other or on threads (\<open>tools/catalog.py\<close>, \<open>hooks.py\<close>,
    \<open>tool_batch.py\<close>). Shown: no covered call reaches its tool without consent; no call is left running.
  \<^item> \<open>Calendar\<close>, \<open>Scheduler\<close>: time zones, cron expressions, occurrences, and the schedule store with its polls
    and restarts (\<open>scheduler.py\<close>).
  \<^item> \<open>Memory\<close>: the two memory files, their parsing and rendering, and the reconciliation of a turn
    (\<open>memory.py\<close>).
  \<^item> \<open>Workspace_Files\<close>, \<open>Apply_Patch\<close>, \<open>Text_View\<close>: workspace paths, atomic writes, the file tools, patches
    and bounded views of text (\<open>atomic.py\<close>, \<open>tools/builtin/\<close>, \<open>tools/text.py\<close>, \<open>tools/budget.py\<close>).
  \<^item> \<open>List_Directory\<close>: globs and the paged listing of a directory (\<open>tools/globs.py\<close>,
    \<open>tools/builtin/list_directory.py\<close>). Shown: a glob matches what it denotes, and paging lists every entry once.
  \<^item> \<open>Schedule_Tool\<close>: the tool by which a model manages schedules (\<open>tools/builtin/schedule.py\<close>). Shown: only a Session with
    full access makes a schedule with full access.
  \<^item> \<open>Skills\<close>: skill files, the registry, the \<open>read_skill\<close> tool and the prompts (\<open>skills.py\<close>,
    \<open>tools/builtin/read_skill.py\<close>, \<open>prompting.py\<close>). Shown: the first skill of a name wins, and the tool reads only files of
    a skill's directory.
  \<^item> \<open>Session_Host\<close>: the frontends' side of the Bridge: numbered events, the attachment of clients, the registry of active
    sessions (\<open>interfaces/session_host.py\<close>, \<open>interfaces/bridge/event_stream.py\<close>, the channels of
    \<open>interfaces/bridge_process.py\<close>). Shown: a client misses no event, and a session never has two live runtimes.

  \<^bold>\<open>Conventions.\<close> An object is a record, a method a function on it; a method that may raise returns a sum or a
  state with an optional exception. What runs under a lock is one step, and threads are sequences of such
  steps. Unbounded integers are \<open>int\<close>; binary64 arithmetic is rounded explicitly where a threshold depends on it.

  \<^bold>\<open>Parameters.\<close> The JSON library (\<open>json_lib\<close>), the provider's answers, clocks and identifiers, time zone
  rules, the file system's faults and links, the work of tools, jobs and hook commands, and the display are
  arguments of the definitions; what a theorem assumes of them is a named hypothesis of it, and its witness
  instantiates it.

  \<^bold>\<open>Loops and bounds.\<close> The search of the next cron occurrence goes through the minutes of \<open>CRON_HORIZON\<close>, the bound the
  code itself has; compression makes at most \<open>ARCHIVE_RETRY_COUNT + 1\<close> attempts; the scan for torn tails reads
  blocks of the size the code reads. The wait for background jobs and the turn of an Agent may never end
  and are partial functions into \<open>option\<close>. Reading a file page by page is shown to reach the end within a stated number of calls.

  \<^bold>\<open>Not modelled.\<close> Operating system sandboxes and process execution, the HTTP adapters of the providers, desktop
  automation, the shell, search, web and media tools, the MCP client, the configuration files, the wiring of the Runtime, and of the interfaces the
  servers, the transport and the presentation: their work is input and output, native calls or user interface state.
  Of the frontends' side, starting and killing the Bridge process and the framing of its output are left out. The tools that
  ask the user, control jobs and start a Subagent are not modelled either; the jobs and the turn they start are.
\<close>

end
